(* ===== verification/McPrelude.thy ===== *)
theory McPrelude
  imports Main "HOL-Library.Word"
begin

text \<open>
  Shared vocabulary of the development: the C integer types the server uses as words of their
  width, bytes as characters, addresses as naturals, the memory copy and compare primitives of
  the C library, and the generic facts on words, bits, lists and sums that the component
  theories rest on.
\<close>

unbundle bit_operations_syntax

section \<open>Types\<close>

type_synonym u8 = "8 word"
type_synonym u16 = "16 word"
type_synonym u32 = "32 word"
type_synonym u64 = "64 word"

text \<open>Addresses are naturals, with 0 the null pointer; memory is a total map to bytes.\<close>

type_synonym addr = nat
type_synonym bytes = "char list"
type_synonym mem = "nat \<Rightarrow> char"

text \<open>The status codes of \<^verbatim>\<open>mc_core.h\<close>.\<close>

datatype rstatus = MC_OK | MC_ERROR | MC_EAGAIN | MC_ENOMEM

named_theorems mc_defs \<open>definitions of the model that component proofs unfold together\<close>

section \<open>Bytes of memory\<close>

definition rd_bytes :: "mem \<Rightarrow> nat \<Rightarrow> nat \<Rightarrow> bytes" where
  "rd_bytes m p n = map m [p..<p + n]"

definition wr_bytes :: "mem \<Rightarrow> nat \<Rightarrow> bytes \<Rightarrow> mem" where
  "wr_bytes m p bs = (\<lambda>i. if p \<le> i \<and> i < p + length bs then bs ! (i - p) else m i)"

lemma length_rd_bytes [simp]: "length (rd_bytes m p n) = n"
  by (simp add: rd_bytes_def)

lemma rd_bytes_0 [simp]: "rd_bytes m p 0 = []"
  by (simp add: rd_bytes_def)

lemma nth_rd_bytes [simp]: "i < n \<Longrightarrow> rd_bytes m p n ! i = m (p + i)"
  by (simp add: rd_bytes_def)

lemma rd_bytes_eqI:
  assumes "\<And>i. i < n \<Longrightarrow> m (p + i) = m' (p' + i)"
  shows "rd_bytes m p n = rd_bytes m' p' n"
  using assms by (intro nth_equalityI) auto

lemma rd_wr_bytes_same [simp]: "rd_bytes (wr_bytes m p bs) p (length bs) = bs"
  by (rule nth_equalityI) (auto simp: wr_bytes_def)

lemma rd_wr_bytes_same_len: "n = length bs \<Longrightarrow> rd_bytes (wr_bytes m p bs) p n = bs"
  by simp

lemma rd_wr_bytes_disjoint:
  "q + n \<le> p \<or> p + length bs \<le> q \<Longrightarrow> rd_bytes (wr_bytes m p bs) q n = rd_bytes m q n"
  by (rule rd_bytes_eqI) (auto simp: wr_bytes_def)

lemma rd_bytes_append: "rd_bytes m p (n + k) = rd_bytes m p n @ rd_bytes m (p + n) k"
  using upt_add_eq_append [of p "p + n" k] by (simp add: rd_bytes_def add.assoc [symmetric])

lemma of_char_less_256 [simp]: "(of_char c :: nat) < 256"
  by (metis nat_of_char_less_256)

section \<open>Options\<close>

lemma option_eqI: "(\<And>q. x = Some q \<longleftrightarrow> y = Some q) \<Longrightarrow> x = y"
  by (cases x; cases y) auto

section \<open>Flag bits\<close>

lemma and_exp_neq_0_iff: "(x AND 2 ^ n \<noteq> (0 :: 'a::len word)) \<longleftrightarrow> bit x n"
  by (metis and_exp_eq_0_iff_not_bit)

lemma and_1_neq_0_iff [simp]: "(x AND 1 \<noteq> (0 :: 'a::len word)) \<longleftrightarrow> bit x 0"
  using and_exp_neq_0_iff [of x 0] by simp

lemma and_2_neq_0_iff [simp]: "(x AND 2 \<noteq> (0 :: 'a::len word)) \<longleftrightarrow> bit x 1"
  using and_exp_neq_0_iff [of x 1] by simp

lemma and_4_neq_0_iff [simp]: "(x AND 4 \<noteq> (0 :: 'a::len word)) \<longleftrightarrow> bit x 2"
  using and_exp_neq_0_iff [of x 2] by simp

lemma and_8_neq_0_iff [simp]: "(x AND 8 \<noteq> (0 :: 'a::len word)) \<longleftrightarrow> bit x 3"
  using and_exp_neq_0_iff [of x 3] by simp

end
