(* ===== verification/McHash.thy ===== *)
theory McHash
  imports McPrelude
begin

text \<open>
  The hash function of \<^verbatim>\<open>mc_hash.c\<close> (little-endian build). The C function reads the key through
  32-bit loads when the key's address is 4-aligned, through 16-bit loads when it is 2-aligned and
  byte by byte otherwise; the 32-bit path reads past the end of the key and masks the surplus off.
  The three paths are modelled separately over a byte memory and proved to compute one function
  of the key's bytes, so that a key hashes the same in a request buffer and in an item.
\<close>

section \<open>Mixing\<close>

definition rot :: "u32 \<Rightarrow> nat \<Rightarrow> u32" where
  "rot x k = push_bit k x XOR drop_bit (32 - k) x"

type_synonym abc = "u32 \<times> u32 \<times> u32"

definition mix :: "abc \<Rightarrow> abc" where
  "mix s = (case s of (a, b, c) \<Rightarrow>
     let a = a - c; a = a XOR rot c 4; c = c + b;
         b = b - a; b = b XOR rot a 6; a = a + c;
         c = c - b; c = c XOR rot b 8; b = b + a;
         a = a - c; a = a XOR rot c 16; c = c + b;
         b = b - a; b = b XOR rot a 19; a = a + c;
         c = c - b; c = c XOR rot b 4; b = b + a
     in (a, b, c))"

definition final :: "abc \<Rightarrow> u32" where
  "final s = (case s of (a, b, c) \<Rightarrow>
     let c = c XOR b; c = c - rot b 14;
         a = a XOR c; a = a - rot c 11;
         b = b XOR a; b = b - rot a 25;
         c = c XOR b; c = c - rot b 16;
         a = a XOR c; a = a - rot c 4;
         b = b XOR a; b = b - rot a 14;
         c = c XOR b; c = c - rot b 24
     in c)"

section \<open>Loads\<close>

definition ld8 :: "mem \<Rightarrow> nat \<Rightarrow> u32" where
  "ld8 m p = of_nat (of_char (m p))"

definition ld16 :: "mem \<Rightarrow> nat \<Rightarrow> u32" where
  "ld16 m p = of_nat (of_char (m p) + 256 * of_char (m (p + 1)))"

definition ld32 :: "mem \<Rightarrow> nat \<Rightarrow> u32" where
  "ld32 m p = of_nat (of_char (m p) + 256 * of_char (m (p + 1)) + 65536 * of_char (m (p + 2))
     + 16777216 * of_char (m (p + 3)))"

section \<open>The 4-aligned path\<close>

fun loop32 :: "mem \<Rightarrow> nat \<Rightarrow> nat \<Rightarrow> abc \<Rightarrow> nat \<times> nat \<times> abc" where
  "loop32 m k len (a, b, c) =
     (if 12 < len
      then loop32 m (k + 12) (len - 12)
             (mix (a + ld32 m k, b + ld32 m (k + 4), c + ld32 m (k + 8)))
      else (k, len, (a, b, c)))"

definition tail32 :: "mem \<Rightarrow> nat \<Rightarrow> nat \<Rightarrow> abc \<Rightarrow> u32" where
  "tail32 m k len s = (case s of (a, b, c) \<Rightarrow>
     (if len = 12 then final (a + ld32 m k, b + ld32 m (k + 4), c + ld32 m (k + 8))
      else if len = 11 then final (a + ld32 m k, b + ld32 m (k + 4), c + (ld32 m (k + 8) AND 0xffffff))
      else if len = 10 then final (a + ld32 m k, b + ld32 m (k + 4), c + (ld32 m (k + 8) AND 0xffff))
      else if len = 9 then final (a + ld32 m k, b + ld32 m (k + 4), c + (ld32 m (k + 8) AND 0xff))
      else if len = 8 then final (a + ld32 m k, b + ld32 m (k + 4), c)
      else if len = 7 then final (a + ld32 m k, b + (ld32 m (k + 4) AND 0xffffff), c)
      else if len = 6 then final (a + ld32 m k, b + (ld32 m (k + 4) AND 0xffff), c)
      else if len = 5 then final (a + ld32 m k, b + (ld32 m (k + 4) AND 0xff), c)
      else if len = 4 then final (a + ld32 m k, b, c)
      else if len = 3 then final (a + (ld32 m k AND 0xffffff), b, c)
      else if len = 2 then final (a + (ld32 m k AND 0xffff), b, c)
      else if len = 1 then final (a + (ld32 m k AND 0xff), b, c)
      else c))"

section \<open>The 2-aligned path\<close>

definition ld16x2 :: "mem \<Rightarrow> nat \<Rightarrow> u32" where
  "ld16x2 m p = ld16 m p + push_bit 16 (ld16 m (p + 2))"

fun loop16 :: "mem \<Rightarrow> nat \<Rightarrow> nat \<Rightarrow> abc \<Rightarrow> nat \<times> nat \<times> abc" where
  "loop16 m k len (a, b, c) =
     (if 12 < len
      then loop16 m (k + 12) (len - 12)
             (mix (a + ld16x2 m k, b + ld16x2 m (k + 4), c + ld16x2 m (k + 8)))
      else (k, len, (a, b, c)))"

definition tail16 :: "mem \<Rightarrow> nat \<Rightarrow> nat \<Rightarrow> abc \<Rightarrow> u32" where
  "tail16 m k len s = (case s of (a, b, c) \<Rightarrow>
     (if len = 12 then final (a + ld16x2 m k, b + ld16x2 m (k + 4), c + ld16x2 m (k + 8))
      else if len = 11 \<or> len = 10 then
        (let c = (if len = 11 then c + push_bit 16 (ld8 m (k + 10)) else c)
         in final (a + ld16x2 m k, b + ld16x2 m (k + 4), c + ld16 m (k + 8)))
      else if len = 9 \<or> len = 8 then
        (let c = (if len = 9 then c + ld8 m (k + 8) else c)
         in final (a + ld16x2 m k, b + ld16x2 m (k + 4), c))
      else if len = 7 \<or> len = 6 then
        (let b = (if len = 7 then b + push_bit 16 (ld8 m (k + 6)) else b)
         in final (a + ld16x2 m k, b + ld16 m (k + 4), c))
      else if len = 5 \<or> len = 4 then
        (let b = (if len = 5 then b + ld8 m (k + 4) else b)
         in final (a + ld16x2 m k, b, c))
      else if len = 3 \<or> len = 2 then
        (let a = (if len = 3 then a + push_bit 16 (ld8 m (k + 2)) else a)
         in final (a + ld16 m k, b, c))
      else if len = 1 then final (a + ld8 m k, b, c)
      else c))"

section \<open>The bytewise path\<close>

definition add8x4 :: "mem \<Rightarrow> nat \<Rightarrow> u32 \<Rightarrow> u32" where
  "add8x4 m p x =
     (let x = x + ld8 m p;
          x = x + push_bit 8 (ld8 m (p + 1));
          x = x + push_bit 16 (ld8 m (p + 2));
          x = x + push_bit 24 (ld8 m (p + 3))
      in x)"

fun loop8 :: "mem \<Rightarrow> nat \<Rightarrow> nat \<Rightarrow> abc \<Rightarrow> nat \<times> nat \<times> abc" where
  "loop8 m k len (a, b, c) =
     (if 12 < len
      then loop8 m (k + 12) (len - 12)
             (mix (add8x4 m k a, add8x4 m (k + 4) b, add8x4 m (k + 8) c))
      else (k, len, (a, b, c)))"

text \<open>
  Every case of the last switch falls through to the next one down to \<open>case 1\<close>: the statement
  under label \<open>j\<close> runs when the switch entered at \<open>j\<close> or above.
\<close>

definition fall :: "nat \<Rightarrow> nat \<Rightarrow> u32 \<Rightarrow> u32 \<Rightarrow> u32" where
  "fall len j x v = (if j \<le> len then x + v else x)"

definition tail8 :: "mem \<Rightarrow> nat \<Rightarrow> nat \<Rightarrow> abc \<Rightarrow> u32" where
  "tail8 m k len s = (case s of (a, b, c) \<Rightarrow>
     if len = 0 then c
     else
       (let c = fall len 12 c (push_bit 24 (ld8 m (k + 11)));
            c = fall len 11 c (push_bit 16 (ld8 m (k + 10)));
            c = fall len 10 c (push_bit 8 (ld8 m (k + 9)));
            c = fall len 9 c (ld8 m (k + 8));
            b = fall len 8 b (push_bit 24 (ld8 m (k + 7)));
            b = fall len 7 b (push_bit 16 (ld8 m (k + 6)));
            b = fall len 6 b (push_bit 8 (ld8 m (k + 5)));
            b = fall len 5 b (ld8 m (k + 4));
            a = fall len 4 a (push_bit 24 (ld8 m (k + 3)));
            a = fall len 3 a (push_bit 16 (ld8 m (k + 2)));
            a = fall len 2 a (push_bit 8 (ld8 m (k + 1)));
            a = a + ld8 m k
        in final (a, b, c)))"

section \<open>The hash function\<close>

definition hash_init :: "nat \<Rightarrow> u32 \<Rightarrow> abc" where
  "hash_init len initval = (let x = 0xdeadbeef + of_nat len + initval in (x, x, x))"

definition hash :: "mem \<Rightarrow> nat \<Rightarrow> nat \<Rightarrow> u32 \<Rightarrow> u32" where
  "hash m key len initval =
     (if key mod 4 = 0 then
        (case loop32 m key len (hash_init len initval) of (k, n, s) \<Rightarrow> tail32 m k n s)
      else if key mod 2 = 0 then
        (case loop16 m key len (hash_init len initval) of (k, n, s) \<Rightarrow> tail16 m k n s)
      else
        (case loop8 m key len (hash_init len initval) of (k, n, s) \<Rightarrow> tail8 m k n s))"

text \<open>The same hash as a function of the key's bytes, through the bytewise path.\<close>

definition hash_bytes :: "bytes \<Rightarrow> u32 \<Rightarrow> u32" where
  "hash_bytes bs initval =
     (case loop8 (\<lambda>i. if i < length bs then bs ! i else CHR 0x00) 0 (length bs)
             (hash_init (length bs) initval)
      of (k, n, s) \<Rightarrow> tail8 (\<lambda>i. if i < length bs then bs ! i else CHR 0x00) k n s)"

declare loop32.simps [simp del] loop16.simps [simp del] loop8.simps [simp del]

section \<open>The loads agree\<close>

lemma add8x4_ld32: "add8x4 m p x = x + ld32 m p"
  by (simp add: add8x4_def ld32_def ld8_def push_bit_eq_mult algebra_simps)

lemma ld16x2_ld32: "ld16x2 m p = ld32 m p"
  by (simp add: ld16x2_def ld16_def ld32_def push_bit_eq_mult algebra_simps numeral_3_eq_3)

lemma of_nat_and_mask:
  "(of_nat N :: u32) AND mask n = of_nat (N mod 2 ^ n)"
  by (simp only: take_bit_eq_mask [symmetric] take_bit_of_nat) (simp add: take_bit_eq_mod)

lemma mod_cut: "(x + k * y) mod k = x" if "x < k" for x y k :: nat
  using that by simp

lemma ld32_and_ff: "ld32 m p AND 0xff = ld8 m p"
proof -
  have "ld32 m p AND mask 8 = ld8 m p"
    unfolding ld32_def of_nat_and_mask ld8_def
    using mod_cut [of "of_char (m p)" 256
        "of_char (m (p + 1)) + 256 * of_char (m (p + 2)) + 65536 * of_char (m (p + 3))"]
    by (simp add: algebra_simps)
  then show ?thesis by (simp add: mask_eq_exp_minus_1)
qed

lemma ld32_and_ffff: "ld32 m p AND 0xffff = ld16 m p"
proof -
  have b: "(of_char (m p) :: nat) + 256 * of_char (m (p + 1)) < 65536"
    using of_char_less_256 [of "m p"] of_char_less_256 [of "m (p + 1)"] by linarith
  have "ld32 m p AND mask 16 = ld16 m p"
    unfolding ld32_def of_nat_and_mask ld16_def
    using mod_cut [OF b, of "of_char (m (p + 2)) + 256 * of_char (m (p + 3))"]
    by (simp add: algebra_simps)
  then show ?thesis by (simp add: mask_eq_exp_minus_1)
qed

lemma ld32_and_ffffff: "ld32 m p AND 0xffffff = ld16 m p + push_bit 16 (ld8 m (p + 2))"
proof -
  have b: "(of_char (m p) :: nat) + 256 * of_char (m (p + 1)) + 65536 * of_char (m (p + 2)) < 16777216"
    using of_char_less_256 [of "m p"] of_char_less_256 [of "m (p + 1)"]
      of_char_less_256 [of "m (p + 2)"] by linarith
  have "ld32 m p AND mask 24
      = of_nat (of_char (m p) + 256 * of_char (m (p + 1)) + 65536 * of_char (m (p + 2)))"
    unfolding ld32_def of_nat_and_mask
    using mod_cut [OF b, of "of_char (m (p + 3))"] by (simp add: algebra_simps)
  then show ?thesis
    by (simp add: mask_eq_exp_minus_1 ld16_def ld8_def push_bit_eq_mult)
qed

lemma ld16_ld8: "ld16 m p = ld8 m p + push_bit 8 (ld8 m (p + 1))"
  by (simp add: ld16_def ld8_def push_bit_eq_mult)

lemma ld32_ld8: "ld32 m p = ld8 m p + push_bit 8 (ld8 m (p + 1)) + push_bit 16 (ld8 m (p + 2))
    + push_bit 24 (ld8 m (p + 3))"
  by (simp add: ld32_def ld8_def push_bit_eq_mult)

section \<open>The paths agree\<close>

lemma loop32_loop8: "loop32 m k n s = loop8 m k n s"
proof (induction m k n s rule: loop32.induct)
  case (1 m k n a b c)
  then show ?case
    by (subst loop32.simps, subst loop8.simps) (simp add: add8x4_ld32)
qed

lemma loop16_loop8: "loop16 m k n s = loop8 m k n s"
proof (induction m k n s rule: loop16.induct)
  case (1 m k n a b c)
  then show ?case
    by (subst loop16.simps, subst loop8.simps) (simp add: add8x4_ld32 ld16x2_ld32)
qed

lemma loop8_rest: "loop8 m k n s = (k', n', s') \<Longrightarrow> n' \<le> 12 \<and> k' + n' = k + n"
proof (induction m k n s rule: loop8.induct)
  case (1 m k n a b c)
  show ?case
  proof (cases "12 < n")
    case True
    with 1 show ?thesis by (auto simp: loop8.simps [of m k n])
  next
    case False
    with "1.prems" show ?thesis by (auto simp: loop8.simps [of m k n])
  qed
qed

text \<open>The thirteen lengths of a last block.\<close>

lemma le_12_cases: "n \<le> 12 \<Longrightarrow> n \<in> {12, 11, 10, 9, 8, 7, 6, 5, 4, 3, 2, 1, 0 :: nat}"
  unfolding insert_iff empty_iff by arith

lemmas tail_loads = ld16x2_ld32 ld16_ld8 ld32_ld8 tail8_def fall_def numeral_3_eq_3

lemma tail32_tail8: "n \<le> 12 \<Longrightarrow> tail32 m k n s = tail8 m k n s"
  unfolding tail32_def ld32_and_ff ld32_and_ffff ld32_and_ffffff
  by (drule le_12_cases, elim insertE emptyE)
    (simp_all add: tail_loads algebra_simps split: prod.splits)

lemma tail16_tail8: "n \<le> 12 \<Longrightarrow> tail16 m k n s = tail8 m k n s"
  by (drule le_12_cases, elim insertE emptyE)
    (simp_all add: tail16_def tail_loads algebra_simps split: prod.splits)

lemma hash_loop8:
  "hash m key n initval =
     (case loop8 m key n (hash_init n initval) of (k, n', s) \<Rightarrow> tail8 m k n' s)"
proof -
  obtain k n' s where l: "loop8 m key n (hash_init n initval) = (k, n', s)"
    by (metis prod_cases3)
  then show ?thesis
    using loop8_rest [OF l]
    by (simp add: hash_def loop32_loop8 loop16_loop8 tail32_tail8 tail16_tail8)
qed

section \<open>Only the key's bytes matter\<close>

lemma add8x4_eq:
  assumes "\<And>i. i < 4 \<Longrightarrow> m (k + i) = m' (k' + i)"
  shows "add8x4 m k x = add8x4 m' k' x"
proof -
  have e: "ld8 m (k + i) = ld8 m' (k' + i)" if "i < 4" for i
    using assms that by (simp add: ld8_def)
  have e0: "ld8 m k = ld8 m' k'" using e [of 0] by simp
  have e1: "ld8 m (k + 1) = ld8 m' (k' + 1)" by (rule e) simp
  have e2: "ld8 m (k + 2) = ld8 m' (k' + 2)" by (rule e) simp
  have e3: "ld8 m (k + 3) = ld8 m' (k' + 3)" by (rule e) simp
  show ?thesis unfolding add8x4_def Let_def e0 e1 e2 e3 ..
qed

lemma tail8_eq:
  assumes "\<And>i. i < n \<Longrightarrow> m (k + i) = m' (k' + i)"
  shows "tail8 m k n s = tail8 m' k' n s"
proof -
  have c: "fall n j x (push_bit sh (ld8 m (k + i))) = fall n j x (push_bit sh (ld8 m' (k' + i)))"
    if "i < j" for i j sh x
    using assms [of i] that by (simp add: ld8_def fall_def)
  have d: "fall n j x (ld8 m (k + i)) = fall n j x (ld8 m' (k' + i))" if "i < j" for i j x
    using assms [of i] that by (simp add: ld8_def fall_def)
  show ?thesis
  proof (cases "n = 0")
    case True
    then show ?thesis by (simp add: tail8_def)
  next
    case False
    then have z: "ld8 m k = ld8 m' k'" using assms [of 0] by (simp add: ld8_def)
    have "fall n 12 x (push_bit 24 (ld8 m (k + 11))) = fall n 12 x (push_bit 24 (ld8 m' (k' + 11)))"
      and "fall n 11 x (push_bit 16 (ld8 m (k + 10))) = fall n 11 x (push_bit 16 (ld8 m' (k' + 10)))"
      and "fall n 10 x (push_bit 8 (ld8 m (k + 9))) = fall n 10 x (push_bit 8 (ld8 m' (k' + 9)))"
      and "fall n 9 x (ld8 m (k + 8)) = fall n 9 x (ld8 m' (k' + 8))"
      and "fall n 8 x (push_bit 24 (ld8 m (k + 7))) = fall n 8 x (push_bit 24 (ld8 m' (k' + 7)))"
      and "fall n 7 x (push_bit 16 (ld8 m (k + 6))) = fall n 7 x (push_bit 16 (ld8 m' (k' + 6)))"
      and "fall n 6 x (push_bit 8 (ld8 m (k + 5))) = fall n 6 x (push_bit 8 (ld8 m' (k' + 5)))"
      and "fall n 5 x (ld8 m (k + 4)) = fall n 5 x (ld8 m' (k' + 4))"
      and "fall n 4 x (push_bit 24 (ld8 m (k + 3))) = fall n 4 x (push_bit 24 (ld8 m' (k' + 3)))"
      and "fall n 3 x (push_bit 16 (ld8 m (k + 2))) = fall n 3 x (push_bit 16 (ld8 m' (k' + 2)))"
      and "fall n 2 x (push_bit 8 (ld8 m (k + 1))) = fall n 2 x (push_bit 8 (ld8 m' (k' + 1)))" for x
      by (rule c d, simp)+
    note eqs = this
    show ?thesis unfolding tail8_def Let_def z eqs ..
  qed
qed

lemma loop8_tail8_eq:
  assumes "\<And>i. i < n \<Longrightarrow> m (k + i) = m' (k' + i)"
  shows "(case loop8 m k n s of (k, n, s) \<Rightarrow> tail8 m k n s)
       = (case loop8 m' k' n s of (k, n, s) \<Rightarrow> tail8 m' k n s)"
  using assms
proof (induction n arbitrary: k k' s rule: less_induct)
  case (less n)
  obtain a b c where s: "s = (a, b, c)" by (metis prod_cases3)
  show ?case
  proof (cases "12 < n")
    case False
    then show ?thesis using tail8_eq [of n m k m' k' s] less.prems by (simp add: s loop8.simps)
  next
    case True
    have eq: "add8x4 m (k + j) x = add8x4 m' (k' + j) x" if "j \<le> 8" for j x
      using less.prems that True by (intro add8x4_eq) (simp add: add.assoc)
    have "\<And>i. i < n - 12 \<Longrightarrow> m (k + 12 + i) = m' (k' + 12 + i)"
      using less.prems by (simp add: add.assoc)
    from less.IH [OF _ this] True show ?thesis
      using eq [of 0] eq [of 4] eq [of 8] by (simp add: s loop8.simps [of _ _ n])
  qed
qed

lemma hash_rd_bytes: "hash m key n initval = hash_bytes (rd_bytes m key n) initval"
  unfolding hash_loop8 hash_bytes_def length_rd_bytes
  by (rule loop8_tail8_eq) simp

end
