(* ===== verification/McAssoc.thy ===== *)
theory McAssoc
  imports McHash
begin

text \<open>
  The hash table of \<^verbatim>\<open>mc_assoc.c\<close>: chained buckets of item addresses, grown by doubling while a
  maintenance thread moves the old buckets over one at a time. The table stores addresses; the
  key of an address is read through a function argument \<open>kf\<close> (the caller's item heap). The theory
  states the interface a client of the table may rely on as the locale \<open>item_index\<close> and proves
  that the incremental table implements it in every stage of an expansion.
\<close>

section \<open>State\<close>

record assoc =
  primary_hashtable :: "addr list list"
  old_hashtable :: "addr list list"
  nhash_item :: nat
  hash_power :: nat
  expanding :: bool
  nhash_move_size :: nat
  expand_bucket :: nat
  nbyte_primary :: nat
  nbyte_old :: nat

definition HASHSIZE :: "nat \<Rightarrow> nat" where
  "HASHSIZE n = 2 ^ n"

definition hash_key :: "bytes \<Rightarrow> u32" where
  "hash_key key = hash_bytes key 0"

text \<open>\<^verbatim>\<open>hv & HASHMASK(n)\<close>\<close>

definition hash_idx :: "bytes \<Rightarrow> nat \<Rightarrow> nat" where
  "hash_idx key n = unat (hash_key key AND mask n)"

datatype bucket = OldBucket nat | CurBucket nat

definition SLH_SIZE :: nat where
  "SLH_SIZE = 8"

section \<open>Operations\<close>

definition assoc_create_table :: "nat \<Rightarrow> addr list list" where
  "assoc_create_table table_sz = replicate table_sz []"

definition assoc_get_bucket :: "assoc \<Rightarrow> bytes \<Rightarrow> bucket" where
  "assoc_get_bucket a key =
     (let oldbucket = hash_idx key (hash_power a - 1);
          curbucket = hash_idx key (hash_power a)
      in if expanding a \<and> expand_bucket a \<le> oldbucket then OldBucket oldbucket
         else CurBucket curbucket)"

fun bucket_items :: "assoc \<Rightarrow> bucket \<Rightarrow> addr list" where
  "bucket_items a (OldBucket i) = old_hashtable a ! i"
| "bucket_items a (CurBucket i) = primary_hashtable a ! i"

fun bucket_update :: "assoc \<Rightarrow> bucket \<Rightarrow> addr list \<Rightarrow> assoc" where
  "bucket_update a (OldBucket i) b = a\<lparr>old_hashtable := (old_hashtable a)[i := b]\<rparr>"
| "bucket_update a (CurBucket i) b = a\<lparr>primary_hashtable := (primary_hashtable a)[i := b]\<rparr>"

text \<open>\<open>set_power\<close> is \<^verbatim>\<open>settings.hash_power\<close>, \<open>alloc\<close> whether the table allocation succeeds.\<close>

definition assoc_init :: "nat \<Rightarrow> bool \<Rightarrow> assoc option" where
  "assoc_init set_power alloc =
     (let hp = (if set_power > 0 then set_power else 16) in
      if alloc then
        Some \<lparr>primary_hashtable = assoc_create_table (HASHSIZE hp), old_hashtable = [],
              nhash_item = 0, hash_power = hp, expanding = False, nhash_move_size = 1,
              expand_bucket = 0, nbyte_primary = HASHSIZE hp * SLH_SIZE, nbyte_old = 0\<rparr>
      else None)"

definition assoc_find :: "(addr \<Rightarrow> bytes) \<Rightarrow> assoc \<Rightarrow> bytes \<Rightarrow> addr option" where
  "assoc_find kf a key = find (\<lambda>it. kf it = key) (bucket_items a (assoc_get_bucket a key))"

definition assoc_expand_needed :: "nat \<Rightarrow> assoc \<Rightarrow> bool" where
  "assoc_expand_needed set_power a \<longleftrightarrow>
     set_power = 0 \<and> \<not> expanding a \<and> nhash_item a > HASHSIZE (hash_power a) * 3 div 2"

definition assoc_expand :: "bool \<Rightarrow> assoc \<Rightarrow> assoc" where
  "assoc_expand alloc a =
     (if alloc then
        a\<lparr>old_hashtable := primary_hashtable a,
          nbyte_old := nbyte_primary a,
          primary_hashtable := assoc_create_table (HASHSIZE (hash_power a + 1)),
          nbyte_primary := HASHSIZE (hash_power a + 1) * SLH_SIZE,
          hash_power := hash_power a + 1, expanding := True, expand_bucket := 0\<rparr>
      else a\<lparr>old_hashtable := [], nbyte_old := 0\<rparr>)"

definition assoc_insert :: "nat \<times> bool \<Rightarrow> (addr \<Rightarrow> bytes) \<Rightarrow> addr \<Rightarrow> assoc \<Rightarrow> assoc" where
  "assoc_insert env kf it a =
     (let b = assoc_get_bucket a (kf it);
          a = bucket_update a b (it # bucket_items a b);
          a = a\<lparr>nhash_item := nhash_item a + 1\<rparr>
      in if assoc_expand_needed (fst env) a then assoc_expand (snd env) a else a)"

text \<open>
  The unlinking walk of \<^verbatim>\<open>assoc_delete\<close>; \<open>None\<close> when the key is not in the chain, where the C code
  dereferences a null pointer.
\<close>

fun chain_remove :: "(addr \<Rightarrow> bytes) \<Rightarrow> bytes \<Rightarrow> addr list \<Rightarrow> addr list option" where
  "chain_remove kf key [] = None"
| "chain_remove kf key (it # its) =
     (if kf it = key then Some its else map_option ((#) it) (chain_remove kf key its))"

definition assoc_delete :: "(addr \<Rightarrow> bytes) \<Rightarrow> bytes \<Rightarrow> assoc \<Rightarrow> assoc option" where
  "assoc_delete kf key a =
     (let b = assoc_get_bucket a key in
      case chain_remove kf key (bucket_items a b) of
        None \<Rightarrow> None
      | Some its \<Rightarrow> (let a = bucket_update a b its in Some (a\<lparr>nhash_item := nhash_item a - 1\<rparr>)))"

text \<open>One round of the maintenance loop: move every item of bucket \<open>expand_bucket\<close>.\<close>

fun assoc_move_items :: "(addr \<Rightarrow> bytes) \<Rightarrow> nat \<Rightarrow> addr list \<Rightarrow> addr list list \<Rightarrow> addr list list" where
  "assoc_move_items kf hp [] t = t"
| "assoc_move_items kf hp (it # its) t =
     (let i = hash_idx (kf it) hp in assoc_move_items kf hp its (t[i := it # t ! i]))"

definition assoc_move_bucket :: "(addr \<Rightarrow> bytes) \<Rightarrow> assoc \<Rightarrow> assoc" where
  "assoc_move_bucket kf a =
     (let e = expand_bucket a;
          a = a\<lparr>primary_hashtable :=
                  assoc_move_items kf (hash_power a) (old_hashtable a ! e) (primary_hashtable a),
                old_hashtable := (old_hashtable a)[e := []],
                expand_bucket := e + 1\<rparr>
      in if expand_bucket a = HASHSIZE (hash_power a - 1)
         then a\<lparr>expanding := False, old_hashtable := [], nbyte_old := 0\<rparr>
         else a)"

fun assoc_move_loop :: "(addr \<Rightarrow> bytes) \<Rightarrow> nat \<Rightarrow> assoc \<Rightarrow> assoc" where
  "assoc_move_loop kf 0 a = a"
| "assoc_move_loop kf (Suc n) a =
     (if expanding a then assoc_move_loop kf n (assoc_move_bucket kf a) else a)"

definition assoc_maintenance :: "(addr \<Rightarrow> bytes) \<Rightarrow> assoc \<Rightarrow> assoc" where
  "assoc_maintenance kf a = assoc_move_loop kf (nhash_move_size a) a"

section \<open>Invariant\<close>

definition tbl_set :: "addr list list \<Rightarrow> addr set" where
  "tbl_set t = (\<Union>b \<in> set t. set b)"

definition tbl_size :: "addr list list \<Rightarrow> nat" where
  "tbl_size t = sum_list (map length t)"

definition assoc_set :: "assoc \<Rightarrow> addr set" where
  "assoc_set a = tbl_set (primary_hashtable a) \<union> (if expanding a then tbl_set (old_hashtable a) else {})"

definition assoc_inv :: "(addr \<Rightarrow> bytes) \<Rightarrow> assoc \<Rightarrow> bool" where
  "assoc_inv kf a \<longleftrightarrow>
     1 \<le> hash_power a
     \<and> length (primary_hashtable a) = HASHSIZE (hash_power a)
     \<and> (\<forall>i < length (primary_hashtable a). distinct (map kf (primary_hashtable a ! i))
          \<and> (\<forall>it \<in> set (primary_hashtable a ! i). hash_idx (kf it) (hash_power a) = i
               \<and> (expanding a \<longrightarrow> hash_idx (kf it) (hash_power a - 1) < expand_bucket a)))
     \<and> (expanding a \<longrightarrow>
          length (old_hashtable a) = HASHSIZE (hash_power a - 1)
          \<and> expand_bucket a < HASHSIZE (hash_power a - 1)
          \<and> (\<forall>j < length (old_hashtable a). distinct (map kf (old_hashtable a ! j))
               \<and> (\<forall>it \<in> set (old_hashtable a ! j). hash_idx (kf it) (hash_power a - 1) = j
                    \<and> expand_bucket a \<le> j)))
     \<and> nhash_item a = tbl_size (primary_hashtable a)
          + (if expanding a then tbl_size (old_hashtable a) else 0)"

section \<open>The interface\<close>

text \<open>
  What a client of the table relies on: a finite set of members, found by key, at most one member
  per key; \<open>upkeep\<close> stands for the steps of the maintenance thread, invisible to the client.
\<close>

locale item_index =
  fixes inv :: "('p \<Rightarrow> 'k) \<Rightarrow> 'x \<Rightarrow> bool"
    and members :: "'x \<Rightarrow> 'p set"
    and lookup :: "('p \<Rightarrow> 'k) \<Rightarrow> 'x \<Rightarrow> 'k \<Rightarrow> 'p option"
    and insert :: "'e \<Rightarrow> ('p \<Rightarrow> 'k) \<Rightarrow> 'p \<Rightarrow> 'x \<Rightarrow> 'x"
    and delete :: "('p \<Rightarrow> 'k) \<Rightarrow> 'k \<Rightarrow> 'x \<Rightarrow> 'x option"
    and upkeep :: "('p \<Rightarrow> 'k) \<Rightarrow> 'x \<Rightarrow> 'x"
  assumes lookup_iff: "inv kf x \<Longrightarrow> lookup kf x k = Some p \<longleftrightarrow> p \<in> members x \<and> kf p = k"
    and inv_insert: "inv kf x \<Longrightarrow> lookup kf x (kf p) = None \<Longrightarrow> inv kf (insert e kf p x)"
    and members_insert: "inv kf x \<Longrightarrow> lookup kf x (kf p) = None \<Longrightarrow>
          members (insert e kf p x) = Set.insert p (members x)"
    and delete_member: "inv kf x \<Longrightarrow> p \<in> members x \<Longrightarrow>
          \<exists>x'. delete kf (kf p) x = Some x' \<and> inv kf x' \<and> members x' = members x - {p}"
    and delete_absent: "inv kf x \<Longrightarrow> lookup kf x k = None \<Longrightarrow> delete kf k x = None"
    and inv_upkeep: "inv kf x \<Longrightarrow> inv kf (upkeep kf x)"
    and members_upkeep: "inv kf x \<Longrightarrow> members (upkeep kf x) = members x"
    and inv_cong: "inv kf x \<Longrightarrow> (\<And>p. p \<in> members x \<Longrightarrow> kf p = kf' p) \<Longrightarrow> inv kf' x"
begin

lemma unique: "inv kf x \<Longrightarrow> p \<in> members x \<Longrightarrow> q \<in> members x \<Longrightarrow> kf p = kf q \<Longrightarrow> p = q"
  by (metis lookup_iff option.inject)

lemma lookup_None_iff: "inv kf x \<Longrightarrow> lookup kf x k = None \<longleftrightarrow> (\<forall>p \<in> members x. kf p \<noteq> k)"
  by (metis lookup_iff not_None_eq)

lemma lookup_member: "inv kf x \<Longrightarrow> p \<in> members x \<Longrightarrow> lookup kf x (kf p) = Some p"
  by (simp add: lookup_iff)

lemma lookup_insert:
  assumes "inv kf x" and "lookup kf x (kf p) = None"
  shows "lookup kf (insert e kf p x) = (lookup kf x)(kf p := Some p)"
proof (intro ext option_eqI)
  fix k q
  show "lookup kf (insert e kf p x) k = Some q \<longleftrightarrow> ((lookup kf x)(kf p := Some p)) k = Some q"
    using assms(2) lookup_None_iff [OF assms(1), of "kf p"]
    by (auto simp: lookup_iff [OF assms(1)] lookup_iff [OF inv_insert [OF assms]]
        members_insert [OF assms])
qed

lemma lookup_delete:
  assumes "inv kf x" and "delete kf k x = Some x'"
  shows "inv kf x'" and "lookup kf x' = (lookup kf x)(k := None)"
proof -
  from assms delete_absent obtain p where "lookup kf x k = Some p" by (metis option.distinct(1) not_None_eq)
  then have p: "p \<in> members x" "kf p = k" using lookup_iff [OF assms(1)] by auto
  with delete_member [OF assms(1) p(1)] assms(2) have x': "inv kf x'" "members x' = members x - {p}"
    by auto
  then show "inv kf x'" by simp
  have u: "q \<in> members x \<Longrightarrow> kf q = k \<Longrightarrow> q = p" for q
    using unique [OF assms(1) p(1)] p(2) by simp
  show "lookup kf x' = (lookup kf x)(k := None)"
  proof (intro ext option_eqI)
    fix j q
    show "lookup kf x' j = Some q \<longleftrightarrow> ((lookup kf x)(k := None)) j = Some q"
      using u p(2) by (auto simp: lookup_iff [OF assms(1)] lookup_iff [OF x'(1)] x'(2))
  qed
qed

lemma lookup_upkeep: "inv kf x \<Longrightarrow> lookup kf (upkeep kf x) = lookup kf x"
  by (intro ext option_eqI) (simp add: lookup_iff inv_upkeep members_upkeep)

lemma lookup_cong:
  assumes "inv kf x" and "\<And>p. p \<in> members x \<Longrightarrow> kf p = kf' p"
  shows "lookup kf' x = lookup kf x"
proof (intro ext option_eqI)
  fix k q
  show "lookup kf' x k = Some q \<longleftrightarrow> lookup kf x k = Some q"
    using assms(2) by (auto simp: lookup_iff [OF assms(1)] lookup_iff [OF inv_cong [OF assms]])
qed

end

section \<open>Tables\<close>

lemma hash_idx_less [simp]: "hash_idx key n < HASHSIZE n"
  unfolding hash_idx_def HASHSIZE_def take_bit_eq_mask [symmetric] unsigned_take_bit_eq
  by (rule take_bit_nat_less_exp)

lemma tbl_set_iff: "it \<in> tbl_set t \<longleftrightarrow> (\<exists>i < length t. it \<in> set (t ! i))"
  unfolding tbl_set_def using in_set_conv_nth [of _ t] by fastforce

lemma tbl_size_update:
  "i < length t \<Longrightarrow> tbl_size (t[i := b]) = tbl_size t + length b - length (t ! i)"
  by (simp add: tbl_size_def map_update sum_list_update)

lemma tbl_size_nth_le: "i < length t \<Longrightarrow> length (t ! i) \<le> tbl_size t"
  unfolding tbl_size_def by (rule member_le_sum_list) (auto intro: image_eqI)

lemma tbl_replicate [simp]: "tbl_set (replicate n []) = {}" "tbl_size (replicate n []) = 0"
  by (auto simp: tbl_set_def tbl_size_def sum_list_replicate)

lemma tbl_set_update:
  assumes "i < length t" and "\<And>j it. j < length t \<Longrightarrow> it \<in> set (t ! j) \<Longrightarrow> g it = j"
  shows "tbl_set (t[i := b]) = tbl_set t - set (t ! i) \<union> set b"
proof (intro set_eqI)
  fix it
  have "it \<in> tbl_set (t[i := b]) \<longleftrightarrow> it \<in> set b \<or> (\<exists>j < length t. j \<noteq> i \<and> it \<in> set (t ! j))"
    using assms(1) by (auto simp: tbl_set_iff nth_list_update)
  also have "\<dots> \<longleftrightarrow> it \<in> set b \<or> it \<in> tbl_set t \<and> it \<notin> set (t ! i)"
    using assms by (auto simp: tbl_set_iff)
  finally show "it \<in> tbl_set (t[i := b]) \<longleftrightarrow> it \<in> tbl_set t - set (t ! i) \<union> set b" by blast
qed

lemma find_key_iff:
  "distinct (map kf its) \<Longrightarrow> find (\<lambda>it. kf it = key) its = Some p \<longleftrightarrow> p \<in> set its \<and> kf p = key"
  by (induction its) (auto simp: rev_image_eqI)

lemma chain_remove_Some:
  assumes "distinct (map kf its)" and "p \<in> set its"
  obtains its' where "chain_remove kf (kf p) its = Some its'" and "set its' = set its - {p}"
    and "distinct (map kf its')" and "length its = Suc (length its')"
  using assms
proof (induction its arbitrary: thesis)
  case (Cons it its)
  show ?case
  proof (cases "p = it")
    case True
    with Cons.prems show ?thesis by (intro Cons.prems(1) [of its]) auto
  next
    case False
    with Cons.prems have p: "p \<in> set its" "distinct (map kf its)" and ne: "kf it \<noteq> kf p"
      by (auto simp: image_iff)
    from Cons.IH [OF _ p(2,1)] obtain its' where its': "chain_remove kf (kf p) its = Some its'"
      "set its' = set its - {p}" "distinct (map kf its')" "length its = Suc (length its')" .
    show ?thesis
      using Cons.prems ne its' False by (intro Cons.prems(1) [of "it # its'"]) auto
  qed
qed simp

lemma chain_remove_None: "key \<notin> kf ` set its \<Longrightarrow> chain_remove kf key its = None"
  by (induction its) auto

section \<open>Buckets under the invariant\<close>

lemma assoc_inv_primary:
  assumes "assoc_inv kf a" and "i < length (primary_hashtable a)" and "it \<in> set (primary_hashtable a ! i)"
  shows "hash_idx (kf it) (hash_power a) = i"
    and "expanding a \<Longrightarrow> hash_idx (kf it) (hash_power a - 1) < expand_bucket a"
  using assms by (auto simp: assoc_inv_def)

lemma assoc_inv_old:
  assumes "assoc_inv kf a" and "expanding a" and "i < length (old_hashtable a)"
    and "it \<in> set (old_hashtable a ! i)"
  shows "hash_idx (kf it) (hash_power a - 1) = i" and "expand_bucket a \<le> i"
  using assms by (auto simp: assoc_inv_def)

lemma assoc_inv_disjoint:
  assumes "assoc_inv kf a" and "expanding a"
  shows "tbl_set (primary_hashtable a) \<inter> tbl_set (old_hashtable a) = {}"
  using assms by (fastforce simp: tbl_set_iff assoc_inv_def)

lemma get_bucket_cases:
  assumes "assoc_inv kf a"
  obtains (cur) i where "assoc_get_bucket a key = CurBucket i" and "i = hash_idx key (hash_power a)"
      and "i < length (primary_hashtable a)"
      and "expanding a \<longrightarrow> hash_idx key (hash_power a - 1) < expand_bucket a"
  | (old) j where "assoc_get_bucket a key = OldBucket j" and "j = hash_idx key (hash_power a - 1)"
      and "expanding a" and "j < length (old_hashtable a)" and "expand_bucket a \<le> j"
proof (cases "expanding a \<and> expand_bucket a \<le> hash_idx key (hash_power a - 1)")
  case True
  then show ?thesis
    using assms by (intro old [of "hash_idx key (hash_power a - 1)"]) (auto simp: assoc_get_bucket_def assoc_inv_def)
next
  case False
  then show ?thesis
    using assms by (intro cur [of "hash_idx key (hash_power a)"]) (auto simp: assoc_get_bucket_def assoc_inv_def)
qed

lemma bucket_distinct:
  assumes "assoc_inv kf a"
  shows "distinct (map kf (bucket_items a (assoc_get_bucket a key)))"
  using assms by (cases rule: get_bucket_cases [OF assms, where key = key, case_names cur old]) (auto simp: assoc_inv_def)

lemma bucket_subset: "assoc_inv kf a \<Longrightarrow> set (bucket_items a (assoc_get_bucket a key)) \<subseteq> assoc_set a"
  by (rule get_bucket_cases [of kf a key]) (auto simp: assoc_set_def tbl_set_iff)

lemma bucket_member:
  assumes "assoc_inv kf a"
  shows "it \<in> set (bucket_items a (assoc_get_bucket a (kf it))) \<longleftrightarrow> it \<in> assoc_set a"
proof
  assume "it \<in> assoc_set a"
  then consider (p) i where "i < length (primary_hashtable a)" "it \<in> set (primary_hashtable a ! i)"
    | (o) j where "expanding a" "j < length (old_hashtable a)" "it \<in> set (old_hashtable a ! j)"
    by (auto simp: assoc_set_def tbl_set_iff split: if_splits)
  then show "it \<in> set (bucket_items a (assoc_get_bucket a (kf it)))"
  proof cases
    case p
    with assoc_inv_primary [OF assms p] have "assoc_get_bucket a (kf it) = CurBucket i"
      by (auto simp: assoc_get_bucket_def Let_def)
    with p show ?thesis by simp
  next
    case o
    with assoc_inv_old [OF assms o] have "assoc_get_bucket a (kf it) = OldBucket j"
      by (auto simp: assoc_get_bucket_def Let_def)
    with o show ?thesis by simp
  qed
qed (use bucket_subset [OF assms] in blast)

lemma assoc_find_iff:
  "assoc_inv kf a \<Longrightarrow> assoc_find kf a key = Some it \<longleftrightarrow> it \<in> assoc_set a \<and> kf it = key"
  unfolding assoc_find_def find_key_iff [OF bucket_distinct]
  using bucket_member by blast

lemma assoc_find_None_iff:
  "assoc_inv kf a \<Longrightarrow> assoc_find kf a key = None \<longleftrightarrow> (\<forall>it \<in> assoc_set a. kf it \<noteq> key)"
  by (metis assoc_find_iff not_None_eq)

text \<open>Replacing the bucket of a key by items that were there or have that key.\<close>

lemma inv_bucket_update:
  fixes key a
  defines "b \<equiv> assoc_get_bucket a key"
  assumes inv: "assoc_inv kf a" and d: "distinct (map kf its)"
    and sub: "\<And>it. it \<in> set its \<Longrightarrow> it \<in> set (bucket_items a b) \<or> kf it = key"
    and n: "n = nhash_item a + length its - length (bucket_items a b)"
  shows "assoc_inv kf ((bucket_update a b its)\<lparr>nhash_item := n\<rparr>)"
proof (cases rule: get_bucket_cases [OF inv, where key = key, case_names cur old])
  case (cur i)
  have "hash_idx (kf it) (hash_power a) = i \<and> (expanding a \<longrightarrow> hash_idx (kf it) (hash_power a - 1) < expand_bucket a)"
    if "it \<in> set its" for it
    using sub [OF that] cur assoc_inv_primary [OF inv cur(3), of it] by (auto simp: b_def)
  then show ?thesis
    using inv cur d n tbl_size_nth_le [OF cur(3)]
    by (auto simp: assoc_inv_def b_def nth_list_update tbl_size_update)
next
  case (old j)
  have "hash_idx (kf it) (hash_power a - 1) = j" if "it \<in> set its" for it
    using sub [OF that] old assoc_inv_old [OF inv old(3,4), of it] by (auto simp: b_def)
  then show ?thesis
    using inv old d n tbl_size_nth_le [OF old(4)]
    by (auto simp: assoc_inv_def b_def nth_list_update tbl_size_update)
qed

lemma set_bucket_update:
  assumes "assoc_inv kf a" and "b = assoc_get_bucket a key"
  shows "assoc_set (bucket_update a b its) = assoc_set a - set (bucket_items a b) \<union> set its"
proof (cases rule: get_bucket_cases [OF assms(1), where key = key, case_names cur old])
  case (cur i)
  have "tbl_set ((primary_hashtable a)[i := its])
      = tbl_set (primary_hashtable a) - set (primary_hashtable a ! i) \<union> set its"
    by (rule tbl_set_update [OF cur(3)]) (rule assoc_inv_primary(1) [OF assms(1)])
  moreover have "set (primary_hashtable a ! i) \<subseteq> tbl_set (primary_hashtable a)"
    using cur(3) by (auto simp: tbl_set_iff)
  ultimately show ?thesis
    using cur assms(2) assoc_inv_disjoint [OF assms(1)] by (auto simp: assoc_set_def)
next
  case (old j)
  have "tbl_set ((old_hashtable a)[j := its])
      = tbl_set (old_hashtable a) - set (old_hashtable a ! j) \<union> set its"
    by (rule tbl_set_update [OF old(4)]) (rule assoc_inv_old(1) [OF assms(1) old(3)])
  moreover have "set (old_hashtable a ! j) \<subseteq> tbl_set (old_hashtable a)"
    using old(4) by (auto simp: tbl_set_iff)
  ultimately show ?thesis
    using old assms(2) assoc_inv_disjoint [OF assms(1)] by (auto simp: assoc_set_def)
qed

section \<open>Insertion and deletion\<close>

lemma assoc_expand_inv:
  assumes "assoc_inv kf a" and "\<not> expanding a"
  shows "assoc_inv kf (assoc_expand alloc a)" and "assoc_set (assoc_expand alloc a) = assoc_set a"
  using assms
  by (auto simp: assoc_expand_def assoc_inv_def assoc_set_def assoc_create_table_def HASHSIZE_def)

lemma assoc_insert_inv:
  assumes inv: "assoc_inv kf a" and new: "assoc_find kf a (kf it) = None"
  shows "assoc_inv kf (assoc_insert env kf it a)"
    and "assoc_set (assoc_insert env kf it a) = insert it (assoc_set a)"
proof -
  let ?b = "assoc_get_bucket a (kf it)"
  let ?a = "(bucket_update a ?b (it # bucket_items a ?b))\<lparr>nhash_item := nhash_item a + 1\<rparr>"
  have n: "nhash_item (bucket_update a ?b x) = nhash_item a" for x
    by (cases ?b) auto
  have "kf it \<notin> kf ` set (bucket_items a ?b)"
    using new bucket_subset [OF inv, of "kf it"] by (auto simp: assoc_find_None_iff [OF inv])
  then have i: "assoc_inv kf ?a"
    using bucket_distinct [OF inv, of "kf it"] by (intro inv_bucket_update [OF inv]) auto
  have "assoc_set (x\<lparr>nhash_item := m\<rparr>) = assoc_set x" for x :: assoc and m
    by (simp add: assoc_set_def)
  then have s: "assoc_set ?a = insert it (assoc_set a)"
    using set_bucket_update [OF inv refl] bucket_subset [OF inv, of "kf it"] by auto
  show "assoc_inv kf (assoc_insert env kf it a)"
    and "assoc_set (assoc_insert env kf it a) = insert it (assoc_set a)"
    using i s assoc_expand_inv [OF i]
    by (auto simp: assoc_insert_def Let_def n assoc_expand_needed_def)
qed

lemma assoc_delete_inv:
  assumes inv: "assoc_inv kf a" and mem: "it \<in> assoc_set a"
  shows "\<exists>a'. assoc_delete kf (kf it) a = Some a' \<and> assoc_inv kf a' \<and> assoc_set a' = assoc_set a - {it}"
proof -
  let ?b = "assoc_get_bucket a (kf it)"
  have m: "it \<in> set (bucket_items a ?b)" using mem bucket_member [OF inv] by simp
  obtain its where its: "chain_remove kf (kf it) (bucket_items a ?b) = Some its"
    "set its = set (bucket_items a ?b) - {it}" "distinct (map kf its)"
    "length (bucket_items a ?b) = Suc (length its)"
    by (rule chain_remove_Some [OF bucket_distinct [OF inv] m])
  let ?a = "(bucket_update a ?b its)\<lparr>nhash_item := nhash_item a - 1\<rparr>"
  have n: "nhash_item (bucket_update a ?b x) = nhash_item a" for x
    by (cases ?b) auto
  have "assoc_inv kf ?a"
    using its by (intro inv_bucket_update [OF inv]) auto
  moreover have "assoc_set ?a = assoc_set (bucket_update a ?b its)"
    by (simp add: assoc_set_def)
  moreover have "\<dots> = assoc_set a - {it}"
    using set_bucket_update [OF inv refl, of "kf it" its] its(2) m bucket_subset [OF inv, of "kf it"]
    by blast
  ultimately show ?thesis
    using its(1) by (simp add: assoc_delete_def Let_def n)
qed

lemma assoc_delete_absent:
  "assoc_inv kf a \<Longrightarrow> assoc_find kf a key = None \<Longrightarrow> assoc_delete kf key a = None"
  using bucket_subset [of kf a key] chain_remove_None [of key kf "bucket_items a (assoc_get_bucket a key)"]
  by (fastforce simp: assoc_delete_def Let_def assoc_find_None_iff)

section \<open>Expansion\<close>

lemma length_assoc_move_items [simp]: "length (assoc_move_items kf hp its t) = length t"
  by (induction its arbitrary: t) (auto simp: Let_def)

text \<open>Moving a bucket's items files each of them under its new index.\<close>

lemma assoc_move_items_nth:
  assumes "length t = HASHSIZE hp" and "i < length t"
  shows "assoc_move_items kf hp its t ! i = rev (filter (\<lambda>it. hash_idx (kf it) hp = i) its) @ t ! i"
  using assms
proof (induction its arbitrary: t)
  case (Cons it its)
  then show ?case
    using Cons.IH [of "t[hash_idx (kf it) hp := it # t ! hash_idx (kf it) hp]"]
    by (simp add: Let_def nth_list_update)
qed simp

lemma tbl_size_move_items:
  "length t = HASHSIZE hp \<Longrightarrow> tbl_size (assoc_move_items kf hp its t) = tbl_size t + length its"
proof (induction its arbitrary: t)
  case (Cons it its)
  have "hash_idx (kf it) hp < length t" using Cons.prems by simp
  then show ?case
    using Cons by (simp add: Let_def tbl_size_update)
qed simp

lemma tbl_set_move_items:
  assumes "length t = HASHSIZE hp"
  shows "tbl_set (assoc_move_items kf hp its t) = tbl_set t \<union> set its"
proof (intro set_eqI)
  fix it
  have "it \<in> tbl_set (assoc_move_items kf hp its t)
      \<longleftrightarrow> (\<exists>i < length t. it \<in> set (rev (filter (\<lambda>it. hash_idx (kf it) hp = i) its) @ t ! i))"
    using assms by (simp add: tbl_set_iff assoc_move_items_nth del: set_append cong: conj_cong)
  also have "\<dots> \<longleftrightarrow> it \<in> set its \<or> it \<in> tbl_set t"
    using assms by (auto simp: tbl_set_iff) (metis hash_idx_less)
  finally show "it \<in> tbl_set (assoc_move_items kf hp its t) \<longleftrightarrow> it \<in> tbl_set t \<union> set its" by blast
qed

lemma distinct_move_items:
  assumes "distinct (map kf its)" and "distinct (map kf b)" and "kf ` set its \<inter> kf ` set b = {}"
  shows "distinct (map kf (rev (filter P its) @ b))"
proof -
  have "distinct (map kf (filter P its))" using assms(1) by (rule distinct_map_filter)
  then show ?thesis using assms by (auto simp: rev_map [symmetric])
qed

lemma assoc_move_bucket_inv:
  assumes inv: "assoc_inv kf a" and ex: "expanding a"
  shows "assoc_inv kf (assoc_move_bucket kf a)" and "assoc_set (assoc_move_bucket kf a) = assoc_set a"
proof -
  let ?e = "expand_bucket a" and ?P = "primary_hashtable a" and ?O = "old_hashtable a"
  let ?P' = "assoc_move_items kf (hash_power a) (?O ! ?e) ?P"
  let ?O' = "?O[?e := []]"
  have lens: "length ?P = HASHSIZE (hash_power a)" "length ?O = HASHSIZE (hash_power a - 1)"
    and e: "?e < length ?O" and hp: "1 \<le> hash_power a"
    using inv ex by (auto simp: assoc_inv_def)
  have new: "hash_idx (kf it) (hash_power a - 1) = ?e" if "it \<in> set (?O ! ?e)" for it
    using assoc_inv_old [OF inv ex e that] by simp
  have disj: "kf ` set (?O ! ?e) \<inter> kf ` set (?P ! i) = {}" if "i < length ?P" for i
    using new assoc_inv_primary(2) [OF inv that _ ex] by fastforce
  have P': "distinct (map kf (?P' ! i)) \<and> (\<forall>it \<in> set (?P' ! i). hash_idx (kf it) (hash_power a) = i
       \<and> hash_idx (kf it) (hash_power a - 1) < Suc ?e)" if i: "i < length ?P" for i
  proof
    have "distinct (map kf (?O ! ?e))" and "distinct (map kf (?P ! i))"
      using inv ex e i by (auto simp: assoc_inv_def)
    then show "distinct (map kf (?P' ! i))"
      unfolding assoc_move_items_nth [OF lens(1) i] by (rule distinct_move_items [OF _ _ disj [OF i]])
    show "\<forall>it \<in> set (?P' ! i). hash_idx (kf it) (hash_power a) = i
       \<and> hash_idx (kf it) (hash_power a - 1) < Suc ?e"
      using new assoc_inv_primary [OF inv i] ex
      by (auto simp: assoc_move_items_nth [OF lens(1) i] less_Suc_eq)
  qed
  have O': "distinct (map kf (?O' ! j)) \<and> (\<forall>it \<in> set (?O' ! j). hash_idx (kf it) (hash_power a - 1) = j
       \<and> Suc ?e \<le> j)" if j: "j < length ?O" for j
  proof (cases "j = ?e")
    case False
    then have "?O' ! j = ?O ! j" by simp
    moreover have "distinct (map kf (?O ! j))" using inv ex j by (simp add: assoc_inv_def)
    moreover have "hash_idx (kf it) (hash_power a - 1) = j \<and> Suc ?e \<le> j" if "it \<in> set (?O ! j)" for it
      using assoc_inv_old [OF inv ex j that] False by simp
    ultimately show ?thesis by auto
  qed (use e in simp)
  have sizes: "nhash_item a = tbl_size ?P' + tbl_size ?O'"
    using inv ex e tbl_size_nth_le [OF e]
    by (simp add: assoc_inv_def tbl_size_move_items tbl_size_update)
  have sets: "tbl_set ?P' \<union> tbl_set ?O' = assoc_set a"
    using tbl_set_update [OF e, of "\<lambda>it. hash_idx (kf it) (hash_power a - 1)" "[]"]
      assoc_inv_old(1) [OF inv ex] ex e lens
    by (auto simp: tbl_set_move_items assoc_set_def tbl_set_iff)
  have fin: "tbl_set ?O' = {} \<and> tbl_size ?O' = 0" if "Suc ?e = HASHSIZE (hash_power a - 1)"
  proof -
    have "?O' ! j = []" if "j < length ?O'" for j
      using O' [of j] that lens(2) \<open>Suc ?e = _\<close> by (cases "?O' ! j") auto
    then have "set ?O' \<subseteq> {[]}" by (auto simp: in_set_conv_nth simp del: length_list_update)
    then show ?thesis by (auto simp: tbl_set_def tbl_size_def)
  qed
  show "assoc_inv kf (assoc_move_bucket kf a)"
    using P' O' sizes fin lens hp e ex by (auto simp: assoc_move_bucket_def Let_def assoc_inv_def)
  show "assoc_set (assoc_move_bucket kf a) = assoc_set a"
    using sets fin ex by (auto simp: assoc_move_bucket_def Let_def assoc_set_def)
qed

lemma assoc_move_loop_inv:
  "assoc_inv kf a \<Longrightarrow> assoc_inv kf (assoc_move_loop kf n a) \<and> assoc_set (assoc_move_loop kf n a) = assoc_set a"
  by (induction kf n a rule: assoc_move_loop.induct) (auto simp: assoc_move_bucket_inv)

lemma assoc_maintenance_inv:
  "assoc_inv kf a \<Longrightarrow> assoc_inv kf (assoc_maintenance kf a)"
  "assoc_inv kf a \<Longrightarrow> assoc_set (assoc_maintenance kf a) = assoc_set a"
  by (simp_all add: assoc_maintenance_def assoc_move_loop_inv)

text \<open>Only the keys of the members matter.\<close>

lemma assoc_inv_cong:
  assumes "assoc_inv kf a" and "\<And>it. it \<in> assoc_set a \<Longrightarrow> kf it = kf' it"
  shows "assoc_inv kf' a"
proof -
  have p: "map kf (primary_hashtable a ! i) = map kf' (primary_hashtable a ! i)
      \<and> (\<forall>it \<in> set (primary_hashtable a ! i). kf it = kf' it)" if "i < length (primary_hashtable a)" for i
    using assms(2) that by (auto simp: assoc_set_def tbl_set_iff)
  have o: "map kf (old_hashtable a ! i) = map kf' (old_hashtable a ! i)
      \<and> (\<forall>it \<in> set (old_hashtable a ! i). kf it = kf' it)" if "i < length (old_hashtable a)" "expanding a" for i
    using assms(2) that by (auto simp: assoc_set_def tbl_set_iff)
  show ?thesis using assms(1) p o by (simp add: assoc_inv_def)
qed

interpretation assoc_idx: item_index assoc_inv assoc_set assoc_find assoc_insert assoc_delete assoc_maintenance
proof unfold_locales
  show "\<And>kf x p. assoc_inv kf x \<Longrightarrow> p \<in> assoc_set x \<Longrightarrow>
      \<exists>x'. assoc_delete kf (kf p) x = Some x' \<and> assoc_inv kf x' \<and> assoc_set x' = assoc_set x - {p}"
    by (rule assoc_delete_inv)
qed (simp_all add: assoc_find_iff assoc_insert_inv assoc_delete_absent assoc_maintenance_inv assoc_inv_cong)

text \<open>The table a fresh server starts with is empty.\<close>

lemma assoc_init_inv:
  assumes "assoc_init set_power alloc = Some a"
  shows "assoc_inv kf a" and "assoc_set a = {}"
  using assms
  by (auto simp: assoc_init_def assoc_inv_def assoc_set_def assoc_create_table_def Let_def split: if_splits)

text \<open>An expansion ends: every round of the loop moves one more bucket.\<close>

lemma assoc_move_bucket_progress:
  assumes "assoc_inv kf a" and "expanding a"
  shows "\<not> expanding (assoc_move_bucket kf a)
    \<or> (expanding (assoc_move_bucket kf a) \<and> hash_power (assoc_move_bucket kf a) = hash_power a
       \<and> expand_bucket (assoc_move_bucket kf a) = Suc (expand_bucket a))"
  using assms by (auto simp: assoc_move_bucket_def Let_def)

lemma assoc_move_loop_done:
  "assoc_inv kf a \<Longrightarrow> expanding a \<Longrightarrow> HASHSIZE (hash_power a - 1) - expand_bucket a \<le> n \<Longrightarrow>
     \<not> expanding (assoc_move_loop kf n a)"
proof (induction n arbitrary: a)
  case 0
  then show ?case by (auto simp: assoc_inv_def)
next
  case (Suc n)
  show ?case
  proof (cases "expanding (assoc_move_bucket kf a)")
    case True
    then show ?thesis
      using Suc assoc_move_bucket_inv(1) [OF Suc.prems(1,2)] assoc_move_bucket_progress [OF Suc.prems(1,2)]
      by simp
  next
    case False
    then show ?thesis using Suc.prems(2) by (cases n) auto
  qed
qed

text \<open>So does the maintenance thread, round by round.\<close>

lemma assoc_move_loop_idle: "\<not> expanding a \<Longrightarrow> assoc_move_loop kf n a = a"
  by (cases n) simp_all

lemma assoc_move_loop_add: "assoc_move_loop kf m (assoc_move_loop kf n a) = assoc_move_loop kf (n + m) a"
  by (induction n arbitrary: a) (simp_all add: assoc_move_loop_idle)

lemma assoc_move_loop_size [simp]: "nhash_move_size (assoc_move_loop kf n a) = nhash_move_size a"
  by (induction n arbitrary: a) (simp_all add: assoc_move_bucket_def Let_def)

lemma assoc_maintenance_funpow: "(assoc_maintenance kf ^^ k) a = assoc_move_loop kf (k * nhash_move_size a) a"
proof (induction k)
  case (Suc k)
  then show ?case by (simp add: assoc_maintenance_def assoc_move_loop_add add.commute)
qed simp

lemma assoc_maintenance_ends:
  assumes "assoc_inv kf a" and "expanding a" and "1 \<le> nhash_move_size a"
  shows "\<not> expanding ((assoc_maintenance kf ^^ HASHSIZE (hash_power a - 1)) a)"
  unfolding assoc_maintenance_funpow
proof (rule assoc_move_loop_done [OF assms(1,2)])
  have "HASHSIZE (hash_power a - 1) * 1 \<le> HASHSIZE (hash_power a - 1) * nhash_move_size a"
    using assms(3) by (rule mult_le_mono2)
  then show "HASHSIZE (hash_power a - 1) - expand_bucket a \<le> HASHSIZE (hash_power a - 1) * nhash_move_size a" by linarith
qed

end
