(* ===== verification/McStats.thy ===== *)
theory McStats
  imports McPrelude
begin

text \<open>
  The metrics of \<^verbatim>\<open>mc_stats.h\<close> and the update operations of \<^verbatim>\<open>mc_stats.c\<close>. A counter only grows;
  a gauge keeps its increments and its decrements apart; a maximum follows the aggregated gauges.
  The operations here act on the metrics of the calling thread; the values are 64-bit in C and
  unbounded here.
\<close>

section \<open>Metrics\<close>

datatype stats_metric = Counter int | Gauge int int | Maximum int

datatype smetric =
    data_curr | data_value_curr | item_curr | item_acquire | item_remove | item_link
  | item_unlink | item_expire | item_evict | item_free | slab_req | slab_error | slab_alloc
  | slab_curr | slab_evict | set_success | add_success | replace_success | append_hit
  | append_success | prepend_hit | prepend_success | appendrl_hit | appendrl_success
  | prependrl_hit | prependrl_success | cas_success | get_key_hit | gets_key_hit

datatype tmetric =
    THREAD_conn_disabled | THREAD_conn_total | THREAD_conn_struct | THREAD_conn_yield
  | THREAD_conn_curr | THREAD_data_read | THREAD_data_written | THREAD_add | THREAD_add_exist
  | THREAD_set | THREAD_replace | THREAD_replace_miss | THREAD_append | THREAD_append_miss
  | THREAD_prepend | THREAD_prepend_miss | THREAD_appendrl | THREAD_appendrl_miss
  | THREAD_prependrl | THREAD_prependrl_miss | THREAD_delete | THREAD_delete_hit
  | THREAD_delete_miss | THREAD_incr | THREAD_incr_miss | THREAD_incr_success | THREAD_decr
  | THREAD_decr_miss | THREAD_decr_success | THREAD_cas | THREAD_cas_miss | THREAD_cas_badval
  | THREAD_get | THREAD_get_key | THREAD_get_key_miss | THREAD_gets | THREAD_gets_key
  | THREAD_gets_key_miss | THREAD_cmd_total | THREAD_cmd_error | THREAD_server_error
  | THREAD_klog_logged | THREAD_klog_discarded | THREAD_klog_skipped | THREAD_hotkey_sampled
  | THREAD_hotkey_qps | THREAD_hotkey_bw | THREAD_accept_eagain | THREAD_accept_eintr
  | THREAD_accept_emfile | THREAD_accept_error | THREAD_read_eagain | THREAD_read_error
  | THREAD_write_eagain | THREAD_write_error | THREAD_mem_conn_curr | THREAD_mem_rbuf_curr
  | THREAD_mem_wbuf_curr | THREAD_mem_ilist_curr | THREAD_mem_slist_curr | THREAD_mem_iov_curr
  | THREAD_mem_msg_curr | THREAD_mem_cache_curr

type_synonym slab_metrics = "nat \<Rightarrow> smetric \<Rightarrow> stats_metric"
type_synonym thread_metrics = "tmetric \<Rightarrow> stats_metric"

section \<open>Updates\<close>

fun stats_metric_init :: "stats_metric \<Rightarrow> stats_metric" where
  "stats_metric_init (Counter c) = Counter 0"
| "stats_metric_init (Gauge t b) = Gauge 0 0"
| "stats_metric_init (Maximum x) = Maximum 0"

fun metric_incr_by :: "stats_metric \<Rightarrow> int \<Rightarrow> stats_metric" where
  "metric_incr_by (Counter c) delta = Counter (c + delta)"
| "metric_incr_by (Gauge t b) delta = Gauge (t + delta) b"
| "metric_incr_by (Maximum x) delta = Maximum x"

text \<open>
  \<^verbatim>\<open>value.gauge.b += delta\<close> is only reached on gauges; on a counter or a maximum, whose storage
  does not reach the second cell of the union, the displayed value does not change.
\<close>

fun metric_decr_by :: "stats_metric \<Rightarrow> int \<Rightarrow> stats_metric" where
  "metric_decr_by (Gauge t b) delta = Gauge t (b + delta)"
| "metric_decr_by m delta = m"

definition stats_slab_incr_by :: "nat \<Rightarrow> smetric \<Rightarrow> int \<Rightarrow> slab_metrics \<Rightarrow> slab_metrics" where
  "stats_slab_incr_by cls_id name delta m =
     m(cls_id := (m cls_id)(name := metric_incr_by (m cls_id name) delta))"

definition stats_slab_decr_by :: "nat \<Rightarrow> smetric \<Rightarrow> int \<Rightarrow> slab_metrics \<Rightarrow> slab_metrics" where
  "stats_slab_decr_by cls_id name delta m =
     m(cls_id := (m cls_id)(name := metric_decr_by (m cls_id name) delta))"

definition stats_thread_incr_by :: "tmetric \<Rightarrow> int \<Rightarrow> thread_metrics \<Rightarrow> thread_metrics" where
  "stats_thread_incr_by name delta m = m(name := metric_incr_by (m name) delta)"

definition stats_thread_decr_by :: "tmetric \<Rightarrow> int \<Rightarrow> thread_metrics \<Rightarrow> thread_metrics" where
  "stats_thread_decr_by name delta m = m(name := metric_decr_by (m name) delta)"

section \<open>Reading and aggregation\<close>

fun stats_metric_val :: "stats_metric \<Rightarrow> int" where
  "stats_metric_val (Counter c) = c"
| "stats_metric_val (Gauge t b) = (let delta = t - b in if delta \<ge> 0 then delta else 0)"
| "stats_metric_val (Maximum x) = x"

text \<open>
  The gauge case of \<^verbatim>\<open>stats_metric_update\<close> has no \<^verbatim>\<open>break\<close> and runs into the maximum case, whose
  \<^verbatim>\<open>value.max\<close> is the same storage as \<^verbatim>\<open>value.gauge.t\<close>.
\<close>

fun stats_metric_update :: "stats_metric \<Rightarrow> stats_metric \<Rightarrow> stats_metric" where
  "stats_metric_update (Counter c1) m2 = (case m2 of Counter c2 \<Rightarrow> Counter (c1 + c2) | _ \<Rightarrow> Counter c1)"
| "stats_metric_update (Gauge t1 b1) m2 =
     (case m2 of
        Gauge t2 b2 \<Rightarrow>
          (let t = t1 + t2; b = b1 + b2; val = t2 - b2;
               t = (if t < val then val else t)
           in Gauge t b)
      | _ \<Rightarrow> Gauge t1 b1)"
| "stats_metric_update (Maximum x) m2 =
     (case m2 of
        Gauge t2 b2 \<Rightarrow> (let val = t2 - b2 in Maximum (if x < val then val else x))
      | Counter c2 \<Rightarrow> Maximum (if x < c2 then c2 else x)
      | Maximum y \<Rightarrow> Maximum (if x < y then y else x))"

fun metric_wf :: "stats_metric \<Rightarrow> bool" where
  "metric_wf (Gauge t b) = (0 \<le> t \<and> 0 \<le> b)"
| "metric_wf (Counter c) = (0 \<le> c)"
| "metric_wf (Maximum x) = (0 \<le> x)"

text \<open>With non-negative cells the fall-through never takes effect.\<close>

lemma stats_metric_update_gauge:
  assumes "metric_wf (Gauge t1 b1)" and "metric_wf (Gauge t2 b2)"
  shows "stats_metric_update (Gauge t1 b1) (Gauge t2 b2) = Gauge (t1 + t2) (b1 + b2)"
  using assms by (simp add: Let_def)

lemma metric_wf_update: "metric_wf m1 \<Longrightarrow> metric_wf m2 \<Longrightarrow> metric_wf (stats_metric_update m1 m2)"
  by (cases m1; cases m2) (auto simp: Let_def)

lemma metric_wf_incr: "metric_wf m \<Longrightarrow> 0 \<le> d \<Longrightarrow> metric_wf (metric_incr_by m d)"
  by (cases m) auto

lemma metric_wf_decr: "metric_wf m \<Longrightarrow> 0 \<le> d \<Longrightarrow> metric_wf (metric_decr_by m d)"
  by (cases m) auto

text \<open>The value a gauge stands for, before the display clamps it at zero.\<close>

fun gauge_net :: "stats_metric \<Rightarrow> int" where
  "gauge_net (Gauge t b) = t - b"
| "gauge_net _ = 0"

fun is_gauge :: "stats_metric \<Rightarrow> bool" where
  "is_gauge (Gauge t b) = True"
| "is_gauge _ = False"

lemma gauge_net_incr: "is_gauge m \<Longrightarrow> gauge_net (metric_incr_by m d) = gauge_net m + d"
  by (cases m) auto

lemma gauge_net_decr: "is_gauge m \<Longrightarrow> gauge_net (metric_decr_by m d) = gauge_net m - d"
  by (cases m) auto

lemma is_gauge_incr [simp]: "is_gauge (metric_incr_by m d) = is_gauge m"
  by (cases m) auto

lemma is_gauge_decr [simp]: "is_gauge (metric_decr_by m d) = is_gauge m"
  by (cases m) auto

end
