(* ===== verification/McState.thy ===== *)
theory McState
  imports McAssoc McStats
begin

text \<open>
  The state of the cache: items and slabs as in \<^verbatim>\<open>mc_items.h\<close> and \<^verbatim>\<open>mc_slabs.h\<close>, the slab classes
  and heap information of \<^verbatim>\<open>mc_slabs.c\<close>, the lru queues and cas counter of \<^verbatim>\<open>mc_items.c\<close>, the hash
  table of \<^verbatim>\<open>mc_assoc.c\<close>, the clock, the settings they read, and the metrics they update.

  A \<^verbatim>\<open>TAILQ\<close> or \<^verbatim>\<open>SLIST\<close> is the list of the addresses it links, first to last; the link fields
  are not part of the records. Item ids, key lengths, sizes, offsets and queue lengths are
  naturals; times, value lengths, reference counts, flags and cas ids keep their C width, because
  the code relies on (or suffers from) their wrap-around. Offsets are those of the 64-bit build
  without assertions: \<^verbatim>\<open>ASSERT\<close> expands to nothing.
\<close>

section \<open>Items\<close>

text \<open>
  \<open>it_end\<close> maps an offset from \<^verbatim>\<open>it->end\<close> to the byte there. The eight bytes at \<^verbatim>\<open>it->end\<close> that hold
  the cas id of an item with \<^verbatim>\<open>ITEM_CAS\<close> are the field \<open>it_cas\<close>; the key follows at offset 8.
\<close>

record item =
  it_atime :: u32
  it_exptime :: u32
  it_nbyte :: u32
  it_offset :: nat
  it_dataflags :: u32
  it_refcount :: u16
  it_flags :: u8
  it_id :: nat
  it_nkey :: nat
  it_cas :: u64
  it_end :: mem

definition ITEM_HDR_SIZE :: nat where "ITEM_HDR_SIZE = 49"
definition SLAB_HDR_SIZE :: nat where "SLAB_HDR_SIZE = 32"
definition CAS_SIZE :: nat where "CAS_SIZE = 8"
definition CRLF_LEN :: nat where "CRLF_LEN = 2"

definition ITEM_LINKED :: u8 where "ITEM_LINKED = 1"
definition ITEM_CAS :: u8 where "ITEM_CAS = 2"
definition ITEM_SLABBED :: u8 where "ITEM_SLABBED = 4"
definition ITEM_RALIGN :: u8 where "ITEM_RALIGN = 8"

definition item_has_cas :: "item \<Rightarrow> bool" where
  "item_has_cas it \<longleftrightarrow> it_flags it AND ITEM_CAS \<noteq> 0"

definition item_is_linked :: "item \<Rightarrow> bool" where
  "item_is_linked it \<longleftrightarrow> it_flags it AND ITEM_LINKED \<noteq> 0"

definition item_is_slabbed :: "item \<Rightarrow> bool" where
  "item_is_slabbed it \<longleftrightarrow> it_flags it AND ITEM_SLABBED \<noteq> 0"

definition item_is_raligned :: "item \<Rightarrow> bool" where
  "item_is_raligned it \<longleftrightarrow> it_flags it AND ITEM_RALIGN \<noteq> 0"

definition item_get_cas :: "item \<Rightarrow> u64" where
  "item_get_cas it = (if item_has_cas it then it_cas it else 0)"

definition item_set_cas :: "u64 \<Rightarrow> item \<Rightarrow> item" where
  "item_set_cas cas it = (if item_has_cas it then it\<lparr>it_cas := cas\<rparr> else it)"

text \<open>The offset of the key from \<^verbatim>\<open>it->end\<close>, and the key itself.\<close>

definition item_key_off :: "item \<Rightarrow> nat" where
  "item_key_off it = (if item_has_cas it then CAS_SIZE else 0)"

definition item_key :: "item \<Rightarrow> bytes" where
  "item_key it = rd_bytes (it_end it) (item_key_off it) (it_nkey it)"

definition item_ntotal :: "nat \<Rightarrow> u32 \<Rightarrow> bool \<Rightarrow> nat" where
  "item_ntotal nkey nbyte use_cas =
     (if use_cas then CAS_SIZE else 0) + (ITEM_HDR_SIZE + nkey + 1 + unat nbyte + CRLF_LEN)"

definition item_size :: "item \<Rightarrow> nat" where
  "item_size it = item_ntotal (it_nkey it) (it_nbyte it) (item_has_cas it)"

section \<open>Slabs and slab classes\<close>

record slab =
  sl_id :: nat
  sl_refcount :: u16
  sl_utime :: u32

record slabclass =
  nitem :: nat
  sc_size :: nat
  nfree_itemq :: nat
  free_itemq :: "addr list"
  nfree_item :: nat
  free_item :: addr

definition SLABCLASS_MIN_ID :: nat where "SLABCLASS_MIN_ID = 1"
definition SLABCLASS_MAX_ID :: nat where "SLABCLASS_MAX_ID = 254"
definition SLABCLASS_INVALID_ID :: nat where "SLABCLASS_INVALID_ID = 255"

record heapinfo =
  hi_base :: addr
  hi_curr :: addr
  nslab :: nat
  max_nslab :: nat
  slab_table :: "addr list"
  slab_lruq :: "addr list"

section \<open>Settings\<close>

definition EVICT_LRU :: u32 where "EVICT_LRU = 1"
definition EVICT_RS :: u32 where "EVICT_RS = 2"
definition EVICT_AS :: u32 where "EVICT_AS = 4"
definition EVICT_CS :: u32 where "EVICT_CS = 8"
definition EVICT_INVALID :: int where "EVICT_INVALID = 16"

record settings =
  prealloc :: bool
  use_cas :: bool
  evict_opt :: u32
  use_freeq :: bool
  use_lruq :: bool
  maxbytes :: nat
  slab_size_opt :: nat
  hash_power_opt :: nat
  oldest_live :: u32
  chunk_size :: nat
  max_chunk_size :: nat
  profile :: "nat \<Rightarrow> nat"
  profile_last_id :: nat

section \<open>The cache\<close>

text \<open>
  \<open>nmalloc\<close>, \<open>ntable\<close> and \<open>nrand\<close> count the slab allocations, the hash table insertions and the calls
  of \<^verbatim>\<open>rand()\<close> made so far, whose results the environment supplies. \<open>ub\<close> is set when the code would divide by zero or follow a null
  pointer.
\<close>

record cache =
  items :: "addr \<Rightarrow> item"
  slabs :: "addr \<Rightarrow> slab"
  slabclasses :: "nat \<Rightarrow> slabclass"
  slabclass_max_id :: nat
  heap :: heapinfo
  item_lruq :: "nat \<Rightarrow> addr list"
  hashtbl :: assoc
  cas_id :: u64
  now :: u32
  settings :: settings
  sstats :: slab_metrics
  tstats :: thread_metrics
  nmalloc :: nat
  ntable :: nat
  nrand :: nat
  ub :: bool

text \<open>
  The C library: the result of the n-th allocation of a slab (0 for failure), whether a hash table
  allocation made by the n-th insertion succeeds, and the n-th result of \<^verbatim>\<open>rand()\<close>.
\<close>

record env =
  e_slab :: "nat \<Rightarrow> addr"
  e_table :: "nat \<Rightarrow> bool"
  e_rand :: "nat \<Rightarrow> u32"

section \<open>Field updates\<close>

definition upd_item :: "addr \<Rightarrow> (item \<Rightarrow> item) \<Rightarrow> cache \<Rightarrow> cache" where
  "upd_item p f s = s\<lparr>items := (items s)(p := f (items s p))\<rparr>"

definition upd_slab :: "addr \<Rightarrow> (slab \<Rightarrow> slab) \<Rightarrow> cache \<Rightarrow> cache" where
  "upd_slab p f s = s\<lparr>slabs := (slabs s)(p := f (slabs s p))\<rparr>"

definition upd_class :: "nat \<Rightarrow> (slabclass \<Rightarrow> slabclass) \<Rightarrow> cache \<Rightarrow> cache" where
  "upd_class cid f s = s\<lparr>slabclasses := (slabclasses s)(cid := f (slabclasses s cid))\<rparr>"

definition upd_heap :: "(heapinfo \<Rightarrow> heapinfo) \<Rightarrow> cache \<Rightarrow> cache" where
  "upd_heap f s = s\<lparr>heap := f (heap s)\<rparr>"

definition upd_lruq :: "nat \<Rightarrow> (addr list \<Rightarrow> addr list) \<Rightarrow> cache \<Rightarrow> cache" where
  "upd_lruq cid f s = s\<lparr>item_lruq := (item_lruq s)(cid := f (item_lruq s cid))\<rparr>"

definition sincr_by :: "nat \<Rightarrow> smetric \<Rightarrow> int \<Rightarrow> cache \<Rightarrow> cache" where
  "sincr_by cid m d s = s\<lparr>sstats := stats_slab_incr_by cid m d (sstats s)\<rparr>"

definition sdecr_by :: "nat \<Rightarrow> smetric \<Rightarrow> int \<Rightarrow> cache \<Rightarrow> cache" where
  "sdecr_by cid m d s = s\<lparr>sstats := stats_slab_decr_by cid m d (sstats s)\<rparr>"

abbreviation sincr :: "nat \<Rightarrow> smetric \<Rightarrow> cache \<Rightarrow> cache" where
  "sincr cid m \<equiv> sincr_by cid m 1"

abbreviation sdecr :: "nat \<Rightarrow> smetric \<Rightarrow> cache \<Rightarrow> cache" where
  "sdecr cid m \<equiv> sdecr_by cid m 1"

definition tincr :: "tmetric \<Rightarrow> cache \<Rightarrow> cache" where
  "tincr m s = s\<lparr>tstats := stats_thread_incr_by m 1 (tstats s)\<rparr>"

lemmas upd_defs = upd_item_def upd_slab_def upd_class_def upd_heap_def upd_lruq_def
  sincr_by_def sdecr_by_def tincr_def

section \<open>Flags\<close>

lemmas flag_defs = item_has_cas_def item_is_linked_def item_is_slabbed_def item_is_raligned_def
  ITEM_LINKED_def ITEM_CAS_def ITEM_SLABBED_def ITEM_RALIGN_def

text \<open>The four flag tests as bits, and the effect of setting and clearing a flag on each.\<close>

lemma item_flag_bits:
  "item_is_linked it \<longleftrightarrow> bit (it_flags it) 0"
  "item_has_cas it \<longleftrightarrow> bit (it_flags it) 1"
  "item_is_slabbed it \<longleftrightarrow> bit (it_flags it) 2"
  "item_is_raligned it \<longleftrightarrow> bit (it_flags it) 3"
  by (simp_all add: flag_defs)

lemma bit_1_word: "bit (1 :: u8) n \<longleftrightarrow> n = 0"
  by (simp add: bit_1_iff)

lemma bit_pow2_word: "n < 8 \<Longrightarrow> bit (2 ^ k :: u8) n \<longleftrightarrow> n = k"
  by (auto simp: bit_exp_iff)

lemma bit_2_word: "n < 8 \<Longrightarrow> bit (2 :: u8) n \<longleftrightarrow> n = 1"
  using bit_pow2_word [of n 1] by simp

lemma bit_4_word: "n < 8 \<Longrightarrow> bit (4 :: u8) n \<longleftrightarrow> n = 2"
  using bit_pow2_word [of n 2] by simp

lemma bit_8_word: "n < 8 \<Longrightarrow> bit (8 :: u8) n \<longleftrightarrow> n = 3"
  using bit_pow2_word [of n 3] by simp

lemmas flag_bit_simps = item_flag_bits bit_or_iff bit_and_iff bit_not_iff bit_1_word bit_2_word
  bit_4_word bit_8_word ITEM_LINKED_def ITEM_CAS_def ITEM_SLABBED_def ITEM_RALIGN_def

lemma set_linked [simp]:
  "item_is_linked (it\<lparr>it_flags := it_flags it OR ITEM_LINKED\<rparr>)"
  "item_has_cas (it\<lparr>it_flags := it_flags it OR ITEM_LINKED\<rparr>) = item_has_cas it"
  "item_is_slabbed (it\<lparr>it_flags := it_flags it OR ITEM_LINKED\<rparr>) = item_is_slabbed it"
  "item_is_raligned (it\<lparr>it_flags := it_flags it OR ITEM_LINKED\<rparr>) = item_is_raligned it"
  by (simp_all add: flag_bit_simps)

lemma clear_linked [simp]:
  "\<not> item_is_linked (it\<lparr>it_flags := it_flags it AND NOT ITEM_LINKED\<rparr>)"
  "item_has_cas (it\<lparr>it_flags := it_flags it AND NOT ITEM_LINKED\<rparr>) = item_has_cas it"
  "item_is_slabbed (it\<lparr>it_flags := it_flags it AND NOT ITEM_LINKED\<rparr>) = item_is_slabbed it"
  "item_is_raligned (it\<lparr>it_flags := it_flags it AND NOT ITEM_LINKED\<rparr>) = item_is_raligned it"
  by (simp_all add: flag_bit_simps)

lemma set_slabbed [simp]:
  "item_is_slabbed (it\<lparr>it_flags := it_flags it OR ITEM_SLABBED\<rparr>)"
  "item_has_cas (it\<lparr>it_flags := it_flags it OR ITEM_SLABBED\<rparr>) = item_has_cas it"
  "item_is_linked (it\<lparr>it_flags := it_flags it OR ITEM_SLABBED\<rparr>) = item_is_linked it"
  "item_is_raligned (it\<lparr>it_flags := it_flags it OR ITEM_SLABBED\<rparr>) = item_is_raligned it"
  by (simp_all add: flag_bit_simps)

lemma clear_slabbed [simp]:
  "\<not> item_is_slabbed (it\<lparr>it_flags := it_flags it AND NOT ITEM_SLABBED\<rparr>)"
  "item_has_cas (it\<lparr>it_flags := it_flags it AND NOT ITEM_SLABBED\<rparr>) = item_has_cas it"
  "item_is_linked (it\<lparr>it_flags := it_flags it AND NOT ITEM_SLABBED\<rparr>) = item_is_linked it"
  "item_is_raligned (it\<lparr>it_flags := it_flags it AND NOT ITEM_SLABBED\<rparr>) = item_is_raligned it"
  by (simp_all add: flag_bit_simps)

lemma set_raligned [simp]:
  "item_is_raligned (it\<lparr>it_flags := it_flags it OR ITEM_RALIGN\<rparr>)"
  "item_has_cas (it\<lparr>it_flags := it_flags it OR ITEM_RALIGN\<rparr>) = item_has_cas it"
  "item_is_linked (it\<lparr>it_flags := it_flags it OR ITEM_RALIGN\<rparr>) = item_is_linked it"
  "item_is_slabbed (it\<lparr>it_flags := it_flags it OR ITEM_RALIGN\<rparr>) = item_is_slabbed it"
  by (simp_all add: flag_bit_simps)

lemma fresh_flags [simp]:
  "item_has_cas (it\<lparr>it_flags := ITEM_CAS\<rparr>)" "\<not> item_is_linked (it\<lparr>it_flags := ITEM_CAS\<rparr>)"
  "\<not> item_is_slabbed (it\<lparr>it_flags := ITEM_CAS\<rparr>)" "\<not> item_is_raligned (it\<lparr>it_flags := ITEM_CAS\<rparr>)"
  "\<not> item_has_cas (it\<lparr>it_flags := 0\<rparr>)" "\<not> item_is_linked (it\<lparr>it_flags := 0\<rparr>)"
  "\<not> item_is_slabbed (it\<lparr>it_flags := 0\<rparr>)" "\<not> item_is_raligned (it\<lparr>it_flags := 0\<rparr>)"
  by (simp_all add: flag_bit_simps)

end
