(* ===== verification/McSlabClass.thy ===== *)
theory McSlabClass
  imports McState
begin

text \<open>
  Slab classes: their initialisation from the size profile, the initialisation of the heap
  information and the binary search \<^verbatim>\<open>slab_id\<close> that picks the class of an item
  (\<^verbatim>\<open>mc_slabs.c\<close>).
\<close>

section \<open>Initialisation\<close>

definition slab_size :: "settings \<Rightarrow> nat" where
  "slab_size st = slab_size_opt st - SLAB_HDR_SIZE"

definition slabclass_entry :: "settings \<Rightarrow> nat \<Rightarrow> slabclass \<Rightarrow> slabclass" where
  "slabclass_entry st cid p =
     p\<lparr>nitem := slab_size st div profile st cid, sc_size := profile st cid,
       nfree_itemq := 0, free_itemq := [], nfree_item := 0, free_item := 0\<rparr>"

definition slab_slabclass_init :: "cache \<Rightarrow> cache" where
  "slab_slabclass_init s =
     (let st = settings s; max_id = profile_last_id st in
      s\<lparr>slabclass_max_id := max_id,
        slabclasses := (\<lambda>cid. if SLABCLASS_MIN_ID \<le> cid \<and> cid \<le> max_id
                             then slabclass_entry st cid (slabclasses s cid)
                             else slabclasses s cid)\<rparr>)"

text \<open>\<open>base\<close> is the result of the pre-allocation, \<open>table\<close> whether the slab table was allocated.\<close>

definition slab_heapinfo_init :: "addr \<Rightarrow> bool \<Rightarrow> cache \<Rightarrow> rstatus \<times> cache" where
  "slab_heapinfo_init base table s =
     (let st = settings s;
          s = upd_heap (\<lambda>h. h\<lparr>nslab := 0, max_nslab := maxbytes st div slab_size_opt st, hi_base := 0\<rparr>) s;
          s = (if prealloc st then upd_heap (\<lambda>h. h\<lparr>hi_base := base\<rparr>) s else s)
      in if prealloc st \<and> base = 0 then (MC_ENOMEM, s)
         else
           (let s = upd_heap (\<lambda>h. h\<lparr>hi_curr := hi_base h\<rparr>) s in
            if \<not> table then (MC_ENOMEM, s)
            else (MC_OK, upd_heap (\<lambda>h. h\<lparr>slab_table := [], slab_lruq := []\<rparr>) s)))"

definition slab_init :: "addr \<Rightarrow> bool \<Rightarrow> cache \<Rightarrow> rstatus \<times> cache" where
  "slab_init base table s = slab_heapinfo_init base table (slab_slabclass_init s)"

section \<open>Choosing a class\<close>

definition slab_item_size :: "cache \<Rightarrow> nat \<Rightarrow> nat" where
  "slab_item_size s cid = sc_size (slabclasses s cid)"

function slab_id_loop :: "(nat \<Rightarrow> nat) \<Rightarrow> nat \<Rightarrow> nat \<Rightarrow> nat \<Rightarrow> nat" where
  "slab_id_loop sz n imin imax =
     (if imax \<ge> imin then
        (let cid = (imin + imax) div 2 in
         if n > sz cid then slab_id_loop sz n (cid + 1) imax
         else if cid > SLABCLASS_MIN_ID \<and> n \<le> sz (cid - 1) then slab_id_loop sz n imin (cid - 1)
         else cid)
      else SLABCLASS_INVALID_ID)"
  by pat_completeness auto
termination
  by (relation "measure (\<lambda>(sz, n, imin, imax). imax + 1 - imin)") (auto simp: Let_def)

declare slab_id_loop.simps [simp del]

definition slab_id :: "cache \<Rightarrow> nat \<Rightarrow> nat" where
  "slab_id s n = slab_id_loop (slab_item_size s) n SLABCLASS_MIN_ID (slabclass_max_id s)"

definition item_slabid :: "cache \<Rightarrow> nat \<Rightarrow> u32 \<Rightarrow> nat" where
  "item_slabid s nkey nbyte = slab_id s (item_ntotal nkey nbyte (use_cas (settings s)))"

section \<open>Correctness of the search\<close>

definition ascending :: "(nat \<Rightarrow> nat) \<Rightarrow> nat \<Rightarrow> bool" where
  "ascending sz mx \<longleftrightarrow> (\<forall>i j. SLABCLASS_MIN_ID \<le> i \<longrightarrow> i < j \<longrightarrow> j \<le> mx \<longrightarrow> sz i < sz j)"

lemma ascendingD: "ascending sz mx \<Longrightarrow> SLABCLASS_MIN_ID \<le> i \<Longrightarrow> i < j \<Longrightarrow> j \<le> mx \<Longrightarrow> sz i < sz j"
  by (simp add: ascending_def)

lemma ascending_le: "ascending sz mx \<Longrightarrow> SLABCLASS_MIN_ID \<le> i \<Longrightarrow> i \<le> j \<Longrightarrow> j \<le> mx \<Longrightarrow> sz i \<le> sz j"
  by (cases "i = j") (auto dest: ascendingD [of sz mx i j])

text \<open>
  The least class that fits, if there is one. The loop keeps every class below \<open>imin\<close> too small
  and, when \<open>imax\<close> is not the last class, class \<open>imax\<close> large enough.
\<close>

lemma slab_id_loop_correct:
  assumes "ascending sz mx" and "SLABCLASS_MIN_ID \<le> imin" and "imax \<le> mx"
    and "\<And>j. SLABCLASS_MIN_ID \<le> j \<Longrightarrow> j < imin \<Longrightarrow> sz j < n"
    and "imax = mx \<or> (SLABCLASS_MIN_ID \<le> imax \<and> n \<le> sz imax)"
    and "imin \<le> mx + 1"
  shows "slab_id_loop sz n imin imax =
     (if SLABCLASS_MIN_ID \<le> mx \<and> n \<le> sz mx
      then (LEAST j. SLABCLASS_MIN_ID \<le> j \<and> n \<le> sz j) else SLABCLASS_INVALID_ID)"
  using assms
proof (induction sz n imin imax rule: slab_id_loop.induct)
  case (1 sz n imin imax)
  let ?cid = "(imin + imax) div 2"
  show ?case
  proof (cases "imin \<le> imax")
    case False
    have "\<not> (SLABCLASS_MIN_ID \<le> mx \<and> n \<le> sz mx)"
    proof (cases "imax = mx")
      case True
      then show ?thesis using False "1.prems"(4) [of mx] by auto
    next
      case F: False
      then have "SLABCLASS_MIN_ID \<le> imax \<and> n \<le> sz imax" using "1.prems"(5) by simp
      then show ?thesis using "1.prems"(4) [of imax] False by simp
    qed
    then show ?thesis using False by (auto simp: slab_id_loop.simps [of sz n imin imax])
  next
    case True
    then have c: "imin \<le> ?cid" "?cid \<le> imax" "SLABCLASS_MIN_ID \<le> ?cid" "?cid \<le> mx"
      using "1.prems"(2,3) by auto
    consider (right) "n > sz ?cid" | (left) "\<not> n > sz ?cid" "?cid > SLABCLASS_MIN_ID \<and> n \<le> sz (?cid - 1)"
      | (found) "\<not> n > sz ?cid" "\<not> (?cid > SLABCLASS_MIN_ID \<and> n \<le> sz (?cid - 1))"
      by blast
    then show ?thesis
    proof cases
      case right
      have "sz j < n" if "SLABCLASS_MIN_ID \<le> j" "j < ?cid + 1" for j
        using ascending_le [OF "1.prems"(1) that(1), of ?cid] that(2) c right by simp
      then show ?thesis
        using "1.IH"(1) [OF True refl right "1.prems"(1) _ "1.prems"(3) _ "1.prems"(5)] c right True "1.prems"(2)
        by (simp add: slab_id_loop.simps [of sz n imin imax] Let_def)
    next
      case left
      then have l: "?cid - 1 \<le> mx" "?cid - 1 = mx \<or> (SLABCLASS_MIN_ID \<le> ?cid - 1 \<and> n \<le> sz (?cid - 1))"
        using c(4) by auto
      show ?thesis
        using "1.IH"(2) [OF True refl left "1.prems"(1,2) l(1) "1.prems"(4) l(2) "1.prems"(6)] True left
        by (auto simp: slab_id_loop.simps [of sz n imin imax] Let_def)
    next
      case found
      have small: "sz j < n" if "SLABCLASS_MIN_ID \<le> j" "j < ?cid" for j
        using ascending_le [OF "1.prems"(1) that(1), of "?cid - 1"] that c found(2) by fastforce
      have "(LEAST j. SLABCLASS_MIN_ID \<le> j \<and> n \<le> sz j) = ?cid"
      proof (rule Least_equality)
        show "SLABCLASS_MIN_ID \<le> ?cid \<and> n \<le> sz ?cid" using c found by simp
        fix j assume "SLABCLASS_MIN_ID \<le> j \<and> n \<le> sz j"
        then show "?cid \<le> j" using small [of j] by force
      qed
      moreover have "n \<le> sz mx" using found(1) ascending_le [OF "1.prems"(1) c(3,4)] by simp
      ultimately show ?thesis
        using found True c by (auto simp: slab_id_loop.simps [of sz n imin imax] Let_def)
    qed
  qed
qed

lemma slab_id_Least:
  assumes "ascending (slab_item_size s) (slabclass_max_id s)"
  shows "slab_id s n =
     (if SLABCLASS_MIN_ID \<le> slabclass_max_id s \<and> n \<le> slab_item_size s (slabclass_max_id s)
      then (LEAST j. SLABCLASS_MIN_ID \<le> j \<and> n \<le> slab_item_size s j) else SLABCLASS_INVALID_ID)"
  unfolding slab_id_def
  by (rule slab_id_loop_correct) (use assms in \<open>auto simp: SLABCLASS_MIN_ID_def\<close>)

lemma slab_id_spec:
  assumes asc: "ascending (slab_item_size s) (slabclass_max_id s)"
    and max: "slabclass_max_id s \<le> SLABCLASS_MAX_ID" and r: "slab_id s n = cid"
  shows "cid \<noteq> SLABCLASS_INVALID_ID \<Longrightarrow> SLABCLASS_MIN_ID \<le> cid \<and> cid \<le> slabclass_max_id s
      \<and> n \<le> slab_item_size s cid \<and> (\<forall>j. SLABCLASS_MIN_ID \<le> j \<and> j < cid \<longrightarrow> slab_item_size s j < n)"
    and "cid = SLABCLASS_INVALID_ID \<Longrightarrow>
      \<forall>j. SLABCLASS_MIN_ID \<le> j \<and> j \<le> slabclass_max_id s \<longrightarrow> slab_item_size s j < n"
proof -
  define P where "P j \<longleftrightarrow> SLABCLASS_MIN_ID \<le> j \<and> n \<le> slab_item_size s j" for j
  have eq: "cid = (if P (slabclass_max_id s) then Least P else SLABCLASS_INVALID_ID)"
    using slab_id_Least [OF asc, of n] r by (simp add: P_def [abs_def])
  show "SLABCLASS_MIN_ID \<le> cid \<and> cid \<le> slabclass_max_id s
      \<and> n \<le> slab_item_size s cid \<and> (\<forall>j. SLABCLASS_MIN_ID \<le> j \<and> j < cid \<longrightarrow> slab_item_size s j < n)"
    if "cid \<noteq> SLABCLASS_INVALID_ID"
  proof -
    have f: "P (slabclass_max_id s)" and c: "cid = Least P"
      using that unfolding eq by (auto split: if_splits)
    have "P cid" unfolding c by (rule LeastI [of P, OF f])
    moreover have "cid \<le> slabclass_max_id s" unfolding c by (rule Least_le [of P, OF f])
    moreover have "\<forall>j<cid. \<not> P j" unfolding c by (blast dest: not_less_Least)
    ultimately show ?thesis by (auto simp: P_def not_le)
  qed
  show "\<forall>j. SLABCLASS_MIN_ID \<le> j \<and> j \<le> slabclass_max_id s \<longrightarrow> slab_item_size s j < n"
    if "cid = SLABCLASS_INVALID_ID"
  proof (intro allI impI)
    fix j assume j: "SLABCLASS_MIN_ID \<le> j \<and> j \<le> slabclass_max_id s"
    have "\<not> P (slabclass_max_id s)"
    proof
      assume f: "P (slabclass_max_id s)"
      then have "SLABCLASS_INVALID_ID \<le> slabclass_max_id s"
        using that Least_le [of P, OF f] unfolding eq by simp
      then show False using max by (simp add: SLABCLASS_INVALID_ID_def SLABCLASS_MAX_ID_def)
    qed
    then show "slab_item_size s j < n"
      using ascending_le [OF asc, of j "slabclass_max_id s"] j by (auto simp: P_def)
  qed
qed

end
