(* ===== verification/McSlabs.thy ===== *)
theory McSlabs
  imports McSlabClass
begin

text \<open>
  The item primitives of \<^verbatim>\<open>mc_items.c\<close> that the slab allocator calls back into, and the slab
  allocator of \<^verbatim>\<open>mc_slabs.c\<close>: slab headers, the heap of slabs, the slab lru queue, eviction of a
  slab, and handing out and taking back items. Each operation maps the cache state to the new
  state, paired with its result where it has one; a null pointer is \<open>None\<close> in results.

  Locks are not part of the state: an operation runs under \<^verbatim>\<open>cache_lock\<close>, so each is one atomic
  step. Logging calls are left out.
\<close>

section \<open>Item primitives\<close>

definition item_next_cas :: "cache \<Rightarrow> u64 \<times> cache" where
  "item_next_cas s =
     (if use_cas (settings s) then (cas_id s + 1, s\<lparr>cas_id := cas_id s + 1\<rparr>) else (0, s))"

definition item_expired :: "cache \<Rightarrow> addr \<Rightarrow> bool" where
  "item_expired s it \<longleftrightarrow> it_exptime (items s it) > 0 \<and> it_exptime (items s it) < now s"

definition item_init :: "cache \<Rightarrow> cache" where
  "item_init s =
     s\<lparr>item_lruq := (\<lambda>i. if SLABCLASS_MIN_ID \<le> i \<and> i \<le> SLABCLASS_MAX_ID then [] else item_lruq s i),
       cas_id := 0\<rparr>"

text \<open>The offset of the payload from \<^verbatim>\<open>it->end\<close>, and the payload.\<close>

definition item_data :: "cache \<Rightarrow> addr \<Rightarrow> nat" where
  "item_data s a =
     (let it = items s a in
      if item_is_raligned it
      then slab_item_size s (it_id it) - unat (it_nbyte it) - ITEM_HDR_SIZE
      else it_nkey it + 1 + (if item_has_cas it then CAS_SIZE else 0))"

definition item_value :: "cache \<Rightarrow> addr \<Rightarrow> bytes" where
  "item_value s a = rd_bytes (it_end (items s a)) (item_data s a) (unat (it_nbyte (items s a)))"

definition item_2_slab :: "cache \<Rightarrow> addr \<Rightarrow> addr" where
  "item_2_slab s it = it - it_offset (items s it)"

definition slab_acquire_refcount :: "addr \<Rightarrow> cache \<Rightarrow> cache" where
  "slab_acquire_refcount p = upd_slab p (\<lambda>sl. sl\<lparr>sl_refcount := sl_refcount sl + 1\<rparr>)"

definition slab_release_refcount :: "addr \<Rightarrow> cache \<Rightarrow> cache" where
  "slab_release_refcount p = upd_slab p (\<lambda>sl. sl\<lparr>sl_refcount := sl_refcount sl - 1\<rparr>)"

definition item_acquire_refcount :: "addr \<Rightarrow> cache \<Rightarrow> cache" where
  "item_acquire_refcount it s =
     (let s = upd_item it (\<lambda>i. i\<lparr>it_refcount := it_refcount i + 1\<rparr>) s
      in slab_acquire_refcount (item_2_slab s it) s)"

definition item_release_refcount :: "addr \<Rightarrow> cache \<Rightarrow> cache" where
  "item_release_refcount it s =
     (let s = upd_item it (\<lambda>i. i\<lparr>it_refcount := it_refcount i - 1\<rparr>) s
      in slab_release_refcount (item_2_slab s it) s)"

definition item_hdr_init :: "addr \<Rightarrow> nat \<Rightarrow> nat \<Rightarrow> cache \<Rightarrow> cache" where
  "item_hdr_init it offset cid =
     upd_item it (\<lambda>i. i\<lparr>it_offset := offset, it_id := cid, it_refcount := 0, it_flags := 0\<rparr>)"

section \<open>The slab lru queue\<close>

definition slab_lruq_head :: "cache \<Rightarrow> addr option" where
  "slab_lruq_head s = (case slab_lruq (heap s) of [] \<Rightarrow> None | p # ps \<Rightarrow> Some p)"

definition slab_lruq_append :: "addr \<Rightarrow> cache \<Rightarrow> cache" where
  "slab_lruq_append p = upd_heap (\<lambda>h. h\<lparr>slab_lruq := slab_lruq h @ [p]\<rparr>)"

definition slab_lruq_remove :: "addr \<Rightarrow> cache \<Rightarrow> cache" where
  "slab_lruq_remove p = upd_heap (\<lambda>h. h\<lparr>slab_lruq := remove1 p (slab_lruq h)\<rparr>)"

definition slab_link_lruq :: "addr \<Rightarrow> cache \<Rightarrow> cache" where
  "slab_link_lruq p s = slab_lruq_append p (upd_slab p (\<lambda>sl. sl\<lparr>sl_utime := now s\<rparr>) s)"

definition slab_unlink_lruq :: "addr \<Rightarrow> cache \<Rightarrow> cache" where
  "slab_unlink_lruq p = slab_lruq_remove p"

definition SLAB_LRU_UPDATE_INTERVAL :: u32 where "SLAB_LRU_UPDATE_INTERVAL = 1"

definition slab_lruq_touch :: "addr \<Rightarrow> bool \<Rightarrow> cache \<Rightarrow> cache" where
  "slab_lruq_touch p allocated s =
     (if \<not> (allocated \<and> evict_opt (settings s) AND EVICT_CS \<noteq> 0)
         \<and> \<not> (evict_opt (settings s) AND EVICT_AS \<noteq> 0) then s
      else if sl_utime (slabs s p) \<ge> now s - SLAB_LRU_UPDATE_INTERVAL then s
      else slab_link_lruq p (slab_unlink_lruq p s))"

section \<open>The item lru queues and the hash table\<close>

definition item_link_q :: "addr \<Rightarrow> bool \<Rightarrow> cache \<Rightarrow> cache" where
  "item_link_q it allocated s =
     (let cid = it_id (items s it);
          s = upd_item it (\<lambda>i. i\<lparr>it_atime := now s\<rparr>) s;
          s = upd_lruq cid (\<lambda>q. q @ [it]) s;
          s = slab_lruq_touch (item_2_slab s it) allocated s;
          s = sincr cid item_curr s;
          s = sincr_by cid data_curr (int (item_size (items s it))) s
      in sincr_by cid data_value_curr (uint (it_nbyte (items s it))) s)"

definition item_unlink_q :: "addr \<Rightarrow> cache \<Rightarrow> cache" where
  "item_unlink_q it s =
     (let cid = it_id (items s it);
          s = upd_lruq cid (remove1 it) s;
          s = sdecr cid item_curr s;
          s = sdecr_by cid data_curr (int (item_size (items s it))) s
      in sdecr_by cid data_value_curr (uint (it_nbyte (items s it))) s)"

text \<open>The key of an address in the present item memory, and the table operations on it.\<close>

definition key_of :: "cache \<Rightarrow> addr \<Rightarrow> bytes" where
  "key_of s a = item_key (items s a)"

definition index_find :: "cache \<Rightarrow> bytes \<Rightarrow> addr option" where
  "index_find s key = assoc_find (key_of s) (hashtbl s) key"

definition index_insert :: "env \<Rightarrow> addr \<Rightarrow> cache \<Rightarrow> cache" where
  "index_insert e it s =
     s\<lparr>hashtbl := assoc_insert (hash_power_opt (settings s), e_table e (ntable s)) (key_of s) it (hashtbl s),
       ntable := ntable s + 1\<rparr>"

definition index_delete :: "bytes \<Rightarrow> cache \<Rightarrow> cache" where
  "index_delete key s =
     (case assoc_delete (key_of s) key (hashtbl s) of
        None \<Rightarrow> s\<lparr>ub := True\<rparr>
      | Some a \<Rightarrow> s\<lparr>hashtbl := a\<rparr>)"

definition item_reuse :: "addr \<Rightarrow> cache \<Rightarrow> cache" where
  "item_reuse it s =
     (let s = upd_item it (\<lambda>i. i\<lparr>it_flags := it_flags i AND NOT ITEM_LINKED\<rparr>) s;
          s = index_delete (key_of s it) s
      in item_unlink_q it s)"

section \<open>Slabs\<close>

definition slab_2_item :: "addr \<Rightarrow> nat \<Rightarrow> nat \<Rightarrow> addr" where
  "slab_2_item p idx sz = p + SLAB_HDR_SIZE + idx * sz"

definition slab_hdr_init :: "addr \<Rightarrow> nat \<Rightarrow> cache \<Rightarrow> cache" where
  "slab_hdr_init p cid = upd_slab p (\<lambda>sl. sl\<lparr>sl_id := cid, sl_refcount := 0\<rparr>)"

definition slab_heap_full :: "cache \<Rightarrow> bool" where
  "slab_heap_full s \<longleftrightarrow> nslab (heap s) \<ge> max_nslab (heap s)"

definition slab_heap_alloc :: "env \<Rightarrow> cache \<Rightarrow> addr \<times> cache" where
  "slab_heap_alloc e s =
     (if prealloc (settings s)
      then (hi_curr (heap s), upd_heap (\<lambda>h. h\<lparr>hi_curr := hi_curr h + slab_size_opt (settings s)\<rparr>) s)
      else (e_slab e (nmalloc s), s\<lparr>nmalloc := nmalloc s + 1\<rparr>))"

definition slab_table_update :: "addr \<Rightarrow> cache \<Rightarrow> cache" where
  "slab_table_update p = upd_heap (\<lambda>h. h\<lparr>slab_table := take (nslab h) (slab_table h) @ [p], nslab := nslab h + 1\<rparr>)"

text \<open>The remainder by an empty table is undefined.\<close>

definition slab_table_rand :: "env \<Rightarrow> cache \<Rightarrow> addr \<times> cache" where
  "slab_table_rand e s =
     (let n = nslab (heap s); r = unat (e_rand e (nrand s)); s = s\<lparr>nrand := nrand s + 1\<rparr>
      in if n = 0 then (0, s\<lparr>ub := True\<rparr>) else (slab_table (heap s) ! (r mod n), s))"

definition slab_get_new :: "env \<Rightarrow> cache \<Rightarrow> addr option \<times> cache" where
  "slab_get_new e s =
     (if slab_heap_full s then (None, s)
      else
        (let (p, s) = slab_heap_alloc e s
         in if p = 0 then (None, s) else (Some p, slab_table_update p s)))"

section \<open>Eviction of a slab\<close>

definition slab_evict_item :: "addr \<Rightarrow> addr \<Rightarrow> cache \<Rightarrow> cache" where
  "slab_evict_item p it s =
     (let cid = sl_id (slabs s p) in
      if item_is_linked (items s it) then item_reuse it s
      else if item_is_slabbed (items s it) then
        (let s = upd_item it (\<lambda>i. i\<lparr>it_flags := it_flags i AND NOT ITEM_SLABBED\<rparr>) s;
             s = upd_class cid (\<lambda>c. c\<lparr>nfree_itemq := nfree_itemq c - 1,
                                       free_itemq := remove1 it (free_itemq c)\<rparr>) s
         in sdecr cid item_free s)
      else s)"

definition slab_evict_one :: "addr \<Rightarrow> cache \<Rightarrow> cache" where
  "slab_evict_one p s =
     (let cid = sl_id (slabs s p);
          c = slabclasses s cid;
          s = (if free_item c \<noteq> 0 \<and> p = item_2_slab s (free_item c)
               then upd_class cid (\<lambda>c. c\<lparr>nfree_item := 0, free_item := 0\<rparr>) s else s);
          s = fold (\<lambda>i. slab_evict_item p (slab_2_item p i (sc_size c))) [0..<nitem c] s;
          s = slab_lruq_remove p s;
          s = sincr cid slab_evict s
      in sdecr cid slab_curr s)"

definition SLAB_RAND_MAX_TRIES :: nat where "SLAB_RAND_MAX_TRIES = 50"
definition SLAB_LRU_MAX_TRIES :: nat where "SLAB_LRU_MAX_TRIES = 50"

text \<open>The search of \<^verbatim>\<open>slab_evict_rand\<close>: the slab it stops at and the tries that are left.\<close>

fun slab_rand_loop :: "env \<Rightarrow> nat \<Rightarrow> cache \<Rightarrow> addr \<times> nat \<times> cache" where
  "slab_rand_loop e 0 s = (0, 0, s)"
| "slab_rand_loop e (Suc tries) s =
     (let (p, s) = slab_table_rand e s
      in if tries > 0 \<and> sl_refcount (slabs s p) \<noteq> 0 then slab_rand_loop e tries s
         else (p, tries, s))"

definition slab_evict_rand :: "env \<Rightarrow> cache \<Rightarrow> addr option \<times> cache" where
  "slab_evict_rand e s =
     (let (p, tries, s) = slab_rand_loop e SLAB_RAND_MAX_TRIES s
      in if tries = 0 then (None, s) else (Some p, slab_evict_one p s))"

fun slab_lru_loop :: "cache \<Rightarrow> nat \<Rightarrow> addr list \<Rightarrow> addr option" where
  "slab_lru_loop s 0 ps = None"
| "slab_lru_loop s (Suc tries) [] = None"
| "slab_lru_loop s (Suc tries) (p # ps) =
     (if sl_refcount (slabs s p) = 0 then Some p else slab_lru_loop s tries ps)"

definition slab_evict_lru :: "cache \<Rightarrow> addr option \<times> cache" where
  "slab_evict_lru s =
     (case slab_lru_loop s SLAB_LRU_MAX_TRIES (slab_lruq (heap s)) of
        None \<Rightarrow> (None, s)
      | Some p \<Rightarrow> (Some p, slab_evict_one p s))"

section \<open>Getting a slab\<close>

definition slab_add_one :: "addr \<Rightarrow> nat \<Rightarrow> cache \<Rightarrow> cache" where
  "slab_add_one p cid s =
     (let s = sincr cid slab_alloc s;
          s = sincr cid slab_curr s;
          s = slab_hdr_init p cid s;
          s = slab_lruq_append p s;
          c = slabclasses s cid;
          s = fold (\<lambda>i. let it = slab_2_item p i (sc_size c) in item_hdr_init it (it - p) cid) [0..<nitem c] s
      in upd_class cid (\<lambda>c. c\<lparr>nfree_item := nitem c, free_item := p + SLAB_HDR_SIZE\<rparr>) s)"

definition slab_get :: "env \<Rightarrow> nat \<Rightarrow> cache \<Rightarrow> rstatus \<times> cache" where
  "slab_get e cid s =
     (let s = sincr cid slab_req s;
          (slab, s) = slab_get_new e s;
          (slab, s) = (if slab = None \<and> evict_opt (settings s) AND (EVICT_CS OR EVICT_AS) \<noteq> 0
                       then slab_evict_lru s else (slab, s));
          (slab, s) = (if slab = None \<and> evict_opt (settings s) AND EVICT_RS \<noteq> 0
                       then slab_evict_rand e s else (slab, s))
      in case slab of
           Some p \<Rightarrow> (MC_OK, slab_add_one p cid s)
         | None \<Rightarrow> (MC_ENOMEM, sincr cid slab_error s))"

section \<open>Getting and putting back an item\<close>

definition slab_get_item_from_freeq :: "nat \<Rightarrow> cache \<Rightarrow> addr option \<times> cache" where
  "slab_get_item_from_freeq cid s =
     (if \<not> use_freeq (settings s) then (None, s)
      else if nfree_itemq (slabclasses s cid) = 0 then (None, s)
      else
        (let it = hd (free_itemq (slabclasses s cid));
             s = upd_item it (\<lambda>i. i\<lparr>it_flags := it_flags i AND NOT ITEM_SLABBED\<rparr>) s;
             s = upd_class cid (\<lambda>c. c\<lparr>nfree_itemq := nfree_itemq c - 1,
                                       free_itemq := remove1 it (free_itemq c)\<rparr>) s
         in (Some it, sdecr cid item_free s)))"

text \<open>Taking the next item of the current slab; \<^verbatim>\<open>--p->nfree_item\<close> is 32 bits wide.\<close>

definition slab_take_free :: "nat \<Rightarrow> cache \<Rightarrow> addr \<times> cache" where
  "slab_take_free cid s =
     (let c = slabclasses s cid;
          n = (if nfree_item c = 0 then 2 ^ 32 - 1 else nfree_item c - 1);
          f = (if n \<noteq> 0 then free_item c + sc_size c else 0)
      in (free_item c, upd_class cid (\<lambda>c. c\<lparr>nfree_item := n, free_item := f\<rparr>) s))"

definition slab_get_item :: "env \<Rightarrow> nat \<Rightarrow> cache \<Rightarrow> addr option \<times> cache" where
  "slab_get_item e cid s =
     (case slab_get_item_from_freeq cid s of
        (Some it, s) \<Rightarrow> (Some it, s)
      | (None, s) \<Rightarrow>
          (let (status, s) = (if free_item (slabclasses s cid) = 0 then slab_get e cid s else (MC_OK, s))
           in if status \<noteq> MC_OK then (None, s)
              else let (it, s) = slab_take_free cid s in (Some it, s)))"

definition slab_put_item :: "addr \<Rightarrow> cache \<Rightarrow> cache" where
  "slab_put_item it s =
     (let cid = it_id (items s it);
          s = upd_item it (\<lambda>i. i\<lparr>it_flags := it_flags i OR ITEM_SLABBED\<rparr>) s;
          s = upd_class cid (\<lambda>c. c\<lparr>nfree_itemq := nfree_itemq c + 1, free_itemq := it # free_itemq c\<rparr>) s;
          s = sincr cid item_free s
      in sincr cid item_remove s)"

end
