(* ===== verification/McUtil.thy ===== *)
theory McUtil
  imports McPrelude
begin

text \<open>
  The numeric conversions of \<^verbatim>\<open>mc_util.c\<close>. A C string is the list of its characters up to the
  terminating NUL; the \<^verbatim>\<open>out\<close> parameter of a conversion is the value of an option, \<open>None\<close> being
  the return value \<^verbatim>\<open>false\<close>. The C library's \<^verbatim>\<open>strtol\<close> family is modelled with its end pointer,
  its range error and its negation of unsigned results.
\<close>

section \<open>Character classes\<close>

definition isspace :: "char \<Rightarrow> bool" where
  "isspace c = (c \<in> set [CHR '' '', CHR 0x09, CHR 0x0A, CHR 0x0B, CHR 0x0C, CHR 0x0D])"

definition isdigit :: "char \<Rightarrow> bool" where
  "isdigit c = (48 \<le> (of_char c :: nat) \<and> (of_char c :: nat) \<le> 57)"

definition digit_val :: "char \<Rightarrow> nat" where
  "digit_val c = of_char c - 48"

lemma isdigit_not_isspace: "isdigit c \<Longrightarrow> \<not> isspace c"
  by (auto simp: isdigit_def isspace_def)

lemma digit_val_le: "isdigit c \<Longrightarrow> digit_val c \<le> 9"
  unfolding isdigit_def digit_val_def by arith

section \<open>Bounded parsing of unsigned numbers\<close>

definition UINT64_MAX :: nat where
  "UINT64_MAX = 18446744073709551615"

fun mc_skip_space :: "bytes \<Rightarrow> bytes" where
  "mc_skip_space [] = []"
| "mc_skip_space (c # cs) = (if isspace c then mc_skip_space cs else c # cs)"

text \<open>The digit loop: \<open>None\<close> is the early \<^verbatim>\<open>return false\<close>, else the accumulator and the rest.\<close>

fun strtoull_len_loop :: "u64 \<Rightarrow> bytes \<Rightarrow> (u64 \<times> bytes) option" where
  "strtoull_len_loop out [] = Some (out, [])"
| "strtoull_len_loop out (c # cs) =
     (if isdigit c then
        (if unat out \<ge> UINT64_MAX div 10 then None
         else strtoull_len_loop (out * 10 + of_nat (of_char c) - 48) cs)
      else Some (out, c # cs))"

definition mc_strtoull_len :: "bytes \<Rightarrow> u64 option" where
  "mc_strtoull_len str =
     (case strtoull_len_loop 0 (mc_skip_space str) of
        None \<Rightarrow> None
      | Some (out, rest) \<Rightarrow> if mc_skip_space rest = [] then Some out else None)"

text \<open>The decimal value of a digit string and the decimal form \<^verbatim>\<open>snprintf("%PRIu64")\<close> prints.\<close>

definition dec_val :: "bytes \<Rightarrow> nat" where
  "dec_val ds = foldl (\<lambda>v c. v * 10 + digit_val c) 0 ds"

fun print_dec :: "nat \<Rightarrow> bytes" where
  "print_dec n = (if n < 10 then [char_of (48 + n)] else print_dec (n div 10) @ [char_of (48 + n mod 10)])"

declare print_dec.simps [simp del]

section \<open>The strtol family\<close>

datatype num_scan = Scan (scan_neg: bool) (scan_digits: bytes) (scan_rest: bytes)

text \<open>
  What \<^verbatim>\<open>strtoull\<close>, \<^verbatim>\<open>strtoul\<close>, \<^verbatim>\<open>strtoll\<close> and \<^verbatim>\<open>strtol\<close> recognise in base 10: white space, an
  optional sign and a run of digits. Without a digit there is no conversion and the end pointer
  is the start of the string (\<open>None\<close>).
\<close>

definition scan_number :: "bytes \<Rightarrow> num_scan option" where
  "scan_number str =
     (let s = mc_skip_space str;
          (neg, t) = (case s of
             c # cs \<Rightarrow> if c = CHR ''-'' then (True, cs) else if c = CHR ''+'' then (False, cs) else (False, s)
           | [] \<Rightarrow> (False, []));
          ds = takeWhile isdigit t
      in if ds = [] then None else Some (Scan neg ds (dropWhile isdigit t)))"

text \<open>Result and end pointer of \<^verbatim>\<open>strtoull\<close> (64-bit \<^verbatim>\<open>unsigned long\<close>: also of \<^verbatim>\<open>strtoul\<close>); the flag is ERANGE.\<close>

definition c_strtoull :: "bytes \<Rightarrow> u64 \<times> bytes \<times> bool" where
  "c_strtoull str =
     (case scan_number str of
        None \<Rightarrow> (0, str, False)
      | Some (Scan neg ds rest) \<Rightarrow>
          if dec_val ds > UINT64_MAX then (- 1, rest, True)
          else (if neg then - of_nat (dec_val ds) else of_nat (dec_val ds), rest, False))"

text \<open>Result and end pointer of \<^verbatim>\<open>strtoll\<close> and \<^verbatim>\<open>strtol\<close> as a mathematical integer.\<close>

definition c_strtoll :: "bytes \<Rightarrow> int \<times> bytes \<times> bool" where
  "c_strtoll str =
     (case scan_number str of
        None \<Rightarrow> (0, str, False)
      | Some (Scan neg ds rest) \<Rightarrow>
          (let v = (if neg then - int (dec_val ds) else int (dec_val ds)) in
           if v > 2 ^ 63 - 1 then (2 ^ 63 - 1, rest, True)
           else if v < - (2 ^ 63) then (- (2 ^ 63), rest, True)
           else (v, rest, False)))"

text \<open>The acceptance test on the end pointer that all wrappers share.\<close>

definition end_ok :: "bytes \<Rightarrow> bytes \<Rightarrow> bool" where
  "end_ok str endptr = (case endptr of c # _ \<Rightarrow> isspace c | [] \<Rightarrow> endptr \<noteq> str)"

definition mc_strtoull :: "bytes \<Rightarrow> u64 option" where
  "mc_strtoull str =
     (case c_strtoull str of (ull, endptr, erange) \<Rightarrow>
        if erange then None
        else if end_ok str endptr then
          (if sint ull < 0 \<and> CHR ''-'' \<in> set str then None else Some ull)
        else None)"

definition mc_strtoll :: "bytes \<Rightarrow> int option" where
  "mc_strtoll str =
     (case c_strtoll str of (ll, endptr, erange) \<Rightarrow>
        if erange then None else if end_ok str endptr then Some ll else None)"

text \<open>\<^verbatim>\<open>*out = l\<close> stores a 64-bit \<^verbatim>\<open>unsigned long\<close> in a \<^verbatim>\<open>uint32_t\<close>: the high half is dropped.\<close>

definition mc_strtoul :: "bytes \<Rightarrow> u32 option" where
  "mc_strtoul str =
     (case c_strtoull str of (l, endptr, erange) \<Rightarrow>
        if erange then None
        else if end_ok str endptr then
          (if sint l < 0 \<and> CHR ''-'' \<in> set str then None else Some (ucast l))
        else None)"

text \<open>\<^verbatim>\<open>*out = l\<close> stores a 64-bit \<^verbatim>\<open>long\<close> in an \<^verbatim>\<open>int32_t\<close>.\<close>

definition mc_strtol :: "bytes \<Rightarrow> int option" where
  "mc_strtol str =
     (case c_strtoll str of (l, endptr, erange) \<Rightarrow>
        if erange then None
        else if end_ok str endptr then Some (sint (word_of_int l :: u32)) else None)"

definition mc_valid_port :: "int \<Rightarrow> bool" where
  "mc_valid_port n = (\<not> (n < 1 \<or> n > 65535))"

section \<open>Facts about the bounded parser\<close>

lemma mc_skip_space_dropWhile: "mc_skip_space str = dropWhile isspace str"
  by (induction str) auto

lemma dec_val_Nil [simp]: "dec_val [] = 0"
  by (simp add: dec_val_def)

lemma foldl_dec: "foldl (\<lambda>v c. v * 10 + digit_val c) a ds = a * 10 ^ length ds + dec_val ds"
proof (induction ds arbitrary: a)
  case (Cons c ds)
  show ?case
    using Cons.IH [of "a * 10 + digit_val c"] Cons.IH [of "digit_val c"]
    by (simp add: dec_val_def algebra_simps)
qed simp

lemma dec_val_Cons: "dec_val (c # ds) = digit_val c * 10 ^ length ds + dec_val ds"
  using foldl_dec [of "digit_val c" ds] by (simp add: dec_val_def)

lemma dec_val_snoc: "dec_val (ds @ [c]) = dec_val ds * 10 + digit_val c"
  by (simp add: dec_val_def)

lemma of_char_digit: "isdigit c \<Longrightarrow> (of_nat (of_char c) :: u64) - 48 = of_nat (digit_val c)"
  by (simp add: digit_val_def isdigit_def of_nat_diff)

lemma step_unat:
  assumes "isdigit c" and "unat (out :: u64) < UINT64_MAX div 10"
  shows "unat (out * 10 + of_nat (of_char c) - 48) = unat out * 10 + digit_val c"
proof -
  have e: "out * 10 + of_nat (of_char c) - 48 = of_nat (unat out * 10 + digit_val c)"
    using of_char_digit [OF assms(1)] by (simp add: algebra_simps)
  have "unat out * 10 + digit_val c < 2 ^ 64"
    using assms(2) digit_val_le [OF assms(1)] by (simp add: UINT64_MAX_def)
  then show ?thesis unfolding e by (simp only: unat_of_nat) simp
qed

lemma strtoull_len_loop_Some:
  "strtoull_len_loop out str = Some (v, rest) \<Longrightarrow>
     \<exists>ds. str = ds @ rest \<and> (\<forall>c \<in> set ds. isdigit c) \<and> unat v = unat out * 10 ^ length ds + dec_val ds
        \<and> (ds \<noteq> [] \<longrightarrow> unat v \<le> UINT64_MAX - 6)
        \<and> (rest = [] \<or> \<not> isdigit (hd rest))"
proof (induction out str rule: strtoull_len_loop.induct)
  case (1 out)
  then show ?case by simp
next
  case (2 out c cs)
  show ?case
  proof (cases "isdigit c")
    case False
    with "2.prems" show ?thesis by auto
  next
    case True
    with "2.prems" have lt: "unat out < UINT64_MAX div 10"
      and l: "strtoull_len_loop (out * 10 + of_nat (of_char c) - 48) cs = Some (v, rest)"
      by (auto split: if_splits)
    from "2.IH" [OF True _ l] lt obtain ds where ds: "cs = ds @ rest" "\<forall>c \<in> set ds. isdigit c"
      "unat v = unat (out * 10 + of_nat (of_char c) - 48) * 10 ^ length ds + dec_val ds"
      "ds \<noteq> [] \<longrightarrow> unat v \<le> UINT64_MAX - 6" "rest = [] \<or> \<not> isdigit (hd rest)"
      by auto
    have st: "unat (out * 10 + of_nat (of_char c) - 48) = unat out * 10 + digit_val c"
      by (rule step_unat [OF True lt])
    have "unat out * 10 + digit_val c \<le> UINT64_MAX - 6"
      using lt digit_val_le [OF True] by (simp add: UINT64_MAX_def)
    then have "unat v \<le> UINT64_MAX - 6"
      using ds(3,4) st by (cases "ds = []") auto
    then show ?thesis
      using ds st True
      by (intro exI [of _ "c # ds"]) (auto simp: dec_val_Cons algebra_simps)
  qed
qed

lemma strtoull_len_loop_complete:
  assumes "\<forall>c \<in> set ds. isdigit c" and "unat out * 10 ^ length ds + dec_val ds \<le> UINT64_MAX - 6"
    and "rest = [] \<or> \<not> isdigit (hd rest)"
  shows "strtoull_len_loop out (ds @ rest)
    = Some (of_nat (unat out * 10 ^ length ds + dec_val ds), rest)"
  using assms
proof (induction ds arbitrary: out)
  case Nil
  then show ?case by (cases rest) auto
next
  case (Cons c ds)
  have c: "isdigit c" using Cons.prems by simp
  have b: "(unat out * 10 + digit_val c) * 10 ^ length ds + dec_val ds \<le> UINT64_MAX - 6"
    using Cons.prems(2) by (simp add: dec_val_Cons algebra_simps)
  have "unat out * 10 + digit_val c \<le> (unat out * 10 + digit_val c) * 10 ^ length ds"
    by simp
  then have "unat out * 10 + digit_val c \<le> UINT64_MAX - 6"
    using b by linarith
  then have lt: "unat out < UINT64_MAX div 10" by (simp add: UINT64_MAX_def)
  let ?out = "out * 10 + of_nat (of_char c) - 48"
  have "strtoull_len_loop ?out (ds @ rest) = Some (of_nat (unat ?out * 10 ^ length ds + dec_val ds), rest)"
    using Cons.IH [of ?out] Cons.prems b unfolding step_unat [OF c lt] by simp
  moreover have "unat ?out * 10 ^ length ds + dec_val ds
      = unat out * 10 ^ length (c # ds) + dec_val (c # ds)"
    unfolding step_unat [OF c lt] by (simp add: dec_val_Cons algebra_simps)
  moreover have "strtoull_len_loop out ((c # ds) @ rest) = strtoull_len_loop ?out (ds @ rest)"
    using c lt by simp
  ultimately show ?case by (simp only:)
qed

lemma mc_skip_space_split: "\<exists>ws. (\<forall>c \<in> set ws. isspace c) \<and> str = ws @ mc_skip_space str"
  unfolding mc_skip_space_dropWhile
  by (metis takeWhile_dropWhile_id set_takeWhileD)

lemma mc_skip_space_append: "\<forall>c \<in> set ws. isspace c \<Longrightarrow> mc_skip_space (ws @ s) = mc_skip_space s"
  by (induction ws) auto

lemma mc_skip_space_id: "s = [] \<or> \<not> isspace (hd s) \<Longrightarrow> mc_skip_space s = s"
  by (cases s) auto

lemma mc_skip_space_all: "mc_skip_space s = [] \<longleftrightarrow> (\<forall>c \<in> set s. isspace c)"
  by (simp add: mc_skip_space_dropWhile)

lemma mc_strtoull_len_iff:
  "mc_strtoull_len str = Some v \<longleftrightarrow>
     (\<exists>ws ds ws'. str = ws @ ds @ ws' \<and> (\<forall>c \<in> set ws. isspace c) \<and> (\<forall>c \<in> set ds. isdigit c)
        \<and> (\<forall>c \<in> set ws'. isspace c) \<and> unat v = dec_val ds \<and> dec_val ds \<le> UINT64_MAX - 6)"
proof
  assume "mc_strtoull_len str = Some v"
  then obtain rest where l: "strtoull_len_loop 0 (mc_skip_space str) = Some (v, rest)"
    and r: "\<forall>c \<in> set rest. isspace c"
    by (auto simp: mc_strtoull_len_def mc_skip_space_all split: option.splits if_splits)
  from strtoull_len_loop_Some [OF l] obtain ds where
    ds: "mc_skip_space str = ds @ rest" "\<forall>c \<in> set ds. isdigit c" "unat v = dec_val ds"
      "ds \<noteq> [] \<longrightarrow> unat v \<le> UINT64_MAX - 6"
    by auto
  then have "dec_val ds \<le> UINT64_MAX - 6" by (cases "ds = []") auto
  with ds r show "\<exists>ws ds ws'. str = ws @ ds @ ws' \<and> (\<forall>c \<in> set ws. isspace c) \<and> (\<forall>c \<in> set ds. isdigit c)
        \<and> (\<forall>c \<in> set ws'. isspace c) \<and> unat v = dec_val ds \<and> dec_val ds \<le> UINT64_MAX - 6"
    using mc_skip_space_split [of str] by metis
next
  assume "\<exists>ws ds ws'. str = ws @ ds @ ws' \<and> (\<forall>c \<in> set ws. isspace c) \<and> (\<forall>c \<in> set ds. isdigit c)
        \<and> (\<forall>c \<in> set ws'. isspace c) \<and> unat v = dec_val ds \<and> dec_val ds \<le> UINT64_MAX - 6"
  then obtain ws ds ws' where s: "str = ws @ ds @ ws'" "\<forall>c \<in> set ws. isspace c"
    "\<forall>c \<in> set ds. isdigit c" "\<forall>c \<in> set ws'. isspace c" "unat v = dec_val ds"
    "dec_val ds \<le> UINT64_MAX - 6" by blast
  show "mc_strtoull_len str = Some v"
  proof (cases "ds = []")
    case True
    with s have "mc_skip_space str = []" and "v = 0"
      by (auto simp: mc_skip_space_all unat_eq_0)
    then show ?thesis by (simp add: mc_strtoull_len_def)
  next
    case False
    with s have "\<not> isspace (hd (ds @ ws'))" by (simp add: isdigit_not_isspace)
    then have sk: "mc_skip_space str = ds @ ws'"
      using s by (simp add: mc_skip_space_append mc_skip_space_id)
    have "ws' = [] \<or> \<not> isdigit (hd ws')"
      using s(4) isdigit_not_isspace by (metis list.set_sel(1))
    with s sk have "strtoull_len_loop 0 (mc_skip_space str) = Some (of_nat (dec_val ds), ws')"
      using strtoull_len_loop_complete [of ds 0 ws'] by simp
    moreover have "of_nat (dec_val ds) = v" by (simp flip: s(5))
    ultimately show ?thesis using s(4) by (simp add: mc_strtoull_len_def mc_skip_space_all)
  qed
qed

section \<open>Printing\<close>

lemma digit_char:
  assumes "n < 10"
  shows "isdigit (char_of (48 + n))" and "digit_val (char_of (48 + n)) = n"
  using assms by (simp_all add: isdigit_def digit_val_def)

lemma print_dec_digits: "\<forall>c \<in> set (print_dec n). isdigit c"
proof (induction n rule: print_dec.induct)
  case (1 n)
  then show ?case by (auto simp: print_dec.simps [of n] digit_char)
qed

lemma dec_val_print_dec: "dec_val (print_dec n) = n"
proof (induction n rule: print_dec.induct)
  case (1 n)
  then show ?case
    using digit_char(2) [of "n mod 10"]
    by (auto simp: print_dec.simps [of n] dec_val_snoc digit_char dec_val_Cons)
qed

lemma length_print_dec: "n < 10 ^ Suc k \<Longrightarrow> length (print_dec n) \<le> Suc k"
proof (induction k arbitrary: n)
  case 0
  then show ?case by (simp add: print_dec.simps)
next
  case (Suc k)
  have "n div 10 < 10 ^ Suc k" using Suc.prems by (simp add: less_mult_imp_div_less algebra_simps)
  from Suc.IH [OF this] show ?case by (simp add: print_dec.simps [of n])
qed

lemma print_dec_not_Nil [simp]: "print_dec n \<noteq> []"
  by (simp add: print_dec.simps [of n])

text \<open>A printed 64-bit number is read back, unless it is one of the six largest.\<close>

lemma counter_reread:
  "mc_strtoull_len (print_dec (unat v)) = (if unat v \<le> UINT64_MAX - 6 then Some v else None)"
proof (cases "unat v \<le> UINT64_MAX - 6")
  case True
  then have "mc_strtoull_len (print_dec (unat v)) = Some v"
    unfolding mc_strtoull_len_iff
    by (intro exI [of _ "[]"] exI [of _ "print_dec (unat v)"]) (simp add: dec_val_print_dec print_dec_digits)
  with True show ?thesis by simp
next
  case False
  have "mc_strtoull_len (print_dec (unat v)) \<noteq> Some w" for w
  proof
    assume "mc_strtoull_len (print_dec (unat v)) = Some w"
    then obtain ws ds ws' where d: "print_dec (unat v) = ws @ ds @ ws'" "\<forall>c \<in> set ws. isspace c" "\<forall>c \<in> set ws'. isspace c"
      "dec_val ds \<le> UINT64_MAX - 6" unfolding mc_strtoull_len_iff by blast
    have "\<forall>c \<in> set (ws @ ds @ ws'). isdigit c" using print_dec_digits [of "unat v"] d(1) by simp
    then have "ws = []" "ws' = []" using d(2,3) isdigit_not_isspace by (cases ws; cases ws'; auto)+
    then show False using d(1,4) dec_val_print_dec [of "unat v"] False by simp
  qed
  then have "mc_strtoull_len (print_dec (unat v)) = None" by (meson not_None_eq)
  then show ?thesis using False by simp
qed

end
