(* ===== verification/McItems.thy ===== *)
theory McItems
  imports McSlabs McUtil
begin

text \<open>
  The item operations of \<^verbatim>\<open>mc_items.c\<close>: allocation with reuse and eviction, linking into and
  unlinking from the hash table and the lru queue, lookup with lazy expiry, flushing, and the
  storage commands set, cas, add, replace, append/prepend, incr/decr and delete. The connection
  argument of the C functions is replaced by what they read of it: \<^verbatim>\<open>c->item\<close> and \<^verbatim>\<open>c->req_type\<close>.
\<close>

section \<open>Results\<close>

datatype item_cas_result = CAS_OK | CAS_EXISTS | CAS_NOT_FOUND
datatype item_add_result = ADD_OK | ADD_EXISTS
datatype item_replace_result = REPLACE_OK | REPLACE_NOT_FOUND
datatype item_annex_result = ANNEX_OK | ANNEX_NOT_FOUND | ANNEX_OVERSIZED | ANNEX_EOM
datatype item_delete_result = DELETE_OK | DELETE_NOT_FOUND
datatype item_delta_result = DELTA_OK | DELTA_NOT_FOUND | DELTA_NON_NUMERIC | DELTA_EOM

section \<open>Allocation\<close>

definition ITEM_UPDATE_INTERVAL :: u32 where "ITEM_UPDATE_INTERVAL = 60"
definition ITEM_LRUQ_MAX_TRIES :: nat where "ITEM_LRUQ_MAX_TRIES = 50"

text \<open>The scan of the lru queue: \<open>uit\<close> is the first unexpired item seen so far.\<close>

fun lruq_scan :: "cache \<Rightarrow> nat \<Rightarrow> addr list \<Rightarrow> addr option \<Rightarrow> addr option" where
  "lruq_scan s 0 q uit = uit"
| "lruq_scan s (Suc tries) [] uit = uit"
| "lruq_scan s (Suc tries) (it # q) uit =
     (if it_refcount (items s it) \<noteq> 0 then lruq_scan s tries q uit
      else if item_expired s it then Some it
      else lruq_scan s tries q (if uit = None then Some it else uit))"

definition item_get_from_lruq :: "cache \<Rightarrow> nat \<Rightarrow> addr option" where
  "item_get_from_lruq s cid =
     (if \<not> use_lruq (settings s) then None
      else lruq_scan s ITEM_LRUQ_MAX_TRIES (item_lruq s cid) None)"

text \<open>The part of \<^verbatim>\<open>_item_alloc\<close> after the label \<^verbatim>\<open>alloc_done\<close>.\<close>

definition item_alloc_done :: "addr \<Rightarrow> nat \<Rightarrow> bytes \<Rightarrow> u32 \<Rightarrow> u32 \<Rightarrow> u32 \<Rightarrow> cache \<Rightarrow> cache" where
  "item_alloc_done it cid key dataflags exptime nbyte s =
     (let s = item_acquire_refcount it s;
          s = upd_item it (\<lambda>i. i\<lparr>it_flags := (if use_cas (settings s) then ITEM_CAS else 0),
                                 it_dataflags := dataflags, it_nbyte := nbyte,
                                 it_exptime := exptime, it_nkey := length key\<rparr>) s;
          s = upd_item it (\<lambda>i. i\<lparr>it_end := wr_bytes (it_end i) (item_key_off i) key\<rparr>) s;
          s = upd_item it (item_set_cas 0) s
      in sincr cid item_acquire s)"

text \<open>The slab class arrays have no entry beyond \<^verbatim>\<open>SLABCLASS_MAX_ID\<close>.\<close>

definition item_alloc :: "env \<Rightarrow> nat \<Rightarrow> bytes \<Rightarrow> u32 \<Rightarrow> u32 \<Rightarrow> u32 \<Rightarrow> cache \<Rightarrow> addr option \<times> cache" where
  "item_alloc e cid key dataflags exptime nbyte s =
     (let s = (if cid > SLABCLASS_MAX_ID then s\<lparr>ub := True\<rparr> else s);
          lru = item_get_from_lruq s cid
      in case lru of
           Some it \<Rightarrow>
             if item_expired s it then
               (let s = sincr cid item_expire s; s = item_reuse it s
                in (Some it, item_alloc_done it cid key dataflags exptime nbyte s))
             else
               (let uit = (if evict_opt (settings s) AND EVICT_LRU \<noteq> 0 then Some it else None) in
                case slab_get_item e cid s of
                  (Some it, s) \<Rightarrow> (Some it, item_alloc_done it cid key dataflags exptime nbyte s)
                | (None, s) \<Rightarrow>
                    (case uit of
                       Some it \<Rightarrow>
                         (let s = sincr cid item_evict s; s = item_reuse it s
                          in (Some it, item_alloc_done it cid key dataflags exptime nbyte s))
                     | None \<Rightarrow> (None, tincr THREAD_server_error s)))
         | None \<Rightarrow>
             (case slab_get_item e cid s of
                (Some it, s) \<Rightarrow> (Some it, item_alloc_done it cid key dataflags exptime nbyte s)
              | (None, s) \<Rightarrow> (None, tincr THREAD_server_error s)))"

section \<open>Linking\<close>

definition item_free_op :: "addr \<Rightarrow> cache \<Rightarrow> cache" where
  "item_free_op it = slab_put_item it"

definition item_set_next_cas :: "addr \<Rightarrow> cache \<Rightarrow> cache" where
  "item_set_next_cas it s = (let (cas, s) = item_next_cas s in upd_item it (item_set_cas cas) s)"

definition item_link_op :: "env \<Rightarrow> addr \<Rightarrow> cache \<Rightarrow> cache" where
  "item_link_op e it s =
     (let s = upd_item it (\<lambda>i. i\<lparr>it_flags := it_flags i OR ITEM_LINKED\<rparr>) s;
          s = item_set_next_cas it s;
          s = index_insert e it s;
          s = item_link_q it True s
      in sincr (it_id (items s it)) item_link s)"

definition item_unlink_op :: "addr \<Rightarrow> cache \<Rightarrow> cache" where
  "item_unlink_op it s =
     (if item_is_linked (items s it) then
        (let s = upd_item it (\<lambda>i. i\<lparr>it_flags := it_flags i AND NOT ITEM_LINKED\<rparr>) s;
             s = sincr (it_id (items s it)) item_unlink s;
             s = index_delete (key_of s it) s;
             s = item_unlink_q it s
         in if it_refcount (items s it) = 0 then item_free_op it s else s)
      else s)"

definition item_remove_op :: "addr \<Rightarrow> cache \<Rightarrow> cache" where
  "item_remove_op it s =
     (let s = (if it_refcount (items s it) \<noteq> 0 then item_release_refcount it s else s)
      in if it_refcount (items s it) = 0 \<and> \<not> item_is_linked (items s it) then item_free_op it s else s)"

definition item_touch_op :: "addr \<Rightarrow> cache \<Rightarrow> cache" where
  "item_touch_op it s =
     (if it_atime (items s it) \<ge> now s - ITEM_UPDATE_INTERVAL then s
      else if item_is_linked (items s it) then item_link_q it False (item_unlink_q it s)
      else s)"

definition item_touch :: "addr \<Rightarrow> cache \<Rightarrow> cache" where
  "item_touch it s =
     (if it_atime (items s it) \<ge> now s - ITEM_UPDATE_INTERVAL then s else item_touch_op it s)"

definition item_relink :: "env \<Rightarrow> addr \<Rightarrow> addr \<Rightarrow> cache \<Rightarrow> cache" where
  "item_relink e it nit s = item_link_op e nit (item_unlink_op it s)"

section \<open>Lookup and flush\<close>

definition item_stale :: "cache \<Rightarrow> addr \<Rightarrow> bool" where
  "item_stale s it \<longleftrightarrow>
     oldest_live (settings s) \<noteq> 0 \<and> oldest_live (settings s) \<le> now s
     \<and> it_atime (items s it) \<le> oldest_live (settings s)"

definition item_get_op :: "bytes \<Rightarrow> cache \<Rightarrow> addr option \<times> cache" where
  "item_get_op key s =
     (case index_find s key of
        None \<Rightarrow> (None, s)
      | Some it \<Rightarrow>
          if it_exptime (items s it) \<noteq> 0 \<and> it_exptime (items s it) \<le> now s then
            (let s = item_unlink_op it s in (None, sincr (it_id (items s it)) item_expire s))
          else if item_stale s it then
            (let s = item_unlink_op it s in (None, sincr (it_id (items s it)) item_expire s))
          else (Some it, item_acquire_refcount it s))"

text \<open>The inner loop of \<^verbatim>\<open>_item_flush_expired\<close> walks one queue from its tail.\<close>

fun flush_queue :: "addr list \<Rightarrow> cache \<Rightarrow> cache" where
  "flush_queue [] s = s"
| "flush_queue (it # q) s =
     (if it_atime (items s it) < oldest_live (settings s) then s
      else
        (let s = item_unlink_op it s
         in flush_queue q (sincr (it_id (items s it)) item_evict s)))"

definition item_flush_expired :: "cache \<Rightarrow> cache" where
  "item_flush_expired s =
     (if oldest_live (settings s) = 0 then s
      else fold (\<lambda>i s. flush_queue (rev (item_lruq s i)) s)
             [SLABCLASS_MIN_ID..<SLABCLASS_MAX_ID + 1] s)"

section \<open>Storage commands\<close>

definition item_set :: "env \<Rightarrow> addr \<Rightarrow> cache \<Rightarrow> cache" where
  "item_set e it s =
     (case item_get_op (key_of s it) s of
        (None, s) \<Rightarrow> item_link_op e it s
      | (Some oit, s) \<Rightarrow> item_remove_op oit (item_relink e oit it s))"

definition item_cas :: "env \<Rightarrow> addr \<Rightarrow> cache \<Rightarrow> item_cas_result \<times> cache" where
  "item_cas e it s =
     (case item_get_op (key_of s it) s of
        (None, s) \<Rightarrow> (CAS_NOT_FOUND, s)
      | (Some oit, s) \<Rightarrow>
          if item_get_cas (items s it) \<noteq> item_get_cas (items s oit)
          then (CAS_EXISTS, item_remove_op oit s)
          else (CAS_OK, item_remove_op oit (item_relink e oit it s)))"

definition item_add :: "env \<Rightarrow> addr \<Rightarrow> cache \<Rightarrow> item_add_result \<times> cache" where
  "item_add e it s =
     (case item_get_op (key_of s it) s of
        (Some oit, s) \<Rightarrow> (ADD_EXISTS, item_remove_op oit s)
      | (None, s) \<Rightarrow> (ADD_OK, item_link_op e it s))"

definition item_replace :: "env \<Rightarrow> addr \<Rightarrow> cache \<Rightarrow> item_replace_result \<times> cache" where
  "item_replace e it s =
     (case item_get_op (key_of s it) s of
        (None, s) \<Rightarrow> (REPLACE_NOT_FOUND, s)
      | (Some oit, s) \<Rightarrow> (REPLACE_OK, item_remove_op oit (item_relink e oit it s)))"

text \<open>\<^verbatim>\<open>memcpy\<close> into the payload area of an item, at an offset from \<^verbatim>\<open>it->end\<close>.\<close>

definition item_write :: "addr \<Rightarrow> nat \<Rightarrow> bytes \<Rightarrow> cache \<Rightarrow> cache" where
  "item_write it off bs = upd_item it (\<lambda>i. i\<lparr>it_end := wr_bytes (it_end i) off bs\<rparr>)"

text \<open>
  \<open>is_append\<close> is whether the request type is append or appendrl. The result carries the values
  stored through \<^verbatim>\<open>oid\<close> and \<^verbatim>\<open>nid\<close>, and through \<^verbatim>\<open>nbyte\<close>, where they are stored.
\<close>

record annex_out =
  ao_ids :: "(nat \<times> nat) option"
  ao_nbyte :: "u32 option"

text \<open>The two in-place branches and the two branches that copy into a new item.\<close>

definition annex_in_place :: "bool \<Rightarrow> addr \<Rightarrow> addr \<Rightarrow> u32 \<Rightarrow> cache \<Rightarrow> cache" where
  "annex_in_place is_append oit it total_nbyte s =
     (let off = (if is_append then item_data s oit + unat (it_nbyte (items s oit))
                 else item_data s oit - unat (it_nbyte (items s it)));
          s = item_write oit off (item_value s it) s;
          s = upd_item oit (\<lambda>i. i\<lparr>it_nbyte := total_nbyte\<rparr>) s
      in item_set_next_cas oit s)"

definition annex_copy :: "env \<Rightarrow> bool \<Rightarrow> addr \<Rightarrow> addr \<Rightarrow> addr \<Rightarrow> cache \<Rightarrow> cache" where
  "annex_copy e is_append oit it nit s =
     (let s = (if is_append then s
               else upd_item nit (\<lambda>i. i\<lparr>it_flags := it_flags i OR ITEM_RALIGN\<rparr>) s);
          (a, b) = (if is_append then (oit, it) else (it, oit));
          s = item_write nit (item_data s nit) (item_value s a) s;
          s = item_write nit (item_data s nit + unat (it_nbyte (items s a))) (item_value s b) s
      in item_relink e oit nit s)"

definition item_annex :: "env \<Rightarrow> bool \<Rightarrow> addr \<Rightarrow> cache \<Rightarrow> (item_annex_result \<times> annex_out) \<times> cache" where
  "item_annex e is_append it s =
     (let key = key_of s it in
      case item_get_op key s of
        (None, s) \<Rightarrow> ((ANNEX_NOT_FOUND, \<lparr>ao_ids = None, ao_nbyte = None\<rparr>), s)
      | (Some oit, s) \<Rightarrow>
          (let o_it = items s oit;
               total_nbyte = it_nbyte o_it + it_nbyte (items s it);
               cid = item_slabid s (it_nkey o_it) total_nbyte;
               ids = Some (it_id o_it, cid)
           in if cid = SLABCLASS_INVALID_ID
              then ((ANNEX_OVERSIZED, \<lparr>ao_ids = ids, ao_nbyte = None\<rparr>), item_remove_op oit s)
              else if cid = it_id o_it \<and> (is_append \<longleftrightarrow> \<not> item_is_raligned o_it)
              then ((ANNEX_OK, \<lparr>ao_ids = ids, ao_nbyte = Some total_nbyte\<rparr>),
                    item_remove_op oit (annex_in_place is_append oit it total_nbyte s))
              else
                (case item_alloc e cid key (it_dataflags o_it) (it_exptime o_it) total_nbyte s of
                   (None, s) \<Rightarrow> ((ANNEX_EOM, \<lparr>ao_ids = ids, ao_nbyte = None\<rparr>), item_remove_op oit s)
                 | (Some nit, s) \<Rightarrow>
                     ((ANNEX_OK, \<lparr>ao_ids = ids, ao_nbyte = Some total_nbyte\<rparr>),
                      item_remove_op nit (item_remove_op oit (annex_copy e is_append oit it nit s))))))"

definition delta_value :: "bool \<Rightarrow> u64 \<Rightarrow> u64 \<Rightarrow> u64" where
  "delta_value incr delta v = (if incr then v + delta else if delta > v then 0 else v - delta)"

text \<open>The value is the one stored through \<^verbatim>\<open>value\<close>, when the old value is a number.\<close>

definition item_delta :: "env \<Rightarrow> bytes \<Rightarrow> bool \<Rightarrow> u64 \<Rightarrow> cache \<Rightarrow> (item_delta_result \<times> u64 option) \<times> cache" where
  "item_delta e key incr delta s =
     (case item_get_op key s of
        (None, s) \<Rightarrow> ((DELTA_NOT_FOUND, None), s)
      | (Some it, s) \<Rightarrow>
          (case mc_strtoull_len (item_value s it) of
             None \<Rightarrow> ((DELTA_NON_NUMERIC, None), item_remove_op it s)
           | Some v \<Rightarrow>
               (let v = delta_value incr delta v;
                    buf = print_dec (unat v);
                    res = (of_nat (length buf) :: u32);
                    i = items s it
                in if res > it_nbyte i then
                     (case item_alloc e (item_slabid s (it_nkey i) res) (key_of s it) (it_dataflags i) (it_exptime i) res s of
                        (None, s) \<Rightarrow> ((DELTA_EOM, Some v), item_remove_op it s)
                      | (Some nit, s) \<Rightarrow>
                          (let s = item_write nit (item_data s nit) buf s;
                               s = item_relink e it nit s;
                               s = item_remove_op it s
                           in ((DELTA_OK, Some v), item_remove_op nit s)))
                   else
                     (let s = item_set_next_cas it s;
                          s = item_write it (item_data s it) buf s;
                          s = upd_item it (\<lambda>i. i\<lparr>it_nbyte := res\<rparr>) s
                      in ((DELTA_OK, Some v), item_remove_op it s)))))"

definition item_delete :: "bytes \<Rightarrow> cache \<Rightarrow> item_delete_result \<times> cache" where
  "item_delete key s =
     (case item_get_op key s of
        (Some it, s) \<Rightarrow> (DELETE_OK, item_remove_op it (item_unlink_op it s))
      | (None, s) \<Rightarrow> (DELETE_NOT_FOUND, s))"

end
