(* ===== verification/McInv.thy ===== *)
theory McInv
  imports McItems
begin

text \<open>
  The invariant of the cache: how slabs, item chunks, lru queues, free queues, the unallocated rest
  of the current slabs, the reference counts and the hash table fit together. The argument \<open>L\<close> is
  the set of items that are in the hands of the running operation: taken out of every container,
  with no valid content yet. Between operations it is empty.
\<close>

section \<open>Geometry\<close>

definition slab_cls :: "cache \<Rightarrow> addr \<Rightarrow> slabclass" where
  "slab_cls s p = slabclasses s (sl_id (slabs s p))"

definition chunks :: "cache \<Rightarrow> addr \<Rightarrow> addr set" where
  "chunks s p = (\<lambda>i. slab_2_item p i (sc_size (slab_cls s p))) ` {..<nitem (slab_cls s p)}"

text \<open>The slabs in use are those of the slab lru queue.\<close>

abbreviation active :: "cache \<Rightarrow> addr set" where
  "active s \<equiv> set (slab_lruq (heap s))"

definition live :: "cache \<Rightarrow> addr set" where
  "live s = (\<Union>p \<in> active s. chunks s p)"

definition valid_id :: "cache \<Rightarrow> nat \<Rightarrow> bool" where
  "valid_id s cid \<longleftrightarrow> SLABCLASS_MIN_ID \<le> cid \<and> cid \<le> slabclass_max_id s"

text \<open>The chunks of the current slab of a class that were never handed out.\<close>

definition run :: "cache \<Rightarrow> nat \<Rightarrow> addr set" where
  "run s cid = (\<lambda>k. free_item (slabclasses s cid) + k * sc_size (slabclasses s cid))
                 ` {..<nfree_item (slabclasses s cid)}"

definition linked_items :: "cache \<Rightarrow> addr set" where
  "linked_items s = {a \<in> live s. item_is_linked (items s a)}"

definition slabs_disjoint :: "nat \<Rightarrow> addr \<Rightarrow> addr \<Rightarrow> bool" where
  "slabs_disjoint n p q \<longleftrightarrow> p + n \<le> q \<or> q + n \<le> p"

section \<open>The clauses\<close>

definition class_ok :: "cache \<Rightarrow> bool" where
  "class_ok s \<longleftrightarrow> slabclass_max_id s \<le> SLABCLASS_MAX_ID
     \<and> ascending (slab_item_size s) (slabclass_max_id s)
     \<and> slab_size_opt (settings s) \<le> 2 ^ 27
     \<and> (\<forall>cid. valid_id s cid \<longrightarrow> 0 < nitem (slabclasses s cid) \<and> ITEM_HDR_SIZE \<le> sc_size (slabclasses s cid)
          \<and> SLAB_HDR_SIZE + nitem (slabclasses s cid) * sc_size (slabclasses s cid) \<le> slab_size_opt (settings s))"

text \<open>
  Every slab in the table is a block of memory of its own, and so is the next one the heap will
  provide: the next part of the pre-allocated area, or what the allocator returns.
\<close>

definition heap_ok :: "env \<Rightarrow> cache \<Rightarrow> bool" where
  "heap_ok e s \<longleftrightarrow> nslab (heap s) = length (slab_table (heap s))
     \<and> distinct (slab_lruq (heap s)) \<and> active s \<subseteq> set (slab_table (heap s))
     \<and> 0 \<notin> set (slab_table (heap s))
     \<and> (\<forall>p \<in> set (slab_table (heap s)). \<forall>q \<in> set (slab_table (heap s)).
          p \<noteq> q \<longrightarrow> slabs_disjoint (slab_size_opt (settings s)) p q)
     \<and> (if prealloc (settings s)
        then hi_curr (heap s) \<noteq> 0
          \<and> (\<forall>p \<in> set (slab_table (heap s)). p + slab_size_opt (settings s) \<le> hi_curr (heap s))
        else set (slab_table (heap s)) \<subseteq> e_slab e ` {..<nmalloc s})
     \<and> (\<forall>p \<in> active s. valid_id s (sl_id (slabs s p)))"

text \<open>What is required of the memory allocator.\<close>

definition alloc_ok :: "env \<Rightarrow> nat \<Rightarrow> bool" where
  "alloc_ok e n \<longleftrightarrow> (\<forall>i j. i \<noteq> j \<longrightarrow> e_slab e i \<noteq> 0 \<longrightarrow> e_slab e j \<noteq> 0 \<longrightarrow>
     slabs_disjoint n (e_slab e i) (e_slab e j))"

definition chunk_ok :: "cache \<Rightarrow> bool" where
  "chunk_ok s \<longleftrightarrow> (\<forall>p \<in> active s. \<forall>a \<in> chunks s p.
     it_offset (items s a) = a - p \<and> it_id (items s a) = sl_id (slabs s p))"

definition lruq_ok :: "cache \<Rightarrow> bool" where
  "lruq_ok s \<longleftrightarrow> (\<forall>cid. SLABCLASS_MIN_ID \<le> cid \<and> cid \<le> SLABCLASS_MAX_ID \<longrightarrow>
     distinct (item_lruq s cid)
     \<and> set (item_lruq s cid) = {a \<in> live s. it_id (items s a) = cid \<and> item_is_linked (items s a)})"

definition freeq_ok :: "cache \<Rightarrow> bool" where
  "freeq_ok s \<longleftrightarrow> (\<forall>cid. valid_id s cid \<longrightarrow>
     distinct (free_itemq (slabclasses s cid))
     \<and> nfree_itemq (slabclasses s cid) = length (free_itemq (slabclasses s cid))
     \<and> set (free_itemq (slabclasses s cid))
         = {a \<in> live s. it_id (items s a) = cid \<and> item_is_slabbed (items s a)})"

definition flag_ok :: "cache \<Rightarrow> bool" where
  "flag_ok s \<longleftrightarrow> (\<forall>a \<in> live s. item_is_slabbed (items s a) \<longrightarrow>
     \<not> item_is_linked (items s a) \<and> it_refcount (items s a) = 0)"

definition run_ok :: "cache \<Rightarrow> bool" where
  "run_ok s \<longleftrightarrow> (\<forall>cid. valid_id s cid \<longrightarrow>
     (free_item (slabclasses s cid) = 0 \<longrightarrow> nfree_item (slabclasses s cid) = 0)
     \<and> (free_item (slabclasses s cid) \<noteq> 0 \<longrightarrow>
          (\<exists>p \<in> active s. \<exists>j < nitem (slabclasses s cid). sl_id (slabs s p) = cid
             \<and> free_item (slabclasses s cid) = slab_2_item p j (sc_size (slabclasses s cid))
             \<and> nfree_item (slabclasses s cid) = nitem (slabclasses s cid) - j))
     \<and> (\<forall>a \<in> run s cid. \<not> item_is_linked (items s a) \<and> \<not> item_is_slabbed (items s a)
          \<and> it_refcount (items s a) = 0))"

definition ref_ok :: "cache \<Rightarrow> bool" where
  "ref_ok s \<longleftrightarrow> (\<forall>p \<in> active s.
     unat (sl_refcount (slabs s p)) = (\<Sum>a \<in> chunks s p. unat (it_refcount (items s a))))"

definition index_ok :: "cache \<Rightarrow> bool" where
  "index_ok s \<longleftrightarrow> assoc_inv (key_of s) (hashtbl s) \<and> assoc_set (hashtbl s) = linked_items s"

definition fits :: "cache \<Rightarrow> item \<Rightarrow> bool" where
  "fits s i \<longleftrightarrow> item_size i \<le> slab_item_size s (it_id i) \<and> item_has_cas i = use_cas (settings s)"

definition fit_ok :: "addr set \<Rightarrow> cache \<Rightarrow> bool" where
  "fit_ok L s \<longleftrightarrow> (\<forall>a \<in> live s - L. item_is_linked (items s a) \<or> it_refcount (items s a) \<noteq> 0 \<longrightarrow>
     fits s (items s a))"

definition no_leak :: "addr set \<Rightarrow> cache \<Rightarrow> bool" where
  "no_leak L s \<longleftrightarrow> (\<forall>a \<in> live s. item_is_linked (items s a) \<or> item_is_slabbed (items s a)
       \<or> it_refcount (items s a) \<noteq> 0 \<or> (\<exists>cid. valid_id s cid \<and> a \<in> run s cid) \<or> a \<in> L)
     \<and> (\<forall>a \<in> L. a \<in> live s \<and> \<not> item_is_linked (items s a) \<and> \<not> item_is_slabbed (items s a)
       \<and> (\<forall>cid. valid_id s cid \<longrightarrow> a \<notin> run s cid))"

definition time_ok :: "cache \<Rightarrow> bool" where
  "time_ok s \<longleftrightarrow> (\<forall>cid. SLABCLASS_MIN_ID \<le> cid \<and> cid \<le> SLABCLASS_MAX_ID \<longrightarrow>
     sorted (map (\<lambda>a. it_atime (items s a)) (item_lruq s cid))
     \<and> (\<forall>a \<in> set (item_lruq s cid). it_atime (items s a) \<le> now s))"

definition cache_inv_L :: "addr set \<Rightarrow> env \<Rightarrow> cache \<Rightarrow> bool" where
  "cache_inv_L L e s \<longleftrightarrow> \<not> ub s \<and> class_ok s \<and> heap_ok e s \<and> chunk_ok s \<and> lruq_ok s \<and> freeq_ok s
     \<and> flag_ok s \<and> run_ok s \<and> ref_ok s \<and> index_ok s \<and> fit_ok L s \<and> no_leak L s \<and> time_ok s"

text \<open>The invariant between operations: no item in hand, and every slab of the table in use.\<close>

definition cache_inv :: "env \<Rightarrow> cache \<Rightarrow> bool" where
  "cache_inv e s \<longleftrightarrow> cache_inv_L {} e s \<and> set (slab_table (heap s)) \<subseteq> active s"

section \<open>Frames\<close>

text \<open>The part of the state that fixes which addresses are item chunks.\<close>

definition geo :: "cache \<Rightarrow> addr set \<times> (addr \<Rightarrow> nat) \<times> (nat \<Rightarrow> nat) \<times> (nat \<Rightarrow> nat) \<times> nat \<times> settings" where
  "geo s = (active s, \<lambda>p. sl_id (slabs s p), \<lambda>c. nitem (slabclasses s c), \<lambda>c. sc_size (slabclasses s c),
            slabclass_max_id s, settings s)"

lemma geoD:
  assumes "geo s' = geo s"
  shows "active s' = active s" "sl_id (slabs s' p) = sl_id (slabs s p)"
    "nitem (slabclasses s' c) = nitem (slabclasses s c)"
    "sc_size (slabclasses s' c) = sc_size (slabclasses s c)"
    "slabclass_max_id s' = slabclass_max_id s" "settings s' = settings s"
  using assms by (auto simp: geo_def fun_eq_iff)

lemma geo_live:
  assumes "geo s' = geo s"
  shows "live s' = live s" "chunks s' p = chunks s p" "valid_id s' cid = valid_id s cid"
    "slab_item_size s' = slab_item_size s" "class_ok s' = class_ok s"
proof -
  show c: "chunks s' p = chunks s p" for p
    by (simp add: chunks_def slab_cls_def geoD [OF assms])
  show "live s' = live s" by (simp add: live_def c geoD [OF assms])
  show v: "valid_id s' cid = valid_id s cid" for cid by (simp add: valid_id_def geoD [OF assms])
  show z: "slab_item_size s' = slab_item_size s"
    by (simp add: slab_item_size_def fun_eq_iff geoD [OF assms])
  show "class_ok s' = class_ok s" by (simp add: class_ok_def v z geoD [OF assms])
qed

lemma finite_chunks [simp]: "finite (chunks s p)"
  by (simp add: chunks_def)

lemma chunk_ge: "a \<in> chunks s p \<Longrightarrow> p + SLAB_HDR_SIZE \<le> a"
  by (auto simp: chunks_def slab_2_item_def)

lemma chunk_end:
  assumes "class_ok s" and "valid_id s (sl_id (slabs s p))" and "a \<in> chunks s p"
  shows "a + sc_size (slab_cls s p) \<le> p + slab_size_opt (settings s)"
proof -
  obtain i where i: "a = slab_2_item p i (sc_size (slab_cls s p))" "i < nitem (slab_cls s p)"
    using assms(3) by (auto simp: chunks_def)
  have "Suc i * sc_size (slab_cls s p) \<le> nitem (slab_cls s p) * sc_size (slab_cls s p)"
    using i(2) by (intro mult_le_mono1) simp
  moreover have "SLAB_HDR_SIZE + nitem (slab_cls s p) * sc_size (slab_cls s p) \<le> slab_size_opt (settings s)"
    using assms(1,2) by (simp add: class_ok_def slab_cls_def)
  ultimately show ?thesis using i(1) by (simp add: slab_2_item_def)
qed

lemma live_slab:
  assumes "chunk_ok s" and "a \<in> live s"
  shows "item_2_slab s a \<in> active s" and "a \<in> chunks s (item_2_slab s a)"
    and "it_id (items s a) = sl_id (slabs s (item_2_slab s a))"
proof -
  obtain p where p: "p \<in> active s" "a \<in> chunks s p" using assms(2) by (auto simp: live_def)
  then have "item_2_slab s a = p" using assms(1) chunk_ge [OF p(2)] by (auto simp: chunk_ok_def item_2_slab_def)
  with p assms(1) show "item_2_slab s a \<in> active s" "a \<in> chunks s (item_2_slab s a)"
    "it_id (items s a) = sl_id (slabs s (item_2_slab s a))"
    by (auto simp: chunk_ok_def)
qed

lemma chunk_slab_unique:
  assumes "chunk_ok s" and "p \<in> active s" and "a \<in> chunks s p"
  shows "p = item_2_slab s a"
  using assms chunk_ge [OF assms(3)] by (auto simp: chunk_ok_def item_2_slab_def)

lemma live_id:
  assumes "cache_inv_L L e s" and "a \<in> live s"
  shows "valid_id s (it_id (items s a))" and "SLABCLASS_MIN_ID \<le> it_id (items s a)"
    and "it_id (items s a) \<le> SLABCLASS_MAX_ID"
proof -
  show "valid_id s (it_id (items s a))"
    using live_slab [of s a] assms by (auto simp: cache_inv_L_def heap_ok_def)
  then show "SLABCLASS_MIN_ID \<le> it_id (items s a)" "it_id (items s a) \<le> SLABCLASS_MAX_ID"
    using assms(1) by (auto simp: cache_inv_L_def class_ok_def valid_id_def)
qed

lemma chunk_live: "p \<in> active s \<Longrightarrow> a \<in> chunks s p \<Longrightarrow> a \<in> live s"
  by (auto simp: live_def)

lemmas inv_clauses = class_ok_def heap_ok_def chunk_ok_def lruq_ok_def freeq_ok_def flag_ok_def
  run_ok_def ref_ok_def index_ok_def fit_ok_def no_leak_def time_ok_def

text \<open>Counters and the cas id are no part of the invariant.\<close>

lemma inv_frame:
  assumes "items s' = items s" "slabs s' = slabs s" "slabclasses s' = slabclasses s"
    "slabclass_max_id s' = slabclass_max_id s" "heap s' = heap s" "item_lruq s' = item_lruq s"
    "hashtbl s' = hashtbl s" "now s' = now s" "settings s' = settings s" "nmalloc s' = nmalloc s"
    "ub s' = ub s"
  shows "cache_inv_L L e s' = cache_inv_L L e s"
proof -
  have g: "geo s' = geo s" by (simp add: geo_def assms)
  have "run s' = run s" "key_of s' = key_of s" "fits s' = fits s" "linked_items s' = linked_items s"
    by (auto simp: fun_eq_iff run_def key_of_def fits_def linked_items_def geo_live [OF g] assms)
  then show ?thesis
    by (simp add: cache_inv_L_def inv_clauses geo_live [OF g] assms)
qed

lemma inv_counters [simp]:
  "cache_inv_L L e (sincr_by cid m d s) = cache_inv_L L e s"
  "cache_inv_L L e (sdecr_by cid m d s) = cache_inv_L L e s"
  "cache_inv_L L e (tincr tm s) = cache_inv_L L e s"
  "cache_inv_L L e (s\<lparr>cas_id := c\<rparr>) = cache_inv_L L e s"
  "cache_inv_L L e (s\<lparr>nrand := k\<rparr>) = cache_inv_L L e s"
  by (rule inv_frame; simp add: upd_defs)+

section \<open>Reference counts\<close>

lemma sum_fun_upd:
  fixes f :: "'b \<Rightarrow> nat"
  assumes "finite A"
  shows "(\<Sum>x\<in>A. f ((g(a := y)) x)) + (if a \<in> A then f (g a) else 0)
       = (\<Sum>x\<in>A. f (g x)) + (if a \<in> A then f y else 0)"
proof (cases "a \<in> A")
  case True
  then show ?thesis using assms by (simp add: sum.remove [of A a])
next
  case False
  then have "(\<Sum>x\<in>A. f ((g(a := y)) x)) = (\<Sum>x\<in>A. f (g x))" by (intro sum.cong) auto
  with False show ?thesis by simp
qed

lemma refcount_le_slab:
  assumes "cache_inv_L L e s" and "a \<in> live s"
  shows "unat (it_refcount (items s a)) \<le> unat (sl_refcount (slabs s (item_2_slab s a)))"
proof -
  have "chunk_ok s" "ref_ok s" using assms(1) by (simp_all add: cache_inv_L_def)
  then show ?thesis
    using live_slab [OF \<open>chunk_ok s\<close> assms(2)]
    by (auto simp: ref_ok_def intro: member_le_sum)
qed

text \<open>Changing the reference count of one item, and of its slab by the same amount.\<close>

lemma inv_refcount:
  assumes inv: "cache_inv_L L e s" and it: "it \<in> live s"
    and ns: "\<not> item_is_slabbed (items s it)" and nr: "\<And>cid. valid_id s cid \<Longrightarrow> it \<notin> run s cid"
    and sum: "unat t + unat (it_refcount (items s it)) = unat (sl_refcount (slabs s (item_2_slab s it))) + unat r"
    and f: "it \<in> L \<or> r = 0 \<or> fits s (items s it)"
    and l: "it \<in> L \<or> r \<noteq> 0 \<or> item_is_linked (items s it)"
    and s': "s' = upd_slab (item_2_slab s it) (\<lambda>sl. sl\<lparr>sl_refcount := t\<rparr>)
                   (upd_item it (\<lambda>i. i\<lparr>it_refcount := r\<rparr>) s)"
  shows "cache_inv_L L e s'"
proof -
  have g: "geo s' = geo s" by (auto simp: s' geo_def upd_defs)
  note G = geo_live [OF g] geoD [OF g]
  have I: "items s' = (items s)(it := (items s it)\<lparr>it_refcount := r\<rparr>)"
    by (simp add: s' upd_defs)
  have fl: "item_is_linked (items s' a) = item_is_linked (items s a)"
    "item_is_slabbed (items s' a) = item_is_slabbed (items s a)"
    "it_id (items s' a) = it_id (items s a)" "it_offset (items s' a) = it_offset (items s a)"
    "it_atime (items s' a) = it_atime (items s a)"
    "fits s' (items s' a) = fits s (items s a)" "key_of s' = key_of s" for a
    by (auto simp: I flag_defs fits_def key_of_def item_size_def item_key_def item_key_off_def G fun_eq_iff)
  have R: "run s' = run s" and Q: "item_lruq s' = item_lruq s" and C: "slabclasses s' = slabclasses s"
    and H: "heap s' = heap s" "hashtbl s' = hashtbl s" "now s' = now s" "nmalloc s' = nmalloc s" "ub s' = ub s"
    by (auto simp: s' run_def upd_defs fun_eq_iff)
  have K: "linked_items s' = linked_items s" by (simp add: linked_items_def G fl)
  have c: "chunk_ok s" and ref: "ref_ok s" using inv by (auto simp: cache_inv_L_def)
  have rk: "ref_ok s'"
    unfolding ref_ok_def G
  proof
    fix p assume p: "p \<in> active s"
    have m: "it \<in> chunks s p \<longleftrightarrow> p = item_2_slab s it"
      using chunk_slab_unique [OF c p] live_slab [OF c it] by auto
    have "(\<Sum>a\<in>chunks s p. unat (it_refcount (items s' a)))
        + (if it \<in> chunks s p then unat (it_refcount (items s it)) else 0)
        = (\<Sum>a\<in>chunks s p. unat (it_refcount (items s a))) + (if it \<in> chunks s p then unat r else 0)"
      using sum_fun_upd [of "chunks s p" "\<lambda>i. unat (it_refcount i)" "items s" it "(items s it)\<lparr>it_refcount := r\<rparr>"]
      by (simp add: I)
    then show "unat (sl_refcount (slabs s' p)) = (\<Sum>a\<in>chunks s p. unat (it_refcount (items s' a)))"
      using ref p sum m by (auto simp: ref_ok_def s' upd_defs split: if_splits)
  qed
  have rc: "it_refcount (items s' a) = (if a = it then r else it_refcount (items s a))" for a
    by (simp add: I)
  have "flag_ok s'" using inv ns by (simp add: cache_inv_L_def flag_ok_def G fl rc)
  moreover have "run_ok s'" using inv nr by (simp add: cache_inv_L_def run_ok_def G fl rc R C; blast)
  moreover have "no_leak L s'" using inv l by (simp add: cache_inv_L_def no_leak_def G fl rc R; blast)
  moreover have "fit_ok L s'" using inv f by (simp add: cache_inv_L_def fit_ok_def G fl rc; blast)
  ultimately show ?thesis
    using inv rk by (simp add: cache_inv_L_def heap_ok_def chunk_ok_def lruq_ok_def freeq_ok_def index_ok_def time_ok_def G fl Q C H K)
qed


lemma unat_u16_Suc: "unat (x :: u16) < 65535 \<Longrightarrow> unat (x + 1) = unat x + 1"
  by (simp add: unat_word_ariths)

lemma unat_u16_pred: "(x :: u16) \<noteq> 0 \<Longrightarrow> unat (x - 1) + 1 = unat x"
  using unat_gt_0 [of x] by (simp add: unat_minus_one)

lemma inv_acquire:
  assumes inv: "cache_inv_L L e s" and it: "it \<in> live s"
    and "\<not> item_is_slabbed (items s it)" and "\<And>cid. valid_id s cid \<Longrightarrow> it \<notin> run s cid"
    and room: "unat (sl_refcount (slabs s (item_2_slab s it))) < 65535"
    and f: "it \<in> L \<or> fits s (items s it)"
  shows "cache_inv_L L e (item_acquire_refcount it s)"
proof (rule inv_refcount [OF assms(1-4)])
  have i: "unat (it_refcount (items s it)) < 65535"
    using refcount_le_slab [OF inv it] room by simp
  then have "unat (it_refcount (items s it) + 1) \<noteq> 0" by (simp add: unat_u16_Suc)
  then have n0: "it_refcount (items s it) + 1 \<noteq> 0" by (metis unat_0)
  show "unat (sl_refcount (slabs s (item_2_slab s it)) + 1) + unat (it_refcount (items s it))
      = unat (sl_refcount (slabs s (item_2_slab s it))) + unat (it_refcount (items s it) + 1)"
    using i room by (simp add: unat_u16_Suc)
  show "it \<in> L \<or> it_refcount (items s it) + 1 = 0 \<or> fits s (items s it)" using f by blast
  show "it \<in> L \<or> it_refcount (items s it) + 1 \<noteq> 0 \<or> item_is_linked (items s it)" using n0 by blast
  show "item_acquire_refcount it s =
     upd_slab (item_2_slab s it) (\<lambda>sl. sl\<lparr>sl_refcount := sl_refcount (slabs s (item_2_slab s it)) + 1\<rparr>)
      (upd_item it (\<lambda>i. i\<lparr>it_refcount := it_refcount (items s it) + 1\<rparr>) s)"
    by (simp add: item_acquire_refcount_def slab_acquire_refcount_def Let_def upd_defs item_2_slab_def)
qed

lemma not_in_run:
  assumes "cache_inv_L L e s" and "item_is_linked (items s it) \<or> it_refcount (items s it) \<noteq> 0 \<or> it \<in> L"
    and "valid_id s cid"
  shows "it \<notin> run s cid"
  using assms by (fastforce simp: cache_inv_L_def run_ok_def no_leak_def)

lemma slabbed_refcount:
  "cache_inv_L L e s \<Longrightarrow> it \<in> live s \<Longrightarrow> it_refcount (items s it) \<noteq> 0 \<Longrightarrow> \<not> item_is_slabbed (items s it)"
  by (auto simp: cache_inv_L_def flag_ok_def)

lemma linked_not_slabbed:
  "cache_inv_L L e s \<Longrightarrow> it \<in> linked_items s \<Longrightarrow> \<not> item_is_slabbed (items s it)"
  by (auto simp: cache_inv_L_def flag_ok_def linked_items_def)

text \<open>Dropping the last reference leaves an unlinked item in hand.\<close>

lemma item_ref_facts [simp]:
  "it_refcount (items (item_release_refcount it s) a)
     = (if a = it then it_refcount (items s it) - 1 else it_refcount (items s a))"
  "it_refcount (items (item_acquire_refcount it s) a)
     = (if a = it then it_refcount (items s it) + 1 else it_refcount (items s a))"
  "item_is_linked (items (item_release_refcount it s) a) = item_is_linked (items s a)"
  "item_is_linked (items (item_acquire_refcount it s) a) = item_is_linked (items s a)"
  "item_is_slabbed (items (item_release_refcount it s) a) = item_is_slabbed (items s a)"
  "item_is_slabbed (items (item_acquire_refcount it s) a) = item_is_slabbed (items s a)"
  by (auto simp: item_release_refcount_def slab_release_refcount_def item_acquire_refcount_def
      slab_acquire_refcount_def Let_def upd_defs flag_defs)

text \<open>Weakening and strengthening the set of items in hand.\<close>

lemma inv_hand_insert:
  assumes "cache_inv_L L e s" and "it \<in> live s" and "\<not> item_is_linked (items s it)"
    and "it_refcount (items s it) \<noteq> 0"
  shows "cache_inv_L (insert it L) e s"
  using assms not_in_run [OF assms(1)] slabbed_refcount [OF assms(1,2)]
  by (auto simp: cache_inv_L_def fit_ok_def no_leak_def)

lemma inv_hand_remove:
  assumes "cache_inv_L L e s" and "fits s (items s it)" and "it_refcount (items s it) \<noteq> 0"
  shows "cache_inv_L (L - {it}) e s"
  using assms by (auto simp: cache_inv_L_def fit_ok_def no_leak_def)

lemma inv_release:
  assumes inv: "cache_inv_L L e s" and it: "it \<in> live s" and r: "it_refcount (items s it) \<noteq> 0"
    and nl: "it \<notin> L"
  shows "cache_inv_L (if item_is_linked (items s it) \<or> it_refcount (items s it) \<noteq> 1 then L else insert it L)
           e (item_release_refcount it s)"
    (is "cache_inv_L ?L e _")
proof (rule inv_refcount [of ?L])
  show "cache_inv_L ?L e s" using inv inv_hand_insert [OF inv it] r by simp
  have "fits s (items s it)" using inv it r nl by (auto simp: cache_inv_L_def fit_ok_def)
  then show "it \<in> ?L \<or> it_refcount (items s it) - 1 = 0 \<or> fits s (items s it)" by simp
  show "\<not> item_is_slabbed (items s it)" by (rule slabbed_refcount [OF inv it r])
  show "it \<notin> run s cid" if "valid_id s cid" for cid using not_in_run [OF inv _ that] r by blast
  have "sl_refcount (slabs s (item_2_slab s it)) \<noteq> 0"
    using refcount_le_slab [OF inv it] r by (metis le_zero_eq unat_0 unat_eq_zero)
  then show "unat (sl_refcount (slabs s (item_2_slab s it)) - 1) + unat (it_refcount (items s it))
      = unat (sl_refcount (slabs s (item_2_slab s it))) + unat (it_refcount (items s it) - 1)"
    using unat_u16_pred [of "it_refcount (items s it)"] unat_u16_pred [of "sl_refcount (slabs s (item_2_slab s it))"] r
    by linarith
  show "it \<in> ?L \<or> it_refcount (items s it) - 1 \<noteq> 0 \<or> item_is_linked (items s it)" by auto
qed (simp_all add: it item_release_refcount_def slab_release_refcount_def Let_def upd_defs item_2_slab_def)


section \<open>Unlinking\<close>

lemma key_of_flag_linked [simp]:
  "item_key (it\<lparr>it_flags := it_flags it OR ITEM_LINKED\<rparr>) = item_key it"
  "item_key (it\<lparr>it_flags := it_flags it AND NOT ITEM_LINKED\<rparr>) = item_key it"
  by (simp_all add: item_key_def item_key_off_def)

lemma flag_update_fits [simp]:
  "fits s (it\<lparr>it_flags := it_flags it OR ITEM_LINKED\<rparr>) = fits s it"
  "fits s (it\<lparr>it_flags := it_flags it AND NOT ITEM_LINKED\<rparr>) = fits s it"
  "fits s (it\<lparr>it_flags := it_flags it OR ITEM_SLABBED\<rparr>) = fits s it"
  "fits s (it\<lparr>it_flags := it_flags it AND NOT ITEM_SLABBED\<rparr>) = fits s it"
  by (simp_all add: fits_def item_size_def)

text \<open>What \<^verbatim>\<open>item_reuse\<close> does to the fields the invariant reads.\<close>

lemma item_reuse_fields:
  assumes inv: "cache_inv_L L e s" and it: "it \<in> linked_items s"
  obtains h where "assoc_delete (key_of s) (key_of s it) (hashtbl s) = Some h"
    and "assoc_inv (key_of s) h" and "assoc_set h = linked_items s - {it}"
    and "hashtbl (item_reuse it s) = h"
    and "items (item_reuse it s) = (items s)(it := (items s it)\<lparr>it_flags := it_flags (items s it) AND NOT ITEM_LINKED\<rparr>)"
    and "item_lruq (item_reuse it s) = (item_lruq s)(it_id (items s it) := remove1 it (item_lruq s (it_id (items s it))))"
    and "slabs (item_reuse it s) = slabs s" and "slabclasses (item_reuse it s) = slabclasses s"
    and "slabclass_max_id (item_reuse it s) = slabclass_max_id s"
    and "heap (item_reuse it s) = heap s" and "now (item_reuse it s) = now s"
    and "settings (item_reuse it s) = settings s" and "nmalloc (item_reuse it s) = nmalloc s"
    and "ub (item_reuse it s) = ub s" and "cas_id (item_reuse it s) = cas_id s"
proof -
  let ?s = "upd_item it (\<lambda>i. i\<lparr>it_flags := it_flags i AND NOT ITEM_LINKED\<rparr>) s"
  have k: "key_of ?s = key_of s" by (auto simp: key_of_def upd_defs fun_eq_iff)
  have "assoc_inv (key_of s) (hashtbl s)" "it \<in> assoc_set (hashtbl s)" "assoc_set (hashtbl s) = linked_items s"
    using inv it by (auto simp: cache_inv_L_def index_ok_def)
  then obtain h where h: "assoc_delete (key_of s) (key_of s it) (hashtbl s) = Some h"
    "assoc_inv (key_of s) h" "assoc_set h = linked_items s - {it}"
    using assoc_idx.delete_member by metis
  have "item_reuse it s = item_unlink_q it (?s\<lparr>hashtbl := h\<rparr>)"
    using h(1) by (simp add: item_reuse_def Let_def index_delete_def k) (simp add: upd_defs)
  then show ?thesis
    by (intro that [OF h]) (simp_all add: item_unlink_q_def Let_def upd_defs)
qed

lemma inv_item_reuse:
  assumes inv: "cache_inv_L L e s" and it: "it \<in> linked_items s"
  shows "cache_inv_L (if it_refcount (items s it) = 0 then insert it L else L) e (item_reuse it s)"
    (is "cache_inv_L ?L e ?s'")
proof (rule item_reuse_fields [OF inv it])
  fix h
  assume h: "assoc_inv (key_of s) h" "assoc_set h = linked_items s - {it}" "hashtbl ?s' = h"
    and I: "items ?s' = (items s)(it := (items s it)\<lparr>it_flags := it_flags (items s it) AND NOT ITEM_LINKED\<rparr>)"
    and Q: "item_lruq ?s' = (item_lruq s)(it_id (items s it) := remove1 it (item_lruq s (it_id (items s it))))"
    and R: "slabs ?s' = slabs s" "slabclasses ?s' = slabclasses s" "slabclass_max_id ?s' = slabclass_max_id s"
    "heap ?s' = heap s" "now ?s' = now s" "settings ?s' = settings s" "nmalloc ?s' = nmalloc s" "ub ?s' = ub s"
  have g: "geo ?s' = geo s" by (simp add: geo_def R)
  note G = geo_live [OF g] geoD [OF g]
  have run: "run ?s' = run s" and key: "key_of ?s' = key_of s" and fit: "fits ?s' = fits s"
    by (auto simp: run_def key_of_def fits_def fun_eq_iff R I G)
  have fl: "item_is_linked (items ?s' a) \<longleftrightarrow> item_is_linked (items s a) \<and> a \<noteq> it"
    "item_is_slabbed (items ?s' a) = item_is_slabbed (items s a)"
    "it_id (items ?s' a) = it_id (items s a)" "it_offset (items ?s' a) = it_offset (items s a)"
    "it_atime (items ?s' a) = it_atime (items s a)" "it_refcount (items ?s' a) = it_refcount (items s a)"
    "fits s (items ?s' a) = fits s (items s a)" for a
    by (auto simp: I)
  have lk: "it \<in> live s" "item_is_linked (items s it)" using it by (auto simp: linked_items_def)
  have K: "linked_items ?s' = linked_items s - {it}" by (auto simp: linked_items_def G fl)
  note inv' = inv [unfolded cache_inv_L_def]
  have nrun: "\<And>cid. valid_id s cid \<Longrightarrow> it \<notin> run s cid" using not_in_run [OF inv] lk by blast
  have "lruq_ok ?s'" using inv' by (auto simp: lruq_ok_def G fl Q set_remove1_eq)
  moreover have "time_ok ?s'"
    using inv' by (auto simp: time_ok_def lruq_ok_def fl Q R sorted_map_remove1 dest: notin_set_remove1)
  moreover have "flag_ok ?s'" using inv' by (auto simp: flag_ok_def G fl)
  moreover have "run_ok ?s'" using inv' by (simp add: run_ok_def G fl run R; blast)
  moreover have "fit_ok ?L ?s'" using inv' lk by (auto simp: fit_ok_def G fl fit)
  moreover have "no_leak ?L ?s'"
    using inv' lk nrun linked_not_slabbed [OF inv it] by (simp add: no_leak_def G fl run; blast)
  moreover have "index_ok ?s'" using h K by (simp add: index_ok_def key)
  ultimately show ?thesis
    using inv' by (simp add: cache_inv_L_def heap_ok_def chunk_ok_def freeq_ok_def ref_ok_def G fl R)
qed


section \<open>The free queues\<close>

lemma key_of_flag_slabbed [simp]:
  "item_key (it\<lparr>it_flags := it_flags it OR ITEM_SLABBED\<rparr>) = item_key it"
  "item_key (it\<lparr>it_flags := it_flags it AND NOT ITEM_SLABBED\<rparr>) = item_key it"
  by (simp_all add: item_key_def item_key_off_def)

text \<open>Moving one item of class \<open>cid\<close> into the free queue \<open>q\<close>, or out of it.\<close>

lemma inv_freeq_change:
  assumes inv: "cache_inv_L L e s" and it: "it \<in> live s" and cid: "it_id (items s it) = cid"
    and i: "item_is_slabbed i \<longleftrightarrow> b" "item_is_linked i \<longleftrightarrow> item_is_linked (items s it)"
      "item_key i = item_key (items s it)" "fits s i = fits s (items s it)"
      "it_id i = it_id (items s it)" "it_offset i = it_offset (items s it)"
      "it_atime i = it_atime (items s it)" "it_refcount i = it_refcount (items s it)"
    and nl: "\<not> item_is_linked (items s it)" and r0: "it_refcount (items s it) = 0"
    and nr: "\<And>cid. valid_id s cid \<Longrightarrow> it \<notin> run s cid"
    and q: "distinct q" "n = length q"
      "set q = (if b then insert it (set (free_itemq (slabclasses s cid))) else set (free_itemq (slabclasses s cid)) - {it})"
    and s': "items s' = (items s)(it := i)"
      "slabclasses s' = (slabclasses s)(cid := (slabclasses s cid)\<lparr>nfree_itemq := n, free_itemq := q\<rparr>)"
      "slabs s' = slabs s" "slabclass_max_id s' = slabclass_max_id s" "heap s' = heap s" "item_lruq s' = item_lruq s"
      "hashtbl s' = hashtbl s" "now s' = now s" "settings s' = settings s" "nmalloc s' = nmalloc s" "ub s' = ub s"
  shows "cache_inv_L (if b then L - {it} else insert it L) e s'" (is "cache_inv_L ?L e s'")
proof -
  have g: "geo s' = geo s" by (auto simp: geo_def s')
  note G = geo_live [OF g] geoD [OF g]
  have run: "run s' = run s" and key: "key_of s' = key_of s" and fit: "fits s' = fits s"
    by (auto simp: run_def key_of_def fits_def fun_eq_iff s' G i)
  have C: "free_item (slabclasses s' c) = free_item (slabclasses s c)"
    "nfree_item (slabclasses s' c) = nfree_item (slabclasses s c)" for c by (auto simp: s')
  have fl: "item_is_linked (items s' a) = item_is_linked (items s a)"
    "item_is_slabbed (items s' a) \<longleftrightarrow> (if a = it then b else item_is_slabbed (items s a))"
    "it_id (items s' a) = it_id (items s a)" "it_offset (items s' a) = it_offset (items s a)"
    "it_atime (items s' a) = it_atime (items s a)" "it_refcount (items s' a) = it_refcount (items s a)"
    "fits s (items s' a) = fits s (items s a)" for a
    by (auto simp: s' i)
  have K: "linked_items s' = linked_items s" by (auto simp: linked_items_def G fl)
  note inv' = inv [unfolded cache_inv_L_def]
  have fq: "set (free_itemq (slabclasses s c)) = {a \<in> live s. it_id (items s a) = c \<and> item_is_slabbed (items s a)}"
    if "valid_id s c" for c using inv' that by (simp add: freeq_ok_def)
  have "freeq_ok s'"
    unfolding freeq_ok_def
  proof (intro allI impI)
    fix c assume "valid_id s' c"
    then have v: "valid_id s c" by (simp add: G)
    show "distinct (free_itemq (slabclasses s' c))
       \<and> nfree_itemq (slabclasses s' c) = length (free_itemq (slabclasses s' c))
       \<and> set (free_itemq (slabclasses s' c))
         = {a \<in> live s'. it_id (items s' a) = c \<and> item_is_slabbed (items s' a)}"
    proof (cases "c = cid")
      case True
      with fq [OF v] q it cid show ?thesis by (auto simp: s'(2) G fl split: if_splits)
    next
      case False
      then have "slabclasses s' c = slabclasses s c" by (simp add: s')
      moreover have "{a \<in> live s'. it_id (items s' a) = c \<and> item_is_slabbed (items s' a)}
        = {a \<in> live s. it_id (items s a) = c \<and> item_is_slabbed (items s a)}"
        using cid False by (auto simp: G fl)
      ultimately show ?thesis using inv' v by (simp add: freeq_ok_def)
    qed
  qed
  moreover have "flag_ok s'" using inv' nl r0 by (auto simp: flag_ok_def G fl)
  moreover have "run_ok s'" using inv' nr by (simp add: run_ok_def G fl run s'(3) C; blast)
  moreover have "fit_ok ?L s'" using inv' nl r0 by (auto simp: fit_ok_def G fl fit)
  moreover have "no_leak ?L s'" using inv' it nl nr by (simp add: no_leak_def G fl run; blast)
  moreover have "index_ok s'" using inv' K by (simp add: index_ok_def key s')
  moreover have "time_ok s'" using inv' by (simp add: time_ok_def fl s'(6,8))
  ultimately show ?thesis
    using inv' by (simp add: cache_inv_L_def heap_ok_def chunk_ok_def lruq_ok_def ref_ok_def G fl s'(3,5,6,10,11))
qed

lemma inv_slab_put_item:
  assumes inv: "cache_inv_L L e s" and it: "it \<in> L" and r: "it_refcount (items s it) = 0"
  shows "cache_inv_L (L - {it}) e (slab_put_item it s)"
proof -
  have l: "it \<in> live s" "\<not> item_is_linked (items s it)" "\<not> item_is_slabbed (items s it)"
    using inv it by (auto simp: cache_inv_L_def no_leak_def)
  have nr: "\<And>cid. valid_id s cid \<Longrightarrow> it \<notin> run s cid" using not_in_run [OF inv] it by blast
  let ?c = "it_id (items s it)"
  have "freeq_ok s" using inv by (simp add: cache_inv_L_def)
  then have fq: "distinct (free_itemq (slabclasses s ?c))" "it \<notin> set (free_itemq (slabclasses s ?c))"
    "nfree_itemq (slabclasses s ?c) = length (free_itemq (slabclasses s ?c))"
    using live_id [OF inv l(1)] l(3) by (auto simp: freeq_ok_def)
  show ?thesis
    using inv_freeq_change [OF inv l(1) refl, of "(items s it)\<lparr>it_flags := it_flags (items s it) OR ITEM_SLABBED\<rparr>" True
        "it # free_itemq (slabclasses s ?c)" "nfree_itemq (slabclasses s ?c) + 1" "slab_put_item it s"] l r nr fq
    by (simp add: slab_put_item_def Let_def upd_defs)
qed

lemma inv_freeq_remove:
  assumes inv: "cache_inv_L L e s" and it: "it \<in> live s" and sl: "item_is_slabbed (items s it)"
    and cid: "it_id (items s it) = cid"
  shows "cache_inv_L (insert it L) e
     (upd_class cid (\<lambda>c. c\<lparr>nfree_itemq := nfree_itemq c - 1, free_itemq := remove1 it (free_itemq c)\<rparr>)
       (upd_item it (\<lambda>i. i\<lparr>it_flags := it_flags i AND NOT ITEM_SLABBED\<rparr>) s))"
proof -
  have "flag_ok s" "freeq_ok s" "run_ok s" using inv by (auto simp: cache_inv_L_def)
  then have l: "\<not> item_is_linked (items s it)" "it_refcount (items s it) = 0"
    and nr: "\<And>cid. valid_id s cid \<Longrightarrow> it \<notin> run s cid"
    and fq: "distinct (free_itemq (slabclasses s cid))" "it \<in> set (free_itemq (slabclasses s cid))"
      "nfree_itemq (slabclasses s cid) = length (free_itemq (slabclasses s cid))"
    using it sl live_id [OF inv it] cid by (auto simp: flag_ok_def freeq_ok_def run_ok_def)
  show ?thesis
    using inv_freeq_change [OF inv it cid, of "(items s it)\<lparr>it_flags := it_flags (items s it) AND NOT ITEM_SLABBED\<rparr>" False
        "remove1 it (free_itemq (slabclasses s cid))" "nfree_itemq (slabclasses s cid) - 1"] l nr fq
    by (simp add: upd_defs length_remove1)
qed


section \<open>Unlinking and releasing items\<close>

lemma item_unlink_op_linked:
  assumes "item_is_linked (items s it)"
  shows "item_unlink_op it s =
     (let s' = item_reuse it (sincr (it_id (items s it)) item_unlink s)
      in if it_refcount (items s' it) = 0 then slab_put_item it s' else s')"
proof -
  have "sincr (it_id (items (upd_item it (\<lambda>i. i\<lparr>it_flags := it_flags i AND NOT ITEM_LINKED\<rparr>) s) it)) item_unlink
           (upd_item it (\<lambda>i. i\<lparr>it_flags := it_flags i AND NOT ITEM_LINKED\<rparr>) s)
      = upd_item it (\<lambda>i. i\<lparr>it_flags := it_flags i AND NOT ITEM_LINKED\<rparr>) (sincr (it_id (items s it)) item_unlink s)"
    by (simp add: upd_defs)
  then show ?thesis
    using assms by (simp add: item_unlink_op_def item_reuse_def item_free_op_def Let_def)
qed

lemma linked_counters [simp]:
  "linked_items (sincr_by cid m d s) = linked_items s"
  "live (sincr_by cid m d s) = live s"
  "items (sincr_by cid m d s) = items s"
  by (auto simp: linked_items_def live_def chunks_def slab_cls_def upd_defs)

lemma hand_not_linked: "cache_inv_L L e s \<Longrightarrow> it \<in> L \<Longrightarrow> \<not> item_is_linked (items s it)"
  by (auto simp: cache_inv_L_def no_leak_def)

lemma inv_item_unlink:
  assumes inv: "cache_inv_L L e s" and it: "it \<in> live s"
  shows "cache_inv_L L e (item_unlink_op it s)"
proof (cases "item_is_linked (items s it)")
  case True
  let ?s = "sincr (it_id (items s it)) item_unlink s"
  have inv1: "cache_inv_L L e ?s" and lk: "it \<in> linked_items ?s"
    using inv it True by (simp_all add: linked_items_def)
  have nl: "it \<notin> L" using hand_not_linked [OF inv] True by blast
  have r: "it_refcount (items (item_reuse it ?s) it) = it_refcount (items s it)"
    using item_reuse_fields [OF inv1 lk] by (metis (no_types, lifting) fun_upd_same item.select_convs(6)
        item.surjective item.update_convs(7) linked_counters(3))
  show ?thesis
    using inv_item_reuse [OF inv1 lk] inv_slab_put_item [of "insert it L" e "item_reuse it ?s" it] r nl
    by (auto simp: item_unlink_op_linked [OF True] Let_def)
qed (simp add: item_unlink_op_def inv)

lemma inv_item_remove:
  assumes inv: "cache_inv_L L e s" and it: "it \<in> live s" and nl: "it \<notin> L"
    and used: "item_is_linked (items s it) \<or> it_refcount (items s it) \<noteq> 0"
  shows "cache_inv_L L e (item_remove_op it s)"
proof (cases "it_refcount (items s it) = 0")
  case True
  then show ?thesis using used inv by (simp add: item_remove_op_def)
next
  case False
  let ?s = "item_release_refcount it s"
  have c: "it_refcount (items s it) - 1 = 0 \<longleftrightarrow> it_refcount (items s it) = 1" by simp
  show ?thesis
    using inv_release [OF inv it False nl] inv_slab_put_item [of "insert it L" e ?s it] False nl
    by (auto simp: item_remove_op_def Let_def item_free_op_def)
qed

section \<open>Linking\<close>

lemma heap_ok_geo:
  assumes "heap_ok e s" and g: "geo s' = geo s" and "distinct (slab_lruq (heap s'))"
    and "slab_table (heap s') = slab_table (heap s)" "nslab (heap s') = nslab (heap s)"
    "hi_curr (heap s') = hi_curr (heap s)" "nmalloc s' = nmalloc s"
  shows "heap_ok e s'"
  using assms(1,3-) by (simp add: heap_ok_def geo_live [OF g] geoD [OF g])

lemma slab_lruq_touch_fields:
  assumes "p \<in> active s" and "distinct (slab_lruq (heap s))"
  shows "distinct (slab_lruq (heap (slab_lruq_touch p b s)))"
    and "active (slab_lruq_touch p b s) = active s"
    and "sl_id (slabs (slab_lruq_touch p b s) q) = sl_id (slabs s q)"
    and "sl_refcount (slabs (slab_lruq_touch p b s) q) = sl_refcount (slabs s q)"
    and "slab_table (heap (slab_lruq_touch p b s)) = slab_table (heap s)"
    and "nslab (heap (slab_lruq_touch p b s)) = nslab (heap s)"
    and "max_nslab (heap (slab_lruq_touch p b s)) = max_nslab (heap s)"
    and "hi_curr (heap (slab_lruq_touch p b s)) = hi_curr (heap s)"
  using assms
  by (auto simp: slab_lruq_touch_def slab_link_lruq_def slab_unlink_lruq_def slab_lruq_append_def
      slab_lruq_remove_def upd_defs set_remove1_eq)

lemma slab_lruq_touch_frame [simp]:
  "items (slab_lruq_touch p b s) = items s" "slabclasses (slab_lruq_touch p b s) = slabclasses s"
  "slabclass_max_id (slab_lruq_touch p b s) = slabclass_max_id s"
  "item_lruq (slab_lruq_touch p b s) = item_lruq s" "hashtbl (slab_lruq_touch p b s) = hashtbl s"
  "now (slab_lruq_touch p b s) = now s" "settings (slab_lruq_touch p b s) = settings s"
  "nmalloc (slab_lruq_touch p b s) = nmalloc s" "ub (slab_lruq_touch p b s) = ub s"
  "cas_id (slab_lruq_touch p b s) = cas_id s" "ntable (slab_lruq_touch p b s) = ntable s"
  by (simp_all add: slab_lruq_touch_def slab_link_lruq_def slab_unlink_lruq_def slab_lruq_append_def
      slab_lruq_remove_def upd_defs)


text \<open>The record a linked item ends up with.\<close>

definition linked_item :: "cache \<Rightarrow> addr \<Rightarrow> item" where
  "linked_item s it =
     (item_set_cas (if use_cas (settings s) then cas_id s + 1 else 0)
        ((items s it)\<lparr>it_flags := it_flags (items s it) OR ITEM_LINKED\<rparr>))\<lparr>it_atime := now s\<rparr>"

lemma item_set_cas_simps [simp]:
  "it_flags (item_set_cas c i) = it_flags i" "it_id (item_set_cas c i) = it_id i"
  "it_offset (item_set_cas c i) = it_offset i" "it_refcount (item_set_cas c i) = it_refcount i"
  "it_nkey (item_set_cas c i) = it_nkey i" "it_nbyte (item_set_cas c i) = it_nbyte i"
  "it_end (item_set_cas c i) = it_end i" "it_exptime (item_set_cas c i) = it_exptime i"
  "it_dataflags (item_set_cas c i) = it_dataflags i" "it_atime (item_set_cas c i) = it_atime i"
  by (simp_all add: item_set_cas_def)

lemma flags_cong:
  assumes "it_flags i = it_flags j"
  shows "item_is_linked i = item_is_linked j" "item_is_slabbed i = item_is_slabbed j"
    "item_has_cas i = item_has_cas j" "item_is_raligned i = item_is_raligned j"
  using assms by (simp_all add: flag_defs)

lemma item_set_cas_flags [simp]:
  "item_is_linked (item_set_cas c i) = item_is_linked i" "item_is_slabbed (item_set_cas c i) = item_is_slabbed i"
  "item_has_cas (item_set_cas c i) = item_has_cas i" "item_is_raligned (item_set_cas c i) = item_is_raligned i"
  "item_key (item_set_cas c i) = item_key i" "item_size (item_set_cas c i) = item_size i"
  "fits s (item_set_cas c i) = fits s i"
  by (simp_all add: flags_cong [of "item_set_cas c i" i] item_key_def item_key_off_def item_size_def fits_def)

lemma atime_update_simps [simp]:
  "item_is_linked (i\<lparr>it_atime := t\<rparr>) = item_is_linked i" "item_is_slabbed (i\<lparr>it_atime := t\<rparr>) = item_is_slabbed i"
  "item_has_cas (i\<lparr>it_atime := t\<rparr>) = item_has_cas i" "item_is_raligned (i\<lparr>it_atime := t\<rparr>) = item_is_raligned i"
  "item_key (i\<lparr>it_atime := t\<rparr>) = item_key i" "item_size (i\<lparr>it_atime := t\<rparr>) = item_size i"
  "fits s (i\<lparr>it_atime := t\<rparr>) = fits s i"
  by (simp_all add: flag_defs item_key_def item_key_off_def item_size_def fits_def)

lemma linked_item_simps [simp]:
  "item_is_linked (linked_item s it)" "item_is_slabbed (linked_item s it) = item_is_slabbed (items s it)"
  "item_has_cas (linked_item s it) = item_has_cas (items s it)"
  "item_is_raligned (linked_item s it) = item_is_raligned (items s it)"
  "item_key (linked_item s it) = item_key (items s it)" "fits s (linked_item s it) = fits s (items s it)"
  "it_id (linked_item s it) = it_id (items s it)" "it_offset (linked_item s it) = it_offset (items s it)"
  "it_refcount (linked_item s it) = it_refcount (items s it)" "it_atime (linked_item s it) = now s"
  "it_nkey (linked_item s it) = it_nkey (items s it)" "it_nbyte (linked_item s it) = it_nbyte (items s it)"
  "it_end (linked_item s it) = it_end (items s it)" "it_exptime (linked_item s it) = it_exptime (items s it)"
  "it_dataflags (linked_item s it) = it_dataflags (items s it)"
  by (simp_all add: linked_item_def)

lemma item_link_q_fields:
  assumes "p = item_2_slab s it"
    and "p \<in> active s" and "distinct (slab_lruq (heap s))"
  shows "items (item_link_q it b s) = (items s)(it := (items s it)\<lparr>it_atime := now s\<rparr>)"
    and "item_lruq (item_link_q it b s) = (item_lruq s)(it_id (items s it) := item_lruq s (it_id (items s it)) @ [it])"
    and "geo (item_link_q it b s) = geo s"
    and "distinct (slab_lruq (heap (item_link_q it b s)))"
    and "sl_refcount (slabs (item_link_q it b s) q) = sl_refcount (slabs s q)"
    and "slab_table (heap (item_link_q it b s)) = slab_table (heap s)"
    and "nslab (heap (item_link_q it b s)) = nslab (heap s)"
    and "max_nslab (heap (item_link_q it b s)) = max_nslab (heap s)"
    and "hi_curr (heap (item_link_q it b s)) = hi_curr (heap s)"
    and "slabclasses (item_link_q it b s) = slabclasses s"
    and "hashtbl (item_link_q it b s) = hashtbl s" and "now (item_link_q it b s) = now s"
    and "nmalloc (item_link_q it b s) = nmalloc s" and "ub (item_link_q it b s) = ub s"
    and "cas_id (item_link_q it b s) = cas_id s"
proof -
  let ?s = "upd_lruq (it_id (items s it)) (\<lambda>q. q @ [it]) (upd_item it (\<lambda>i. i\<lparr>it_atime := now s\<rparr>) s)"
  have p: "item_2_slab ?s it = p" "p \<in> active ?s" "distinct (slab_lruq (heap ?s))"
    using assms by (simp_all add: item_2_slab_def upd_defs)
  note F = slab_lruq_touch_fields [OF p(2,3), of b]
  note D = item_link_q_def Let_def p(1) sincr_by_def
  show "items (item_link_q it b s) = (items s)(it := (items s it)\<lparr>it_atime := now s\<rparr>)"
    and "item_lruq (item_link_q it b s) = (item_lruq s)(it_id (items s it) := item_lruq s (it_id (items s it)) @ [it])"
    by (simp_all add: D) (simp_all add: upd_defs)
  show "geo (item_link_q it b s) = geo s"
    by (simp add: D geo_def F(2,3)) (simp add: upd_defs)
  show "distinct (slab_lruq (heap (item_link_q it b s)))"
    using F(1) by (simp add: D)
  show "sl_refcount (slabs (item_link_q it b s) q) = sl_refcount (slabs s q)"
    "slab_table (heap (item_link_q it b s)) = slab_table (heap s)"
    "nslab (heap (item_link_q it b s)) = nslab (heap s)"
    "max_nslab (heap (item_link_q it b s)) = max_nslab (heap s)"
    "hi_curr (heap (item_link_q it b s)) = hi_curr (heap s)"
    by (simp_all add: D F) (simp_all add: upd_defs)
  show "slabclasses (item_link_q it b s) = slabclasses s"
    "hashtbl (item_link_q it b s) = hashtbl s" "now (item_link_q it b s) = now s"
    "nmalloc (item_link_q it b s) = nmalloc s" "ub (item_link_q it b s) = ub s"
    "cas_id (item_link_q it b s) = cas_id s"
    by (simp_all add: D) (simp_all add: upd_defs)
qed


text \<open>Before it goes to the lru queue, a linked item is in the hash table with its new record.\<close>

definition pre_link :: "env \<Rightarrow> addr \<Rightarrow> cache \<Rightarrow> cache" where
  "pre_link e it s =
     index_insert e it (item_set_next_cas it (upd_item it (\<lambda>i. i\<lparr>it_flags := it_flags i OR ITEM_LINKED\<rparr>) s))"

lemma pre_link_fields:
  "items (pre_link e it s) = (items s)(it := item_set_cas (if use_cas (settings s) then cas_id s + 1 else 0)
        ((items s it)\<lparr>it_flags := it_flags (items s it) OR ITEM_LINKED\<rparr>))"
  "slabs (pre_link e it s) = slabs s" "slabclasses (pre_link e it s) = slabclasses s"
  "slabclass_max_id (pre_link e it s) = slabclass_max_id s" "heap (pre_link e it s) = heap s"
  "item_lruq (pre_link e it s) = item_lruq s" "now (pre_link e it s) = now s"
  "settings (pre_link e it s) = settings s" "nmalloc (pre_link e it s) = nmalloc s" "ub (pre_link e it s) = ub s"
  "cas_id (pre_link e it s) = (if use_cas (settings s) then cas_id s + 1 else cas_id s)"
  by (simp_all add: pre_link_def index_insert_def item_set_next_cas_def item_next_cas_def upd_defs)

lemma pre_link_hashtbl:
  "hashtbl (pre_link e it s)
     = assoc_insert (hash_power_opt (settings s), e_table e (ntable s)) (key_of s) it (hashtbl s)"
proof -
  have "key_of (item_set_next_cas it (upd_item it (\<lambda>i. i\<lparr>it_flags := it_flags i OR ITEM_LINKED\<rparr>) s)) = key_of s"
    by (auto simp: fun_eq_iff key_of_def item_set_next_cas_def item_next_cas_def upd_defs)
  then show ?thesis
    by (simp add: pre_link_def index_insert_def)
      (simp add: item_set_next_cas_def item_next_cas_def upd_defs)
qed

lemma item_link_op_eq:
  "item_link_op e it s = (let s' = item_link_q it True (pre_link e it s) in sincr (it_id (items s' it)) item_link s')"
  by (simp add: item_link_op_def pre_link_def Let_def)

lemma item_link_op_fields:
  assumes p: "item_2_slab s it \<in> active s" and d: "distinct (slab_lruq (heap s))"
  shows "items (item_link_op e it s) = (items s)(it := linked_item s it)"
    and "item_lruq (item_link_op e it s) = (item_lruq s)(it_id (items s it) := item_lruq s (it_id (items s it)) @ [it])"
    and "geo (item_link_op e it s) = geo s"
    and "distinct (slab_lruq (heap (item_link_op e it s)))"
    and "sl_refcount (slabs (item_link_op e it s) q) = sl_refcount (slabs s q)"
    and "slab_table (heap (item_link_op e it s)) = slab_table (heap s)"
    and "nslab (heap (item_link_op e it s)) = nslab (heap s)"
    and "max_nslab (heap (item_link_op e it s)) = max_nslab (heap s)"
    and "hi_curr (heap (item_link_op e it s)) = hi_curr (heap s)"
    and "slabclasses (item_link_op e it s) = slabclasses s"
    and "hashtbl (item_link_op e it s)
           = assoc_insert (hash_power_opt (settings s), e_table e (ntable s)) (key_of s) it (hashtbl s)"
    and "now (item_link_op e it s) = now s"
    and "nmalloc (item_link_op e it s) = nmalloc s" and "ub (item_link_op e it s) = ub s"
    and "cas_id (item_link_op e it s) = (if use_cas (settings s) then cas_id s + 1 else cas_id s)"
proof -
  have p': "item_2_slab (pre_link e it s) it = item_2_slab s it" "item_2_slab s it \<in> active (pre_link e it s)"
    "distinct (slab_lruq (heap (pre_link e it s)))"
    using p d by (simp_all add: item_2_slab_def pre_link_fields)
  note F = item_link_q_fields [OF p'(1) [symmetric] p'(2,3), of True]
  have g: "geo (pre_link e it s) = geo s" by (simp add: geo_def pre_link_fields)
  note D = item_link_op_eq Let_def sincr_by_def
  show "items (item_link_op e it s) = (items s)(it := linked_item s it)"
    by (simp add: D F pre_link_fields linked_item_def)
  show "geo (item_link_op e it s) = geo s"
    using F(3) g by (simp add: D geo_def)
  show "item_lruq (item_link_op e it s) = (item_lruq s)(it_id (items s it) := item_lruq s (it_id (items s it)) @ [it])"
    "distinct (slab_lruq (heap (item_link_op e it s)))"
    "sl_refcount (slabs (item_link_op e it s) q) = sl_refcount (slabs s q)"
    "slab_table (heap (item_link_op e it s)) = slab_table (heap s)"
    "nslab (heap (item_link_op e it s)) = nslab (heap s)"
    "max_nslab (heap (item_link_op e it s)) = max_nslab (heap s)"
    "hi_curr (heap (item_link_op e it s)) = hi_curr (heap s)"
    "slabclasses (item_link_op e it s) = slabclasses s"
    "hashtbl (item_link_op e it s)
       = assoc_insert (hash_power_opt (settings s), e_table e (ntable s)) (key_of s) it (hashtbl s)"
    "now (item_link_op e it s) = now s"
    "nmalloc (item_link_op e it s) = nmalloc s" "ub (item_link_op e it s) = ub s"
    "cas_id (item_link_op e it s) = (if use_cas (settings s) then cas_id s + 1 else cas_id s)"
    by (simp_all add: D F pre_link_fields pre_link_hashtbl)
qed

lemma inv_item_link:
  assumes inv: "cache_inv_L L e s" and it: "it \<in> live s" "it \<notin> L" "\<not> item_is_linked (items s it)"
    and r: "it_refcount (items s it) \<noteq> 0" and new: "index_find s (key_of s it) = None"
  shows "cache_inv_L L e (item_link_op e it s)" (is "cache_inv_L L e ?s'")
proof -
  note inv' = inv [unfolded cache_inv_L_def]
  have p: "item_2_slab s it \<in> active s" "distinct (slab_lruq (heap s))"
    using inv' live_slab(1) [of s it] it by (auto simp: heap_ok_def)
  note F = item_link_op_fields [OF p, of e]
  note G = geo_live [OF F(3)] geoD [OF F(3)]
  have run: "run ?s' = run s" and key: "key_of ?s' = key_of s" and fit: "fits ?s' = fits s"
    by (auto simp: run_def key_of_def fits_def fun_eq_iff F G)
  have fl: "item_is_linked (items ?s' a) \<longleftrightarrow> item_is_linked (items s a) \<or> a = it"
    "item_is_slabbed (items ?s' a) = item_is_slabbed (items s a)"
    "it_id (items ?s' a) = it_id (items s a)" "it_offset (items ?s' a) = it_offset (items s a)"
    "it_atime (items ?s' a) = (if a = it then now s else it_atime (items s a))"
    "it_refcount (items ?s' a) = it_refcount (items s a)"
    "fits s (items ?s' a) = fits s (items s a)" for a
    by (auto simp: F)
  have K: "linked_items ?s' = insert it (linked_items s)" using it(1) by (auto simp: linked_items_def G fl)
  have nrun: "\<And>cid. valid_id s cid \<Longrightarrow> it \<notin> run s cid" using not_in_run [OF inv] r by blast
  have lq: "it \<notin> set (item_lruq s cid)" if "SLABCLASS_MIN_ID \<le> cid" "cid \<le> SLABCLASS_MAX_ID" for cid
    using inv' it(3) that by (auto simp: lruq_ok_def)
  have "lruq_ok ?s'" using inv' it lq by (auto simp: lruq_ok_def G fl F)
  moreover have "time_ok ?s'"
  proof -
    have m: "map (\<lambda>a. if a = it then now s else it_atime (items s a)) (item_lruq s cid) = map (\<lambda>a. it_atime (items s a)) (item_lruq s cid)"
      if "SLABCLASS_MIN_ID \<le> cid \<and> cid \<le> SLABCLASS_MAX_ID" for cid
      using lq that by (intro map_cong) auto
    have "sorted (map (\<lambda>a. it_atime (items s a)) (item_lruq s cid)) \<and> (\<forall>a \<in> set (item_lruq s cid). it_atime (items s a) \<le> now s)"
      if "SLABCLASS_MIN_ID \<le> cid \<and> cid \<le> SLABCLASS_MAX_ID" for cid
      using inv' that by (simp add: time_ok_def)
    then show ?thesis unfolding time_ok_def F(2,12) by (auto simp: m sorted_append fl)
  qed
  moreover have "flag_ok ?s'" using inv' slabbed_refcount [OF inv it(1) r] by (auto simp: flag_ok_def G fl)
  moreover have "run_ok ?s'" using inv' nrun by (simp add: run_ok_def G fl run F; blast)
  moreover have "fit_ok L ?s'" using inv' r by (auto simp: fit_ok_def G fl fit)
  moreover have "no_leak L ?s'" using inv' it r by (simp add: no_leak_def G fl run; blast)
  moreover have "index_ok ?s'"
    using inv' new assoc_idx.inv_insert assoc_idx.members_insert
    by (simp add: index_ok_def index_find_def key K F)
  moreover have "heap_ok e ?s'" using inv' by (intro heap_ok_geo [OF _ F(3,4,6,7,9,13)]) simp
  ultimately show ?thesis
    using inv' by (simp add: cache_inv_L_def chunk_ok_def freeq_ok_def ref_ok_def G fl F(5,10,14))
qed


section \<open>Changing the content of an item\<close>

lemma inv_content:
  assumes inv: "cache_inv_L L e s" and it: "it \<in> live s"
    and i: "item_is_slabbed i = item_is_slabbed (items s it)" "item_is_linked i = item_is_linked (items s it)"
      "it_id i = it_id (items s it)" "it_offset i = it_offset (items s it)"
      "it_atime i = it_atime (items s it)" "it_refcount i = it_refcount (items s it)"
    and k: "item_is_linked (items s it) \<Longrightarrow> item_key i = item_key (items s it)"
    and f: "it \<notin> L \<Longrightarrow> item_is_linked (items s it) \<or> it_refcount (items s it) \<noteq> 0 \<Longrightarrow> fits s i"
    and s': "s' = s\<lparr>items := (items s)(it := i)\<rparr>"
  shows "cache_inv_L L e s'"
proof -
  have I: "items s' = (items s)(it := i)"
    and R: "slabclasses s' = slabclasses s" "heap s' = heap s" "slabs s' = slabs s" "item_lruq s' = item_lruq s"
    "hashtbl s' = hashtbl s" "now s' = now s" "nmalloc s' = nmalloc s" "ub s' = ub s"
    by (simp_all add: s')
  have g: "geo s' = geo s" by (auto simp: geo_def s')
  note G = geo_live [OF g] geoD [OF g]
  have run: "run s' = run s" and fit: "fits s' = fits s"
    by (auto simp: run_def fits_def fun_eq_iff G R)
  have fl: "item_is_linked (items s' a) = item_is_linked (items s a)"
    "item_is_slabbed (items s' a) = item_is_slabbed (items s a)"
    "it_id (items s' a) = it_id (items s a)" "it_offset (items s' a) = it_offset (items s a)"
    "it_atime (items s' a) = it_atime (items s a)" "it_refcount (items s' a) = it_refcount (items s a)" for a
    using i by (auto simp: I)
  have K: "linked_items s' = linked_items s" by (simp add: linked_items_def G fl)
  note inv' = inv [unfolded cache_inv_L_def]
  have "index_ok s'"
    unfolding index_ok_def K R
  proof
    have a: "assoc_inv (key_of s) (hashtbl s)" "assoc_set (hashtbl s) = linked_items s"
      using inv' by (auto simp: index_ok_def)
    then show "assoc_set (hashtbl s) = linked_items s" by simp
    have "key_of s a = key_of s' a" if "a \<in> assoc_set (hashtbl s)" for a
      using that k a(2) by (auto simp: key_of_def linked_items_def I)
    then show "assoc_inv (key_of s') (hashtbl s)" by (rule assoc_idx.inv_cong [OF a(1)])
  qed
  moreover have "fit_ok L s'" using inv' f by (auto simp: fit_ok_def G fl(1,2,6) fit) (auto simp: I)
  ultimately show ?thesis
    using inv' by (simp add: cache_inv_L_def heap_ok_def chunk_ok_def lruq_ok_def freeq_ok_def ref_ok_def flag_ok_def
        run_ok_def no_leak_def time_ok_def G fl run R)
qed

end
