(* ===== verification/McSlabInv.thy ===== *)
theory McSlabInv
  imports McInv
begin

text \<open>
  The slab allocator keeps the cache invariant. The main result is about \<open>slab_get_item\<close>: with
  its fall-backs to a new slab or to evicting one, it hands out a chunk of the right class that
  nothing else refers to, and it never touches an item that somebody holds a reference to.
\<close>

section \<open>What survives an allocation\<close>

text \<open>
  From \<open>s\<close> to \<open>s'\<close> items may only leave the set of linked items; those that stay, and those that
  are referenced, are as they were.
\<close>

definition preserves :: "cache \<Rightarrow> cache \<Rightarrow> bool" where
  "preserves s s' \<longleftrightarrow> linked_items s' \<subseteq> linked_items s
     \<and> (\<forall>a \<in> linked_items s'. items s' a = items s a)
     \<and> (\<forall>a \<in> live s. it_refcount (items s a) \<noteq> 0 \<longrightarrow> a \<in> live s' \<and> items s' a = items s a)
     \<and> settings s' = settings s \<and> now s' = now s \<and> cas_id s' = cas_id s
     \<and> slabclass_max_id s' = slabclass_max_id s \<and> slab_item_size s' = slab_item_size s
     \<and> max_nslab (heap s') = max_nslab (heap s)"

text \<open>Slabs keep their reference counts too, unless they are carved anew.\<close>

definition keeps :: "cache \<Rightarrow> cache \<Rightarrow> bool" where
  "keeps s s' \<longleftrightarrow> preserves s s'
     \<and> (\<forall>p \<in> active s'. sl_refcount (slabs s' p) = 0
          \<or> p \<in> active s \<and> sl_refcount (slabs s' p) = sl_refcount (slabs s p))"

lemma keeps_refl [simp]: "keeps s s"
  by (simp add: keeps_def preserves_def)

lemma keeps_trans [trans]: "keeps s s' \<Longrightarrow> keeps s' s'' \<Longrightarrow> keeps s s''"
  unfolding keeps_def preserves_def by (intro conjI ballI impI) (simp_all, (blast | metis subsetD)+)

lemma keeps_frame:
  assumes "items s' = items s" "live s' = live s" "settings s' = settings s" "now s' = now s"
    "cas_id s' = cas_id s" "slabclass_max_id s' = slabclass_max_id s" "slab_item_size s' = slab_item_size s"
    "max_nslab (heap s') = max_nslab (heap s)" "active s' = active s"
    "\<And>p. sl_refcount (slabs s' p) = sl_refcount (slabs s p)"
  shows "keeps s s'"
  using assms by (simp add: keeps_def preserves_def linked_items_def)

lemma keeps_geo:
  assumes "geo s' = geo s" "items s' = items s" "now s' = now s" "cas_id s' = cas_id s"
    "max_nslab (heap s') = max_nslab (heap s)" "slabs s' = slabs s"
  shows "keeps s s'"
  using assms by (simp add: keeps_frame geo_live [OF assms(1)] geoD [OF assms(1)])

lemma keeps_counters:
  "keeps s (sincr_by cid m d s)" "keeps s (sdecr_by cid m d s)" "keeps s (tincr tm s)"
  by (rule keeps_frame; simp add: upd_defs live_def chunks_def slab_cls_def slab_item_size_def fun_eq_iff)+

section \<open>The current slab of a class\<close>

lemma run_slab:
  assumes "cache_inv_L L e s" and "valid_id s cid" and "free_item (slabclasses s cid) \<noteq> 0"
  obtains p j where "p \<in> active s" and "sl_id (slabs s p) = cid" and "j < nitem (slabclasses s cid)"
    and "free_item (slabclasses s cid) = slab_2_item p j (sc_size (slabclasses s cid))"
    and "nfree_item (slabclasses s cid) = nitem (slabclasses s cid) - j"
  using assms by (auto simp: cache_inv_L_def run_ok_def)

lemma run_chunk:
  assumes inv: "cache_inv_L L e s" and v: "valid_id s cid" and a: "a \<in> run s cid"
  obtains p where "p \<in> active s" and "sl_id (slabs s p) = cid" and "a \<in> chunks s p"
    and "item_2_slab s (free_item (slabclasses s cid)) = p"
proof -
  let ?c = "slabclasses s cid"
  note inv' = inv [unfolded cache_inv_L_def]
  have "free_item ?c \<noteq> 0"
    using inv' v a by (auto simp: run_ok_def run_def)
  then obtain p j where p: "p \<in> active s" "sl_id (slabs s p) = cid" "j < nitem ?c"
    "free_item ?c = slab_2_item p j (sc_size ?c)" "nfree_item ?c = nitem ?c - j"
    by (rule run_slab [OF inv v])
  from a obtain k where k: "a = free_item ?c + k * sc_size ?c" "k < nitem ?c - j"
    by (auto simp: run_def p(5))
  have "a = slab_2_item p (j + k) (sc_size ?c)"
    using k p(4) by (simp add: slab_2_item_def algebra_simps)
  moreover have "j + k < nitem ?c" using k p(3) by simp
  ultimately have ac: "a \<in> chunks s p" using p(2) by (auto simp: chunks_def slab_cls_def)
  have "free_item ?c \<in> chunks s p" using p by (auto simp: chunks_def slab_cls_def)
  then have "item_2_slab s (free_item ?c) = p"
    using chunk_slab_unique [of s p] inv' p(1) by auto
  then show thesis using that p(1,2) ac by blast
qed

lemma run_id:
  assumes inv: "cache_inv_L L e s" and v: "valid_id s cid" and a: "a \<in> run s cid"
  shows "it_id (items s a) = cid" and "a \<in> live s"
proof -
  obtain p where "p \<in> active s" "sl_id (slabs s p) = cid" "a \<in> chunks s p"
    using run_chunk [OF assms] by blast
  then show "it_id (items s a) = cid" "a \<in> live s"
    using inv by (auto simp: cache_inv_L_def chunk_ok_def live_def)
qed

text \<open>A change of the run of one class to a part of itself puts the rest in hand.\<close>

lemma inv_run_change:
  assumes inv: "cache_inv_L L e s" and v: "valid_id s cid"
    and s': "s' = upd_class cid (\<lambda>c. c\<lparr>nfree_item := n, free_item := f\<rparr>) s"
    and sub: "run s' cid \<subseteq> run s cid"
    and f0: "f = 0 \<Longrightarrow> n = 0"
    and f1: "f \<noteq> 0 \<Longrightarrow> \<exists>p \<in> active s. \<exists>j < nitem (slabclasses s cid). sl_id (slabs s p) = cid
             \<and> f = slab_2_item p j (sc_size (slabclasses s cid)) \<and> n = nitem (slabclasses s cid) - j"
  shows "cache_inv_L (L \<union> (run s cid - run s' cid)) e s'" (is "cache_inv_L ?L e s'")
proof -
  have g: "geo s' = geo s" by (auto simp: geo_def s' upd_defs)
  note G = geo_live [OF g] geoD [OF g]
  have R: "items s' = items s" "heap s' = heap s" "slabs s' = slabs s" "item_lruq s' = item_lruq s"
    "hashtbl s' = hashtbl s" "now s' = now s" "nmalloc s' = nmalloc s" "ub s' = ub s"
    and C: "c \<noteq> cid \<Longrightarrow> slabclasses s' c = slabclasses s c"
    "slabclasses s' cid = (slabclasses s cid)\<lparr>nfree_item := n, free_item := f\<rparr>"
    "free_itemq (slabclasses s' c) = free_itemq (slabclasses s c)"
    "nfree_itemq (slabclasses s' c) = nfree_itemq (slabclasses s c)" for c
    by (simp_all add: s' upd_defs)
  have run: "run s' c = run s c" if "c \<noteq> cid" for c using that by (simp add: run_def C)
  have K: "linked_items s' = linked_items s" "key_of s' = key_of s" "fits s' = fits s"
    by (auto simp: linked_items_def key_of_def fits_def fun_eq_iff G R)
  note inv' = inv [unfolded cache_inv_L_def]
  have "run_ok s'"
    unfolding run_ok_def
  proof (intro allI impI)
    fix c assume "valid_id s' c"
    then have vc: "valid_id s c" by (simp add: G)
    show "(free_item (slabclasses s' c) = 0 \<longrightarrow> nfree_item (slabclasses s' c) = 0)
      \<and> (free_item (slabclasses s' c) \<noteq> 0 \<longrightarrow>
          (\<exists>p \<in> active s'. \<exists>j < nitem (slabclasses s' c). sl_id (slabs s' p) = c
             \<and> free_item (slabclasses s' c) = slab_2_item p j (sc_size (slabclasses s' c))
             \<and> nfree_item (slabclasses s' c) = nitem (slabclasses s' c) - j))
      \<and> (\<forall>a \<in> run s' c. \<not> item_is_linked (items s' a) \<and> \<not> item_is_slabbed (items s' a)
          \<and> it_refcount (items s' a) = 0)"
    proof (cases "c = cid")
      case True
      have "\<forall>a \<in> run s cid. \<not> item_is_linked (items s a) \<and> \<not> item_is_slabbed (items s a) \<and> it_refcount (items s a) = 0"
        using inv' v by (simp add: run_ok_def)
      then show ?thesis using f0 f1 sub True by (simp add: C(2) R) blast
    next
      case False
      then show ?thesis using inv' vc by (simp add: run_ok_def C(1) run R)
    qed
  qed
  moreover have "fit_ok ?L s'" using inv' by (auto simp: fit_ok_def G K R)
  moreover have "no_leak ?L s'"
  proof -
    have other: "a \<notin> run s c" if "a \<in> run s cid" "c \<noteq> cid" "valid_id s c" for a c
      using run_id(1) [OF inv v that(1)] run_id(1) [OF inv that(3), of a] that(2) by auto
    have hand: "a \<notin> run s' c" if "a \<in> L" "valid_id s c" for a c
      using not_in_run [OF inv _ that(2)] that sub run by (cases "c = cid") auto
    have rest: "a \<in> live s \<and> \<not> item_is_linked (items s a) \<and> \<not> item_is_slabbed (items s a)
        \<and> (\<forall>c. valid_id s c \<longrightarrow> a \<notin> run s' c)" if "a \<in> run s cid - run s' cid" for a
    proof -
      have "a \<notin> run s' c" if "valid_id s c" for c
        using \<open>a \<in> run s cid - run s' cid\<close> other [of a c] that run [of c] by (cases "c = cid") auto
      then show ?thesis using inv' v that run_id(2) [OF inv v, of a] by (auto simp: run_ok_def)
    qed
    have new: "(\<exists>c. valid_id s c \<and> a \<in> run s' c) \<or> a \<in> ?L"
      if "(\<exists>c. valid_id s c \<and> a \<in> run s c) \<or> a \<in> L" for a using that run v by (metis DiffI UnI1 UnI2)
    have 1: "item_is_linked (items s a) \<or> item_is_slabbed (items s a) \<or> it_refcount (items s a) \<noteq> 0
         \<or> (\<exists>c. valid_id s c \<and> a \<in> run s c) \<or> a \<in> L" if "a \<in> live s" for a
      using inv' that by (simp add: no_leak_def)
    have 2: "a \<in> live s \<and> \<not> item_is_linked (items s a) \<and> \<not> item_is_slabbed (items s a)" if "a \<in> L" for a
      using inv' that by (simp add: no_leak_def)
    show ?thesis
      unfolding no_leak_def G R using 1 2 new hand rest by blast
  qed
  ultimately show ?thesis
    using inv' by (simp add: cache_inv_L_def heap_ok_def chunk_ok_def lruq_ok_def freeq_ok_def ref_ok_def flag_ok_def
        index_ok_def time_ok_def G K R C(3,4))
qed


lemma inv_slab_take_free:
  assumes inv: "cache_inv_L L e s" and v: "valid_id s cid" and f: "free_item (slabclasses s cid) \<noteq> 0"
    and r: "slab_take_free cid s = (it, s')"
  shows "cache_inv_L (insert it L) e s'" and "it \<in> run s cid"
    and "items s' = items s" and "geo s' = geo s" and "keeps s s'" and "heap s' = heap s" "slabs s' = slabs s"
proof -
  let ?c = "slabclasses s cid"
  note inv' = inv [unfolded cache_inv_L_def]
  obtain p j where p: "p \<in> active s" "sl_id (slabs s p) = cid" "j < nitem ?c"
    "free_item ?c = slab_2_item p j (sc_size ?c)" "nfree_item ?c = nitem ?c - j"
    by (rule run_slab [OF inv v f])
  have sz: "0 < sc_size ?c" using inv' v by (auto simp: class_ok_def ITEM_HDR_SIZE_def)
  define n where "n = nfree_item ?c - 1"
  define fr where "fr = (if n \<noteq> 0 then free_item ?c + sc_size ?c else 0)"
  have s': "s' = upd_class cid (\<lambda>c. c\<lparr>nfree_item := n, free_item := fr\<rparr>) s" and it: "it = free_item ?c"
    using r p(3,5) by (auto simp: slab_take_free_def Let_def n_def fr_def)
  have run': "run s' cid = (\<lambda>k. free_item ?c + Suc k * sc_size ?c) ` {..<n}"
    by (auto simp: run_def s' upd_defs fr_def image_def)
  have run: "run s cid = (\<lambda>k. free_item ?c + k * sc_size ?c) ` {..<Suc n}"
  proof -
    have "nfree_item ?c = Suc n" using p(3,5) by (simp add: n_def)
    then show ?thesis by (simp add: run_def)
  qed
  have split: "run s cid = insert it (run s' cid)"
    unfolding run run' lessThan_Suc_eq_insert_0 by (auto simp: it image_image)
  have nin: "it \<notin> run s' cid" using sz by (auto simp: run' it)
  have g: "geo s' = geo s" by (auto simp: geo_def s' upd_defs)
  have "cache_inv_L (L \<union> (run s cid - run s' cid)) e s'"
  proof (rule inv_run_change [OF inv v s'])
    show "run s' cid \<subseteq> run s cid" using split by blast
    show "fr = 0 \<Longrightarrow> n = 0" using f by (auto simp: fr_def split: if_splits)
    assume "fr \<noteq> 0"
    then have "n \<noteq> 0" by (simp add: fr_def split: if_splits)
    then have "Suc j < nitem ?c" "n = nitem ?c - Suc j" "fr = slab_2_item p (Suc j) (sc_size ?c)"
      using p by (auto simp: n_def fr_def slab_2_item_def)
    then show "\<exists>p \<in> active s. \<exists>j < nitem ?c. sl_id (slabs s p) = cid \<and> fr = slab_2_item p j (sc_size ?c) \<and> n = nitem ?c - j"
      using p(1,2) by blast
  qed
  then show "cache_inv_L (insert it L) e s'" using split nin by (simp add: insert_Diff_if)
  show "it \<in> run s cid" using split by blast
  show "items s' = items s" "heap s' = heap s" "slabs s' = slabs s" by (simp_all add: s' upd_defs)
  show "geo s' = geo s" by (rule g)
  show "keeps s s'" by (rule keeps_geo [OF g]) (simp_all add: s' upd_defs)
qed

section \<open>Evicting a slab\<close>

text \<open>One item of the slab: afterwards it is in no container.\<close>

lemma slab_evict_item_inv:
  assumes inv: "cache_inv_L L e s" and p: "p \<in> active s" and it: "it \<in> chunks s p"
    and r: "it_refcount (items s it) = 0" and s': "s' = slab_evict_item p it s"
  shows "\<exists>L'. cache_inv_L L' e s' \<and> L \<subseteq> L' \<and> L' \<subseteq> insert it L"
    and "\<not> item_is_linked (items s' it)" and "\<not> item_is_slabbed (items s' it)"
    and "it_refcount (items s' it) = 0" and "a \<noteq> it \<Longrightarrow> items s' a = items s a"
    and "geo s' = geo s" and "run s' = run s" and "heap s' = heap s" and "slabs s' = slabs s"
    and "now s' = now s" and "cas_id s' = cas_id s" and "nmalloc s' = nmalloc s"
    and "free_item (slabclasses s' c) = free_item (slabclasses s c)"
    and "nfree_item (slabclasses s' c) = nfree_item (slabclasses s c)"
proof -
  note inv' = inv [unfolded cache_inv_L_def]
  have lv: "it \<in> live s" and id: "it_id (items s it) = sl_id (slabs s p)"
    using chunk_live [OF p it] inv' p it by (auto simp: chunk_ok_def)
  consider (lk) "item_is_linked (items s it)" | (sl) "\<not> item_is_linked (items s it)" "item_is_slabbed (items s it)"
    | (no) "\<not> item_is_linked (items s it)" "\<not> item_is_slabbed (items s it)" by blast
  then have "(\<exists>L'. cache_inv_L L' e s' \<and> L \<subseteq> L' \<and> L' \<subseteq> insert it L)
    \<and> \<not> item_is_linked (items s' it) \<and> \<not> item_is_slabbed (items s' it)
    \<and> it_refcount (items s' it) = 0 \<and> (\<forall>a. a \<noteq> it \<longrightarrow> items s' a = items s a)
    \<and> geo s' = geo s \<and> run s' = run s \<and> heap s' = heap s \<and> slabs s' = slabs s
    \<and> now s' = now s \<and> cas_id s' = cas_id s \<and> nmalloc s' = nmalloc s
    \<and> (\<forall>c. free_item (slabclasses s' c) = free_item (slabclasses s c)
        \<and> nfree_item (slabclasses s' c) = nfree_item (slabclasses s c))"
  proof cases
    case lk
    then have l: "it \<in> linked_items s" using lv by (simp add: linked_items_def)
    have e: "s' = item_reuse it s" using lk by (simp add: s' slab_evict_item_def Let_def)
    show ?thesis
      using inv_item_reuse [OF inv l] linked_not_slabbed [OF inv l] r
      by (rule_tac item_reuse_fields [OF inv l]) (auto simp: e geo_def run_def fun_eq_iff)
  next
    case sl
    then have "cache_inv_L (insert it L) e s'"
      using inv_freeq_remove [OF inv lv sl(2) id] by (simp add: s' slab_evict_item_def Let_def)
    then show ?thesis
      using sl r by (auto simp: s' slab_evict_item_def Let_def geo_def run_def fun_eq_iff upd_defs)
  next
    case no
    then have "s' = s" by (simp add: s' slab_evict_item_def Let_def)
    then show ?thesis using inv no r by auto
  qed
  then show "\<exists>L'. cache_inv_L L' e s' \<and> L \<subseteq> L' \<and> L' \<subseteq> insert it L"
    "\<not> item_is_linked (items s' it)" "\<not> item_is_slabbed (items s' it)"
    "it_refcount (items s' it) = 0" "a \<noteq> it \<Longrightarrow> items s' a = items s a"
    "geo s' = geo s" "run s' = run s" "heap s' = heap s" "slabs s' = slabs s"
    "now s' = now s" "cas_id s' = cas_id s" "nmalloc s' = nmalloc s"
    "free_item (slabclasses s' c) = free_item (slabclasses s c)"
    "nfree_item (slabclasses s' c) = nfree_item (slabclasses s c)"
    by blast+
qed


text \<open>The loop over the items of the slab.\<close>

lemma slab_evict_loop:
  assumes "cache_inv_L L e s" and "p \<in> active s" and "set its \<subseteq> chunks s p"
    and "\<And>a. a \<in> chunks s p \<Longrightarrow> it_refcount (items s a) = 0"
    and "s' = fold (slab_evict_item p) its s"
  shows "(\<exists>L'. cache_inv_L L' e s' \<and> L \<subseteq> L' \<and> L' \<subseteq> L \<union> set its)
    \<and> (\<forall>a \<in> set its. \<not> item_is_linked (items s' a) \<and> \<not> item_is_slabbed (items s' a))
    \<and> (\<forall>a. a \<notin> set its \<longrightarrow> items s' a = items s a)
    \<and> (\<forall>a \<in> chunks s p. it_refcount (items s' a) = 0)
    \<and> geo s' = geo s \<and> run s' = run s \<and> heap s' = heap s \<and> slabs s' = slabs s
    \<and> now s' = now s \<and> cas_id s' = cas_id s \<and> nmalloc s' = nmalloc s
    \<and> (\<forall>c. free_item (slabclasses s' c) = free_item (slabclasses s c)
        \<and> nfree_item (slabclasses s' c) = nfree_item (slabclasses s c))"
  using assms
proof (induction its arbitrary: s L)
  case Nil
  then show ?case by auto
next
  case (Cons it its)
  let ?s = "slab_evict_item p it s"
  have it: "it \<in> chunks s p" and r: "it_refcount (items s it) = 0" using Cons.prems by auto
  note E = slab_evict_item_inv [OF Cons.prems(1,2) it r refl]
  note G = geo_live [OF E(6)] geoD [OF E(6)]
  obtain L1 where L1: "cache_inv_L L1 e ?s" "L \<subseteq> L1" "L1 \<subseteq> insert it L" using E(1) by blast
  have r': "it_refcount (items ?s a) = 0" if "a \<in> chunks s p" for a
    using E(4,5) Cons.prems(4) [OF that] by (cases "a = it") auto
  have I: "items ?s a = items s a" if "a \<noteq> it" for a using E(5) [OF that] .
  have fl: "\<not> item_is_linked (items ?s it)" "\<not> item_is_slabbed (items ?s it)" using E(2,3) .
  have IH: "(\<exists>L'. cache_inv_L L' e s' \<and> L1 \<subseteq> L' \<and> L' \<subseteq> L1 \<union> set its)
    \<and> (\<forall>a \<in> set its. \<not> item_is_linked (items s' a) \<and> \<not> item_is_slabbed (items s' a))
    \<and> (\<forall>a. a \<notin> set its \<longrightarrow> items s' a = items ?s a)
    \<and> (\<forall>a \<in> chunks ?s p. it_refcount (items s' a) = 0)
    \<and> geo s' = geo ?s \<and> run s' = run ?s \<and> heap s' = heap ?s \<and> slabs s' = slabs ?s
    \<and> now s' = now ?s \<and> cas_id s' = cas_id ?s \<and> nmalloc s' = nmalloc ?s
    \<and> (\<forall>c. free_item (slabclasses s' c) = free_item (slabclasses ?s c)
        \<and> nfree_item (slabclasses s' c) = nfree_item (slabclasses ?s c))"
    by (rule Cons.IH [OF L1(1)]) (use Cons.prems r' in \<open>auto simp: G\<close>)
  have sets: "L \<union> set (it # its) = insert it (L \<union> set its)" by simp
  from IH obtain L' where L': "cache_inv_L L' e s'" "L1 \<subseteq> L'" "L' \<subseteq> L1 \<union> set its" by blast
  then have 1: "\<exists>L'. cache_inv_L L' e s' \<and> L \<subseteq> L' \<and> L' \<subseteq> L \<union> set (it # its)"
    using L1 by (intro exI [of _ L']) auto
  have "\<not> item_is_linked (items s' it) \<and> \<not> item_is_slabbed (items s' it)"
    using IH fl by (cases "it \<in> set its") auto
  then have 2: "\<forall>a \<in> set (it # its). \<not> item_is_linked (items s' a) \<and> \<not> item_is_slabbed (items s' a)"
    using IH by auto
  show ?case
    using 1 2 IH I unfolding E(6-14) G by auto
qed


text \<open>Taking an empty slab out of the slab lru queue.\<close>

lemma inv_slab_retire:
  assumes inv: "cache_inv_L L e s" and p: "p \<in> active s"
    and fr: "\<And>a. a \<in> chunks s p \<Longrightarrow> \<not> item_is_linked (items s a) \<and> \<not> item_is_slabbed (items s a)"
    and nr: "\<And>a cid. a \<in> chunks s p \<Longrightarrow> valid_id s cid \<Longrightarrow> a \<notin> run s cid"
    and s': "s' = slab_lruq_remove p s"
  shows "cache_inv_L (L - chunks s p) e s'" and "live s' = live s - chunks s p"
    and "active s' = active s - {p}" and "linked_items s' = linked_items s"
proof -
  note inv' = inv [unfolded cache_inv_L_def]
  have R: "items s' = items s" "slabs s' = slabs s" "item_lruq s' = item_lruq s" "slabclasses s' = slabclasses s"
    "hashtbl s' = hashtbl s" "now s' = now s" "nmalloc s' = nmalloc s" "ub s' = ub s" "settings s' = settings s"
    "slabclass_max_id s' = slabclass_max_id s" "slab_table (heap s') = slab_table (heap s)"
    "nslab (heap s') = nslab (heap s)" "hi_curr (heap s') = hi_curr (heap s)"
    and Q: "slab_lruq (heap s') = remove1 p (slab_lruq (heap s))"
    by (simp_all add: s' slab_lruq_remove_def upd_defs)
  have d: "distinct (slab_lruq (heap s))" and c: "chunk_ok s" using inv' by (auto simp: heap_ok_def)
  show A: "active s' = active s - {p}" using d by (simp add: Q set_remove1_eq)
  have ch: "chunks s' q = chunks s q" "valid_id s' cid = valid_id s cid" "run s' = run s"
    "slab_item_size s' = slab_item_size s" "key_of s' = key_of s" "fits s' = fits s" for q cid
    by (simp_all add: chunks_def slab_cls_def valid_id_def run_def slab_item_size_def key_of_def fits_def fun_eq_iff R)
  have dis: "a \<notin> chunks s p" if "a \<in> chunks s q" "q \<in> active s" "q \<noteq> p" for a q
    using chunk_slab_unique [OF c that(2,1)] chunk_slab_unique [OF c p, of a] that(3) by auto
  show L: "live s' = live s - chunks s p" using dis p by (auto simp: live_def A ch)
  show K: "linked_items s' = linked_items s" using fr by (auto simp: linked_items_def L R)
  have "class_ok s'" using inv' by (simp add: class_ok_def ch R)
  moreover have "distinct (slab_lruq (heap s'))" using d by (simp add: Q)
  then have "heap_ok e s'" using inv' by (auto simp: heap_ok_def A ch R)
  moreover have "chunk_ok s'" "ref_ok s'" using inv' by (simp_all add: chunk_ok_def ref_ok_def A ch R)
  moreover have "lruq_ok s'"
  proof -
    have "{a \<in> live s'. it_id (items s a) = cid \<and> item_is_linked (items s a)}
        = {a \<in> live s. it_id (items s a) = cid \<and> item_is_linked (items s a)}" for cid
      using fr by (auto simp: L)
    then show ?thesis using inv' by (simp add: lruq_ok_def R)
  qed
  moreover have "freeq_ok s'"
  proof -
    have "{a \<in> live s'. it_id (items s a) = cid \<and> item_is_slabbed (items s a)}
        = {a \<in> live s. it_id (items s a) = cid \<and> item_is_slabbed (items s a)}" for cid
      using fr by (auto simp: L)
    then show ?thesis using inv' by (simp add: freeq_ok_def ch R)
  qed
  moreover have "run_ok s'"
    unfolding run_ok_def ch(2)
  proof (intro allI impI)
    fix cid assume v: "valid_id s cid"
    have "\<exists>q \<in> active s'. \<exists>j < nitem (slabclasses s cid). sl_id (slabs s q) = cid
         \<and> free_item (slabclasses s cid) = slab_2_item q j (sc_size (slabclasses s cid))
         \<and> nfree_item (slabclasses s cid) = nitem (slabclasses s cid) - j" if f: "free_item (slabclasses s cid) \<noteq> 0"
    proof -
      obtain q j where q: "q \<in> active s" "sl_id (slabs s q) = cid" "j < nitem (slabclasses s cid)"
        "free_item (slabclasses s cid) = slab_2_item q j (sc_size (slabclasses s cid))"
        "nfree_item (slabclasses s cid) = nitem (slabclasses s cid) - j"
        by (rule run_slab [OF inv v f])
      have "free_item (slabclasses s cid) \<in> run s cid"
        using q(3,5) by (auto simp: run_def image_iff intro: bexI [of _ 0])
      moreover have "free_item (slabclasses s cid) \<in> chunks s q" using q by (auto simp: chunks_def slab_cls_def)
      ultimately have "q \<noteq> p" using nr v by auto
      then show ?thesis using q A by auto
    qed
    then show "(free_item (slabclasses s' cid) = 0 \<longrightarrow> nfree_item (slabclasses s' cid) = 0)
      \<and> (free_item (slabclasses s' cid) \<noteq> 0 \<longrightarrow>
          (\<exists>q \<in> active s'. \<exists>j < nitem (slabclasses s' cid). sl_id (slabs s' q) = cid
             \<and> free_item (slabclasses s' cid) = slab_2_item q j (sc_size (slabclasses s' cid))
             \<and> nfree_item (slabclasses s' cid) = nitem (slabclasses s' cid) - j))
      \<and> (\<forall>a \<in> run s' cid. \<not> item_is_linked (items s' a) \<and> \<not> item_is_slabbed (items s' a)
          \<and> it_refcount (items s' a) = 0)"
      using inv' v by (simp add: run_ok_def ch R)
  qed
  moreover have "flag_ok s'" "fit_ok (L - chunks s p) s'" using inv' by (auto simp: flag_ok_def fit_ok_def L ch R)
  moreover have "no_leak (L - chunks s p) s'" using inv' by (simp add: no_leak_def L ch R)
  moreover have "time_ok s'" using inv' by (simp add: time_ok_def R)
  moreover have "index_ok s'" using inv' by (simp add: index_ok_def K ch R)
  ultimately show "cache_inv_L (L - chunks s p) e s'" using inv' by (simp add: cache_inv_L_def R)
qed


lemma slab_refcount_0:
  assumes "cache_inv_L L e s" and "p \<in> active s" and "sl_refcount (slabs s p) = 0" and "a \<in> chunks s p"
  shows "it_refcount (items s a) = 0"
proof -
  have "(\<Sum>a \<in> chunks s p. unat (it_refcount (items s a))) = unat (sl_refcount (slabs s p))"
    using assms(1,2) by (simp add: cache_inv_L_def ref_ok_def)
  also have "\<dots> = 0" using assms(3) by simp
  finally show ?thesis using assms(4) by (simp add: unsigned_eq_0_iff)
qed

text \<open>If the slab is the current one of its class, the class is left without a current slab.\<close>

lemma slab_evict_prologue:
  assumes inv: "cache_inv_L {} e s" and p: "p \<in> active s" and cid: "cid = sl_id (slabs s p)"
    and s': "s' = (if free_item (slabclasses s cid) \<noteq> 0 \<and> p = item_2_slab s (free_item (slabclasses s cid))
               then upd_class cid (\<lambda>c. c\<lparr>nfree_item := 0, free_item := 0\<rparr>) s else s)"
  shows "\<exists>L. cache_inv_L L e s' \<and> L \<subseteq> chunks s p"
    and "a \<in> chunks s p \<Longrightarrow> valid_id s c \<Longrightarrow> a \<notin> run s' c"
    and "geo s' = geo s" and "items s' = items s" and "heap s' = heap s" and "slabs s' = slabs s"
    and "now s' = now s" and "cas_id s' = cas_id s" and "nmalloc s' = nmalloc s"
    and "free_item (slabclasses s c) = 0 \<Longrightarrow> free_item (slabclasses s' c) = 0"
proof -
  note inv' = inv [unfolded cache_inv_L_def]
  have v: "valid_id s cid" using inv' p cid by (simp add: heap_ok_def)
  show g: "geo s' = geo s" and "items s' = items s" and "heap s' = heap s" and "slabs s' = slabs s"
    and "now s' = now s" and "cas_id s' = cas_id s" and "nmalloc s' = nmalloc s"
    and "free_item (slabclasses s c) = 0 \<Longrightarrow> free_item (slabclasses s' c) = 0"
    by (auto simp: s' geo_def upd_defs)
  note R = run_chunk [OF inv]
  have own: "p = item_2_slab s (free_item (slabclasses s c)) \<and> c = cid \<and> free_item (slabclasses s c) \<noteq> 0"
    if a: "a \<in> chunks s p" "a \<in> run s c" "valid_id s c" for a c
  proof -
    from R [OF a(3,2)] obtain q where q: "q \<in> active s" "sl_id (slabs s q) = c" "a \<in> chunks s q"
      "item_2_slab s (free_item (slabclasses s c)) = q" by blast
    then have "q = p" using chunk_slab_unique [of s q a] chunk_slab_unique [of s p a] a p inv' by auto
    moreover have "free_item (slabclasses s c) \<noteq> 0" using inv' a by (auto simp: run_ok_def run_def)
    ultimately show ?thesis using q cid by simp
  qed
  have sub: "run s' c \<subseteq> run s c" for c by (auto simp: s' run_def upd_defs)
  have clr: "run s' cid = {}" if "free_item (slabclasses s cid) \<noteq> 0" "p = item_2_slab s (free_item (slabclasses s cid))"
    using that by (simp add: s' run_def upd_defs)
  show "a \<in> chunks s p \<Longrightarrow> valid_id s c \<Longrightarrow> a \<notin> run s' c"
    using own [of a c] sub [of c] clr by blast
  show "\<exists>L. cache_inv_L L e s' \<and> L \<subseteq> chunks s p"
  proof (cases "free_item (slabclasses s cid) \<noteq> 0 \<and> p = item_2_slab s (free_item (slabclasses s cid))")
    case True
    have "cache_inv_L ({} \<union> (run s cid - run s' cid)) e s'"
      by (rule inv_run_change [OF inv v]) (use True in \<open>auto simp: s' run_def upd_defs\<close>)
    moreover have "run s cid \<subseteq> chunks s p"
      using R [OF v] True by (metis subsetI)
    ultimately show ?thesis by blast
  next
    case False
    then show ?thesis using inv by (auto simp: s')
  qed
qed


lemma slab_evict_one_inv:
  assumes inv: "cache_inv_L {} e s" and p: "p \<in> active s" and r: "sl_refcount (slabs s p) = 0"
    and s': "s' = slab_evict_one p s"
  shows "cache_inv_L {} e s'" and "keeps s s'" and "active s' = active s - {p}"
    and "linked_items s' = linked_items s - chunks s p"
    and "slab_table (heap s') = slab_table (heap s)"
    and "free_item (slabclasses s c) = 0 \<Longrightarrow> free_item (slabclasses s' c) = 0"
proof -
  let ?cid = "sl_id (slabs s p)"
  let ?c = "slabclasses s ?cid"
  let ?its = "map (\<lambda>i. slab_2_item p i (sc_size ?c)) [0..<nitem ?c]"
  define s1 where "s1 = (if free_item ?c \<noteq> 0 \<and> p = item_2_slab s (free_item ?c)
               then upd_class ?cid (\<lambda>c. c\<lparr>nfree_item := 0, free_item := 0\<rparr>) s else s)"
  define s2 where "s2 = fold (slab_evict_item p) ?its s1"
  define s3 where "s3 = slab_lruq_remove p s2"
  have eq: "s' = sdecr ?cid slab_curr (sincr ?cid slab_evict s3)"
    by (simp add: s' slab_evict_one_def Let_def s1_def s2_def s3_def fold_map o_def)
  note P = slab_evict_prologue [OF inv p refl s1_def]
  note G1 = geo_live [OF P(3)] geoD [OF P(3)]
  obtain L where L: "cache_inv_L L e s1" "L \<subseteq> chunks s p" using P(1) by blast
  have its: "set ?its = chunks s p" by (auto simp: chunks_def slab_cls_def)
  have r0: "it_refcount (items s a) = 0" if "a \<in> chunks s p" for a by (rule slab_refcount_0 [OF inv p r that])
  have E: "(\<exists>L'. cache_inv_L L' e s2 \<and> L \<subseteq> L' \<and> L' \<subseteq> L \<union> set ?its)
    \<and> (\<forall>a \<in> set ?its. \<not> item_is_linked (items s2 a) \<and> \<not> item_is_slabbed (items s2 a))
    \<and> (\<forall>a. a \<notin> set ?its \<longrightarrow> items s2 a = items s1 a)
    \<and> (\<forall>a \<in> chunks s1 p. it_refcount (items s2 a) = 0)
    \<and> geo s2 = geo s1 \<and> run s2 = run s1 \<and> heap s2 = heap s1 \<and> slabs s2 = slabs s1
    \<and> now s2 = now s1 \<and> cas_id s2 = cas_id s1 \<and> nmalloc s2 = nmalloc s1
    \<and> (\<forall>c. free_item (slabclasses s2 c) = free_item (slabclasses s1 c)
        \<and> nfree_item (slabclasses s2 c) = nfree_item (slabclasses s1 c))"
    by (rule slab_evict_loop [OF L(1) _ _ _ s2_def]) (use p its r0 P in \<open>auto simp: G1\<close>)
  from E have E1: "\<exists>L'. cache_inv_L L' e s2 \<and> L \<subseteq> L' \<and> L' \<subseteq> L \<union> set ?its"
    and E2: "\<forall>a \<in> set ?its. \<not> item_is_linked (items s2 a) \<and> \<not> item_is_slabbed (items s2 a)"
    and E3: "\<forall>a. a \<notin> set ?its \<longrightarrow> items s2 a = items s1 a"
    and E4: "geo s2 = geo s1" "run s2 = run s1" "heap s2 = heap s1" "now s2 = now s1" "cas_id s2 = cas_id s1"
      "slabs s2 = slabs s1"
    and E5: "\<forall>c. free_item (slabclasses s2 c) = free_item (slabclasses s1 c)
        \<and> nfree_item (slabclasses s2 c) = nfree_item (slabclasses s1 c)"
    by - (elim conjE, assumption)+
  from E1 [unfolded its] obtain L' where L': "cache_inv_L L' e s2" "L' \<subseteq> chunks s p"
    using L(2) by (metis Un_absorb1)
  have g2: "geo s2 = geo s" using E4 P(3) by simp
  note G2 = geo_live [OF g2] geoD [OF g2]
  have I: "items s2 a = items s a" if "a \<notin> chunks s p" for a using E3 that its P(4) by simp
  have no: "\<not> item_is_linked (items s2 a) \<and> \<not> item_is_slabbed (items s2 a)" if "a \<in> chunks s p" for a
    using E2 that its by blast
  have nr: "a \<notin> run s2 c" if "a \<in> chunks s p" "valid_id s c" for a c using E4 P(2) [OF that] by simp
  have "cache_inv_L (L' - chunks s2 p) e s3" "live s3 = live s2 - chunks s2 p" "active s3 = active s2 - {p}"
    "linked_items s3 = linked_items s2"
    by (rule inv_slab_retire [OF L'(1) _ _ _ s3_def]; use p no nr in \<open>simp add: G2\<close>)+
  then have inv3: "cache_inv_L {} e s3" and live3: "live s3 = live s - chunks s p" and act3: "active s3 = active s - {p}"
    and lk: "linked_items s3 = linked_items s - chunks s p"
  proof -
    assume a: "cache_inv_L (L' - chunks s2 p) e s3" "live s3 = live s2 - chunks s2 p" "active s3 = active s2 - {p}"
    "linked_items s3 = linked_items s2"
    have "L' - chunks s2 p = {}" using L'(2) by (auto simp: G2)
    with a show "cache_inv_L {} e s3" by simp
    show "live s3 = live s - chunks s p" "active s3 = active s - {p}" using a by (simp_all add: G2)
    show "linked_items s3 = linked_items s - chunks s p"
      using a(4) no I by (auto simp: linked_items_def G2) (metis I)+
  qed
  show "cache_inv_L {} e s'" using inv3 by (simp add: eq)
  have R3: "items s3 = items s2" "now s3 = now s2" "cas_id s3 = cas_id s2" "settings s3 = settings s2"
    "slabclass_max_id s3 = slabclass_max_id s2" "slab_item_size s3 = slab_item_size s2"
    "max_nslab (heap s3) = max_nslab (heap s2)" "slab_table (heap s3) = slab_table (heap s2)"
    "slabclasses s3 = slabclasses s2" "slabs s3 = slabs s2"
    by (simp_all add: s3_def slab_lruq_remove_def upd_defs slab_item_size_def fun_eq_iff)
  have "keeps s s3"
    using E4 P(4-9) r0 I live3 lk act3 unfolding keeps_def preserves_def R3 G2 linked_items_def by auto
  then show "keeps s s'" using keeps_trans keeps_counters eq by metis
  show "active s' = active s - {p}" "linked_items s' = linked_items s - chunks s p"
    using act3 lk by (simp_all add: eq) (simp_all add: upd_defs linked_items_def live_def chunks_def slab_cls_def)
  show "slab_table (heap s') = slab_table (heap s)"
    using E4 P(5) by (simp add: eq upd_defs R3)
  show "free_item (slabclasses s c) = 0 \<Longrightarrow> free_item (slabclasses s' c) = 0"
    using E5 P(10) by (simp add: eq upd_defs R3)
qed


section \<open>A new slab\<close>

lemma inv_heap_frame:
  assumes inv: "cache_inv_L L e s" and hk: "heap_ok e s'"
    and R: "items s' = items s" "slabs s' = slabs s" "slabclasses s' = slabclasses s"
    "slabclass_max_id s' = slabclass_max_id s" "slab_lruq (heap s') = slab_lruq (heap s)" "item_lruq s' = item_lruq s"
    "hashtbl s' = hashtbl s" "now s' = now s" "settings s' = settings s" "ub s' = ub s"
  shows "cache_inv_L L e s'" and "geo s' = geo s"
proof -
  show g: "geo s' = geo s" by (simp add: geo_def R)
  have "run s' = run s" "key_of s' = key_of s" "fits s' = fits s" "linked_items s' = linked_items s"
    by (auto simp: fun_eq_iff run_def key_of_def fits_def linked_items_def geo_live [OF g] R)
  then show "cache_inv_L L e s'"
    using inv hk by (simp add: cache_inv_L_def chunk_ok_def lruq_ok_def freeq_ok_def flag_ok_def
          run_ok_def ref_ok_def index_ok_def fit_ok_def no_leak_def time_ok_def geo_live [OF g] R)
qed

lemma slab_get_new_None:
  assumes "slab_get_new e s = (None, s')" and "cache_inv_L L e s"
  shows "cache_inv_L L e s'" and "keeps s s'" and "heap s' = heap s" and "slabclasses s' = slabclasses s"
    and "slabs s' = slabs s" and "items s' = items s"
proof -
  have h0: "hi_curr (heap s) \<noteq> 0 \<or> \<not> prealloc (settings s)" using assms(2) by (auto simp: cache_inv_L_def heap_ok_def)
  then have "s' = s \<or> (\<not> prealloc (settings s) \<and> s' = s\<lparr>nmalloc := nmalloc s + 1\<rparr>)"
    using assms(1) by (auto simp: slab_get_new_def slab_heap_alloc_def Let_def split: if_splits)
  then consider "s' = s" | "\<not> prealloc (settings s)" "s' = s\<lparr>nmalloc := nmalloc s + 1\<rparr>" by blast
  then have "cache_inv_L L e s' \<and> keeps s s' \<and> heap s' = heap s \<and> slabclasses s' = slabclasses s
      \<and> slabs s' = slabs s \<and> items s' = items s"
  proof cases
    case 2
    have hk: "heap_ok e s'"
      using assms(2) 2 by (auto simp: cache_inv_L_def heap_ok_def valid_id_def lessThan_Suc)
    have "cache_inv_L L e s'" "geo s' = geo s" by (rule inv_heap_frame [OF assms(2) hk]; simp add: 2(2))+
    moreover have "keeps s s'" by (rule keeps_geo [OF \<open>geo s' = geo s\<close>]) (simp_all add: 2)
    ultimately show ?thesis by (simp add: 2)
  qed (use assms(2) in simp)
  then show "cache_inv_L L e s'" "keeps s s'" "heap s' = heap s" "slabclasses s' = slabclasses s" "slabs s' = slabs s"
    "items s' = items s"
    by blast+
qed

lemma slab_get_new_Some:
  assumes r: "slab_get_new e s = (Some p, s')" and inv: "cache_inv_L L e s"
    and al: "alloc_ok e (slab_size_opt (settings s))" and ss: "0 < slab_size_opt (settings s)"
    and full: "set (slab_table (heap s)) = active s"
  shows "cache_inv_L L e s'" and "keeps s s'" and "p \<noteq> 0" and "p \<notin> active s'" and "active s' = active s"
    and "set (slab_table (heap s')) = insert p (active s')" and "slabclasses s' = slabclasses s"
proof -
  let ?n = "slab_size_opt (settings s)"
  let ?t = "slab_table (heap s)"
  note inv' = inv [unfolded cache_inv_L_def]
  have hk: "heap_ok e s" and n: "nslab (heap s) = length ?t" using inv' by (auto simp: heap_ok_def)
  define s1 where "s1 = snd (slab_heap_alloc e s)"
  have p: "p \<noteq> 0" and s': "s' = slab_table_update p s1" and pa: "p = fst (slab_heap_alloc e s)"
    using r by (auto simp: slab_get_new_def s1_def split: if_splits prod.splits)
  have R: "items s' = items s" "slabs s' = slabs s" "item_lruq s' = item_lruq s" "slabclasses s' = slabclasses s"
    "hashtbl s' = hashtbl s" "now s' = now s" "ub s' = ub s" "settings s' = settings s" "cas_id s' = cas_id s"
    "slabclass_max_id s' = slabclass_max_id s" "slab_lruq (heap s') = slab_lruq (heap s)"
    "max_nslab (heap s') = max_nslab (heap s)"
    and T: "slab_table (heap s') = ?t @ [p]" "nslab (heap s') = Suc (nslab (heap s))"
    using n by (auto simp: s' s1_def slab_table_update_def slab_heap_alloc_def upd_defs)
  have g: "geo s' = geo s" by (simp add: geo_def R)
  note G = geo_live [OF g] geoD [OF g]
  have dis: "slabs_disjoint ?n q p" if q: "q \<in> set ?t" for q
  proof (cases "prealloc (settings s)")
    case True
    then show ?thesis using hk pa q by (auto simp: heap_ok_def slab_heap_alloc_def slabs_disjoint_def)
  next
    case False
    then obtain i where i: "i < nmalloc s" "q = e_slab e i" using hk q by (auto simp: heap_ok_def)
    have pe: "p = e_slab e (nmalloc s)" using False pa by (simp add: slab_heap_alloc_def)
    have "q \<noteq> 0" using hk q unfolding heap_ok_def by metis
    then show ?thesis using al i p unfolding alloc_ok_def pe by (metis nat_neq_iff)
  qed
  have sym: "slabs_disjoint ?n p q" if "q \<in> set ?t" for q using dis [OF that] by (auto simp: slabs_disjoint_def)
  have np: "p \<notin> set ?t" using dis [of p] ss by (auto simp: slabs_disjoint_def)
  have "heap_ok e s'"
    unfolding heap_ok_def G T
  proof (intro conjI)
    show "if prealloc (settings s)
      then hi_curr (heap s') \<noteq> 0 \<and> (\<forall>q \<in> set (?t @ [p]). q + ?n \<le> hi_curr (heap s'))
      else set (?t @ [p]) \<subseteq> e_slab e ` {..<nmalloc s'}"
      using hk pa by (auto simp: heap_ok_def s' s1_def slab_table_update_def slab_heap_alloc_def upd_defs lessThan_Suc)
        (metis add_leD1)
  qed (use hk dis sym p in \<open>auto simp: heap_ok_def R(11) R(2)\<close>)
  then show "cache_inv_L L e s'" by (rule inv_heap_frame(1) [OF inv]) (simp_all add: R)
  show "keeps s s'" by (rule keeps_geo [OF g]) (simp_all add: R)
  show "p \<noteq> 0" by (rule p)
  show "p \<notin> active s'" "active s' = active s" "set (slab_table (heap s')) = insert p (active s')"
    using np full by (auto simp: R T)
  show "slabclasses s' = slabclasses s" by (simp add: R)
qed


section \<open>Carving a slab\<close>

definition fresh_hdr :: "addr \<Rightarrow> nat \<Rightarrow> addr \<Rightarrow> item \<Rightarrow> item" where
  "fresh_hdr p cid a i = i\<lparr>it_offset := a - p, it_id := cid, it_refcount := 0, it_flags := 0\<rparr>"

lemma item_hdr_init_fold:
  "fold (\<lambda>i. item_hdr_init (f i) (f i - p) cid) is s
     = s\<lparr>items := (\<lambda>a. if a \<in> f ` set is then fresh_hdr p cid a (items s a) else items s a)\<rparr>"
proof (induction "is" arbitrary: s)
  case (Cons i "is")
  show ?case
    by (simp add: Cons.IH) (simp add: item_hdr_init_def upd_item_def,
        rule arg_cong [where f = "\<lambda>x. s\<lparr>items := x\<rparr>"], auto simp: fun_eq_iff fresh_hdr_def item_hdr_init_def upd_item_def)
qed simp

lemma fresh_hdr_simps [simp]:
  "it_offset (fresh_hdr p cid a i) = a - p" "it_id (fresh_hdr p cid a i) = cid"
  "it_refcount (fresh_hdr p cid a i) = 0" "\<not> item_is_linked (fresh_hdr p cid a i)"
  "\<not> item_is_slabbed (fresh_hdr p cid a i)"
  by (simp_all add: fresh_hdr_def flag_defs)

lemma slab_add_one_fields:
  fixes p cid s
  defines "s' \<equiv> slab_add_one p cid s"
    and "C \<equiv> (\<lambda>i. slab_2_item p i (sc_size (slabclasses s cid))) ` {..<nitem (slabclasses s cid)}"
  shows "items s' = (\<lambda>a. if a \<in> C then fresh_hdr p cid a (items s a) else items s a)"
    and "slabs s' = (slabs s)(p := (slabs s p)\<lparr>sl_id := cid, sl_refcount := 0\<rparr>)"
    and "slab_lruq (heap s') = slab_lruq (heap s) @ [p]" and "slab_table (heap s') = slab_table (heap s)"
    and "nslab (heap s') = nslab (heap s)" and "max_nslab (heap s') = max_nslab (heap s)"
    and "hi_curr (heap s') = hi_curr (heap s)"
    and "slabclasses s' = (slabclasses s)(cid := (slabclasses s cid)\<lparr>nfree_item := nitem (slabclasses s cid),
           free_item := p + SLAB_HDR_SIZE\<rparr>)"
    and "item_lruq s' = item_lruq s" and "hashtbl s' = hashtbl s" and "now s' = now s" and "ub s' = ub s"
    and "settings s' = settings s" and "slabclass_max_id s' = slabclass_max_id s" and "nmalloc s' = nmalloc s"
    and "cas_id s' = cas_id s"
  unfolding s'_def C_def slab_add_one_def Let_def item_hdr_init_fold
  by (simp_all add: slab_hdr_init_def slab_lruq_append_def upd_defs atLeast0LessThan cong: if_cong)

lemma inv_slab_add_one:
  assumes inv: "cache_inv_L L e s" and v: "valid_id s cid" and p: "p \<notin> active s" "p \<in> set (slab_table (heap s))"
    and fr: "free_item (slabclasses s cid) = 0" and s': "s' = slab_add_one p cid s"
  shows "cache_inv_L L e s'" and "keeps s s'" and "active s' = insert p (active s)"
    and "slab_table (heap s') = slab_table (heap s)" and "free_item (slabclasses s' cid) \<noteq> 0"
    and "linked_items s' = linked_items s"
proof -
  let ?c = "slabclasses s cid"
  define C where "C = (\<lambda>i. slab_2_item p i (sc_size ?c)) ` {..<nitem ?c}"
  note F = slab_add_one_fields [of p cid s, folded C_def s']
  note inv' = inv [unfolded cache_inv_L_def]
  have A: "active s' = insert p (active s)" by (simp add: F(3))
  have geom: "nitem (slabclasses s' c) = nitem (slabclasses s c)" "sc_size (slabclasses s' c) = sc_size (slabclasses s c)"
    "free_itemq (slabclasses s' c) = free_itemq (slabclasses s c)" "nfree_itemq (slabclasses s' c) = nfree_itemq (slabclasses s c)" for c
    by (simp_all add: F(8))
  have chp: "chunks s' p = C" by (simp add: chunks_def slab_cls_def F(2) geom C_def)
  have chq: "chunks s' q = chunks s q" if "q \<in> active s" for q
    using that p by (auto simp: chunks_def slab_cls_def F(2) geom)
  have val: "valid_id s' c = valid_id s c" for c by (simp add: valid_id_def F)
  have size: "slab_item_size s' = slab_item_size s" by (simp add: slab_item_size_def fun_eq_iff geom)
  have cok: "class_ok s'" using inv' by (simp add: class_ok_def val size geom F)
  have range: "a + sc_size (slab_cls s' q) \<le> q + slab_size_opt (settings s) \<and> q + SLAB_HDR_SIZE \<le> a
      \<and> 0 < sc_size (slab_cls s' q)" if "a \<in> chunks s' q" "q \<in> active s'" for a q
  proof -
    have vq: "valid_id s' (sl_id (slabs s' q))"
      using that(2) v inv' by (auto simp: A val F(2) heap_ok_def)
    then have "0 < sc_size (slab_cls s' q)" using cok by (auto simp: class_ok_def slab_cls_def ITEM_HDR_SIZE_def)
    then show ?thesis
      using chunk_end [OF cok vq that(1)] chunk_ge [OF that(1)] by (simp add: F)
  qed
  have new: "a \<notin> live s" if a: "a \<in> C" for a
  proof
    assume "a \<in> live s"
    then obtain q where q: "q \<in> active s" "a \<in> chunks s q" by (auto simp: live_def)
    moreover have "q \<in> set (slab_table (heap s))" "p \<noteq> q"
      "\<forall>p \<in> set (slab_table (heap s)). \<forall>q \<in> set (slab_table (heap s)).
          p \<noteq> q \<longrightarrow> slabs_disjoint (slab_size_opt (settings s)) p q"
      using inv' p q by (auto simp: heap_ok_def)
    ultimately have "slabs_disjoint (slab_size_opt (settings s)) p q" using p(2) by blast
    then show False
      using range [of a q] range [of a p] q a by (auto simp: chp chq A slabs_disjoint_def)
  qed
  have L: "live s' = live s \<union> C"
    using chp chq by (auto simp: live_def A)
  have I: "items s' a = items s a" if "a \<in> live s" for a using new that by (auto simp: F(1))
  have J: "items s' a = fresh_hdr p cid a (items s a)" if "a \<in> C" for a using that by (simp add: F(1))
  have lk: "{a \<in> live s'. it_id (items s' a) = c \<and> item_is_linked (items s' a)}
      = {a \<in> live s. it_id (items s a) = c \<and> item_is_linked (items s a)}"
    "{a \<in> live s'. it_id (items s' a) = c \<and> item_is_slabbed (items s' a)}
      = {a \<in> live s. it_id (items s a) = c \<and> item_is_slabbed (items s a)}" for c
    using I J by (auto simp: L)
  show K: "linked_items s' = linked_items s" using I J by (auto simp: linked_items_def L)
  have r0: "run s cid = {}" using inv' v fr by (auto simp: run_def run_ok_def)
  have runc: "run s' cid = C" by (simp add: run_def F(8) C_def slab_2_item_def)
  have runo: "run s' c = run s c" if "c \<noteq> cid" for c using that by (simp add: run_def F(8))
  have rlive: "a \<in> live s" if "valid_id s c" "a \<in> run s c" for a c using run_id(2) [OF inv that] .
  have "chunk_ok s'"
    unfolding chunk_ok_def A
  proof (intro ballI)
    fix q a assume q: "q \<in> insert p (active s)" "a \<in> chunks s' q"
    show "it_offset (items s' a) = a - q \<and> it_id (items s' a) = sl_id (slabs s' q)"
    proof (cases "q = p")
      case True
      then show ?thesis using q J by (simp add: chp F(2))
    next
      case False
      then have "q \<in> active s" "a \<in> chunks s q" using q chq by auto
      then show ?thesis using inv' I chunk_live False by (auto simp: chunk_ok_def F(2))
    qed
  qed
  moreover have "ref_ok s'"
    unfolding ref_ok_def A
  proof (intro ballI)
    fix q assume q: "q \<in> insert p (active s)"
    show "unat (sl_refcount (slabs s' q)) = (\<Sum>a\<in>chunks s' q. unat (it_refcount (items s' a)))"
    proof (cases "q = p")
      case True
      then show ?thesis using J by (simp add: chp F(2))
    next
      case False
      then have qa: "q \<in> active s" using q by simp
      have "(\<Sum>a\<in>chunks s q. unat (it_refcount (items s' a))) = (\<Sum>a\<in>chunks s q. unat (it_refcount (items s a)))"
        by (rule sum.cong) (auto simp: I chunk_live [OF qa])
      then show ?thesis using inv' qa False by (simp add: ref_ok_def chq F(2))
    qed
  qed
  moreover have "heap_ok e s'"
    using inv' p v by (auto simp: heap_ok_def A val F(2-7,13,15))
  moreover have "lruq_ok s'" "freeq_ok s'"
    using inv' by (simp_all add: lruq_ok_def freeq_ok_def lk val geom F(9))
  moreover have "flag_ok s'" using inv' I J by (auto simp: flag_ok_def L)
  moreover have "fit_ok L s'" using inv' I J by (auto simp: fit_ok_def L fits_def size F)
  moreover have "time_ok s'"
  proof -
    have "a \<in> live s" if "a \<in> set (item_lruq s c)" "SLABCLASS_MIN_ID \<le> c \<and> c \<le> SLABCLASS_MAX_ID" for a c
      using inv' that by (auto simp: lruq_ok_def)
    then show ?thesis using inv' I by (simp add: time_ok_def F(9,11) cong: map_cong)
  qed
  moreover have "index_ok s'"
  proof -
    have "assoc_inv (key_of s') (hashtbl s)"
      by (rule assoc_idx.inv_cong [of "key_of s"]) (use inv' I in \<open>auto simp: index_ok_def key_of_def linked_items_def\<close>)
    then show ?thesis using inv' by (simp add: index_ok_def F(10) K)
  qed
  moreover have "run_ok s'"
    unfolding run_ok_def val
  proof (intro allI impI)
    fix c assume vc: "valid_id s c"
    show "(free_item (slabclasses s' c) = 0 \<longrightarrow> nfree_item (slabclasses s' c) = 0)
      \<and> (free_item (slabclasses s' c) \<noteq> 0 \<longrightarrow>
          (\<exists>q \<in> active s'. \<exists>j < nitem (slabclasses s' c). sl_id (slabs s' q) = c
             \<and> free_item (slabclasses s' c) = slab_2_item q j (sc_size (slabclasses s' c))
             \<and> nfree_item (slabclasses s' c) = nitem (slabclasses s' c) - j))
      \<and> (\<forall>a \<in> run s' c. \<not> item_is_linked (items s' a) \<and> \<not> item_is_slabbed (items s' a)
          \<and> it_refcount (items s' a) = 0)"
    proof (cases "c = cid")
      case True
      have "0 < nitem ?c" using inv' v by (simp add: class_ok_def)
      then show ?thesis using True J by (auto simp: A F(2,8) runc slab_2_item_def SLAB_HDR_SIZE_def)
    next
      case False
      have "sl_id (slabs s' q) = sl_id (slabs s q)" if "q \<in> active s" for q using that p by (auto simp: F(2))
      then show ?thesis
        using inv' vc False I rlive [OF vc] by (auto simp: run_ok_def runo F(8) A)
    qed
  qed
  moreover have "no_leak L s'"
    unfolding no_leak_def val
  proof (intro conjI ballI)
    fix a assume a: "a \<in> live s'"
    show "item_is_linked (items s' a) \<or> item_is_slabbed (items s' a) \<or> it_refcount (items s' a) \<noteq> 0
      \<or> (\<exists>cid. valid_id s cid \<and> a \<in> run s' cid) \<or> a \<in> L"
    proof (cases "a \<in> C")
      case True
      then show ?thesis using runc v by blast
    next
      case False
      then have "a \<in> live s" using a L by simp
      then show ?thesis using inv' I [of a] runo r0 unfolding cache_inv_L_def no_leak_def by (metis empty_iff)
    qed
  next
    fix a assume a: "a \<in> L"
    then have o: "a \<in> live s" "\<not> item_is_linked (items s a)" "\<not> item_is_slabbed (items s a)" "\<forall>c. valid_id s c \<longrightarrow> a \<notin> run s c"
      using inv' by (auto simp: no_leak_def)
    then show "a \<in> live s'" "\<not> item_is_linked (items s' a)" "\<not> item_is_slabbed (items s' a)"
      using I L by auto
    show "\<forall>c. valid_id s c \<longrightarrow> a \<notin> run s' c"
      using o new runc runo by metis
  qed
  ultimately show "cache_inv_L L e s'" using inv' cok by (simp add: cache_inv_L_def F(12))
  show "keeps s s'" using I L K by (auto simp: keeps_def preserves_def F(2,6,11,13,14,16) A size linked_items_def)
  show "active s' = insert p (active s)" "slab_table (heap s') = slab_table (heap s)" by (simp_all add: A F)
  show "free_item (slabclasses s' cid) \<noteq> 0" by (simp add: F(8) SLAB_HDR_SIZE_def)
qed


section \<open>Choosing a slab to evict\<close>

lemma slab_rand_loop_spec:
  assumes "slab_rand_loop e n s = (p, t, s')" and "0 < n" and "nslab (heap s) = length (slab_table (heap s))"
    and "slab_table (heap s) \<noteq> []"
  shows "p \<in> set (slab_table (heap s))" and "0 < t \<Longrightarrow> sl_refcount (slabs s p) = 0"
    and "\<exists>k. s' = s\<lparr>nrand := k\<rparr>"
proof -
  have "p \<in> set (slab_table (heap s)) \<and> (0 < t \<longrightarrow> sl_refcount (slabs s p) = 0) \<and> (\<exists>k. s' = s\<lparr>nrand := k\<rparr>)"
    using assms
  proof (induction e n s rule: slab_rand_loop.induct)
    case (2 e tries s)
    let ?q = "slab_table (heap s) ! (unat (e_rand e (nrand s)) mod nslab (heap s))"
    let ?s = "s\<lparr>nrand := nrand s + 1\<rparr>"
    have q: "slab_table_rand e s = (?q, ?s)" and qt: "?q \<in> set (slab_table (heap s))"
      using 2(4,5) by (simp_all add: slab_table_rand_def Let_def)
    show ?case
    proof (cases "tries > 0 \<and> sl_refcount (slabs s ?q) \<noteq> 0")
      case True
      then have "slab_rand_loop e tries ?s = (p, t, s')" using 2(2) q by simp
      then have "p \<in> set (slab_table (heap ?s)) \<and> (0 < t \<longrightarrow> sl_refcount (slabs ?s p) = 0) \<and> (\<exists>k. s' = ?s\<lparr>nrand := k\<rparr>)"
        using 2(1) [OF q [symmetric] refl] True 2(4,5) by simp
      then show ?thesis by auto
    next
      case False
      then have "p = ?q" "t = tries" "s' = ?s" using 2(2) q by (auto split: if_splits)
      then show ?thesis using False qt by auto
    qed
  qed simp
  then show "p \<in> set (slab_table (heap s))" "0 < t \<Longrightarrow> sl_refcount (slabs s p) = 0" "\<exists>k. s' = s\<lparr>nrand := k\<rparr>"
    by blast+
qed

lemma slab_lru_loop_Some:
  "slab_lru_loop s n ps = Some p \<Longrightarrow> p \<in> set ps \<and> sl_refcount (slabs s p) = 0"
  by (induction s n ps rule: slab_lru_loop.induct) (auto split: if_splits)

text \<open>What every way to find a slab to evict has in common.\<close>

definition evicts :: "env \<Rightarrow> cache \<Rightarrow> addr option \<times> cache \<Rightarrow> bool" where
  "evicts e s r \<longleftrightarrow> (case r of
      (None, s') \<Rightarrow> cache_inv_L {} e s' \<and> keeps s s' \<and> heap s' = heap s \<and> slabclasses s' = slabclasses s
        \<and> slabs s' = slabs s \<and> items s' = items s
    | (Some p, s') \<Rightarrow> cache_inv_L {} e s' \<and> keeps s s' \<and> p \<notin> active s' \<and> set (slab_table (heap s')) = insert p (active s')
        \<and> (\<forall>c. free_item (slabclasses s c) = 0 \<longrightarrow> free_item (slabclasses s' c) = 0))"

lemma evicts_one:
  assumes "cache_inv_L {} e s" and "set (slab_table (heap s)) = active s" and "p \<in> active s" and "sl_refcount (slabs s p) = 0"
  shows "evicts e s (Some p, slab_evict_one p s)"
  using slab_evict_one_inv [OF assms(1,3,4) refl] assms(2,3) by (auto simp: evicts_def)

lemma evicts_lru:
  assumes "cache_inv_L {} e s" and "set (slab_table (heap s)) = active s"
  shows "evicts e s (slab_evict_lru s)"
proof (cases "slab_lru_loop s SLAB_LRU_MAX_TRIES (slab_lruq (heap s))")
  case None
  then show ?thesis using assms(1) by (simp add: slab_evict_lru_def evicts_def)
next
  case (Some p)
  then show ?thesis
    using slab_lru_loop_Some [OF Some] evicts_one [OF assms] by (simp add: slab_evict_lru_def)
qed

lemma nrand_frame:
  "keeps s (s\<lparr>nrand := k\<rparr>)" "heap (s\<lparr>nrand := k\<rparr>) = heap s" "slabs (s\<lparr>nrand := k\<rparr>) = slabs s"
  "slabclasses (s\<lparr>nrand := k\<rparr>) = slabclasses s" "items (s\<lparr>nrand := k\<rparr>) = items s"
  by (simp_all add: keeps_geo geo_def)

lemma evicts_rand:
  assumes inv: "cache_inv_L {} e s" and full: "set (slab_table (heap s)) = active s" and ne: "slab_table (heap s) \<noteq> []"
  shows "evicts e s (slab_evict_rand e s)"
proof -
  obtain p t s1 where l: "slab_rand_loop e SLAB_RAND_MAX_TRIES s = (p, t, s1)" by (metis prod_cases3)
  have n: "0 < SLAB_RAND_MAX_TRIES" "nslab (heap s) = length (slab_table (heap s))"
    using inv by (auto simp: SLAB_RAND_MAX_TRIES_def cache_inv_L_def heap_ok_def)
  note S = slab_rand_loop_spec [OF l n ne]
  then obtain k where k: "s1 = s\<lparr>nrand := k\<rparr>" by blast
  show ?thesis
  proof (cases "t = 0")
    case True
    then show ?thesis using inv by (simp add: slab_evict_rand_def l k evicts_def nrand_frame)
  next
    case False
    have "evicts e s1 (Some p, slab_evict_one p s1)"
      using S full False inv by (intro evicts_one) (simp_all add: k)
    then have "evicts e s (Some p, slab_evict_one p s1)"
      using keeps_trans [OF nrand_frame(1) [of s k]] by (auto simp: evicts_def k)
    then show ?thesis using False by (simp add: slab_evict_rand_def l)
  qed
qed

section \<open>Getting a slab\<close>

text \<open>
  Random eviction divides by the number of slabs, so it needs a slab to choose from when no new
  one can be had.
\<close>

definition rand_safe :: "env \<Rightarrow> cache \<Rightarrow> bool" where
  "rand_safe e s \<longleftrightarrow> evict_opt (settings s) AND EVICT_RS \<noteq> 0 \<longrightarrow> slab_table (heap s) = [] \<longrightarrow>
     fst (slab_get_new e s) \<noteq> None"

definition env_ok :: "env \<Rightarrow> cache \<Rightarrow> bool" where
  "env_ok e s \<longleftrightarrow> alloc_ok e (slab_size_opt (settings s)) \<and> rand_safe e s"

lemma evicts_trans_None:
  assumes "evicts e s (None, s1)" and "evicts e s1 r"
  shows "evicts e s r"
  using assms keeps_trans [of s s1] by (auto simp: evicts_def split: prod.splits option.splits)

lemma evicts_get_new:
  assumes "cache_inv_L {} e s" and "alloc_ok e (slab_size_opt (settings s))" and "0 < slab_size_opt (settings s)"
    and "set (slab_table (heap s)) = active s"
  shows "evicts e s (slab_get_new e s)"
proof (cases "slab_get_new e s")
  case (Pair o_p s1)
  then show ?thesis
    using slab_get_new_None [OF _ assms(1), of s1] slab_get_new_Some [OF _ assms, of _ s1]
    by (cases o_p) (auto simp: evicts_def)
qed


lemma evicts_or:
  assumes "evicts e s (o1, s1)" and "o1 = None \<Longrightarrow> b \<Longrightarrow> evicts e s1 r"
  shows "evicts e s (if o1 = None \<and> b then r else (o1, s1))"
  using assms by (auto intro: evicts_trans_None)

lemma evicts_NoneD:
  assumes "evicts e s (None, s1)"
  shows "cache_inv_L {} e s1" "active s1 = active s" "slab_table (heap s1) = slab_table (heap s)"
    "settings s1 = settings s"
  using assms by (auto simp: evicts_def keeps_def preserves_def)

lemma slab_get_evicts:
  assumes inv: "cache_inv_L {} e s" and full: "set (slab_table (heap s)) = active s" and env: "env_ok e s"
    and ss: "0 < slab_size_opt (settings s)"
  obtains slab s4 where "evicts e (sincr cid slab_req s) (slab, s4)"
    and "slab_get e cid s = (case slab of Some p \<Rightarrow> (MC_OK, slab_add_one p cid s4)
           | None \<Rightarrow> (MC_ENOMEM, sincr cid slab_error s4))"
proof -
  let ?s = "sincr cid slab_req s"
  let ?b1 = "evict_opt (settings s) AND (EVICT_CS OR EVICT_AS) \<noteq> 0"
  let ?b2 = "evict_opt (settings s) AND EVICT_RS \<noteq> 0"
  have F: "cache_inv_L {} e ?s" "set (slab_table (heap ?s)) = active ?s" "settings ?s = settings s"
    using inv full by (simp_all add: sincr_by_def inv_counters(1) [unfolded sincr_by_def])
  obtain o1 s2 where 1: "slab_get_new e ?s = (o1, s2)" by fastforce
  have E1: "evicts e ?s (o1, s2)"
    using evicts_get_new [of e ?s] F env ss by (simp add: env_ok_def 1)
  obtain o2 s3 where 2: "(if o1 = None \<and> ?b1 then slab_evict_lru s2 else (o1, s2)) = (o2, s3)" by fastforce
  have E2: "evicts e ?s (o2, s3)"
    unfolding 2 [symmetric]
    by (rule evicts_or [OF E1]) (use evicts_NoneD [of e ?s s2] E1 F(2) evicts_lru in auto)
  obtain o3 s4 where 3: "(if o2 = None \<and> ?b2 then slab_evict_rand e s3 else (o2, s3)) = (o3, s4)" by fastforce
  have "evicts e ?s (o3, s4)"
    unfolding 3 [symmetric]
  proof (rule evicts_or [OF E2])
    assume o2: "o2 = None" and b2: "?b2"
    note N = evicts_NoneD [OF E2 [unfolded o2]]
    have "o1 = None" using 2 o2 by (auto split: if_splits)
    moreover have "fst (slab_get_new e ?s) = fst (slab_get_new e s)"
      by (simp add: slab_get_new_def slab_heap_full_def slab_heap_alloc_def upd_defs)
    ultimately have "slab_table (heap s) \<noteq> []"
      using env b2 1 unfolding env_ok_def rand_safe_def by auto
    then show "evicts e s3 (slab_evict_rand e s3)"
      using N F by (intro evicts_rand) (simp_all add: sincr_by_def)
  qed
  moreover have st: "settings s2 = settings s" "settings s3 = settings s"
    using E1 E2 F(3) by (auto simp: evicts_def keeps_def preserves_def split: option.splits)
  moreover have "slab_get e cid s = (case o3 of Some p \<Rightarrow> (MC_OK, slab_add_one p cid s4)
           | None \<Rightarrow> (MC_ENOMEM, sincr cid slab_error s4))"
    by (simp add: slab_get_def Let_def 1 st 2 3)
  ultimately show thesis using that by blast
qed

lemma slab_get_inv:
  assumes inv: "cache_inv_L {} e s" and full: "set (slab_table (heap s)) = active s" and env: "env_ok e s"
    and ss: "0 < slab_size_opt (settings s)" and v: "valid_id s cid" and fr: "free_item (slabclasses s cid) = 0"
    and r: "slab_get e cid s = (st, s')"
  shows "cache_inv_L {} e s'" and "keeps s s'" and "set (slab_table (heap s')) = active s'"
    and "st = MC_OK \<Longrightarrow> free_item (slabclasses s' cid) \<noteq> 0"
    and "st \<noteq> MC_OK \<Longrightarrow> items s' = items s \<and> linked_items s' = linked_items s"
proof -
  obtain slab s4 where E: "evicts e (sincr cid slab_req s) (slab, s4)"
    and g: "slab_get e cid s = (case slab of Some p \<Rightarrow> (MC_OK, slab_add_one p cid s4)
           | None \<Rightarrow> (MC_ENOMEM, sincr cid slab_error s4))"
    by (rule slab_get_evicts [OF inv full env ss])
  have k0: "keeps s (sincr cid slab_req s)" by (rule keeps_counters)
  have fr0: "free_item (slabclasses (sincr cid slab_req s) cid) = 0" using fr by (simp add: upd_defs)
  have "cache_inv_L {} e s' \<and> keeps s s' \<and> set (slab_table (heap s')) = active s'
      \<and> (st = MC_OK \<longrightarrow> free_item (slabclasses s' cid) \<noteq> 0)
      \<and> (st \<noteq> MC_OK \<longrightarrow> items s' = items s \<and> linked_items s' = linked_items s)"
  proof (cases slab)
    case None
    have "heap s4 = heap s" and same: "items s4 = items s" "slabs s4 = slabs s" "slabclasses s4 = slabclasses s"
      using E None by (simp_all add: evicts_def upd_defs)
    moreover have "keeps s s4" using E None keeps_trans [OF k0] by (simp add: evicts_def)
    moreover have s': "s' = sincr cid slab_error s4" "st = MC_ENOMEM" using g r None by simp_all
    ultimately have "keeps s s'" "heap s' = heap s" using keeps_trans [OF _ keeps_counters(1)]
      by blast (simp add: s' upd_defs \<open>heap s4 = heap s\<close>)
    moreover have "items s' = items s" "linked_items s' = linked_items s"
      using same \<open>heap s4 = heap s\<close> by (simp_all add: s' linked_items_def live_def chunks_def slab_cls_def upd_defs)
    ultimately show ?thesis using E None full s' by (simp add: evicts_def)
  next
    case (Some p)
    have s4: "cache_inv_L {} e s4" "keeps s s4" "p \<notin> active s4" "set (slab_table (heap s4)) = insert p (active s4)"
      "free_item (slabclasses s4 cid) = 0"
      using E Some fr0 keeps_trans [OF k0] by (auto simp: evicts_def)
    have v4: "valid_id s4 cid" using v s4(2) by (simp add: valid_id_def keeps_def preserves_def)
    have p4: "p \<in> set (slab_table (heap s4))" using s4(4) by simp
    have s': "s' = slab_add_one p cid s4" "st = MC_OK" using g r Some by simp_all
    note A = inv_slab_add_one [OF s4(1) v4 s4(3) p4 s4(5) s'(1)]
    show ?thesis using A s4(2,4) s'(2) keeps_trans by auto
  qed
  then show "cache_inv_L {} e s'" "keeps s s'" "set (slab_table (heap s')) = active s'"
    "st = MC_OK \<Longrightarrow> free_item (slabclasses s' cid) \<noteq> 0"
    "st \<noteq> MC_OK \<Longrightarrow> items s' = items s \<and> linked_items s' = linked_items s" by blast+
qed

section \<open>Getting an item\<close>

lemma slab_get_item_inv:
  assumes inv: "cache_inv_L {} e s" and full: "set (slab_table (heap s)) = active s" and env: "env_ok e s"
    and v: "valid_id s cid" and r: "slab_get_item e cid s = (res, s')"
  shows "cache_inv_L (set_option res) e s'" and "keeps s s'" and "set (slab_table (heap s')) = active s'"
    and "res = Some it \<Longrightarrow> it_id (items s' it) = cid \<and> it_refcount (items s' it) = 0"
    and "res = None \<Longrightarrow> items s' = items s \<and> linked_items s' = linked_items s"
proof -
  have ss: "0 < slab_size_opt (settings s)"
    using inv v by (auto simp: cache_inv_L_def class_ok_def SLAB_HDR_SIZE_def)
  have "cache_inv_L (set_option res) e s' \<and> keeps s s' \<and> set (slab_table (heap s')) = active s'
     \<and> (\<forall>it. res = Some it \<longrightarrow> it_id (items s' it) = cid \<and> it_refcount (items s' it) = 0)
     \<and> (res = None \<longrightarrow> items s' = items s \<and> linked_items s' = linked_items s)"
  proof (cases "use_freeq (settings s) \<and> nfree_itemq (slabclasses s cid) \<noteq> 0")
    case True
    let ?it = "hd (free_itemq (slabclasses s cid))"
    let ?s1 = "upd_class cid (\<lambda>c. c\<lparr>nfree_itemq := nfree_itemq c - 1, free_itemq := remove1 ?it (free_itemq c)\<rparr>)
       (upd_item ?it (\<lambda>i. i\<lparr>it_flags := it_flags i AND NOT ITEM_SLABBED\<rparr>) s)"
    have "freeq_ok s" "flag_ok s" using inv by (auto simp: cache_inv_L_def)
    moreover from this have "?it \<in> set (free_itemq (slabclasses s cid))"
      using True v by (intro hd_in_set) (auto simp: freeq_ok_def)
    ultimately have it: "?it \<in> live s" "it_id (items s ?it) = cid" "item_is_slabbed (items s ?it)"
      "\<not> item_is_linked (items s ?it)" "it_refcount (items s ?it) = 0"
      using v by (auto simp: freeq_ok_def flag_ok_def)
    have g: "geo ?s1 = geo s" by (auto simp: geo_def upd_defs)
    have res: "res = Some ?it" "s' = sdecr cid item_free ?s1"
      using r True by (auto simp: slab_get_item_def slab_get_item_from_freeq_def Let_def)
    have "keeps s ?s1"
      using it unfolding keeps_def preserves_def geo_live [OF g] linked_items_def by (auto simp: upd_defs)
    then have "keeps s s'" unfolding res using keeps_trans keeps_counters(2) by blast
    moreover have "cache_inv_L (set_option res) e s'"
      using inv_freeq_remove [OF inv it(1,3,2)] by (simp add: res)
    ultimately show ?thesis using it full by (simp add: res) (simp add: upd_defs)
  next
    case False
    obtain st s1 where 1: "(if free_item (slabclasses s cid) = 0 then slab_get e cid s else (MC_OK, s)) = (st, s1)"
      by fastforce
    have s1: "cache_inv_L {} e s1 \<and> keeps s s1 \<and> set (slab_table (heap s1)) = active s1
      \<and> (st = MC_OK \<longrightarrow> free_item (slabclasses s1 cid) \<noteq> 0)
      \<and> (st \<noteq> MC_OK \<longrightarrow> items s1 = items s \<and> linked_items s1 = linked_items s)"
      using 1 slab_get_inv [OF inv full env ss v, of st s1] inv full by (auto split: if_splits)
    have eq: "slab_get_item e cid s = (if st \<noteq> MC_OK then (None, s1)
        else let (it, s2) = slab_take_free cid s1 in (Some it, s2))"
      using False 1 by (auto simp: slab_get_item_def slab_get_item_from_freeq_def)
    show ?thesis
    proof (cases "st = MC_OK")
      case True
      obtain it s2 where 2: "slab_take_free cid s1 = (it, s2)" by fastforce
      have v1: "valid_id s1 cid" using v s1 by (simp add: valid_id_def keeps_def preserves_def)
      note T = inv_slab_take_free [OF conjunct1 [OF s1] v1 _ 2]
      have f: "free_item (slabclasses s1 cid) \<noteq> 0" using s1 True by blast
      have it: "it_id (items s1 it) = cid \<and> it_refcount (items s1 it) = 0"
        using run_id(1) [OF conjunct1 [OF s1] v1 T(2) [OF f]] T(2) [OF f] s1 v1
        by (auto simp: cache_inv_L_def run_ok_def)
      have "res = Some it" "s' = s2" using r True by (simp_all add: eq 2)
      then show ?thesis
        using T(1,3,6) [OF f] keeps_trans [OF _ T(5) [OF f]] s1 it by simp
    next
      case False
      then show ?thesis using r s1 by (simp add: eq)
    qed
  qed
  then show "cache_inv_L (set_option res) e s'" "keeps s s'" "set (slab_table (heap s')) = active s'"
    "res = Some it \<Longrightarrow> it_id (items s' it) = cid \<and> it_refcount (items s' it) = 0"
    "res = None \<Longrightarrow> items s' = items s \<and> linked_items s' = linked_items s" by blast+
qed

end
