(* ===== verification/McItemInv.thy ===== *)
theory McItemInv
  imports McSlabInv
begin

text \<open>
  The item operations keep the cache invariant, and what they do to the cache seen as a map from
  keys to entries: a storage command changes the entry of its key as documented and no other key,
  and an allocation may only drop entries.
\<close>

section \<open>The cache as a map\<close>

record entry =
  en_value :: bytes
  en_dataflags :: u32
  en_exptime :: u32
  en_cas :: u64

definition entry_of :: "cache \<Rightarrow> addr \<Rightarrow> entry" where
  "entry_of s a = \<lparr>en_value = item_value s a, en_dataflags = it_dataflags (items s a),
     en_exptime = it_exptime (items s a), en_cas = item_get_cas (items s a)\<rparr>"

definition view :: "cache \<Rightarrow> bytes \<rightharpoonup> entry" where
  "view s key = map_option (entry_of s) (index_find s key)"

lemma index_find_iff:
  "cache_inv_L L e s \<Longrightarrow> index_find s key = Some a \<longleftrightarrow> a \<in> linked_items s \<and> key_of s a = key"
  using assoc_idx.lookup_iff [of "key_of s" "hashtbl s"] by (simp add: cache_inv_L_def index_ok_def index_find_def)

lemma index_find_None:
  "cache_inv_L L e s \<Longrightarrow> index_find s key = None \<longleftrightarrow> (\<forall>a \<in> linked_items s. key_of s a \<noteq> key)"
  by (metis index_find_iff not_None_eq)

lemma linked_unique:
  "cache_inv_L L e s \<Longrightarrow> a \<in> linked_items s \<Longrightarrow> b \<in> linked_items s \<Longrightarrow> key_of s a = key_of s b \<Longrightarrow> a = b"
  using assoc_idx.unique [of "key_of s" "hashtbl s"] by (simp add: cache_inv_L_def index_ok_def)

lemma view_Some_iff:
  "cache_inv_L L e s \<Longrightarrow> view s key = Some v \<longleftrightarrow> (\<exists>a \<in> linked_items s. key_of s a = key \<and> entry_of s a = v)"
  by (auto simp: view_def index_find_iff)

lemma entry_cong:
  "items s' a = items s a \<Longrightarrow> slab_item_size s' = slab_item_size s \<Longrightarrow> entry_of s' a = entry_of s a"
  by (simp add: entry_of_def item_value_def item_data_def Let_def)

text \<open>An allocation only removes entries.\<close>

lemma preserves_view:
  assumes "cache_inv_L L e s" and "cache_inv_L L' e s'" and "preserves s s'"
  shows "view s' \<subseteq>\<^sub>m view s"
  unfolding map_le_def
proof
  fix key assume "key \<in> dom (view s')"
  then obtain v where v: "view s' key = Some v" by blast
  then obtain a where a: "a \<in> linked_items s'" "key_of s' a = key" "entry_of s' a = v"
    using view_Some_iff [OF assms(2)] by blast
  have "items s' a = items s a" "slab_item_size s' = slab_item_size s" "a \<in> linked_items s"
    using assms(3) a(1) by (auto simp: keeps_def preserves_def)
  then have "view s key = Some v"
    using a entry_cong [of s' a s] view_Some_iff [OF assms(1)] by (auto simp: key_of_def)
  then show "view s' key = view s key" using v by simp
qed

text \<open>How the map changes when one linked item comes, goes or changes.\<close>

lemma view_same:
  assumes "cache_inv_L L e s" and "cache_inv_L L' e s'" and "linked_items s' = linked_items s"
    and "\<And>a. a \<in> linked_items s \<Longrightarrow> key_of s' a = key_of s a \<and> entry_of s' a = entry_of s a"
  shows "view s' = view s"
proof (intro ext option_eqI)
  fix key v
  show "view s' key = Some v \<longleftrightarrow> view s key = Some v"
    using assms(3,4) by (auto simp: view_Some_iff [OF assms(1)] view_Some_iff [OF assms(2)])
qed

lemma view_remove:
  assumes "cache_inv_L L e s" and "cache_inv_L L' e s'" and "it \<in> linked_items s"
    and "linked_items s' = linked_items s - {it}"
    and "\<And>a. a \<in> linked_items s' \<Longrightarrow> key_of s' a = key_of s a \<and> entry_of s' a = entry_of s a"
  shows "view s' = (view s)(key_of s it := None)"
proof (intro ext option_eqI)
  fix key v
  have eq: "view s' key = Some v \<longleftrightarrow> (\<exists>a \<in> linked_items s - {it}. key_of s a = key \<and> entry_of s a = v)"
    unfolding view_Some_iff [OF assms(2)] by (rule bex_cong) (simp_all add: assms(4,5))
  show "view s' key = Some v \<longleftrightarrow> ((view s)(key_of s it := None)) key = Some v"
  proof (cases "key = key_of s it")
    case True
    have "\<not> (\<exists>a \<in> linked_items s - {it}. key_of s a = key \<and> entry_of s a = v)"
      using linked_unique [OF assms(1) _ assms(3)] True by auto
    with eq show ?thesis using True by (simp del: bex_simps)
  next
    case False
    have "(\<exists>a \<in> linked_items s - {it}. key_of s a = key \<and> entry_of s a = v) \<longleftrightarrow> view s key = Some v"
      using False view_Some_iff [OF assms(1)] by auto
    with eq show ?thesis using False by (auto simp del: bex_simps)
  qed
qed

lemma view_add:
  assumes "cache_inv_L L e s" and "cache_inv_L L' e s'" and "index_find s (key_of s it) = None"
    and "linked_items s' = insert it (linked_items s)" and "key_of s' it = key_of s it"
    and "\<And>a. a \<in> linked_items s \<Longrightarrow> key_of s' a = key_of s a \<and> entry_of s' a = entry_of s a"
  shows "view s' = (view s)(key_of s it \<mapsto> entry_of s' it)"
proof (intro ext option_eqI)
  fix key v
  have "view s' key = Some v \<longleftrightarrow> key_of s it = key \<and> entry_of s' it = v
      \<or> (\<exists>a \<in> linked_items s. key_of s' a = key \<and> entry_of s' a = v)"
    unfolding view_Some_iff [OF assms(2)] by (simp add: assms(4,5))
  also have "(\<exists>a \<in> linked_items s. key_of s' a = key \<and> entry_of s' a = v)
      \<longleftrightarrow> (\<exists>a \<in> linked_items s. key_of s a = key \<and> entry_of s a = v)"
    by (rule bex_cong) (simp_all add: assms(6))
  finally show "view s' key = Some v \<longleftrightarrow> ((view s)(key_of s it \<mapsto> entry_of s' it)) key = Some v"
    using index_find_None [OF assms(1), of "key_of s it"] assms(3)
    unfolding fun_upd_apply by (simp add: view_Some_iff [OF assms(1)])
qed

lemma view_change:
  assumes "cache_inv_L L e s" and "cache_inv_L L' e s'" and "it \<in> linked_items s"
    and "linked_items s' = linked_items s" and "key_of s' it = key_of s it"
    and "\<And>a. a \<in> linked_items s \<Longrightarrow> a \<noteq> it \<Longrightarrow> key_of s' a = key_of s a \<and> entry_of s' a = entry_of s a"
  shows "view s' = (view s)(key_of s it \<mapsto> entry_of s' it)"
proof (intro ext option_eqI)
  fix key v
  have "view s' key = Some v \<longleftrightarrow> key_of s it = key \<and> entry_of s' it = v
      \<or> (\<exists>a \<in> linked_items s - {it}. key_of s' a = key \<and> entry_of s' a = v)"
    unfolding view_Some_iff [OF assms(2)] using assms(3-5) by auto
  also have "(\<exists>a \<in> linked_items s - {it}. key_of s' a = key \<and> entry_of s' a = v)
      \<longleftrightarrow> (\<exists>a \<in> linked_items s - {it}. key_of s a = key \<and> entry_of s a = v)"
    by (rule bex_cong) (simp_all add: assms(6))
  finally have eq: "view s' key = Some v \<longleftrightarrow> key_of s it = key \<and> entry_of s' it = v
      \<or> (\<exists>a \<in> linked_items s - {it}. key_of s a = key \<and> entry_of s a = v)" .
  show "view s' key = Some v \<longleftrightarrow> ((view s)(key_of s it \<mapsto> entry_of s' it)) key = Some v"
  proof (cases "key = key_of s it")
    case True
    have "\<not> (\<exists>a \<in> linked_items s - {it}. key_of s a = key \<and> entry_of s a = v)"
      using linked_unique [OF assms(1) _ assms(3)] True by auto
    with eq show ?thesis using True by (simp del: bex_simps)
  next
    case False
    have "(\<exists>a \<in> linked_items s - {it}. key_of s a = key \<and> entry_of s a = v) \<longleftrightarrow> view s key = Some v"
      using False view_Some_iff [OF assms(1)] by auto
    with eq show ?thesis using False by (auto simp del: bex_simps)
  qed
qed

section \<open>Allocation\<close>

lemma keeps_reuse:
  assumes inv: "cache_inv_L L e s" and it: "it \<in> linked_items s" and r: "it_refcount (items s it) = 0"
  shows "keeps s (item_reuse it s)"
proof (rule item_reuse_fields [OF inv it])
  fix h
  assume I: "items (item_reuse it s) = (items s)(it := (items s it)\<lparr>it_flags := it_flags (items s it) AND NOT ITEM_LINKED\<rparr>)"
    and R: "slabs (item_reuse it s) = slabs s" "slabclasses (item_reuse it s) = slabclasses s"
    "slabclass_max_id (item_reuse it s) = slabclass_max_id s" "heap (item_reuse it s) = heap s"
    "now (item_reuse it s) = now s" "settings (item_reuse it s) = settings s" "cas_id (item_reuse it s) = cas_id s"
  have g: "geo (item_reuse it s) = geo s" by (simp add: geo_def R)
  show ?thesis using r by (auto simp: keeps_def preserves_def linked_items_def geo_live [OF g] R I)
qed

lemma lruq_scan_Some:
  "lruq_scan s n q uit = Some it \<Longrightarrow> uit = Some it \<or> it \<in> set q \<and> it_refcount (items s it) = 0"
  by (induction s n q uit rule: lruq_scan.induct) (auto split: if_splits)

lemma item_get_from_lruq_Some:
  assumes inv: "cache_inv_L L e s" and v: "valid_id s cid" and r: "item_get_from_lruq s cid = Some it"
  shows "it \<in> linked_items s" and "it_id (items s it) = cid" and "it_refcount (items s it) = 0"
proof -
  have "cid \<le> SLABCLASS_MAX_ID" using inv v by (auto simp: cache_inv_L_def class_ok_def valid_id_def)
  moreover have "it \<in> set (item_lruq s cid)" "it_refcount (items s it) = 0"
    using r lruq_scan_Some [of s ITEM_LRUQ_MAX_TRIES "item_lruq s cid" None it]
    by (auto simp: item_get_from_lruq_def split: if_splits)
  ultimately show "it \<in> linked_items s" "it_id (items s it) = cid" "it_refcount (items s it) = 0"
    using inv v by (auto simp: cache_inv_L_def lruq_ok_def linked_items_def valid_id_def)
qed

text \<open>The choice of the item to use, without its initialisation.\<close>

definition alloc_pick :: "env \<Rightarrow> nat \<Rightarrow> cache \<Rightarrow> addr option \<times> cache" where
  "alloc_pick e cid s =
     (case item_get_from_lruq s cid of
        Some it \<Rightarrow>
          if item_expired s it then (Some it, item_reuse it (sincr cid item_expire s))
          else (case slab_get_item e cid s of
                  (Some it, s) \<Rightarrow> (Some it, s)
                | (None, s) \<Rightarrow> if evict_opt (settings s) AND EVICT_LRU \<noteq> 0
                              then (Some it, item_reuse it (sincr cid item_evict s)) else (None, s))
      | None \<Rightarrow> slab_get_item e cid s)"

lemma item_alloc_pick:
  assumes "cid \<le> SLABCLASS_MAX_ID" and "settings (snd (slab_get_item e cid s)) = settings s"
  shows "item_alloc e cid key dataflags exptime nbyte s =
     (case alloc_pick e cid s of
        (None, s) \<Rightarrow> (None, tincr THREAD_server_error s)
      | (Some it, s) \<Rightarrow> (Some it, item_alloc_done it cid key dataflags exptime nbyte s))"
proof (cases "item_get_from_lruq s cid")
  case None
  then show ?thesis using assms by (simp add: item_alloc_def alloc_pick_def Let_def)
next
  case (Some it)
  obtain r s1 where 1: "slab_get_item e cid s = (r, s1)" by fastforce
  then show ?thesis
    using assms Some by (cases r) (simp_all add: item_alloc_def alloc_pick_def Let_def)
qed

lemma alloc_pick_inv:
  assumes inv: "cache_inv_L {} e s" and full: "set (slab_table (heap s)) = active s" and env: "env_ok e s"
    and v: "valid_id s cid" and r: "alloc_pick e cid s = (res, s')"
  shows "cache_inv_L (set_option res) e s'" and "keeps s s'" and "set (slab_table (heap s')) = active s'"
    and "res = Some it \<Longrightarrow> it_id (items s' it) = cid \<and> it_refcount (items s' it) = 0"
proof -
  obtain o1 s1 where 1: "slab_get_item e cid s = (o1, s1)" by fastforce
  note S = slab_get_item_inv [OF inv full env v 1]
  have reuse: "cache_inv_L {it} e (item_reuse it (sincr cid m s0)) \<and> keeps s (item_reuse it (sincr cid m s0))
      \<and> set (slab_table (heap (item_reuse it (sincr cid m s0)))) = active (item_reuse it (sincr cid m s0))
      \<and> it_id (items (item_reuse it (sincr cid m s0)) it) = cid \<and> it_refcount (items (item_reuse it (sincr cid m s0)) it) = 0"
    if a: "cache_inv_L {} e s0" "keeps s s0" "set (slab_table (heap s0)) = active s0" "it \<in> linked_items s0"
      "it_id (items s0 it) = cid" "it_refcount (items s0 it) = 0" for it m s0
  proof -
    let ?s = "sincr cid m s0"
    have i: "cache_inv_L {} e ?s" "it \<in> linked_items ?s" "it_refcount (items ?s it) = 0" using a by simp_all
    have h: "heap ?s = heap s0" by (simp add: upd_defs)
    have k: "keeps s (item_reuse it ?s)"
      using keeps_trans [OF a(2)] keeps_trans [OF keeps_counters(1) keeps_reuse [OF i]] by blast
    show ?thesis
      by (rule item_reuse_fields [OF i(1,2)]) (use inv_item_reuse [OF i(1,2)] i(3) a k h in auto)
  qed
  have "cache_inv_L (set_option res) e s' \<and> keeps s s' \<and> set (slab_table (heap s')) = active s'
    \<and> (\<forall>it. res = Some it \<longrightarrow> it_id (items s' it) = cid \<and> it_refcount (items s' it) = 0)"
  proof (cases "item_get_from_lruq s cid")
    case None
    then show ?thesis using r S 1 by (simp add: alloc_pick_def)
  next
    case (Some it)
    note L = item_get_from_lruq_Some [OF inv v Some]
    show ?thesis
    proof (cases "item_expired s it")
      case True
      then have "res = Some it" "s' = item_reuse it (sincr cid item_expire s)"
        using r Some by (simp_all add: alloc_pick_def)
      then show ?thesis using reuse [OF inv keeps_refl full L] by simp
    next
      case nexp: False
      show ?thesis
      proof (cases o1)
        case None
        have l: "it \<in> linked_items s1" "it_id (items s1 it) = cid" "it_refcount (items s1 it) = 0"
          using S(5) [OF None] L by simp_all
        have i: "cache_inv_L {} e s1" using S(1) None by simp
        have "(res, s') = (if evict_opt (settings s1) AND EVICT_LRU \<noteq> 0
            then (Some it, item_reuse it (sincr cid item_evict s1)) else (None, s1))"
          using r Some nexp 1 None by (simp add: alloc_pick_def)
        then show ?thesis
          using reuse [OF i S(2,3) l, of item_evict] i S(2,3) by (cases "evict_opt (settings s1) AND EVICT_LRU = 0") simp_all
      next
        case (Some it')
        then show ?thesis using S r \<open>item_get_from_lruq s cid = Some it\<close> nexp 1 by (auto simp: alloc_pick_def)
      qed
    qed
  qed
  then show "cache_inv_L (set_option res) e s'" "keeps s s'" "set (slab_table (heap s')) = active s'"
    "res = Some it \<Longrightarrow> it_id (items s' it) = cid \<and> it_refcount (items s' it) = 0" by blast+
qed


text \<open>The record of a freshly allocated item.\<close>

definition alloc_item :: "bool \<Rightarrow> bytes \<Rightarrow> u32 \<Rightarrow> u32 \<Rightarrow> u32 \<Rightarrow> item \<Rightarrow> item" where
  "alloc_item uc key dataflags exptime nbyte i =
     (let i = i\<lparr>it_flags := (if uc then ITEM_CAS else 0), it_dataflags := dataflags, it_nbyte := nbyte,
                it_exptime := exptime, it_nkey := length key\<rparr>;
          i = i\<lparr>it_end := wr_bytes (it_end i) (item_key_off i) key\<rparr>
      in item_set_cas 0 i)"

lemma flags_cas: "it_flags i = (if uc then ITEM_CAS else 0) \<Longrightarrow>
    item_has_cas i = uc \<and> \<not> item_is_linked i \<and> \<not> item_is_slabbed i \<and> \<not> item_is_raligned i"
  by (simp add: flag_bit_simps)

lemma alloc_item_simps [simp]:
  "item_has_cas (alloc_item uc key d x n i) = uc" "\<not> item_is_linked (alloc_item uc key d x n i)"
  "\<not> item_is_slabbed (alloc_item uc key d x n i)" "\<not> item_is_raligned (alloc_item uc key d x n i)"
  "it_id (alloc_item uc key d x n i) = it_id i" "it_offset (alloc_item uc key d x n i) = it_offset i"
  "it_atime (alloc_item uc key d x n i) = it_atime i" "it_refcount (alloc_item uc key d x n i) = it_refcount i"
  "it_dataflags (alloc_item uc key d x n i) = d" "it_exptime (alloc_item uc key d x n i) = x"
  "it_nbyte (alloc_item uc key d x n i) = n" "it_nkey (alloc_item uc key d x n i) = length key"
  "item_key (alloc_item uc key d x n i) = key" "item_size (alloc_item uc key d x n i) = item_ntotal (length key) n uc"
proof -
  have f: "it_flags (alloc_item uc key d x n i) = (if uc then ITEM_CAS else 0)"
    by (simp add: alloc_item_def Let_def)
  note F = flags_cas [OF f]
  show "item_has_cas (alloc_item uc key d x n i) = uc" "\<not> item_is_linked (alloc_item uc key d x n i)"
    "\<not> item_is_slabbed (alloc_item uc key d x n i)" "\<not> item_is_raligned (alloc_item uc key d x n i)"
    using F by simp_all
  show "it_id (alloc_item uc key d x n i) = it_id i" "it_offset (alloc_item uc key d x n i) = it_offset i"
    "it_atime (alloc_item uc key d x n i) = it_atime i" "it_refcount (alloc_item uc key d x n i) = it_refcount i"
    "it_dataflags (alloc_item uc key d x n i) = d" "it_exptime (alloc_item uc key d x n i) = x"
    "it_nbyte (alloc_item uc key d x n i) = n" "it_nkey (alloc_item uc key d x n i) = length key"
    by (simp_all add: alloc_item_def Let_def)
  then show "item_size (alloc_item uc key d x n i) = item_ntotal (length key) n uc"
    using F by (simp add: item_size_def)
  show "item_key (alloc_item uc key d x n i) = key"
    by (simp add: alloc_item_def Let_def) (simp add: item_key_def item_key_off_def flag_defs)
qed

lemma item_alloc_done_eq:
  "item_alloc_done it cid key d x n s =
     sincr cid item_acquire (let s1 = item_acquire_refcount it s
       in s1\<lparr>items := (items s1)(it := alloc_item (use_cas (settings s)) key d x n (items s1 it))\<rparr>)"
proof -
  have "settings (item_acquire_refcount it s) = settings s"
    by (simp add: item_acquire_refcount_def slab_acquire_refcount_def Let_def upd_defs)
  then show ?thesis by (simp add: item_alloc_done_def Let_def alloc_item_def upd_item_def)
qed

lemma refcount_update_simps [simp]:
  "item_is_linked (i\<lparr>it_refcount := r\<rparr>) = item_is_linked i" "item_is_slabbed (i\<lparr>it_refcount := r\<rparr>) = item_is_slabbed i"
  "item_has_cas (i\<lparr>it_refcount := r\<rparr>) = item_has_cas i" "item_is_raligned (i\<lparr>it_refcount := r\<rparr>) = item_is_raligned i"
  "item_key (i\<lparr>it_refcount := r\<rparr>) = item_key i" "item_size (i\<lparr>it_refcount := r\<rparr>) = item_size i"
  "fits s (i\<lparr>it_refcount := r\<rparr>) = fits s i" "item_get_cas (i\<lparr>it_refcount := r\<rparr>) = item_get_cas i"
  by (simp_all add: flag_defs item_key_def item_key_off_def item_size_def fits_def item_get_cas_def)

lemma acquire_fields [simp]:
  "settings (item_acquire_refcount it s) = settings s" "now (item_acquire_refcount it s) = now s"
  "heap (item_acquire_refcount it s) = heap s" "cas_id (item_acquire_refcount it s) = cas_id s"
  "geo (item_acquire_refcount it s) = geo s" "key_of (item_acquire_refcount it s) = key_of s"
  "slabclass_max_id (item_acquire_refcount it s) = slabclass_max_id s"
  "a \<noteq> it \<Longrightarrow> items (item_acquire_refcount it s) a = items s a"
  "items (item_acquire_refcount it s) it = (items s it)\<lparr>it_refcount := it_refcount (items s it) + 1\<rparr>"
  by (auto simp: item_acquire_refcount_def slab_acquire_refcount_def Let_def upd_defs geo_def key_of_def
      item_key_def item_key_off_def flag_defs)

lemma release_fields [simp]:
  "settings (item_release_refcount it s) = settings s" "now (item_release_refcount it s) = now s"
  "heap (item_release_refcount it s) = heap s" "cas_id (item_release_refcount it s) = cas_id s"
  "geo (item_release_refcount it s) = geo s" "key_of (item_release_refcount it s) = key_of s"
  "a \<noteq> it \<Longrightarrow> items (item_release_refcount it s) a = items s a"
  "items (item_release_refcount it s) it = (items s it)\<lparr>it_refcount := it_refcount (items s it) - 1\<rparr>"
  by (auto simp: item_release_refcount_def slab_release_refcount_def Let_def upd_defs geo_def key_of_def
      item_key_def item_key_off_def flag_defs)

text \<open>An item in hand becomes a valid, unlinked item with one reference.\<close>

lemma item_alloc_done_inv:
  assumes inv: "cache_inv_L {it} e s" and cid: "it_id (items s it) = cid" and r0: "it_refcount (items s it) = 0"
    and room: "unat (sl_refcount (slabs s (item_2_slab s it))) < 65535"
    and fit: "item_ntotal (length key) n (use_cas (settings s)) \<le> slab_item_size s cid"
    and s': "s' = item_alloc_done it cid key d x n s"
  shows "cache_inv_L {} e s'" and "it \<in> live s'" and "geo s' = geo s" and "heap s' = heap s"
    and "items s' = (items s)(it := alloc_item (use_cas (settings s)) key d x n ((items s it)\<lparr>it_refcount := 1\<rparr>))"
    and "now s' = now s" and "cas_id s' = cas_id s"
proof -
  let ?s1 = "item_acquire_refcount it s"
  let ?i = "alloc_item (use_cas (settings s)) key d x n (items ?s1 it)"
  let ?s2 = "?s1\<lparr>items := (items ?s1)(it := ?i)\<rparr>"
  have eq: "s' = sincr cid item_acquire ?s2" by (simp add: s' item_alloc_done_eq Let_def)
  have l: "it \<in> live s" "\<not> item_is_linked (items s it)" "\<not> item_is_slabbed (items s it)"
    using inv by (auto simp: cache_inv_L_def no_leak_def)
  note G1 = geo_live [OF acquire_fields(5) [of it s]]
  have inv1: "cache_inv_L {it} e ?s1"
    by (rule inv_acquire [OF inv l(1,3)]) (use not_in_run [OF inv] room in auto)
  have inv2: "cache_inv_L {it} e ?s2"
    by (rule inv_content [OF inv1, of it ?i]) (use l in \<open>auto simp: G1\<close>)
  have g2: "geo ?s2 = geo s" using acquire_fields(5) [of it s] by (simp add: geo_def)
  have "slab_item_size ?s2 = slab_item_size s" by (rule geo_live(4) [OF g2])
  then have "fits ?s2 ?i" using fit cid unfolding fits_def by simp
  then have "cache_inv_L ({it} - {it}) e ?s2"
    by (intro inv_hand_remove [OF inv2]) (simp_all add: r0)
  then show "cache_inv_L {} e s'" by (simp add: eq)
  show g: "geo s' = geo s" using g2 by (simp add: eq geo_def upd_defs)
  show "it \<in> live s'" using l(1) by (simp add: geo_live [OF g])
  show "heap s' = heap s" "now s' = now s" "cas_id s' = cas_id s" by (simp_all add: eq upd_defs)
  show "items s' = (items s)(it := alloc_item (use_cas (settings s)) key d x n ((items s it)\<lparr>it_refcount := 1\<rparr>))"
    by (auto simp: eq upd_defs r0 fun_eq_iff)
qed


lemma cache_inv_iff:
  "cache_inv e s \<longleftrightarrow> cache_inv_L {} e s \<and> set (slab_table (heap s)) = active s"
  by (auto simp: cache_inv_def cache_inv_L_def heap_ok_def)

text \<open>There is room for \<open>k\<close> more references on every slab.\<close>

definition room :: "nat \<Rightarrow> cache \<Rightarrow> bool" where
  "room k s \<longleftrightarrow> (\<forall>p \<in> active s. unat (sl_refcount (slabs s p)) + k \<le> 65535)"

lemma keeps_room: "keeps s s' \<Longrightarrow> room k s \<Longrightarrow> k \<le> 65535 \<Longrightarrow> room k s'"
  by (fastforce simp: keeps_def preserves_def room_def)

text \<open>Changing an item nobody links or holds.\<close>

lemma preserves_set_item:
  assumes k: "preserves s s1" and g: "geo s2 = geo s1" and I: "items s2 = (items s1)(it := i)"
    and nl: "\<not> item_is_linked (items s1 it)" "\<not> item_is_linked i" and h: "it \<notin> live s \<or> it_refcount (items s it) = 0"
    and R: "now s2 = now s1" "cas_id s2 = cas_id s1" "max_nslab (heap s2) = max_nslab (heap s1)"
  shows "preserves s s2"
proof -
  note G = geo_live [OF g] geoD [OF g]
  have lk: "linked_items s2 = linked_items s1" using nl by (auto simp: linked_items_def G I)
  have "items s2 a = items s1 a" if "a \<in> linked_items s1" for a using that nl by (auto simp: linked_items_def I)
  moreover have "items s2 a = items s1 a" if "a \<in> live s" "it_refcount (items s a) \<noteq> 0" for a using that h by (auto simp: I)
  ultimately show ?thesis using k unfolding preserves_def by (simp add: lk G R)
qed

lemma item_alloc_inv:
  assumes inv: "cache_inv e s" and env: "env_ok e s" and v: "valid_id s cid" and room: "room 1 s"
    and fit: "item_ntotal (length key) n (use_cas (settings s)) \<le> slab_item_size s cid"
    and r: "item_alloc e cid key d x n s = (res, s')"
  shows "cache_inv e s'" and "preserves s s'" and "view s' \<subseteq>\<^sub>m view s"
    and "res = Some it \<Longrightarrow> it \<in> live s' \<and> \<not> item_is_linked (items s' it) \<and> \<not> item_is_raligned (items s' it)
      \<and> it_refcount (items s' it) = 1 \<and> it_id (items s' it) = cid \<and> key_of s' it = key
      \<and> it_nkey (items s' it) = length key \<and> it_nbyte (items s' it) = n
      \<and> it_dataflags (items s' it) = d \<and> it_exptime (items s' it) = x"
    and "res = Some it \<Longrightarrow> it \<notin> live s \<or> it_refcount (items s it) = 0"
proof -
  have inv': "cache_inv_L {} e s" "set (slab_table (heap s)) = active s" using inv by (auto simp: cache_inv_iff)
  obtain o1 s1 where 1: "alloc_pick e cid s = (o1, s1)" by fastforce
  note P = alloc_pick_inv [OF inv' env v 1]
  have "settings (snd (slab_get_item e cid s)) = settings s"
    using slab_get_item_inv(2) [OF inv' env v, of "fst (slab_get_item e cid s)" "snd (slab_get_item e cid s)"]
    by (simp add: keeps_def preserves_def)
  then have eq: "item_alloc e cid key d x n s =
     (case o1 of None \<Rightarrow> (None, tincr THREAD_server_error s1) | Some it \<Rightarrow> (Some it, item_alloc_done it cid key d x n s1))"
    using inv'(1) v by (subst item_alloc_pick) (auto simp: 1 cache_inv_L_def class_ok_def valid_id_def)
  have k1: "settings s1 = settings s" "slab_item_size s1 = slab_item_size s" using P(2) by (simp_all add: keeps_def preserves_def)
  have "cache_inv e s' \<and> preserves s s'
    \<and> (\<forall>it. res = Some it \<longrightarrow> it \<in> live s' \<and> \<not> item_is_linked (items s' it) \<and> \<not> item_is_raligned (items s' it)
      \<and> it_refcount (items s' it) = 1 \<and> it_id (items s' it) = cid \<and> key_of s' it = key
      \<and> it_nkey (items s' it) = length key \<and> it_nbyte (items s' it) = n
      \<and> it_dataflags (items s' it) = d \<and> it_exptime (items s' it) = x)
    \<and> (\<forall>it. res = Some it \<longrightarrow> it \<notin> live s \<or> it_refcount (items s it) = 0)"
  proof (cases o1)
    case None
    then have s': "s' = tincr THREAD_server_error s1" "res = None" using r eq by simp_all
    have "preserves s s'" using P(2) keeps_trans keeps_counters(3) unfolding s' keeps_def by blast
    then show ?thesis using P(1,3) None s' by (simp add: cache_inv_iff) (simp add: upd_defs)
  next
    case (Some it)
    then have s': "s' = item_alloc_done it cid key d x n s1" "res = Some it" using r eq by simp_all
    have id: "it_id (items s1 it) = cid" "it_refcount (items s1 it) = 0" using P(4) Some by simp_all
    have inv1: "cache_inv_L {it} e s1" using P(1) Some by simp
    have lv: "it \<in> live s1" "\<not> item_is_linked (items s1 it)" using inv1 by (auto simp: cache_inv_L_def no_leak_def)
    have "chunk_ok s1" using inv1 by (simp add: cache_inv_L_def)
    then have "unat (sl_refcount (slabs s1 (item_2_slab s1 it))) < 65535"
      using keeps_room [OF P(2) room] live_slab(1) [OF _ lv(1)] by (auto simp: room_def)
    note A = item_alloc_done_inv [OF inv1 id this fit [folded k1] s'(1)]
    note G = geo_live [OF A(3)] geoD [OF A(3)]
    have held: "it \<notin> live s \<or> it_refcount (items s it) = 0" using P(2) id(2) by (auto simp: keeps_def preserves_def)
    have "preserves s s'"
      by (rule preserves_set_item [OF _ A(3,5) lv(2) _ held]) (use P(2) A in \<open>simp_all add: keeps_def\<close>)
    then show ?thesis
      using A P(3) id held by (simp add: cache_inv_iff s'(2) G key_of_def)
  qed
  then show "cache_inv e s'" "preserves s s'"
    "res = Some it \<Longrightarrow> it \<in> live s' \<and> \<not> item_is_linked (items s' it) \<and> \<not> item_is_raligned (items s' it)
      \<and> it_refcount (items s' it) = 1 \<and> it_id (items s' it) = cid \<and> key_of s' it = key
      \<and> it_nkey (items s' it) = length key \<and> it_nbyte (items s' it) = n
      \<and> it_dataflags (items s' it) = d \<and> it_exptime (items s' it) = x"
    "res = Some it \<Longrightarrow> it \<notin> live s \<or> it_refcount (items s it) = 0"
    by blast+
  then show "view s' \<subseteq>\<^sub>m view s" using preserves_view [OF inv'(1), of "{}" s'] by (simp add: cache_inv_iff)
qed


section \<open>Operations on a single item\<close>

text \<open>An operation on the item \<open>it\<close> leaves the other items and the slabs alone.\<close>

definition only_it :: "addr \<Rightarrow> cache \<Rightarrow> cache \<Rightarrow> bool" where
  "only_it it s s' \<longleftrightarrow> geo s' = geo s \<and> (\<forall>a. a \<noteq> it \<longrightarrow> items s' a = items s a) \<and> now s' = now s
     \<and> slab_table (heap s') = slab_table (heap s) \<and> max_nslab (heap s') = max_nslab (heap s)"

definition same_content :: "item \<Rightarrow> item \<Rightarrow> bool" where
  "same_content i j \<longleftrightarrow> item_has_cas i = item_has_cas j \<and> item_is_raligned i = item_is_raligned j
     \<and> it_nkey i = it_nkey j \<and> it_nbyte i = it_nbyte j \<and> it_end i = it_end j \<and> it_dataflags i = it_dataflags j
     \<and> it_exptime i = it_exptime j \<and> it_id i = it_id j \<and> it_offset i = it_offset j \<and> it_cas i = it_cas j"

lemma same_content_refl [simp]: "same_content i i"
  by (simp add: same_content_def)

lemma same_content_flags [simp]:
  "same_content (i\<lparr>it_flags := it_flags i OR ITEM_LINKED\<rparr>) j = same_content i j"
  "same_content (i\<lparr>it_flags := it_flags i AND NOT ITEM_LINKED\<rparr>) j = same_content i j"
  "same_content (i\<lparr>it_flags := it_flags i OR ITEM_SLABBED\<rparr>) j = same_content i j"
  "same_content (i\<lparr>it_refcount := r\<rparr>) j = same_content i j"
  by (simp_all add: same_content_def)

lemma same_content_key: "same_content i j \<Longrightarrow> item_key i = item_key j"
  by (simp add: same_content_def item_key_def item_key_off_def)

lemma same_content_entry:
  "same_content (items s' a) (items s a) \<Longrightarrow> slab_item_size s' = slab_item_size s \<Longrightarrow> entry_of s' a = entry_of s a"
  by (simp add: same_content_def entry_of_def item_value_def item_data_def item_get_cas_def Let_def)

lemma only_it_trans: "only_it it s s' \<Longrightarrow> only_it it s' s'' \<Longrightarrow> only_it it s s''"
  by (simp add: only_it_def)

lemma only_it_counters [simp]: "only_it it s (sincr_by cid m d s')= only_it it s s'"
  by (simp add: only_it_def geo_def upd_defs)

lemma only_it_other:
  assumes "only_it it s s'" and "a \<noteq> it"
  shows "key_of s' a = key_of s a" and "entry_of s' a = entry_of s a"
  using assms entry_cong [of s' a s] geo_live(4) [of s' s] by (simp_all add: only_it_def key_of_def)

lemma slab_put_item_fields:
  shows "only_it it s (slab_put_item it s)" and "cas_id (slab_put_item it s) = cas_id s"
    and "items (slab_put_item it s) it = (items s it)\<lparr>it_flags := it_flags (items s it) OR ITEM_SLABBED\<rparr>"
    and "slabs (slab_put_item it s) = slabs s" and "heap (slab_put_item it s) = heap s"
  by (auto simp: only_it_def slab_put_item_def Let_def upd_defs geo_def)

lemma item_reuse_only:
  assumes inv: "cache_inv_L L e s" and it: "it \<in> linked_items s"
  shows "only_it it s (item_reuse it s)" and "cas_id (item_reuse it s) = cas_id s"
    and "items (item_reuse it s) it = (items s it)\<lparr>it_flags := it_flags (items s it) AND NOT ITEM_LINKED\<rparr>"
    and "slabs (item_reuse it s) = slabs s" and "heap (item_reuse it s) = heap s"
  by (rule item_reuse_fields [OF inv it]; simp add: only_it_def geo_def)+

lemma item_unlink_fields:
  assumes inv: "cache_inv_L L e s" and it: "it \<in> linked_items s" and s': "s' = item_unlink_op it s"
  shows "only_it it s s'" and "cas_id s' = cas_id s" and "same_content (items s' it) (items s it)"
    and "it_refcount (items s' it) = it_refcount (items s it)" and "\<not> item_is_linked (items s' it)"
    and "slabs s' = slabs s" and "heap s' = heap s"
proof -
  let ?s1 = "sincr (it_id (items s it)) item_unlink s"
  have lk: "item_is_linked (items s it)" using it by (simp add: linked_items_def)
  have i: "cache_inv_L L e ?s1" "it \<in> linked_items ?s1" using inv it by simp_all
  note R = item_reuse_only [OF i]
  note P = slab_put_item_fields [of it "item_reuse it ?s1"]
  have s1: "only_it it s ?s1" "cas_id ?s1 = cas_id s" "slabs ?s1 = slabs s" "heap ?s1 = heap s"
    by (simp add: only_it_def geo_def upd_defs) (simp_all add: upd_defs)
  have o: "only_it it s (item_reuse it ?s1)" by (rule only_it_trans [OF s1(1) R(1)])
  have eq: "s' = (if it_refcount (items s it) = 0 then slab_put_item it (item_reuse it ?s1) else item_reuse it ?s1)"
    by (simp add: s' item_unlink_op_linked [OF lk] Let_def R(3))
  show "only_it it s s'" using o only_it_trans [OF o P(1)] by (simp add: eq)
  show "cas_id s' = cas_id s" "slabs s' = slabs s" "heap s' = heap s" using R P s1 by (simp_all add: eq)
  show "same_content (items s' it) (items s it)" by (simp add: eq P(3) R(3) same_content_def flag_bit_simps)
  show "it_refcount (items s' it) = it_refcount (items s it)" "\<not> item_is_linked (items s' it)"
    by (simp_all add: eq P(3) R(3) flag_bit_simps)
qed

lemma item_unlink_view:
  assumes inv: "cache_inv_L L e s" and it: "it \<in> linked_items s" and s': "s' = item_unlink_op it s"
  shows "cache_inv_L L e s'" and "linked_items s' = linked_items s - {it}"
    and "view s' = (view s)(key_of s it := None)"
proof -
  note F = item_unlink_fields [OF inv it s']
  have lv: "it \<in> live s" using it by (simp add: linked_items_def)
  show inv': "cache_inv_L L e s'" using inv_item_unlink [OF inv lv] by (simp add: s')
  have g: "geo s' = geo s" and I: "\<And>a. a \<noteq> it \<Longrightarrow> items s' a = items s a" using F(1) by (simp_all add: only_it_def)
  have "item_is_linked (items s' a) \<longleftrightarrow> item_is_linked (items s a) \<and> a \<noteq> it" for a
    using I F(5) by (cases "a = it") auto
  then show lk: "linked_items s' = linked_items s - {it}" by (auto simp: linked_items_def geo_live [OF g])
  show "view s' = (view s)(key_of s it := None)"
    by (rule view_remove [OF inv inv' it lk]) (use only_it_other [OF F(1)] lk in auto)
qed

lemma acquire_only: "only_it it s (item_acquire_refcount it s)" "same_content (items (item_acquire_refcount it s) it) (items s it)"
  by (simp_all add: only_it_def)

lemma release_only: "only_it it s (item_release_refcount it s)" "same_content (items (item_release_refcount it s) it) (items s it)"
  by (simp_all add: only_it_def)

text \<open>An operation that keeps the content and the link of its item keeps the view.\<close>

lemma only_it_view:
  assumes "cache_inv_L L e s" and "cache_inv_L L' e s'" and o: "only_it it s s'"
    and c: "same_content (items s' it) (items s it)" and l: "item_is_linked (items s' it) = item_is_linked (items s it)"
  shows "linked_items s' = linked_items s" and "view s' = view s"
proof -
  have g: "geo s' = geo s" and I: "\<And>a. a \<noteq> it \<Longrightarrow> items s' a = items s a" using o by (simp_all add: only_it_def)
  have "item_is_linked (items s' a) = item_is_linked (items s a)" for a using I l by (cases "a = it") auto
  then show lk: "linked_items s' = linked_items s" by (simp add: linked_items_def geo_live [OF g])
  have "key_of s' a = key_of s a \<and> entry_of s' a = entry_of s a" for a
    using only_it_other [OF o] same_content_key [OF c] same_content_entry [OF c geo_live(4) [OF g]]
    by (cases "a = it") (auto simp: key_of_def)
  then show "view s' = view s" by (intro view_same [OF assms(1,2) lk])
qed


lemma item_remove_view:
  assumes inv: "cache_inv_L L e s" and it: "it \<in> live s" "it \<notin> L" and r: "it_refcount (items s it) \<noteq> 0"
    and s': "s' = item_remove_op it s"
  shows "cache_inv_L L e s'" and "only_it it s s'" and "same_content (items s' it) (items s it)"
    and "item_is_linked (items s' it) = item_is_linked (items s it)" and "linked_items s' = linked_items s"
    and "view s' = view s" and "cas_id s' = cas_id s" and "heap s' = heap s"
    and "it_refcount (items s' it) = it_refcount (items s it) - 1"
proof -
  let ?s1 = "item_release_refcount it s"
  note P = slab_put_item_fields [of it ?s1]
  have eq: "s' = (if it_refcount (items s it) = 1 \<and> \<not> item_is_linked (items s it) then slab_put_item it ?s1 else ?s1)"
    using r by (simp add: s' item_remove_op_def Let_def item_free_op_def)
  show inv': "cache_inv_L L e s'" unfolding s' by (rule inv_item_remove [OF inv it]) (use r in simp)
  show o: "only_it it s s'" using release_only(1) [of it s] only_it_trans [OF _ P(1)] by (simp add: eq)
  show c: "same_content (items s' it) (items s it)" by (simp add: eq P(3) same_content_def flag_bit_simps)
  show l: "item_is_linked (items s' it) = item_is_linked (items s it)" by (simp add: eq P(3) flag_bit_simps)
  show "linked_items s' = linked_items s" "view s' = view s" using only_it_view [OF inv inv' o c l] .
  show "cas_id s' = cas_id s" "heap s' = heap s" by (simp_all add: eq P)
  show "it_refcount (items s' it) = it_refcount (items s it) - 1" by (simp add: eq P(3))
qed

text \<open>The cas id the next link or in-place change gets.\<close>

definition next_cas :: "cache \<Rightarrow> u64" where
  "next_cas s = (if use_cas (settings s) then cas_id s + 1 else 0)"

lemma linked_item_get_cas:
  "item_has_cas (items s it) = use_cas (settings s) \<Longrightarrow> item_get_cas (linked_item s it) = next_cas s"
  by (simp add: item_get_cas_def) (simp add: linked_item_def item_set_cas_def next_cas_def)

lemma item_link_view:
  assumes inv: "cache_inv_L L e s" and it: "it \<in> live s" "it \<notin> L" "\<not> item_is_linked (items s it)"
    and r: "it_refcount (items s it) \<noteq> 0" and new: "index_find s (key_of s it) = None"
    and s': "s' = item_link_op e it s"
  shows "cache_inv_L L e s'" and "only_it it s s'" and "linked_items s' = insert it (linked_items s)"
    and "view s' = (view s)(key_of s it \<mapsto> (entry_of s it)\<lparr>en_cas := next_cas s\<rparr>)"
    and "cas_id s' = (if use_cas (settings s) then cas_id s + 1 else cas_id s)"
    and "it_refcount (items s' it) = it_refcount (items s it)"
    and "key_of s' = key_of s" and "entry_of s' it = (entry_of s it)\<lparr>en_cas := next_cas s\<rparr>"
proof -
  have p: "item_2_slab s it \<in> active s" "distinct (slab_lruq (heap s))"
    using inv live_slab(1) [of s it] it by (auto simp: cache_inv_L_def heap_ok_def)
  note F = item_link_op_fields [OF p, of e, folded s']
  show inv': "cache_inv_L L e s'" using inv_item_link [OF inv it r new] by (simp add: s')
  show o: "only_it it s s'" using F by (simp add: only_it_def)
  show lk: "linked_items s' = insert it (linked_items s)"
    using it(1) by (auto simp: linked_items_def geo_live [OF F(3)] F(1) split: if_splits)
  show k: "key_of s' = key_of s" by (auto simp: key_of_def F(1))
  have "fits s (items s it)" using inv it(1,2) r by (auto simp: cache_inv_L_def fit_ok_def)
  then have c: "item_get_cas (linked_item s it) = next_cas s" by (simp add: fits_def linked_item_get_cas)
  show en: "entry_of s' it = (entry_of s it)\<lparr>en_cas := next_cas s\<rparr>"
    using c geo_live(4) [OF F(3)] by (simp add: entry_of_def item_value_def item_data_def F(1) Let_def)
  have "view s' = (view s)(key_of s it \<mapsto> entry_of s' it)"
  proof (rule view_add [OF inv inv' new lk])
    show "key_of s' it = key_of s it" by (simp add: k)
    fix a assume "a \<in> linked_items s"
    then have "a \<noteq> it" using it(3) by (auto simp: linked_items_def)
    then show "key_of s' a = key_of s a \<and> entry_of s' a = entry_of s a" using only_it_other [OF o] by simp
  qed
  then show "view s' = (view s)(key_of s it \<mapsto> (entry_of s it)\<lparr>en_cas := next_cas s\<rparr>)" by (simp add: en)
  show "cas_id s' = (if use_cas (settings s) then cas_id s + 1 else cas_id s)"
    "it_refcount (items s' it) = it_refcount (items s it)" by (simp_all add: F)
qed

section \<open>Lookup\<close>

text \<open>An item that a lookup treats as absent: expired, or older than the last flush.\<close>

definition item_dead :: "cache \<Rightarrow> addr \<Rightarrow> bool" where
  "item_dead s it \<longleftrightarrow> it_exptime (items s it) \<noteq> 0 \<and> it_exptime (items s it) \<le> now s \<or> item_stale s it"

text \<open>What a client sees under a key.\<close>

definition lookup :: "cache \<Rightarrow> bytes \<rightharpoonup> entry" where
  "lookup s key = (case index_find s key of None \<Rightarrow> None | Some it \<Rightarrow> if item_dead s it then None else Some (entry_of s it))"

lemma lookup_le_view: "lookup s \<subseteq>\<^sub>m view s"
  by (auto simp: map_le_def lookup_def view_def split: option.splits if_splits)

lemma item_get_op_eq:
  "item_get_op key s =
     (case index_find s key of
        None \<Rightarrow> (None, s)
      | Some it \<Rightarrow> if item_dead s it
          then (None, sincr (it_id (items (item_unlink_op it s) it)) item_expire (item_unlink_op it s))
          else (Some it, item_acquire_refcount it s))"
  by (simp add: item_get_op_def item_dead_def Let_def split: option.split)

lemma view_counters [simp]:
  "view (sincr_by cid m d s) = view s" "key_of (sincr_by cid m d s) = key_of s"
  "entry_of (sincr_by cid m d s) = entry_of s" "index_find (sincr_by cid m d s) = index_find s"
proof -
  show k: "key_of (sincr_by cid m d s) = key_of s" by (simp add: key_of_def fun_eq_iff)
  show e: "entry_of (sincr_by cid m d s) = entry_of s"
    by (intro ext entry_cong) (simp_all add: slab_item_size_def fun_eq_iff upd_defs)
  show f: "index_find (sincr_by cid m d s) = index_find s"
    by (simp add: fun_eq_iff index_find_def k) (simp add: upd_defs)
  show "view (sincr_by cid m d s) = view s" by (simp add: fun_eq_iff view_def e f)
qed

end
