(* ===== verification/McStore.thy ===== *)
theory McStore
  imports McItemInv
begin

text \<open>
  The storage commands refine operations on the map from keys to entries: get, set, add, replace,
  cas and delete do to the view of the cache what the protocol says, on every branch, and keep the
  cache invariant.
\<close>

section \<open>Lookup\<close>

text \<open>A caller's item: allocated, filled in and referenced, not yet linked.\<close>

definition pending :: "cache \<Rightarrow> addr \<Rightarrow> bool" where
  "pending s it \<longleftrightarrow> it \<in> live s \<and> it_refcount (items s it) \<noteq> 0 \<and> \<not> item_is_linked (items s it)"

text \<open>What a lookup leaves behind when it finds nothing.\<close>

lemma item_get_None:
  assumes inv: "cache_inv e s" and r: "item_get_op key s = (None, s')"
  shows "cache_inv e s'" and "lookup s key = None" and "view s' = (view s)(key := None)"
    and "index_find s' key = None"
    and "cas_id s' = cas_id s" and "settings s' = settings s" and "now s' = now s"
    and "live s' = live s" and "a \<notin> linked_items s \<Longrightarrow> items s' a = items s a"
    and "pending s a \<Longrightarrow> pending s' a" and "slabs s' = slabs s"
    and "a \<notin> linked_items s \<Longrightarrow> entry_of s' a = entry_of s a"
proof -
  have inv': "cache_inv_L {} e s" and t: "set (slab_table (heap s)) = active s" using inv by (auto simp: cache_inv_iff)
  have ALL: "cache_inv e s' \<and> lookup s key = None \<and> view s' = (view s)(key := None)
    \<and> cas_id s' = cas_id s \<and> settings s' = settings s \<and> now s' = now s \<and> live s' = live s
    \<and> (\<forall>a. a \<notin> linked_items s \<longrightarrow> items s' a = items s a) \<and> slabs s' = slabs s
    \<and> slab_item_size s' = slab_item_size s"
  proof (cases "index_find s key")
    case None
    then have "s' = s" using r by (simp add: item_get_op_eq)
    moreover have "view s = (view s)(key := None)" using None by (auto simp: view_def)
    ultimately show ?thesis using inv None by (simp add: lookup_def)
  next
    case (Some it)
    let ?s1 = "item_unlink_op it s"
    have it: "it \<in> linked_items s" "key_of s it = key" using Some index_find_iff [OF inv'] by auto
    have d: "item_dead s it" and s': "s' = sincr (it_id (items ?s1 it)) item_expire ?s1"
      using r Some by (auto simp: item_get_op_eq split: if_splits)
    note U = item_unlink_view [OF inv' it(1) refl] and F = item_unlink_fields [OF inv' it(1) refl]
    have g: "geo ?s1 = geo s" using F(1) by (simp add: only_it_def)
    have "lookup s key = None" using Some d by (simp add: lookup_def)
    moreover have "cache_inv e s'" using U(1) F(7) t by (simp add: cache_inv_iff s') (simp add: upd_defs)
    moreover have "view s' = (view s)(key := None)" by (simp add: s' U(3) it(2))
    moreover have "cas_id s' = cas_id s" "settings s' = settings s" "now s' = now s" "live s' = live s" "slabs s' = slabs s"
      "slab_item_size s' = slab_item_size s"
      using F(1,2,6) geoD(6) [OF g] geo_live(1,4) [OF g]
      by (simp_all add: only_it_def s') (simp_all add: upd_defs slab_item_size_def fun_eq_iff)
    moreover have "items s' a = items s a" if "a \<notin> linked_items s" for a
      using that it(1) F(1) by (auto simp: only_it_def s')
    ultimately show ?thesis by blast
  qed
  then show i: "cache_inv e s'" and "lookup s key = None" and v: "view s' = (view s)(key := None)"
    and "cas_id s' = cas_id s" and "settings s' = settings s" and "now s' = now s" and l: "live s' = live s"
    and "slabs s' = slabs s"
    by blast+
  show I: "a \<notin> linked_items s \<Longrightarrow> items s' a = items s a" for a using ALL by blast
  then show "a \<notin> linked_items s \<Longrightarrow> entry_of s' a = entry_of s a" using ALL entry_cong by blast
  show "pending s a \<Longrightarrow> pending s' a" using I [of a] l by (auto simp: pending_def linked_items_def)
  have "view s' key = None" using v by simp
  then show "index_find s' key = None" by (simp add: view_def)
qed

lemma item_get_Some:
  assumes inv: "cache_inv e s" and room: "room 1 s" and r: "item_get_op key s = (Some it, s')"
  shows "cache_inv e s'" and "lookup s key = Some (entry_of s it)" and "view s' = view s"
    and "it \<in> linked_items s'" and "key_of s' = key_of s" and "key_of s it = key"
    and "it_refcount (items s' it) \<noteq> 0" and "s' = item_acquire_refcount it s" and "\<not> item_dead s it"
    and "entry_of s' a = entry_of s a" and "linked_items s' = linked_items s"
    and "pending s a \<Longrightarrow> pending s' a \<and> a \<noteq> it \<and> items s' a = items s a" and "it_refcount (items s' it) \<noteq> 0"
proof -
  have inv': "cache_inv_L {} e s" and t: "set (slab_table (heap s)) = active s" using inv by (auto simp: cache_inv_iff)
  have f: "index_find s key = Some it" and nd: "\<not> item_dead s it" and s': "s' = item_acquire_refcount it s"
    using r by (auto simp: item_get_op_eq split: option.splits if_splits)
  have it: "it \<in> linked_items s" "key_of s it = key" using f index_find_iff [OF inv'] by auto
  have lv: "it \<in> live s" "item_is_linked (items s it)" using it(1) by (simp_all add: linked_items_def)
  have cok: "chunk_ok s" using inv' by (simp add: cache_inv_L_def)
  have rm: "unat (sl_refcount (slabs s (item_2_slab s it))) < 65535"
    using room live_slab(1) [OF cok lv(1)] by (auto simp: room_def)
  have "fits s (items s it)" using inv' lv by (auto simp: cache_inv_L_def fit_ok_def)
  then have inv1: "cache_inv_L {} e s'"
    unfolding s' by (intro inv_acquire [OF inv' lv(1) linked_not_slabbed [OF inv' it(1)] _ rm])
      (use not_in_run [OF inv'] lv(2) in auto)
  then show "cache_inv e s'" using t by (simp add: cache_inv_iff s')
  show "lookup s key = Some (entry_of s it)" using f nd by (simp add: lookup_def)
  note V = only_it_view [OF inv' inv1 acquire_only(1) [of it s, folded s'] acquire_only(2) [of it s, folded s']]
  show "view s' = view s" and lk: "linked_items s' = linked_items s" using V by (simp_all add: s')
  show "it \<in> linked_items s'" using lk it by simp
  show "key_of s' = key_of s" "key_of s it = key" "s' = item_acquire_refcount it s" "\<not> item_dead s it"
    using it nd by (simp_all add: s')
  have "unat (it_refcount (items s it)) < 65535" using refcount_le_slab [OF inv' lv(1)] rm by simp
  then have "unat (it_refcount (items s it) + 1) \<noteq> 0" by (simp add: unat_u16_Suc)
  then have "it_refcount (items s it) + 1 \<noteq> 0" by (metis unat_0)
  then show "it_refcount (items s' it) \<noteq> 0" "it_refcount (items s' it) \<noteq> 0" by (simp_all add: s')
  show "entry_of s' a = entry_of s a"
    using only_it_other(2) [OF acquire_only(1), of a it s] same_content_entry [OF acquire_only(2) geo_live(4) [OF acquire_fields(5)]]
    by (cases "a = it") (auto simp: s')
  show "pending s a \<Longrightarrow> pending s' a \<and> a \<noteq> it \<and> items s' a = items s a"
    using lv by (auto simp: pending_def s' geo_live [OF acquire_fields(5)])
qed

text \<open>A lookup answers exactly what \<open>lookup\<close> says.\<close>

lemma item_get_lookup:
  assumes "cache_inv e s" and "room 1 s"
  shows "lookup s key = map_option (entry_of s) (fst (item_get_op key s))"
proof (cases "item_get_op key s")
  case (Pair r s1)
  then show ?thesis
    using item_get_None(2) [OF assms(1)] item_get_Some(2) [OF assms] by (cases r) auto
qed

section \<open>Linking a new item, with and without an old one\<close>

lemma item_link_store:
  assumes inv: "cache_inv e s" and p: "pending s it" and new: "index_find s (key_of s it) = None"
  shows "cache_inv e (item_link_op e it s)"
    and "view (item_link_op e it s) = (view s)(key_of s it \<mapsto> (entry_of s it)\<lparr>en_cas := next_cas s\<rparr>)"
proof -
  have inv': "cache_inv_L {} e s" "set (slab_table (heap s)) = active s" using inv by (auto simp: cache_inv_iff)
  note L = item_link_view [OF inv'(1) _ _ _ _ new refl]
  have p': "it \<in> live s" "it \<notin> {}" "\<not> item_is_linked (items s it)" "it_refcount (items s it) \<noteq> 0"
    using p by (auto simp: pending_def)
  show "view (item_link_op e it s) = (view s)(key_of s it \<mapsto> (entry_of s it)\<lparr>en_cas := next_cas s\<rparr>)"
    by (rule L(4) [OF p'])
  show "cache_inv e (item_link_op e it s)"
    using L(1,2) [OF p'] inv'(2) by (auto simp: cache_inv_iff only_it_def dest: geoD(1))
qed

text \<open>Relinking: the old item of the key goes, the new one takes its place, the old one is released.\<close>

lemma item_relink_store:
  assumes inv: "cache_inv e s" and p: "pending s it" and oit: "oit \<in> linked_items s" "it_refcount (items s oit) \<noteq> 0"
    and key: "key_of s oit = key_of s it"
  shows "cache_inv e (item_remove_op oit (item_relink e oit it s))"
    and "view (item_remove_op oit (item_relink e oit it s)) = (view s)(key_of s it \<mapsto> (entry_of s it)\<lparr>en_cas := next_cas s\<rparr>)"
    and "it \<in> live (item_remove_op oit (item_relink e oit it s))"
    and "it_refcount (items (item_remove_op oit (item_relink e oit it s)) it) = it_refcount (items s it)"
proof -
  have inv': "cache_inv_L {} e s" and t: "set (slab_table (heap s)) = active s" using inv by (auto simp: cache_inv_iff)
  have ne: "it \<noteq> oit" using p oit by (auto simp: pending_def linked_items_def)
  define s1 where "s1 = item_unlink_op oit s"
  define s2 where "s2 = item_link_op e it s1"
  note U = item_unlink_view [OF inv' oit(1) s1_def] and F = item_unlink_fields [OF inv' oit(1) s1_def]
  have g1: "geo s1 = geo s" and I1: "items s1 it = items s it" using F(1) ne by (simp_all add: only_it_def)
  have k1: "key_of s1 it = key_of s it" "entry_of s1 it = entry_of s it"
    using only_it_other [OF F(1) ne] by simp_all
  have p1: "it \<in> live s1" "it \<notin> {}" "\<not> item_is_linked (items s1 it)" "it_refcount (items s1 it) \<noteq> 0"
    using p by (simp_all add: pending_def geo_live [OF g1] I1)
  have "view s1 (key_of s1 it) = None" using U(3) key k1 by simp
  then have new: "index_find s1 (key_of s1 it) = None" by (simp add: view_def)
  note L = item_link_view [OF U(1) p1 new s2_def]
  have g2: "geo s2 = geo s" and I2: "items s2 oit = items s1 oit" using L(2) g1 ne by (simp_all add: only_it_def)
  have oit2: "oit \<in> live s2" "it_refcount (items s2 oit) \<noteq> 0"
    using oit F(4) by (simp_all add: geo_live [OF g2] I2 linked_items_def)
  note R = item_remove_view [OF L(1) oit2(1) _ oit2(2) refl]
  have eq: "item_remove_op oit (item_relink e oit it s) = item_remove_op oit s2"
    by (simp add: item_relink_def s1_def s2_def)
  have nc: "next_cas s1 = next_cas s" using F(2) geoD(6) [OF g1] by (simp add: next_cas_def)
  show "view (item_remove_op oit (item_relink e oit it s)) = (view s)(key_of s it \<mapsto> (entry_of s it)\<lparr>en_cas := next_cas s\<rparr>)"
    using R(6) L(4) U(3) key k1 nc by (simp add: eq)
  have g3: "geo (item_remove_op oit s2) = geo s" using R(2) g2 by (simp add: only_it_def)
  show "it \<in> live (item_remove_op oit (item_relink e oit it s))" using p by (simp add: eq geo_live [OF g3] pending_def)
  show "it_refcount (items (item_remove_op oit (item_relink e oit it s)) it) = it_refcount (items s it)"
    using R(2) ne L(6) I1 by (simp add: eq only_it_def)
  have "slab_table (heap s2) = slab_table (heap s)" using F(1) L(2) by (simp add: only_it_def)
  then show "cache_inv e (item_remove_op oit (item_relink e oit it s))"
    using R(1,8) t geoD(1) [OF g2] by (simp add: cache_inv_iff eq)
qed


section \<open>The storage commands\<close>

definition stored :: "cache \<Rightarrow> addr \<Rightarrow> entry" where
  "stored s it = (entry_of s it)\<lparr>en_cas := next_cas s\<rparr>"

lemma key_of_pending_get:
  assumes "cache_inv e s" and "room 1 s" and "pending s it" and "item_get_op key s = (r, s')"
  shows "key_of s' it = key_of s it" and "entry_of s' it = entry_of s it" and "next_cas s' = next_cas s"
proof -
  have n: "it \<notin> linked_items s" using assms(3) by (auto simp: pending_def linked_items_def)
  have "key_of s' it = key_of s it \<and> entry_of s' it = entry_of s it \<and> next_cas s' = next_cas s"
  proof (cases r)
    case None
    note N = item_get_None [OF assms(1) assms(4) [unfolded None]]
    show ?thesis using N(5,6) N(9) [OF n] N(12) [OF n] by (simp add: key_of_def next_cas_def)
  next
    case (Some oit)
    note S = item_get_Some [OF assms(1,2) assms(4) [unfolded Some]]
    show ?thesis using S(5,10) by (simp add: next_cas_def S(8))
  qed
  then show "key_of s' it = key_of s it" "entry_of s' it = entry_of s it" "next_cas s' = next_cas s" by blast+
qed

text \<open>The two continuations of a storage command after the lookup of its key.\<close>

lemma store_absent:
  assumes inv: "cache_inv e s" and room: "room 1 s" and p: "pending s it"
    and r: "item_get_op (key_of s it) s = (None, s1)"
  shows "cache_inv e (item_link_op e it s1)"
    and "view (item_link_op e it s1) = (view s)(key_of s it \<mapsto> stored s it)"
proof -
  note N = item_get_None [OF inv r] and K = key_of_pending_get [OF inv room p r]
  have n: "index_find s1 (key_of s1 it) = None" using N(4) K(1) by simp
  note L = item_link_store [OF N(1) N(10) [OF p] n]
  show "cache_inv e (item_link_op e it s1)" by (rule L(1))
  show "view (item_link_op e it s1) = (view s)(key_of s it \<mapsto> stored s it)"
    using L(2) N(3) K by (simp add: stored_def)
qed

lemma store_present:
  assumes inv: "cache_inv e s" and room: "room 1 s" and p: "pending s it"
    and r: "item_get_op (key_of s it) s = (Some oit, s1)"
  shows "cache_inv e (item_remove_op oit (item_relink e oit it s1))"
    and "view (item_remove_op oit (item_relink e oit it s1)) = (view s)(key_of s it \<mapsto> stored s it)"
proof -
  note S = item_get_Some [OF inv room r] and K = key_of_pending_get [OF inv room p r]
  have k: "key_of s1 oit = key_of s1 it" using S(5,6) K(1) by simp
  note R = item_relink_store [OF S(1) _ S(4,7) k]
  have p1: "pending s1 it" using S(12) [OF p] by blast
  show "cache_inv e (item_remove_op oit (item_relink e oit it s1))" by (rule R(1) [OF p1])
  show "view (item_remove_op oit (item_relink e oit it s1)) = (view s)(key_of s it \<mapsto> stored s it)"
    using R(2) [OF p1] S(3) K by (simp add: stored_def)
qed

lemma release_found:
  assumes inv: "cache_inv e s" and room: "room 1 s" and r: "item_get_op key s = (Some oit, s1)"
  shows "cache_inv e (item_remove_op oit s1)" and "view (item_remove_op oit s1) = view s"
proof -
  note S = item_get_Some [OF inv room r]
  have i: "cache_inv_L {} e s1" "set (slab_table (heap s1)) = active s1" using S(1) by (auto simp: cache_inv_iff)
  have l: "oit \<in> live s1" using S(4) by (simp add: linked_items_def)
  note R = item_remove_view [OF i(1) l _ S(7) refl]
  show "cache_inv e (item_remove_op oit s1)" using R(1,8) i(2) by (simp add: cache_inv_iff)
  show "view (item_remove_op oit s1) = view s" using R(6) S(3) by simp
qed

text \<open>
  Set stores the item of the request under its key, whether or not the key was there: the
  view of the cache changes at this key only, to the new value, flags and expiry with a fresh cas
  id, and the cache invariant holds again.
\<close>

lemma item_set_spec:
  assumes "cache_inv e s" and "room 1 s" and "pending s it"
  shows "cache_inv e (item_set e it s) \<and> view (item_set e it s) = (view s)(key_of s it \<mapsto> stored s it)"
proof (cases "item_get_op (key_of s it) s")
  case (Pair r s1)
  then show ?thesis
    using store_absent [OF assms, of s1] store_present [OF assms, of _ s1]
    by (cases r) (simp_all add: item_set_def)
qed

text \<open>
  Cas replaces the entry of its key only if the key is visible and carries the cas id given
  in the request; otherwise it reports which of the two failed, and the view changes only by
  dropping an entry that had expired.
\<close>

lemma item_cas_spec:
  assumes "cache_inv e s" and "room 1 s" and "pending s it"
  shows "case item_cas e it s of (r, s') \<Rightarrow> cache_inv e s' \<and>
    (case lookup s (key_of s it) of
       None \<Rightarrow> r = CAS_NOT_FOUND \<and> view s' = (view s)(key_of s it := None)
     | Some v \<Rightarrow>
         if en_cas v = en_cas (entry_of s it)
         then r = CAS_OK \<and> view s' = (view s)(key_of s it \<mapsto> stored s it)
         else r = CAS_EXISTS \<and> view s' = view s)"
proof (cases "item_get_op (key_of s it) s")
  case (Pair r s1)
  show ?thesis
  proof (cases r)
    case None
    then show ?thesis using item_get_None(1,2,3) [OF assms(1), of "key_of s it" s1] Pair by (simp add: item_cas_def)
  next
    case (Some oit)
    note r = Pair [unfolded Some]
    note S = item_get_Some [OF assms(1,2) r] and P = store_present [OF assms r] and R = release_found [OF assms(1,2) r]
    have "item_get_cas (items s1 a) = en_cas (entry_of s a)" for a
      using S(10) [of a] by (metis entry.select_convs(4) entry_of_def)
    then show ?thesis using S(2) P R r by (auto simp: item_cas_def)
  qed
qed

text \<open>
  Add stores the item exactly when its key is not visible, and otherwise leaves the view as it
  is.
\<close>

lemma item_add_spec:
  assumes "cache_inv e s" and "room 1 s" and "pending s it"
  shows "case item_add e it s of (r, s') \<Rightarrow> cache_inv e s' \<and>
    (if lookup s (key_of s it) = None
     then r = ADD_OK \<and> view s' = (view s)(key_of s it \<mapsto> stored s it)
     else r = ADD_EXISTS \<and> view s' = view s)"
proof (cases "item_get_op (key_of s it) s")
  case (Pair r s1)
  then show ?thesis
    using store_absent [OF assms, of s1] release_found [OF assms(1,2), of "key_of s it" _ s1]
      item_get_None(2) [OF assms(1), of "key_of s it" s1] item_get_Some(2) [OF assms(1,2), of "key_of s it" _ s1]
    by (cases r) (simp_all add: item_add_def)
qed

text \<open>
  Replace stores the item exactly when its key is visible; otherwise the only change is that
  an expired entry of the key is dropped.
\<close>

lemma item_replace_spec:
  assumes "cache_inv e s" and "room 1 s" and "pending s it"
  shows "case item_replace e it s of (r, s') \<Rightarrow> cache_inv e s' \<and>
    (if lookup s (key_of s it) = None
     then r = REPLACE_NOT_FOUND \<and> view s' = (view s)(key_of s it := None)
     else r = REPLACE_OK \<and> view s' = (view s)(key_of s it \<mapsto> stored s it))"
proof (cases "item_get_op (key_of s it) s")
  case (Pair r s1)
  then show ?thesis
    using store_present [OF assms, of _ s1] item_get_None(1-3) [OF assms(1), of "key_of s it" s1]
      item_get_Some(2) [OF assms(1,2), of "key_of s it" _ s1]
    by (cases r) (simp_all add: item_replace_def)
qed

text \<open>
  Delete removes its key and no other from the view, and reports success exactly when the key
  was visible.
\<close>

lemma item_delete_spec:
  assumes "cache_inv e s" and "room 1 s"
  shows "case item_delete key s of (r, s') \<Rightarrow> cache_inv e s'
    \<and> view s' = (view s)(key := None) \<and> (r = DELETE_OK \<longleftrightarrow> lookup s key \<noteq> None)"
proof (cases "item_get_op key s")
  case (Pair r s1)
  show ?thesis
  proof (cases r)
    case None
    then show ?thesis using item_get_None(1-3) [OF assms(1), of key s1] Pair by (simp add: item_delete_def)
  next
    case (Some it)
    note S = item_get_Some [OF assms Pair [unfolded Some]]
    have i: "cache_inv_L {} e s1" "set (slab_table (heap s1)) = active s1" using S(1) by (auto simp: cache_inv_iff)
    note U = item_unlink_view [OF i(1) S(4) refl] and F = item_unlink_fields [OF i(1) S(4) refl]
    have g: "geo (item_unlink_op it s1) = geo s1" using F(1) by (simp add: only_it_def)
    have l: "it \<in> live (item_unlink_op it s1)" "it_refcount (items (item_unlink_op it s1) it) \<noteq> 0"
      using S(4,7) F(4) by (simp_all add: geo_live [OF g] linked_items_def)
    note R = item_remove_view [OF U(1) l(1) _ l(2) refl]
    have "cache_inv e (item_remove_op it (item_unlink_op it s1))"
      using R(1,8) F(7) i(2) by (simp add: cache_inv_iff)
    moreover have "view (item_remove_op it (item_unlink_op it s1)) = (view s)(key := None)"
      using R(6) U(3) S(3,5,6) by simp
    ultimately show ?thesis using Pair Some S(2) by (simp add: item_delete_def)
  qed
qed

text \<open>
  A lookup returns an item exactly when its key is visible (present, not expired, not flushed);
  the item then carries the entry of the key and one more reference. When it returns nothing, an
  expired entry of the key is gone from the view and nothing else changed in it.
\<close>

lemma item_get_spec:
  assumes "cache_inv e s" and "room 1 s"
  shows "case item_get_op key s of (r, s') \<Rightarrow> cache_inv e s'
    \<and> map_option (entry_of s') r = lookup s key
    \<and> view s' = (if lookup s key = None then (view s)(key := None) else view s)
    \<and> (\<forall>it. r = Some it \<longrightarrow> it_refcount (items s' it) = it_refcount (items s it) + 1 \<and> key_of s' it = key)"
proof (cases "item_get_op key s")
  case (Pair r s1)
  show ?thesis
  proof (cases r)
    case None
    then show ?thesis using item_get_None(1-3) [OF assms(1), of key s1] Pair by simp
  next
    case (Some it)
    note S = item_get_Some [OF assms Pair [unfolded Some]]
    then show ?thesis using Pair Some by (auto simp: S(8))
  qed
qed

end
