(* ===== verification/McFlush.thy ===== *)
theory McFlush
  imports McStore
begin

text \<open>
  Touching an item moves it to the recent end of its lru queue; \<^verbatim>\<open>flush_all\<close> unlinks, from the
  recent end of every queue, the items accessed at or after \<^verbatim>\<open>oldest_live\<close>. The flush relies on
  the queues being sorted by access time, which is part of the cache invariant; the items it
  leaves are those that a lookup treats as absent.
\<close>

section \<open>Touch\<close>

lemma item_unlink_q_fields:
  "items (item_unlink_q it s) = items s" "slabs (item_unlink_q it s) = slabs s"
  "slabclasses (item_unlink_q it s) = slabclasses s" "slabclass_max_id (item_unlink_q it s) = slabclass_max_id s"
  "heap (item_unlink_q it s) = heap s" "hashtbl (item_unlink_q it s) = hashtbl s" "now (item_unlink_q it s) = now s"
  "settings (item_unlink_q it s) = settings s" "nmalloc (item_unlink_q it s) = nmalloc s"
  "ub (item_unlink_q it s) = ub s" "cas_id (item_unlink_q it s) = cas_id s"
  "item_lruq (item_unlink_q it s) = (item_lruq s)(it_id (items s it) := remove1 it (item_lruq s (it_id (items s it))))"
  by (simp_all add: item_unlink_q_def Let_def upd_defs)

lemma item_touch_inv:
  assumes inv: "cache_inv_L L e s" and it: "it \<in> linked_items s"
    and s': "s' = item_link_q it b (item_unlink_q it s)"
  shows "cache_inv_L L e s'" and "only_it it s s'" and "same_content (items s' it) (items s it)"
    and "item_is_linked (items s' it)"
proof -
  let ?c = "it_id (items s it)" and ?s1 = "item_unlink_q it s"
  note inv' = inv [unfolded cache_inv_L_def] and U = item_unlink_q_fields [of it s]
  have lv: "it \<in> live s" "item_is_linked (items s it)" using it by (simp_all add: linked_items_def)
  have p: "item_2_slab s it = item_2_slab ?s1 it" "item_2_slab s it \<in> active ?s1" "distinct (slab_lruq (heap ?s1))"
    using inv' live_slab(1) [of s it] lv by (auto simp: heap_ok_def U item_2_slab_def)
  have g1: "geo ?s1 = geo s" by (simp add: geo_def U)
  note F = item_link_q_fields [OF p, of b, folded s']
  have g: "geo s' = geo s" using F(3) g1 by simp
  note G = geo_live [OF g] geoD [OF g]
  have I: "items s' = (items s)(it := (items s it)\<lparr>it_atime := now s\<rparr>)" using F(1) by (simp add: U)
  have Q: "item_lruq s' = (item_lruq s)(?c := remove1 it (item_lruq s ?c) @ [it])"
    using F(2) by (simp add: U)
  have R: "slabclasses s' = slabclasses s" "hashtbl s' = hashtbl s" "now s' = now s" "nmalloc s' = nmalloc s" "ub s' = ub s"
    "sl_refcount (slabs s' q) = sl_refcount (slabs s q)" "slab_table (heap s') = slab_table (heap s)"
    "nslab (heap s') = nslab (heap s)" "hi_curr (heap s') = hi_curr (heap s)" "max_nslab (heap s') = max_nslab (heap s)" for q
    using F by (simp_all add: U)
  have run: "run s' = run s" and key: "key_of s' = key_of s" and fit: "fits s' = fits s"
    by (auto simp: run_def key_of_def fits_def fun_eq_iff R I G)
  have fl: "item_is_linked (items s' a) = item_is_linked (items s a)"
    "item_is_slabbed (items s' a) = item_is_slabbed (items s a)"
    "it_id (items s' a) = it_id (items s a)" "it_offset (items s' a) = it_offset (items s a)"
    "it_atime (items s' a) = (if a = it then now s else it_atime (items s a))"
    "it_refcount (items s' a) = it_refcount (items s a)" "fits s (items s' a) = fits s (items s a)" for a
    by (auto simp: I)
  have K: "linked_items s' = linked_items s" by (simp add: linked_items_def G fl)
  have cid: "SLABCLASS_MIN_ID \<le> ?c" "?c \<le> SLABCLASS_MAX_ID" using live_id [OF inv lv(1)] by auto
  have "lruq_ok s'"
    unfolding lruq_ok_def
  proof (intro allI impI)
    fix c assume c: "SLABCLASS_MIN_ID \<le> c \<and> c \<le> SLABCLASS_MAX_ID"
    then have o: "distinct (item_lruq s c)"
      "set (item_lruq s c) = {a \<in> live s. it_id (items s a) = c \<and> item_is_linked (items s a)}"
      using inv' by (auto simp: lruq_ok_def)
    then have "c = ?c \<Longrightarrow> it \<in> set (item_lruq s c)" using lv by simp
    with o(1) have "distinct (item_lruq s' c) \<and> set (item_lruq s' c) = set (item_lruq s c)"
      by (cases "c = ?c") (auto simp: Q set_remove1_eq)
    with o(2) show "distinct (item_lruq s' c)
      \<and> set (item_lruq s' c) = {a \<in> live s'. it_id (items s' a) = c \<and> item_is_linked (items s' a)}"
      by (simp add: G fl)
  qed
  moreover have "time_ok s'"
    unfolding time_ok_def
  proof (intro allI impI)
    fix c assume c: "SLABCLASS_MIN_ID \<le> c \<and> c \<le> SLABCLASS_MAX_ID"
    have t: "sorted (map (\<lambda>a. it_atime (items s a)) (item_lruq s c))" "\<forall>a \<in> set (item_lruq s c). it_atime (items s a) \<le> now s"
      "distinct (item_lruq s c)" "set (item_lruq s c) = {a \<in> live s. it_id (items s a) = c \<and> item_is_linked (items s a)}"
      using inv' c by (auto simp: time_ok_def lruq_ok_def)
    let ?q = "remove1 it (item_lruq s c)"
    have m: "map (\<lambda>a. if a = it then now s else it_atime (items s a)) ?q = map (\<lambda>a. it_atime (items s a)) ?q"
      using t(3) by (intro map_cong) (auto simp: set_remove1_eq)
    have "sorted (map (\<lambda>a. if a = it then now s else it_atime (items s a)) ?q)"
      unfolding m using t(1) by (rule sorted_map_remove1)
    moreover have "\<forall>a \<in> set ?q. it_atime (items s a) \<le> now s" using t(2) by (auto dest: notin_set_remove1)
    moreover have "?q = item_lruq s c" if "c \<noteq> ?c" using t(4) that by (simp add: remove1_idem)
    ultimately show "sorted (map (\<lambda>a. it_atime (items s' a)) (item_lruq s' c)) \<and> (\<forall>a \<in> set (item_lruq s' c). it_atime (items s' a) \<le> now s')"
      by (cases "c = ?c") (auto simp: Q fl R sorted_append)
  qed
  moreover have "heap_ok e s'" using inv' by (intro heap_ok_geo [OF _ g F(4)]) (simp_all add: R)
  moreover have "index_ok s'" using inv' by (simp add: index_ok_def K key R)
  ultimately show "cache_inv_L L e s'"
    using inv' by (simp add: cache_inv_L_def chunk_ok_def freeq_ok_def ref_ok_def flag_ok_def run_ok_def fit_ok_def
        no_leak_def G fl R run fit)
  show "only_it it s s'" using g I by (simp add: only_it_def R)
  show "same_content (items s' it) (items s it)" "item_is_linked (items s' it)"
    using lv by (simp_all add: I same_content_def)
qed


text \<open>Touching an item changes nothing a client can see.\<close>

lemma item_touch_store:
  assumes inv: "cache_inv e s" and it: "it \<in> live s"
  shows "cache_inv e (item_touch it s)" and "view (item_touch it s) = view s"
proof -
  have i: "cache_inv_L {} e s" "set (slab_table (heap s)) = active s" using inv by (auto simp: cache_inv_iff)
  have "cache_inv e (item_touch it s) \<and> view (item_touch it s) = view s"
  proof (cases "it_atime (items s it) \<ge> now s - ITEM_UPDATE_INTERVAL \<or> \<not> item_is_linked (items s it)")
    case True
    then show ?thesis using inv by (auto simp: item_touch_def item_touch_op_def)
  next
    case False
    then have lk: "it \<in> linked_items s" using it by (simp add: linked_items_def)
    have eq: "item_touch it s = item_link_q it False (item_unlink_q it s)"
      using False by (simp add: item_touch_def item_touch_op_def)
    note T = item_touch_inv [OF i(1) lk eq]
    have "view (item_touch it s) = view s" by (rule only_it_view(2) [OF i(1) T(1-3)]) (use T(4) False in simp)
    moreover have g: "geo (item_touch it s) = geo s" and "slab_table (heap (item_touch it s)) = slab_table (heap s)"
      using T(2) by (simp_all add: only_it_def)
    ultimately show ?thesis using T(1) i(2) by (simp add: cache_inv_iff geoD(1) [OF g])
  qed
  then show "cache_inv e (item_touch it s)" "view (item_touch it s) = view s" by blast+
qed

section \<open>Flush\<close>

lemma item_unlink_lruq:
  assumes inv: "cache_inv_L L e s" and it: "it \<in> linked_items s"
  shows "item_lruq (item_unlink_op it s) = (item_lruq s)(it_id (items s it) := remove1 it (item_lruq s (it_id (items s it))))"
proof -
  let ?s1 = "sincr (it_id (items s it)) item_unlink s"
  have i: "cache_inv_L L e ?s1" "it \<in> linked_items ?s1" using inv it by simp_all
  have q: "item_lruq (slab_put_item it s) = item_lruq s" for s by (simp add: slab_put_item_def Let_def upd_defs)
  have l: "item_is_linked (items s it)" using it by (simp add: linked_items_def)
  show ?thesis
    unfolding item_unlink_op_linked [OF l] Let_def
    by (rule item_reuse_fields [OF i]) (simp add: q upd_defs)
qed

lemma lruq_member:
  "cache_inv_L L e s \<Longrightarrow> SLABCLASS_MIN_ID \<le> c \<Longrightarrow> c \<le> SLABCLASS_MAX_ID \<Longrightarrow> a \<in> set (item_lruq s c) \<Longrightarrow> a \<in> linked_items s"
  by (auto simp: cache_inv_L_def lruq_ok_def linked_items_def)

text \<open>The state in the course of a flush, compared with the state it began with.\<close>

definition flushing :: "env \<Rightarrow> cache \<Rightarrow> cache \<Rightarrow> bool" where
  "flushing e s s' \<longleftrightarrow> cache_inv e s' \<and> settings s' = settings s \<and> now s' = now s \<and> live s' = live s
     \<and> slab_item_size s' = slab_item_size s
     \<and> linked_items s' \<subseteq> linked_items s \<and> (\<forall>a \<in> linked_items s'. items s' a = items s a)
     \<and> (\<forall>a \<in> linked_items s. it_atime (items s a) < oldest_live (settings s) \<longrightarrow> a \<in> linked_items s')"

lemma flushing_unlink:
  assumes f: "flushing e s s'" and it: "it \<in> linked_items s'" and t: "\<not> it_atime (items s' it) < oldest_live (settings s')"
  shows "flushing e s (sincr_by c m d (item_unlink_op it s'))"
proof -
  have i: "cache_inv_L {} e s'" "set (slab_table (heap s')) = active s'" using f by (auto simp: flushing_def cache_inv_iff)
  note U = item_unlink_view [OF i(1) it refl] and F = item_unlink_fields [OF i(1) it refl]
  have g: "geo (item_unlink_op it s') = geo s'" and I: "\<And>a. a \<noteq> it \<Longrightarrow> items (item_unlink_op it s') a = items s' a"
    and n: "now (item_unlink_op it s') = now s'"
    using F(1) by (simp_all add: only_it_def)
  have fr: "settings (sincr_by c m d x) = settings x" "now (sincr_by c m d x) = now x" "heap (sincr_by c m d x) = heap x"
    "slab_item_size (sincr_by c m d x) = slab_item_size x" for x
    by (simp_all add: upd_defs slab_item_size_def fun_eq_iff)
  have e: "items s' it = items s it" "settings s' = settings s" using f it by (simp_all add: flushing_def)
  show ?thesis
    using f U F(7) i(2) I t e unfolding flushing_def
    by (simp add: cache_inv_iff fr geo_live [OF g] geoD [OF g] n) (auto simp: fr)
qed

lemma flush_queue_step:
  assumes "flushing e s s'" and "SLABCLASS_MIN_ID \<le> cid" and "cid \<le> SLABCLASS_MAX_ID"
    and "item_lruq s' cid = rev q" and "s'' = flush_queue q s'"
  shows "flushing e s s''" and "\<forall>a \<in> set (item_lruq s'' cid). it_atime (items s'' a) < oldest_live (settings s'')"
    and "c \<noteq> cid \<Longrightarrow> item_lruq s'' c = item_lruq s' c"
proof -
  have "flushing e s s'' \<and> (\<forall>a \<in> set (item_lruq s'' cid). it_atime (items s'' a) < oldest_live (settings s''))
    \<and> (\<forall>c. c \<noteq> cid \<longrightarrow> item_lruq s'' c = item_lruq s' c)"
    using assms
  proof (induction q arbitrary: s')
    case (Cons it q)
    have i: "cache_inv_L {} e s'" using Cons.prems(1) by (simp add: flushing_def cache_inv_iff)
    have ok: "lruq_ok s'" "time_ok s'" using i by (auto simp: cache_inv_L_def)
    have d: "distinct (rev (it # q))" "set (rev (it # q)) = {a \<in> live s'. it_id (items s' a) = cid \<and> item_is_linked (items s' a)}"
      using ok(1) Cons.prems(2-4) unfolding lruq_ok_def by metis+
    have srt: "sorted (map (\<lambda>a. it_atime (items s' a)) (rev (it # q)))"
      using ok(2) Cons.prems(2-4) unfolding time_ok_def by metis
    have it: "it \<in> linked_items s'" "it_id (items s' it) = cid" using d(2) by (auto simp: linked_items_def)
    show ?case
    proof (cases "it_atime (items s' it) < oldest_live (settings s')")
      case True
      then have "s'' = s'" using Cons.prems(5) by simp
      moreover have "\<forall>a \<in> set (item_lruq s' cid). it_atime (items s' a) \<le> it_atime (items s' it)"
        using srt Cons.prems(4) by (auto simp: sorted_append)
      ultimately show ?thesis using Cons.prems(1) True by fastforce
    next
      case False
      let ?s1 = "sincr (it_id (items (item_unlink_op it s') it)) item_evict (item_unlink_op it s')"
      have q1: "item_lruq ?s1 = (item_lruq s')(cid := remove1 it (item_lruq s' cid))"
        using item_unlink_lruq [OF i it(1)] it(2) by (simp add: upd_defs)
      have r: "remove1 it (rev (it # q)) = rev q" using d(1) by (simp add: remove1_append)
      have "s'' = flush_queue q ?s1" using Cons.prems(5) False by (simp add: Let_def)
      then show ?thesis
        using Cons.IH [OF flushing_unlink [OF Cons.prems(1) it(1) False] Cons.prems(2,3)] q1 r Cons.prems(4)
        by simp
    qed
  qed simp
  then show "flushing e s s''" "\<forall>a \<in> set (item_lruq s'' cid). it_atime (items s'' a) < oldest_live (settings s'')"
    "c \<noteq> cid \<Longrightarrow> item_lruq s'' c = item_lruq s' c" by blast+
qed


lemma flushing_refl: "cache_inv e s \<Longrightarrow> flushing e s s"
  by (simp add: flushing_def)

lemma flush_fold:
  assumes inv: "cache_inv e s" and n: "SLABCLASS_MIN_ID \<le> n" "n \<le> SLABCLASS_MAX_ID + 1"
    and s': "s' = fold (\<lambda>i s. flush_queue (rev (item_lruq s i)) s) [SLABCLASS_MIN_ID..<n] s"
  shows "flushing e s s' \<and> (\<forall>c. SLABCLASS_MIN_ID \<le> c \<and> c < n \<longrightarrow>
     (\<forall>a \<in> set (item_lruq s' c). it_atime (items s' a) < oldest_live (settings s')))"
  using n s'
proof (induction n arbitrary: s')
  case 0
  then show ?case by (simp add: SLABCLASS_MIN_ID_def)
next
  case (Suc n)
  show ?case
  proof (cases "SLABCLASS_MIN_ID \<le> n")
    case False
    then have "s' = s" using Suc.prems by simp
    then show ?thesis using False flushing_refl [OF inv] by auto
  next
    case True
    define s1 where "s1 = fold (\<lambda>i s. flush_queue (rev (item_lruq s i)) s) [SLABCLASS_MIN_ID..<n] s"
    have s': "s' = flush_queue (rev (item_lruq s1 n)) s1" using Suc.prems True by (simp add: s1_def)
    have IH: "flushing e s s1" "\<And>c a. SLABCLASS_MIN_ID \<le> c \<Longrightarrow> c < n \<Longrightarrow> a \<in> set (item_lruq s1 c) \<Longrightarrow>
        it_atime (items s1 a) < oldest_live (settings s1)"
      using Suc.IH [OF True _ s1_def] Suc.prems(2) by auto
    have bn: "n \<le> SLABCLASS_MAX_ID" using Suc.prems(2) by simp
    note Q = flush_queue_step [OF IH(1) True bn _ s']
    have f: "flushing e s s'" and new: "\<forall>a \<in> set (item_lruq s' n). it_atime (items s' a) < oldest_live (settings s')"
      and old: "\<And>c. c \<noteq> n \<Longrightarrow> item_lruq s' c = item_lruq s1 c" using Q by simp_all
    have same: "settings s' = settings s1" using f IH(1) by (simp add: flushing_def)
    have "it_atime (items s' a) < oldest_live (settings s')"
      if c: "SLABCLASS_MIN_ID \<le> c" "c < n" and a: "a \<in> set (item_lruq s' c)" for c a
    proof -
      have "cache_inv_L {} e s'" "cache_inv_L {} e s1" using f IH(1) by (auto simp: flushing_def cache_inv_iff)
      then have "a \<in> linked_items s'" "a \<in> linked_items s1"
        using a c bn old [of c] lruq_member [of _ _ _ c a] by auto
      then have "items s' a = items s1 a" using f IH(1) by (simp add: flushing_def)
      then show ?thesis using IH(2) [OF c] a old [of c] c(2) same by simp
    qed
    then show ?thesis using f new by (auto simp: less_Suc_eq)
  qed
qed

text \<open>
  After \<^verbatim>\<open>flush_all\<close> has set \<^verbatim>\<open>oldest_live\<close>, the flush keeps the cache invariant and leaves
  linked exactly the items last accessed before that time; since a lookup ignores those once
  \<^verbatim>\<open>oldest_live\<close> has come, no key of the flushed cache is visible any more.
\<close>

lemma item_flush_expired_spec:
  assumes "cache_inv e s" and "oldest_live (settings s) \<noteq> 0"
  shows "cache_inv e (item_flush_expired s)
    \<and> linked_items (item_flush_expired s) = {a \<in> linked_items s. it_atime (items s a) < oldest_live (settings s)}
    \<and> (oldest_live (settings s) \<le> now s \<longrightarrow> lookup (item_flush_expired s) = Map.empty)"
proof -
  define s' where "s' = item_flush_expired s"
  have eq: "s' = fold (\<lambda>i s. flush_queue (rev (item_lruq s i)) s) [SLABCLASS_MIN_ID..<SLABCLASS_MAX_ID + 1] s"
    using assms(2) by (simp add: s'_def item_flush_expired_def)
  have n: "SLABCLASS_MIN_ID \<le> SLABCLASS_MAX_ID + 1" by (simp add: SLABCLASS_MIN_ID_def)
  note F = flush_fold [OF assms(1) n order_refl eq]
  then have f: "flushing e s s'" by blast
  have i: "cache_inv_L {} e s'" using f by (simp add: flushing_def cache_inv_iff)
  have old: "it_atime (items s' a) < oldest_live (settings s)" if a: "a \<in> linked_items s'" for a
  proof -
    have "a \<in> live s'" using a by (simp add: linked_items_def)
    note id = live_id [OF i this]
    have "a \<in> set (item_lruq s' (it_id (items s' a)))"
      using a i id by (auto simp: cache_inv_L_def lruq_ok_def linked_items_def)
    then show ?thesis using F id f by (auto simp: flushing_def)
  qed
  have lk: "linked_items s' = {a \<in> linked_items s. it_atime (items s a) < oldest_live (settings s)}"
    using f old by (fastforce simp: flushing_def)
  have "lookup s' key = None" if "oldest_live (settings s) \<le> now s" for key
  proof (cases "index_find s' key")
    case (Some a)
    then have "a \<in> linked_items s'" using index_find_iff [OF i] by simp
    then have "item_dead s' a"
      using old [of a] f that assms(2) by (auto simp: item_dead_def item_stale_def flushing_def)
    with Some show ?thesis by (simp add: lookup_def)
  qed (simp add: lookup_def)
  then show ?thesis using f lk by (auto simp: flushing_def s'_def fun_eq_iff)
qed

end
