(* ===== verification/McAnnex.thy ===== *)
theory McAnnex
  imports McFlush
begin

text \<open>
  Append, prepend, incr and decr: the commands that compute the new value from the old one. They
  change the item in place when the new value fits its slab class and its alignment, and move it
  to a new item otherwise; the results here cover both, down to the bytes of the stored value.
\<close>

section \<open>Sizes\<close>

lemma item_slabid_fits:
  assumes inv: "cache_inv_L L e s" and c: "item_slabid s nkey n = cid" "cid \<noteq> SLABCLASS_INVALID_ID"
  shows "valid_id s cid" and "item_ntotal nkey n (use_cas (settings s)) \<le> slab_item_size s cid"
proof -
  have "ascending (slab_item_size s) (slabclass_max_id s)" "slabclass_max_id s \<le> SLABCLASS_MAX_ID"
    using inv by (auto simp: cache_inv_L_def class_ok_def)
  from slab_id_spec(1) [OF this _ c(2)] c(1)
  show "valid_id s cid" "item_ntotal nkey n (use_cas (settings s)) \<le> slab_item_size s cid"
    by (auto simp: item_slabid_def valid_id_def)
qed

lemma class_size_bound:
  assumes "cache_inv_L L e s" and "valid_id s cid"
  shows "slab_item_size s cid \<le> 2 ^ 27"
proof -
  let ?c = "slabclasses s cid"
  have "0 < nitem ?c" "SLAB_HDR_SIZE + nitem ?c * sc_size ?c \<le> slab_size_opt (settings s)" "slab_size_opt (settings s) \<le> 2 ^ 27"
    using assms by (auto simp: cache_inv_L_def class_ok_def)
  moreover have "sc_size ?c \<le> nitem ?c * sc_size ?c" using \<open>0 < nitem ?c\<close> by simp
  ultimately show ?thesis unfolding slab_item_size_def by linarith
qed

text \<open>The parts of an item that is in use.\<close>

lemma used_item_fits:
  assumes inv: "cache_inv_L {} e s" and a: "a \<in> live s" "item_is_linked (items s a) \<or> it_refcount (items s a) \<noteq> 0"
  shows "item_has_cas (items s a) = use_cas (settings s)"
    and "item_ntotal (it_nkey (items s a)) (it_nbyte (items s a)) (use_cas (settings s)) \<le> slab_item_size s (it_id (items s a))"
    and "unat (it_nbyte (items s a)) \<le> 2 ^ 27"
proof -
  have f: "fits s (items s a)" using inv a by (auto simp: cache_inv_L_def fit_ok_def)
  then show "item_has_cas (items s a) = use_cas (settings s)"
    and n: "item_ntotal (it_nkey (items s a)) (it_nbyte (items s a)) (use_cas (settings s)) \<le> slab_item_size s (it_id (items s a))"
    by (auto simp: fits_def item_size_def)
  have "slab_item_size s (it_id (items s a)) \<le> 2 ^ 27" by (rule class_size_bound [OF inv live_id(1) [OF inv a(1)]])
  then show "unat (it_nbyte (items s a)) \<le> 2 ^ 27" using n by (simp add: item_ntotal_def)
qed

lemma unat_u32_add:
  "unat (x :: u32) + unat y < 2 ^ 32 \<Longrightarrow> unat (x + y) = unat x + unat y"
  by (simp add: unat_word_ariths)

text \<open>The payload of an item lies behind its key and inside its chunk.\<close>

lemma item_data_bounds:
  assumes n: "item_ntotal (it_nkey (items s a)) (it_nbyte (items s a)) (item_has_cas (items s a)) \<le> slab_item_size s (it_id (items s a))"
  shows "item_key_off (items s a) + it_nkey (items s a) < item_data s a"
    and "ITEM_HDR_SIZE + item_data s a + unat (it_nbyte (items s a)) \<le> slab_item_size s (it_id (items s a))"
  using n by (auto simp: item_data_def Let_def item_key_off_def item_ntotal_def CRLF_LEN_def)

section \<open>Writing values\<close>

lemma item_write_eq:
  "item_write it off bs s = s\<lparr>items := (items s)(it := (items s it)\<lparr>it_end := wr_bytes (it_end (items s it)) off bs\<rparr>)\<rparr>"
  by (simp add: item_write_def upd_item_def)

lemma it_end_update_simps [simp]:
  "item_is_linked (i\<lparr>it_end := m\<rparr>) = item_is_linked i" "item_is_slabbed (i\<lparr>it_end := m\<rparr>) = item_is_slabbed i"
  "item_has_cas (i\<lparr>it_end := m\<rparr>) = item_has_cas i" "item_is_raligned (i\<lparr>it_end := m\<rparr>) = item_is_raligned i"
  "item_is_linked (i\<lparr>it_nbyte := n\<rparr>) = item_is_linked i" "item_is_slabbed (i\<lparr>it_nbyte := n\<rparr>) = item_is_slabbed i"
  "item_has_cas (i\<lparr>it_nbyte := n\<rparr>) = item_has_cas i" "item_is_raligned (i\<lparr>it_nbyte := n\<rparr>) = item_is_raligned i"
  "item_key_off (i\<lparr>it_end := m\<rparr>) = item_key_off i" "item_key_off (i\<lparr>it_nbyte := n\<rparr>) = item_key_off i"
  "item_key (i\<lparr>it_nbyte := n\<rparr>) = item_key i"
  by (simp_all add: flag_defs item_key_off_def item_key_def)

text \<open>
  Overwriting part of the payload of an item, then giving it a new length and a new cas id: the
  in-place branches of append, prepend, incr and decr. \<open>i\<close> is the new record.
\<close>

definition rewritten :: "cache \<Rightarrow> addr \<Rightarrow> nat \<Rightarrow> bytes \<Rightarrow> u32 \<Rightarrow> item" where
  "rewritten s it off bs n =
     item_set_cas (next_cas s) ((items s it)\<lparr>it_end := wr_bytes (it_end (items s it)) off bs, it_nbyte := n\<rparr>)"

lemma rewritten_simps [simp]:
  "item_is_linked (rewritten s it off bs n) = item_is_linked (items s it)"
  "item_is_slabbed (rewritten s it off bs n) = item_is_slabbed (items s it)"
  "item_has_cas (rewritten s it off bs n) = item_has_cas (items s it)"
  "item_is_raligned (rewritten s it off bs n) = item_is_raligned (items s it)"
  "it_id (rewritten s it off bs n) = it_id (items s it)" "it_offset (rewritten s it off bs n) = it_offset (items s it)"
  "it_atime (rewritten s it off bs n) = it_atime (items s it)" "it_refcount (rewritten s it off bs n) = it_refcount (items s it)"
  "it_nbyte (rewritten s it off bs n) = n" "it_nkey (rewritten s it off bs n) = it_nkey (items s it)"
  "it_end (rewritten s it off bs n) = wr_bytes (it_end (items s it)) off bs"
  "it_dataflags (rewritten s it off bs n) = it_dataflags (items s it)"
  "it_exptime (rewritten s it off bs n) = it_exptime (items s it)"
  by (simp_all add: rewritten_def)

lemma rewritten_store:
  assumes inv: "cache_inv e s" and it: "it \<in> linked_items s"
    and off: "item_key_off (items s it) + it_nkey (items s it) \<le> off"
    and n: "item_ntotal (it_nkey (items s it)) n (use_cas (settings s)) \<le> slab_item_size s (it_id (items s it))"
    and s': "items s' = (items s)(it := rewritten s it off bs n)" "slabs s' = slabs s" "slabclasses s' = slabclasses s"
    "slabclass_max_id s' = slabclass_max_id s" "heap s' = heap s" "item_lruq s' = item_lruq s"
    "hashtbl s' = hashtbl s" "now s' = now s" "settings s' = settings s" "nmalloc s' = nmalloc s" "ub s' = ub s"
  shows "cache_inv e s'"
    and "view s' = (view s)(key_of s it \<mapsto> \<lparr>en_value = item_value s' it, en_dataflags = it_dataflags (items s it),
           en_exptime = it_exptime (items s it), en_cas = next_cas s\<rparr>)"
    and "linked_items s' = linked_items s"
proof -
  have i: "cache_inv_L {} e s" "set (slab_table (heap s)) = active s" using inv by (auto simp: cache_inv_iff)
  have lv: "it \<in> live s" "item_is_linked (items s it)" using it by (simp_all add: linked_items_def)
  let ?i = "rewritten s it off bs n"
  have k: "item_key ?i = item_key (items s it)"
    using off by (simp add: item_key_def item_key_off_def rd_wr_bytes_disjoint)
  have hc: "item_has_cas (items s it) = use_cas (settings s)" using used_item_fits(1) [OF i(1) lv(1)] lv(2) by simp
  have f: "fits s ?i" using n hc by (simp add: fits_def item_size_def)
  have "cache_inv_L {} e (s\<lparr>items := (items s)(it := ?i)\<rparr>)"
    by (rule inv_content [OF i(1) lv(1)]) (use k f in simp_all)
  then have inv1: "cache_inv_L {} e s'" by (subst inv_frame [of s' "s\<lparr>items := (items s)(it := ?i)\<rparr>"]) (simp_all add: s')
  then show "cache_inv e s'" using i(2) by (simp add: cache_inv_iff s')
  have g: "geo s' = geo s" by (simp add: geo_def s')
  have o: "only_it it s s'" using g by (simp add: only_it_def s')
  show lk: "linked_items s' = linked_items s" by (auto simp: linked_items_def geo_live [OF g] s'(1))
  have c: "item_get_cas ?i = next_cas s"
    using hc by (simp add: item_get_cas_def) (simp add: rewritten_def item_set_cas_def next_cas_def)
  have "view s' = (view s)(key_of s it \<mapsto> entry_of s' it)"
    by (rule view_change [OF i(1) inv1 it lk]) (use only_it_other [OF o] k in \<open>auto simp: key_of_def s'(1)\<close>)
  then show "view s' = (view s)(key_of s it \<mapsto> \<lparr>en_value = item_value s' it, en_dataflags = it_dataflags (items s it),
           en_exptime = it_exptime (items s it), en_cas = next_cas s\<rparr>)"
    by (simp add: entry_of_def s'(1) c)
qed


section \<open>Appending and prepending bytes\<close>

lemma rd_wr_append: "length bs = k \<Longrightarrow> rd_bytes (wr_bytes m (d + n) bs) d (n + k) = rd_bytes m d n @ bs"
  by (simp add: rd_bytes_append rd_wr_bytes_disjoint rd_wr_bytes_same_len)

lemma rd_wr_prepend: "length bs = k \<Longrightarrow> rd_bytes (wr_bytes m d bs) d (k + n) = bs @ rd_bytes m (d + k) n"
  by (simp add: rd_bytes_append rd_wr_bytes_disjoint rd_wr_bytes_same_len)

lemma length_item_value [simp]: "length (item_value s a) = unat (it_nbyte (items s a))"
  by (simp add: item_value_def)

lemma annex_in_place_fields:
  "items (annex_in_place b oit it n s) = (items s)(oit := rewritten s oit
     (if b then item_data s oit + unat (it_nbyte (items s oit)) else item_data s oit - unat (it_nbyte (items s it)))
     (item_value s it) n)"
  "slabs (annex_in_place b oit it n s) = slabs s" "slabclasses (annex_in_place b oit it n s) = slabclasses s"
  "slabclass_max_id (annex_in_place b oit it n s) = slabclass_max_id s" "heap (annex_in_place b oit it n s) = heap s"
  "item_lruq (annex_in_place b oit it n s) = item_lruq s" "hashtbl (annex_in_place b oit it n s) = hashtbl s"
  "now (annex_in_place b oit it n s) = now s" "settings (annex_in_place b oit it n s) = settings s"
  "nmalloc (annex_in_place b oit it n s) = nmalloc s" "ub (annex_in_place b oit it n s) = ub s"
  by (simp_all add: annex_in_place_def Let_def item_set_next_cas_def item_next_cas_def item_write_def upd_item_def
      rewritten_def next_cas_def)

text \<open>The value append and prepend compute.\<close>

definition annexed :: "bool \<Rightarrow> bytes \<Rightarrow> bytes \<Rightarrow> bytes" where
  "annexed is_append old new = (if is_append then old @ new else new @ old)"

lemma annex_in_place_store:
  assumes inv: "cache_inv e s" and o: "oit \<in> linked_items s" and it: "it \<in> live s" "it_refcount (items s it) \<noteq> 0"
    and n: "n = it_nbyte (items s oit) + it_nbyte (items s it)"
    and fit: "item_ntotal (it_nkey (items s oit)) n (use_cas (settings s)) \<le> slab_item_size s (it_id (items s oit))"
    and al: "b \<longleftrightarrow> \<not> item_is_raligned (items s oit)" and s': "s' = annex_in_place b oit it n s"
  shows "cache_inv e s'" and "linked_items s' = linked_items s"
    and "view s' = (view s)(key_of s oit \<mapsto> \<lparr>en_value = annexed b (item_value s oit) (item_value s it),
           en_dataflags = it_dataflags (items s oit), en_exptime = it_exptime (items s oit), en_cas = next_cas s\<rparr>)"
proof -
  have i: "cache_inv_L {} e s" using inv by (simp add: cache_inv_iff)
  have lv: "oit \<in> live s" "item_is_linked (items s oit)" using o by (simp_all add: linked_items_def)
  note U = used_item_fits [OF i lv(1)] and V = used_item_fits [OF i it(1)]
  have hc: "item_has_cas (items s oit) = use_cas (settings s)" using U(1) lv(2) by simp
  have un: "unat n = unat (it_nbyte (items s oit)) + unat (it_nbyte (items s it))"
    using U(3) V(3) lv(2) it(2) by (simp add: n unat_u32_add)
  define off where "off = (if b then item_data s oit + unat (it_nbyte (items s oit)) else item_data s oit - unat (it_nbyte (items s it)))"
  let ?z = "slab_item_size s (it_id (items s oit))"
  have fit': "item_key_off (items s oit) + it_nkey (items s oit) + ITEM_HDR_SIZE + unat n + 3 \<le> ?z"
    using fit hc by (simp add: item_ntotal_def item_key_off_def CRLF_LEN_def)
  have d: "item_key_off (items s oit) + it_nkey (items s oit) < item_data s oit"
    by (rule item_data_bounds(1)) (use U(2) hc lv(2) in simp)
  have ra: "item_data s oit = ?z - unat (it_nbyte (items s oit)) - ITEM_HDR_SIZE" if "\<not> b"
    using al that by (simp add: item_data_def Let_def)
  have offb: "item_key_off (items s oit) + it_nkey (items s oit) \<le> off"
    using d ra fit' un by (cases b) (simp_all add: off_def)
  note R = rewritten_store [OF inv o offb fit, of s' "item_value s it"]
  note F = annex_in_place_fields [of b oit it n s, folded s' off_def]
  show "cache_inv e s'" "linked_items s' = linked_items s" using R(1,3) F by simp_all
  have "item_value s' oit = annexed b (item_value s oit) (item_value s it)"
  proof -
    have z': "slab_item_size s' = slab_item_size s" using F by (simp add: slab_item_size_def fun_eq_iff)
    show ?thesis
    proof (cases b)
      case True
      then have "item_data s' oit = item_data s oit" using al by (simp add: item_data_def Let_def F(1))
      then show ?thesis
        using True by (simp add: item_value_def [of s' oit] annexed_def F(1) un off_def rd_wr_append) (simp add: item_value_def)
    next
      case False
      have d': "item_data s' oit = off"
        using False al ra [OF False] fit' un by (simp add: item_data_def Let_def F(1) z' off_def)
      have "item_value s' oit = rd_bytes (wr_bytes (it_end (items s oit)) off (item_value s it)) off
          (unat (it_nbyte (items s it)) + unat (it_nbyte (items s oit)))"
        by (simp add: item_value_def [of s' oit] d') (simp add: F(1) un add.commute)
      also have "\<dots> = item_value s it @ rd_bytes (it_end (items s oit)) (off + unat (it_nbyte (items s it))) (unat (it_nbyte (items s oit)))"
        by (rule rd_wr_prepend) simp
      also have "off + unat (it_nbyte (items s it)) = item_data s oit"
        using False ra [OF False] fit' un by (simp add: off_def)
      finally show ?thesis using False by (simp add: annexed_def item_value_def [of s oit])
    qed
  qed
  then show "view s' = (view s)(key_of s oit \<mapsto> \<lparr>en_value = annexed b (item_value s oit) (item_value s it),
           en_dataflags = it_dataflags (items s oit), en_exptime = it_exptime (items s oit), en_cas = next_cas s\<rparr>)"
    using R(2) F by simp
qed


lemma set_ralign_simps [simp]:
  "item_key (i\<lparr>it_flags := it_flags i OR ITEM_RALIGN\<rparr>) = item_key i"
  "item_key_off (i\<lparr>it_flags := it_flags i OR ITEM_RALIGN\<rparr>) = item_key_off i"
  "item_size (i\<lparr>it_flags := it_flags i OR ITEM_RALIGN\<rparr>) = item_size i"
  by (simp_all add: item_key_def item_key_off_def item_size_def)

text \<open>
  Filling the payload of a new item: its key, size and flags other than the alignment stay, and
  its value becomes the bytes written.
\<close>

lemma fill_new_item:
  fixes bs :: bytes
  assumes inv: "cache_inv e s" and p: "pending s nit" and len: "length bs = unat (it_nbyte (items s nit))"
    and i: "i = (if r then (items s nit)\<lparr>it_flags := it_flags (items s nit) OR ITEM_RALIGN\<rparr> else items s nit)"
    and nr: "\<not> item_is_raligned (items s nit)"
    and d: "d = item_data (s\<lparr>items := (items s)(nit := i)\<rparr>) nit"
    and s': "s' = s\<lparr>items := (items s)(nit := i\<lparr>it_end := m\<rparr>)\<rparr>"
    and m: "rd_bytes m d (length bs) = bs" "\<And>j. j < d \<Longrightarrow> m j = it_end (items s nit) j"
  shows "cache_inv e s'" and "pending s' nit" and "item_value s' nit = bs" and "key_of s' = key_of s"
    and "linked_items s' = linked_items s" and "view s' = view s"
    and "entry_of s' nit = (entry_of s nit)\<lparr>en_value := bs\<rparr>" and "next_cas s' = next_cas s"
    and "it_refcount (items s' nit) = it_refcount (items s nit)"
proof -
  have iv: "cache_inv_L {} e s" "set (slab_table (heap s)) = active s" using inv by (auto simp: cache_inv_iff)
  have lv: "nit \<in> live s" "it_refcount (items s nit) \<noteq> 0" "\<not> item_is_linked (items s nit)" using p by (auto simp: pending_def)
  have si: "it_id i = it_id (items s nit)" "it_nkey i = it_nkey (items s nit)" "it_nbyte i = it_nbyte (items s nit)"
    "item_has_cas i = item_has_cas (items s nit)" "item_is_linked i = item_is_linked (items s nit)"
    "item_is_slabbed i = item_is_slabbed (items s nit)" "it_offset i = it_offset (items s nit)"
    "it_atime i = it_atime (items s nit)" "it_refcount i = it_refcount (items s nit)" "it_end i = it_end (items s nit)"
    "it_dataflags i = it_dataflags (items s nit)" "it_exptime i = it_exptime (items s nit)" "it_cas i = it_cas (items s nit)"
    "item_is_raligned i = r"
    using nr by (auto simp: i)
  note U = used_item_fits [OF iv(1) lv(1)]
  have size: "fits s (i\<lparr>it_end := m\<rparr>)" using U(1,2) lv(2) si by (simp add: fits_def item_size_def)
  have "item_key_off i + it_nkey i < d"
    using U(2) lv(2) si item_data_bounds(1) [of "s\<lparr>items := (items s)(nit := i)\<rparr>" nit] U(1)
    by (simp add: d slab_item_size_def)
  then have "rd_bytes m (item_key_off i) (it_nkey i) = rd_bytes (it_end (items s nit)) (item_key_off i) (it_nkey i)"
    by (intro rd_bytes_eqI m(2)) simp
  then have k: "item_key (i\<lparr>it_end := m\<rparr>) = item_key (items s nit)"
    using si by (simp add: item_key_def item_key_off_def)
  have inv1: "cache_inv_L {} e s'"
    by (rule inv_content [OF iv(1) lv(1) _ _ _ _ _ _ _ _ s']) (use si size lv(3) in simp_all)
  then show "cache_inv e s'" using iv(2) by (simp add: cache_inv_iff s')
  have g: "geo s' = geo s" by (simp add: geo_def s')
  show "pending s' nit" using p si by (simp add: pending_def geo_live [OF g]) (simp add: s')
  have "item_data s' nit = d" by (simp add: d item_data_def Let_def s' slab_item_size_def)
  then show v: "item_value s' nit = bs" using m(1) len si by (simp add: item_value_def) (simp add: s' si)
  show "key_of s' = key_of s" using k by (auto simp: key_of_def s' fun_eq_iff)
  show lk: "linked_items s' = linked_items s" using si by (auto simp: linked_items_def geo_live [OF g]) (auto simp: s' lv(3) split: if_splits)
  have o: "only_it nit s s'" using g by (simp add: only_it_def s')
  show "view s' = view s"
  proof (rule view_same [OF iv(1) inv1 lk])
    fix a assume "a \<in> linked_items s"
    then have "a \<noteq> nit" using lv(3) by (auto simp: linked_items_def)
    then show "key_of s' a = key_of s a \<and> entry_of s' a = entry_of s a" using only_it_other [OF o] by simp
  qed
  show "entry_of s' nit = (entry_of s nit)\<lparr>en_value := bs\<rparr>"
    using v by (simp add: entry_of_def) (simp add: s' si item_get_cas_def)
  show "next_cas s' = next_cas s" by (simp add: next_cas_def s')
  show "it_refcount (items s' nit) = it_refcount (items s nit)" by (simp add: s' si)
qed


lemma rd_wr_two:
  "rd_bytes (wr_bytes (wr_bytes m d xs) (d + length xs) ys) d (length (xs @ ys)) = xs @ ys"
  by (simp add: rd_wr_append)

lemma item_value_other:
  assumes "a \<noteq> b"
  shows "item_value (s\<lparr>items := (items s)(b := i)\<rparr>) a = item_value s a"
  using assms by (simp add: item_value_def item_data_def slab_item_size_def Let_def)

text \<open>The value written into the new item, before it is relinked.\<close>

lemma annex_fill:
  assumes ne: "nit \<noteq> oit" "nit \<noteq> it"
    and i: "i = (if b then items s nit else (items s nit)\<lparr>it_flags := it_flags (items s nit) OR ITEM_RALIGN\<rparr>)"
    and d: "d = item_data (s\<lparr>items := (items s)(nit := i)\<rparr>) nit"
    and xy: "(x, y) = (if b then (oit, it) else (it, oit))"
  shows "annex_copy e b oit it nit s = item_relink e oit nit
    (s\<lparr>items := (items s)(nit := i\<lparr>it_end :=
        wr_bytes (wr_bytes (it_end (items s nit)) d (item_value s x)) (d + length (item_value s x)) (item_value s y)\<rparr>)\<rparr>)"
proof -
  let ?s1 = "s\<lparr>items := (items s)(nit := i)\<rparr>"
  have n: "x \<noteq> nit" "y \<noteq> nit" using ne xy by (auto split: if_splits)
  have s1: "(if b then s else upd_item nit (\<lambda>i. i\<lparr>it_flags := it_flags i OR ITEM_RALIGN\<rparr>) s) = ?s1"
    by (cases b) (simp_all add: i upd_item_def)
  have e: "it_end i = it_end (items s nit)" by (simp add: i)
  let ?s2 = "s\<lparr>items := (items s)(nit := i\<lparr>it_end := wr_bytes (it_end i) d (item_value s x)\<rparr>)\<rparr>"
  have "item_value ?s1 x = item_value s x" "item_value ?s2 y = item_value s y" "item_data ?s2 nit = d"
    using n by (simp_all add: item_value_other) (simp add: d item_data_def Let_def slab_item_size_def)
  moreover have "item_write nit (item_data ?s1 nit) (item_value s x) ?s1 = ?s2" by (simp add: item_write_eq d)
  ultimately show ?thesis
    using n xy [symmetric] by (simp add: annex_copy_def s1 Let_def) (simp add: item_write_eq e)
qed

lemma annex_copy_store:
  assumes inv: "cache_inv e s" and o: "oit \<in> linked_items s" "it_refcount (items s oit) \<noteq> 0"
    and it: "nit \<noteq> it" and nit: "pending s nit" "key_of s nit = key_of s oit" "\<not> item_is_raligned (items s nit)"
    and n: "unat (it_nbyte (items s nit)) = unat (it_nbyte (items s oit)) + unat (it_nbyte (items s it))"
    and s': "s' = item_remove_op nit (item_remove_op oit (annex_copy e b oit it nit s))"
  shows "cache_inv e s'"
    and "view s' = (view s)(key_of s oit \<mapsto> \<lparr>en_value = annexed b (item_value s oit) (item_value s it),
           en_dataflags = it_dataflags (items s nit), en_exptime = it_exptime (items s nit), en_cas = next_cas s\<rparr>)"
proof -
  have ne: "nit \<noteq> oit" using o nit by (auto simp: pending_def linked_items_def)
  define i where "i = (if b then items s nit else (items s nit)\<lparr>it_flags := it_flags (items s nit) OR ITEM_RALIGN\<rparr>)"
  define d where "d = item_data (s\<lparr>items := (items s)(nit := i)\<rparr>) nit"
  define x where "x = (if b then oit else it)"
  define y where "y = (if b then it else oit)"
  define m where "m = wr_bytes (wr_bytes (it_end (items s nit)) d (item_value s x)) (d + length (item_value s x)) (item_value s y)"
  define s1 where "s1 = s\<lparr>items := (items s)(nit := i\<lparr>it_end := m\<rparr>)\<rparr>"
  let ?v = "item_value s x @ item_value s y"
  have cp: "annex_copy e b oit it nit s = item_relink e oit nit s1"
    unfolding s1_def m_def by (rule annex_fill [OF ne it i_def d_def]) (simp add: x_def y_def)
  have v: "?v = annexed b (item_value s oit) (item_value s it)" by (simp add: x_def y_def annexed_def)
  have len: "length ?v = unat (it_nbyte (items s nit))" using n by (simp add: x_def y_def)
  have i': "i = (if \<not> b then (items s nit)\<lparr>it_flags := it_flags (items s nit) OR ITEM_RALIGN\<rparr> else items s nit)"
    by (simp add: i_def)
  have m1: "rd_bytes m d (length ?v) = ?v" unfolding m_def by (rule rd_wr_two)
  have m2: "\<And>j. j < d \<Longrightarrow> m j = it_end (items s nit) j" by (simp add: m_def wr_bytes_def)
  note W = fill_new_item [OF inv nit(1) len i' nit(3) d_def s1_def m1 m2]
  have o1: "oit \<in> linked_items s1" "it_refcount (items s1 oit) \<noteq> 0" "key_of s1 oit = key_of s1 nit"
    using o W(4,5) nit(2) ne by (simp_all add: s1_def)
  note R = item_relink_store [OF W(1,2) o1]
  let ?s2 = "item_remove_op oit (item_relink e oit nit s1)"
  have iv: "cache_inv_L {} e ?s2" "set (slab_table (heap ?s2)) = active ?s2" using R(1) by (auto simp: cache_inv_iff)
  have r: "it_refcount (items ?s2 nit) \<noteq> 0" using R(4) W(9) nit(1) by (simp add: pending_def)
  note V = item_remove_view [OF iv(1) R(3) _ r refl]
  have eq: "s' = item_remove_op nit ?s2" by (simp add: s' cp)
  show "cache_inv e s'" using V(1,8) iv(2) by (simp add: cache_inv_iff eq)
  show "view s' = (view s)(key_of s oit \<mapsto> \<lparr>en_value = annexed b (item_value s oit) (item_value s it),
           en_dataflags = it_dataflags (items s nit), en_exptime = it_exptime (items s nit), en_cas = next_cas s\<rparr>)"
    using V(6) R(2) W(4,6-8) nit(2) v by (simp add: eq entry_of_def)
qed


text \<open>An allocation leaves the referenced items, linked or not, as they were.\<close>

lemma preserves_held:
  assumes "cache_inv e s" and "cache_inv e s'" and p: "preserves s s'" and a: "a \<in> live s" "it_refcount (items s a) \<noteq> 0"
  shows "a \<in> live s'" and "items s' a = items s a" and "key_of s' a = key_of s a" and "item_value s' a = item_value s a"
    and "a \<in> linked_items s \<Longrightarrow> a \<in> linked_items s' \<and> view s' (key_of s a) = view s (key_of s a)"
    and "pending s a \<Longrightarrow> pending s' a"
proof -
  have i: "cache_inv_L {} e s" "cache_inv_L {} e s'" using assms(1,2) by (auto simp: cache_inv_iff)
  show l: "a \<in> live s'" and I: "items s' a = items s a" using p a by (auto simp: preserves_def)
  have z: "slab_item_size s' = slab_item_size s" using p by (simp add: preserves_def)
  show k: "key_of s' a = key_of s a" by (simp add: key_of_def I)
  show "item_value s' a = item_value s a" by (simp add: item_value_def item_data_def Let_def I z)
  show "pending s a \<Longrightarrow> pending s' a" using l I by (simp add: pending_def)
  show "a \<in> linked_items s \<Longrightarrow> a \<in> linked_items s' \<and> view s' (key_of s a) = view s (key_of s a)"
  proof
    assume lk: "a \<in> linked_items s"
    then show lk': "a \<in> linked_items s'" using l I by (simp add: linked_items_def)
    have "view s (key_of s a) = Some (entry_of s a)" "view s' (key_of s' a) = Some (entry_of s' a)"
      using lk lk' view_Some_iff [OF i(1)] view_Some_iff [OF i(2)] by blast+
    then show "view s' (key_of s a) = view s (key_of s a)" using entry_cong [OF I z] k by simp
  qed
qed

lemma slab_get_new_fst:
  "fst (slab_get_new e s) = (if nslab (heap s) \<ge> max_nslab (heap s) then None
     else let p = (if prealloc (settings s) then hi_curr (heap s) else e_slab e (nmalloc s)) in if p = 0 then None else Some p)"
  by (simp add: slab_get_new_def slab_heap_full_def slab_heap_alloc_def Let_def)

lemma acquire_nmalloc: "nmalloc (item_acquire_refcount it s) = nmalloc s"
  by (simp add: item_acquire_refcount_def slab_acquire_refcount_def upd_defs Let_def)

lemma env_ok_acquire: "env_ok e s \<Longrightarrow> env_ok e (item_acquire_refcount it s)"
  unfolding env_ok_def rand_safe_def slab_get_new_fst acquire_fields acquire_nmalloc .

lemma room_acquire:
  assumes "cache_inv_L L e s" and "it \<in> live s" and "room (k + 1) s"
  shows "room k (item_acquire_refcount it s)"
proof -
  have c: "chunk_ok s" using assms(1) by (simp add: cache_inv_L_def)
  have "sl_refcount (slabs (item_acquire_refcount it s) p)
      = (if p = item_2_slab s it then sl_refcount (slabs s p) + 1 else sl_refcount (slabs s p))" for p
    by (simp add: item_acquire_refcount_def slab_acquire_refcount_def Let_def upd_defs item_2_slab_def)
  moreover have "unat (sl_refcount (slabs s (item_2_slab s it))) < 65535"
    using assms(3) live_slab(1) [OF c assms(2)] by (fastforce simp: room_def)
  ultimately show ?thesis
    using assms(3) by (auto simp: room_def unat_u16_Suc)
qed

definition annex_entry :: "bool \<Rightarrow> cache \<Rightarrow> addr \<Rightarrow> entry \<Rightarrow> entry" where
  "annex_entry b s it v = v\<lparr>en_value := annexed b (en_value v) (item_value s it), en_cas := next_cas s\<rparr>"

lemma annex_found:
  assumes inv: "cache_inv e s" and room: "room 2 s" and env: "env_ok e s" and p: "pending s it"
    and g: "item_get_op (key_of s it) s = (Some oit, s1)" and r: "item_annex e b it s = ((r, out), s')"
  shows "cache_inv e s'" and "r \<noteq> ANNEX_NOT_FOUND"
    and "r = ANNEX_OVERSIZED \<Longrightarrow> view s' = view s"
    and "r = ANNEX_EOM \<Longrightarrow> view s' \<subseteq>\<^sub>m view s \<and> view s' (key_of s it) = view s (key_of s it)"
    and "r = ANNEX_OK \<Longrightarrow> view s' (key_of s it) = Some (annex_entry b s it (entry_of s oit))
       \<and> (\<forall>k. k \<noteq> key_of s it \<longrightarrow> view s' k = None \<or> view s' k = view s k)"
proof -
  have room1: "room 1 s" using room by (auto simp: room_def)
  note S = item_get_Some [OF inv room1 g]
  let ?o = "items s1 oit"
  define n where "n = it_nbyte ?o + it_nbyte (items s1 it)"
  define cid where "cid = item_slabid s1 (it_nkey ?o) n"
  have i: "cache_inv_L {} e s" and i1: "cache_inv_L {} e s1" using inv S(1) by (auto simp: cache_inv_iff)
  have p1: "pending s1 it" and itne: "it \<noteq> oit" using S(12) [OF p] by auto
  have o1: "oit \<in> linked_items s1" "oit \<in> live s1" "it_refcount ?o \<noteq> 0" using S(4,7) by (auto simp: linked_items_def)
  have it1: "it \<in> live s1" "it_refcount (items s1 it) \<noteq> 0" using p1 by (auto simp: pending_def)
  have k: "key_of s1 oit = key_of s it" "key_of s1 it = key_of s it" using S(5,6) by simp_all
  have val: "item_value s1 a = item_value s a" for a using S(10) [of a] by (simp add: entry_of_def)
  have ent: "entry_of s oit = entry_of s1 oit" using S(10) by simp
  have nc: "next_cas s1 = next_cas s" by (simp add: next_cas_def S(8))
  have un: "unat n = unat (it_nbyte ?o) + unat (it_nbyte (items s1 it))"
    using used_item_fits(3) [OF i1 o1(2)] used_item_fits(3) [OF i1 it1(1)] o1(3) it1(2) by (simp add: n_def unat_u32_add)
  have lk: "length (key_of s it) = it_nkey ?o" using S(5,6) by (metis item_key_def key_of_def length_rd_bytes)
  have eq: "item_annex e b it s =
      (if cid = SLABCLASS_INVALID_ID
       then ((ANNEX_OVERSIZED, \<lparr>ao_ids = Some (it_id ?o, cid), ao_nbyte = None\<rparr>), item_remove_op oit s1)
       else if cid = it_id ?o \<and> (b \<longleftrightarrow> \<not> item_is_raligned ?o)
       then ((ANNEX_OK, \<lparr>ao_ids = Some (it_id ?o, cid), ao_nbyte = Some n\<rparr>), item_remove_op oit (annex_in_place b oit it n s1))
       else (case item_alloc e cid (key_of s it) (it_dataflags ?o) (it_exptime ?o) n s1 of
            (None, s) \<Rightarrow> ((ANNEX_EOM, \<lparr>ao_ids = Some (it_id ?o, cid), ao_nbyte = None\<rparr>), item_remove_op oit s)
          | (Some nit, s) \<Rightarrow> ((ANNEX_OK, \<lparr>ao_ids = Some (it_id ?o, cid), ao_nbyte = Some n\<rparr>),
              item_remove_op nit (item_remove_op oit (annex_copy e b oit it nit s)))))"
    unfolding item_annex_def n_def cid_def by (simp add: g Let_def)
  have rel: "cache_inv e (item_remove_op oit s2) \<and> view (item_remove_op oit s2) = view s2"
    if "cache_inv e s2" "oit \<in> live s2" "it_refcount (items s2 oit) \<noteq> 0" for s2
    using item_remove_view(1,6,8) [of "{}" e s2 oit] that by (auto simp: cache_inv_iff)
  consider (big) "cid = SLABCLASS_INVALID_ID" | (place) "cid \<noteq> SLABCLASS_INVALID_ID" "cid = it_id ?o" "b \<longleftrightarrow> \<not> item_is_raligned ?o"
    | (copy) "cid \<noteq> SLABCLASS_INVALID_ID" "\<not> (cid = it_id ?o \<and> (b \<longleftrightarrow> \<not> item_is_raligned ?o))" by blast
  then have "cache_inv e s' \<and> r \<noteq> ANNEX_NOT_FOUND \<and> (r = ANNEX_OVERSIZED \<longrightarrow> view s' = view s)
    \<and> (r = ANNEX_EOM \<longrightarrow> view s' \<subseteq>\<^sub>m view s \<and> view s' (key_of s it) = view s (key_of s it))
    \<and> (r = ANNEX_OK \<longrightarrow> view s' (key_of s it) = Some (annex_entry b s it (entry_of s oit))
       \<and> (\<forall>k. k \<noteq> key_of s it \<longrightarrow> view s' k = None \<or> view s' k = view s k))"
  proof cases
    case big
    then have "r = ANNEX_OVERSIZED" "s' = item_remove_op oit s1" using r eq by simp_all
    then show ?thesis using rel [OF S(1) o1(2,3)] S(3) by simp
  next
    case place
    let ?s2 = "annex_in_place b oit it n s1"
    have r': "r = ANNEX_OK" "s' = item_remove_op oit ?s2" using r eq place by simp_all
    note A = annex_in_place_store [OF S(1) o1(1) it1 n_def _ place(3) refl]
    have fit: "item_ntotal (it_nkey ?o) n (use_cas (settings s1)) \<le> slab_item_size s1 (it_id ?o)"
      using item_slabid_fits(2) [OF i1 cid_def [symmetric] place(1)] place(2) by simp
    have o2: "oit \<in> live ?s2" "it_refcount (items ?s2 oit) \<noteq> 0"
      using A(2) [OF fit] o1 by (auto simp: linked_items_def annex_in_place_fields)
    show ?thesis using rel [OF A(1) [OF fit] o2] A(3) [OF fit] S(3) k val ent nc r'
      by (simp add: annex_entry_def entry_of_def)
  next
    case copy
    note V = item_slabid_fits [OF i1 cid_def [symmetric] copy(1)]
    obtain o2 s2 where al: "item_alloc e cid (key_of s it) (it_dataflags ?o) (it_exptime ?o) n s1 = (o2, s2)" by fastforce
    have e1: "env_ok e s1" unfolding S(8) by (rule env_ok_acquire [OF env])
    have "oit \<in> linked_items s" using S(4,11) by simp
    then have lv: "oit \<in> live s" by (simp add: linked_items_def)
    have rm1: "room 1 s1" unfolding S(8) by (rule room_acquire [OF i lv]) (use room in \<open>simp add: numeral_2_eq_2\<close>)
    note A = item_alloc_inv [OF S(1) e1 V(1) rm1 _ al] and fit = V(2) [folded lk]
    note H = preserves_held [OF S(1) A(1) [OF fit] A(2) [OF fit] o1(2,3)]
    have o2': "oit \<in> linked_items s2" "it_refcount (items s2 oit) \<noteq> 0" "oit \<in> live s2" using H(2,5) o1 H(1) by auto
    have le: "view s2 \<subseteq>\<^sub>m view s" using A(3) [OF fit] S(3) by simp
    have same: "view s2 (key_of s it) = view s (key_of s it)" using H(5) o1(1) k S(3) by simp
    show ?thesis
    proof (cases o2)
      case None
      then have "r = ANNEX_EOM" "s' = item_remove_op oit s2" using r eq copy al by simp_all
      then show ?thesis using rel [OF A(1) [OF fit] o2'(3,2)] le same by simp
    next
      case (Some nit)
      note N = A(4) [OF fit Some] and F = A(5) [OF fit Some]
      note J = preserves_held [OF S(1) A(1) [OF fit] A(2) [OF fit] it1]
      have r': "r = ANNEX_OK" "s' = item_remove_op nit (item_remove_op oit (annex_copy e b oit it nit s2))"
        using r eq copy al Some by simp_all
      have nit: "nit \<noteq> it" "pending s2 nit" "key_of s2 nit = key_of s2 oit" "\<not> item_is_raligned (items s2 nit)"
        using F it1 N H(3) k by (auto simp: pending_def)
      have "next_cas s2 = next_cas s1" using A(2) [OF fit] by (simp add: preserves_def next_cas_def)
      then have cn: "next_cas s2 = next_cas s" by (simp add: nc)
      have len: "unat (it_nbyte (items s2 nit)) = unat (it_nbyte (items s2 oit)) + unat (it_nbyte (items s2 it))"
        using N un H(2) J(2) by simp
      note C = annex_copy_store [OF A(1) [OF fit] o2'(1,2) nit len r'(2)]
      have "view s2 k' = None \<or> view s2 k' = view s k'" for k' using le by (auto simp: map_le_def dom_def)
      then show ?thesis
        using C N H J k val ent cn r'(1) by (simp add: annex_entry_def entry_of_def)
    qed
  qed
  then show "cache_inv e s'" "r \<noteq> ANNEX_NOT_FOUND" "r = ANNEX_OVERSIZED \<Longrightarrow> view s' = view s"
    "r = ANNEX_EOM \<Longrightarrow> view s' \<subseteq>\<^sub>m view s \<and> view s' (key_of s it) = view s (key_of s it)"
    "r = ANNEX_OK \<Longrightarrow> view s' (key_of s it) = Some (annex_entry b s it (entry_of s oit))
       \<and> (\<forall>k. k \<noteq> key_of s it \<longrightarrow> view s' k = None \<or> view s' k = view s k)"
    by blast+
qed


text \<open>
  Append and prepend. If the key is not visible the command reports so. If it is, and there is
  room, the new value is the old one with the request's bytes behind (append) or before it
  (prepend), with the old flags and expiry and a fresh cas id, whether the item was changed in
  place or moved; other keys are untouched or evicted. An oversized result leaves the view as it
  was, and a failed allocation leaves at least the entry of the key.
\<close>

lemma item_annex_spec:
  assumes "cache_inv e s" and "room 2 s" and "env_ok e s" and "pending s it"
  shows "case item_annex e b it s of ((r, out), s') \<Rightarrow> cache_inv e s' \<and>
    (case lookup s (key_of s it) of
       None \<Rightarrow> r = ANNEX_NOT_FOUND \<and> view s' = (view s)(key_of s it := None)
     | Some v \<Rightarrow> r \<noteq> ANNEX_NOT_FOUND
         \<and> (r = ANNEX_OVERSIZED \<longrightarrow> view s' = view s)
         \<and> (r = ANNEX_EOM \<longrightarrow> view s' \<subseteq>\<^sub>m view s \<and> view s' (key_of s it) = view s (key_of s it))
         \<and> (r = ANNEX_OK \<longrightarrow> view s' (key_of s it) = Some (annex_entry b s it v)
              \<and> (\<forall>k. k \<noteq> key_of s it \<longrightarrow> view s' k = None \<or> view s' k = view s k)))"
proof -
  have room1: "room 1 s" using assms(2) by (auto simp: room_def)
  obtain r out s' where a: "item_annex e b it s = ((r, out), s')" by (metis surj_pair)
  obtain o1 s1 where g: "item_get_op (key_of s it) s = (o1, s1)" by fastforce
  show ?thesis
  proof (cases o1)
    case None
    then have "r = ANNEX_NOT_FOUND" "s' = s1" using a g by (simp_all add: item_annex_def)
    then show ?thesis using item_get_None(1-3) [OF assms(1) g [unfolded None]] a by simp
  next
    case (Some oit)
    note g' = g [unfolded Some]
    show ?thesis
      using annex_found [OF assms g' a] item_get_Some(2) [OF assms(1) room1 g'] a by simp
  qed
qed

section \<open>Incr and decr\<close>

lemma item_set_cas_write:
  "(item_set_cas c i)\<lparr>it_end := m, it_nbyte := n\<rparr> = item_set_cas c (i\<lparr>it_end := m, it_nbyte := n\<rparr>)"
  by (simp add: item_set_cas_def)

lemma delta_fields:
  "items (upd_item it (\<lambda>i. i\<lparr>it_nbyte := n\<rparr>) (item_write it d bs (item_set_next_cas it s))) = (items s)(it := rewritten s it d bs n)"
  "slabs (upd_item it (\<lambda>i. i\<lparr>it_nbyte := n\<rparr>) (item_write it d bs (item_set_next_cas it s))) = slabs s"
  "slabclasses (upd_item it (\<lambda>i. i\<lparr>it_nbyte := n\<rparr>) (item_write it d bs (item_set_next_cas it s))) = slabclasses s"
  "slabclass_max_id (upd_item it (\<lambda>i. i\<lparr>it_nbyte := n\<rparr>) (item_write it d bs (item_set_next_cas it s))) = slabclass_max_id s"
  "heap (upd_item it (\<lambda>i. i\<lparr>it_nbyte := n\<rparr>) (item_write it d bs (item_set_next_cas it s))) = heap s"
  "item_lruq (upd_item it (\<lambda>i. i\<lparr>it_nbyte := n\<rparr>) (item_write it d bs (item_set_next_cas it s))) = item_lruq s"
  "hashtbl (upd_item it (\<lambda>i. i\<lparr>it_nbyte := n\<rparr>) (item_write it d bs (item_set_next_cas it s))) = hashtbl s"
  "now (upd_item it (\<lambda>i. i\<lparr>it_nbyte := n\<rparr>) (item_write it d bs (item_set_next_cas it s))) = now s"
  "settings (upd_item it (\<lambda>i. i\<lparr>it_nbyte := n\<rparr>) (item_write it d bs (item_set_next_cas it s))) = settings s"
  "nmalloc (upd_item it (\<lambda>i. i\<lparr>it_nbyte := n\<rparr>) (item_write it d bs (item_set_next_cas it s))) = nmalloc s"
  "ub (upd_item it (\<lambda>i. i\<lparr>it_nbyte := n\<rparr>) (item_write it d bs (item_set_next_cas it s))) = ub s"
  by (simp_all add: item_set_next_cas_def item_next_cas_def item_write_def upd_item_def rewritten_def next_cas_def
      item_set_cas_write)

text \<open>
  What an in-place change leaves as the value: the digits, unless the item is right-aligned and
  the number got shorter; then the payload starts further right than where the digits were put.
\<close>

definition delta_stored :: "bool \<Rightarrow> bytes \<Rightarrow> bytes \<Rightarrow> bytes" where
  "delta_stored ralign buf old =
     (if length buf \<le> length old \<and> ralign then drop (length old - length buf) (buf @ drop (length buf) old) else buf)"

lemma rd_bytes_drop: "k \<le> n \<Longrightarrow> rd_bytes m (d + k) (n - k) = drop k (rd_bytes m d n)"
  by (rule nth_equalityI) (simp_all add: add.assoc)

lemma rd_wr_prefix: "length bs \<le> n \<Longrightarrow> rd_bytes (wr_bytes m d bs) d n = bs @ drop (length bs) (rd_bytes m d n)"
  using rd_wr_prepend [of bs "length bs" m d "n - length bs"] rd_bytes_drop [of "length bs" n m d] by simp

lemma delta_in_place_store:
  assumes inv: "cache_inv e s" and it: "it \<in> linked_items s" and len: "length buf \<le> unat (it_nbyte (items s it))"
    and n: "n = of_nat (length buf)"
    and s': "s' = upd_item it (\<lambda>i. i\<lparr>it_nbyte := n\<rparr>) (item_write it (item_data s it) buf (item_set_next_cas it s))"
  shows "cache_inv e s'" and "linked_items s' = linked_items s" and "it_refcount (items s' it) = it_refcount (items s it)"
    and "view s' = (view s)(key_of s it \<mapsto> (entry_of s it)\<lparr>
           en_value := delta_stored (item_is_raligned (items s it)) buf (item_value s it), en_cas := next_cas s\<rparr>)"
proof -
  have i: "cache_inv_L {} e s" using inv by (simp add: cache_inv_iff)
  have lv: "it \<in> live s" "item_is_linked (items s it)" using it by (simp_all add: linked_items_def)
  note U = used_item_fits [OF i lv(1)]
  have un: "unat n = length buf"
    using len U(3) lv(2) by (simp add: n unsigned_of_nat take_bit_nat_eq_self)
  let ?z = "slab_item_size s (it_id (items s it))" and ?d = "item_data s it"
  have u2: "item_ntotal (it_nkey (items s it)) (it_nbyte (items s it)) (item_has_cas (items s it)) \<le> ?z"
    using U(1,2) lv(2) by simp
  have d: "item_key_off (items s it) + it_nkey (items s it) \<le> ?d"
    "ITEM_HDR_SIZE + ?d + unat (it_nbyte (items s it)) \<le> ?z"
    using item_data_bounds [OF u2] by simp_all
  have fit: "item_ntotal (it_nkey (items s it)) n (use_cas (settings s)) \<le> ?z"
    using U(1,2) lv(2) len un by (simp add: item_ntotal_def)
  note F = delta_fields [of it n ?d buf s, folded s']
  note R = rewritten_store [OF inv it d(1) fit, of s' buf]
  show "cache_inv e s'" "linked_items s' = linked_items s" using R(1,3) F by simp_all
  show "it_refcount (items s' it) = it_refcount (items s it)" by (simp add: F(1))
  have z': "slab_item_size s' = slab_item_size s" by (simp add: slab_item_size_def F(3) fun_eq_iff)
  have "item_value s' it = delta_stored (item_is_raligned (items s it)) buf (item_value s it)"
  proof (cases "item_is_raligned (items s it)")
    case False
    then have "item_data s' it = ?d" by (simp add: item_data_def Let_def F(1))
    then show ?thesis using False by (simp add: item_value_def delta_stored_def) (simp add: F(1) un)
  next
    case True
    let ?k = "unat (it_nbyte (items s it)) - length buf"
    have "?d = ?z - unat (it_nbyte (items s it)) - ITEM_HDR_SIZE" using True by (simp add: item_data_def Let_def)
    then have "item_data s' it = ?d + ?k"
      using True len d by (simp add: item_data_def Let_def F(1) z' un)
    then have "item_value s' it = rd_bytes (wr_bytes (it_end (items s it)) ?d buf) (?d + ?k) (unat (it_nbyte (items s it)) - ?k)"
      using len by (simp add: item_value_def) (simp add: F(1) un)
    also have "\<dots> = drop ?k (rd_bytes (wr_bytes (it_end (items s it)) ?d buf) ?d (unat (it_nbyte (items s it))))"
      by (rule rd_bytes_drop) simp
    finally show ?thesis
      using True len rd_wr_prefix [OF len, of "it_end (items s it)" ?d] by (simp add: delta_stored_def) (simp add: item_value_def)
  qed
  then show "view s' = (view s)(key_of s it \<mapsto> (entry_of s it)\<lparr>
           en_value := delta_stored (item_is_raligned (items s it)) buf (item_value s it), en_cas := next_cas s\<rparr>)"
    using R(2) F by (simp add: entry_of_def)
qed


lemma length_print_u64: "length (print_dec (unat (v :: u64))) \<le> 20"
proof -
  have "unat v < 10 ^ Suc 19" using unsigned_less [of v, where 'a = nat] by simp
  then show ?thesis using length_print_dec [of "unat v" 19] by simp
qed

text \<open>The alignment of the item found under a key.\<close>

definition key_ralign :: "cache \<Rightarrow> bytes \<Rightarrow> bool" where
  "key_ralign s key = (case index_find s key of None \<Rightarrow> False | Some it \<Rightarrow> item_is_raligned (items s it))"

definition delta_entry :: "cache \<Rightarrow> bytes \<Rightarrow> u64 \<Rightarrow> entry \<Rightarrow> entry" where
  "delta_entry s key v en =
     en\<lparr>en_value := delta_stored (key_ralign s key) (print_dec (unat v)) (en_value en), en_cas := next_cas s\<rparr>"

lemma delta_realloc_store:
  assumes inv: "cache_inv e s" and o: "it \<in> linked_items s" "it_refcount (items s it) \<noteq> 0"
    and nit: "pending s nit" "key_of s nit = key_of s it" "\<not> item_is_raligned (items s nit)"
    and len: "length buf = unat (it_nbyte (items s nit))"
    and s1: "s1 = item_write nit (item_data s nit) buf s"
    and s': "s' = item_remove_op nit (item_remove_op it (item_relink e it nit s1))"
  shows "cache_inv e s'" and "view s' = (view s)(key_of s it \<mapsto> \<lparr>en_value = buf,
           en_dataflags = it_dataflags (items s nit), en_exptime = it_exptime (items s nit), en_cas = next_cas s\<rparr>)"
proof -
  have ne: "nit \<noteq> it" using o nit by (auto simp: pending_def linked_items_def)
  let ?m = "wr_bytes (it_end (items s nit)) (item_data s nit) buf"
  have s1': "s1 = s\<lparr>items := (items s)(nit := (items s nit)\<lparr>it_end := ?m\<rparr>)\<rparr>" by (simp add: s1 item_write_eq)
  note W = fill_new_item [OF inv nit(1) len, of "items s nit" False "item_data s nit" s1 ?m]
  have pre: "items s nit = (if False then (items s nit)\<lparr>it_flags := it_flags (items s nit) OR ITEM_RALIGN\<rparr> else items s nit)"
    "item_data s nit = item_data (s\<lparr>items := (items s)(nit := items s nit)\<rparr>) nit"
    "rd_bytes ?m (item_data s nit) (length buf) = buf" "\<And>j. j < item_data s nit \<Longrightarrow> ?m j = it_end (items s nit) j"
    by (simp_all add: item_data_def Let_def slab_item_size_def wr_bytes_def rd_wr_bytes_same [unfolded wr_bytes_def])
  note W = W [OF pre(1) nit(3) pre(2) s1' pre(3,4)]
  have o1: "it \<in> linked_items s1" "it_refcount (items s1 it) \<noteq> 0" "key_of s1 it = key_of s1 nit"
    using o W(4,5) nit(2) ne by (simp_all add: s1')
  note R = item_relink_store [OF W(1,2) o1]
  let ?s2 = "item_remove_op it (item_relink e it nit s1)"
  have iv: "cache_inv_L {} e ?s2" "set (slab_table (heap ?s2)) = active ?s2" using R(1) by (auto simp: cache_inv_iff)
  have r: "it_refcount (items ?s2 nit) \<noteq> 0" using R(4) W(9) nit(1) by (simp add: pending_def)
  note V = item_remove_view [OF iv(1) R(3) _ r refl]
  show "cache_inv e s'" using V(1,8) iv(2) by (simp add: cache_inv_iff s')
  show "view s' = (view s)(key_of s it \<mapsto> \<lparr>en_value = buf,
           en_dataflags = it_dataflags (items s nit), en_exptime = it_exptime (items s nit), en_cas = next_cas s\<rparr>)"
    using V(6) R(2) W(4,6-8) nit(2) by (simp add: s' entry_of_def)
qed

lemma delta_found:
  assumes inv: "cache_inv e s" and room: "room 2 s" and env: "env_ok e s"
    and ids: "\<And>n. n \<le> 20 \<Longrightarrow> item_slabid s (length key) (of_nat n) \<noteq> SLABCLASS_INVALID_ID"
    and g: "item_get_op key s = (Some it, s1)" and num: "mc_strtoull_len (item_value s it) = Some x"
    and r: "item_delta e key incr d s = ((r, out), s')" and v: "v = delta_value incr d x"
  shows "cache_inv e s'" and "out = Some v"
    and "r = DELTA_EOM \<and> view s' \<subseteq>\<^sub>m view s \<and> view s' key = view s key
       \<or> r = DELTA_OK \<and> view s' key = Some (delta_entry s key v (entry_of s it))
          \<and> (\<forall>k. k \<noteq> key \<longrightarrow> view s' k = None \<or> view s' k = view s k)"
proof -
  have room1: "room 1 s" using room by (auto simp: room_def)
  note S = item_get_Some [OF inv room1 g]
  let ?i = "items s1 it"
  define buf where "buf = print_dec (unat v)"
  define res where "res = (of_nat (length buf) :: u32)"
  have i: "cache_inv_L {} e s" and i1: "cache_inv_L {} e s1" using inv S(1) by (auto simp: cache_inv_iff)
  have o1: "it \<in> linked_items s1" "it \<in> live s1" "it_refcount ?i \<noteq> 0" using S(4,7) by (auto simp: linked_items_def)
  have val: "item_value s1 a = item_value s a" and ent: "entry_of s1 a = entry_of s a" for a
    using S(10) [of a] by (simp_all add: entry_of_def)
  have nc: "next_cas s1 = next_cas s" by (simp add: next_cas_def S(8))
  have k: "key_of s1 it = key" using S(5,6) by simp
  have lk: "it_nkey ?i = length key" using k by (metis item_key_def key_of_def length_rd_bytes)
  have bl: "length buf \<le> 20" unfolding buf_def by (rule length_print_u64)
  have un: "unat res = length buf" using bl by (simp add: res_def unsigned_of_nat take_bit_nat_eq_self)
  have ra: "key_ralign s key = item_is_raligned ?i"
    using g by (auto simp: key_ralign_def item_get_op_eq S(8) split: option.splits if_splits)
  have sid: "item_slabid s1 = item_slabid s"
    by (simp add: fun_eq_iff item_slabid_def slab_id_def S(8) geo_live(4) [OF acquire_fields(5)])
  have eq: "item_delta e key incr d s =
     (if res > it_nbyte ?i then
        (case item_alloc e (item_slabid s1 (it_nkey ?i) res) (key_of s1 it) (it_dataflags ?i) (it_exptime ?i) res s1 of
           (None, s) \<Rightarrow> ((DELTA_EOM, Some v), item_remove_op it s)
         | (Some nit, s) \<Rightarrow> ((DELTA_OK, Some v),
              item_remove_op nit (item_remove_op it (item_relink e it nit (item_write nit (item_data s nit) buf s)))))
      else ((DELTA_OK, Some v), item_remove_op it
         (upd_item it (\<lambda>i. i\<lparr>it_nbyte := res\<rparr>) (item_write it (item_data (item_set_next_cas it s1) it) buf (item_set_next_cas it s1)))))"
    unfolding item_delta_def Let_def buf_def res_def v by (simp add: g num val)
  have rel: "cache_inv e (item_remove_op it s2) \<and> view (item_remove_op it s2) = view s2"
    if "cache_inv e s2" "it \<in> live s2" "it_refcount (items s2 it) \<noteq> 0" for s2
    using item_remove_view(1,6,8) [of "{}" e s2 it] that by (auto simp: cache_inv_iff)
  have "cache_inv e s' \<and> out = Some v \<and> (r = DELTA_EOM \<and> view s' \<subseteq>\<^sub>m view s \<and> view s' key = view s key
       \<or> r = DELTA_OK \<and> view s' key = Some (delta_entry s key v (entry_of s it))
          \<and> (\<forall>k. k \<noteq> key \<longrightarrow> view s' k = None \<or> view s' k = view s k))"
  proof (cases "res > it_nbyte ?i")
    case False
    have len: "length buf \<le> unat (it_nbyte ?i)" using False un by (simp add: word_less_nat_alt)
    have dd: "item_data (item_set_next_cas it s1) it = item_data s1 it"
      by (simp add: item_set_next_cas_def item_next_cas_def item_data_def Let_def upd_item_def slab_item_size_def)
    define s2 where "s2 = upd_item it (\<lambda>i. i\<lparr>it_nbyte := res\<rparr>) (item_write it (item_data s1 it) buf (item_set_next_cas it s1))"
    note P = delta_in_place_store [OF S(1) o1(1) len res_def s2_def]
    have o2: "it \<in> live s2" "it_refcount (items s2 it) \<noteq> 0" using P(2,3) o1 by (auto simp: linked_items_def)
    have r': "r = DELTA_OK" "out = Some v" "s' = item_remove_op it s2" using r eq False dd by (simp_all add: s2_def)
    show ?thesis
      using rel [OF P(1) o2] P(4) S(3) k r' ra val nc ent
      by (simp add: delta_entry_def buf_def) (simp add: entry_of_def)
  next
    case True
    define cid where "cid = item_slabid s1 (it_nkey ?i) res"
    have "cid \<noteq> SLABCLASS_INVALID_ID" using ids [OF bl] by (simp add: cid_def sid lk res_def)
    note V = item_slabid_fits [OF i1 cid_def [symmetric] this]
    obtain o2 s2 where al: "item_alloc e cid key (it_dataflags ?i) (it_exptime ?i) res s1 = (o2, s2)" by fastforce
    have e1: "env_ok e s1" unfolding S(8) by (rule env_ok_acquire [OF env])
    have "it \<in> linked_items s" using S(4,11) by simp
    then have lv: "it \<in> live s" by (simp add: linked_items_def)
    have rm1: "room 1 s1" unfolding S(8) by (rule room_acquire [OF i lv]) (use room in \<open>simp add: numeral_2_eq_2\<close>)
    note A = item_alloc_inv [OF S(1) e1 V(1) rm1 _ al] and fit = V(2) [unfolded lk]
    note H = preserves_held [OF S(1) A(1) [OF fit] A(2) [OF fit] o1(2,3)]
    have o2': "it \<in> linked_items s2" "it_refcount (items s2 it) \<noteq> 0" "it \<in> live s2" using H(2,5) o1 H(1) by auto
    have le: "view s2 \<subseteq>\<^sub>m view s" using A(3) [OF fit] S(3) by simp
    have same: "view s2 key = view s key" using H(5) o1(1) k S(3) by simp
    have al': "item_alloc e (item_slabid s1 (it_nkey ?i) res) (key_of s1 it) (it_dataflags ?i) (it_exptime ?i) res s1 = (o2, s2)"
      using al by (simp add: cid_def k)
    show ?thesis
    proof (cases o2)
      case None
      then have "r = DELTA_EOM" "out = Some v" "s' = item_remove_op it s2" using r eq True al' by simp_all
      then show ?thesis using rel [OF A(1) [OF fit] o2'(3,2)] le same by simp
    next
      case (Some nit)
      note N = A(4) [OF fit Some]
      have r': "r = DELTA_OK" "out = Some v"
        "s' = item_remove_op nit (item_remove_op it (item_relink e it nit (item_write nit (item_data s2 nit) buf s2)))"
        using r eq True al' Some by simp_all
      have nit: "pending s2 nit" "key_of s2 nit = key_of s2 it" "\<not> item_is_raligned (items s2 nit)"
        using N H(3) k by (auto simp: pending_def)
      have len: "length buf = unat (it_nbyte (items s2 nit))" using N un by simp
      note C = delta_realloc_store [OF A(1) [OF fit] o2'(1,2) nit len refl r'(3)]
      have "next_cas s2 = next_cas s1" using A(2) [OF fit] by (simp add: preserves_def next_cas_def)
      then have cn: "next_cas s2 = next_cas s" by (simp add: nc)
      have "view s2 k' = None \<or> view s2 k' = view s k'" for k' using le by (auto simp: map_le_def dom_def)
      moreover have "\<not> length buf \<le> length (item_value s it)" using True un val [of it]
        by (metis length_item_value linorder_not_le word_less_nat_alt)
      then have "delta_stored (key_ralign s key) (print_dec (unat v)) (en_value (entry_of s it)) = buf"
        by (simp add: delta_stored_def entry_of_def buf_def)
      ultimately show ?thesis
        using C N H(3) k cn r'(1,2) ent [of it] by (simp add: delta_entry_def) (simp add: entry_of_def)
    qed
  qed
  then show "cache_inv e s'" "out = Some v" "r = DELTA_EOM \<and> view s' \<subseteq>\<^sub>m view s \<and> view s' key = view s key
       \<or> r = DELTA_OK \<and> view s' key = Some (delta_entry s key v (entry_of s it))
          \<and> (\<forall>k. k \<noteq> key \<longrightarrow> view s' k = None \<or> view s' k = view s k)" by blast+
qed


text \<open>
  Incr and decr. On a visible key whose value is a number the command replies with the sum
  modulo 2 to the 64, or with the difference cut off at zero, and stores it in decimal, with the
  old flags and expiry and a fresh cas id; when a new item was needed and none could be had, it
  says so and the entry stays. Otherwise the reply tells whether the key or the number was
  missing, and no other entry changes. The stored bytes are \<open>delta_stored\<close>: the decimal digits,
  except for a right-aligned item whose number gets shorter.
\<close>

lemma item_delta_spec:
  assumes "cache_inv e s" and "room 2 s" and "env_ok e s"
    and "\<And>n. n \<le> 20 \<Longrightarrow> item_slabid s (length key) (of_nat n) \<noteq> SLABCLASS_INVALID_ID"
  shows "case item_delta e key incr d s of ((r, out), s') \<Rightarrow> cache_inv e s' \<and>
    (case lookup s key of
       None \<Rightarrow> r = DELTA_NOT_FOUND \<and> view s' = (view s)(key := None)
     | Some en \<Rightarrow>
         (case mc_strtoull_len (en_value en) of
            None \<Rightarrow> r = DELTA_NON_NUMERIC \<and> view s' = view s
          | Some x \<Rightarrow> out = Some (delta_value incr d x) \<and>
              (r = DELTA_EOM \<and> view s' \<subseteq>\<^sub>m view s \<and> view s' key = view s key
               \<or> r = DELTA_OK \<and> view s' key = Some (delta_entry s key (delta_value incr d x) en)
                  \<and> (\<forall>k. k \<noteq> key \<longrightarrow> view s' k = None \<or> view s' k = view s k))))"
proof -
  have room1: "room 1 s" using assms(2) by (auto simp: room_def)
  obtain r out s' where a: "item_delta e key incr d s = ((r, out), s')" by (metis surj_pair)
  obtain o1 s1 where g: "item_get_op key s = (o1, s1)" by fastforce
  show ?thesis
  proof (cases o1)
    case None
    then have "r = DELTA_NOT_FOUND" "s' = s1" using a g by (simp_all add: item_delta_def)
    then show ?thesis using item_get_None(1-3) [OF assms(1) g [unfolded None]] a by simp
  next
    case (Some it)
    note g' = g [unfolded Some]
    note S = item_get_Some [OF assms(1) room1 g']
    have v: "item_value s1 it = item_value s it" using S(10) [of it] by (simp add: entry_of_def)
    show ?thesis
    proof (cases "mc_strtoull_len (item_value s it)")
      case None
      then have "r = DELTA_NON_NUMERIC" "s' = item_remove_op it s1" using a g' v by (simp_all add: item_delta_def)
      then show ?thesis using release_found [OF assms(1) room1 g'] S(2) None a by (simp add: entry_of_def)
    next
      case (Some x)
      show ?thesis using delta_found [OF assms g' Some a refl] S(2) Some a by (simp add: entry_of_def)
    qed
  qed
qed

section \<open>Room for references\<close>

text \<open>An allocation takes at most one of the references there is room for.\<close>

lemma item_alloc_room:
  assumes inv: "cache_inv e s" and env: "env_ok e s" and v: "valid_id s cid" and room: "room (Suc k) s" "Suc k \<le> 65535"
    and r: "item_alloc e cid key d x n s = (res, s')"
  shows "room k s'"
proof -
  have inv': "cache_inv_L {} e s" "set (slab_table (heap s)) = active s" using inv by (auto simp: cache_inv_iff)
  obtain o1 s1 where 1: "alloc_pick e cid s = (o1, s1)" by fastforce
  note P = alloc_pick_inv [OF inv' env v 1]
  have "settings (snd (slab_get_item e cid s)) = settings s"
    using slab_get_item_inv(2) [OF inv' env v, of "fst (slab_get_item e cid s)" "snd (slab_get_item e cid s)"]
    by (simp add: keeps_def preserves_def)
  then have eq: "item_alloc e cid key d x n s =
     (case o1 of None \<Rightarrow> (None, tincr THREAD_server_error s1) | Some it \<Rightarrow> (Some it, item_alloc_done it cid key d x n s1))"
    using inv'(1) v by (subst item_alloc_pick) (auto simp: 1 cache_inv_L_def class_ok_def valid_id_def)
  have r1: "room (k + 1) s1" using keeps_room [OF P(2) room] room(2) by simp
  show ?thesis
  proof (cases o1)
    case None
    then have "s' = tincr THREAD_server_error s1" using r eq by simp
    then show ?thesis using r1 by (auto simp: room_def upd_defs)
  next
    case (Some it)
    have inv1: "cache_inv_L {it} e s1" using P(1) Some by simp
    then have "it \<in> live s1" by (auto simp: cache_inv_L_def no_leak_def)
    from room_acquire [OF inv1 this r1]
    have "room k (item_acquire_refcount it s1)" .
    moreover have "slabs s' = slabs (item_acquire_refcount it s1)" "heap s' = heap (item_acquire_refcount it s1)"
      using r eq Some by (auto simp: item_alloc_done_def Let_def upd_defs)
    ultimately show ?thesis by (simp add: room_def)
  qed
qed

end
