(* ===== verification/McBoot.thy ===== *)
theory McBoot
  imports McAnnex
begin

text \<open>
  Start-up of the cache: the slab size profile, generated or parsed from \<^verbatim>\<open>--slab-profile\<close>
  (\<^verbatim>\<open>mc.c\<close>), and the part of \<^verbatim>\<open>core_init\<close> (\<^verbatim>\<open>mc_core.c\<close>) that sets up the hash table, the lru
  queues and the slab allocator. A profile that passes start-up makes an initial state that
  satisfies the cache invariant.
\<close>

section \<open>Slab profiles\<close>

definition MC_ALIGNMENT :: nat where "MC_ALIGNMENT = 8"

text \<open>The macro masks the low bits; for the power of two it is used with, that is a division.\<close>

definition MC_ALIGN :: "nat \<Rightarrow> nat \<Rightarrow> nat" where
  "MC_ALIGN d n = (d + (n - 1)) div n * n"

definition ITEM_MIN_CHUNK_SIZE :: nat where
  "ITEM_MIN_CHUNK_SIZE = MC_ALIGN (ITEM_HDR_SIZE + (2 + 8)) MC_ALIGNMENT"

definition MC_UINT32_MAXLEN :: nat where "MC_UINT32_MAXLEN = 11"

text \<open>
  The loop of \<^verbatim>\<open>mc_generate_profile\<close>; \<open>scale\<close> is the multiplication of a size by the floating point
  \<^verbatim>\<open>settings.factor\<close>, truncated.
\<close>

function generate_loop :: "(nat \<Rightarrow> nat) \<Rightarrow> nat \<Rightarrow> nat \<Rightarrow> nat \<Rightarrow> (nat \<Rightarrow> nat) \<Rightarrow> nat \<times> (nat \<Rightarrow> nat)" where
  "generate_loop scale max_item_sz cid item_sz prof =
     (if cid < SLABCLASS_MAX_ID \<and> item_sz < max_item_sz then
        (let last_item_sz = item_sz;
             prof = prof(cid := item_sz);
             item_sz = scale item_sz;
             item_sz = (if item_sz = last_item_sz then item_sz + 1 else item_sz);
             item_sz = MC_ALIGN item_sz MC_ALIGNMENT
         in generate_loop scale max_item_sz (cid + 1) item_sz prof)
      else (cid, prof))"
  by pat_completeness auto
termination
  by (relation "measure (\<lambda>(scale, mx, cid, sz, prof). SLABCLASS_MAX_ID - cid)") (auto simp: Let_def)

declare generate_loop.simps [simp del]

definition mc_generate_profile :: "(nat \<Rightarrow> nat) \<Rightarrow> settings \<Rightarrow> settings" where
  "mc_generate_profile scale st =
     (let min_item_sz = chunk_size st;
          max_item_sz = slab_size st;
          (cid, prof) = generate_loop scale max_item_sz SLABCLASS_MIN_ID min_item_sz (profile st)
      in st\<lparr>profile := prof(cid := max_item_sz), profile_last_id := cid, max_chunk_size := max_item_sz\<rparr>)"

function parse_loop :: "nat \<Rightarrow> nat \<Rightarrow> (nat \<Rightarrow> nat) \<Rightarrow> bytes \<Rightarrow> (nat \<times> (nat \<Rightarrow> nat)) option" where
  "parse_loop max_item_sz cid prof ptr =
     (if cid < SLABCLASS_MAX_ID then
        (let tok = takeWhile (\<lambda>c. c \<noteq> CHR '','') ptr;
             rest = dropWhile (\<lambda>c. c \<noteq> CHR '','') ptr;
             eos = (rest = [])
         in if length tok \<ge> MC_UINT32_MAXLEN then None
            else
              (case mc_strtoul tok of
                 None \<Rightarrow> None
               | Some w \<Rightarrow>
                   (let item_sz = unat w in
                    if item_sz mod MC_ALIGNMENT \<noteq> 0 then None
                    else if item_sz < ITEM_MIN_CHUNK_SIZE then None
                    else if item_sz > max_item_sz then None
                    else if cid \<ge> SLABCLASS_MIN_ID \<and> item_sz \<le> prof cid then None
                    else if eos then Some (cid + 1, prof(cid + 1 := item_sz))
                    else parse_loop max_item_sz (cid + 1) (prof(cid + 1 := item_sz)) (tl rest))))
      else None)"
  by pat_completeness auto
termination
  by (relation "measure (\<lambda>(mx, cid, prof, ptr). SLABCLASS_MAX_ID - cid)") (auto simp: Let_def)

declare parse_loop.simps [simp del]

definition mc_parse_profile :: "bytes \<Rightarrow> settings \<Rightarrow> settings option" where
  "mc_parse_profile profile_optarg st =
     (case parse_loop (slab_size st) (SLABCLASS_MIN_ID - 1) (profile st) profile_optarg of
        None \<Rightarrow> None
      | Some (cid, prof) \<Rightarrow> 
          Some (st\<lparr>profile := prof, chunk_size := prof SLABCLASS_MIN_ID, profile_last_id := cid,
                   max_chunk_size := prof cid\<rparr>))"

definition mc_set_profile :: "bytes option \<Rightarrow> (nat \<Rightarrow> nat) \<Rightarrow> settings \<Rightarrow> settings option" where
  "mc_set_profile parse_profile scale st =
     (case parse_profile of
        Some profile_optarg \<Rightarrow> mc_parse_profile profile_optarg st
      | None \<Rightarrow> Some (mc_generate_profile scale st))"

definition profile_ok :: "settings \<Rightarrow> bool" where
  "profile_ok st \<longleftrightarrow> SLABCLASS_MIN_ID \<le> profile_last_id st \<and> profile_last_id st \<le> SLABCLASS_MAX_ID
     \<and> ascending (profile st) (profile_last_id st)
     \<and> (\<forall>cid. SLABCLASS_MIN_ID \<le> cid \<and> cid \<le> profile_last_id st \<longrightarrow>
          ITEM_MIN_CHUNK_SIZE \<le> profile st cid \<and> profile st cid \<le> slab_size st)"

section \<open>Both ways to make a profile make a good one\<close>

lemma MC_ALIGN_ge: "d \<le> MC_ALIGN d MC_ALIGNMENT"
  unfolding MC_ALIGN_def MC_ALIGNMENT_def by presburger

text \<open>A profile that is good below the class the loop is at.\<close>

definition prefix_ok :: "(nat \<Rightarrow> nat) \<Rightarrow> nat \<Rightarrow> nat \<Rightarrow> bool" where
  "prefix_ok prof cid mx \<longleftrightarrow> ascending prof cid
     \<and> (\<forall>j. SLABCLASS_MIN_ID \<le> j \<and> j \<le> cid \<longrightarrow> ITEM_MIN_CHUNK_SIZE \<le> prof j \<and> prof j \<le> mx)"

lemma prefix_ok_0: "prefix_ok prof 0 mx"
  by (auto simp: prefix_ok_def ascending_def SLABCLASS_MIN_ID_def)

lemma prefix_ok_extend:
  assumes "prefix_ok prof cid mx" and "ITEM_MIN_CHUNK_SIZE \<le> z" and "z \<le> mx"
    and "SLABCLASS_MIN_ID \<le> cid \<Longrightarrow> prof cid < z"
  shows "prefix_ok (prof(cid + 1 := z)) (cid + 1) mx"
proof -
  have lt: "prof i < z" if "SLABCLASS_MIN_ID \<le> i" "i \<le> cid" for i
    using assms(1,4) that ascending_le [of prof cid i cid] by (fastforce simp: prefix_ok_def)
  show ?thesis
    unfolding prefix_ok_def ascending_def
  proof (intro conjI allI impI)
    fix i j assume ij: "SLABCLASS_MIN_ID \<le> i" "i < j" "j \<le> cid + 1"
    show "(prof(cid + 1 := z)) i < (prof(cid + 1 := z)) j"
      using ij lt [of i] assms(1) by (cases "j = cid + 1") (auto simp: prefix_ok_def ascending_def)
  qed (use assms in \<open>auto simp: prefix_ok_def\<close>)
qed

lemma generate_loop_ok:
  assumes "\<And>x. x < mx \<Longrightarrow> x \<le> scale x" and "prefix_ok prof (cid - 1) (mx - 1)" and "1 \<le> cid" and "cid \<le> SLABCLASS_MAX_ID"
    and "ITEM_MIN_CHUNK_SIZE \<le> z" and "2 \<le> cid \<Longrightarrow> prof (cid - 1) < z"
    and "generate_loop scale mx cid z prof = (cid', prof')"
  shows "prefix_ok prof' (cid' - 1) (mx - 1) \<and> 1 \<le> cid' \<and> cid' \<le> SLABCLASS_MAX_ID"
  using assms
proof (induction scale mx cid z prof rule: generate_loop.induct)
  case (1 scale mx cid z prof)
  show ?case
  proof (cases "cid < SLABCLASS_MAX_ID \<and> z < mx")
    case True
    let ?z1 = "if scale z = z then scale z + 1 else scale z"
    have z1: "z < ?z1" using "1.prems"(1) [of z] True by (simp add: le_neq_implies_less)
    then have z2: "z < MC_ALIGN ?z1 MC_ALIGNMENT" using MC_ALIGN_ge [of ?z1] by linarith
    have e: "prefix_ok (prof(cid - 1 + 1 := z)) (cid - 1 + 1) (mx - 1)"
      by (rule prefix_ok_extend) (use "1.prems" True in \<open>auto simp: SLABCLASS_MIN_ID_def\<close>)
    have "generate_loop scale mx (cid + 1) (MC_ALIGN ?z1 MC_ALIGNMENT) (prof(cid := z)) = (cid', prof')"
      using "1.prems"(7) True by (subst (asm) generate_loop.simps) (simp add: Let_def)
    moreover have "prefix_ok (prof(cid := z)) (cid + 1 - 1) (mx - 1)" using e "1.prems"(3) by simp
    moreover have "ITEM_MIN_CHUNK_SIZE \<le> MC_ALIGN ?z1 MC_ALIGNMENT" using z2 "1.prems"(5) by linarith
    ultimately show ?thesis
      using "1.IH" [OF True refl refl refl refl refl "1.prems"(1)] z2 True by fastforce
  next
    case False
    then show ?thesis using "1.prems" by (subst (asm) generate_loop.simps) (auto simp: Let_def)
  qed
qed

lemma mc_generate_profile_ok:
  assumes "\<And>x. x < slab_size st \<Longrightarrow> x \<le> scale x" and "ITEM_MIN_CHUNK_SIZE \<le> chunk_size st" and "ITEM_MIN_CHUNK_SIZE \<le> slab_size st"
  shows "profile_ok (mc_generate_profile scale st)"
proof -
  let ?mx = "slab_size st"
  obtain cid prof where g: "generate_loop scale ?mx SLABCLASS_MIN_ID (chunk_size st) (profile st) = (cid, prof)" by fastforce
  have mn: "SLABCLASS_MIN_ID = 1" "(1 :: nat) \<le> SLABCLASS_MAX_ID" by (simp_all add: SLABCLASS_MIN_ID_def SLABCLASS_MAX_ID_def)
  have p: "prefix_ok prof (cid - 1) (?mx - 1) \<and> 1 \<le> cid \<and> cid \<le> SLABCLASS_MAX_ID"
    by (rule generate_loop_ok [OF assms(1) _ _ _ assms(2) _ g]) (use mn prefix_ok_0 in auto)
  have "prefix_ok prof (cid - 1) ?mx" using p by (auto simp: prefix_ok_def)
  moreover have "prof (cid - 1) < ?mx" if "SLABCLASS_MIN_ID \<le> cid - 1"
    using p that assms(2,3) by (auto simp: prefix_ok_def ITEM_MIN_CHUNK_SIZE_def MC_ALIGN_def MC_ALIGNMENT_def ITEM_HDR_SIZE_def)
  ultimately have "prefix_ok (prof(cid - 1 + 1 := ?mx)) (cid - 1 + 1) ?mx"
    by (intro prefix_ok_extend) (use assms in auto)
  then have r: "prefix_ok (prof(cid := ?mx)) cid ?mx" using p by simp
  have m: "mc_generate_profile scale st =
    st\<lparr>profile := prof(cid := ?mx), profile_last_id := cid, max_chunk_size := ?mx\<rparr>"
    by (simp add: mc_generate_profile_def g Let_def)
  have sz: "slab_size (st\<lparr>profile := prof(cid := ?mx), profile_last_id := cid, max_chunk_size := ?mx\<rparr>) = ?mx" by (simp add: slab_size_def)
  show ?thesis
    unfolding m profile_ok_def sz using p mn(1) r by (simp add: prefix_ok_def del: fun_upd_apply)
qed

lemma parse_loop_ok:
  assumes "prefix_ok prof cid mx" and "parse_loop mx cid prof ptr = Some (cid', prof')"
  shows "prefix_ok prof' cid' mx \<and> 1 \<le> cid' \<and> cid' \<le> SLABCLASS_MAX_ID"
  using assms
proof (induction mx cid prof ptr rule: parse_loop.induct)
  case (1 mx cid prof ptr)
  let ?tok = "takeWhile (\<lambda>c. c \<noteq> CHR '','') ptr" and ?rest = "dropWhile (\<lambda>c. c \<noteq> CHR '','') ptr"
  have c: "cid < SLABCLASS_MAX_ID" and len: "\<not> MC_UINT32_MAXLEN \<le> length ?tok"
    using "1.prems"(2) by (subst (asm) parse_loop.simps, simp add: Let_def split: if_splits)+
  obtain w where w: "mc_strtoul ?tok = Some w"
    using "1.prems"(2) c len by (subst (asm) parse_loop.simps) (auto simp: Let_def split: option.splits)
  let ?z = "unat w"
  have chk: "\<not> ?z mod MC_ALIGNMENT \<noteq> 0" "\<not> ?z < ITEM_MIN_CHUNK_SIZE" "\<not> mx < ?z"
    "\<not> (SLABCLASS_MIN_ID \<le> cid \<and> ?z \<le> prof cid)"
    using "1.prems"(2) c len w by (subst (asm) parse_loop.simps, simp add: Let_def split: if_splits)+
  have e: "prefix_ok (prof(cid + 1 := ?z)) (cid + 1) mx"
    by (rule prefix_ok_extend [OF "1.prems"(1)]) (use chk in auto)
  show ?case
  proof (cases "?rest = []")
    case True
    then have "(cid', prof') = (cid + 1, prof(cid + 1 := ?z))"
      using "1.prems"(2) c len w chk
      by (subst (asm) parse_loop.simps) (auto simp: Let_def simp del: fun_upd_apply cong: if_cong split: if_splits)
    then show ?thesis using e c by (simp del: fun_upd_apply)
  next
    case False
    have "parse_loop mx (cid + 1) (prof(cid + 1 := ?z)) (tl ?rest) = Some (cid', prof')"
      using "1.prems"(2) c len w chk False
      by (subst (asm) parse_loop.simps) (auto simp: Let_def simp del: fun_upd_apply cong: if_cong split: if_splits)
    from "1.IH" [OF c refl refl refl len w refl chk False e this] show ?thesis .
  qed
qed

lemma mc_parse_profile_ok: "mc_parse_profile arg st = Some st' \<Longrightarrow> profile_ok st'"
  using parse_loop_ok [OF prefix_ok_0, of "slab_size st" "profile st" arg]
  by (auto simp: mc_parse_profile_def profile_ok_def prefix_ok_def SLABCLASS_MIN_ID_def slab_size_def
      split: option.splits prod.splits)


lemma mc_set_profile_ok:
  assumes "mc_set_profile arg scale st = Some st'" and "\<And>x. x < slab_size st \<Longrightarrow> x \<le> scale x"
    and "ITEM_MIN_CHUNK_SIZE \<le> chunk_size st" and "ITEM_MIN_CHUNK_SIZE \<le> slab_size st"
  shows "profile_ok st'"
  using assms mc_parse_profile_ok mc_generate_profile_ok [OF assms(2-4)]
  by (auto simp: mc_set_profile_def split: option.splits)

lemma mc_set_profile_slab_size:
  "mc_set_profile arg scale st = Some st' \<Longrightarrow> slab_size_opt st' = slab_size_opt st"
  by (auto simp: mc_set_profile_def mc_parse_profile_def mc_generate_profile_def Let_def split: option.splits prod.splits)

section \<open>The initial state\<close>

text \<open>
  The calls of \<^verbatim>\<open>core_init\<close> that set up the cache, in their order. \<open>talloc\<close> tells whether the hash table was
  allocated, \<open>base\<close> and \<open>table\<close> are the results of the allocations of \<^verbatim>\<open>slab_init\<close>.
\<close>

definition core_cache_init :: "bool \<Rightarrow> addr \<Rightarrow> bool \<Rightarrow> cache \<Rightarrow> rstatus \<times> cache" where
  "core_cache_init talloc base table s =
     (case assoc_init (hash_power_opt (settings s)) talloc of
        None \<Rightarrow> (MC_ENOMEM, s)
      | Some a \<Rightarrow> slab_init base table (item_init (s\<lparr>hashtbl := a\<rparr>)))"

lemma core_cache_init_status:
  "fst (core_cache_init talloc base table s) = MC_OK \<longleftrightarrow>
     talloc \<and> table \<and> (prealloc (settings s) \<longrightarrow> base \<noteq> 0)"
  by (auto simp: core_cache_init_def assoc_init_def slab_init_def slab_heapinfo_init_def
      slab_slabclass_init_def item_init_def Let_def upd_heap_def)

lemma core_cache_init_fields:
  assumes "core_cache_init talloc base table s = (MC_OK, s')"
  shows "settings s' = settings s" "ub s' = ub s" "items s' = items s"
    "slabclass_max_id s' = profile_last_id (settings s)"
    "\<And>cid. SLABCLASS_MIN_ID \<le> cid \<Longrightarrow> cid \<le> profile_last_id (settings s) \<Longrightarrow>
       slabclasses s' cid = slabclass_entry (settings s) cid (slabclasses s cid)"
    "\<And>cid. SLABCLASS_MIN_ID \<le> cid \<Longrightarrow> cid \<le> SLABCLASS_MAX_ID \<Longrightarrow> item_lruq s' cid = []"
    "slab_table (heap s') = []" "slab_lruq (heap s') = []" "nslab (heap s') = 0"
    "prealloc (settings s) \<Longrightarrow> hi_curr (heap s') \<noteq> 0"
    "assoc_init (hash_power_opt (settings s)) talloc = Some (hashtbl s')"
  using assms
  by (auto simp: core_cache_init_def slab_init_def slab_heapinfo_init_def
      slab_slabclass_init_def item_init_def Let_def upd_heap_def split: option.splits if_splits)

lemma core_cache_init_class:
  assumes "core_cache_init talloc base table s = (MC_OK, s')"
    and "profile_ok (settings s)" and "slab_size_opt (settings s) \<le> 2 ^ 27"
  shows "class_ok s'"
proof -
  note f = core_cache_init_fields [OF assms(1)]
  let ?st = "settings s"
  have pos: "0 < profile ?st cid" "profile ?st cid \<le> slab_size ?st" "ITEM_HDR_SIZE \<le> profile ?st cid"
    if "valid_id s' cid" for cid
    using assms(2) that f(4)
    by (auto simp: profile_ok_def valid_id_def ITEM_MIN_CHUNK_SIZE_def MC_ALIGN_def MC_ALIGNMENT_def ITEM_HDR_SIZE_def)
  have "0 < nitem (slabclasses s' cid) \<and> ITEM_HDR_SIZE \<le> sc_size (slabclasses s' cid)
      \<and> SLAB_HDR_SIZE + nitem (slabclasses s' cid) * sc_size (slabclasses s' cid) \<le> slab_size_opt ?st"
    if v: "valid_id s' cid" for cid
  proof -
    have c: "slabclasses s' cid = slabclass_entry ?st cid (slabclasses s cid)"
      using f(4,5) v by (simp add: valid_id_def)
    have "slab_size ?st div profile ?st cid * profile ?st cid \<le> slab_size ?st"
      by (rule div_times_less_eq_dividend)
    moreover have "SLAB_HDR_SIZE \<le> slab_size_opt ?st" using pos [OF v] by (simp add: slab_size_def)
    ultimately have "SLAB_HDR_SIZE + slab_size ?st div profile ?st cid * profile ?st cid \<le> slab_size_opt ?st"
      unfolding slab_size_def by linarith
    then show ?thesis
      using pos [OF v] by (simp add: c slabclass_entry_def div_greater_zero_iff)
  qed
  moreover have "slab_item_size s' cid = profile ?st cid" if "SLABCLASS_MIN_ID \<le> cid" "cid \<le> profile_last_id ?st" for cid
    using f(5) that by (simp add: slab_item_size_def slabclass_entry_def)
  then have "ascending (slab_item_size s') (profile_last_id ?st)"
    using assms(2) by (auto simp: profile_ok_def ascending_def)
  ultimately show ?thesis
    using assms(2,3) by (simp add: class_ok_def f(1,4) profile_ok_def)
qed

lemma core_cache_init_inv:
  assumes "core_cache_init talloc base table s = (MC_OK, s')"
    and "profile_ok (settings s)" and "slab_size_opt (settings s) \<le> 2 ^ 27" and "\<not> ub s"
  shows "cache_inv e s'" and "view s' = Map.empty"
proof -
  note f = core_cache_init_fields [OF assms(1)]
  have cl: "class_ok s'" by (rule core_cache_init_class [OF assms(1-3)])
  have lv: "live s' = {}" "active s' = {}" by (simp_all add: live_def f(8))
  have v: "slabclasses s' cid = slabclass_entry (settings s) cid (slabclasses s cid)" if "valid_id s' cid" for cid
    using f(4,5) that by (simp add: valid_id_def)
  have r: "run s' cid = {}" if "valid_id s' cid" for cid using v [OF that] by (simp add: run_def slabclass_entry_def)
  have "heap_ok e s'" by (simp add: heap_ok_def f)
  moreover have "freeq_ok s'" using v by (simp add: freeq_ok_def lv slabclass_entry_def)
  moreover have "run_ok s'" using v r by (simp add: run_ok_def slabclass_entry_def)
  moreover have "index_ok s'"
    using assoc_init_inv [OF f(11)] by (simp add: index_ok_def linked_items_def lv)
  ultimately show inv: "cache_inv e s'"
    using cl r assms(4)
    by (simp add: cache_inv_def cache_inv_L_def chunk_ok_def lruq_ok_def flag_ok_def ref_ok_def fit_ok_def
        no_leak_def time_ok_def lv f(2,6,7))
  have "index_find s' key = None" for key
    using inv by (subst index_find_None [of "{}" e]) (auto simp: cache_inv_def linked_items_def lv)
  then show "view s' = Map.empty" by (simp add: view_def fun_eq_iff)
qed

end
