(* ===== verification/McSystem.thy ===== *)
theory McSystem
  imports McBoot
begin

text \<open>
  The cache as a transition system: what the threads of the server do to the shared cache under
  \<^verbatim>\<open>cache_lock\<close>, in any order. Every state a run can reach satisfies the cache invariant, so the
  memory safety statements below hold throughout.
\<close>

section \<open>Steps that are not an operation of \<^verbatim>\<open>mc_items.c\<close>\<close>

text \<open>A worker copies request bytes into the payload area of an item it has allocated.\<close>

lemma inv_item_write:
  assumes inv: "cache_inv e s" and p: "pending s it" and nr: "\<not> item_is_raligned (items s it)"
    and off: "item_data s it \<le> off"
  shows "cache_inv e (item_write it off bs s)"
proof -
  let ?i = "(items s it)\<lparr>it_end := wr_bytes (it_end (items s it)) off bs\<rparr>"
  have i: "cache_inv_L {} e s" "set (slab_table (heap s)) = active s" using inv by (auto simp: cache_inv_iff)
  have l: "it \<in> live s" "it_refcount (items s it) \<noteq> 0" "\<not> item_is_linked (items s it)" using p by (auto simp: pending_def)
  have f: "fits s (items s it)" using i(1) l by (auto simp: cache_inv_L_def fit_ok_def)
  have eq: "item_write it off bs s = s\<lparr>items := (items s)(it := ?i)\<rparr>" by (simp add: item_write_def upd_item_def)
  have "cache_inv_L {} e (item_write it off bs s)"
    by (rule inv_content [OF i(1) l(1) _ _ _ _ _ _ _ _ eq])
      (use l f in \<open>auto simp: flag_defs fits_def item_size_def\<close>)
  then show ?thesis using i(2) by (simp add: cache_inv_iff eq)
qed

text \<open>The request's cas id is kept in the item until it is linked.\<close>

lemma inv_set_cas:
  assumes inv: "cache_inv e s" and p: "pending s it"
  shows "cache_inv e (upd_item it (item_set_cas c) s)"
proof -
  let ?i = "item_set_cas c (items s it)"
  have i: "cache_inv_L {} e s" "set (slab_table (heap s)) = active s" using inv by (auto simp: cache_inv_iff)
  have l: "it \<in> live s" "it_refcount (items s it) \<noteq> 0" "\<not> item_is_linked (items s it)" using p by (auto simp: pending_def)
  have f: "fits s (items s it)" using i(1) l by (auto simp: cache_inv_L_def fit_ok_def)
  have eq: "upd_item it (item_set_cas c) s = s\<lparr>items := (items s)(it := ?i)\<rparr>" by (simp add: upd_item_def)
  have "cache_inv_L {} e (upd_item it (item_set_cas c) s)"
    by (rule inv_content [OF i(1) l(1) _ _ _ _ _ _ _ _ eq])
      (use l f in \<open>auto simp: item_set_cas_def flag_defs fits_def item_size_def\<close>)
  then show ?thesis using i(2) by (simp add: cache_inv_iff eq)
qed

lemma inv_frame_index_time:
  assumes "items s' = items s" "slabs s' = slabs s" "slabclasses s' = slabclasses s"
    "slabclass_max_id s' = slabclass_max_id s" "heap s' = heap s" "item_lruq s' = item_lruq s"
    "settings s' = settings s" "nmalloc s' = nmalloc s" "ub s' = ub s"
    and inv: "cache_inv e s" and new: "index_ok s'" "time_ok s'"
  shows "cache_inv e s'"
proof -
  have g: "geo s' = geo s" by (simp add: geo_def assms)
  have r: "run s' = run s" "fits s' = fits s"
    by (auto simp: fun_eq_iff run_def fits_def geo_live [OF g] assms)
  have "heap_ok e s' = heap_ok e s" "chunk_ok s' = chunk_ok s" "lruq_ok s' = lruq_ok s" "freeq_ok s' = freeq_ok s"
    "flag_ok s' = flag_ok s" "run_ok s' = run_ok s" "ref_ok s' = ref_ok s" "fit_ok {} s' = fit_ok {} s"
    "no_leak {} s' = no_leak {} s"
    by (simp_all add: inv_clauses r geo_live [OF g] assms)
  then show ?thesis using inv new by (simp add: cache_inv_iff cache_inv_L_def geo_live [OF g] assms)
qed

lemma inv_now:
  assumes "cache_inv e s" and "now s \<le> t"
  shows "cache_inv e (s\<lparr>now := t\<rparr>)"
proof (rule inv_frame_index_time [OF _ _ _ _ _ _ _ _ _ assms(1)])
  have g: "geo (s\<lparr>now := t\<rparr>) = geo s" by (simp add: geo_def)
  have "key_of (s\<lparr>now := t\<rparr>) = key_of s" "linked_items (s\<lparr>now := t\<rparr>) = linked_items s"
    by (auto simp: fun_eq_iff key_of_def linked_items_def geo_live [OF g])
  then show "index_ok (s\<lparr>now := t\<rparr>)" using assms(1) by (simp add: cache_inv_iff cache_inv_L_def index_ok_def)
  show "time_ok (s\<lparr>now := t\<rparr>)" using assms by (force simp: cache_inv_iff cache_inv_L_def time_ok_def)
qed simp_all

text \<open>\<^verbatim>\<open>flush_all\<close> sets the time before which every item is stale.\<close>

definition set_oldest_live :: "u32 \<Rightarrow> cache \<Rightarrow> cache" where
  "set_oldest_live t s = s\<lparr>settings := (settings s)\<lparr>oldest_live := t\<rparr>\<rparr>"

lemma inv_oldest_live:
  assumes "cache_inv e s"
  shows "cache_inv e (set_oldest_live t s)"
proof -
  have g: "chunks (set_oldest_live t s) = chunks s" "live (set_oldest_live t s) = live s"
    "valid_id (set_oldest_live t s) = valid_id s" "slab_item_size (set_oldest_live t s) = slab_item_size s"
    "run (set_oldest_live t s) = run s" "key_of (set_oldest_live t s) = key_of s"
    "linked_items (set_oldest_live t s) = linked_items s"
    by (auto simp: fun_eq_iff chunks_def slab_cls_def live_def valid_id_def slab_item_size_def run_def key_of_def
        linked_items_def set_oldest_live_def)
  have f: "fits (set_oldest_live t s) = fits s" by (simp add: fun_eq_iff fits_def g) (simp add: set_oldest_live_def)
  let ?s = "set_oldest_live t s"
  have o: "items ?s = items s" "slabs ?s = slabs s" "slabclasses ?s = slabclasses s"
    "slabclass_max_id ?s = slabclass_max_id s" "heap ?s = heap s" "item_lruq ?s = item_lruq s" "hashtbl ?s = hashtbl s"
    "now ?s = now s" "nmalloc ?s = nmalloc s" "ub ?s = ub s"
    "slab_size_opt (settings ?s) = slab_size_opt (settings s)" "prealloc (settings ?s) = prealloc (settings s)"
    by (simp_all add: set_oldest_live_def)
  have "class_ok ?s = class_ok s" "heap_ok e ?s = heap_ok e s" "chunk_ok ?s = chunk_ok s" "lruq_ok ?s = lruq_ok s"
    "freeq_ok ?s = freeq_ok s" "flag_ok ?s = flag_ok s" "run_ok ?s = run_ok s" "ref_ok ?s = ref_ok s"
    "index_ok ?s = index_ok s" "fit_ok {} ?s = fit_ok {} s" "no_leak {} ?s = no_leak {} s" "time_ok ?s = time_ok s"
    by (simp_all add: inv_clauses g f o)
  then show ?thesis using assms by (simp add: cache_inv_iff cache_inv_L_def o)
qed

definition maintain :: "cache \<Rightarrow> cache" where
  "maintain s = s\<lparr>hashtbl := assoc_maintenance (key_of s) (hashtbl s)\<rparr>"

lemma inv_maintain:
  assumes "cache_inv e s"
  shows "cache_inv e (maintain s)" and "view (maintain s) = view s"
proof -
  have g: "geo (maintain s) = geo s" by (simp add: geo_def maintain_def)
  have r: "key_of (maintain s) = key_of s" "linked_items (maintain s) = linked_items s"
    by (simp_all add: fun_eq_iff key_of_def linked_items_def geo_live [OF g]) (simp_all add: maintain_def)
  have a: "assoc_inv (key_of s) (hashtbl s)" "assoc_set (hashtbl s) = linked_items s"
    using assms by (auto simp: cache_inv_iff cache_inv_L_def index_ok_def)
  show "cache_inv e (maintain s)"
  proof (rule inv_frame_index_time [OF _ _ _ _ _ _ _ _ _ assms])
    show "index_ok (maintain s)"
      unfolding index_ok_def r using assoc_maintenance_inv [OF a(1)] a(2) by (simp add: maintain_def)
    show "time_ok (maintain s)" using assms by (simp add: cache_inv_iff cache_inv_L_def time_ok_def maintain_def)
  qed (simp_all add: maintain_def)
  have "index_find (maintain s) = index_find s"
    unfolding index_find_def r using assoc_idx.lookup_upkeep [OF a(1)] by (simp add: maintain_def fun_eq_iff)
  moreover have "entry_of (maintain s) = entry_of s"
    unfolding fun_eq_iff entry_of_def item_value_def item_data_def geo_live(4) [OF g] by (simp add: maintain_def)
  ultimately show "view (maintain s) = view s" unfolding view_def [abs_def] by presburger
qed

section \<open>Steps\<close>

text \<open>
  A step is one call into the cache by a worker (each holds the cache lock while it runs), a tick of
  the clock, a \<^verbatim>\<open>flush_all\<close> that moves the flush time, or a round of the maintenance thread. The
  guards are what the callers check or hold: the class of a new item exists, an item given to a storage
  command was allocated by the caller and is not linked, an item released was obtained before. Reference
  counts have room for the references an operation takes, as long as there are fewer than 65534
  references to one slab.
\<close>

inductive cache_step :: "env \<Rightarrow> cache \<Rightarrow> cache \<Rightarrow> bool" for e where
  step_alloc: "env_ok e s \<Longrightarrow> room 1 s \<Longrightarrow> item_slabid s (length key) n \<noteq> SLABCLASS_INVALID_ID \<Longrightarrow>
     item_alloc e (item_slabid s (length key) n) key d x n s = (res, s') \<Longrightarrow> cache_step e s s'"
| step_fill: "pending s it \<Longrightarrow> \<not> item_is_raligned (items s it) \<Longrightarrow> item_data s it \<le> off \<Longrightarrow>
     off + length bs \<le> item_data s it + unat (it_nbyte (items s it)) + CRLF_LEN \<Longrightarrow>
     cache_step e s (item_write it off bs s)"
| step_set_cas: "pending s it \<Longrightarrow> cache_step e s (upd_item it (item_set_cas c) s)"
| step_get: "room 1 s \<Longrightarrow> item_get_op key s = (res, s') \<Longrightarrow> cache_step e s s'"
| step_set: "room 1 s \<Longrightarrow> pending s it \<Longrightarrow> cache_step e s (item_set e it s)"
| step_cas: "room 1 s \<Longrightarrow> pending s it \<Longrightarrow> item_cas e it s = (r, s') \<Longrightarrow> cache_step e s s'"
| step_add: "room 1 s \<Longrightarrow> pending s it \<Longrightarrow> item_add e it s = (r, s') \<Longrightarrow> cache_step e s s'"
| step_replace: "room 1 s \<Longrightarrow> pending s it \<Longrightarrow> item_replace e it s = (r, s') \<Longrightarrow> cache_step e s s'"
| step_annex: "env_ok e s \<Longrightarrow> room 2 s \<Longrightarrow> pending s it \<Longrightarrow> item_annex e b it s = (r, s') \<Longrightarrow> cache_step e s s'"
| step_delta: "env_ok e s \<Longrightarrow> room 2 s \<Longrightarrow>
     (\<And>n. n \<le> 20 \<Longrightarrow> item_slabid s (length key) (of_nat n) \<noteq> SLABCLASS_INVALID_ID) \<Longrightarrow>
     item_delta e key incr d s = (r, s') \<Longrightarrow> cache_step e s s'"
| step_delete: "room 1 s \<Longrightarrow> item_delete key s = (r, s') \<Longrightarrow> cache_step e s s'"
| step_remove: "it \<in> live s \<Longrightarrow> it_refcount (items s it) \<noteq> 0 \<Longrightarrow> cache_step e s (item_remove_op it s)"
| step_touch: "it \<in> live s \<Longrightarrow> cache_step e s (item_touch it s)"
| step_flush: "oldest_live (settings s) \<noteq> 0 \<Longrightarrow> cache_step e s (item_flush_expired s)"
| step_oldest_live: "cache_step e s (set_oldest_live t s)"
| step_tick: "now s \<le> t \<Longrightarrow> cache_step e s (s\<lparr>now := t\<rparr>)"
| step_maintain: "cache_step e s (maintain s)"

lemma inv_slabid_valid:
  assumes inv: "cache_inv e s" and v: "item_slabid s nkey n \<noteq> SLABCLASS_INVALID_ID"
  shows "valid_id s (item_slabid s nkey n)"
    and "item_ntotal nkey n (use_cas (settings s)) \<le> slab_item_size s (item_slabid s nkey n)"
proof -
  have c: "ascending (slab_item_size s) (slabclass_max_id s)" "slabclass_max_id s \<le> SLABCLASS_MAX_ID"
    using inv by (auto simp: cache_inv_iff cache_inv_L_def class_ok_def)
  note S = slab_id_spec(1) [OF c refl v [unfolded item_slabid_def]]
  show "valid_id s (item_slabid s nkey n)"
    "item_ntotal nkey n (use_cas (settings s)) \<le> slab_item_size s (item_slabid s nkey n)"
    using S by (simp_all add: valid_id_def item_slabid_def)
qed

lemma cache_step_inv:
  assumes "cache_step e s s'" and inv: "cache_inv e s"
  shows "cache_inv e s'"
  using assms(1)
proof cases
  case (step_alloc key n d x res)
  from item_alloc_inv(1) [OF inv step_alloc(1) inv_slabid_valid(1) [OF inv step_alloc(3)] step_alloc(2)
      inv_slabid_valid(2) [OF inv step_alloc(3)] step_alloc(4)]
  show ?thesis .
next
  case (step_fill it off bs)
  then show ?thesis using inv_item_write [OF inv] by simp
next
  case (step_set_cas it c)
  then show ?thesis using inv_set_cas [OF inv] by simp
next
  case (step_get key res)
  then show ?thesis using item_get_spec [OF inv, of key] by simp
next
  case (step_set it)
  then show ?thesis using item_set_spec [OF inv] by simp
next
  case (step_cas it r)
  then show ?thesis using item_cas_spec [OF inv, of it] by simp
next
  case (step_add it r)
  then show ?thesis using item_add_spec [OF inv, of it] by simp
next
  case (step_replace it r)
  then show ?thesis using item_replace_spec [OF inv, of it] by simp
next
  case (step_annex it b r)
  then show ?thesis using item_annex_spec [OF inv, of it b] by (simp split: prod.splits)
next
  case (step_delta key incr d r)
  then show ?thesis using item_delta_spec [OF inv, of key incr d] by (simp split: prod.splits)
next
  case (step_delete key r)
  then show ?thesis using item_delete_spec [OF inv, of key] by simp
next
  case (step_remove it)
  have i: "cache_inv_L {} e s" using inv by (simp add: cache_inv_iff)
  note R = item_remove_view [OF i step_remove(2) _ step_remove(3) refl]
  then show ?thesis using inv step_remove(1) by (simp add: cache_inv_iff)
next
  case (step_touch it)
  then show ?thesis using item_touch_store(1) [OF inv] by simp
next
  case step_flush
  then show ?thesis using item_flush_expired_spec [OF inv] by simp
qed (use inv inv_oldest_live inv_now inv_maintain(1) in auto)


inductive_cases cache_step_elims: "cache_step e s s'"

text \<open>The states of a server that started with a good profile.\<close>

inductive reachable :: "env \<Rightarrow> cache \<Rightarrow> bool" for e where
  reach_boot: "core_cache_init talloc base table s0 = (MC_OK, s) \<Longrightarrow> profile_ok (settings s0) \<Longrightarrow>
     slab_size_opt (settings s0) \<le> 2 ^ 27 \<Longrightarrow> \<not> ub s0 \<Longrightarrow> reachable e s"
| reach_step: "reachable e s \<Longrightarrow> cache_step e s s' \<Longrightarrow> reachable e s'"

lemma reachable_cache_inv: "reachable e s \<Longrightarrow> cache_inv e s"
  by (induction rule: reachable.induct) (auto intro: core_cache_init_inv cache_step_inv)

section \<open>Memory safety\<close>

text \<open>The memory of an item chunk.\<close>

definition chunk_mem :: "cache \<Rightarrow> addr \<Rightarrow> addr set" where
  "chunk_mem s a = {a ..< a + slab_item_size s (it_id (items s a))}"

text \<open>The memory of an item in use: its header, and its payload with the two bytes of the line end.\<close>

definition header_mem :: "cache \<Rightarrow> addr \<Rightarrow> addr set" where
  "header_mem s a = {a ..< a + ITEM_HDR_SIZE + item_key_off (items s a) + it_nkey (items s a)}"

definition payload_mem :: "cache \<Rightarrow> addr \<Rightarrow> addr set" where
  "payload_mem s a = {a + ITEM_HDR_SIZE + item_data s a ..<
     a + ITEM_HDR_SIZE + item_data s a + unat (it_nbyte (items s a))}"

lemma chunk_mem_slab:
  assumes inv: "cache_inv e s" and a: "a \<in> live s"
  shows "chunk_mem s a \<subseteq> {item_2_slab s a + SLAB_HDR_SIZE ..< item_2_slab s a + slab_size_opt (settings s)}"
proof -
  have i: "cache_inv_L {} e s" using inv by (simp add: cache_inv_iff)
  then have c: "chunk_ok s" "class_ok s" by (simp_all add: cache_inv_L_def)
  note S = live_slab [OF c(1) a]
  have v: "valid_id s (sl_id (slabs s (item_2_slab s a)))" using live_id(1) [OF i a] S(3) by simp
  have "a + slab_item_size s (it_id (items s a)) \<le> item_2_slab s a + slab_size_opt (settings s)"
    using chunk_end [OF c(2) v S(2)] by (simp add: slab_cls_def slab_item_size_def S(3))
  then show ?thesis using chunk_ge [OF S(2)] by (auto simp: chunk_mem_def)
qed

lemma chunk_mem_disjoint:
  assumes inv: "cache_inv e s" and a: "a \<in> live s" and b: "b \<in> live s" and ne: "a \<noteq> b"
  shows "chunk_mem s a \<inter> chunk_mem s b = {}"
proof (cases "item_2_slab s a = item_2_slab s b")
  case True
  have i: "cache_inv_L {} e s" using inv by (simp add: cache_inv_iff)
  then have c: "chunk_ok s" by (simp add: cache_inv_L_def)
  define p z where "p = item_2_slab s a" and "z = sc_size (slab_cls s p)"
  note A = live_slab [OF c a] and B = live_slab [OF c b]
  have p: "a \<in> chunks s p" "b \<in> chunks s p" using A(2) B(2) True by (simp_all only: p_def)
  obtain k where k: "a = p + SLAB_HDR_SIZE + k * z" using p(1) by (auto simp: chunks_def slab_2_item_def z_def)
  obtain l where l: "b = p + SLAB_HDR_SIZE + l * z" using p(2) by (auto simp: chunks_def slab_2_item_def z_def)
  have sz: "slab_item_size s (it_id (items s a)) = z" "slab_item_size s (it_id (items s b)) = z"
    using A(3) B(3) True by (simp_all add: slab_cls_def slab_item_size_def p_def z_def)
  have "Suc k \<le> l \<or> Suc l \<le> k" using ne k l by (metis Suc_leI linorder_neqE_nat)
  then have "Suc k * z \<le> l * z \<or> Suc l * z \<le> k * z" using mult_le_mono1 by blast
  then have "a + z \<le> b \<or> b + z \<le> a" unfolding k l by auto
  then show ?thesis unfolding chunk_mem_def sz by auto
next
  case False
  have i: "cache_inv_L {} e s" using inv by (simp add: cache_inv_iff)
  then have c: "chunk_ok s" "heap_ok e s" by (simp_all add: cache_inv_L_def)
  have "slabs_disjoint (slab_size_opt (settings s)) (item_2_slab s a) (item_2_slab s b)"
    using c(2) live_slab(1) [OF c(1) a] live_slab(1) [OF c(1) b] False unfolding heap_ok_def by blast
  then show ?thesis
    using chunk_mem_slab [OF inv a] chunk_mem_slab [OF inv b] unfolding slabs_disjoint_def by fastforce
qed

lemma item_mem_chunk:
  assumes inv: "cache_inv e s" and a: "a \<in> live s"
    and u: "item_is_linked (items s a) \<or> it_refcount (items s a) \<noteq> 0"
  shows "header_mem s a \<subseteq> chunk_mem s a" and "payload_mem s a \<subseteq> chunk_mem s a"
    and "header_mem s a \<inter> payload_mem s a = {}"
proof -
  have "fits s (items s a)" using inv a u by (auto simp: cache_inv_iff cache_inv_L_def fit_ok_def)
  then have f: "ITEM_HDR_SIZE + item_key_off (items s a) + it_nkey (items s a) + 1 + unat (it_nbyte (items s a)) + CRLF_LEN
      \<le> slab_item_size s (it_id (items s a))"
    by (auto simp: fits_def item_size_def item_ntotal_def item_key_off_def)
  then show "header_mem s a \<subseteq> chunk_mem s a" by (auto simp: header_mem_def chunk_mem_def)
  have "ITEM_HDR_SIZE + item_data s a + unat (it_nbyte (items s a)) \<le> slab_item_size s (it_id (items s a))"
    and "item_key_off (items s a) + it_nkey (items s a) \<le> item_data s a"
    using f by (auto simp: item_data_def item_key_off_def Let_def split: if_splits)
  then show "payload_mem s a \<subseteq> chunk_mem s a" "header_mem s a \<inter> payload_mem s a = {}"
    by (auto simp: payload_mem_def header_mem_def chunk_mem_def)
qed

text \<open>Where a chunk of a slab can be.\<close>

lemma chunk_place:
  assumes inv: "cache_inv e s" and a: "a \<in> live s"
  defines "cid \<equiv> it_id (items s a)"
  shows "item_is_linked (items s a) \<and> a \<in> set (item_lruq s cid) \<and> index_find s (key_of s a) = Some a
      \<and> a \<notin> set (free_itemq (slabclasses s cid))
    \<or> \<not> item_is_linked (items s a) \<and> it_refcount (items s a) = 0 \<and> a \<in> set (free_itemq (slabclasses s cid))
    \<or> \<not> item_is_linked (items s a) \<and> it_refcount (items s a) = 0 \<and> a \<in> run s cid
      \<and> a \<notin> set (free_itemq (slabclasses s cid))
    \<or> \<not> item_is_linked (items s a) \<and> it_refcount (items s a) \<noteq> 0 \<and> a \<notin> set (free_itemq (slabclasses s cid))"
proof -
  have i: "cache_inv_L {} e s" using inv by (simp add: cache_inv_iff)
  note id = live_id [OF i a]
  have q: "a \<in> set (free_itemq (slabclasses s cid)) \<longleftrightarrow> item_is_slabbed (items s a)"
    and l: "a \<in> set (item_lruq s cid) \<longleftrightarrow> item_is_linked (items s a)"
    and fl: "item_is_slabbed (items s a) \<Longrightarrow> \<not> item_is_linked (items s a) \<and> it_refcount (items s a) = 0"
    using i a id by (auto simp: cache_inv_L_def freeq_ok_def lruq_ok_def flag_ok_def cid_def)
  have x: "item_is_linked (items s a) \<Longrightarrow> index_find s (key_of s a) = Some a"
    using index_find_iff [OF i] a by (simp add: linked_items_def)
  have r: "a \<in> run s cid" if "valid_id s c" "a \<in> run s c" for c
  proof -
    have "it_id (items s a) = c" by (rule run_id [OF i that])
    then show ?thesis using that by (simp add: cid_def)
  qed
  show ?thesis
    using i a q l fl x r by (auto simp: cache_inv_L_def no_leak_def)
qed

end
