(* ===== verification/McDemo.thy ===== *)
theory McDemo
  imports McSystem
begin

text \<open>
  A small concrete server on which the properties of the development are applied: one slab class of
  chunks of 104 bytes, slabs of 256 bytes. It starts, allocates an item for the key \<open>k\<close>, fills it with
  the value \<open>7\<close> and stores it.
\<close>

section \<open>The configuration\<close>


definition demo_settings :: settings where
  "demo_settings = \<lparr>prealloc = False, use_cas = True, evict_opt = EVICT_LRU, use_freeq = True, use_lruq = True,
     maxbytes = 1024, slab_size_opt = 256, hash_power_opt = 1, oldest_live = 0, chunk_size = 80, max_chunk_size = 0,
     profile = (\<lambda>i. if i = 1 then 104 else 0), profile_last_id = 1\<rparr>"

definition demo_item :: item where
  "demo_item = \<lparr>it_atime = 0, it_exptime = 0, it_nbyte = 0, it_offset = 0, it_dataflags = 0, it_refcount = 0,
     it_flags = 0, it_id = 0, it_nkey = 0, it_cas = 0, it_end = (\<lambda>i. CHR 0x00)\<rparr>"

definition demo_cache :: cache where
  "demo_cache = \<lparr>items = (\<lambda>a. demo_item), slabs = (\<lambda>a. \<lparr>sl_id = 0, sl_refcount = 0, sl_utime = 0\<rparr>),
     slabclasses = (\<lambda>i. \<lparr>nitem = 0, sc_size = 0, nfree_itemq = 0, free_itemq = [], nfree_item = 0, free_item = 0\<rparr>),
     slabclass_max_id = 0,
     heap = \<lparr>hi_base = 0, hi_curr = 0, nslab = 0, max_nslab = 0, slab_table = [], slab_lruq = []\<rparr>,
     item_lruq = (\<lambda>i. []),
     hashtbl = \<lparr>primary_hashtable = [], old_hashtable = [], nhash_item = 0, hash_power = 0, expanding = False,
       nhash_move_size = 1, expand_bucket = 0, nbyte_primary = 0, nbyte_old = 0\<rparr>,
     cas_id = 0, now = 100, settings = demo_settings, sstats = (\<lambda>i m. Counter 0), tstats = (\<lambda>m. Counter 0),
     nmalloc = 0, ntable = 0, nrand = 0, ub = False\<rparr>"

definition demo_env :: env where
  "demo_env = \<lparr>e_slab = (\<lambda>n. 4096 * (n + 1)), e_table = (\<lambda>n. True), e_rand = (\<lambda>n. 0)\<rparr>"

lemma room_mono: "room 1000 s \<Longrightarrow> k \<le> 1000 \<Longrightarrow> room k s"
  by (fastforce simp: room_def)

section \<open>Four states\<close>

definition demo_boot :: cache where
  "demo_boot = snd (core_cache_init True 0 True demo_cache)"

definition demo_it :: addr where
  "demo_it = the (fst (item_alloc demo_env 1 ''k'' 0 0 1 demo_boot))"

definition demo_new :: cache where
  "demo_new = snd (item_alloc demo_env 1 ''k'' 0 0 1 demo_boot)"

definition demo_full :: cache where
  "demo_full = item_write demo_it (item_data demo_new demo_it) ''7'' demo_new"

definition demo_set :: cache where
  "demo_set = item_set demo_env demo_it demo_full"

lemma demo_boot_ok: "core_cache_init True 0 True demo_cache = (MC_OK, demo_boot)"
  unfolding demo_boot_def using core_cache_init_status [of True 0 True demo_cache]
  by (cases "core_cache_init True 0 True demo_cache") (simp add: demo_cache_def demo_settings_def)

lemma demo_profile_ok: "profile_ok demo_settings"
  by (simp add: profile_ok_def ascending_def demo_settings_def slab_size_def SLABCLASS_MIN_ID_def SLABCLASS_MAX_ID_def
      SLAB_HDR_SIZE_def ITEM_MIN_CHUNK_SIZE_def MC_ALIGN_def MC_ALIGNMENT_def ITEM_HDR_SIZE_def)

lemma demo_alloc_ok: "alloc_ok demo_env n" if "n \<le> 4096" for n
proof -
  have "slabs_disjoint n (4096 * Suc i) (4096 * Suc j)" if "i \<noteq> j" for i j
    using that \<open>n \<le> 4096\<close> unfolding slabs_disjoint_def by (cases i j rule: linorder_cases) auto
  then show ?thesis by (simp add: alloc_ok_def demo_env_def)
qed

lemma demo_env_ok: "settings s = demo_settings \<Longrightarrow> env_ok demo_env s"
  using demo_alloc_ok [of 256]
  by (simp add: env_ok_def rand_safe_def demo_settings_def EVICT_LRU_def EVICT_RS_def)

lemma demo_boot_state:
  "cache_inv demo_env demo_boot" "view demo_boot = Map.empty" "settings demo_boot = demo_settings"
  "slabclass_max_id demo_boot = 1" "slab_item_size demo_boot 1 = 104" "slab_lruq (heap demo_boot) = []"
  "free_item (slabclasses demo_boot 1) = 0" "nfree_itemq (slabclasses demo_boot 1) = 0" "item_lruq demo_boot 1 = []"
proof -
  note f = core_cache_init_fields [OF demo_boot_ok]
  have c: "settings demo_cache = demo_settings" "\<not> ub demo_cache" by (simp_all add: demo_cache_def)
  have "profile_last_id demo_settings = 1" "profile demo_settings 1 = 104" "slab_size_opt demo_settings \<le> 2 ^ 27"
    by (simp_all add: demo_settings_def)
  note p = this
  show "cache_inv demo_env demo_boot" "view demo_boot = Map.empty"
    using core_cache_init_inv [OF demo_boot_ok] demo_profile_ok p c by simp_all
  show "settings demo_boot = demo_settings" "slabclass_max_id demo_boot = 1" "slab_lruq (heap demo_boot) = []"
    using f c p by simp_all
  have e: "slabclasses demo_boot 1 = slabclass_entry demo_settings 1 (slabclasses demo_cache 1)"
    using f(5) [of 1] c p by (simp add: SLABCLASS_MIN_ID_def)
  show "slab_item_size demo_boot 1 = 104" "free_item (slabclasses demo_boot 1) = 0"
    "nfree_itemq (slabclasses demo_boot 1) = 0"
    using p by (simp_all add: slab_item_size_def e slabclass_entry_def del: One_nat_def)
  show "item_lruq demo_boot 1 = []" using f(6) [of 1] by (simp add: SLABCLASS_MIN_ID_def SLABCLASS_MAX_ID_def)
qed

text \<open>With nothing to reuse and memory left, an allocation succeeds.\<close>

lemma item_alloc_fresh:
  assumes "cid \<le> SLABCLASS_MAX_ID" and "item_lruq s cid = []" and "nfree_itemq (slabclasses s cid) = 0"
    and "free_item (slabclasses s cid) = 0" and "\<not> slab_heap_full s" and "fst (slab_heap_alloc e s) \<noteq> 0"
  shows "fst (item_alloc e cid key d x n s) \<noteq> None"
proof -
  have "lruq_scan s n [] None = None" for n by (cases n) simp_all
  then have l: "item_get_from_lruq s cid = None" using assms(2) by (simp add: item_get_from_lruq_def)
  have q: "slab_get_item_from_freeq cid s = (None, s)" using assms(3) by (simp add: slab_get_item_from_freeq_def)
  have "slab_heap_full (sincr cid slab_req s) = slab_heap_full s" "fst (slab_heap_alloc e (sincr cid slab_req s)) = fst (slab_heap_alloc e s)"
    by (simp_all add: slab_heap_full_def slab_heap_alloc_def upd_defs)
  then have "fst (slab_get_new e (sincr cid slab_req s)) \<noteq> None"
    using assms(5,6) by (auto simp: slab_get_new_def split: prod.splits)
  then have "fst (slab_get e cid s) = MC_OK" by (auto simp: slab_get_def Let_def split: prod.splits option.splits)
  then have "fst (slab_get_item e cid s) \<noteq> None"
    using q assms(4) by (auto simp: slab_get_item_def split: prod.splits)
  then show ?thesis using l assms(1) by (auto simp: item_alloc_def Let_def split: prod.splits option.splits)
qed

lemma demo_new_alloc: "item_alloc demo_env 1 ''k'' 0 0 1 demo_boot = (Some demo_it, demo_new)"
proof -
  have "\<not> slab_heap_full demo_boot" "fst (slab_heap_alloc demo_env demo_boot) \<noteq> 0"
    using demo_boot_state(3)
    by (simp_all add: slab_heap_full_def slab_heap_alloc_def demo_boot_def core_cache_init_def assoc_init_def Let_def
        slab_init_def slab_heapinfo_init_def upd_heap_def demo_cache_def demo_settings_def item_init_def
        slab_slabclass_init_def demo_env_def)
  then have "fst (item_alloc demo_env 1 ''k'' 0 0 1 demo_boot) \<noteq> None"
    by (intro item_alloc_fresh) (use demo_boot_state in \<open>simp_all add: SLABCLASS_MAX_ID_def\<close>)
  then show ?thesis unfolding demo_it_def demo_new_def by (cases "item_alloc demo_env 1 ''k'' 0 0 1 demo_boot") auto
qed

lemma demo_new_state:
  "cache_inv demo_env demo_new" "view demo_new = Map.empty" "settings demo_new = demo_settings"
  "pending demo_new demo_it" "\<not> item_is_raligned (items demo_new demo_it)" "key_of demo_new demo_it = ''k''"
  "it_nbyte (items demo_new demo_it) = 1" "it_exptime (items demo_new demo_it) = 0" "it_dataflags (items demo_new demo_it) = 0"
  "room 1000 demo_new" "slabclass_max_id demo_new = 1" "slab_item_size demo_new 1 = 104" "cas_id demo_new = 0"
proof -
  note B = demo_boot_state
  have v: "valid_id demo_boot 1" using B(4) by (simp add: valid_id_def SLABCLASS_MIN_ID_def)
  have r: "room k demo_boot" for k using B(6) by (simp add: room_def)
  have f: "item_ntotal (length ''k'') 1 (use_cas (settings demo_boot)) \<le> slab_item_size demo_boot 1"
    unfolding B(5) by (simp add: item_ntotal_def ITEM_HDR_SIZE_def CAS_SIZE_def CRLF_LEN_def)
  note A = item_alloc_inv [OF B(1) demo_env_ok [OF B(3)] v r f demo_new_alloc]
  show "cache_inv demo_env demo_new" by (rule A(1))
  show "view demo_new = Map.empty" using A(3) B(2) by (simp add: map_le_def dom_def fun_eq_iff) (metis option.exhaust)
  show "settings demo_new = demo_settings" "slabclass_max_id demo_new = 1" "slab_item_size demo_new 1 = 104"
    using A(2) B(3-5) by (simp_all add: preserves_def)
  have "cas_id demo_boot = 0"
    by (simp add: demo_boot_def core_cache_init_def assoc_init_def Let_def slab_init_def slab_heapinfo_init_def upd_heap_def
        item_init_def slab_slabclass_init_def demo_cache_def demo_settings_def)
  then show "cas_id demo_new = 0" using A(2) by (simp add: preserves_def)
  show "room 1000 demo_new" by (rule item_alloc_room [OF B(1) demo_env_ok [OF B(3)] v r _ demo_new_alloc]) simp
  show "pending demo_new demo_it" "\<not> item_is_raligned (items demo_new demo_it)" "key_of demo_new demo_it = ''k''"
    "it_nbyte (items demo_new demo_it) = 1" "it_exptime (items demo_new demo_it) = 0" "it_dataflags (items demo_new demo_it) = 0"
    using A(4) [OF refl] by (simp_all add: pending_def)
qed

text \<open>The item is filled.\<close>

lemma demo_full_state:
  "cache_inv demo_env demo_full" "view demo_full = Map.empty" "settings demo_full = demo_settings"
  "pending demo_full demo_it" "key_of demo_full demo_it = ''k''"
  "stored demo_full demo_it = \<lparr>en_value = ''7'', en_dataflags = 0, en_exptime = 0, en_cas = 1\<rparr>"
  "room 1000 demo_full" "slabclass_max_id demo_full = 1" "slab_item_size demo_full 1 = 104" "cas_id demo_full = 0"
  "lookup demo_full = Map.empty"
proof -
  note N = demo_new_state
  let ?i = "items demo_new demo_it" let ?d = "item_data demo_new demo_it"
  let ?m = "wr_bytes (it_end ?i) ?d ''7''"
  have eq: "demo_full = demo_new\<lparr>items := (items demo_new)(demo_it := ?i\<lparr>it_end := ?m\<rparr>)\<rparr>"
    by (simp add: demo_full_def item_write_def upd_item_def)
  have d: "?d = item_data (demo_new\<lparr>items := (items demo_new)(demo_it := ?i)\<rparr>) demo_it" by simp
  have l: "length ''7'' = unat (it_nbyte ?i)" using N(7) by simp
  have m: "rd_bytes ?m ?d (length ''7'') = ''7''" "\<And>j. j < ?d \<Longrightarrow> ?m j = it_end ?i j"
    using rd_wr_bytes_same [of "it_end ?i" ?d "''7''"] by (simp_all add: wr_bytes_def)
  have i: "?i = (if False then ?i\<lparr>it_flags := it_flags ?i OR ITEM_RALIGN\<rparr> else ?i)" by simp
  note F = fill_new_item [OF N(1,4) l i N(5) d eq m]
  show "cache_inv demo_env demo_full" "view demo_full = Map.empty" "pending demo_full demo_it" "key_of demo_full demo_it = ''k''"
    using F N(2,6) by simp_all
  have "view demo_full = Map.empty" using F(6) N(2) by simp
  then show "lookup demo_full = Map.empty" using lookup_le_view [of demo_full] by (metis map_le_empty map_le_antisym)
  have "use_cas demo_settings" by (simp add: demo_settings_def)
  moreover have "entry_of demo_full demo_it = (entry_of demo_new demo_it)\<lparr>en_value := ''7''\<rparr>"
    "next_cas demo_full = next_cas demo_new" using F(7,8) by simp_all
  ultimately show "stored demo_full demo_it = \<lparr>en_value = ''7'', en_dataflags = 0, en_exptime = 0, en_cas = 1\<rparr>"
    unfolding stored_def using N(3,8,9,13) by (simp add: entry_of_def next_cas_def)
  show "settings demo_full = demo_settings" "slabclass_max_id demo_full = 1" "slab_item_size demo_full 1 = 104" "cas_id demo_full = 0"
    "room 1000 demo_full"
    using N(3,10-13) by (simp_all add: eq slab_item_size_def room_def)
qed

lemma demo_full_room: "room 1 demo_full" "room 2 demo_full" "env_ok demo_env demo_full"
  using room_mono [OF demo_full_state(7)] demo_env_ok [OF demo_full_state(3)] by auto

text \<open>The item is stored; a client sees it.\<close>

lemma demo_set_eq: "demo_set = item_link_op demo_env demo_it demo_full"
proof -
  have "index_find demo_full ''k'' = None" using fun_cong [OF demo_full_state(2), of "''k''"] by (simp add: view_def)
  then show ?thesis by (simp add: demo_set_def item_set_def item_get_op_def demo_full_state(5))
qed

lemma demo_set_state:
  "cache_inv demo_env demo_set" "settings demo_set = demo_settings" "room 1000 demo_set"
  "lookup demo_set = [''k'' \<mapsto> \<lparr>en_value = ''7'', en_dataflags = 0, en_exptime = 0, en_cas = 1\<rparr>]"
  "slabclass_max_id demo_set = 1" "slab_item_size demo_set 1 = 104" "linked_items demo_set = {demo_it}"
proof -
  note N = demo_full_state
  have i: "cache_inv_L {} demo_env demo_full" using N(1) by (simp add: cache_inv_iff)
  have f: "index_find demo_full ''k'' = None" using fun_cong [OF N(2), of "''k''"] by (simp add: view_def)
  note eq = demo_set_eq
  have p: "demo_it \<in> live demo_full" "demo_it \<notin> {}" "\<not> item_is_linked (items demo_full demo_it)"
    "it_refcount (items demo_full demo_it) \<noteq> 0" using N(4) by (auto simp: pending_def)
  note L = item_link_view [OF i p(1-4) f [folded N(5)] eq]
  have g: "geo demo_set = geo demo_full" using L(2) by (simp add: only_it_def)
  show inv: "cache_inv demo_env demo_set" unfolding eq by (rule item_link_store(1) [OF N(1,4)]) (simp add: f N(5))
  show st: "settings demo_set = demo_settings" "slabclass_max_id demo_set = 1" "slab_item_size demo_set 1 = 104"
    using N(3,8,9) by (simp_all add: geoD [OF g] geo_live(4) [OF g])
  have "sl_refcount (slabs demo_set q) = sl_refcount (slabs demo_full q)" for q
    by (simp add: eq item_link_op_def Let_def item_set_next_cas_def item_next_cas_def index_insert_def item_link_q_def
        slab_lruq_touch_def slab_link_lruq_def slab_unlink_lruq_def slab_lruq_append_def slab_lruq_remove_def upd_defs)
  then show "room 1000 demo_set" using N(7) by (simp add: room_def geoD [OF g])
  have v: "view demo_set = [''k'' \<mapsto> \<lparr>en_value = ''7'', en_dataflags = 0, en_exptime = 0, en_cas = 1\<rparr>]"
    using L(4) N(2,5,6) by (simp add: stored_def)
  have "linked_items demo_full = {}"
    using view_Some_iff [OF i] N(2) by (metis equals0I option.distinct(1))
  then show "linked_items demo_set = {demo_it}" using L(3) by simp
  have d: "lookup demo_set key = view demo_set key" for key
  proof (cases "index_find demo_set key")
    case (Some a)
    then have "en_exptime (entry_of demo_set a) = 0" using fun_cong [OF v, of key] by (simp add: view_def split: if_splits)
    then have "\<not> item_dead demo_set a"
      using st(1) by (simp add: item_dead_def item_stale_def entry_of_def demo_settings_def)
    with Some show ?thesis by (simp add: lookup_def view_def)
  qed (simp add: lookup_def view_def)
  then show "lookup demo_set = [''k'' \<mapsto> \<lparr>en_value = ''7'', en_dataflags = 0, en_exptime = 0, en_cas = 1\<rparr>]"
    using v by (simp add: fun_eq_iff)
qed

lemma demo_set_room: "room 1 demo_set" "room 2 demo_set" "env_ok demo_env demo_set"
  using room_mono [OF demo_set_state(3)] demo_env_ok [OF demo_set_state(2)] by auto

lemma demo_set_valid: "valid_id demo_set 1"
  using demo_set_state(5) by (simp add: valid_id_def SLABCLASS_MIN_ID_def)

text \<open>The run is a run of the transition system.\<close>

lemma demo_slabid: "item_slabid demo_boot (length ''k'') 1 = 1"
proof -
  note B = demo_boot_state
  have c: "ascending (slab_item_size demo_boot) (slabclass_max_id demo_boot)" "slabclass_max_id demo_boot \<le> SLABCLASS_MAX_ID"
    using B(1) by (auto simp: cache_inv_iff cache_inv_L_def class_ok_def)
  have f: "\<not> slab_item_size demo_boot 1 < item_ntotal (length ''k'') 1 (use_cas (settings demo_boot))"
    unfolding B(5) by (simp add: item_ntotal_def ITEM_HDR_SIZE_def CAS_SIZE_def CRLF_LEN_def)
  note S = slab_id_spec [OF c, of "item_ntotal (length ''k'') 1 (use_cas (settings demo_boot))", OF refl]
  have "item_slabid demo_boot (length ''k'') 1 \<noteq> SLABCLASS_INVALID_ID"
    using S(2) f B(4) unfolding item_slabid_def by (metis SLABCLASS_MIN_ID_def order_refl)
  then show ?thesis using S(1) B(4) by (simp add: item_slabid_def SLABCLASS_MIN_ID_def)
qed

lemma demo_reachable: "reachable demo_env demo_set"
proof -
  note B = demo_boot_state and N = demo_new_state and U = demo_full_state
  have "reachable demo_env demo_boot"
    by (rule reach_boot [OF demo_boot_ok]) (use demo_profile_ok in \<open>simp_all add: demo_cache_def\<close>, simp add: demo_settings_def)
  moreover have "cache_step demo_env demo_boot demo_new"
    by (rule step_alloc [OF demo_env_ok [OF B(3)], of "''k''" 1 0 0 "Some demo_it"])
      (use B(6) demo_new_alloc demo_slabid in \<open>simp_all add: room_def SLABCLASS_INVALID_ID_def\<close>)
  moreover have "cache_step demo_env demo_new demo_full"
    unfolding demo_full_def by (rule step_fill [OF N(4,5)]) (use N(7) in simp_all)
  moreover have "cache_step demo_env demo_full demo_set"
    unfolding demo_set_def by (rule step_set [OF demo_full_room(1) U(4)])
  ultimately show ?thesis by (blast intro: reach_step)
qed

text \<open>Both chunks of its only slab.\<close>

definition demo_slab :: addr where
  "demo_slab = item_2_slab demo_set demo_it"

lemma hdr_fold_classes:
  "slabclasses (fold (\<lambda>i. let it = slab_2_item p i z in item_hdr_init it (it - p) cid) is s) = slabclasses s"
  by (induction "is" arbitrary: s) (simp_all add: item_hdr_init_def upd_defs Let_def)

lemma slab_get_new_classes: "slab_get_new e s = (r, s') \<Longrightarrow> slabclasses s' = slabclasses s"
  by (auto simp: slab_get_new_def slab_heap_alloc_def slab_table_update_def upd_defs split: if_splits prod.splits)

text \<open>The number of items per slab is a constant of the class.\<close>

lemma demo_new_nitem: "nitem (slabclasses demo_new 1) = 2"
proof -
  note B = demo_boot_state
  let ?s = "sincr 1 slab_req demo_boot"
  have n: "nitem (slabclasses demo_boot 1) = 2"
    using core_cache_init_fields(5) [OF demo_boot_ok, of 1]
    by (simp add: demo_cache_def demo_settings_def slabclass_entry_def SLABCLASS_MIN_ID_def slab_size_def SLAB_HDR_SIZE_def)
  have "\<not> slab_heap_full ?s" "fst (slab_heap_alloc demo_env ?s) \<noteq> 0"
    using B(3)
    by (simp_all add: slab_heap_full_def slab_heap_alloc_def demo_boot_def core_cache_init_def assoc_init_def Let_def
        slab_init_def slab_heapinfo_init_def upd_heap_def demo_cache_def demo_settings_def item_init_def
        slab_slabclass_init_def demo_env_def sincr_by_def)
  then obtain p s1 where g: "slab_get_new demo_env ?s = (Some p, s1)"
    by (cases "slab_heap_alloc demo_env ?s") (simp add: slab_get_new_def)
  then have c: "slabclasses s1 = slabclasses demo_boot" by (drule_tac slab_get_new_classes) (simp add: sincr_by_def)
  have l: "lruq_scan demo_boot n [] None = None" for n by (cases n) simp_all
  have e: "demo_new = item_alloc_done demo_it 1 ''k'' 0 0 1 (snd (slab_take_free 1 (slab_add_one p 1 s1)))"
    using demo_new_alloc B(7-9) g l
    by (auto simp: item_alloc_def Let_def SLABCLASS_MAX_ID_def item_get_from_lruq_def slab_get_item_def
        slab_get_item_from_freeq_def slab_get_def split: prod.splits if_splits)
  show ?thesis
    unfolding e using n c
    by (simp add: item_alloc_done_def Let_def item_acquire_refcount_def slab_acquire_refcount_def upd_defs
        slab_take_free_def slab_add_one_def slab_hdr_init_def slab_lruq_append_def hdr_fold_classes [unfolded Let_def])
qed

text \<open>The caller of set lets go of the item: nobody references the slab.\<close>

definition demo_free :: cache where
  "demo_free = item_remove_op demo_it demo_set"

text \<open>A small hash table.\<close>

definition demo_table :: assoc where
  "demo_table = the (assoc_init 2 True)"

lemma demo_new_refcount:
  "it_refcount (items demo_new demo_it) = 1" "sl_refcount (slabs demo_new (item_2_slab demo_new demo_it)) = 1"
proof -
  note B = demo_boot_state and N = demo_new_state
  have v: "valid_id demo_boot 1" using B(4) by (simp add: valid_id_def SLABCLASS_MIN_ID_def)
  have i: "cache_inv_L {} demo_env demo_boot" "set (slab_table (heap demo_boot)) = active demo_boot"
    using B(1) by (auto simp: cache_inv_iff)
  have f: "item_ntotal (length ''k'') 1 (use_cas (settings demo_boot)) \<le> slab_item_size demo_boot 1"
    unfolding B(5) by (simp add: item_ntotal_def ITEM_HDR_SIZE_def CAS_SIZE_def CRLF_LEN_def)
  have r: "room 1 demo_boot" using B(6) by (simp add: room_def)
  show "it_refcount (items demo_new demo_it) = 1"
    using item_alloc_inv(4) [OF B(1) demo_env_ok [OF B(3)] v r f demo_new_alloc refl] by simp
  obtain o1 s1 where 1: "alloc_pick demo_env 1 demo_boot = (o1, s1)" by fastforce
  note P = alloc_pick_inv [OF i demo_env_ok [OF B(3)] v 1]
  have "settings (snd (slab_get_item demo_env 1 demo_boot)) = settings demo_boot"
    using slab_get_item_inv(2) [OF i demo_env_ok [OF B(3)] v prod.collapse [symmetric]]
    by (simp add: keeps_def preserves_def)
  then have eq: "(Some demo_it, demo_new) =
     (case o1 of None \<Rightarrow> (None, tincr THREAD_server_error s1) | Some it \<Rightarrow> (Some it, item_alloc_done it 1 ''k'' 0 0 1 s1))"
    using demo_new_alloc item_alloc_pick [of 1 demo_env demo_boot "''k''" 0 0 1]
    by (simp add: 1 SLABCLASS_MAX_ID_def del: One_nat_def)
  then have o: "o1 = Some demo_it" "demo_new = item_alloc_done demo_it 1 ''k'' 0 0 1 s1"
    by (auto split: option.splits)
  have "cache_inv_L {demo_it} demo_env s1" using P(1) o(1) by simp
  then have "demo_it \<in> live s1" "chunk_ok s1" by (auto simp: cache_inv_L_def no_leak_def)
  then have "sl_refcount (slabs s1 (item_2_slab s1 demo_it)) = 0"
    using live_slab(1) P(2) B(6) by (fastforce simp: keeps_def)
  moreover have "item_2_slab demo_new demo_it = item_2_slab s1 demo_it"
    by (simp add: o(2) item_alloc_done_def item_acquire_refcount_def slab_acquire_refcount_def Let_def upd_defs item_2_slab_def
        item_set_cas_def)
  moreover have "slabs demo_new = slabs (item_acquire_refcount demo_it s1)"
    by (simp add: o(2) item_alloc_done_def Let_def upd_defs)
  ultimately show "sl_refcount (slabs demo_new (item_2_slab demo_new demo_it)) = 1"
    by (simp add: item_acquire_refcount_def slab_acquire_refcount_def Let_def upd_defs item_2_slab_def)
qed

lemmas link_simps = item_link_op_def Let_def item_set_next_cas_def item_next_cas_def
  index_insert_def item_link_q_def slab_lruq_touch_def slab_link_lruq_def slab_unlink_lruq_def slab_lruq_append_def
  slab_lruq_remove_def upd_defs item_set_cas_def

lemma item_link_keeps:
  "it_offset (items (item_link_op e it s) a) = it_offset (items s a)"
  "it_refcount (items (item_link_op e it s) a) = it_refcount (items s a)"
  "sl_refcount (slabs (item_link_op e it s) p) = sl_refcount (slabs s p)"
  by (simp_all add: link_simps)

lemma item_write_keeps:
  "it_offset (items (item_write it off bs s) a) = it_offset (items s a)"
  "it_refcount (items (item_write it off bs s) a) = it_refcount (items s a)"
  "slabs (item_write it off bs s) = slabs s"
  by (simp_all add: item_write_def upd_defs)

lemma demo_set_live:
  "demo_slab + 32 \<in> live demo_set" "demo_slab + 136 \<in> live demo_set" "demo_slab + 32 \<noteq> demo_slab + 136"
proof -
  have i: "cache_inv_L {} demo_env demo_set" "chunk_ok demo_set" using demo_set_state(1) by (auto simp: cache_inv_iff cache_inv_L_def)
  have l: "demo_it \<in> live demo_set" using demo_set_state(7) by (auto simp: linked_items_def)
  note S = live_slab [OF i(2) l, folded demo_slab_def] and v = live_id(1) [OF i(1) l]
  have id: "sl_id (slabs demo_set demo_slab) = 1" using v S(3) demo_set_state(5) by (simp add: valid_id_def SLABCLASS_MIN_ID_def)
  have "nitem (slabclasses demo_set 1) = 2"
    using demo_new_nitem
    by (simp add: demo_set_eq demo_full_def item_write_def item_link_op_def Let_def item_set_next_cas_def item_next_cas_def
        index_insert_def item_link_q_def slab_lruq_touch_def slab_link_lruq_def slab_unlink_lruq_def slab_lruq_append_def
        slab_lruq_remove_def upd_defs)
  moreover have "sc_size (slabclasses demo_set 1) = 104" using demo_set_state(6) by (simp add: slab_item_size_def)
  ultimately have "chunks demo_set demo_slab = {demo_slab + 32, demo_slab + 136}"
    by (auto simp: chunks_def slab_cls_def id slab_2_item_def SLAB_HDR_SIZE_def lessThan_Suc numeral_2_eq_2)
  then show "demo_slab + 32 \<in> live demo_set" "demo_slab + 136 \<in> live demo_set"
    using chunk_live [OF S(1)] by auto
qed simp

lemma demo_free_state:
  "cache_inv demo_env demo_free" "demo_slab \<in> active demo_free" "sl_refcount (slabs demo_free demo_slab) = 0"
proof -
  have i: "cache_inv_L {} demo_env demo_set" "chunk_ok demo_set" using demo_set_state(1) by (auto simp: cache_inv_iff cache_inv_L_def)
  have l: "demo_it \<in> live demo_set" "item_is_linked (items demo_set demo_it)"
    using demo_set_state(7) by (auto simp: linked_items_def)
  have r: "it_refcount (items demo_set demo_it) = 1" using demo_new_refcount(1)
    by (simp add: demo_set_eq demo_full_def item_write_keeps item_link_keeps)
  note R = item_remove_view [OF i(1) l(1) _ _ demo_free_def]
  have g: "geo demo_free = geo demo_set" using R(2) r by (simp add: only_it_def)
  show "cache_inv demo_env demo_free"
    using R(1,8) r demo_set_state(1) by (simp add: cache_inv_iff)
  show "demo_slab \<in> active demo_free" using live_slab(1) [OF i(2) l(1)] by (simp add: demo_slab_def geoD(1) [OF g])
  have p: "demo_slab = item_2_slab demo_new demo_it"
    by (simp add: demo_slab_def item_2_slab_def demo_set_eq demo_full_def item_write_keeps item_link_keeps)
  have "sl_refcount (slabs demo_set demo_slab) = 1"
    unfolding p demo_new_refcount(2) [symmetric]
    by (simp add: demo_set_eq demo_full_def item_write_keeps item_link_keeps)
  then show "sl_refcount (slabs demo_free demo_slab) = 0"
    using r l(2)
    by (simp add: demo_free_def item_remove_op_def Let_def item_release_refcount_def slab_release_refcount_def upd_defs
        item_2_slab_def demo_slab_def flag_defs)
qed

lemma demo_table_state: "assoc_inv kf demo_table" "assoc_find kf demo_table key = None"
proof -
  have a: "assoc_init 2 True = Some demo_table" by (simp add: demo_table_def assoc_init_def Let_def)
  show i: "assoc_inv kf demo_table" by (rule assoc_init_inv(1) [OF a])
  show "assoc_find kf demo_table key = None" using assoc_idx.lookup_None_iff [OF i] assoc_init_inv(2) [OF a] by simp
qed

lemma demo_table_expanding:
  "assoc_inv kf (assoc_expand True demo_table)" "expanding (assoc_expand True demo_table)"
  "nhash_move_size (assoc_expand True demo_table) = 1"
proof -
  have n: "\<not> expanding demo_table" by (simp add: demo_table_def assoc_init_def Let_def)
  show "assoc_inv kf (assoc_expand True demo_table)" by (rule assoc_expand_inv(1) [OF demo_table_state(1) n])
  show "expanding (assoc_expand True demo_table)" "nhash_move_size (assoc_expand True demo_table) = 1"
    by (simp_all add: assoc_expand_def demo_table_def assoc_init_def Let_def)
qed

text \<open>Every number fits the class.\<close>

lemma demo_number_fits:
  assumes "n \<le> 20"
  shows "item_slabid demo_set (length ''k'') (of_nat n) \<noteq> SLABCLASS_INVALID_ID"
proof
  note S = demo_set_state
  assume a: "item_slabid demo_set (length ''k'') (of_nat n) = SLABCLASS_INVALID_ID"
  have c: "ascending (slab_item_size demo_set) (slabclass_max_id demo_set)" "slabclass_max_id demo_set \<le> SLABCLASS_MAX_ID"
    using S(1) by (auto simp: cache_inv_iff cache_inv_L_def class_ok_def)
  have "slab_item_size demo_set 1 < item_ntotal (length ''k'') (of_nat n) (use_cas (settings demo_set))"
    using slab_id_spec(2) [OF c refl a [unfolded item_slabid_def]] S(5) by (simp add: SLABCLASS_MIN_ID_def)
  moreover have "unat (of_nat n :: u32) \<le> 20" using assms by (simp add: unat_of_nat)
  ultimately show False unfolding S(6)
    by (simp add: item_ntotal_def ITEM_HDR_SIZE_def CAS_SIZE_def CRLF_LEN_def split: if_splits)
qed

end
