(* ===== verification/McRing.thy ===== *)
theory McRing
  imports McPrelude
begin

text \<open>
  The ring array of \<^verbatim>\<open>mc_ring_array.c\<close>: a bounded queue in an array with one slot more than its capacity.
  The positions are 32-bit words, the array is the list of its slots. The interface is a bounded
  first-in first-out queue; a second part runs one producer and one consumer step by step.
\<close>

section \<open>The operations\<close>

record 'a ring_array =
  ra_cap :: u32
  ra_rpos :: u32
  ra_wpos :: u32
  ra_data :: "'a list"

definition ring_array_nelem :: "u32 \<Rightarrow> u32 \<Rightarrow> u32 \<Rightarrow> u32" where
  "ring_array_nelem rpos wpos cap = (if rpos \<le> wpos then wpos - rpos else wpos + (cap - rpos + 1))"

definition ring_array_empty :: "u32 \<Rightarrow> u32 \<Rightarrow> bool" where
  "ring_array_empty rpos wpos \<longleftrightarrow> rpos = wpos"

definition ring_array_full :: "u32 \<Rightarrow> u32 \<Rightarrow> u32 \<Rightarrow> bool" where
  "ring_array_full rpos wpos cap \<longleftrightarrow> ring_array_nelem rpos wpos cap = cap"

definition ring_array_push :: "'a \<Rightarrow> 'a ring_array \<Rightarrow> rstatus \<times> 'a ring_array" where
  "ring_array_push elem arr =
     (if ring_array_full (ra_rpos arr) (ra_wpos arr) (ra_cap arr) then (MC_ERROR, arr)
      else (MC_OK, arr\<lparr>ra_data := (ra_data arr)[unat (ra_wpos arr) := elem],
                       ra_wpos := (ra_wpos arr + 1) mod (ra_cap arr + 1)\<rparr>))"

definition ring_array_pop :: "'a ring_array \<Rightarrow> 'a option \<times> 'a ring_array" where
  "ring_array_pop arr =
     (if ring_array_empty (ra_rpos arr) (ra_wpos arr) then (None, arr)
      else (Some (ra_data arr ! unat (ra_rpos arr)), arr\<lparr>ra_rpos := (ra_rpos arr + 1) mod (ra_cap arr + 1)\<rparr>))"

text \<open>\<open>mem\<close> is the memory obtained, \<open>None\<close> when the allocation fails; its content is not initialised.\<close>

definition ring_array_create :: "u32 \<Rightarrow> 'a list option \<Rightarrow> 'a ring_array option" where
  "ring_array_create cap mem = map_option (\<lambda>d. \<lparr>ra_cap = cap, ra_rpos = 0, ra_wpos = 0, ra_data = d\<rparr>) mem"

section \<open>Positions\<close>

definition ring_inv :: "'a ring_array \<Rightarrow> bool" where
  "ring_inv arr \<longleftrightarrow> unat (ra_cap arr) + 1 < 2 ^ 32 \<and> ra_rpos arr \<le> ra_cap arr \<and> ra_wpos arr \<le> ra_cap arr
     \<and> length (ra_data arr) = unat (ra_cap arr) + 1"

text \<open>The number of slots from one position to another, going forward.\<close>

definition dist :: "nat \<Rightarrow> nat \<Rightarrow> nat \<Rightarrow> nat" where
  "dist n r w = (if r \<le> w then w - r else w + n - r)"

definition ring_count :: "'a ring_array \<Rightarrow> nat" where
  "ring_count arr = dist (unat (ra_cap arr) + 1) (unat (ra_rpos arr)) (unat (ra_wpos arr))"

definition ring_list :: "'a ring_array \<Rightarrow> 'a list" where
  "ring_list arr = map (\<lambda>i. ra_data arr ! ((unat (ra_rpos arr) + i) mod (unat (ra_cap arr) + 1))) [0..<ring_count arr]"

lemma unat_next:
  fixes c p :: u32
  assumes "unat c + 1 < 2 ^ 32" and "p \<le> c"
  shows "unat ((p + 1) mod (c + 1)) = (unat p + 1) mod (unat c + 1)" and "(p + 1) mod (c + 1) \<le> c"
proof -
  have c: "unat (c + 1) = unat c + 1" using assms(1) by (simp add: unat_word_ariths)
  have p: "unat (p + 1) = unat p + 1" using assms by (simp add: unat_word_ariths word_le_nat_alt)
  show e: "unat ((p + 1) mod (c + 1)) = (unat p + 1) mod (unat c + 1)" by (simp add: unat_mod c p)
  show "(p + 1) mod (c + 1) \<le> c" unfolding word_le_nat_alt e using mod_less_divisor [of "unat c + 1" "unat p + 1"] by simp
qed

lemma ring_array_nelem_dist:
  fixes c r w :: u32
  assumes "unat c + 1 < 2 ^ 32" and "r \<le> c" and "w \<le> c"
  shows "unat (ring_array_nelem r w c) = dist (unat c + 1) (unat r) (unat w)"
proof (cases "r \<le> w")
  case True
  then show ?thesis by (simp add: ring_array_nelem_def dist_def word_le_nat_alt unat_sub)
next
  case False
  have "unat (c - r) = unat c - unat r" using assms(2) by (rule unat_sub)
  moreover have "unat w + (unat c - unat r) + 1 < 2 ^ 32" using False assms by (simp add: word_le_nat_alt)
  ultimately have "unat (w + (c - r + 1)) = unat w + (unat c - unat r + 1)"
    by (simp add: unat_word_ariths)
  then show ?thesis using False assms(2) by (simp add: ring_array_nelem_def dist_def word_le_nat_alt)
qed

lemma dist_le: "r < n \<Longrightarrow> w < n \<Longrightarrow> dist n r w < n"
  by (auto simp: dist_def)

lemma dist_0: "r < n \<Longrightarrow> w < n \<Longrightarrow> dist n r w = 0 \<longleftrightarrow> r = w"
  by (auto simp: dist_def)

lemma dist_write: "r < n \<Longrightarrow> w < n \<Longrightarrow> dist n r w < n - 1 \<Longrightarrow> dist n r ((w + 1) mod n) = dist n r w + 1"
  by (cases "w + 1 = n") (auto simp: dist_def)

lemma dist_read: "r < n \<Longrightarrow> w < n \<Longrightarrow> r \<noteq> w \<Longrightarrow> dist n ((r + 1) mod n) w = dist n r w - 1"
  by (cases "r + 1 = n") (auto simp: dist_def)

lemma dist_end: "r < n \<Longrightarrow> w < n \<Longrightarrow> (r + dist n r w) mod n = w"
  by (auto simp: dist_def)

lemma dist_other:
  assumes "r < n" "w < n" "i < dist n r w"
  shows "(r + i) mod n \<noteq> w"
proof -
  have "r + i < n \<Longrightarrow> (r + i) mod n = r + i" "n \<le> r + i \<Longrightarrow> (r + i) mod n = r + i - n"
    using assms dist_le [OF assms(1,2)] by (simp_all add: mod_if)
  then show ?thesis using assms by (cases "r + i < n") (auto simp: dist_def split: if_splits)
qed

lemma ring_invD:
  assumes "ring_inv arr"
  shows "unat (ra_rpos arr) < unat (ra_cap arr) + 1" "unat (ra_wpos arr) < unat (ra_cap arr) + 1"
    "length (ra_data arr) = unat (ra_cap arr) + 1" "unat (ra_cap arr) + 1 < 2 ^ 32"
    "ra_rpos arr \<le> ra_cap arr" "ra_wpos arr \<le> ra_cap arr"
  using assms by (auto simp: ring_inv_def word_le_nat_alt)

lemma ring_full_iff:
  assumes "ring_inv arr"
  shows "ring_array_full (ra_rpos arr) (ra_wpos arr) (ra_cap arr) \<longleftrightarrow> length (ring_list arr) = unat (ra_cap arr)"
  using ring_array_nelem_dist [OF ring_invD(4-6) [OF assms]]
  by (simp add: ring_array_full_def ring_list_def ring_count_def word_unat_eq_iff)

lemma ring_empty_iff:
  assumes "ring_inv arr"
  shows "ring_array_empty (ra_rpos arr) (ra_wpos arr) \<longleftrightarrow> ring_list arr = []"
  using dist_0 [OF ring_invD(1,2) [OF assms]]
  by (simp add: ring_array_empty_def ring_list_def ring_count_def word_unat_eq_iff)

section \<open>Refinement of a bounded queue\<close>

lemma ring_list_bound: "ring_inv arr \<Longrightarrow> length (ring_list arr) \<le> unat (ra_cap arr)"
  using dist_le [OF ring_invD(1,2)] by (simp add: ring_list_def ring_count_def less_Suc_eq_le)

text \<open>Writing the slot at the write position changes no element of the queue.\<close>

lemma ring_list_write:
  assumes "ring_inv arr"
  shows "ring_list (arr\<lparr>ra_data := (ra_data arr)[unat (ra_wpos arr) := x]\<rparr>) = ring_list arr"
  using dist_other [OF ring_invD(1,2) [OF assms]] by (simp add: ring_list_def ring_count_def nth_list_update_neq [OF not_sym])

text \<open>Moving the write position appends the slot it was at, moving the read position drops the first element.\<close>

lemma ring_list_advance:
  assumes inv: "ring_inv arr" and room: "length (ring_list arr) < unat (ra_cap arr)"
  defines "arr' \<equiv> arr\<lparr>ra_wpos := (ra_wpos arr + 1) mod (ra_cap arr + 1)\<rparr>"
  shows "ring_inv arr'" and "ring_list arr' = ring_list arr @ [ra_data arr ! unat (ra_wpos arr)]"
proof -
  note I = ring_invD [OF inv]
  note N = unat_next [OF I(4,6)]
  show "ring_inv arr'" using inv N(2) by (simp add: ring_inv_def arr'_def)
  have c: "ring_count arr' = ring_count arr + 1"
    using dist_write [OF I(1,2)] room by (simp add: ring_count_def arr'_def N(1) ring_list_def)
  have e: "(unat (ra_rpos arr) + ring_count arr) mod (unat (ra_cap arr) + 1) = unat (ra_wpos arr)"
    using dist_end [OF I(1,2)] by (simp add: ring_count_def)
  have "ring_list arr' = map (\<lambda>i. ra_data arr ! ((unat (ra_rpos arr) + i) mod (unat (ra_cap arr) + 1))) [0..<ring_count arr + 1]"
    unfolding ring_list_def c by (simp add: arr'_def)
  then show "ring_list arr' = ring_list arr @ [ra_data arr ! unat (ra_wpos arr)]"
    using e by (simp add: ring_list_def)
qed

lemma ring_list_drop:
  assumes inv: "ring_inv arr" and ne: "ring_list arr \<noteq> []"
  defines "arr' \<equiv> arr\<lparr>ra_rpos := (ra_rpos arr + 1) mod (ra_cap arr + 1)\<rparr>"
  shows "ring_inv arr'" and "ring_list arr = ra_data arr ! unat (ra_rpos arr) # ring_list arr'"
proof -
  note I = ring_invD [OF inv]
  note N = unat_next [OF I(4,5)]
  show "ring_inv arr'" using inv N(2) by (simp add: ring_inv_def arr'_def)
  have "unat (ra_rpos arr) \<noteq> unat (ra_wpos arr)"
    using ne dist_0 [OF I(1,2)] by (auto simp: ring_list_def ring_count_def)
  then have c: "ring_count arr = Suc (ring_count arr')"
    using dist_read [OF I(1,2)] dist_0 [OF I(1,2)] by (simp add: ring_count_def arr'_def N(1))
  have "ring_list arr = ra_data arr ! unat (ra_rpos arr)
      # map (\<lambda>i. ra_data arr ! ((unat (ra_rpos arr) + Suc i) mod (unat (ra_cap arr) + 1))) [0..<ring_count arr']"
    unfolding ring_list_def c map_upt_Suc using I(1) by simp
  then show "ring_list arr = ra_data arr ! unat (ra_rpos arr) # ring_list arr'"
    by (simp add: ring_list_def arr'_def N(1) mod_add_left_eq)
qed

lemma ring_push_ok:
  assumes "ring_inv arr" and "length (ring_list arr) < unat (ra_cap arr)"
  shows "\<exists>arr'. ring_array_push x arr = (MC_OK, arr') \<and> ring_inv arr' \<and> ring_list arr' = ring_list arr @ [x]
    \<and> ra_cap arr' = ra_cap arr"
proof -
  let ?a = "arr\<lparr>ra_data := (ra_data arr)[unat (ra_wpos arr) := x]\<rparr>"
  have i: "ring_inv ?a" using assms(1) by (simp add: ring_inv_def)
  have l: "length (ring_list ?a) < unat (ra_cap ?a)" using assms by (simp add: ring_list_write)
  have "unat (ra_wpos arr) < length (ra_data arr)" using ring_invD [OF assms(1)] by simp
  then show ?thesis
    using ring_list_advance [OF i l] assms ring_full_iff [OF assms(1)]
    by (simp add: ring_array_push_def ring_list_write)
qed

lemma ring_pop_ok:
  assumes "ring_inv arr" and "ring_list arr = x # xs"
  shows "\<exists>arr'. ring_array_pop arr = (Some x, arr') \<and> ring_inv arr' \<and> ring_list arr' = xs \<and> ra_cap arr' = ra_cap arr"
  using ring_list_drop [OF assms(1)] assms ring_empty_iff [OF assms(1)] by (simp add: ring_array_pop_def)

lemma ring_create:
  assumes "ring_array_create cap mem = Some arr" and "unat cap + 1 < 2 ^ 32" and "\<And>d. mem = Some d \<Longrightarrow> length d = unat cap + 1"
  shows "ring_inv arr" and "ring_list arr = []" and "ra_cap arr = cap"
  using assms by (auto simp: ring_array_create_def ring_inv_def ring_list_def ring_count_def dist_def)

text \<open>The interface: a bounded first-in first-out queue.\<close>

locale bounded_fifo =
  fixes inv :: "'q \<Rightarrow> bool" and contents :: "'q \<Rightarrow> 'a list" and limit :: "'q \<Rightarrow> nat"
    and push :: "'a \<Rightarrow> 'q \<Rightarrow> rstatus \<times> 'q" and pop :: "'q \<Rightarrow> 'a option \<times> 'q"
  assumes bound: "inv q \<Longrightarrow> length (contents q) \<le> limit q"
    and push_full: "inv q \<Longrightarrow> length (contents q) = limit q \<Longrightarrow> push x q = (MC_ERROR, q)"
    and push_room: "inv q \<Longrightarrow> length (contents q) < limit q \<Longrightarrow>
          \<exists>q'. push x q = (MC_OK, q') \<and> inv q' \<and> contents q' = contents q @ [x] \<and> limit q' = limit q"
    and pop_empty: "inv q \<Longrightarrow> contents q = [] \<Longrightarrow> pop q = (None, q)"
    and pop_first: "inv q \<Longrightarrow> contents q = x # xs \<Longrightarrow>
          \<exists>q'. pop q = (Some x, q') \<and> inv q' \<and> contents q' = xs \<and> limit q' = limit q"
begin

lemma inv_push: "inv q \<Longrightarrow> inv (snd (push x q)) \<and> limit (snd (push x q)) = limit q"
  using push_full [of q x] push_room [of q x] bound [of q] by (cases "length (contents q) = limit q") fastforce+

lemma inv_pop: "inv q \<Longrightarrow> inv (snd (pop q)) \<and> limit (snd (pop q)) = limit q"
  using pop_empty [of q] pop_first [of q] by (cases "contents q") fastforce+

lemma push_eq:
  assumes "inv q" and "push x q = (st, q')"
  shows "st = MC_OK \<and> length (contents q) < limit q \<and> contents q' = contents q @ [x]
    \<or> st = MC_ERROR \<and> length (contents q) = limit q \<and> q' = q"
  using push_full [of q x] push_room [of q x] bound [of q] assms by (cases "length (contents q) = limit q") fastforce+

lemma pop_eq:
  assumes "inv q" and "pop q = (r, q')"
  shows "contents q = [] \<and> r = None \<and> q' = q \<or> (\<exists>x. contents q = x # contents q' \<and> r = Some x)"
  using pop_empty [of q] pop_first [of q] assms by (cases "contents q") fastforce+

text \<open>What is pushed comes out in the same order.\<close>

lemma push_all:
  "inv q \<Longrightarrow> length (contents q) + length xs \<le> limit q \<Longrightarrow>
     contents (fold (\<lambda>x q. snd (push x q)) xs q) = contents q @ xs \<and> inv (fold (\<lambda>x q. snd (push x q)) xs q)"
proof (induction xs arbitrary: q)
  case (Cons x xs)
  from push_room [OF Cons.prems(1), of x] Cons.prems(2) obtain q' where
    "push x q = (MC_OK, q')" "inv q'" "contents q' = contents q @ [x]" "limit q' = limit q" by auto
  then show ?case using Cons.IH [of q'] Cons.prems(2) by simp
qed simp

end

interpretation ring: bounded_fifo ring_inv ring_list "\<lambda>arr. unat (ra_cap arr)" ring_array_push ring_array_pop
proof
  fix arr :: "'a ring_array" and x :: 'a and xs
  assume inv: "ring_inv arr"
  show "length (ring_list arr) \<le> unat (ra_cap arr)" by (rule ring_list_bound [OF inv])
  show "ring_array_push x arr = (MC_ERROR, arr)" if "length (ring_list arr) = unat (ra_cap arr)"
    using that ring_full_iff [OF inv] by (simp add: ring_array_push_def)
  show "\<exists>arr'. ring_array_push x arr = (MC_OK, arr') \<and> ring_inv arr' \<and> ring_list arr' = ring_list arr @ [x]
      \<and> unat (ra_cap arr') = unat (ra_cap arr)" if "length (ring_list arr) < unat (ra_cap arr)"
    using ring_push_ok [OF inv that, of x] by auto
  show "ring_array_pop arr = (None, arr)" if "ring_list arr = []"
    using that ring_empty_iff [OF inv] by (simp add: ring_array_pop_def)
  show "\<exists>arr'. ring_array_pop arr = (Some x, arr') \<and> ring_inv arr' \<and> ring_list arr' = xs \<and> unat (ra_cap arr') = unat (ra_cap arr)"
    if "ring_list arr = x # xs"
    using ring_pop_ok [OF inv that] by auto
qed

section \<open>One producer and one consumer\<close>

text \<open>
  Push and pop taken apart at their accesses to the shared positions. The producer takes a snapshot of the
  read position, checks it, writes the slot and then stores the write position; the consumer
  does the same the other way round. Their accesses interleave freely and become visible in
  the order they are made. \<open>sp_in\<close> and \<open>sp_out\<close> record what was pushed and popped.
\<close>

datatype 'a producer = P_idle | P_loaded 'a u32 | P_written 'a
datatype 'a consumer = C_idle | C_loaded u32 | C_read 'a

record 'a spsc =
  sp_arr :: "'a ring_array"
  sp_prod :: "'a producer"
  sp_cons :: "'a consumer"
  sp_in :: "'a list"
  sp_out :: "'a list"

inductive spsc_step :: "'a spsc \<Rightarrow> 'a spsc \<Rightarrow> bool" where
  p_load: "sp_prod s = P_idle \<Longrightarrow> spsc_step s (s\<lparr>sp_prod := P_loaded x (ra_rpos (sp_arr s))\<rparr>)"
| p_full: "sp_prod s = P_loaded x r \<Longrightarrow> ring_array_full r (ra_wpos (sp_arr s)) (ra_cap (sp_arr s)) \<Longrightarrow>
     spsc_step s (s\<lparr>sp_prod := P_idle\<rparr>)"
| p_write: "sp_prod s = P_loaded x r \<Longrightarrow> \<not> ring_array_full r (ra_wpos (sp_arr s)) (ra_cap (sp_arr s)) \<Longrightarrow>
     spsc_step s (s\<lparr>sp_prod := P_written x,
       sp_arr := (sp_arr s)\<lparr>ra_data := (ra_data (sp_arr s))[unat (ra_wpos (sp_arr s)) := x]\<rparr>\<rparr>)"
| p_store: "sp_prod s = P_written x \<Longrightarrow>
     spsc_step s (s\<lparr>sp_prod := P_idle, sp_in := sp_in s @ [x],
       sp_arr := (sp_arr s)\<lparr>ra_wpos := (ra_wpos (sp_arr s) + 1) mod (ra_cap (sp_arr s) + 1)\<rparr>\<rparr>)"
| c_load: "sp_cons s = C_idle \<Longrightarrow> spsc_step s (s\<lparr>sp_cons := C_loaded (ra_wpos (sp_arr s))\<rparr>)"
| c_empty: "sp_cons s = C_loaded w \<Longrightarrow> ring_array_empty (ra_rpos (sp_arr s)) w \<Longrightarrow> spsc_step s (s\<lparr>sp_cons := C_idle\<rparr>)"
| c_read: "sp_cons s = C_loaded w \<Longrightarrow> \<not> ring_array_empty (ra_rpos (sp_arr s)) w \<Longrightarrow>
     spsc_step s (s\<lparr>sp_cons := C_read (ra_data (sp_arr s) ! unat (ra_rpos (sp_arr s)))\<rparr>)"
| c_store: "sp_cons s = C_read x \<Longrightarrow>
     spsc_step s (s\<lparr>sp_cons := C_idle, sp_out := sp_out s @ [x],
       sp_arr := (sp_arr s)\<lparr>ra_rpos := (ra_rpos (sp_arr s) + 1) mod (ra_cap (sp_arr s) + 1)\<rparr>\<rparr>)"

text \<open>What each side relies on: a snapshot is never ahead of the position it was taken from.\<close>

fun prod_ok :: "'a ring_array \<Rightarrow> 'a producer \<Rightarrow> bool" where
  "prod_ok arr P_idle = True"
| "prod_ok arr (P_loaded x r) \<longleftrightarrow> r \<le> ra_cap arr
     \<and> ring_count arr \<le> dist (unat (ra_cap arr) + 1) (unat r) (unat (ra_wpos arr))"
| "prod_ok arr (P_written x) \<longleftrightarrow> ring_count arr < unat (ra_cap arr) \<and> ra_data arr ! unat (ra_wpos arr) = x"

fun cons_ok :: "'a ring_array \<Rightarrow> 'a consumer \<Rightarrow> bool" where
  "cons_ok arr C_idle = True"
| "cons_ok arr (C_loaded w) \<longleftrightarrow> w \<le> ra_cap arr
     \<and> dist (unat (ra_cap arr) + 1) (unat (ra_rpos arr)) (unat w) \<le> ring_count arr"
| "cons_ok arr (C_read x) \<longleftrightarrow> ring_list arr \<noteq> [] \<and> hd (ring_list arr) = x"

definition spsc_inv :: "'a spsc \<Rightarrow> bool" where
  "spsc_inv s \<longleftrightarrow> ring_inv (sp_arr s) \<and> sp_in s = sp_out s @ ring_list (sp_arr s)
     \<and> prod_ok (sp_arr s) (sp_prod s) \<and> cons_ok (sp_arr s) (sp_cons s)"

lemma length_ring_list [simp]: "length (ring_list arr) = ring_count arr"
  by (simp add: ring_list_def)

lemma ring_count_write [simp]: "ring_count (arr\<lparr>ra_data := d\<rparr>) = ring_count arr"
  by (simp add: ring_count_def)

lemma write_ok:
  assumes inv: "ring_inv arr" and p: "prod_ok arr (P_loaded x r)" and nf: "\<not> ring_array_full r (ra_wpos arr) (ra_cap arr)"
  shows "ring_inv (arr\<lparr>ra_data := (ra_data arr)[unat (ra_wpos arr) := x]\<rparr>)"
    and "prod_ok (arr\<lparr>ra_data := (ra_data arr)[unat (ra_wpos arr) := x]\<rparr>) (P_written x)"
    and "cons_ok arr c \<Longrightarrow> cons_ok (arr\<lparr>ra_data := (ra_data arr)[unat (ra_wpos arr) := x]\<rparr>) c"
proof -
  note I = ring_invD [OF inv]
  show "ring_inv (arr\<lparr>ra_data := (ra_data arr)[unat (ra_wpos arr) := x]\<rparr>)" using inv by (simp add: ring_inv_def)
  have r: "r \<le> ra_cap arr" "ring_count arr \<le> dist (unat (ra_cap arr) + 1) (unat r) (unat (ra_wpos arr))" using p by simp_all
  have "unat (ring_array_nelem r (ra_wpos arr) (ra_cap arr)) = dist (unat (ra_cap arr) + 1) (unat r) (unat (ra_wpos arr))"
    by (rule ring_array_nelem_dist [OF I(4) r(1) I(6)])
  moreover have "dist (unat (ra_cap arr) + 1) (unat r) (unat (ra_wpos arr)) < unat (ra_cap arr) + 1"
    by (rule dist_le) (use r(1) I(2) in \<open>simp_all add: word_le_nat_alt\<close>)
  ultimately have "dist (unat (ra_cap arr) + 1) (unat r) (unat (ra_wpos arr)) \<noteq> unat (ra_cap arr)"
    using nf by (auto simp: ring_array_full_def word_unat_eq_iff)
  then have "ring_count arr < unat (ra_cap arr)"
    using r(2) \<open>dist (unat (ra_cap arr) + 1) (unat r) (unat (ra_wpos arr)) < unat (ra_cap arr) + 1\<close> by linarith
  then show "prod_ok (arr\<lparr>ra_data := (ra_data arr)[unat (ra_wpos arr) := x]\<rparr>) (P_written x)" using I(2,3) by simp
  show "cons_ok arr c \<Longrightarrow> cons_ok (arr\<lparr>ra_data := (ra_data arr)[unat (ra_wpos arr) := x]\<rparr>) c"
    by (cases c) (simp_all add: ring_list_write [OF inv])
qed

lemma spsc_step_inv:
  assumes "spsc_step s s'" and "spsc_inv s"
  shows "spsc_inv s'"
  using assms
proof cases
  case (p_write x r)
  then show ?thesis
    using assms(2) write_ok [of "sp_arr s" x r] ring_list_write [of "sp_arr s" x] by (simp add: spsc_inv_def)
next
  case (p_store x)
  have inv: "ring_inv (sp_arr s)" and l: "length (ring_list (sp_arr s)) < unat (ra_cap (sp_arr s))"
    using assms(2) p_store by (auto simp: spsc_inv_def)
  note A = ring_list_advance [OF inv l]
  let ?a = "(sp_arr s)\<lparr>ra_wpos := (ra_wpos (sp_arr s) + 1) mod (ra_cap (sp_arr s) + 1)\<rparr>"
  have c: "ring_count ?a = ring_count (sp_arr s) + 1" using arg_cong [OF A(2), of length] by simp
  have "cons_ok (sp_arr s) (sp_cons s)" using assms(2) by (simp add: spsc_inv_def)
  then have "cons_ok ?a (sp_cons s)" by (cases "sp_cons s") (simp_all add: c A(2))
  then show ?thesis using A p_store assms(2) by (simp add: spsc_inv_def)
next
  case (c_read w)
  have inv: "ring_inv (sp_arr s)" and ok: "cons_ok (sp_arr s) (C_loaded w)" using assms(2) c_read by (auto simp: spsc_inv_def)
  have "dist (unat (ra_cap (sp_arr s)) + 1) (unat (ra_rpos (sp_arr s))) (unat w) \<noteq> 0"
    using dist_0 [OF ring_invD(1) [OF inv], of "unat w"] ok c_read(3)
    by (auto simp: ring_array_empty_def word_unat_eq_iff word_le_nat_alt)
  then have ne: "ring_list (sp_arr s) \<noteq> []" using ok by (simp flip: length_greater_0_conv)
  then have "hd (ring_list (sp_arr s)) = ra_data (sp_arr s) ! unat (ra_rpos (sp_arr s))"
    using ring_list_drop(2) [OF inv] by simp
  with ne show ?thesis using assms(2) c_read(1) by (simp add: spsc_inv_def)
next
  case (c_store x)
  have inv: "ring_inv (sp_arr s)" and ne: "ring_list (sp_arr s) \<noteq> []" "hd (ring_list (sp_arr s)) = x"
    using assms(2) c_store by (auto simp: spsc_inv_def)
  note D = ring_list_drop [OF inv ne(1)]
  let ?a = "(sp_arr s)\<lparr>ra_rpos := (ra_rpos (sp_arr s) + 1) mod (ra_cap (sp_arr s) + 1)\<rparr>"
  have c: "ring_count (sp_arr s) = ring_count ?a + 1" using arg_cong [OF D(2), of length] by simp
  have "prod_ok (sp_arr s) (sp_prod s)" using assms(2) by (simp add: spsc_inv_def)
  then have "prod_ok ?a (sp_prod s)" by (cases "sp_prod s") (simp_all add: c)
  moreover have "ring_list (sp_arr s) = x # ring_list ?a" using D(2) ne(2) by simp
  ultimately show ?thesis using D(1) c_store assms(2) by (simp add: spsc_inv_def)
qed (auto simp: spsc_inv_def ring_count_def ring_inv_def)

definition spsc_init :: "'a ring_array \<Rightarrow> 'a spsc" where
  "spsc_init arr = \<lparr>sp_arr = arr, sp_prod = P_idle, sp_cons = C_idle, sp_in = ring_list arr, sp_out = []\<rparr>"

lemma spsc_run_inv:
  assumes "spsc_step\<^sup>*\<^sup>* (spsc_init arr) s" and "ring_inv arr"
  shows "spsc_inv s"
  using assms(1)
proof (induction rule: rtranclp_induct)
  case base
  then show ?case using assms(2) by (simp add: spsc_inv_def spsc_init_def)
qed (blast intro: spsc_step_inv)

end
