(* ===== verification/McKeyWindow.thy ===== *)
theory McKeyWindow
  imports McRing McAssoc
begin

text \<open>
  The sliding window of sampled keys behind hotkey detection: the counting hash table of
  \<^verbatim>\<open>mc_kc_map.c\<close>, with linear probing, and the window of \<^verbatim>\<open>mc_key_window.c\<close>, a ring array of pointers into the
  table. A pointer to a table entry is its index. The probe loop of \<^verbatim>\<open>kc_map_incr\<close> may run forever or
  divide by zero; not returning is the result \<open>None\<close>.
\<close>

section \<open>The key count map\<close>

record kc_map_entry =
  kc_key :: bytes
  kc_klen :: nat
  kc_count :: nat

record kc_map =
  kc_table :: "kc_map_entry list"
  kc_table_size :: nat
  kc_table_nkey :: nat

definition kc_map_entry_reset :: "kc_map_entry \<Rightarrow> kc_map_entry" where
  "kc_map_entry_reset kcme = kcme\<lparr>kc_klen := 0, kc_count := 0\<rparr>"

text \<open>\<open>mem\<close> is the memory obtained for the table, \<open>None\<close> when the allocation fails.\<close>

definition kc_map_init :: "nat \<Rightarrow> kc_map_entry list option \<Rightarrow> kc_map \<Rightarrow> rstatus \<times> kc_map" where
  "kc_map_init sz mem m =
     (let m = m\<lparr>kc_table_size := 2 * sz\<rparr> in
      case mem of
        None \<Rightarrow> (MC_ENOMEM, m)
      | Some t \<Rightarrow> (MC_OK, m\<lparr>kc_table := map kc_map_entry_reset t, kc_table_nkey := 0\<rparr>))"

definition kc_map_deinit :: "kc_map \<Rightarrow> kc_map" where
  "kc_map_deinit m = m\<lparr>kc_table := [], kc_table_size := 0, kc_table_nkey := 0\<rparr>"

text \<open>\<^verbatim>\<open>strncmp(a, b, n) == 0\<close>: equal up to \<open>n\<close> characters or the end of both strings.\<close>

definition strncmp_eq :: "bytes \<Rightarrow> bytes \<Rightarrow> nat \<Rightarrow> bool" where
  "strncmp_eq a b n \<longleftrightarrow> takeWhile (\<lambda>c. c \<noteq> CHR 0x00) (take n a) = takeWhile (\<lambda>c. c \<noteq> CHR 0x00) (take n b)"

definition kc_map_match :: "kc_map_entry \<Rightarrow> bytes \<Rightarrow> bool" where
  "kc_map_match kcme key \<longleftrightarrow>
     kc_count kcme = 0 \<or> kc_klen kcme = length key \<and> strncmp_eq (kc_key kcme) key (length key)"

text \<open>The probe loop with as many rounds as the table has entries; a further round would start over.\<close>

fun kc_probe :: "kc_map_entry list \<Rightarrow> nat \<Rightarrow> bytes \<Rightarrow> nat \<Rightarrow> nat \<Rightarrow> nat option" where
  "kc_probe t n key 0 entry = None"
| "kc_probe t n key (Suc fuel) entry =
     (if kc_map_match (t ! entry) key then Some entry else kc_probe t n key fuel ((entry + 1) mod n))"

definition kc_hit :: "bytes \<Rightarrow> kc_map_entry \<Rightarrow> kc_map_entry" where
  "kc_hit key kcme =
     (if kc_count kcme = 0
      then kcme\<lparr>kc_key := key @ drop (length key) (kc_key kcme), kc_klen := length key, kc_count := 1\<rparr>
      else kcme\<lparr>kc_count := kc_count kcme + 1\<rparr>)"

definition kc_map_incr :: "bytes \<Rightarrow> kc_map \<Rightarrow> (nat \<times> kc_map) option" where
  "kc_map_incr key m =
     (if kc_table_size m = 0 then None
      else
        (case kc_probe (kc_table m) (kc_table_size m) key (kc_table_size m)
                (unat (hash_key key) mod kc_table_size m) of
           None \<Rightarrow> None
         | Some entry \<Rightarrow> Some (entry, m\<lparr>kc_table := (kc_table m)[entry := kc_hit key (kc_table m ! entry)]\<rparr>)))"

definition kc_map_decr :: "nat \<Rightarrow> kc_map \<Rightarrow> kc_map" where
  "kc_map_decr entry m =
     (let kcme = kc_table m ! entry in
      m\<lparr>kc_table := (kc_table m)[entry :=
          (if kc_count kcme = 1 then kc_map_entry_reset kcme else kcme\<lparr>kc_count := kc_count kcme - 1\<rparr>)]\<rparr>)"

section \<open>The window\<close>

record kw_entry =
  kw_kcme :: nat
  kw_timestamp_us :: u64

record key_window =
  kw_queue :: "kw_entry ring_array"
  key_window_size :: nat
  key_window_max :: nat
  kw_map :: kc_map

definition key_window_push :: "bytes \<Rightarrow> u64 \<Rightarrow> key_window \<Rightarrow> (nat \<times> key_window) option" where
  "key_window_push key time w =
     (case kc_map_incr key (kw_map w) of
        None \<Rightarrow> None
      | Some (kcme, m) \<Rightarrow>
          (let (status, q) = ring_array_push \<lparr>kw_kcme = kcme, kw_timestamp_us = time\<rparr> (kw_queue w)
           in Some (kc_count (kc_table m ! kcme),
                    w\<lparr>kw_queue := q, key_window_size := key_window_size w + 1, kw_map := m\<rparr>)))"

text \<open>Popping an empty window would use an uninitialised entry.\<close>

definition key_window_pop :: "key_window \<Rightarrow> (u64 \<times> key_window) option" where
  "key_window_pop w =
     (case ring_array_pop (kw_queue w) of
        (None, q) \<Rightarrow> None
      | (Some kwe, q) \<Rightarrow>
          Some (kw_timestamp_us kwe,
                w\<lparr>kw_queue := q, key_window_size := key_window_size w - 1,
                  kw_map := kc_map_decr (kw_kcme kwe) (kw_map w)\<rparr>))"

definition key_window_full :: "key_window \<Rightarrow> bool" where
  "key_window_full w \<longleftrightarrow> key_window_size w = key_window_max w"

definition key_window_init :: "nat \<Rightarrow> kw_entry list option \<Rightarrow> key_window \<Rightarrow> rstatus \<times> key_window" where
  "key_window_init sz mem w =
     (case ring_array_create (of_nat sz) mem of
        None \<Rightarrow> (MC_ENOMEM, w)
      | Some q \<Rightarrow> (MC_OK, w\<lparr>kw_queue := q, key_window_size := 0, key_window_max := sz\<rparr>))"

definition key_window_deinit :: "key_window \<Rightarrow> key_window" where
  "key_window_deinit w = w\<lparr>key_window_size := 0, key_window_max := 0\<rparr>"

section \<open>Probing\<close>

lemma kc_probe_None: "kc_probe t n key f entry = None \<longleftrightarrow> (\<forall>j < f. \<not> kc_map_match (t ! ((entry + j) mod n)) key)"
  if "entry < n"
  using that
proof (induction f arbitrary: entry)
  case (Suc f)
  have "(\<forall>j < Suc f. \<not> kc_map_match (t ! ((entry + j) mod n)) key)
      \<longleftrightarrow> \<not> kc_map_match (t ! entry) key \<and> (\<forall>j < f. \<not> kc_map_match (t ! (((entry + 1) mod n + j) mod n)) key)"
    using Suc.prems by (simp add: All_less_Suc2 mod_add_left_eq)
  then show ?case using Suc.IH [of "(entry + 1) mod n"] Suc.prems by auto
qed simp

lemma kc_probe_Some: "kc_probe t n key f entry = Some i \<Longrightarrow> entry < n \<Longrightarrow> i < n \<and> kc_map_match (t ! i) key"
  by (induction t n key f entry rule: kc_probe.induct) (auto split: if_splits)

lemma kc_probe_total:
  assumes "entry < n" and "i < n" and "kc_map_match (t ! i) key"
  shows "\<exists>k. kc_probe t n key n entry = Some k"
proof -
  have "(entry + (i + n - entry) mod n) mod n = i" using assms(1,2) by (simp add: mod_add_right_eq)
  moreover have "(i + n - entry) mod n < n" using assms(1) by simp
  ultimately have "kc_probe t n key n entry \<noteq> None" using kc_probe_None [OF assms(1)] assms(3) by metis
  then show ?thesis by simp
qed

text \<open>The bound on the rounds is no restriction: a probe that fails within it never ends.\<close>

lemma kc_probe_fuel:
  assumes "entry < n" and "kc_probe t n key n entry = None"
  shows "kc_probe t n key f entry = None"
proof -
  have "\<not> kc_map_match (t ! ((entry + j) mod n)) key" for j
  proof -
    have "(entry + j mod n) mod n = (entry + j) mod n" by (rule mod_add_right_eq)
    then show ?thesis using assms kc_probe_None [OF assms(1), of t key n] by (metis mod_less_divisor gr_zeroI not_less0)
  qed
  then show ?thesis using kc_probe_None [OF assms(1)] by blast
qed

section \<open>The window and its map agree\<close>

definition entry_key :: "kc_map_entry \<Rightarrow> bytes" where
  "entry_key kcme = take (kc_klen kcme) (kc_key kcme)"

definition key_valid :: "bytes \<Rightarrow> bool" where
  "key_valid key \<longleftrightarrow> CHR 0x00 \<notin> set key"

lemma strncmp_eq_valid:
  assumes "key_valid key" and "key_valid (take (length key) a)" and "length key \<le> length a"
  shows "strncmp_eq a key (length key) \<longleftrightarrow> take (length key) a = key"
proof -
  have t: "takeWhile (\<lambda>c. c \<noteq> CHR 0x00) xs = xs" if "key_valid xs" for xs
    using that by (simp add: key_valid_def takeWhile_eq_all_conv) metis
  show ?thesis unfolding strncmp_eq_def t [OF assms(2)] take_all [OF order_refl] t [OF assms(1)] ..
qed

text \<open>
  \<open>K\<close> lists the keys in the window, oldest first. Every table entry counts the window entries that point to it,
  and holds the key they were pushed with.
\<close>

definition win_rel :: "bytes list \<Rightarrow> key_window \<Rightarrow> bool" where
  "win_rel K w \<longleftrightarrow> ring_inv (kw_queue w) \<and> unat (ra_cap (kw_queue w)) = key_window_max w \<and> 0 < key_window_max w
     \<and> key_window_size w = length (ring_list (kw_queue w)) \<and> length K = length (ring_list (kw_queue w))
     \<and> kc_table_size (kw_map w) = 2 * key_window_max w \<and> length (kc_table (kw_map w)) = 2 * key_window_max w
     \<and> (\<forall>e \<in> set (ring_list (kw_queue w)). kw_kcme e < 2 * key_window_max w)
     \<and> (\<forall>i < 2 * key_window_max w.
          kc_count (kc_table (kw_map w) ! i) = count_list (map kw_kcme (ring_list (kw_queue w))) i)
     \<and> (\<forall>j < length K. entry_key (kc_table (kw_map w) ! kw_kcme (ring_list (kw_queue w) ! j)) = K ! j
          \<and> kc_klen (kc_table (kw_map w) ! kw_kcme (ring_list (kw_queue w) ! j)) = length (K ! j) \<and> key_valid (K ! j))"

lemma sum_count_list:
  fixes xs :: "nat list"
  shows "set xs \<subseteq> {..<n} \<Longrightarrow> (\<Sum>i<n. count_list xs i) = length xs"
proof (induction xs)
  case (Cons x xs)
  have "(\<Sum>i<n. count_list (x # xs) i) = (\<Sum>i<n. (if i = x then 1 else 0) + count_list xs i)"
    by (rule sum.cong) auto
  also have "\<dots> = 1 + length xs" using Cons by (auto simp: sum.distrib)
  finally show ?case by simp
qed simp

text \<open>With fewer keys than entries there is a free entry, so the probe ends.\<close>

lemma win_free_entry:
  assumes "win_rel K w"
  shows "\<exists>i < 2 * key_window_max w. kc_count (kc_table (kw_map w) ! i) = 0"
proof (rule ccontr)
  let ?n = "2 * key_window_max w" and ?xs = "map kw_kcme (ring_list (kw_queue w))"
  assume "\<not> ?thesis"
  then have p: "1 \<le> count_list ?xs i" if "i < ?n" for i
    using that assms by (metis One_nat_def Suc_leI gr0I win_rel_def)
  have "?n \<le> (\<Sum>i<?n. count_list ?xs i)" using sum_mono [of "{..<?n}" "\<lambda>_. 1" "count_list ?xs"] p by simp
  also have "\<dots> = length ?xs" by (rule sum_count_list) (use assms in \<open>auto simp: win_rel_def\<close>)
  also have "\<dots> \<le> key_window_max w" using assms ring_list_bound [of "kw_queue w"] by (simp add: win_rel_def)
  finally show False using assms by (simp add: win_rel_def)
qed

lemma count_list_pos: "0 < count_list xs x \<longleftrightarrow> x \<in> set xs"
  by (metis bot_nat_0.not_eq_extremum count_list_0_iff)

lemma win_used_entry:
  assumes "win_rel K w" and "i < 2 * key_window_max w" and "kc_count (kc_table (kw_map w) ! i) \<noteq> 0"
  shows "\<exists>j < length K. kw_kcme (ring_list (kw_queue w) ! j) = i \<and> entry_key (kc_table (kw_map w) ! i) = K ! j
    \<and> kc_klen (kc_table (kw_map w) ! i) = length (K ! j) \<and> key_valid (K ! j)"
proof -
  have "i \<in> set (map kw_kcme (ring_list (kw_queue w)))"
    using assms count_list_pos [of "map kw_kcme (ring_list (kw_queue w))" i] by (simp add: win_rel_def)
  then obtain j where j: "j < length (ring_list (kw_queue w))" "kw_kcme (ring_list (kw_queue w) ! j) = i"
    by (auto simp: in_set_conv_nth)
  then have "j < length K" using assms(1) by (simp add: win_rel_def)
  with j assms(1) show ?thesis by (auto simp: win_rel_def)
qed

text \<open>The entry the probe stops at is free, or counts this key.\<close>

lemma win_match:
  assumes "win_rel K w" and "i < 2 * key_window_max w" and "kc_map_match (kc_table (kw_map w) ! i) key" and "key_valid key"
  shows "kc_count (kc_table (kw_map w) ! i) = 0
    \<or> entry_key (kc_table (kw_map w) ! i) = key \<and> kc_klen (kc_table (kw_map w) ! i) = length key"
proof (cases "kc_count (kc_table (kw_map w) ! i) = 0")
  case False
  let ?e = "kc_table (kw_map w) ! i"
  from win_used_entry [OF assms(1,2) False] have u: "length (entry_key ?e) = kc_klen ?e" "key_valid (entry_key ?e)" by auto
  have m: "kc_klen ?e = length key" "strncmp_eq (kc_key ?e) key (length key)"
    using assms(3) False by (auto simp: kc_map_match_def)
  have "length key \<le> length (kc_key ?e)" using u(1) m(1) by (simp add: entry_key_def min_def split: if_splits)
  then show ?thesis using strncmp_eq_valid [OF assms(4)] u(2) m by (simp add: entry_key_def)
qed simp

section \<open>Push and pop\<close>

lemma count_list_le:
  "length xs = length ys \<Longrightarrow> (\<forall>j < length xs. xs ! j = a \<longrightarrow> ys ! j = b) \<Longrightarrow> count_list xs a \<le> count_list ys b"
proof (induction xs ys rule: list_induct2)
  case (Cons x xs y ys)
  then have "count_list xs a \<le> count_list ys b" by (simp add: All_less_Suc2)
  then show ?case using Cons.prems by (auto simp: All_less_Suc2)
qed simp

lemma kc_hit_count: "kc_count (kc_hit key e) = kc_count e + 1"
  by (simp add: kc_hit_def)

lemma kc_hit_key:
  assumes "kc_count e = 0 \<or> entry_key e = key \<and> kc_klen e = length key"
  shows "entry_key (kc_hit key e) = key" "kc_klen (kc_hit key e) = length key"
  using assms by (auto simp: kc_hit_def entry_key_def)

lemma key_window_push_win:
  assumes win: "win_rel K w" and room: "length K < key_window_max w" and key: "key_valid key"
  obtains c w' where "key_window_push key time w = Some (c, w')" and "win_rel (K @ [key]) w'"
    and "1 \<le> c" and "c \<le> count_list (K @ [key]) key" and "key_window_max w' = key_window_max w"
    and "map kw_timestamp_us (ring_list (kw_queue w')) = map kw_timestamp_us (ring_list (kw_queue w)) @ [time]"
proof -
  let ?n = "2 * key_window_max w" and ?t = "kc_table (kw_map w)" and ?q = "ring_list (kw_queue w)"
  have W: "ring_inv (kw_queue w)" "unat (ra_cap (kw_queue w)) = key_window_max w" "0 < key_window_max w"
    "key_window_size w = length ?q" "length K = length ?q" "kc_table_size (kw_map w) = ?n" "length ?t = ?n"
    "\<And>e. e \<in> set ?q \<Longrightarrow> kw_kcme e < ?n" "\<And>i. i < ?n \<Longrightarrow> kc_count (?t ! i) = count_list (map kw_kcme ?q) i"
    "\<And>j. j < length K \<Longrightarrow> entry_key (?t ! kw_kcme (?q ! j)) = K ! j
       \<and> kc_klen (?t ! kw_kcme (?q ! j)) = length (K ! j) \<and> key_valid (K ! j)"
    using win by (auto simp: win_rel_def)
  obtain i0 where "i0 < ?n" "kc_count (?t ! i0) = 0" using win_free_entry [OF win] by blast
  then have m0: "i0 < ?n" "kc_map_match (?t ! i0) key" by (simp_all add: kc_map_match_def)
  have h: "unat (hash_key key) mod ?n < ?n" using W(3) by simp
  obtain i where p: "kc_probe ?t ?n key ?n (unat (hash_key key) mod ?n) = Some i" using kc_probe_total [OF h m0] by blast
  from kc_probe_Some [OF p h] have i: "i < ?n" "kc_map_match (?t ! i) key" by simp_all
  note M = win_match [OF win i key]
  let ?t' = "?t[i := kc_hit key (?t ! i)]" and ?e = "\<lparr>kw_kcme = i, kw_timestamp_us = time\<rparr>"
  obtain q' where q': "ring_array_push ?e (kw_queue w) = (MC_OK, q')" "ring_inv q'" "ring_list q' = ?q @ [?e]"
    "unat (ra_cap q') = unat (ra_cap (kw_queue w))"
    using ring.push_room [OF W(1), of ?e] room W(2,5) by auto
  define w' where "w' = w\<lparr>kw_queue := q', key_window_size := key_window_size w + 1, kw_map := (kw_map w)\<lparr>kc_table := ?t'\<rparr>\<rparr>"
  have c: "kc_count (?t' ! j) = count_list (map kw_kcme (?q @ [?e])) j" if "j < ?n" for j
    using that i(1) W(7,9) by (cases "j = i") (simp_all add: kc_hit_count)
  have k: "entry_key (?t' ! kw_kcme ((?q @ [?e]) ! j)) = (K @ [key]) ! j
      \<and> kc_klen (?t' ! kw_kcme ((?q @ [?e]) ! j)) = length ((K @ [key]) ! j) \<and> key_valid ((K @ [key]) ! j)"
    if j: "j < length (K @ [key])" for j
  proof (cases "j < length K")
    case True
    then have jq: "(?q @ [?e]) ! j = ?q ! j" "?q ! j \<in> set ?q" using W(5) by (simp_all add: nth_append)
    have "kc_count (?t ! i) \<noteq> 0" if "kw_kcme (?q ! j) = i"
      using that W(9) [OF i(1)] jq(2) count_list_pos [of "map kw_kcme ?q" i] by auto
    then show ?thesis
      using W(10) [OF True] jq True i(1) W(7)
      by (cases "kw_kcme (?q ! j) = i") (auto simp: nth_append kc_hit_def entry_key_def)
  next
    case False
    then have "j = length K" using j by simp
    then show ?thesis using kc_hit_key [OF M] i(1) W(5,7) key by (simp add: nth_append)
  qed
  have r: "key_window_push key time w = Some (kc_count (?t' ! i), w')"
    using W(3) by (simp add: key_window_push_def kc_map_incr_def W(6) p q'(1) w'_def)
  have win': "win_rel (K @ [key]) w'"
    unfolding win_rel_def using W q' c k i(1) by (auto simp: w'_def)
  have "kc_count (?t' ! i) \<le> count_list (K @ [key]) key"
    unfolding c [OF i(1)]
  proof (rule count_list_le)
    show "length (map kw_kcme (?q @ [?e])) = length (K @ [key])" using W(5) by simp
    show "\<forall>j < length (map kw_kcme (?q @ [?e])). map kw_kcme (?q @ [?e]) ! j = i \<longrightarrow> (K @ [key]) ! j = key"
    proof (intro allI impI)
      fix j assume j: "j < length (map kw_kcme (?q @ [?e]))" "map kw_kcme (?q @ [?e]) ! j = i"
      then have "j < length (K @ [key])" "kw_kcme ((?q @ [?e]) ! j) = i" using W(5) by (auto simp: nth_append split: if_splits)
      then show "(K @ [key]) ! j = key" using k [of j] kc_hit_key(1) [OF M] i(1) W(7) by simp
    qed
  qed
  moreover have "1 \<le> kc_count (?t' ! i)" using i(1) W(7) by (simp add: kc_hit_count)
  ultimately show ?thesis using that [OF r win'] q'(3) by (simp add: w'_def)
qed

lemma key_window_pop_win:
  assumes win: "win_rel (k # K) w"
  obtains w' where "key_window_pop w = Some (kw_timestamp_us (hd (ring_list (kw_queue w))), w')" and "win_rel K w'"
    and "key_window_max w' = key_window_max w" and "ring_list (kw_queue w') = tl (ring_list (kw_queue w))"
proof -
  let ?n = "2 * key_window_max w" and ?t = "kc_table (kw_map w)"
  have W: "ring_inv (kw_queue w)" "unat (ra_cap (kw_queue w)) = key_window_max w" "0 < key_window_max w"
    "key_window_size w = length (ring_list (kw_queue w))" "length (k # K) = length (ring_list (kw_queue w))"
    "kc_table_size (kw_map w) = ?n" "length ?t = ?n"
    "\<And>e. e \<in> set (ring_list (kw_queue w)) \<Longrightarrow> kw_kcme e < ?n"
    "\<And>i. i < ?n \<Longrightarrow> kc_count (?t ! i) = count_list (map kw_kcme (ring_list (kw_queue w))) i"
    "\<And>j. j < length (k # K) \<Longrightarrow> entry_key (?t ! kw_kcme (ring_list (kw_queue w) ! j)) = (k # K) ! j
       \<and> kc_klen (?t ! kw_kcme (ring_list (kw_queue w) ! j)) = length ((k # K) ! j) \<and> key_valid ((k # K) ! j)"
    using win by (auto simp: win_rel_def)
  obtain e es where q: "ring_list (kw_queue w) = e # es" using W(5) by (cases "ring_list (kw_queue w)") auto
  obtain q' where q': "ring_array_pop (kw_queue w) = (Some e, q')" "ring_inv q'" "ring_list q' = es"
    "unat (ra_cap q') = unat (ra_cap (kw_queue w))" using ring.pop_first [OF W(1) q] by auto
  let ?i = "kw_kcme e"
  let ?new = "if kc_count (?t ! ?i) = 1 then kc_map_entry_reset (?t ! ?i) else (?t ! ?i)\<lparr>kc_count := kc_count (?t ! ?i) - 1\<rparr>"
  have i: "?i < ?n" using W(8) q by simp
  define w' where "w' = w\<lparr>kw_queue := q', key_window_size := key_window_size w - 1, kw_map := kc_map_decr ?i (kw_map w)\<rparr>"
  have r: "key_window_pop w = Some (kw_timestamp_us (hd (ring_list (kw_queue w))), w')"
    by (simp add: key_window_pop_def q'(1) q w'_def)
  have c: "kc_count (?t[?i := ?new] ! j) = count_list (map kw_kcme es) j" if "j < ?n" for j
    using W(9) [OF that] W(7) i q by (cases "j = ?i") (auto simp: kc_map_entry_reset_def)
  have kk: "entry_key (?t[?i := ?new] ! kw_kcme (es ! j)) = K ! j \<and> kc_klen (?t[?i := ?new] ! kw_kcme (es ! j)) = length (K ! j)
      \<and> key_valid (K ! j)" if j: "j < length K" for j
  proof -
    have e: "es ! j \<in> set es" using j W(5) q by simp
    have s: "entry_key (?t ! kw_kcme (es ! j)) = K ! j \<and> kc_klen (?t ! kw_kcme (es ! j)) = length (K ! j) \<and> key_valid (K ! j)"
      using W(10) [of "Suc j"] j q by simp
    have "kc_count (?t ! ?i) \<noteq> 1" if a: "kw_kcme (es ! j) = ?i"
    proof -
      have "?i \<in> set (map kw_kcme es)" using e a by (metis image_eqI list.set_map)
      then have "0 < count_list (map kw_kcme es) ?i" by (simp only: count_list_pos)
      then show ?thesis unfolding W(9) [OF i] q by simp
    qed
    then show ?thesis using s i W(7) by (cases "kw_kcme (es ! j) = ?i") (auto simp: entry_key_def)
  qed
  have "win_rel K w'"
    unfolding win_rel_def using W q q' c kk by (auto simp: w'_def kc_map_decr_def Let_def)
  then show ?thesis using that [OF r] q q'(3) by (simp add: w'_def)
qed

lemma key_window_init_win:
  assumes "key_window_init sz qmem w = (MC_OK, w1)" and "kc_map_init sz tmem (kw_map w1) = (MC_OK, m)"
    and "0 < sz" and "sz + 1 < 2 ^ 32" and "\<And>d. qmem = Some d \<Longrightarrow> length d = sz + 1" and "\<And>t. tmem = Some t \<Longrightarrow> length t = 2 * sz"
  shows "win_rel [] (w1\<lparr>kw_map := m\<rparr>)"
proof -
  have u: "unat (of_nat sz :: u32) = sz" using assms(4) by (simp add: unat_of_nat)
  obtain q where q: "ring_array_create (of_nat sz) qmem = Some q" "w1 = w\<lparr>kw_queue := q, key_window_size := 0, key_window_max := sz\<rparr>"
    using assms(1) by (auto simp: key_window_init_def split: option.splits)
  note R = ring_create [OF q(1)]
  have "ring_inv q" "ring_list q = []" "ra_cap q = of_nat sz" using R assms(4,5) u by auto
  moreover obtain t where "tmem = Some t" "kc_table m = map kc_map_entry_reset t" "kc_table_size m = 2 * sz" "length t = 2 * sz"
    using assms(2,6) by (auto simp: kc_map_init_def Let_def split: option.splits)
  ultimately show ?thesis using q(2) u assms(3) by (auto simp: win_rel_def kc_map_entry_reset_def)
qed

end
