(* ===== verification/McTime.thy ===== *)
theory McTime
  imports McPrelude
begin

text \<open>
  The clock of \<^verbatim>\<open>mc_time.c\<close>: the time of day is kept as 32-bit seconds since the server started, and the
  expiry times of clients, absolute or relative, are turned into that form. \<^verbatim>\<open>time_t\<close> is a signed 64-bit
  integer that no clock comes near to overflow, so it is an integer here.
\<close>

definition TIME_MAXDELTA :: int where "TIME_MAXDELTA = 60 * 60 * 24 * 30"

record clock =
  process_started :: int
  ck_now :: u32
  ck_now_usec :: u32

text \<open>\<open>tv_sec\<close> and \<open>tv_nsec\<close> are what \<^verbatim>\<open>clock_gettime\<close> stores.\<close>

definition time_update :: "int \<Rightarrow> int \<Rightarrow> clock \<Rightarrow> clock" where
  "time_update tv_sec tv_nsec ck =
     ck\<lparr>ck_now := word_of_int (tv_sec - process_started ck), ck_now_usec := word_of_int (tv_nsec div 1000)\<rparr>"

definition time_now :: "clock \<Rightarrow> u32" where
  "time_now ck = ck_now ck"

definition time_now_usec :: "clock \<Rightarrow> u32" where
  "time_now_usec ck = ck_now_usec ck"

definition time_now_abs :: "clock \<Rightarrow> int" where
  "time_now_abs ck = process_started ck + uint (ck_now ck)"

definition time_started :: "clock \<Rightarrow> int" where
  "time_started ck = process_started ck"

definition time_reltime :: "int \<Rightarrow> clock \<Rightarrow> u32" where
  "time_reltime exptime ck =
     (if exptime = 0 then 0
      else if exptime > TIME_MAXDELTA then
        (if exptime \<le> process_started ck then 1 else word_of_int (exptime - process_started ck))
      else word_of_int (exptime + uint (ck_now ck)))"

text \<open>\<open>t\<close> is the result of \<^verbatim>\<open>time(NULL)\<close>; the clock handler updates the time and re-arms its timer.\<close>

definition time_init :: "int \<Rightarrow> int \<Rightarrow> int \<Rightarrow> clock \<Rightarrow> clock" where
  "time_init t tv_sec tv_nsec ck = time_update tv_sec tv_nsec (ck\<lparr>process_started := t - 2\<rparr>)"

section \<open>Properties\<close>

text \<open>The absolute time a client means by an expiry.\<close>

definition expiry_abs :: "int \<Rightarrow> clock \<Rightarrow> int" where
  "expiry_abs exptime ck = (if exptime > TIME_MAXDELTA then exptime else time_now_abs ck + exptime)"

lemma uint_word_of_int_u32: "0 \<le> i \<Longrightarrow> i < 2 ^ 32 \<Longrightarrow> uint (word_of_int i :: u32) = i"
  by (simp add: uint_word_of_int)

lemma time_reltime_value:
  assumes "0 < exptime" and "expiry_abs exptime ck - process_started ck < 2 ^ 32"
  shows "uint (time_reltime exptime ck) = max 1 (expiry_abs exptime ck - process_started ck)"
proof (cases "exptime > TIME_MAXDELTA")
  case True
  then have "expiry_abs exptime ck = exptime" by (simp add: expiry_abs_def)
  moreover have "uint (time_reltime exptime ck) = (if exptime \<le> process_started ck then 1 else exptime - process_started ck)"
    using True assms uint_word_of_int_u32 [of "exptime - process_started ck"]
    by (simp add: time_reltime_def expiry_abs_def)
  ultimately show ?thesis by auto
next
  case False
  then have e: "expiry_abs exptime ck - process_started ck = exptime + uint (ck_now ck)"
    by (simp add: expiry_abs_def time_now_abs_def)
  moreover have "max 1 (exptime + uint (ck_now ck)) = exptime + uint (ck_now ck)"
    using assms(1) uint_ge_0 [of "ck_now ck"] by linarith
  ultimately show ?thesis
    using False assms uint_word_of_int_u32 [of "exptime + uint (ck_now ck)"]
    by (simp add: time_reltime_def)
qed

text \<open>The clock is never 0, which \<^verbatim>\<open>oldest_live\<close> relies on.\<close>

lemma time_init_now:
  assumes "t \<le> tv_sec" and "tv_sec - t < 2 ^ 31"
  shows "2 \<le> uint (time_now (time_init t tv_sec tv_nsec ck))"
proof -
  have "uint (word_of_int (tv_sec - (t - 2)) :: u32) = tv_sec - (t - 2)"
    by (rule uint_word_of_int_u32) (use assms in simp_all)
  then show ?thesis using assms(1) by (simp add: time_now_def time_init_def time_update_def)
qed

text \<open>Time does not run backwards while the system clock does not.\<close>

lemma time_update_mono:
  assumes "process_started ck \<le> sec" and "sec \<le> sec'" and "sec' - process_started ck < 2 ^ 32"
  shows "time_now (time_update sec nsec ck) \<le> time_now (time_update sec' nsec' ck)"
proof -
  have "uint (word_of_int (sec - process_started ck) :: u32) = sec - process_started ck"
    "uint (word_of_int (sec' - process_started ck) :: u32) = sec' - process_started ck"
    by (rule uint_word_of_int_u32; use assms in simp)+
  then show ?thesis using assms(2) by (simp add: time_now_def time_update_def word_le_def)
qed

end
