(* ===== verification/McHotkey.thy ===== *)
theory McHotkey
  imports McKeyWindow McTime McStore
begin

text \<open>
  Hotkey detection, \<^verbatim>\<open>mc_hotkey.c\<close>: one in \<open>hotkey_sample_rate\<close> lookups pushes its key into the window; when
  the window is full its age gives the request rate, and the number of times the key is in it decides
  whether the key is reported as hot. The theory also holds \<^verbatim>\<open>item_get\<close> of \<^verbatim>\<open>mc_items.c\<close>, the lookup of the
  protocol layer, which samples the keys it finds and puts the signal into the item.

  \<open>size_t\<close> is 64 bits wide. \<open>'d\<close> is the type of C doubles and \<open>mul\<close> the truncated product of a double and
  a size, which no statement here depends on. A result \<open>None\<close> stands for a division by zero
  or a probe loop without end.
\<close>

section \<open>State\<close>

record 'd hotkey =
  hotkey_realloc :: bool
  hotkey_counter :: u64
  hotkey_redline_qps :: u64
  hotkey_sample_rate :: u64
  hotkey_timeframe :: u64
  hotkey_window_size :: u64
  hotkey_threshold :: u64
  hotkey_bw_threshold :: u64
  hotkey_qps_numerator :: u64
  hk_window :: key_window
  set_hotkey_enable :: bool
  set_hotkey_redline_qps :: u64
  set_hotkey_sample_rate :: u64
  set_hotkey_qps_threshold :: 'd
  set_hotkey_bw_threshold :: u64

definition ITEM_HOT_QPS :: u32 where "ITEM_HOT_QPS = 1"
definition ITEM_HOT_BW :: u32 where "ITEM_HOT_BW = 2"

text \<open>The memory the two allocations of the window and the count table obtain, for a given window size.\<close>

record hk_mem =
  hm_queue :: "kw_entry list option"
  hm_table :: "kc_map_entry list option"

section \<open>Operations\<close>

definition window_sizes :: "'d hotkey \<Rightarrow> 'd hotkey option" where
  "window_sizes h =
     (if hotkey_sample_rate h = 0 then None
      else
        (let ws = hotkey_redline_qps h * hotkey_timeframe h div 1000 div hotkey_sample_rate h
         in Some (h\<lparr>hotkey_window_size := ws, hotkey_qps_numerator := ws * hotkey_sample_rate h * 1000000\<rparr>)))"

definition hotkey_init :: "('d \<Rightarrow> u64 \<Rightarrow> u64) \<Rightarrow> hk_mem \<Rightarrow> 'd hotkey \<Rightarrow> (rstatus \<times> 'd hotkey) option" where
  "hotkey_init mul mem h =
     (let h = h\<lparr>hotkey_redline_qps := set_hotkey_redline_qps h, hotkey_sample_rate := set_hotkey_sample_rate h\<rparr> in
      case window_sizes h of
        None \<Rightarrow> None
      | Some h \<Rightarrow>
          (let h = h\<lparr>hotkey_threshold := mul (set_hotkey_qps_threshold h) (hotkey_window_size h),
                     hotkey_bw_threshold := set_hotkey_bw_threshold h, hotkey_counter := 0\<rparr>;
               (st, w) = key_window_init (unat (hotkey_window_size h)) (hm_queue mem) (hk_window h);
               h = h\<lparr>hk_window := w\<rparr>
           in if st \<noteq> MC_OK then Some (st, h)
              else
                (let (st, m) = kc_map_init (unat (hotkey_window_size h)) (hm_table mem) (kw_map w)
                 in Some (st, h\<lparr>hk_window := w\<lparr>kw_map := m\<rparr>\<rparr>))))"

definition hotkey_deinit :: "'d hotkey \<Rightarrow> 'd hotkey" where
  "hotkey_deinit h =
     (let w = key_window_deinit (hk_window h) in h\<lparr>hk_window := w\<lparr>kw_map := kc_map_deinit (kw_map w)\<rparr>\<rparr>)"

definition get_bandwidth :: "u64 \<Rightarrow> u64 \<Rightarrow> u64 \<Rightarrow> 'd hotkey \<Rightarrow> u64" where
  "get_bandwidth count sz usec h = count * sz * hotkey_sample_rate h * 1000000 div usec"

text \<open>
  \<open>tm\<close> and \<open>us\<close> are the results of \<^verbatim>\<open>time_now\<close> and \<^verbatim>\<open>time_now_usec\<close>, both 32 bits wide, and so are their product
  with 1000000 and their sum.
\<close>

definition hotkey_sample :: "bytes \<Rightarrow> u64 \<Rightarrow> u32 \<Rightarrow> u32 \<Rightarrow> 'd hotkey \<times> thread_metrics
    \<Rightarrow> (u32 \<times> 'd hotkey \<times> thread_metrics) option" where
  "hotkey_sample key vlen tm us hm =
     (let (h, m) = hm; h = h\<lparr>hotkey_counter := hotkey_counter h + 1\<rparr> in
      if hotkey_sample_rate h = 0 then None
      else if hotkey_counter h mod hotkey_sample_rate h \<noteq> 0 then Some (0, h, m)
      else
        (let cur_time = ucast (tm * 1000000 + us) in
         case key_window_push key cur_time (hk_window h) of
           None \<Rightarrow> None
         | Some (c, w) \<Rightarrow>
             (let h = h\<lparr>hk_window := w\<rparr>; m = stats_thread_incr_by THREAD_hotkey_sampled 1 m;
                  count = of_nat c
              in if key_window_full w then
                   (case key_window_pop w of
                      None \<Rightarrow> None
                    | Some (oldest_time, w) \<Rightarrow>
                        (let h = h\<lparr>hk_window := w\<rparr>;
                             time_diff = (if cur_time - oldest_time > 0 then cur_time - oldest_time else 1);
                             qps = hotkey_qps_numerator h div time_diff;
                             bw = get_bandwidth count (of_nat (length key) + vlen) time_diff h
                         in if qps \<ge> hotkey_redline_qps h \<and> count \<ge> hotkey_threshold h
                            then Some (ITEM_HOT_QPS, h, stats_thread_incr_by THREAD_hotkey_qps 1 m)
                            else if bw \<ge> hotkey_bw_threshold h
                            then Some (ITEM_HOT_BW, h, stats_thread_incr_by THREAD_hotkey_bw 1 m)
                            else Some (0, h, m)))
                 else Some (0, h, m))))"

definition hotkey_realloc_op :: "hk_mem \<Rightarrow> 'd hotkey \<Rightarrow> (rstatus \<times> 'd hotkey) option" where
  "hotkey_realloc_op mem h =
     (case window_sizes h of
        None \<Rightarrow> None
      | Some h \<Rightarrow>
          (let (st, w) = key_window_init (unat (hotkey_window_size h)) (hm_queue mem) (key_window_deinit (hk_window h));
               h = h\<lparr>hk_window := w\<rparr>
           in if st \<noteq> MC_OK then Some (st, h)
              else
                (let (st, m) = kc_map_init (unat (hotkey_window_size h)) (hm_table mem) (kc_map_deinit (kw_map w))
                 in Some (st, h\<lparr>hk_window := w\<lparr>kw_map := m\<rparr>\<rparr>))))"

text \<open>The flag \<open>hotkey_realloc\<close> stays set when the reallocation fails, so that detection cannot be enabled again.\<close>

definition hotkey_update_redline :: "hk_mem \<Rightarrow> u64 \<Rightarrow> 'd hotkey \<Rightarrow> (rstatus \<times> 'd hotkey) option" where
  "hotkey_update_redline mem redline h =
     (if hotkey_redline_qps h = redline then Some (MC_OK, h)
      else
        (let h = h\<lparr>hotkey_realloc := True, hotkey_redline_qps := redline, set_hotkey_redline_qps := redline\<rparr> in
         case hotkey_realloc_op mem h of
           None \<Rightarrow> None
         | Some (st, h) \<Rightarrow> Some (if st \<noteq> MC_OK then (st, h) else (MC_OK, h\<lparr>hotkey_realloc := False\<rparr>))))"

definition hotkey_update_sample_rate :: "hk_mem \<Rightarrow> u64 \<Rightarrow> 'd hotkey \<Rightarrow> (rstatus \<times> 'd hotkey) option" where
  "hotkey_update_sample_rate mem sample_rate h =
     (if hotkey_sample_rate h = sample_rate then Some (MC_OK, h)
      else
        (let h = h\<lparr>hotkey_realloc := True, hotkey_sample_rate := sample_rate, set_hotkey_sample_rate := sample_rate\<rparr> in
         case hotkey_realloc_op mem h of
           None \<Rightarrow> None
         | Some (st, h) \<Rightarrow> Some (if st \<noteq> MC_OK then (st, h) else (MC_OK, h\<lparr>hotkey_realloc := False\<rparr>))))"

definition hotkey_update_qps_threshold :: "('d \<Rightarrow> u64 \<Rightarrow> u64) \<Rightarrow> 'd \<Rightarrow> 'd hotkey \<Rightarrow> 'd hotkey" where
  "hotkey_update_qps_threshold mul qps_threshold h =
     (if set_hotkey_qps_threshold h = qps_threshold then h
      else h\<lparr>set_hotkey_qps_threshold := qps_threshold,
             hotkey_threshold := mul qps_threshold (hotkey_window_size h)\<rparr>)"

definition hotkey_update_bw_threshold :: "u64 \<Rightarrow> 'd hotkey \<Rightarrow> 'd hotkey" where
  "hotkey_update_bw_threshold bw_threshold h =
     (if set_hotkey_bw_threshold h = bw_threshold then h
      else h\<lparr>set_hotkey_bw_threshold := bw_threshold, hotkey_bw_threshold := bw_threshold\<rparr>)"

definition set_dataflags :: "u32 \<Rightarrow> item \<Rightarrow> item" where
  "set_dataflags v i = i\<lparr>it_dataflags := v\<rparr>"

text \<open>The lookup of the protocol layer.\<close>

definition item_get :: "bytes \<Rightarrow> u32 \<Rightarrow> 'd hotkey \<times> cache \<Rightarrow> (addr option \<times> 'd hotkey \<times> cache) option" where
  "item_get key us hs =
     (let (h, s) = hs in
      case item_get_op key s of
        (None, s) \<Rightarrow> Some (None, h, s)
      | (Some it, s) \<Rightarrow>
          if set_hotkey_enable h then
            (let s = upd_item it (\<lambda>i. set_dataflags (it_dataflags i AND NOT (ITEM_HOT_QPS OR ITEM_HOT_BW)) i) s in
             case hotkey_sample key (ucast (it_nbyte (items s it))) (now s) us (h, tstats s) of
               None \<Rightarrow> None
             | Some (fl, h, m) \<Rightarrow>
                 Some (Some it, h, upd_item it (\<lambda>i. set_dataflags (it_dataflags i OR fl) i) (s\<lparr>tstats := m\<rparr>)))
          else Some (Some it, h, s))"

section \<open>The invariant of the detector\<close>

text \<open>
  \<open>hot_inv K h\<close>: the window holds the keys \<open>K\<close>, fewer than its size between two samples, and the sample rate is not zero.
\<close>

definition hot_inv :: "bytes list \<Rightarrow> 'd hotkey \<Rightarrow> bool" where
  "hot_inv K h \<longleftrightarrow> win_rel K (hk_window h) \<and> length K < key_window_max (hk_window h) \<and> hotkey_sample_rate h \<noteq> 0
     \<and> key_window_max (hk_window h) < 2 ^ 32"

lemma win_full_iff: "win_rel K w \<Longrightarrow> key_window_full w \<longleftrightarrow> length K = key_window_max w"
  by (simp add: win_rel_def key_window_full_def)

text \<open>
  A sample always returns. It leaves the window alone or pushes the key, dropping the oldest key of a window
  that has become full. A key is reported for its rate only if it is at least \<open>hotkey_threshold\<close> times
  among the last \<open>key_window_max\<close> keys sampled.
\<close>

lemma hotkey_sample_spec:
  assumes h: "hot_inv K h" and key: "key_valid key"
  shows "\<exists>fl h' m'. hotkey_sample key vlen tm us (h, m) = Some (fl, h', m')
    \<and> hot_inv (if (hotkey_counter h + 1) mod hotkey_sample_rate h \<noteq> 0 then K
               else if length K + 1 = key_window_max (hk_window h) then tl (K @ [key]) else K @ [key]) h'
    \<and> fl \<in> {0, ITEM_HOT_QPS, ITEM_HOT_BW}
    \<and> (fl \<noteq> 0 \<longrightarrow> (hotkey_counter h + 1) mod hotkey_sample_rate h = 0 \<and> length K + 1 = key_window_max (hk_window h))
    \<and> (fl = ITEM_HOT_QPS \<longrightarrow> unat (hotkey_threshold h) \<le> count_list (K @ [key]) key)"
proof (cases "(hotkey_counter h + 1) mod hotkey_sample_rate h = 0")
  case False
  then show ?thesis using h by (simp add: hotkey_sample_def hot_inv_def ITEM_HOT_QPS_def)
next
  case True
  let ?h1 = "h\<lparr>hotkey_counter := hotkey_counter h + 1\<rparr>" and ?t = "ucast (tm * 1000000 + us) :: u64"
  have H: "win_rel K (hk_window h)" "length K < key_window_max (hk_window h)" "hotkey_sample_rate h \<noteq> 0"
    "key_window_max (hk_window h) < 2 ^ 32" using h by (simp_all add: hot_inv_def)
  obtain c w where p: "key_window_push key ?t (hk_window h) = Some (c, w)" "win_rel (K @ [key]) w"
    "1 \<le> c" "c \<le> count_list (K @ [key]) key" "key_window_max w = key_window_max (hk_window h)"
    using key_window_push_win [OF H(1,2) key] by metis
  show ?thesis
  proof (cases "key_window_full w")
    case False
    then have "length K + 1 \<noteq> key_window_max (hk_window h)" using win_full_iff [OF p(2)] p(5) by simp
    then show ?thesis using True False p H by (simp add: hotkey_sample_def hot_inv_def ITEM_HOT_QPS_def)
  next
    case full: True
    then have l: "length K + 1 = key_window_max (hk_window h)" using win_full_iff [OF p(2)] p(5) by simp
    obtain k K' where K': "K @ [key] = k # K'" by (cases "K @ [key]") auto
    obtain w' old where o: "key_window_pop w = Some (old, w')" "win_rel K' w'" "key_window_max w' = key_window_max w"
      using key_window_pop_win [of k K' w] p(2) K' by metis
    have "length (K @ [key]) = length (k # K')" by (simp only: K')
    then have K'l: "length K' = length K" by simp
    have "c < 2 ^ 64" using p(4) count_le_length [of "K @ [key]" key] l H(4) by simp
    then have c: "unat (of_nat c :: u64) = c" by (simp add: unat_of_nat)
    define h' where "h' = ?h1\<lparr>hk_window := w'\<rparr>"
    have i: "hot_inv K' h'" using o H p(5) l K'l by (simp add: hot_inv_def h'_def)
    have t: "hotkey_threshold h \<le> of_nat c \<Longrightarrow> unat (hotkey_threshold h) \<le> count_list (K @ [key]) key"
      using p(4) c by (simp add: word_le_nat_alt)
    have n: "ITEM_HOT_BW \<noteq> ITEM_HOT_QPS" "ITEM_HOT_QPS \<noteq> 0" by (simp_all add: ITEM_HOT_BW_def ITEM_HOT_QPS_def)
    have "\<exists>fl m'. hotkey_sample key vlen tm us (h, m) = Some (fl, h', m')
      \<and> fl \<in> {0, ITEM_HOT_QPS, ITEM_HOT_BW} \<and> (fl = ITEM_HOT_QPS \<longrightarrow> hotkey_threshold h \<le> of_nat c)"
      using True full p(1) o(1) H(3) n by (auto simp: hotkey_sample_def h'_def Let_def)
    then obtain fl m' where r: "hotkey_sample key vlen tm us (h, m) = Some (fl, h', m')"
      and fl: "fl \<in> {0, ITEM_HOT_QPS, ITEM_HOT_BW}" "fl = ITEM_HOT_QPS \<longrightarrow> hotkey_threshold h \<le> of_nat c"
      by blast
    show ?thesis using r fl t i True l K' by auto
  qed
qed

text \<open>Setting up the window, at start and when a rate is changed, gives an empty one.\<close>

lemma hot_window_init:
  assumes w: "key_window_init (unat n) (hm_queue mem) w = (MC_OK, w1)"
    and m: "kc_map_init (unat n) (hm_table mem) m0 = (MC_OK, m)" and n: "0 < n" "unat n + 1 < 2 ^ 32"
    and mem: "\<And>d. hm_queue mem = Some d \<Longrightarrow> length d = unat n + 1" "\<And>t. hm_table mem = Some t \<Longrightarrow> length t = 2 * unat n"
  shows "win_rel [] (w1\<lparr>kw_map := m\<rparr>)" and "key_window_max w1 = unat n"
proof -
  obtain t where t: "hm_table mem = Some t" using m by (auto simp: kc_map_init_def Let_def split: option.splits)
  have m': "kc_map_init (unat n) (hm_table mem) (kw_map w1) = (MC_OK, m)"
    using m t by (auto simp: kc_map_init_def Let_def intro!: kc_map.equality)
  with key_window_init_win [OF w m'] n mem show "win_rel [] (w1\<lparr>kw_map := m\<rparr>)"
    by (simp add: word_greater_zero_iff unat_gt_0)
  show "key_window_max w1 = unat n" using w by (auto simp: key_window_init_def split: option.splits)
qed

lemma hotkey_init_inv:
  assumes r: "hotkey_init mul mem h = Some (MC_OK, h')" and n: "0 < hotkey_window_size h'" "unat (hotkey_window_size h') + 1 < 2 ^ 32"
    and mem: "\<And>d. hm_queue mem = Some d \<Longrightarrow> length d = unat (hotkey_window_size h') + 1"
      "\<And>t. hm_table mem = Some t \<Longrightarrow> length t = 2 * unat (hotkey_window_size h')"
  shows "hot_inv [] h'"
proof -
  let ?n = "hotkey_window_size h'"
  obtain w1 m where w: "key_window_init (unat ?n) (hm_queue mem) (hk_window h) = (MC_OK, w1)"
    and m: "kc_map_init (unat ?n) (hm_table mem) (kw_map w1) = (MC_OK, m)" and h': "hk_window h' = w1\<lparr>kw_map := m\<rparr>"
    and sr: "hotkey_sample_rate h' \<noteq> 0"
    using r by (auto simp: hotkey_init_def window_sizes_def Let_def split: if_splits prod.splits)
  note W = hot_window_init [OF w m n mem]
  have "0 < unat ?n" using n(1) by (simp add: unat_gt_0)
  then show ?thesis using W h' sr n(2) by (simp add: hot_inv_def)
qed

lemma hotkey_realloc_inv:
  assumes r: "hotkey_realloc_op mem h = Some (MC_OK, h')" and n: "0 < hotkey_window_size h'" "unat (hotkey_window_size h') + 1 < 2 ^ 32"
    and mem: "\<And>d. hm_queue mem = Some d \<Longrightarrow> length d = unat (hotkey_window_size h') + 1"
      "\<And>t. hm_table mem = Some t \<Longrightarrow> length t = 2 * unat (hotkey_window_size h')"
  shows "hot_inv [] h'"
proof -
  let ?n = "hotkey_window_size h'"
  obtain w1 m where w: "key_window_init (unat ?n) (hm_queue mem) (key_window_deinit (hk_window h)) = (MC_OK, w1)"
    and m: "kc_map_init (unat ?n) (hm_table mem) (kc_map_deinit (kw_map w1)) = (MC_OK, m)"
    and h': "hk_window h' = w1\<lparr>kw_map := m\<rparr>" and sr: "hotkey_sample_rate h' \<noteq> 0"
    using r by (auto simp: hotkey_realloc_op_def window_sizes_def Let_def split: if_splits prod.splits)
  note W = hot_window_init [OF w m n mem]
  have "0 < unat ?n" using n(1) by (simp add: unat_gt_0)
  then show ?thesis using W h' sr n(2) by (simp add: hot_inv_def)
qed

section \<open>The lookup of the protocol layer\<close>

lemma set_dataflags_simps [simp]:
  "item_is_linked (set_dataflags v i) = item_is_linked i" "item_is_slabbed (set_dataflags v i) = item_is_slabbed i"
  "item_has_cas (set_dataflags v i) = item_has_cas i" "item_is_raligned (set_dataflags v i) = item_is_raligned i"
  "it_id (set_dataflags v i) = it_id i" "it_offset (set_dataflags v i) = it_offset i"
  "it_atime (set_dataflags v i) = it_atime i" "it_refcount (set_dataflags v i) = it_refcount i"
  "it_nbyte (set_dataflags v i) = it_nbyte i" "it_nkey (set_dataflags v i) = it_nkey i"
  "it_end (set_dataflags v i) = it_end i" "it_exptime (set_dataflags v i) = it_exptime i"
  "it_dataflags (set_dataflags v i) = v" "it_cas (set_dataflags v i) = it_cas i"
  "set_dataflags v (set_dataflags w i) = set_dataflags v i"
  by (simp_all add: set_dataflags_def flag_defs)

lemma set_dataflags_store:
  assumes inv: "cache_inv e s" and it: "it \<in> linked_items s"
    and s': "s' = upd_item it (set_dataflags v) s\<lparr>tstats := m\<rparr>"
  shows "cache_inv e s'" and "view s' = (view s)(key_of s it \<mapsto> (entry_of s it)\<lparr>en_dataflags := v\<rparr>)"
    and "entry_of s' it = (entry_of s it)\<lparr>en_dataflags := v\<rparr>"
proof -
  let ?i = "set_dataflags v (items s it)"
  have i: "cache_inv_L {} e s" "set (slab_table (heap s)) = active s" using inv by (auto simp: cache_inv_iff)
  have lv: "it \<in> live s" "item_is_linked (items s it)" using it by (simp_all add: linked_items_def)
  have f: "fits s (items s it)" using i(1) lv by (auto simp: cache_inv_L_def fit_ok_def)
  have k: "item_key ?i = item_key (items s it)" by (simp add: item_key_def item_key_off_def)
  have "cache_inv_L {} e (s\<lparr>items := (items s)(it := ?i)\<rparr>)"
    by (rule inv_content [OF i(1) lv(1)]) (use k f in \<open>auto simp: fits_def item_size_def\<close>)
  then have inv1: "cache_inv_L {} e s'"
    by (subst inv_frame [of s' "s\<lparr>items := (items s)(it := ?i)\<rparr>"]) (simp_all add: s' upd_item_def)
  then show "cache_inv e s'" using i(2) by (simp add: cache_inv_iff s' upd_item_def)
  have g: "geo s' = geo s" by (simp add: geo_def s' upd_item_def)
  have o: "only_it it s s'" using g by (simp add: only_it_def s' upd_item_def)
  have lk: "linked_items s' = linked_items s"
    using geo_live(1) [OF g] by (auto simp: linked_items_def s' upd_item_def)
  have en: "entry_of s' it = (entry_of s it)\<lparr>en_dataflags := v\<rparr>"
    by (simp add: entry_of_def item_value_def item_data_def s' upd_item_def item_get_cas_def Let_def geo_live(4) [OF g, unfolded s' upd_item_def])
  show "entry_of s' it = (entry_of s it)\<lparr>en_dataflags := v\<rparr>" by (rule en)
  have "view s' = (view s)(key_of s it \<mapsto> entry_of s' it)"
    by (rule view_change [OF i(1) inv1 it lk]) (use only_it_other [OF o] k in \<open>auto simp: key_of_def s' upd_item_def\<close>)
  then show "view s' = (view s)(key_of s it \<mapsto> (entry_of s it)\<lparr>en_dataflags := v\<rparr>)" by (simp add: en)
qed

text \<open>
  The lookup finds what \<^verbatim>\<open>_item_get\<close> finds. While detection is on, the two lowest bits of the flags of a found entry
  become the signal for its key; everything else a client can see stays.
\<close>

lemma item_get_hot:
  assumes inv: "cache_inv e s" "room 1 s" and hot: "hot_inv K h" "key_valid key"
  shows "\<exists>r h' s'. item_get key us (h, s) = Some (r, h', s') \<and> cache_inv e s' \<and> (\<exists>K'. hot_inv K' h') \<and>
    (case lookup s key of
       None \<Rightarrow> r = None \<and> view s' = (view s)(key := None) \<and> h' = h
     | Some v \<Rightarrow> (\<exists>it fl. r = Some it \<and> entry_of s' it = v\<lparr>en_dataflags := fl\<rparr>
         \<and> view s' = (view s)(key \<mapsto> v\<lparr>en_dataflags := fl\<rparr>)
         \<and> (if set_hotkey_enable h then fl AND NOT 3 = en_dataflags v AND NOT 3 \<and> fl AND 3 \<in> {0, ITEM_HOT_QPS, ITEM_HOT_BW}
            else fl = en_dataflags v \<and> h' = h)))"
proof (cases "item_get_op key s")
  case (Pair r s1)
  show ?thesis
  proof (cases r)
    case None
    then show ?thesis using item_get_None(1-3) [OF inv(1), of key s1] Pair hot by (auto simp: item_get_def)
  next
    case (Some it)
    note S = item_get_Some [OF inv Pair [unfolded Some]]
    have k: "key_of s1 it = key" using S(5,6) by simp
    show ?thesis
    proof (cases "set_hotkey_enable h")
      case False
      have "view s1 key = Some (entry_of s1 it)"
        using S(4) k view_Some_iff [of "{}" e s1] S(1) by (auto simp: cache_inv_iff)
      then have "view s1 = (view s1)(key \<mapsto> entry_of s1 it)" by (simp add: fun_upd_idem)
      then show ?thesis using False Pair Some S hot(1) by (auto simp: item_get_def intro!: exI [of _ it])
    next
      case True
      define c where "c = it_dataflags (items s1 it) AND NOT 3"
      have hb: "ITEM_HOT_QPS OR ITEM_HOT_BW = 3" by (simp add: ITEM_HOT_QPS_def ITEM_HOT_BW_def)
      obtain fl h' m' where r: "hotkey_sample key (ucast (it_nbyte (items s1 it))) (now s1) us (h, tstats s1) = Some (fl, h', m')"
        and K': "\<exists>K'. hot_inv K' h'" and fl: "fl \<in> {0, ITEM_HOT_QPS, ITEM_HOT_BW}"
        using hotkey_sample_spec [OF hot, of "ucast (it_nbyte (items s1 it))" "now s1" us "tstats s1"] by metis
      define s' where "s' = upd_item it (set_dataflags (c OR fl)) s1\<lparr>tstats := m'\<rparr>"
      note D = set_dataflags_store [OF S(1,4) s'_def]
      have g: "item_get key us (h, s) = Some (Some it, h', s')"
        using Pair Some True r by (simp add: item_get_def Let_def hb upd_item_def c_def s'_def)
      have f: "(c OR fl) AND NOT 3 = it_dataflags (items s1 it) AND NOT 3" "(c OR fl) AND 3 = fl"
        using fl by (auto simp: c_def ITEM_HOT_QPS_def ITEM_HOT_BW_def bit_simps intro!: bit_eqI)
      have e: "entry_of s1 it = entry_of s it" "it_dataflags (items s1 it) = en_dataflags (entry_of s it)"
        using S(10) [of it] by (simp_all add: entry_of_def)
      show ?thesis using g D K' True S(2,3) k f fl e by (auto intro!: exI [of _ "c OR fl"])
    qed
  qed
qed

end
