(* ===== verification/McCache.thy ===== *)
theory McCache
  imports McStats
begin

text \<open>
  The object cache of \<^verbatim>\<open>mc_cache.c\<close>, the pool the workers take their suffix buffers from: a stack of free objects that
  grows by doubling. What the allocator returns is an argument of the operations; an object is its address,
  0 the null pointer. \<^verbatim>\<open>freetotal\<close> is an \<^verbatim>\<open>int\<close> that doubles as long as memory lasts and is a natural number here.
\<close>

record object_cache =
  oc_name :: bytes
  oc_ptr :: "addr list"
  oc_bufsize :: nat
  oc_freetotal :: nat
  oc_freecurr :: nat

definition initial_pool_size :: nat where "initial_pool_size = 64"
definition PTR_SIZE :: nat where "PTR_SIZE = 8"

text \<open>\<open>ok\<close> is whether the three allocations and the initialisation of the mutex all succeed.\<close>

definition cache_create :: "bytes \<Rightarrow> nat \<Rightarrow> bool \<Rightarrow> thread_metrics \<Rightarrow> object_cache option \<times> thread_metrics" where
  "cache_create name bufsize ok m =
     (if \<not> ok then (None, m)
      else
        (let ret = \<lparr>oc_name = name, oc_ptr = replicate initial_pool_size 0, oc_bufsize = bufsize,
                    oc_freetotal = initial_pool_size, oc_freecurr = 0\<rparr>
         in (Some ret, stats_thread_incr_by THREAD_mem_cache_curr (int (PTR_SIZE * oc_freetotal ret)) m)))"

text \<open>The loop of \<^verbatim>\<open>cache_destroy\<close>: the objects freed, in order.\<close>

fun destroy_loop :: "nat \<Rightarrow> object_cache \<Rightarrow> thread_metrics \<Rightarrow> addr list \<times> thread_metrics" where
  "destroy_loop 0 c m = ([], m)"
| "destroy_loop (Suc freecurr) c m =
     (let (bufs, m) = destroy_loop freecurr c (stats_thread_decr_by THREAD_mem_cache_curr (int (oc_bufsize c)) m)
      in (oc_ptr c ! freecurr # bufs, m))"

definition cache_destroy :: "object_cache \<Rightarrow> thread_metrics \<Rightarrow> addr list \<times> thread_metrics" where
  "cache_destroy c m =
     (let (bufs, m) = destroy_loop (oc_freecurr c) c m
      in (bufs, stats_thread_decr_by THREAD_mem_cache_curr (int (PTR_SIZE * oc_freetotal c)) m))"

definition cache_alloc :: "addr \<Rightarrow> object_cache \<Rightarrow> thread_metrics \<Rightarrow> addr \<times> object_cache \<times> thread_metrics" where
  "cache_alloc new c m =
     (if oc_freecurr c > 0
      then (oc_ptr c ! (oc_freecurr c - 1), c\<lparr>oc_freecurr := oc_freecurr c - 1\<rparr>, m)
      else (new, c, stats_thread_incr_by THREAD_mem_cache_curr (int (oc_bufsize c)) m))"

text \<open>
  \<open>newmem\<close> holds the new half of the array when \<^verbatim>\<open>mc_realloc\<close> succeeds. The first result is whether the
  object was given back to the allocator.
\<close>

definition cache_free :: "addr \<Rightarrow> addr list option \<Rightarrow> object_cache \<Rightarrow> thread_metrics \<Rightarrow> bool \<times> object_cache \<times> thread_metrics" where
  "cache_free buf newmem c m =
     (if oc_freecurr c < oc_freetotal c
      then (False, c\<lparr>oc_ptr := (oc_ptr c)[oc_freecurr c := buf], oc_freecurr := oc_freecurr c + 1\<rparr>, m)
      else
        (let newtotal = oc_freetotal c * 2 in
         case newmem of
           Some tail \<Rightarrow>
             (False,
              c\<lparr>oc_freetotal := newtotal, oc_ptr := (oc_ptr c @ tail)[oc_freecurr c := buf], oc_freecurr := oc_freecurr c + 1\<rparr>,
              stats_thread_incr_by THREAD_mem_cache_curr (int (PTR_SIZE * oc_freetotal c)) m)
         | None \<Rightarrow> (True, c, stats_thread_decr_by THREAD_mem_cache_curr (int (oc_bufsize c)) m)))"

section \<open>The pool as a stack\<close>

definition oc_inv :: "object_cache \<Rightarrow> bool" where
  "oc_inv c \<longleftrightarrow> oc_freecurr c \<le> oc_freetotal c \<and> length (oc_ptr c) = oc_freetotal c \<and> 0 < oc_freetotal c"

definition oc_stack :: "object_cache \<Rightarrow> addr list" where
  "oc_stack c = rev (take (oc_freecurr c) (oc_ptr c))"

abbreviation mem_curr :: "thread_metrics \<Rightarrow> int" where
  "mem_curr m \<equiv> gauge_net (m THREAD_mem_cache_curr)"

lemma length_oc_stack: "oc_inv c \<Longrightarrow> length (oc_stack c) = oc_freecurr c"
  by (simp add: oc_inv_def oc_stack_def)

lemma mem_curr_incr: "is_gauge (m THREAD_mem_cache_curr) \<Longrightarrow>
    mem_curr (stats_thread_incr_by THREAD_mem_cache_curr d m) = mem_curr m + d
    \<and> is_gauge (stats_thread_incr_by THREAD_mem_cache_curr d m THREAD_mem_cache_curr)"
  by (simp add: stats_thread_incr_by_def gauge_net_incr)

lemma mem_curr_decr: "is_gauge (m THREAD_mem_cache_curr) \<Longrightarrow>
    mem_curr (stats_thread_decr_by THREAD_mem_cache_curr d m) = mem_curr m - d
    \<and> is_gauge (stats_thread_decr_by THREAD_mem_cache_curr d m THREAD_mem_cache_curr)"
  by (simp add: stats_thread_decr_by_def gauge_net_decr)

lemma cache_alloc_stack:
  assumes "oc_inv c"
  shows "cache_alloc new c m =
    (case oc_stack c of
       [] \<Rightarrow> (new, c, stats_thread_incr_by THREAD_mem_cache_curr (int (oc_bufsize c)) m)
     | p # ps \<Rightarrow> (p, c\<lparr>oc_freecurr := oc_freecurr c - 1\<rparr>, m))"
    and "oc_stack c = p # ps \<Longrightarrow> oc_stack (c\<lparr>oc_freecurr := oc_freecurr c - 1\<rparr>) = ps"
    and "oc_inv (c\<lparr>oc_freecurr := oc_freecurr c - 1\<rparr>)"
proof -
  have s: "oc_stack c = oc_ptr c ! n # oc_stack (c\<lparr>oc_freecurr := n\<rparr>)" if "oc_freecurr c = Suc n" for n
    using assms that by (simp add: oc_stack_def oc_inv_def take_Suc_conv_app_nth)
  show "cache_alloc new c m =
    (case oc_stack c of
       [] \<Rightarrow> (new, c, stats_thread_incr_by THREAD_mem_cache_curr (int (oc_bufsize c)) m)
     | p # ps \<Rightarrow> (p, c\<lparr>oc_freecurr := oc_freecurr c - 1\<rparr>, m))"
    using s by (cases "oc_freecurr c") (simp_all add: cache_alloc_def oc_stack_def)
  show "oc_stack c = p # ps \<Longrightarrow> oc_stack (c\<lparr>oc_freecurr := oc_freecurr c - 1\<rparr>) = ps"
    using s by (cases "oc_freecurr c") (simp add: oc_stack_def, simp)
  show "oc_inv (c\<lparr>oc_freecurr := oc_freecurr c - 1\<rparr>)" using assms by (auto simp: oc_inv_def)
qed

lemma cache_free_stack:
  assumes "oc_inv c" and "\<And>t. newmem = Some t \<Longrightarrow> length t = oc_freetotal c" and "cache_free buf newmem c m = (freed, c', m')"
  shows "oc_inv c'" and "oc_bufsize c' = oc_bufsize c"
    and "freed \<longleftrightarrow> oc_freecurr c = oc_freetotal c \<and> newmem = None"
    and "oc_stack c' = (if freed then oc_stack c else buf # oc_stack c)"
    and "is_gauge (m THREAD_mem_cache_curr) \<Longrightarrow> is_gauge (m' THREAD_mem_cache_curr) \<and>
      mem_curr m' = mem_curr m + int (PTR_SIZE * (oc_freetotal c' - oc_freetotal c)) - (if freed then int (oc_bufsize c) else 0)"
proof -
  have st: "rev (take (Suc k) (xs[k := b])) = b # rev (take k xs)" if "k < length xs" for k b and xs :: "addr list"
    using that by (simp add: take_Suc_conv_app_nth)
  show "oc_inv c'" and "oc_bufsize c' = oc_bufsize c" and "freed \<longleftrightarrow> oc_freecurr c = oc_freetotal c \<and> newmem = None"
    using assms by (auto simp: cache_free_def oc_inv_def Let_def split: if_splits option.splits)
  show "oc_stack c' = (if freed then oc_stack c else buf # oc_stack c)"
    using assms st [of "oc_freecurr c" "oc_ptr c" buf] st [of "oc_freecurr c" "oc_ptr c @ the newmem" buf]
    by (fastforce simp: cache_free_def oc_inv_def oc_stack_def Let_def split: if_splits option.splits)
  show "is_gauge (m THREAD_mem_cache_curr) \<Longrightarrow> is_gauge (m' THREAD_mem_cache_curr) \<and>
      mem_curr m' = mem_curr m + int (PTR_SIZE * (oc_freetotal c' - oc_freetotal c)) - (if freed then int (oc_bufsize c) else 0)"
    using assms by (auto simp: cache_free_def Let_def mem_curr_incr mem_curr_decr split: if_splits option.splits)
qed

lemma destroy_loop_spec:
  assumes "is_gauge (m THREAD_mem_cache_curr)" and "n \<le> length (oc_ptr c)"
  shows "case destroy_loop n c m of (bufs, m') \<Rightarrow> bufs = rev (take n (oc_ptr c))
    \<and> is_gauge (m' THREAD_mem_cache_curr) \<and> mem_curr m' = mem_curr m - int n * int (oc_bufsize c)"
  using assms
proof (induction n arbitrary: m)
  case (Suc n)
  let ?m = "stats_thread_decr_by THREAD_mem_cache_curr (int (oc_bufsize c)) m"
  have "case destroy_loop n c ?m of (bufs, m') \<Rightarrow> bufs = rev (take n (oc_ptr c))
    \<and> is_gauge (m' THREAD_mem_cache_curr) \<and> mem_curr m' = mem_curr ?m - int n * int (oc_bufsize c)"
    using Suc.IH [of ?m] Suc.prems mem_curr_decr [of m] by simp
  then show ?case using Suc.prems mem_curr_decr [of m "int (oc_bufsize c)"]
    by (auto simp: take_Suc_conv_app_nth algebra_simps split: prod.splits)
qed simp

section \<open>Runs of a pool\<close>

text \<open>
  \<open>pool out fails c m\<close>: a cache obtained by \<open>cache_create\<close> from metrics that count \<open>base\<close> bytes, after any number of
  operations, with the objects \<open>out\<close> in the hands of clients and \<open>fails\<close> allocations that failed.
  A client frees an object it holds, and the allocator returns an object nobody has.
\<close>

inductive pool :: "int \<Rightarrow> addr list \<Rightarrow> nat \<Rightarrow> object_cache \<Rightarrow> thread_metrics \<Rightarrow> bool" for base where
  pool_create: "is_gauge (m THREAD_mem_cache_curr) \<Longrightarrow> mem_curr m = base \<Longrightarrow> cache_create name sz ok m = (Some c, m')
     \<Longrightarrow> pool base [] 0 c m'"
| pool_alloc: "pool base out fails c m \<Longrightarrow> p \<notin> set out \<union> set (oc_stack c) \<Longrightarrow> cache_alloc p c m = (q, c', m')
     \<Longrightarrow> q \<noteq> 0 \<Longrightarrow> pool base (q # out) fails c' m'"
| pool_fail: "pool base out fails c m \<Longrightarrow> cache_alloc 0 c m = (0, c', m') \<Longrightarrow> pool base out (fails + 1) c' m'"
| pool_free: "pool base out fails c m \<Longrightarrow> p \<in> set out \<Longrightarrow> (\<And>t. newmem = Some t \<Longrightarrow> length t = oc_freetotal c)
     \<Longrightarrow> cache_free p newmem c m = (freed, c', m') \<Longrightarrow> pool base (remove1 p out) fails c' m'"

lemma pool_inv:
  assumes "pool base out fails c m"
  shows "oc_inv c \<and> distinct (out @ oc_stack c) \<and> 0 \<notin> set (out @ oc_stack c) \<and> is_gauge (m THREAD_mem_cache_curr)
    \<and> mem_curr m = base + int (PTR_SIZE * oc_freetotal c + oc_bufsize c * (length (oc_stack c) + length out + fails))"
  using assms
proof (induction rule: pool.induct)
  case (pool_create m name sz ok c m')
  then show ?case using mem_curr_incr [of m]
    by (auto simp: cache_create_def Let_def oc_inv_def oc_stack_def initial_pool_size_def split: if_splits)
next
  case (pool_alloc out fails c m p q c' m')
  then show ?case using cache_alloc_stack [of c] mem_curr_incr [of m]
    by (cases "oc_stack c") (auto simp: algebra_simps)
next
  case (pool_fail out fails c m c' m')
  then show ?case using cache_alloc_stack(1) [of c 0 m] mem_curr_incr [of m]
    by (cases "oc_stack c") (auto simp: algebra_simps)
next
  case (pool_free out fails c m p newmem freed c' m')
  then have i: "oc_inv c" "is_gauge (m THREAD_mem_cache_curr)" by auto
  note F = cache_free_stack [OF i(1) pool_free.hyps(3,4)]
  have l: "length (remove1 p out) + 1 = length out"
    using pool_free.hyps(2) length_pos_if_in_set [of p out] by (simp add: length_remove1)
  have t: "oc_freetotal c \<le> oc_freetotal c'"
    using pool_free.hyps(4) by (auto simp: cache_free_def Let_def split: if_splits option.splits)
  have n: "int (length out) = int (length (remove1 p out)) + 1" using l by simp
  have "mem_curr m' = base + int (PTR_SIZE * oc_freetotal c' + oc_bufsize c' * (length (oc_stack c') + length (remove1 p out) + fails))"
    using F pool_free.IH i(2) t n by (cases freed) (simp_all add: algebra_simps of_nat_diff del: length_remove1)
  then show ?case using F pool_free.IH pool_free.hyps(2) i(2) by (auto simp: notin_set_remove1)
qed

lemma pool_destroy:
  assumes "pool base [] 0 c m"
  shows "case cache_destroy c m of (bufs, m') \<Rightarrow> bufs = oc_stack c \<and> mem_curr m' = base"
proof -
  note P = pool_inv [OF assms]
  have g: "is_gauge (m THREAD_mem_cache_curr)" and n: "oc_freecurr c \<le> length (oc_ptr c)" using P by (auto simp: oc_inv_def)
  from destroy_loop_spec [of m "oc_freecurr c" c] g n P length_oc_stack [of c] show ?thesis
    by (auto simp: cache_destroy_def oc_stack_def mem_curr_decr algebra_simps split: prod.splits)
qed

end
