(* ===== verification/McDemoHot.thy ===== *)
theory McDemoHot
  imports McDemo McHotkey McCache
begin

text \<open>
  Concrete states of the ring array, the hotkey detector, the clock and the object cache, on which the properties of the
  root theory are applied.
\<close>

definition demo_ring :: "nat ring_array" where
  "demo_ring = \<lparr>ra_cap = 2, ra_rpos = 2, ra_wpos = 2, ra_data = [0, 0, 0]\<rparr>"

lemma demo_ring_state: "ring_inv demo_ring" "ring_list demo_ring = []" "ra_cap demo_ring = 2"
  by (simp_all add: demo_ring_def ring_inv_def ring_list_def ring_count_def dist_def)

definition demo_clock :: clock where
  "demo_clock = \<lparr>process_started = 1000, ck_now = 5, ck_now_usec = 0\<rparr>"

definition demo_entry :: kc_map_entry where
  "demo_entry = \<lparr>kc_key = ''abc'', kc_klen = 0, kc_count = 0\<rparr>"

definition demo_window :: key_window where
  "demo_window = \<lparr>kw_queue = \<lparr>ra_cap = 1, ra_rpos = 0, ra_wpos = 0, ra_data = replicate 2 \<lparr>kw_kcme = 0, kw_timestamp_us = 0\<rparr>\<rparr>,
     key_window_size = 0, key_window_max = 1,
     kw_map = \<lparr>kc_table = replicate 2 demo_entry, kc_table_size = 2, kc_table_nkey = 0\<rparr>\<rparr>"

definition demo_hotkey :: "unit hotkey" where
  "demo_hotkey = \<lparr>hotkey_realloc = False, hotkey_counter = 0, hotkey_redline_qps = 1, hotkey_sample_rate = 1,
     hotkey_timeframe = 1000, hotkey_window_size = 1, hotkey_threshold = 1, hotkey_bw_threshold = 200000,
     hotkey_qps_numerator = 1000000, hk_window = demo_window, set_hotkey_enable = True, set_hotkey_redline_qps = 1,
     set_hotkey_sample_rate = 1, set_hotkey_qps_threshold = (), set_hotkey_bw_threshold = 200000\<rparr>"

lemma demo_window_rel: "win_rel [] demo_window"
proof -
  have "ring_inv (kw_queue demo_window)" "ring_list (kw_queue demo_window) = []"
    by (simp_all add: demo_window_def ring_inv_def ring_list_def ring_count_def dist_def)
  moreover have "(replicate 2 demo_entry) ! i = demo_entry" if "i < 2" for i using that by simp
  ultimately show ?thesis by (simp add: win_rel_def) (simp add: demo_window_def demo_entry_def)
qed

lemma demo_hot_inv: "hot_inv [] demo_hotkey"
  using demo_window_rel by (simp add: hot_inv_def demo_hotkey_def demo_window_def)

definition demo_metrics :: thread_metrics where
  "demo_metrics = (\<lambda>_. Gauge 0 0)"

definition demo_pool :: object_cache where
  "demo_pool = the (fst (cache_create ''suffix'' 44 True demo_metrics))"

lemma demo_pool_run: "pool 0 [] 0 demo_pool (snd (cache_create ''suffix'' 44 True demo_metrics))"
  by (rule pool_create [of demo_metrics _ "''suffix''" 44 True])
    (simp_all add: demo_metrics_def demo_pool_def cache_create_def Let_def)

text \<open>The value in the cache is a number.\<close>

lemma demo_number: "mc_strtoull_len ''7'' = Some 7"
  unfolding mc_strtoull_len_iff
  by (rule exI [of _ "[]"], rule exI [of _ "''7''"], rule exI [of _ "[]"])
    (simp add: isdigit_def dec_val_def digit_val_def UINT64_MAX_def)

end
