(* ===== verification/McReq.thy ===== *)
theory McReq
  imports McUtil
begin

text \<open>
  Requests of the ascii protocol, \<^verbatim>\<open>mc_ascii.c\<close>: the tokenizer of a request line, the request types of
  \<^verbatim>\<open>mc_core.h\<close> with the bounds on their number of tokens, and the recognition of the type.

  A pointer into the request line is the rest of the line it points to, up to but without the terminating null
  character; the null pointer is \<open>None\<close>.
\<close>

section \<open>Request types\<close>

datatype req_type =
    REQ_UNKNOWN | REQ_SET | REQ_ADD | REQ_REPLACE | REQ_APPEND | REQ_PREPEND | REQ_APPENDRL | REQ_PREPENDRL | REQ_CAS
  | REQ_GET | REQ_GETS | REQ_INCR | REQ_DECR | REQ_DELETE | REQ_QUIT | REQ_STATS | REQ_CONFIG | REQ_VERSION
  | REQ_FLUSHALL | REQ_VERBOSITY

definition INT_MAX :: nat where "INT_MAX = 2147483647"
definition KEY_MAX_LEN :: nat where "KEY_MAX_LEN = 250"
definition TOKEN_MAX :: nat where "TOKEN_MAX = 8"

text \<open>The least and the greatest number of tokens, without and with \<^verbatim>\<open>noreply\<close>.\<close>

fun ntoken_bound :: "req_type \<Rightarrow> bool \<Rightarrow> nat \<times> nat" where
  "ntoken_bound REQ_UNKNOWN nr = (0, 0)"
| "ntoken_bound REQ_SET nr = (if nr then (7, 7) else (6, 6))"
| "ntoken_bound REQ_ADD nr = (if nr then (7, 7) else (6, 6))"
| "ntoken_bound REQ_REPLACE nr = (if nr then (7, 7) else (6, 6))"
| "ntoken_bound REQ_APPEND nr = (if nr then (7, 7) else (6, 6))"
| "ntoken_bound REQ_PREPEND nr = (if nr then (7, 7) else (6, 6))"
| "ntoken_bound REQ_APPENDRL nr = (if nr then (7, 7) else (6, 6))"
| "ntoken_bound REQ_PREPENDRL nr = (if nr then (7, 7) else (6, 6))"
| "ntoken_bound REQ_CAS nr = (if nr then (8, 8) else (7, 7))"
| "ntoken_bound REQ_GET nr = (3, INT_MAX)"
| "ntoken_bound REQ_GETS nr = (3, INT_MAX)"
| "ntoken_bound REQ_INCR nr = (if nr then (5, 5) else (4, 4))"
| "ntoken_bound REQ_DECR nr = (if nr then (5, 5) else (4, 4))"
| "ntoken_bound REQ_DELETE nr = (if nr then (4, 4) else (3, 3))"
| "ntoken_bound REQ_QUIT nr = (2, 2)"
| "ntoken_bound REQ_STATS nr = (2, 5)"
| "ntoken_bound REQ_CONFIG nr = (3, 5)"
| "ntoken_bound REQ_VERSION nr = (2, 2)"
| "ntoken_bound REQ_FLUSHALL nr = (if nr then (3, 4) else (2, 3))"
| "ntoken_bound REQ_VERBOSITY nr = (3, 4)"

section \<open>The tokenizer\<close>

record token =
  tok_val :: "bytes option"
  tok_len :: nat

text \<open>
  The loop of \<^verbatim>\<open>asc_tokenize\<close>: \<open>k\<close> tokens may still be saved, \<open>s\<close> is the start marker, \<open>e\<close> the end marker and \<open>n\<close>
  the distance between them. The result is the tokens saved and the end marker.
\<close>

fun tokenize_loop :: "nat \<Rightarrow> bytes \<Rightarrow> nat \<Rightarrow> bytes \<Rightarrow> token list \<times> bytes" where
  "tokenize_loop 0 s n e = ([], e)"
| "tokenize_loop (Suc k) s n [] = (if n \<noteq> 0 then [\<lparr>tok_val = Some s, tok_len = n\<rparr>] else [], [])"
| "tokenize_loop (Suc k) s n (c # e) =
     (if c = CHR '' '' then
        (if n \<noteq> 0 then (case tokenize_loop k e 0 e of (ts, r) \<Rightarrow> (\<lparr>tok_val = Some s, tok_len = n\<rparr> # ts, r))
         else tokenize_loop (Suc k) e 0 e)
      else tokenize_loop (Suc k) s (n + 1) e)"

definition asc_tokenize :: "bytes \<Rightarrow> nat \<Rightarrow> token list" where
  "asc_tokenize command ntoken_max =
     (case tokenize_loop (ntoken_max - 1) command 0 command of
        (ts, e) \<Rightarrow> ts @ [\<lparr>tok_val = (if e = [] then None else Some e), tok_len = 0\<rparr>])"

text \<open>The bytes of a token.\<close>

definition tok_str :: "token \<Rightarrow> bytes" where
  "tok_str t = take (tok_len t) (the (tok_val t))"

section \<open>The request type\<close>

text \<open>The comparisons of the first bytes of a token with a constant, \<^verbatim>\<open>str4cmp\<close> to \<^verbatim>\<open>str9cmp\<close>.\<close>

definition str_cmp :: "bytes \<Rightarrow> bytes \<Rightarrow> bool" where
  "str_cmp m lit \<longleftrightarrow> take (length lit) m = lit"

definition asc_parse_type :: "token list \<Rightarrow> req_type" where
  "asc_parse_type token =
     (if length token < 2 then REQ_UNKNOWN
      else
        (let tval = the (tok_val (token ! 0)); tlen = tok_len (token ! 0) in
         if tlen = 3 then
           (if str_cmp tval ''get '' then REQ_GET
            else if str_cmp tval ''set '' then REQ_SET
            else if str_cmp tval ''add '' then REQ_ADD
            else if str_cmp tval ''cas '' then REQ_CAS
            else REQ_UNKNOWN)
         else if tlen = 4 then
           (if str_cmp tval ''gets'' then REQ_GETS
            else if str_cmp tval ''incr'' then REQ_INCR
            else if str_cmp tval ''decr'' then REQ_DECR
            else if str_cmp tval ''quit'' then REQ_QUIT
            else REQ_UNKNOWN)
         else if tlen = 5 then
           (if str_cmp tval ''stats'' then REQ_STATS else REQ_UNKNOWN)
         else if tlen = 6 then
           (if str_cmp tval ''append'' then REQ_APPEND
            else if str_cmp tval ''delete'' then REQ_DELETE
            else if str_cmp tval ''config'' then REQ_CONFIG
            else REQ_UNKNOWN)
         else if tlen = 7 then
           (if str_cmp tval ''replace'' then REQ_REPLACE
            else if str_cmp tval ''prepend'' then REQ_PREPEND
            else if str_cmp tval ''version'' then REQ_VERSION
            else REQ_UNKNOWN)
         else if tlen = 8 then
           (if str_cmp tval ''appendrl'' then REQ_APPENDRL else REQ_UNKNOWN)
         else if tlen = 9 then
           (if str_cmp tval ''flush_all'' then REQ_FLUSHALL
            else if str_cmp tval ''prependrl'' then REQ_PREPENDRL
            else if str_cmp tval ''verbosity'' then REQ_VERBOSITY
            else REQ_UNKNOWN)
         else REQ_UNKNOWN))"

definition set_noreply_maybe :: "token list \<Rightarrow> bool" where
  "set_noreply_maybe token \<longleftrightarrow>
     length token \<ge> 2 \<and>
     (let t = token ! (length token - 2)
      in tok_len t = 7 \<and> str_cmp (the (tok_val t)) ''noreply'')"

section \<open>What the tokenizer does\<close>

text \<open>The words of a line: its longest pieces without a blank.\<close>

fun words :: "bytes \<Rightarrow> bytes \<Rightarrow> bytes list" where
  "words w [] = (if w = [] then [] else [w])"
| "words w (c # cs) = (if c = CHR '' '' then (if w = [] then [] else [w]) @ words [] cs else words (w @ [c]) cs)"

abbreviation line_words :: "bytes \<Rightarrow> bytes list" where
  "line_words \<equiv> words []"

lemma tok_str_simp [simp]: "tok_str \<lparr>tok_val = Some s, tok_len = n\<rparr> = take n s"
  by (simp add: tok_str_def)

lemma tokenize_loop_words:
  assumes "s = w @ e" and "n = length w" and "tokenize_loop k s n e = (ts, r)" and "0 < k"
  shows "map tok_str ts = take k (words w e) \<and> line_words r = drop k (words w e)
    \<and> (\<forall>t \<in> set ts. tok_val t \<noteq> None \<and> 0 < tok_len t)"
  using assms
proof (induction k s n e arbitrary: w ts r rule: tokenize_loop.induct)
  case (2 k s n)
  then show ?case by (auto split: if_splits)
next
  case (3 k s n c e)
  show ?case
  proof (cases "c = CHR '' ''")
    case False
    then have "tokenize_loop (Suc k) s (n + 1) e = (ts, r)" "s = (w @ [c]) @ e" "n + 1 = length (w @ [c])"
      using "3.prems" by simp_all
    with "3.IH"(3) [OF False this(2,3,1)] False show ?thesis by simp
  next
    case True
    show ?thesis
    proof (cases "n = 0")
      case n: True
      then have w: "w = []" using "3.prems"(2) by simp
      have "tokenize_loop (Suc k) e 0 e = (ts, r)" using "3.prems"(3) True n by simp
      with "3.IH"(2) [OF True] n w True show ?thesis by simp
    next
      case n: False
      obtain ts' where t: "tokenize_loop k e 0 e = (ts', r)" "ts = \<lparr>tok_val = Some s, tok_len = n\<rparr> # ts'"
        using "3.prems"(3) True n by (auto split: prod.splits)
      have w: "w \<noteq> []" using n "3.prems"(2) by auto
      have "map tok_str ts' = take k (line_words e) \<and> line_words r = drop k (line_words e)
          \<and> (\<forall>t \<in> set ts'. tok_val t \<noteq> None \<and> 0 < tok_len t)"
      proof (cases k)
        case 0
        then show ?thesis using t(1) by simp
      next
        case (Suc k')
        then show ?thesis using "3.IH"(1) [OF True n _ _ t(1)] by simp
      qed
      then show ?thesis using t(2) w True "3.prems"(1,2) n by simp
    qed
  qed
qed simp

text \<open>
  The tokens are the first words of the line, and the terminal token points to a rest of the line that holds the other
  words, or is null when the line is finished.
\<close>

lemma asc_tokenize_words:
  assumes "1 < m"
  shows "map tok_str (butlast (asc_tokenize line m)) = take (m - 1) (line_words line)"
    and "case tok_val (last (asc_tokenize line m)) of
        None \<Rightarrow> length (line_words line) < m | Some rest \<Rightarrow> line_words rest = drop (m - 1) (line_words line)"
    and "tok_len (last (asc_tokenize line m)) = 0" and "asc_tokenize line m \<noteq> []"
    and "\<forall>t \<in> set (butlast (asc_tokenize line m)). tok_val t \<noteq> None \<and> 0 < tok_len t"
proof -
  obtain ts r where t: "tokenize_loop (m - 1) line 0 line = (ts, r)" by fastforce
  have W: "map tok_str ts = take (m - 1) (line_words line) \<and> line_words r = drop (m - 1) (line_words line)
      \<and> (\<forall>t \<in> set ts. tok_val t \<noteq> None \<and> 0 < tok_len t)"
    by (rule tokenize_loop_words [OF _ _ t]) (use assms in simp_all)
  show "map tok_str (butlast (asc_tokenize line m)) = take (m - 1) (line_words line)"
    "tok_len (last (asc_tokenize line m)) = 0" "asc_tokenize line m \<noteq> []"
    "\<forall>t \<in> set (butlast (asc_tokenize line m)). tok_val t \<noteq> None \<and> 0 < tok_len t"
    using t W by (simp_all add: asc_tokenize_def)
  have "r = [] \<Longrightarrow> length (line_words line) < m" using W assms by auto
  then show "case tok_val (last (asc_tokenize line m)) of
        None \<Rightarrow> length (line_words line) < m | Some rest \<Rightarrow> line_words rest = drop (m - 1) (line_words line)"
    using t W by (simp add: asc_tokenize_def)
qed

lemma length_asc_tokenize: "1 < m \<Longrightarrow> length (asc_tokenize line m) = min (m - 1) (length (line_words line)) + 1"
  using arg_cong [OF asc_tokenize_words(1), of m length line] asc_tokenize_words(4) [of m line]
  by (cases "asc_tokenize line m" rule: rev_cases) auto

text \<open>The first token is followed by a blank, unless it ends the line.\<close>

lemma tokenize_loop_first:
  assumes "s = w @ e" and "n = length w" and "tokenize_loop k s n e = (t # ts, r)" and "CHR '' '' \<notin> set w"
  shows "\<exists>u v. tok_val t = Some (u @ v) \<and> tok_len t = length u \<and> CHR '' '' \<notin> set u
    \<and> (v = [] \<longrightarrow> words w e = [u]) \<and> (v \<noteq> [] \<longrightarrow> hd v = CHR '' '')"
  using assms
proof (induction k s n e arbitrary: w ts r rule: tokenize_loop.induct)
  case (2 k s n)
  then show ?case by (intro exI [of _ w] exI [of _ "[]"]) (auto split: if_splits)
next
  case (3 k s n c e)
  show ?case
  proof (cases "c = CHR '' ''")
    case False
    then have "tokenize_loop (Suc k) s (n + 1) e = (t # ts, r)" "s = (w @ [c]) @ e" "n + 1 = length (w @ [c])"
      "CHR '' '' \<notin> set (w @ [c])"
      using "3.prems" by simp_all
    with "3.IH"(3) [OF False this(2,3,1,4)] False show ?thesis by simp
  next
    case True
    show ?thesis
    proof (cases "n = 0")
      case n: True
      then have w: "w = []" using "3.prems"(2) by simp
      have "tokenize_loop (Suc k) e 0 e = (t # ts, r)" using "3.prems"(3) True n by simp
      with "3.IH"(2) [OF True] n w True show ?thesis by simp
    next
      case n: False
      then have "t = \<lparr>tok_val = Some s, tok_len = n\<rparr>" using "3.prems"(3) True by (auto split: prod.splits)
      then show ?thesis using "3.prems"(1,2,4) True by (intro exI [of _ w] exI [of _ "c # e"]) simp
    qed
  qed
qed simp

text \<open>Every token starts at its word and is followed by a blank, unless it ends the line.\<close>

definition token_of :: "bytes \<Rightarrow> token \<Rightarrow> bool" where
  "token_of w t \<longleftrightarrow> (\<exists>v. tok_val t = Some (w @ v) \<and> tok_len t = length w \<and> (v = [] \<or> hd v = CHR '' ''))"

lemma token_of_simp: "token_of w \<lparr>tok_val = Some (w @ v), tok_len = length w\<rparr> \<longleftrightarrow> v = [] \<or> hd v = CHR '' ''"
  by (simp add: token_of_def)

lemma tokenize_loop_tokens:
  assumes "s = w @ e" and "n = length w" and "tokenize_loop k s n e = (ts, r)" and "0 < k"
  shows "list_all2 token_of (take k (words w e)) ts"
  using assms
proof (induction k s n e arbitrary: w ts r rule: tokenize_loop.induct)
  case (2 k s n)
  then show ?case using token_of_simp [of w "[]"] by (auto split: if_splits)
next
  case (3 k s n c e)
  show ?case
  proof (cases "c = CHR '' ''")
    case False
    then have "tokenize_loop (Suc k) s (n + 1) e = (ts, r)" "s = (w @ [c]) @ e" "n + 1 = length (w @ [c])"
      using "3.prems" by simp_all
    with "3.IH"(3) [OF False this(2,3,1)] False show ?thesis by simp
  next
    case True
    show ?thesis
    proof (cases "n = 0")
      case n: True
      then have w: "w = []" using "3.prems"(2) by simp
      have "tokenize_loop (Suc k) e 0 e = (ts, r)" using "3.prems"(3) True n by simp
      with "3.IH"(2) [OF True] n w True show ?thesis by simp
    next
      case n: False
      obtain ts' where t: "tokenize_loop k e 0 e = (ts', r)" "ts = \<lparr>tok_val = Some s, tok_len = n\<rparr> # ts'"
        using "3.prems"(3) True n by (auto split: prod.splits)
      have "list_all2 token_of (take k (line_words e)) ts'"
        using t(1) "3.IH"(1) [OF True n _ _ t(1)] by (cases k) simp_all
      then show ?thesis using t(2) True n "3.prems"(1,2) token_of_simp [of w "c # e"] by auto
    qed
  qed
qed simp

lemma asc_tokenize_tokens:
  assumes "1 < m"
  shows "\<exists>t. asc_tokenize line m = butlast (asc_tokenize line m) @ [t] \<and> list_all2 token_of (take (m - 1) (line_words line)) (butlast (asc_tokenize line m))"
proof -
  obtain ts r where t: "tokenize_loop (m - 1) line 0 line = (ts, r)" by fastforce
  show ?thesis using tokenize_loop_tokens [OF _ _ t, of "[]"] t assms by (simp add: asc_tokenize_def)
qed

lemma token_of_str: "token_of w t \<Longrightarrow> tok_str t = w \<and> tok_len t = length w"
  by (auto simp: token_of_def tok_str_def)

text \<open>The token of the k-th word of a line that is not too long for one set of tokens.\<close>

lemma token_nth:
  assumes "line_words line = ws" and "length ws < m" and "k < length ws"
  shows "token_of (ws ! k) (asc_tokenize line m ! k)"
proof -
  have m: "1 < m" using assms by simp
  obtain t where t: "asc_tokenize line m = butlast (asc_tokenize line m) @ [t]" "list_all2 token_of ws (butlast (asc_tokenize line m))"
    using asc_tokenize_tokens [OF m, of line] assms by auto
  have "length ws = length (butlast (asc_tokenize line m))" using t(2) by (rule list_all2_lengthD)
  then have "asc_tokenize line m ! k = butlast (asc_tokenize line m) ! k" using assms(3) by (subst t(1)) (simp add: nth_append)
  then show ?thesis using list_all2_nthD [OF t(2) assms(3)] by simp
qed

text \<open>The names of the commands.\<close>

definition commands :: "(bytes \<times> req_type) list" where
  "commands = [(''get'', REQ_GET), (''set'', REQ_SET), (''add'', REQ_ADD), (''cas'', REQ_CAS), (''gets'', REQ_GETS),
     (''incr'', REQ_INCR), (''decr'', REQ_DECR), (''quit'', REQ_QUIT), (''stats'', REQ_STATS), (''append'', REQ_APPEND),
     (''delete'', REQ_DELETE), (''config'', REQ_CONFIG), (''replace'', REQ_REPLACE), (''prepend'', REQ_PREPEND),
     (''version'', REQ_VERSION), (''appendrl'', REQ_APPENDRL), (''flush_all'', REQ_FLUSHALL),
     (''prependrl'', REQ_PREPENDRL), (''verbosity'', REQ_VERBOSITY)]"

definition command_type :: "bytes \<Rightarrow> req_type" where
  "command_type w = (case map_of commands w of None \<Rightarrow> REQ_UNKNOWN | Some t \<Rightarrow> t)"

lemma str_cmp_prefix: "length lit = length u \<Longrightarrow> str_cmp (u @ v) lit \<longleftrightarrow> u = lit"
  by (auto simp: str_cmp_def)

lemma str_cmp_blank: "length lit = length u \<Longrightarrow> str_cmp (u @ v) (lit @ [c]) \<longleftrightarrow> u = lit \<and> v \<noteq> [] \<and> hd v = c"
  by (cases v) (auto simp: str_cmp_def)

lemma command_type_length:
  assumes "command_type u \<noteq> REQ_UNKNOWN"
  shows "length u \<in> {3, 4, 5, 6, 7, 8, 9}"
  using assms by (auto simp: command_type_def commands_def split: if_splits)

lemma asc_parse_type_words:
  assumes "line_words line = u # ws" and "1 < m" and "ws \<noteq> [] \<or> length u \<noteq> 3"
  shows "asc_parse_type (asc_tokenize line m) = command_type u"
proof -
  obtain ts r where t: "tokenize_loop (m - 1) line 0 line = (ts, r)" by fastforce
  have W: "map tok_str ts = take (m - 1) (u # ws)"
    using tokenize_loop_words [of line "[]" line 0 "m - 1" ts r] t assms(1,2) by simp
  obtain t0 ts' where ts: "ts = t0 # ts'" "tok_str t0 = u"
    using W assms(2) by (cases ts; cases "m - 1") auto
  obtain u' v where V: "tok_val t0 = Some (u' @ v)" "tok_len t0 = length u'" "v = [] \<longrightarrow> line_words line = [u']" "v \<noteq> [] \<longrightarrow> hd v = CHR '' ''"
    using tokenize_loop_first [of line "[]" line 0 "m - 1" t0 ts' r] t ts(1) by auto
  have u: "u' = u" using V ts(2) by (simp add: tok_str_def)
  have b: "length u = 3 \<Longrightarrow> v \<noteq> [] \<and> hd v = CHR '' ''" using V(3,4) assms(1,3) by (cases v) auto
  note B = str_cmp_blank [of "''get''" u v "CHR '' ''"] str_cmp_blank [of "''set''" u v "CHR '' ''"]
    str_cmp_blank [of "''add''" u v "CHR '' ''"] str_cmp_blank [of "''cas''" u v "CHR '' ''"]
  have a: "asc_tokenize line m = t0 # ts' @ [\<lparr>tok_val = if r = [] then None else Some r, tok_len = 0\<rparr>]"
    using t ts(1) by (simp add: asc_tokenize_def)
  have neq: "length lit \<noteq> length u \<Longrightarrow> (u = lit) = False" for lit by auto
  have p: "asc_parse_type (asc_tokenize line m) = command_type u" if "length u = k" "k \<in> {4, 5, 6, 7, 8, 9}" for k
    unfolding a using that V(1,2) u neq
    by (elim insertE) (simp_all add: asc_parse_type_def str_cmp_prefix command_type_def commands_def)
  have p3: "asc_parse_type (asc_tokenize line m) = command_type u" if "length u = 3"
    unfolding a using that B b V(1,2) u neq
    by (simp add: asc_parse_type_def command_type_def commands_def)
  show ?thesis
  proof (cases "length u \<in> {3, 4, 5, 6, 7, 8, 9}")
    case True
    then show ?thesis using p p3 by blast
  next
    case False
    then have "command_type u = REQ_UNKNOWN" using command_type_length [of u] by blast
    then show ?thesis unfolding a using False V(1,2) u by (simp add: asc_parse_type_def)
  qed
qed

end
