(* ===== verification/McKlog.thy ===== *)
theory McKlog
  imports McReq McRing McStats
begin

text \<open>
  The command log, \<^verbatim>\<open>mc_klog.c\<close>: every worker composes its log entries in a circular buffer of bytes, which the
  collector thread writes to the log file. The formatted time, \<^verbatim>\<open>strftime\<close> of \<^verbatim>\<open>localtime\<close>, and the results of \<^verbatim>\<open>write\<close> and of
  reopening the file are arguments of the operations.
\<close>

section \<open>State\<close>

definition KLOG_ENTRY_SIZE :: nat where "KLOG_ENTRY_SIZE = 384"
definition KLOG_MAX_SIZE :: nat where "KLOG_MAX_SIZE = 1073741824"

record kbuf =
  kb_r_idx :: nat
  kb_w_idx :: nat
  kb_entries :: int
  kb_errors :: nat
  kb_buf :: bytes
  kb_size :: nat

record klog_state =
  klog_running :: bool
  klog_sampling_rate :: int
  klog_entry :: nat
  klog_fd :: bool
  klog_kfs :: nat
  klog_file :: bytes
  klog_backup :: bytes

section \<open>Operations\<close>

definition klog_remain :: "kbuf \<Rightarrow> int" where
  "klog_remain kbuf =
     (let remain = int (kb_r_idx kbuf) - int (kb_w_idx kbuf);
          remain = (if remain \<le> 0 then remain + int (kb_size kbuf) else remain)
      in remain - 1)"

text \<open>\<open>mem\<close> is the memory obtained for the buffer.\<close>

definition klog_buf_create :: "bytes option \<Rightarrow> klog_state \<Rightarrow> kbuf option" where
  "klog_buf_create mem k =
     (let sz = KLOG_ENTRY_SIZE * klog_entry k in
      map_option (\<lambda>buf. \<lparr>kb_r_idx = 0, kb_w_idx = 0, kb_entries = 0, kb_errors = 0, kb_buf = buf, kb_size = sz\<rparr>) mem)"

definition print_int :: "int \<Rightarrow> bytes" where
  "print_int i = (if i < 0 then CHR ''-'' # print_dec (nat (- i)) else print_dec (nat i))"

text \<open>The text of an entry; a string argument ends at its first null character.\<close>

definition c_str :: "bytes \<Rightarrow> bytes" where
  "c_str s = takeWhile (\<lambda>c. c \<noteq> CHR 0x00) s"

definition klog_text :: "bytes \<Rightarrow> bytes \<Rightarrow> req_type \<Rightarrow> bytes \<Rightarrow> int \<Rightarrow> int \<Rightarrow> bytes" where
  "klog_text peer timestr rtype cmdkey status res_len =
     c_str peer @ '' - ['' @ c_str timestr @ ''] '' @ [CHR 0x22]
     @ (if rtype = REQ_GET then ''get '' else if rtype = REQ_GETS then ''gets '' else [])
     @ c_str cmdkey @ [CHR 0x22] @ '' '' @ print_int status @ '' '' @ print_int res_len @ [CHR 0x0A]"

text \<open>
  The text that \<^verbatim>\<open>mc_scnprintf\<close> leaves in a buffer of \<open>n\<close> bytes, without the null character; its return value is the
  length of the text. \<open>timestr\<close> is \<open>None\<close> when \<^verbatim>\<open>strftime\<close> returns 0. The result is empty when nothing is composed.
\<close>

definition mc_scnprintf :: "nat \<Rightarrow> bytes \<Rightarrow> bytes" where
  "mc_scnprintf n text = take (n - 1) text"

definition klog_fmt :: "bytes option \<Rightarrow> bytes \<Rightarrow> req_type \<Rightarrow> bytes \<Rightarrow> int \<Rightarrow> int \<Rightarrow> kbuf \<Rightarrow> bytes \<times> kbuf" where
  "klog_fmt timestr peer rtype cmdkey status res_len kbuf =
     (case timestr of
        None \<Rightarrow> ([], kbuf\<lparr>kb_errors := kb_errors kbuf + 1\<rparr>)
      | Some ts \<Rightarrow>
          (let msg = mc_scnprintf KLOG_ENTRY_SIZE (klog_text peer ts rtype cmdkey status res_len)
           in if length msg \<ge> KLOG_ENTRY_SIZE then ([], kbuf\<lparr>kb_errors := kb_errors kbuf + 1\<rparr>) else (msg, kbuf)))"

text \<open>\<^verbatim>\<open>memcpy(&buf[i], bs, length bs)\<close>.\<close>

definition put_at :: "bytes \<Rightarrow> nat \<Rightarrow> bytes \<Rightarrow> bytes" where
  "put_at buf i bs = take i buf @ bs @ drop (i + length bs) buf"

text \<open>
  The entry is composed in place, together with its null character, unless it might not fit before the end of the
  buffer. \<open>None\<close> is a division by zero.
\<close>

definition klog_put :: "bytes \<Rightarrow> kbuf \<Rightarrow> kbuf" where
  "klog_put msg kbuf =
     (let remain = kb_size kbuf - kb_w_idx kbuf in
      if remain < KLOG_ENTRY_SIZE then
        (if length msg > remain
         then kbuf\<lparr>kb_buf := put_at (put_at (kb_buf kbuf) (kb_w_idx kbuf) (take remain msg)) 0 (drop remain msg)\<rparr>
         else kbuf\<lparr>kb_buf := put_at (kb_buf kbuf) (kb_w_idx kbuf) msg\<rparr>)
      else if msg = [] then kbuf
      else kbuf\<lparr>kb_buf := put_at (kb_buf kbuf) (kb_w_idx kbuf) (msg @ [CHR 0x00])\<rparr>)"

definition klog_enabled :: "klog_state \<Rightarrow> bool" where
  "klog_enabled k \<longleftrightarrow> klog_running k"

definition klog_write :: "bytes option \<Rightarrow> bytes \<Rightarrow> req_type \<Rightarrow> bytes \<Rightarrow> int \<Rightarrow> int \<Rightarrow> klog_state
    \<Rightarrow> kbuf option \<times> thread_metrics \<Rightarrow> (kbuf option \<times> thread_metrics) option" where
  "klog_write timestr peer rtype cmdkey status res_len k km =
     (case km of
        (None, m) \<Rightarrow> Some (None, m)
      | (Some kbuf, m) \<Rightarrow>
          if \<not> klog_enabled k then Some (Some kbuf, m)
          else if klog_sampling_rate k = 0 then None
          else
            (let kbuf = kbuf\<lparr>kb_entries := kb_entries kbuf + 1\<rparr> in
             if kb_entries kbuf mod klog_sampling_rate k \<noteq> 0
             then Some (Some kbuf, stats_thread_incr_by THREAD_klog_skipped 1 m)
             else
               (let kbuf = kbuf\<lparr>kb_entries := 0\<rparr> in
                if klog_remain kbuf < int KLOG_ENTRY_SIZE
                then Some (Some kbuf, stats_thread_incr_by THREAD_klog_discarded 1 m)
                else
                  (let (msg, kbuf) = klog_fmt timestr peer rtype cmdkey status res_len kbuf;
                       kbuf = klog_put msg kbuf
                   in if length msg > 0
                      then Some (Some (kbuf\<lparr>kb_w_idx := (kb_w_idx kbuf + length msg) mod kb_size kbuf\<rparr>),
                                 stats_thread_incr_by THREAD_klog_logged 1 m)
                      else Some (Some kbuf, m)))))"

text \<open>
  One collection. \<open>n1\<close> and \<open>n2\<close> are the results of the two calls of \<^verbatim>\<open>write\<close>, negative on an error, and \<open>reopened\<close> is whether
  the log file could be opened again after it was rotated.
\<close>

definition klog_reopen :: "bool \<Rightarrow> klog_state \<Rightarrow> klog_state" where
  "klog_reopen reopened k =
     (if \<not> klog_fd k then k
      else
        (let k = k\<lparr>klog_backup := klog_file k, klog_file := [], klog_fd := reopened\<rparr>
         in if reopened then k else k\<lparr>klog_running := False\<rparr>))"

definition append_file :: "bytes \<Rightarrow> klog_state \<Rightarrow> klog_state" where
  "append_file bs k = k\<lparr>klog_file := klog_file k @ bs\<rparr>"

definition klog_read_done :: "nat \<Rightarrow> bool \<Rightarrow> kbuf \<times> klog_state \<Rightarrow> nat \<times> kbuf \<times> klog_state" where
  "klog_read_done ret reopened bk =
     (let (kbuf, k) = bk;
          kbuf = (if ret > 0 then kbuf\<lparr>kb_r_idx := (kb_r_idx kbuf + ret) mod kb_size kbuf\<rparr> else kbuf);
          k = k\<lparr>klog_kfs := klog_kfs k + ret\<rparr>;
          k = (if klog_kfs k > KLOG_MAX_SIZE then (klog_reopen reopened k)\<lparr>klog_kfs := 0\<rparr> else k)
      in (ret, kbuf, k))"

definition klog_read :: "int \<Rightarrow> int \<Rightarrow> bool \<Rightarrow> kbuf \<times> klog_state \<Rightarrow> nat \<times> kbuf \<times> klog_state" where
  "klog_read n1 n2 reopened bk =
     (let (kbuf, k) = bk; w_idx = kb_w_idx kbuf; r_idx = kb_r_idx kbuf;
          failed = (\<lambda>k. (0, kbuf\<lparr>kb_errors := kb_errors kbuf + 1\<rparr>, k)) in
      if r_idx \<le> w_idx then
        (if r_idx < w_idx then
           (if n1 < 0 then failed k
            else klog_read_done (nat n1) reopened (kbuf, append_file (take (nat n1) (drop r_idx (kb_buf kbuf))) k))
         else klog_read_done 0 reopened (kbuf, k))
      else
        (if n1 < 0 then failed k
         else
           (let k = append_file (take (nat n1) (drop r_idx (kb_buf kbuf))) k in
            if nat n1 = kb_size kbuf - r_idx then
              (if n2 < 0 then failed k
               else klog_read_done (nat n1 + nat n2) reopened (kbuf, append_file (take (nat n2) (kb_buf kbuf)) k))
            else klog_read_done (nat n1) reopened (kbuf, k))))"

text \<open>The collector visits the buffers of all workers; \<open>ws\<close> are the results of the system calls for each.\<close>

fun collect_loop :: "(int \<times> int \<times> bool) list \<Rightarrow> kbuf list \<Rightarrow> klog_state \<Rightarrow> nat \<times> kbuf list \<times> klog_state" where
  "collect_loop ((n1, n2, ro) # ws) (b # bs) k =
     (case klog_read n1 n2 ro (b, k) of
        (n, b, k) \<Rightarrow> (case collect_loop ws bs k of (m, bs, k) \<Rightarrow> (n + m, b # bs, k)))"
| "collect_loop _ bs k = (0, bs, k)"

definition klog_collect :: "(int \<times> int \<times> bool) list \<Rightarrow> kbuf list \<Rightarrow> klog_state \<Rightarrow> kbuf list \<times> klog_state" where
  "klog_collect ws bs k = (if \<not> klog_enabled k then (bs, k) else snd (collect_loop ws bs k))"

text \<open>\<open>opened\<close> is whether the log file could be opened.\<close>

definition klog_init :: "bool \<Rightarrow> bool \<Rightarrow> klog_state \<Rightarrow> rstatus \<times> klog_state" where
  "klog_init named opened k =
     (let k = k\<lparr>klog_fd := False\<rparr> in
      if \<not> named then (MC_OK, k)
      else if \<not> opened then (MC_ERROR, k)
      else (MC_OK, k\<lparr>klog_fd := True, klog_file := []\<rparr>))"

section \<open>The buffer as a queue of bytes\<close>

definition kb_inv :: "kbuf \<Rightarrow> bool" where
  "kb_inv b \<longleftrightarrow> length (kb_buf b) = kb_size b \<and> kb_r_idx b < kb_size b \<and> kb_w_idx b < kb_size b"

abbreviation kb_used :: "kbuf \<Rightarrow> nat" where
  "kb_used b \<equiv> dist (kb_size b) (kb_r_idx b) (kb_w_idx b)"

definition kb_bytes :: "kbuf \<Rightarrow> bytes" where
  "kb_bytes b = map (\<lambda>i. kb_buf b ! ((kb_r_idx b + i) mod kb_size b)) [0..<kb_used b]"

lemma klog_remain_used: "kb_inv b \<Longrightarrow> klog_remain b = int (kb_size b) - 1 - int (kb_used b)"
  by (auto simp: klog_remain_def kb_inv_def dist_def Let_def)

lemma circular_flat:
  fixes xs :: "'a list"
  assumes "length xs = n" and "r < n" and "w < n"
  shows "map (\<lambda>i. xs ! ((r + i) mod n)) [0..<dist n r w] = (if r \<le> w then take (w - r) (drop r xs) else drop r xs @ take w xs)"
proof (cases "r \<le> w")
  case True
  then have d: "dist n r w = w - r" by (simp add: dist_def)
  have "(r + i) mod n = r + i" if "i < w - r" for i using that assms by simp
  then show ?thesis using True assms unfolding d by (intro nth_equalityI) simp_all
next
  case False
  then have d: "dist n r w = n - r + w" using assms by (simp add: dist_def)
  have m: "(r + i) mod n = (if i < n - r then r + i else i - (n - r))" if "i < n - r + w" for i
    using that assms False by (auto simp: mod_if)
  then show ?thesis using False assms unfolding d by (intro nth_equalityI) (simp_all add: nth_append)
qed

lemma kb_bytes_flat:
  "kb_inv b \<Longrightarrow> kb_bytes b = (if kb_r_idx b \<le> kb_w_idx b then take (kb_w_idx b - kb_r_idx b) (drop (kb_r_idx b) (kb_buf b))
    else drop (kb_r_idx b) (kb_buf b) @ take (kb_w_idx b) (kb_buf b))"
  unfolding kb_bytes_def kb_inv_def by (rule circular_flat) simp_all

lemma dist_add: "r < n \<Longrightarrow> w < n \<Longrightarrow> dist n r w + k < n \<Longrightarrow> dist n r ((w + k) mod n) = dist n r w + k"
  by (cases "w + k < n") (auto simp: dist_def mod_if split: if_splits)

text \<open>A write that puts the new bytes behind the write position and leaves the unread ones alone appends them.\<close>

lemma kb_append:
  assumes inv: "kb_inv b" and room: "kb_used b + length ys < kb_size b"
    and len: "length buf = kb_size b" and new: "\<And>j. j < length ys \<Longrightarrow> buf ! ((kb_w_idx b + j) mod kb_size b) = ys ! j"
    and old: "\<And>i. i < kb_used b \<Longrightarrow> buf ! ((kb_r_idx b + i) mod kb_size b) = kb_buf b ! ((kb_r_idx b + i) mod kb_size b)"
  defines "b' \<equiv> b\<lparr>kb_buf := buf, kb_w_idx := (kb_w_idx b + length ys) mod kb_size b\<rparr>"
  shows "kb_inv b'" and "kb_bytes b' = kb_bytes b @ ys"
proof -
  have i: "kb_r_idx b < kb_size b" "kb_w_idx b < kb_size b" using inv by (simp_all add: kb_inv_def)
  show "kb_inv b'" using inv len i by (simp add: kb_inv_def b'_def)
  have u: "kb_used b' = kb_used b + length ys" using dist_add [OF i] room by (simp add: b'_def)
  have e: "(kb_r_idx b + (kb_used b + j)) mod kb_size b = (kb_w_idx b + j) mod kb_size b" for j
    using dist_end [OF i] by (metis add.assoc mod_add_left_eq)
  show "kb_bytes b' = kb_bytes b @ ys"
    by (rule nth_equalityI)
      (use old new e u in \<open>auto simp: kb_bytes_def nth_append b'_def e not_less dest!: le_Suc_ex\<close>)
qed

lemma nth_put_at:
  "i + length bs \<le> length buf \<Longrightarrow> j < length buf \<Longrightarrow>
     put_at buf i bs ! j = (if i \<le> j \<and> j < i + length bs then bs ! (j - i) else buf ! j)"
  by (auto simp: put_at_def nth_append min_def not_less)

lemma length_put_at [simp]: "i + length bs \<le> length buf \<Longrightarrow> length (put_at buf i bs) = length buf"
  by (simp add: put_at_def)

text \<open>
  \<open>new\<close> is \<open>old\<close> with \<open>msg\<close> written from position \<open>w\<close> on, around the end; the position behind it may have changed as well.
\<close>

definition circ_shape :: "nat \<Rightarrow> nat \<Rightarrow> bytes \<Rightarrow> bytes \<Rightarrow> bytes \<Rightarrow> bool" where
  "circ_shape n w msg old new \<longleftrightarrow> length new = n \<and> (\<forall>j < length msg. new ! ((w + j) mod n) = msg ! j)
     \<and> (\<forall>p < n. (\<forall>l \<le> length msg. p \<noteq> (w + l) mod n) \<longrightarrow> new ! p = old ! p)"

lemma shape_straight:
  assumes "length buf = n" and "w + length msg + length z \<le> n" and "length z \<le> 1"
  shows "circ_shape n w msg buf (put_at buf w (msg @ z))"
proof -
  have g: "put_at buf w (msg @ z) ! p = (if w \<le> p \<and> p < w + length (msg @ z) then (msg @ z) ! (p - w) else buf ! p)" if "p < n" for p
    by (rule nth_put_at) (use that assms in auto)
  have "put_at buf w (msg @ z) ! p = buf ! p" if p: "p < n" "\<forall>l \<le> length msg. p \<noteq> (w + l) mod n" for p
  proof -
    have "\<not> (w \<le> p \<and> p < w + length (msg @ z))"
    proof
      assume w: "w \<le> p \<and> p < w + length (msg @ z)"
      then have "p - w \<le> length msg" "(w + (p - w)) mod n = p" using p(1) assms(3) by auto
      with p(2) show False by metis
    qed
    then show ?thesis using g [OF p(1)] by auto
  qed
  moreover have "put_at buf w (msg @ z) ! ((w + j) mod n) = msg ! j" if "j < length msg" for j
    using g [of "w + j"] that assms by (simp add: nth_append)
  ultimately show ?thesis using assms by (simp add: circ_shape_def)
qed

lemma shape_wrap:
  assumes "length buf = n" and "w < n" and "n - w < length msg" and "length msg \<le> n"
  shows "circ_shape n w msg buf (put_at (put_at buf w (take (n - w) msg)) 0 (drop (n - w) msg))"
proof -
  let ?k = "n - w" and ?b1 = "put_at buf w (take (n - w) msg)"
  let ?b2 = "put_at ?b1 0 (drop (n - w) msg)"
  have l1: "length ?b1 = n" using assms by simp
  have l2: "length ?b2 = n" using assms l1 by simp
  have g: "?b2 ! p = (if p < length msg - ?k then msg ! (?k + p) else if w \<le> p then msg ! (p - w) else buf ! p)" if "p < n" for p
    using that assms l1 by (simp add: nth_put_at)
  have wm: "(w + l) mod n = (if l < ?k then w + l else l - ?k)" if "l \<le> length msg" for l
    using that assms by (auto simp: mod_if)
  have "?b2 ! ((w + j) mod n) = msg ! j" if "j < length msg" for j
    using that wm [of j] g [of "(w + j) mod n"] assms by auto
  moreover have "?b2 ! p = buf ! p" if p: "p < n" "\<forall>l \<le> length msg. p \<noteq> (w + l) mod n" for p
  proof -
    have "\<not> p < length msg - ?k" using spec [OF p(2), of "?k + p"] wm [of "?k + p"] by auto
    moreover have "\<not> w \<le> p" using spec [OF p(2), of "p - w"] wm [of "p - w"] p(1) assms by auto
    ultimately show ?thesis using g [OF p(1)] by simp
  qed
  ultimately show ?thesis using l2 by (simp add: circ_shape_def)
qed

lemma klog_put_shape:
  assumes "kb_inv b" and "length msg < KLOG_ENTRY_SIZE" and "KLOG_ENTRY_SIZE < kb_size b"
  obtains buf where "klog_put msg b = b\<lparr>kb_buf := buf\<rparr>" and "circ_shape (kb_size b) (kb_w_idx b) msg (kb_buf b) buf"
proof -
  have i: "length (kb_buf b) = kb_size b" "kb_w_idx b < kb_size b" using assms(1) by (simp_all add: kb_inv_def)
  let ?rem = "kb_size b - kb_w_idx b"
  consider "?rem < KLOG_ENTRY_SIZE" "length msg > ?rem" | "?rem < KLOG_ENTRY_SIZE" "length msg \<le> ?rem"
    | "\<not> ?rem < KLOG_ENTRY_SIZE" "msg = []" | "\<not> ?rem < KLOG_ENTRY_SIZE" "msg \<noteq> []" by linarith
  then show thesis
  proof cases
    case 1
    then show ?thesis using that [OF _ shape_wrap [OF i, of msg]] assms by (simp add: klog_put_def Let_def)
  next
    case 2
    then show ?thesis using that shape_straight [OF i(1), of "kb_w_idx b" msg "[]"] i(2) by (simp add: klog_put_def)
  next
    case 3
    then show ?thesis using that [of "kb_buf b"] i by (simp add: klog_put_def circ_shape_def)
  next
    case 4
    then show ?thesis using that shape_straight [OF i(1), of "kb_w_idx b" msg "[CHR 0x00]"] assms(2) by (simp add: klog_put_def)
  qed
qed

text \<open>
  With room for an entry, composing one, null character included, writes the free part of the buffer only.
\<close>

lemma klog_put_bytes:
  assumes inv: "kb_inv b" and room: "kb_used b + KLOG_ENTRY_SIZE < kb_size b" and msg: "length msg < KLOG_ENTRY_SIZE"
  defines "b' \<equiv> (klog_put msg b)\<lparr>kb_w_idx := (kb_w_idx b + length msg) mod kb_size b\<rparr>"
  shows "kb_inv b'" and "kb_bytes b' = kb_bytes b @ msg"
proof -
  let ?n = "kb_size b" and ?w = "kb_w_idx b" and ?r = "kb_r_idx b"
  have i: "?r < ?n" "?w < ?n" using inv by (simp_all add: kb_inv_def)
  have free: "(?r + j) mod ?n \<noteq> (?w + l) mod ?n" if "j < kb_used b" "l \<le> length msg" for j l
  proof -
    have "kb_used b + l < ?n" using that room msg by simp
    then have d: "dist ?n ?r ((?w + l) mod ?n) = kb_used b + l" by (rule dist_add [OF i])
    have "(?w + l) mod ?n < ?n" using i by simp
    from dist_other [OF i(1) this, of j] show ?thesis using that(1) d by simp
  qed
  obtain buf where B: "klog_put msg b = b\<lparr>kb_buf := buf\<rparr>" "circ_shape ?n ?w msg (kb_buf b) buf"
    using klog_put_shape [OF inv msg] room by (metis add_lessD1 add.commute)
  have o: "buf ! ((?r + j) mod ?n) = kb_buf b ! ((?r + j) mod ?n)" if "j < kb_used b" for j
    using B(2) free [OF that] i by (auto simp: circ_shape_def)
  have room': "kb_used b + length msg < ?n" using room msg by simp
  have n: "length buf = ?n" "\<And>j. j < length msg \<Longrightarrow> buf ! ((?w + j) mod ?n) = msg ! j" using B(2) by (simp_all add: circ_shape_def)
  show "kb_inv b'" "kb_bytes b' = kb_bytes b @ msg"
    using kb_append [OF inv room' n o] B(1) by (simp_all add: b'_def)
qed

lemma klog_fmt_length: "klog_fmt ts peer rt ck st rl b = (msg, b') \<Longrightarrow> length msg < KLOG_ENTRY_SIZE"
  by (auto simp: klog_fmt_def KLOG_ENTRY_SIZE_def Let_def split: option.splits if_splits)

lemma klog_fmt_fields:
  "klog_fmt ts peer rt ck st rl b = (msg, b') \<Longrightarrow> kb_buf b' = kb_buf b \<and> kb_r_idx b' = kb_r_idx b \<and> kb_w_idx b' = kb_w_idx b \<and> kb_size b' = kb_size b"
  by (auto simp: klog_fmt_def Let_def split: option.splits if_splits)

lemma kb_frame:
  assumes "kb_buf b' = kb_buf b" "kb_r_idx b' = kb_r_idx b" "kb_w_idx b' = kb_w_idx b" "kb_size b' = kb_size b"
  shows "kb_inv b' = kb_inv b" and "kb_bytes b' = kb_bytes b" and "klog_remain b' = klog_remain b"
  using assms by (simp_all add: kb_inv_def kb_bytes_def klog_remain_def Let_def)

text \<open>
  A log call appends one composed entry, cut to what fits an entry, or nothing; it never touches a byte that the collector has not
  written yet.
\<close>

lemma klog_write_bytes:
  assumes inv: "kb_inv b" and r: "klog_write ts peer rt ck st rl k (Some b, m) = Some (bo, m')"
  shows "\<exists>b' msg. bo = Some b' \<and> kb_inv b' \<and> kb_size b' = kb_size b \<and> kb_bytes b' = kb_bytes b @ msg \<and> length msg < KLOG_ENTRY_SIZE
    \<and> (msg \<noteq> [] \<longrightarrow> (\<exists>t. ts = Some t \<and> msg = take (KLOG_ENTRY_SIZE - 1) (klog_text peer t rt ck st rl)))"
proof -
  define b1 where "b1 = b\<lparr>kb_entries := kb_entries b + 1\<rparr>"
  define b2 where "b2 = b1\<lparr>kb_entries := 0\<rparr>"
  have f1: "kb_buf b1 = kb_buf b" "kb_r_idx b1 = kb_r_idx b" "kb_w_idx b1 = kb_w_idx b" "kb_size b1 = kb_size b" by (simp_all add: b1_def)
  have f2: "kb_buf b2 = kb_buf b" "kb_r_idx b2 = kb_r_idx b" "kb_w_idx b2 = kb_w_idx b" "kb_size b2 = kb_size b" by (simp_all add: b2_def b1_def)
  obtain msg b3 where f: "klog_fmt ts peer rt ck st rl b2 = (msg, b3)" by fastforce
  have f3: "kb_buf b3 = kb_buf b" "kb_r_idx b3 = kb_r_idx b" "kb_w_idx b3 = kb_w_idx b" "kb_size b3 = kb_size b"
    using klog_fmt_fields [OF f] f2 by simp_all
  let ?b4 = "(klog_put msg b3)\<lparr>kb_w_idx := (kb_w_idx b3 + length msg) mod kb_size b3\<rparr>"
  have idle: ?thesis if "bo = Some c" "kb_buf c = kb_buf b" "kb_r_idx c = kb_r_idx b" "kb_w_idx c = kb_w_idx b" "kb_size c = kb_size b" for c
    using that kb_frame [OF that(2-5)] inv by (auto simp: KLOG_ENTRY_SIZE_def)
  have l: "length msg < KLOG_ENTRY_SIZE" by (rule klog_fmt_length [OF f])
  have p: "kb_size (klog_put msg b3) = kb_size b3" "kb_w_idx (klog_put msg b3) = kb_w_idx b3" by (simp_all add: klog_put_def Let_def)
  have logged: ?thesis if room: "\<not> klog_remain b2 < int KLOG_ENTRY_SIZE" and bo: "bo = Some ?b4" and ne: "msg \<noteq> []"
  proof -
    have "kb_used b3 + KLOG_ENTRY_SIZE < kb_size b3" "kb_inv b3"
      using room klog_remain_used [OF inv] kb_frame [OF f2] kb_frame [OF f3] f3 inv by simp_all
    from klog_put_bytes [OF this(2,1) l] kb_frame(2) [OF f3] f3 bo p l ne
    have "kb_inv ?b4" "kb_bytes ?b4 = kb_bytes b @ msg" "kb_size ?b4 = kb_size b" by simp_all
    moreover have "\<exists>t. ts = Some t \<and> msg = take (KLOG_ENTRY_SIZE - 1) (klog_text peer t rt ck st rl)"
      using f ne by (auto simp: klog_fmt_def mc_scnprintf_def Let_def split: option.splits if_splits)
    ultimately show ?thesis using bo l by blast
  qed
  have put0: "klog_put [] b3 = b3" if "kb_inv b3"
    using that by (simp add: klog_put_def put_at_def Let_def kb_inv_def)
  show ?thesis
    using r f p logged idle [of b] idle [of b1] idle [of b2] idle [of b3] f1 f2 f3 put0 kb_frame(1) [OF f3] inv
    by (auto simp: klog_write_def klog_enabled_def Let_def b1_def [symmetric] b2_def [symmetric] split: if_splits)
qed

lemma dist_sub:
  assumes "r < n" "w < n" "k \<le> dist n r w"
  shows "dist n ((r + k) mod n) w = dist n r w - k"
proof (cases "r + k < n")
  case True
  then show ?thesis using assms by (simp add: dist_def split: if_splits)
next
  case False
  have nr: "\<not> r \<le> w"
  proof
    assume "r \<le> w"
    then have "k \<le> w - r" using assms(3) by (simp add: dist_def)
    then show False using False assms(2) \<open>r \<le> w\<close> by linarith
  qed
  then have k: "k \<le> w + n - r" using assms(3) by (simp add: dist_def)
  then have "r + k - n \<le> w" using False assms(1) by linarith
  moreover from this have "(r + k) mod n = r + k - n" using False assms(1,2) by (simp add: le_mod_geq)
  ultimately show ?thesis using False nr k assms(1) by (simp add: dist_def)
qed

text \<open>Moving the read position drops the bytes it passes.\<close>

lemma kb_drop:
  assumes inv: "kb_inv b" and k: "k \<le> kb_used b"
  shows "kb_inv (b\<lparr>kb_r_idx := (kb_r_idx b + k) mod kb_size b\<rparr>)"
    and "kb_bytes (b\<lparr>kb_r_idx := (kb_r_idx b + k) mod kb_size b\<rparr>) = drop k (kb_bytes b)"
proof -
  let ?b = "b\<lparr>kb_r_idx := (kb_r_idx b + k) mod kb_size b\<rparr>"
  have i: "kb_r_idx b < kb_size b" "kb_w_idx b < kb_size b" using inv by (simp_all add: kb_inv_def)
  show "kb_inv ?b" using inv i by (simp add: kb_inv_def)
  have u: "dist (kb_size b) ((kb_r_idx b + k) mod kb_size b) (kb_w_idx b) = kb_used b - k" by (rule dist_sub [OF i k])
  have "((kb_r_idx b + k) mod kb_size b + j) mod kb_size b = (kb_r_idx b + (k + j)) mod kb_size b" for j
    by (simp add: mod_add_left_eq add.assoc)
  then show "kb_bytes ?b = drop k (kb_bytes b)"
    using k by (intro nth_equalityI) (auto simp: kb_bytes_def u)
qed

lemma klog_read_done_eq:
  "klog_read_done ret ro (b, k) = (ret, (if ret > 0 then b\<lparr>kb_r_idx := (kb_r_idx b + ret) mod kb_size b\<rparr> else b),
     snd (snd (klog_read_done ret ro (b, k))))"
  by (simp add: klog_read_done_def Let_def)

lemma klog_read_done_file:
  "klog_kfs k + ret \<le> KLOG_MAX_SIZE \<Longrightarrow> klog_file (snd (snd (klog_read_done ret ro (b, k)))) = klog_file k"
  by (simp add: klog_read_done_def Let_def)

text \<open>
  A collection that meets no error writes a prefix of the unread bytes to the file, in order, and removes exactly these; one that
  meets an error removes nothing.
\<close>

lemma klog_read_bytes:
  assumes inv: "kb_inv b" and r: "klog_read n1 n2 ro (b, k) = (ret, b', k')" and kfs: "klog_kfs k + kb_size b \<le> KLOG_MAX_SIZE"
    and n: "n1 \<le> int (if kb_r_idx b \<le> kb_w_idx b then kb_w_idx b - kb_r_idx b else kb_size b - kb_r_idx b)" "n2 \<le> int (kb_w_idx b)"
  shows "kb_inv b' \<and> kb_bytes b' = drop ret (kb_bytes b) \<and>
    (if kb_errors b' = kb_errors b then klog_file k' = klog_file k @ take ret (kb_bytes b) else ret = 0)"
proof -
  have i: "length (kb_buf b) = kb_size b" "kb_r_idx b < kb_size b" "kb_w_idx b < kb_size b" using inv by (simp_all add: kb_inv_def)
  have succ: ?thesis
    if "klog_read_done q ro (b, append_file bs k) = (ret, b', k')" "q \<le> kb_used b" "bs = take q (kb_bytes b)" for q bs
  proof -
    have q: "ret = q" "b' = (if q > 0 then b\<lparr>kb_r_idx := (kb_r_idx b + q) mod kb_size b\<rparr> else b)"
      using that(1) klog_read_done_eq [of q ro b "append_file bs k"] by simp_all
    have "klog_kfs (append_file bs k) + q \<le> KLOG_MAX_SIZE"
      using kfs that(2) dist_le [OF i(2,3)] by (simp add: append_file_def)
    from klog_read_done_file [OF this, of ro b] that(1) have "klog_file k' = klog_file (append_file bs k)" by simp
    then show ?thesis using q kb_drop [OF inv that(2)] inv that(3) by (auto simp: append_file_def)
  qed
  have fail: ?thesis if "ret = 0" "b' = b\<lparr>kb_errors := kb_errors b + 1\<rparr>"
    using that inv kb_frame [of b' b] by simp
  have a0: "append_file [] k = k" by (simp add: append_file_def)
  have aa: "append_file y (append_file x k) = append_file (x @ y) k" for x y by (simp add: append_file_def)
  show ?thesis
  proof (cases "kb_r_idx b \<le> kb_w_idx b")
    case True
    then have "take (nat n1) (drop (kb_r_idx b) (kb_buf b)) = take (nat n1) (kb_bytes b)" "nat n1 \<le> kb_used b"
      using n(1) kb_bytes_flat [OF inv] i by (simp_all add: dist_def min_absorb1)
    then show ?thesis using r True succ [of "nat n1"] succ [of 0 "[]"] fail a0
      by (auto simp: klog_read_def Let_def split: if_splits)
  next
    case False
    then have u: "kb_used b = (kb_size b - kb_r_idx b) + kb_w_idx b" using i by (simp add: dist_def)
    have f: "kb_bytes b = drop (kb_r_idx b) (kb_buf b) @ take (kb_w_idx b) (kb_buf b)" using kb_bytes_flat [OF inv] False by simp
    have "take (nat n1) (drop (kb_r_idx b) (kb_buf b)) = take (nat n1) (kb_bytes b)" "nat n1 \<le> kb_used b"
      using n(1) False i unfolding f u by simp_all
    moreover have "nat n1 + nat n2 \<le> kb_used b"
      "take (nat n1) (drop (kb_r_idx b) (kb_buf b)) @ take (nat n2) (kb_buf b) = take (nat n1 + nat n2) (kb_bytes b)"
      if "nat n1 = kb_size b - kb_r_idx b"
      using n False i that unfolding f u by (simp_all add: min_absorb1)
    ultimately show ?thesis using r False succ [of "nat n1"] succ [of "nat n1 + nat n2"] fail aa
      by (auto simp: klog_read_def Let_def split: if_splits)
  qed
qed

section \<open>The log file\<close>

text \<open>
  Runs of one worker and the collector, up to the rotation of the file: \<open>es\<close> are the entries that went into the buffer. The log
  settings may change between the steps.
\<close>

inductive klog_run :: "bytes list \<Rightarrow> kbuf \<Rightarrow> klog_state \<Rightarrow> bool" where
  start: "klog_buf_create (Some mem) k = Some b \<Longrightarrow> length mem = kb_size b \<Longrightarrow> 0 < kb_size b \<Longrightarrow> klog_file k = []
    \<Longrightarrow> klog_run [] b k"
| logged: "klog_run es b k \<Longrightarrow> klog_write (Some t) peer rt ck st rl k (Some b, m) = Some (Some b', m') \<Longrightarrow> kb_bytes b' \<noteq> kb_bytes b
    \<Longrightarrow> klog_run (es @ [take (KLOG_ENTRY_SIZE - 1) (klog_text peer t rt ck st rl)]) b' k"
| skipped: "klog_run es b k \<Longrightarrow> klog_write ts peer rt ck st rl k (Some b, m) = Some (Some b', m') \<Longrightarrow> kb_bytes b' = kb_bytes b
    \<Longrightarrow> klog_run es b' k"
| collected: "klog_run es b k \<Longrightarrow> klog_read n1 n2 ro (b, k) = (ret, b', k') \<Longrightarrow> kb_errors b' = kb_errors b
    \<Longrightarrow> klog_kfs k + kb_size b \<le> KLOG_MAX_SIZE
    \<Longrightarrow> n1 \<le> int (if kb_r_idx b \<le> kb_w_idx b then kb_w_idx b - kb_r_idx b else kb_size b - kb_r_idx b) \<Longrightarrow> n2 \<le> int (kb_w_idx b)
    \<Longrightarrow> klog_run es b' k'"
| configured: "klog_run es b k \<Longrightarrow> klog_run es b (k\<lparr>klog_running := r, klog_sampling_rate := n\<rparr>)"

text \<open>The file followed by the bytes in the buffer is the entries, whole and in order.\<close>

lemma klog_run_file:
  assumes "klog_run es b k"
  shows "kb_inv b \<and> klog_file k @ kb_bytes b = concat es"
  using assms
proof induction
  case (start mem k b)
  then show ?case by (auto simp: klog_buf_create_def Let_def kb_inv_def kb_bytes_def dist_def)
next
  case (logged es b k t peer rt ck st rl m b' m')
  then obtain msg where "kb_inv b'" "kb_bytes b' = kb_bytes b @ msg"
      "msg \<noteq> [] \<longrightarrow> msg = take (KLOG_ENTRY_SIZE - 1) (klog_text peer t rt ck st rl)"
    using klog_write_bytes [of b "Some t" peer rt ck st rl k m "Some b'" m'] by auto
  then show ?case using logged by (cases "msg = []") auto
next
  case (skipped es b k ts peer rt ck st rl m b' m')
  then show ?case using klog_write_bytes [of b ts peer rt ck st rl k m "Some b'" m'] by auto
next
  case (collected es b k n1 n2 ro ret b' k')
  then have "kb_inv b'" "kb_bytes b' = drop ret (kb_bytes b)" "klog_file k' = klog_file k @ take ret (kb_bytes b)"
    using klog_read_bytes [of b n1 n2 ro k ret b' k'] by (auto simp: if_split_mem1)
  then show ?case using collected.IH by simp
qed simp

text \<open>A first entry in a fresh buffer.\<close>

definition demo_klog :: klog_state where
  "demo_klog = \<lparr>klog_running = True, klog_sampling_rate = 1, klog_entry = 2, klog_fd = True, klog_kfs = 0, klog_file = [],
     klog_backup = []\<rparr>"

definition demo_kbuf :: kbuf where
  "demo_kbuf = \<lparr>kb_r_idx = 0, kb_w_idx = 0, kb_entries = 0, kb_errors = 0, kb_buf = replicate 768 (CHR 0x00), kb_size = 768\<rparr>"

lemma demo_klog_run: "klog_run [] demo_kbuf demo_klog"
  by (rule klog_run.start [of "replicate 768 (CHR 0x00)"]) (simp_all add: klog_buf_create_def demo_klog_def demo_kbuf_def KLOG_ENTRY_SIZE_def Let_def)

lemma demo_klog_entry:
  "\<exists>b. klog_run [take (KLOG_ENTRY_SIZE - 1) (klog_text ''peer'' ''t'' REQ_GET ''k'' 0 5)] b demo_klog"
proof -
  obtain b :: kbuf and m m' where w: "klog_write (Some ''t'') ''peer'' REQ_GET ''k'' 0 5 demo_klog (Some demo_kbuf, m) = Some (Some b, m')"
      and i: "kb_r_idx b = 0" "kb_w_idx b = 23" "kb_size b = 768"
    by (simp add: klog_write_def klog_enabled_def demo_klog_def demo_kbuf_def klog_remain_def KLOG_ENTRY_SIZE_def klog_fmt_def mc_scnprintf_def
        klog_text_def c_str_def print_int_def Let_def klog_put_def put_at_def print_dec.simps [of 0] print_dec.simps [of 5])
  have "length (kb_bytes b) = 23" using i by (simp add: kb_bytes_def dist_def)
  moreover have "kb_bytes demo_kbuf = []" by (simp add: kb_bytes_def dist_def demo_kbuf_def)
  ultimately have "kb_bytes b \<noteq> kb_bytes demo_kbuf" by auto
  from klog_run.logged [OF demo_klog_run w this] show ?thesis by auto
qed

end
