(* ===== verification/McConn.thy ===== *)
theory McConn
  imports McReq McStats
begin

text \<open>
  A client connection, \<^verbatim>\<open>mc_connection.c\<close>: its buffers and the scatter/gather lists of what is to be sent, which are
  cut into messages that respect the limits of \<^verbatim>\<open>sendmsg\<close> and of a datagram.

  A pointer is an object and an offset into it. The read buffer and the write buffer are lists of bytes, and the
  markers into the read buffer are offsets. \<^verbatim>\<open>al\<close> tells whether the n-th allocation for a connection succeeds.
\<close>

section \<open>State\<close>

datatype conn_state =
    CONN_LISTEN | CONN_NEW_CMD | CONN_WAIT | CONN_READ | CONN_PARSE | CONN_NREAD | CONN_WRITE | CONN_MWRITE
  | CONN_SWALLOW | CONN_CLOSE

datatype obj = O_null | O_static bytes | O_wbuf | O_heap | O_item addr | O_suffix addr | O_udp

type_synonym ptr = "obj \<times> nat"

record iovec =
  iov_base :: ptr
  iov_len :: nat

record msghdr =
  msg_iov :: nat
  msg_iovlen :: nat

record conn =
  c_state :: conn_state
  c_rbuf :: bytes
  c_rsize :: nat
  c_rcurr :: nat
  c_rbytes :: nat
  c_wbuf :: bytes
  c_wsize :: nat
  c_wcurr :: ptr
  c_wbytes :: nat
  c_write_and_go :: conn_state
  c_write_and_free :: "bytes option"
  c_ritem :: nat
  c_rlbytes :: nat
  c_item :: "addr option"
  c_sbytes :: nat
  c_iov :: "iovec list"
  c_iov_size :: nat
  c_msg :: "msghdr list"
  c_msg_size :: nat
  c_msg_curr :: nat
  c_msg_bytes :: nat
  c_ilist :: "addr list"
  c_isize :: nat
  c_icurr :: nat
  c_ileft :: nat
  c_slist :: "addr list"
  c_ssize :: nat
  c_scurr :: nat
  c_sleft :: nat
  c_stats_buffer :: "bytes option"
  c_stats_size :: nat
  c_stats_offset :: nat
  c_req_type :: req_type
  c_req :: bytes
  c_peer :: bytes
  c_udp_rid :: nat
  c_udp_hbuf :: bytes
  c_udp_hsize :: nat
  c_noreply :: bool
  c_udp :: bool
  c_nalloc :: nat

definition UDP_HEADER_SIZE :: nat where "UDP_HEADER_SIZE = 8"
definition UDP_MAX_PAYLOAD_SIZE :: nat where "UDP_MAX_PAYLOAD_SIZE = 1400"
definition TCP_BUFFER_SIZE :: nat where "TCP_BUFFER_SIZE = 1024"
definition RSIZE_HIGHWAT :: nat where "RSIZE_HIGHWAT = 4096"
definition ILIST_SIZE :: nat where "ILIST_SIZE = 20"
definition ILIST_HIGHWAT :: nat where "ILIST_HIGHWAT = 40"
definition SLIST_SIZE :: nat where "SLIST_SIZE = 20"
definition IOV_SIZE :: nat where "IOV_SIZE = 40"
definition IOV_HIGHWAT :: nat where "IOV_HIGHWAT = 60"
definition MSG_SIZE :: nat where "MSG_SIZE = 10"
definition MSG_HIGHWAT :: nat where "MSG_HIGHWAT = 100"
definition IOV_MAX :: nat where "IOV_MAX = 1024"

text \<open>The sizes of a pointer, of \<^verbatim>\<open>struct iovec\<close> and of \<^verbatim>\<open>struct msghdr\<close>.\<close>

definition SZ_PTR :: nat where "SZ_PTR = 8"
definition SZ_IOVEC :: nat where "SZ_IOVEC = 16"
definition SZ_MSGHDR :: nat where "SZ_MSGHDR = 56"

type_synonym cm = "conn \<times> thread_metrics"

definition incr_mem :: "tmetric \<Rightarrow> nat \<Rightarrow> thread_metrics \<Rightarrow> thread_metrics" where
  "incr_mem n d m = stats_thread_incr_by n (int d) m"

definition decr_mem :: "tmetric \<Rightarrow> nat \<Rightarrow> thread_metrics \<Rightarrow> thread_metrics" where
  "decr_mem n d m = stats_thread_decr_by n (int d) m"

section \<open>Building messages\<close>

definition conn_set_state :: "conn_state \<Rightarrow> conn \<Rightarrow> conn" where
  "conn_set_state st c = (if st = c_state c then c else c\<lparr>c_state := st\<rparr>)"

text \<open>After the list was reallocated, the messages are pointed at their parts of it again.\<close>

fun repoint :: "nat \<Rightarrow> msghdr list \<Rightarrow> msghdr list" where
  "repoint iovnum [] = []"
| "repoint iovnum (m # ms) = m\<lparr>msg_iov := iovnum\<rparr> # repoint (iovnum + msg_iovlen m) ms"

definition conn_ensure_iov_space :: "(nat \<Rightarrow> bool) \<Rightarrow> cm \<Rightarrow> rstatus \<times> cm" where
  "conn_ensure_iov_space al cm =
     (let (c, m) = cm in
      if length (c_iov c) \<ge> c_iov_size c then
        (let ok = al (c_nalloc c); c = c\<lparr>c_nalloc := c_nalloc c + 1\<rparr> in
         if \<not> ok then (MC_ENOMEM, c, m)
         else (MC_OK, c\<lparr>c_iov_size := c_iov_size c * 2, c_msg := repoint 0 (c_msg c)\<rparr>,
               incr_mem THREAD_mem_iov_curr (c_iov_size c * SZ_IOVEC) m))
      else (MC_OK, c, m))"

text \<open>The entry that \<^verbatim>\<open>conn_add_iov\<close> adds to the last message.\<close>

definition iov_put :: "ptr \<Rightarrow> nat \<Rightarrow> conn \<Rightarrow> conn" where
  "iov_put buf len c =
     (let k = length (c_msg c) - 1; m = c_msg c ! k in
      c\<lparr>c_iov := c_iov c @ [\<lparr>iov_base = buf, iov_len = len\<rparr>], c_msg_bytes := c_msg_bytes c + len,
        c_msg := (c_msg c)[k := m\<lparr>msg_iovlen := msg_iovlen m + 1\<rparr>]\<rparr>)"

text \<open>
  A message header is followed by room for the header of a datagram. The code obtains it by calling \<^verbatim>\<open>conn_add_iov\<close>, which
  on a fresh message does what is written out here; lemma \<open>conn_add_iov_header\<close> shows it.
\<close>

definition msghdr_slot :: "(nat \<Rightarrow> bool) \<Rightarrow> cm \<Rightarrow> rstatus \<times> cm" where
  "msghdr_slot al cm =
     (let (c, m) = cm;
          grow = (c_msg_size c = length (c_msg c));
          ok = al (c_nalloc c);
          c = (if grow then c\<lparr>c_nalloc := c_nalloc c + 1\<rparr> else c)
      in if grow \<and> \<not> ok then (MC_ENOMEM, c, m)
         else
           (let m = (if grow then incr_mem THREAD_mem_msg_curr (c_msg_size c * SZ_MSGHDR) m else m);
                c = (if grow then c\<lparr>c_msg_size := c_msg_size c * 2\<rparr> else c)
            in (MC_OK, c\<lparr>c_msg := c_msg c @ [\<lparr>msg_iov = length (c_iov c), msg_iovlen = 0\<rparr>], c_msg_bytes := 0\<rparr>, m)))"

definition conn_add_msghdr :: "(nat \<Rightarrow> bool) \<Rightarrow> cm \<Rightarrow> rstatus \<times> cm" where
  "conn_add_msghdr al cm =
     (case msghdr_slot al cm of
        (st, c, m) \<Rightarrow>
          if st \<noteq> MC_OK \<or> \<not> c_udp c then (st, c, m)
          else
            (case conn_ensure_iov_space al (c, m) of
               (st, c, m) \<Rightarrow> if st \<noteq> MC_OK then (st, c, m) else (MC_OK, iov_put (O_null, 0) UDP_HEADER_SIZE c, m)))"

lemma ensure_iov_space_fields:
  "conn_ensure_iov_space al (c, m) = (st, c', m') \<Longrightarrow>
     c_iov c' = c_iov c \<and> c_msg_bytes c' = c_msg_bytes c \<and> c_udp c' = c_udp c \<and> length (c_msg c') = length (c_msg c)"
proof -
  have "length (repoint n ms) = length ms" for n ms by (induction n ms rule: repoint.induct) simp_all
  then show "conn_ensure_iov_space al (c, m) = (st, c', m') \<Longrightarrow> ?thesis"
    by (auto simp: conn_ensure_iov_space_def Let_def split: if_splits)
qed

lemma add_msghdr_bytes: "conn_add_msghdr al (c, m) = (MC_OK, c', m') \<Longrightarrow> c_msg_bytes c' \<le> UDP_HEADER_SIZE"
  by (auto simp: conn_add_msghdr_def msghdr_slot_def Let_def iov_put_def split: if_splits prod.splits
      dest!: ensure_iov_space_fields)

text \<open>One round of the loop of \<^verbatim>\<open>conn_add_iov\<close>; the second result is \<^verbatim>\<open>leftover\<close>.\<close>

definition add_iov_step :: "(nat \<Rightarrow> bool) \<Rightarrow> ptr \<Rightarrow> nat \<Rightarrow> cm \<Rightarrow> rstatus \<times> nat \<times> cm" where
  "add_iov_step al buf len cm =
     (let c = fst cm;
          limit_to_mtu = (c_udp c \<or> length (c_msg c) = 1)
      in case (if msg_iovlen (c_msg c ! (length (c_msg c) - 1)) = IOV_MAX \<or> limit_to_mtu \<and> c_msg_bytes c \<ge> UDP_MAX_PAYLOAD_SIZE
               then conn_add_msghdr al cm else (MC_OK, cm)) of
           (st, cm) \<Rightarrow>
             if st \<noteq> MC_OK then (st, 0, cm)
             else
               (case conn_ensure_iov_space al cm of
                  (st, c, m) \<Rightarrow>
                    if st \<noteq> MC_OK then (st, 0, c, m)
                    else
                      (let leftover = (if limit_to_mtu \<and> len + c_msg_bytes c > UDP_MAX_PAYLOAD_SIZE
                                       then len + c_msg_bytes c - UDP_MAX_PAYLOAD_SIZE else 0)
                       in (MC_OK, leftover, iov_put buf (len - leftover) c, m))))"

lemma add_iov_step_less:
  assumes "add_iov_step al buf len cm = (MC_OK, leftover, cm')" and "leftover \<noteq> 0"
  shows "leftover < len"
proof -
  obtain c m where cm: "cm = (c, m)" by fastforce
  have ens: "c_msg_bytes d = c_msg_bytes c'" if "conn_ensure_iov_space al (c', m1) = (MC_OK, d, m2)" for c' m1 d m2
    using ensure_iov_space_fields [OF that] by simp
  show ?thesis
    using assms add_msghdr_bytes [of al c m]
    by (auto simp: cm add_iov_step_def Let_def UDP_MAX_PAYLOAD_SIZE_def UDP_HEADER_SIZE_def split: if_splits prod.splits
        dest!: ens)
qed

function add_iov_loop :: "(nat \<Rightarrow> bool) \<Rightarrow> ptr \<Rightarrow> nat \<Rightarrow> cm \<Rightarrow> rstatus \<times> cm" where
  "add_iov_loop al buf len cm =
     (case add_iov_step al buf len cm of
        (st, leftover, cm') \<Rightarrow>
          if st = MC_OK \<and> leftover > 0 then add_iov_loop al (fst buf, snd buf + (len - leftover)) leftover cm' else (st, cm'))"
  by pat_completeness auto
termination
  by (relation "measure (\<lambda>(al, buf, len, cm). len)") (auto dest: add_iov_step_less [OF sym])

declare add_iov_loop.simps [simp del]

definition conn_add_iov :: "(nat \<Rightarrow> bool) \<Rightarrow> ptr \<Rightarrow> nat \<Rightarrow> cm \<Rightarrow> rstatus \<times> cm" where
  "conn_add_iov al buf len cm = add_iov_loop al buf len cm"

text \<open>On a fresh message \<^verbatim>\<open>conn_add_iov\<close> for a datagram header takes one round and adds no further message.\<close>

lemma conn_add_iov_header:
  assumes "msghdr_slot al cm = (MC_OK, c, m)"
  shows "conn_add_iov al (O_null, 0) UDP_HEADER_SIZE (c, m) =
    (case conn_ensure_iov_space al (c, m) of
       (st, c, m) \<Rightarrow> if st \<noteq> MC_OK then (st, c, m) else (MC_OK, iov_put (O_null, 0) UDP_HEADER_SIZE c, m))"
proof -
  have f: "msg_iovlen (c_msg c ! (length (c_msg c) - 1)) = 0" "c_msg_bytes c = 0"
    using assms by (auto simp: msghdr_slot_def Let_def split: prod.splits if_splits)
  obtain st c' m' where e: "conn_ensure_iov_space al (c, m) = (st, c', m')" by (metis prod_cases3)
  have "add_iov_step al (O_null, 0) UDP_HEADER_SIZE (c, m) =
      (if st \<noteq> MC_OK then (st, 0, c', m') else (MC_OK, 0, iov_put (O_null, 0) UDP_HEADER_SIZE c', m'))"
    using ensure_iov_space_fields [OF e] f
    by (simp add: add_iov_step_def Let_def e IOV_MAX_def UDP_MAX_PAYLOAD_SIZE_def UDP_HEADER_SIZE_def)
  then show ?thesis by (simp add: conn_add_iov_def add_iov_loop.simps e)
qed

section \<open>Messages as parts of the list\<close>

text \<open>
  \<open>segs\<close> are the parts of the list that the messages stand for. Each message has at most \<open>IOV_MAX\<close> entries, and a datagram and the first
  message of a stream at most \<open>UDP_MAX_PAYLOAD_SIZE\<close> bytes.
\<close>

fun hdrs :: "nat \<Rightarrow> 'a list list \<Rightarrow> msghdr list" where
  "hdrs n [] = []"
| "hdrs n (s # ss) = \<lparr>msg_iov = n, msg_iovlen = length s\<rparr> # hdrs (n + length s) ss"

definition seg_bytes :: "iovec list \<Rightarrow> nat" where
  "seg_bytes s = sum_list (map iov_len s)"

definition segs_ok :: "bool \<Rightarrow> iovec list list \<Rightarrow> bool" where
  "segs_ok udp segs \<longleftrightarrow> segs \<noteq> [] \<and> (\<forall>s \<in> set segs. length s \<le> IOV_MAX)
     \<and> (\<forall>s \<in> set (if udp then segs else [hd segs]). seg_bytes s \<le> UDP_MAX_PAYLOAD_SIZE)"

definition msgs_rel :: "iovec list list \<Rightarrow> conn \<Rightarrow> bool" where
  "msgs_rel segs c \<longleftrightarrow> segs_ok (c_udp c) segs \<and> c_iov c = concat segs \<and> c_msg c = hdrs 0 segs
     \<and> c_msg_bytes c = seg_bytes (last segs) \<and> 0 < c_iov_size c \<and> 0 < c_msg_size c
     \<and> length (c_iov c) \<le> c_iov_size c \<and> length (c_msg c) \<le> c_msg_size c"

lemma length_hdrs [simp]: "length (hdrs n segs) = length segs"
  by (induction n segs rule: hdrs.induct) simp_all

lemma hdrs_append: "hdrs n (a @ b) = hdrs n a @ hdrs (n + length (concat a)) b"
  by (induction n a rule: hdrs.induct) (simp_all add: add.assoc)

lemma repoint_hdrs: "repoint n (hdrs k segs) = hdrs n segs"
  by (induction k segs arbitrary: n rule: hdrs.induct) simp_all

text \<open>The fields that building messages does not touch.\<close>

definition frame_iov :: "conn \<Rightarrow> conn" where
  "frame_iov c = c\<lparr>c_iov := [], c_iov_size := 0, c_msg := [], c_msg_size := 0, c_msg_bytes := 0, c_nalloc := 0\<rparr>"

lemma frame_iov_udp: "frame_iov c' = frame_iov c \<Longrightarrow> c_udp c' = c_udp c"
  by (drule arg_cong [of _ _ c_udp]) (simp add: frame_iov_def)

lemma ensure_iov_space_rel:
  assumes "msgs_rel segs c" and "conn_ensure_iov_space al (c, m) = (st, c', m')"
  shows "msgs_rel segs c' \<and> frame_iov c' = frame_iov c \<and> (st = MC_OK \<longrightarrow> length (c_iov c') < c_iov_size c')"
  using assms by (auto simp: conn_ensure_iov_space_def Let_def msgs_rel_def repoint_hdrs frame_iov_def split: if_splits)

lemma segs_ok_snoc: "segs_ok udp segs \<Longrightarrow> segs_ok udp (segs @ [[]])"
  by (auto simp: segs_ok_def seg_bytes_def)

lemma msghdr_slot_rel:
  assumes "msgs_rel segs c" and "msghdr_slot al (c, m) = (st, c', m')"
  shows "frame_iov c' = frame_iov c \<and> (if st = MC_OK then msgs_rel (segs @ [[]]) c' else msgs_rel segs c')"
  using assms by (auto simp: msghdr_slot_def Let_def msgs_rel_def hdrs_append frame_iov_def segs_ok_snoc seg_bytes_def Suc_le_eq split: if_splits)

lemma hdrs_last: "hdrs n (segs @ [s]) = hdrs n segs @ [\<lparr>msg_iov = n + length (concat segs), msg_iovlen = length s\<rparr>]"
  by (simp add: hdrs_append)

lemma iov_put_rel:
  assumes "msgs_rel (segs @ [s]) c" and "length (c_iov c) < c_iov_size c"
    and "segs_ok (c_udp c) (segs @ [s @ [\<lparr>iov_base = buf, iov_len = len\<rparr>]])"
  shows "msgs_rel (segs @ [s @ [\<lparr>iov_base = buf, iov_len = len\<rparr>]]) (iov_put buf len c)" and "frame_iov (iov_put buf len c) = frame_iov c"
  using assms by (auto simp: msgs_rel_def iov_put_def Let_def hdrs_last seg_bytes_def frame_iov_def nth_append list_update_append)

section \<open>The bytes to send\<close>

text \<open>\<open>rd\<close> reads the memory behind a pointer; the headers of datagrams are not payload.\<close>

definition iov_rd :: "(obj \<Rightarrow> mem) \<Rightarrow> iovec \<Rightarrow> bytes" where
  "iov_rd mm v = (if fst (iov_base v) \<in> {O_null, O_udp} then [] else rd_bytes (mm (fst (iov_base v))) (snd (iov_base v)) (iov_len v))"

definition payload :: "(obj \<Rightarrow> mem) \<Rightarrow> conn \<Rightarrow> bytes" where
  "payload mm c = concat (map (iov_rd mm) (c_iov c))"

lemma add_msghdr_rel:
  assumes "msgs_rel segs c" and "conn_add_msghdr al (c, m) = (st, c', m')"
  shows "frame_iov c' = frame_iov c \<and> payload mm c' = payload mm c \<and>
    (if st = MC_OK then \<exists>s. length s \<le> 1 \<and> msgs_rel (segs @ [s]) c' else \<exists>segs'. msgs_rel segs' c')"
proof -
  obtain st1 c1 m1 where s1: "msghdr_slot al (c, m) = (st1, c1, m1)" by (metis prod_cases3)
  note R1 = msghdr_slot_rel [OF assms(1) s1]
  have p1: "payload mm c1 = payload mm c"
    using s1 by (auto simp: payload_def msghdr_slot_def Let_def split: if_splits)
  show ?thesis
  proof (cases "st1 \<noteq> MC_OK \<or> \<not> c_udp c1")
    case True
    then show ?thesis using assms(2) s1 R1 p1 by (auto simp: conn_add_msghdr_def split: if_splits intro: exI [of _ "[]"])
  next
    case False
    obtain st2 c2 m2 where s2: "conn_ensure_iov_space al (c1, m1) = (st2, c2, m2)" by (metis prod_cases3)
    have r1: "msgs_rel (segs @ [[]]) c1" using R1 False by simp
    note R2 = ensure_iov_space_rel [OF r1 s2]
    have p2: "payload mm c2 = payload mm c1" using ensure_iov_space_fields [OF s2] by (simp add: payload_def)
    have u: "c_udp c2" "c_udp c1" using R2 False frame_iov_udp [of c2 c1] by auto
    let ?v = "\<lparr>iov_base = (O_null, 0), iov_len = UDP_HEADER_SIZE\<rparr>"
    have o: "segs_ok True (segs @ [[] @ [?v]])"
      using r1 u(2) by (auto simp: msgs_rel_def segs_ok_def seg_bytes_def UDP_HEADER_SIZE_def UDP_MAX_PAYLOAD_SIZE_def IOV_MAX_def)
    show ?thesis
    proof (cases "st2 = MC_OK")
      case ok: True
      then have r2: "msgs_rel (segs @ [[]]) c2" "length (c_iov c2) < c_iov_size c2" using R2 by simp_all
      note P = iov_put_rel [OF r2, of "(O_null, 0)" UDP_HEADER_SIZE] 
      have "payload mm (iov_put (O_null, 0) UDP_HEADER_SIZE c2) = payload mm c2"
        by (simp add: payload_def iov_put_def Let_def iov_rd_def)
      then show ?thesis using assms(2) s1 s2 False ok R1 R2 P o u p1 p2
        by (auto simp: conn_add_msghdr_def intro!: exI [of _ "[?v]"])
    next
      case no: False
      then show ?thesis using assms(2) s1 s2 False R1 R2 p1 p2 by (auto simp: conn_add_msghdr_def)
    qed
  qed
qed

text \<open>One round adds a part of the bytes, and only what the last message has room for.\<close>

lemma segs_ok_put:
  assumes "segs_ok udp (segs @ [s])" and "length s < IOV_MAX"
    and "udp \<or> segs = [] \<Longrightarrow> seg_bytes s + len \<le> UDP_MAX_PAYLOAD_SIZE"
  shows "segs_ok udp (segs @ [s @ [\<lparr>iov_base = buf, iov_len = len\<rparr>]])"
  using assms by (cases segs) (auto simp: segs_ok_def seg_bytes_def)

text \<open>The message to which a round adds, after a full one was closed.\<close>

lemma add_iov_room:
  assumes rel: "msgs_rel segs c"
    and r: "(if msg_iovlen (c_msg c ! (length (c_msg c) - 1)) = IOV_MAX \<or> (c_udp c \<or> length (c_msg c) = 1) \<and> c_msg_bytes c \<ge> UDP_MAX_PAYLOAD_SIZE
         then conn_add_msghdr al (c, m) else (MC_OK, c, m)) = (st, c', m')"
  shows "frame_iov c' = frame_iov c \<and> payload mm c' = payload mm c \<and> (\<exists>segs'. msgs_rel segs' c') \<and>
    (st = MC_OK \<longrightarrow> (\<exists>ss s. msgs_rel (ss @ [s]) c' \<and> length s < IOV_MAX \<and> (ss = [] \<longrightarrow> length (c_msg c) = 1)
       \<and> ((c_udp c \<or> length (c_msg c) = 1) \<longrightarrow> seg_bytes s < UDP_MAX_PAYLOAD_SIZE)))"
proof (cases "msg_iovlen (c_msg c ! (length (c_msg c) - 1)) = IOV_MAX \<or> (c_udp c \<or> length (c_msg c) = 1) \<and> c_msg_bytes c \<ge> UDP_MAX_PAYLOAD_SIZE")
  case True
  then have a: "conn_add_msghdr al (c, m) = (st, c', m')" using r by simp
  note A = add_msghdr_rel [OF rel a, of mm]
  have ne: "segs \<noteq> []" using rel by (simp add: msgs_rel_def segs_ok_def)
  show ?thesis
  proof (cases "st = MC_OK")
    case ok: True
    then obtain s where s: "length s \<le> 1" "msgs_rel (segs @ [s]) c'" using A by auto
    have "seg_bytes s < UDP_MAX_PAYLOAD_SIZE"
      using s(2) add_msghdr_bytes [OF a [unfolded ok]] by (simp add: msgs_rel_def UDP_MAX_PAYLOAD_SIZE_def UDP_HEADER_SIZE_def)
    moreover have "length s < IOV_MAX" using s(1) by (simp add: IOV_MAX_def)
    ultimately show ?thesis using A s(2) ne by blast
  qed (use A in auto)
next
  case False
  obtain ss s where s: "segs = ss @ [s]" using rel by (cases segs rule: rev_cases) (auto simp: msgs_rel_def segs_ok_def)
  have "msg_iovlen (c_msg c ! (length (c_msg c) - 1)) = length s" "length s \<le> IOV_MAX" "c_msg_bytes c = seg_bytes s"
    using rel s by (auto simp: msgs_rel_def hdrs_last nth_append segs_ok_def)
  moreover have "length (c_msg c) = length ss + 1" using rel s by (simp add: msgs_rel_def)
  ultimately have "length s < IOV_MAX" "ss = [] \<longrightarrow> length (c_msg c) = 1"
    "c_udp c \<or> length (c_msg c) = 1 \<longrightarrow> seg_bytes s < UDP_MAX_PAYLOAD_SIZE" using False by auto
  then show ?thesis using False r rel s by (metis prod.inject)
qed

lemma add_iov_step_rel:
  assumes rel: "msgs_rel segs c" and r: "add_iov_step al buf len (c, m) = (st, lo, c', m')" and p: "fst buf \<notin> {O_null, O_udp}"
  shows "frame_iov c' = frame_iov c \<and> (\<exists>segs'. msgs_rel segs' c') \<and>
    payload mm c' = payload mm c @ (if st = MC_OK then rd_bytes (mm (fst buf)) (snd buf) (len - lo) else []) \<and> lo \<le> len"
proof -
  obtain st1 c1 m1 where s1: "(if msg_iovlen (c_msg c ! (length (c_msg c) - 1)) = IOV_MAX \<or> (c_udp c \<or> length (c_msg c) = 1) \<and> c_msg_bytes c \<ge> UDP_MAX_PAYLOAD_SIZE
         then conn_add_msghdr al (c, m) else (MC_OK, c, m)) = (st1, c1, m1)" by (metis prod_cases3)
  note R1 = add_iov_room [OF rel s1, of mm]
  show ?thesis
  proof (cases "st1 = MC_OK")
    case False
    then show ?thesis using r s1 R1 by (auto simp: add_iov_step_def Let_def)
  next
    case ok1: True
    then obtain ss s where S: "msgs_rel (ss @ [s]) c1" "length s < IOV_MAX" "ss = [] \<longrightarrow> length (c_msg c) = 1"
      "c_udp c \<or> length (c_msg c) = 1 \<longrightarrow> seg_bytes s < UDP_MAX_PAYLOAD_SIZE" using R1 by blast
    obtain st2 c2 m2 where s2: "conn_ensure_iov_space al (c1, m1) = (st2, c2, m2)" by (metis prod_cases3)
    note R2 = ensure_iov_space_rel [OF S(1) s2]
    have p2: "payload mm c2 = payload mm c1" using ensure_iov_space_fields [OF s2] by (simp add: payload_def)
    show ?thesis
    proof (cases "st2 = MC_OK")
      case False
      then show ?thesis using r s1 s2 ok1 R1 R2 p2 by (auto simp: add_iov_step_def Let_def)
    next
      case ok2: True
      have u: "c_udp c2 = c_udp c" using R1 R2 frame_iov_udp by metis
      have b: "c_msg_bytes c2 = seg_bytes s" using R2 by (simp add: msgs_rel_def)
      have lo: "lo = (if (c_udp c \<or> length (c_msg c) = 1) \<and> len + seg_bytes s > UDP_MAX_PAYLOAD_SIZE
          then len + seg_bytes s - UDP_MAX_PAYLOAD_SIZE else 0)" and c': "c' = iov_put buf (len - lo) c2" and st: "st = MC_OK"
        using r s1 s2 ok1 ok2 b by (auto simp: add_iov_step_def Let_def split: if_splits)
      have o: "segs_ok (c_udp c2) (ss @ [s @ [\<lparr>iov_base = buf, iov_len = len - lo\<rparr>]])"
        by (rule segs_ok_put) (use R2 S u lo in \<open>auto simp: msgs_rel_def\<close>)
      have r2: "msgs_rel (ss @ [s]) c2" "length (c_iov c2) < c_iov_size c2" using R2 ok2 by simp_all
      have "payload mm c' = payload mm c2 @ rd_bytes (mm (fst buf)) (snd buf) (len - lo)"
        using p by (simp add: c' payload_def iov_put_def Let_def iov_rd_def)
      moreover have "lo \<le> len" using lo S(4) by auto
      ultimately show ?thesis using iov_put_rel [OF r2 o] R1 R2 p2 c' st by auto
    qed
  qed
qed

text \<open>
  Adding to the pending data appends exactly these bytes, in as many messages as the limits ask for; when memory runs out a prefix of
  them is added.
\<close>

lemma add_iov_loop_rel:
  assumes "msgs_rel segs c" and "add_iov_loop al buf len (c, m) = (st, c', m')" and "fst buf \<notin> {O_null, O_udp}"
  shows "frame_iov c' = frame_iov c \<and> (\<exists>segs'. msgs_rel segs' c') \<and>
    (\<exists>n \<le> len. payload mm c' = payload mm c @ rd_bytes (mm (fst buf)) (snd buf) n \<and> (st = MC_OK \<longrightarrow> n = len))"
  using assms
proof (induction al buf len "(c, m)" arbitrary: c m segs rule: add_iov_loop.induct)
  case (1 al buf len c m)
  obtain st1 lo c1 m1 where s1: "add_iov_step al buf len (c, m) = (st1, lo, c1, m1)" by (metis prod_cases4)
  note R1 = add_iov_step_rel [OF "1.prems"(1) s1 "1.prems"(3), of mm]
  show ?case
  proof (cases "st1 = MC_OK \<and> lo > 0")
    case False
    then have e: "st = st1" "c' = c1" using "1.prems"(2) s1 by (auto simp: add_iov_loop.simps [of al buf])
    show ?thesis
    proof (cases "st1 = MC_OK")
      case True
      then show ?thesis using e R1 False by auto
    next
      case no: False
      then have "payload mm c' = payload mm c @ rd_bytes (mm (fst buf)) (snd buf) 0" using e R1 by simp
      then show ?thesis using e R1 no by blast
    qed
  next
    case True
    let ?buf = "(fst buf, snd buf + (len - lo))"
    have l: "add_iov_loop al ?buf lo (c1, m1) = (st, c', m')"
      using "1.prems"(2) s1 True by (simp add: add_iov_loop.simps [of al buf])
    obtain segs1 where S1: "msgs_rel segs1 c1" using R1 by blast
    have IH: "frame_iov c' = frame_iov c1 \<and> (\<exists>segs'. msgs_rel segs' c') \<and>
       (\<exists>n \<le> lo. payload mm c' = payload mm c1 @ rd_bytes (mm (fst ?buf)) (snd ?buf) n \<and> (st = MC_OK \<longrightarrow> n = lo))"
      by (rule "1.hyps" [OF s1 [symmetric] refl True S1 l]) (use "1.prems"(3) in simp)
    then obtain n where n: "n \<le> lo" "payload mm c' = payload mm c1 @ rd_bytes (mm (fst buf)) (snd buf + (len - lo)) n"
      "st = MC_OK \<longrightarrow> n = lo" by auto
    have "payload mm c' = payload mm c @ rd_bytes (mm (fst buf)) (snd buf) (len - lo + n)"
      unfolding rd_bytes_append n(2) using R1 True by simp
    moreover have "len - lo + n \<le> len" "st = MC_OK \<longrightarrow> len - lo + n = len" using n R1 by auto
    ultimately show ?thesis using IH R1 by auto
  qed
qed

lemma conn_add_iov_rel:
  assumes "msgs_rel segs c" and "conn_add_iov al buf len (c, m) = (st, c', m')" and "fst buf \<notin> {O_null, O_udp}"
  shows "frame_iov c' = frame_iov c \<and> (\<exists>segs'. msgs_rel segs' c') \<and>
    (\<exists>n \<le> len. payload mm c' = payload mm c @ rd_bytes (mm (fst buf)) (snd buf) n \<and> (st = MC_OK \<longrightarrow> n = len))"
  by (rule add_iov_loop_rel [OF assms(1) _ assms(3)]) (use assms(2) in \<open>simp add: conn_add_iov_def\<close>)

section \<open>Headers of datagrams\<close>

text \<open>A byte stored in an \<^verbatim>\<open>unsigned char\<close> is taken modulo 256. Memory that is not written yet reads as 0; nothing reads it.\<close>

definition udp_hdr :: "nat \<Rightarrow> nat \<Rightarrow> nat \<Rightarrow> bytes" where
  "udp_hdr rid i n = map char_of [rid div 256, rid mod 256, i div 256, i mod 256, n div 256, n mod 256, 0, 0]"

fun point_headers :: "nat \<Rightarrow> msghdr list \<Rightarrow> iovec list \<Rightarrow> iovec list" where
  "point_headers i [] iov = iov"
| "point_headers i (m # ms) iov =
     point_headers (i + 1) ms (iov[msg_iov m := \<lparr>iov_base = (O_udp, i * UDP_HEADER_SIZE), iov_len = UDP_HEADER_SIZE\<rparr>])"

definition conn_build_udp_headers :: "(nat \<Rightarrow> bool) \<Rightarrow> conn \<Rightarrow> rstatus \<times> conn" where
  "conn_build_udp_headers al c =
     (let n = length (c_msg c); grow = (n > c_udp_hsize c); ok = al (c_nalloc c);
          c = (if grow then c\<lparr>c_nalloc := c_nalloc c + 1\<rparr> else c)
      in if grow \<and> \<not> ok then (MC_ENOMEM, c)
         else
           (let c = (if grow then c\<lparr>c_udp_hbuf := c_udp_hbuf c @ replicate (n * 2 * UDP_HEADER_SIZE - length (c_udp_hbuf c)) (CHR 0x00),
                                  c_udp_hsize := n * 2\<rparr> else c)
            in (MC_OK, c\<lparr>c_iov := point_headers 0 (c_msg c) (c_iov c),
                          c_udp_hbuf := concat (map (\<lambda>i. udp_hdr (c_udp_rid c) i n) [0..<n])
                                        @ drop (n * UDP_HEADER_SIZE) (c_udp_hbuf c)\<rparr>)))"

lemma length_udp_hdr [simp]: "length (udp_hdr rid i n) = UDP_HEADER_SIZE"
  by (simp add: udp_hdr_def UDP_HEADER_SIZE_def)

lemma nth_chunk:
  assumes "i < n" and "\<And>j. length (f j) = k"
  shows "take k (drop (i * k) (concat (map f [0..<n]) @ rest)) = f i"
proof -
  have l: "length (concat (map f [0..<m])) = m * k" for m using assms(2) by (induction m) simp_all
  have "concat (map f [0..<n]) = concat (map f [0..<i]) @ f i @ concat (map f [Suc i..<n])"
    using upt_add_eq_append [of 0 i "n - i"] upt_conv_Cons [OF assms(1)] assms(1) by simp
  then show ?thesis using l [of i] assms(2) [of i] by simp
qed

text \<open>Datagram \<open>i\<close> of \<open>n\<close> carries the request id, its number and the number of datagrams.\<close>

lemma udp_headers_built:
  assumes "conn_build_udp_headers al c = (MC_OK, c')" and "i < length (c_msg c)"
  shows "take UDP_HEADER_SIZE (drop (i * UDP_HEADER_SIZE) (c_udp_hbuf c')) = udp_hdr (c_udp_rid c) i (length (c_msg c))"
proof -
  obtain rest where "c_udp_hbuf c' = concat (map (\<lambda>i. udp_hdr (c_udp_rid c) i (length (c_msg c))) [0..<length (c_msg c)]) @ rest"
    using assms(1) by (auto simp: conn_build_udp_headers_def Let_def split: if_splits)
  then show ?thesis
    using nth_chunk [OF assms(2), of "\<lambda>i. udp_hdr (c_udp_rid c) i (length (c_msg c))" UDP_HEADER_SIZE rest] by (simp only: length_udp_hdr)
qed

text \<open>The parts of the list once the first entry of each is the header of its datagram.\<close>

fun headed :: "nat \<Rightarrow> iovec list list \<Rightarrow> iovec list list" where
  "headed i [] = []"
| "headed i (s # ss) = (\<lparr>iov_base = (O_udp, i * UDP_HEADER_SIZE), iov_len = UDP_HEADER_SIZE\<rparr> # tl s) # headed (i + 1) ss"

lemma length_headed [simp]: "length (headed i segs) = length segs"
  by (induction i segs rule: headed.induct) simp_all

lemma nth_headed: "j < length segs \<Longrightarrow>
  headed i segs ! j = \<lparr>iov_base = (O_udp, (i + j) * UDP_HEADER_SIZE), iov_len = UDP_HEADER_SIZE\<rparr> # tl (segs ! j)"
  by (induction i segs arbitrary: j rule: headed.induct) (auto simp: nth_Cons split: nat.split)

lemma point_headers_segs:
  "\<forall>s \<in> set segs. s \<noteq> [] \<Longrightarrow> length pre = n \<Longrightarrow> point_headers i (hdrs n segs) (pre @ concat segs) = pre @ concat (headed i segs)"
proof (induction i segs arbitrary: pre n rule: headed.induct)
  case (2 i s ss)
  then obtain v vs where s: "s = v # vs" by (cases s) auto
  let ?h = "\<lparr>iov_base = (O_udp, i * UDP_HEADER_SIZE), iov_len = UDP_HEADER_SIZE\<rparr>"
  have "point_headers (i + 1) (hdrs (n + length s) ss) ((pre @ ?h # vs) @ concat ss) = (pre @ ?h # vs) @ concat (headed (i + 1) ss)"
    using "2.prems" s by (intro "2.IH") auto
  then show ?case using s "2.prems"(2) by (simp add: list_update_append)
qed simp

lemma hdrs_slice: "i < length segs \<Longrightarrow> length pre = n \<Longrightarrow>
  take (msg_iovlen (hdrs n segs ! i)) (drop (msg_iov (hdrs n segs ! i)) (pre @ concat segs)) = segs ! i"
proof (induction n segs arbitrary: i pre rule: hdrs.induct)
  case (2 n s ss)
  then show ?case using "2.IH" [of "i - 1" "pre @ s"] by (cases i) simp_all
qed simp

lemma hdrs_headed: "\<forall>s \<in> set segs. s \<noteq> [] \<Longrightarrow> hdrs n (headed i segs) = hdrs n segs"
  by (induction i segs arbitrary: n rule: headed.induct) (auto simp: Suc_le_eq)

lemma udp_datagrams:
  assumes rel: "msgs_rel segs c" and ne: "\<forall>s \<in> set segs. s \<noteq> []" and b: "conn_build_udp_headers al c = (MC_OK, c')"
    and i: "i < length (c_msg c)"
  shows "c_msg c' = c_msg c \<and> take (msg_iovlen (c_msg c ! i)) (drop (msg_iov (c_msg c ! i)) (c_iov c'))
    = \<lparr>iov_base = (O_udp, i * UDP_HEADER_SIZE), iov_len = UDP_HEADER_SIZE\<rparr> # tl (segs ! i)"
proof -
  have r: "c_iov c = concat segs" "c_msg c = hdrs 0 segs" using rel by (simp_all add: msgs_rel_def)
  have c': "c_msg c' = c_msg c" "c_iov c' = point_headers 0 (c_msg c) (c_iov c)"
    using b by (auto simp: conn_build_udp_headers_def Let_def split: if_splits)
  have "c_iov c' = concat (headed 0 segs)" using point_headers_segs [OF ne, of "[]" 0 0] c' r by simp
  moreover have "hdrs 0 segs = hdrs 0 (headed 0 segs)" using hdrs_headed [OF ne] by simp
  ultimately show ?thesis using hdrs_slice [of i "headed 0 segs" "[]" 0] nth_headed [of i segs 0] i r c' by simp
qed

section \<open>Getting, freeing and shrinking a connection\<close>

text \<open>
  Which buffers of a new connection could be allocated. \<open>csize\<close> is the size of \<^verbatim>\<open>struct conn\<close>, which depends on libevent.
\<close>

record conn_bufs =
  has_rbuf :: bool
  has_wbuf :: bool
  has_ilist :: bool
  has_slist :: bool
  has_iov :: bool
  has_msg :: bool

definition conn_free :: "nat \<Rightarrow> conn_bufs \<Rightarrow> cm \<Rightarrow> thread_metrics" where
  "conn_free csize b cm =
     (let (c, m) = cm;
          m = (if has_msg b then decr_mem THREAD_mem_msg_curr (SZ_MSGHDR * c_msg_size c) m else m);
          m = (if has_rbuf b then decr_mem THREAD_mem_rbuf_curr (c_rsize c) m else m);
          m = (if has_wbuf b then decr_mem THREAD_mem_wbuf_curr (c_wsize c) m else m);
          m = (if has_ilist b then decr_mem THREAD_mem_ilist_curr (SZ_PTR * c_isize c) m else m);
          m = (if has_slist b then decr_mem THREAD_mem_slist_curr (SZ_PTR * c_ssize c) m else m);
          m = (if has_iov b then decr_mem THREAD_mem_iov_curr (SZ_IOVEC * c_iov_size c) m else m)
      in decr_mem THREAD_mem_conn_curr csize m)"

definition all_bufs :: conn_bufs where
  "all_bufs = \<lparr>has_rbuf = True, has_wbuf = True, has_ilist = True, has_slist = True, has_iov = True, has_msg = True\<rparr>"

text \<open>The free queue of connections is disabled in the code, so \<^verbatim>\<open>conn_put\<close> frees and \<^verbatim>\<open>conn_get\<close> allocates.\<close>

definition conn_put :: "nat \<Rightarrow> cm \<Rightarrow> thread_metrics" where
  "conn_put csize = conn_free csize all_bufs"

definition new_conn :: "conn_state \<Rightarrow> nat \<Rightarrow> bool \<Rightarrow> bytes \<Rightarrow> bytes \<Rightarrow> conn" where
  "new_conn st rsize udp rbuf wbuf =
     \<lparr>c_state = st, c_rbuf = rbuf, c_rsize = rsize, c_rcurr = 0, c_rbytes = 0,
      c_wbuf = wbuf, c_wsize = TCP_BUFFER_SIZE, c_wcurr = (O_wbuf, 0), c_wbytes = 0,
      c_write_and_go = st, c_write_and_free = None, c_ritem = 0, c_rlbytes = 0, c_item = None, c_sbytes = 0,
      c_iov = [], c_iov_size = IOV_SIZE, c_msg = [], c_msg_size = MSG_SIZE, c_msg_curr = 0, c_msg_bytes = 0,
      c_ilist = replicate ILIST_SIZE 0, c_isize = ILIST_SIZE, c_icurr = 0, c_ileft = 0,
      c_slist = replicate SLIST_SIZE 0, c_ssize = SLIST_SIZE, c_scurr = 0, c_sleft = 0,
      c_stats_buffer = None, c_stats_size = 0, c_stats_offset = 0,
      c_req_type = REQ_UNKNOWN, c_req = [], c_peer = [], c_udp_rid = 0, c_udp_hbuf = [], c_udp_hsize = 0,
      c_noreply = False, c_udp = udp, c_nalloc = 0\<rparr>"

definition conn_get :: "nat \<Rightarrow> bool \<Rightarrow> conn_bufs \<Rightarrow> conn_state \<Rightarrow> nat \<Rightarrow> bool \<Rightarrow> bytes \<Rightarrow> bytes \<Rightarrow> thread_metrics
    \<Rightarrow> conn option \<times> thread_metrics" where
  "conn_get csize ok b st rsize udp rbuf wbuf m =
     (if \<not> ok then (None, m)
      else
        (let c = new_conn st rsize udp rbuf wbuf in
         if b \<noteq> all_bufs then (None, conn_free csize b (c, m))
         else
           (let m = incr_mem THREAD_mem_conn_curr csize m;
                m = incr_mem THREAD_mem_rbuf_curr (c_rsize c) m;
                m = incr_mem THREAD_mem_wbuf_curr (c_wsize c) m;
                m = incr_mem THREAD_mem_ilist_curr (SZ_PTR * c_isize c) m;
                m = incr_mem THREAD_mem_slist_curr (SZ_PTR * c_ssize c) m;
                m = incr_mem THREAD_mem_iov_curr (SZ_IOVEC * c_iov_size c) m;
                m = incr_mem THREAD_mem_msg_curr (SZ_MSGHDR * c_msg_size c) m;
                m = stats_thread_incr_by THREAD_conn_struct 1 m;
                m = stats_thread_incr_by THREAD_conn_total 1 m
            in (Some c, stats_thread_incr_by THREAD_conn_curr 1 m))))"

text \<open>Each of the four parts of \<^verbatim>\<open>conn_shrink\<close> tries one reallocation.\<close>

definition shrink_rbuf :: "(nat \<Rightarrow> bool) \<Rightarrow> cm \<Rightarrow> cm" where
  "shrink_rbuf al cm =
     (let (c, m) = cm in
      if c_rsize c > RSIZE_HIGHWAT \<and> c_rbytes c < TCP_BUFFER_SIZE then
        (let c = (if c_rcurr c \<noteq> 0
                  then c\<lparr>c_rbuf := take (c_rbytes c) (drop (c_rcurr c) (c_rbuf c)) @ drop (c_rbytes c) (c_rbuf c)\<rparr> else c);
             m = decr_mem THREAD_mem_rbuf_curr (c_rsize c) m;
             ok = al (c_nalloc c); c = c\<lparr>c_nalloc := c_nalloc c + 1\<rparr>;
             c = (if ok then c\<lparr>c_rbuf := take TCP_BUFFER_SIZE (c_rbuf c), c_rsize := TCP_BUFFER_SIZE\<rparr> else c);
             m = incr_mem THREAD_mem_rbuf_curr (c_rsize c) m
         in (c\<lparr>c_rcurr := 0\<rparr>, m))
      else (c, m))"

definition shrink_ilist :: "(nat \<Rightarrow> bool) \<Rightarrow> cm \<Rightarrow> cm" where
  "shrink_ilist al cm =
     (let (c, m) = cm in
      if c_isize c > ILIST_HIGHWAT then
        (let m = decr_mem THREAD_mem_ilist_curr (SZ_PTR * c_isize c) m;
             ok = al (c_nalloc c); c = c\<lparr>c_nalloc := c_nalloc c + 1\<rparr>;
             c = (if ok then c\<lparr>c_ilist := take ILIST_SIZE (c_ilist c), c_isize := ILIST_SIZE\<rparr> else c)
         in (c, incr_mem THREAD_mem_ilist_curr (SZ_PTR * c_isize c) m))
      else (c, m))"

definition shrink_msg :: "(nat \<Rightarrow> bool) \<Rightarrow> cm \<Rightarrow> cm" where
  "shrink_msg al cm =
     (let (c, m) = cm in
      if c_msg_size c > MSG_HIGHWAT then
        (let m = decr_mem THREAD_mem_msg_curr (SZ_MSGHDR * c_msg_size c) m;
             ok = al (c_nalloc c); c = c\<lparr>c_nalloc := c_nalloc c + 1\<rparr>;
             c = (if ok then c\<lparr>c_msg := take MSG_SIZE (c_msg c), c_msg_size := MSG_SIZE\<rparr> else c)
         in (c, incr_mem THREAD_mem_msg_curr (SZ_MSGHDR * c_msg_size c) m))
      else (c, m))"

definition shrink_iov :: "(nat \<Rightarrow> bool) \<Rightarrow> cm \<Rightarrow> cm" where
  "shrink_iov al cm =
     (let (c, m) = cm in
      if c_iov_size c > IOV_HIGHWAT then
        (let m = decr_mem THREAD_mem_iov_curr (SZ_IOVEC * c_iov_size c) m;
             ok = al (c_nalloc c); c = c\<lparr>c_nalloc := c_nalloc c + 1\<rparr>;
             c = (if ok then c\<lparr>c_iov := take IOV_SIZE (c_iov c), c_iov_size := IOV_SIZE\<rparr> else c)
         in (c, incr_mem THREAD_mem_iov_curr (IOV_SIZE * SZ_IOVEC) m))
      else (c, m))"

definition conn_shrink :: "(nat \<Rightarrow> bool) \<Rightarrow> cm \<Rightarrow> cm" where
  "conn_shrink al cm =
     (if c_udp (fst cm) then cm else shrink_iov al (shrink_msg al (shrink_ilist al (shrink_rbuf al cm))))"

text \<open>The bytes read but not parsed yet, which shrinking keeps.\<close>

definition unread :: "conn \<Rightarrow> bytes" where
  "unread c = take (c_rbytes c) (drop (c_rcurr c) (c_rbuf c))"

lemma shrink_rest_fields:
  "c_rbuf (fst (shrink_ilist al cm)) = c_rbuf (fst cm)" "c_rcurr (fst (shrink_ilist al cm)) = c_rcurr (fst cm)"
  "c_rbytes (fst (shrink_ilist al cm)) = c_rbytes (fst cm)"
  "c_rbuf (fst (shrink_msg al cm)) = c_rbuf (fst cm)" "c_rcurr (fst (shrink_msg al cm)) = c_rcurr (fst cm)"
  "c_rbytes (fst (shrink_msg al cm)) = c_rbytes (fst cm)"
  "c_rbuf (fst (shrink_iov al cm)) = c_rbuf (fst cm)" "c_rcurr (fst (shrink_iov al cm)) = c_rcurr (fst cm)"
  "c_rbytes (fst (shrink_iov al cm)) = c_rbytes (fst cm)"
  by (cases cm; simp add: shrink_ilist_def shrink_msg_def shrink_iov_def Let_def)+

lemma conn_shrink_unread:
  assumes "c_rcurr c + c_rbytes c \<le> length (c_rbuf c)"
  shows "unread (fst (conn_shrink al (c, m))) = unread c" and "c_rbytes (fst (conn_shrink al (c, m))) = c_rbytes c"
proof -
  have "unread (fst (shrink_rbuf al (c, m))) = unread c \<and> c_rbytes (fst (shrink_rbuf al (c, m))) = c_rbytes c"
    using assms by (auto simp: shrink_rbuf_def unread_def Let_def min_def)
  then show "unread (fst (conn_shrink al (c, m))) = unread c" "c_rbytes (fst (conn_shrink al (c, m))) = c_rbytes c"
    by (auto simp: conn_shrink_def unread_def shrink_rest_fields)
qed

end
