(* ===== verification/McAggr.thy ===== *)
theory McAggr
  imports McState
begin

text \<open>
  The tables of metrics of \<^verbatim>\<open>mc_stats.h\<close> and the aggregation of the metrics of all threads, \<^verbatim>\<open>_stats_aggregate\<close> of \<^verbatim>\<open>mc_stats.c\<close>.
  The locks and the semaphore that keep updates and queries out are not modelled: an aggregation is one step.
\<close>

section \<open>The tables of metrics\<close>

text \<open>The macros \<^verbatim>\<open>STATS_THREAD_METRICS\<close> and \<^verbatim>\<open>STATS_SLAB_METRICS\<close>: every metric with its template and its name, in order.\<close>

definition STATS_THREAD_METRICS :: "(tmetric \<times> stats_metric \<times> bytes) list" where
  "STATS_THREAD_METRICS =
   [(THREAD_conn_disabled, Counter 0, ''conn_disabled''), (THREAD_conn_total, Counter 0, ''conn_total''),
    (THREAD_conn_struct, Counter 0, ''conn_struct''), (THREAD_conn_yield, Counter 0, ''conn_yield''), (THREAD_conn_curr, Gauge 0 0, ''conn_curr''),
    (THREAD_data_read, Counter 0, ''data_read''), (THREAD_data_written, Counter 0, ''data_written''), (THREAD_add, Counter 0, ''add''),
    (THREAD_add_exist, Counter 0, ''add_exist''), (THREAD_set, Counter 0, ''set''), (THREAD_replace, Counter 0, ''replace''),
    (THREAD_replace_miss, Counter 0, ''replace_miss''), (THREAD_append, Counter 0, ''append''), (THREAD_append_miss, Counter 0, ''append_miss''),
    (THREAD_prepend, Counter 0, ''prepend''), (THREAD_prepend_miss, Counter 0, ''prepend_miss''), (THREAD_appendrl, Counter 0, ''appendrl''),
    (THREAD_appendrl_miss, Counter 0, ''appendrl_miss''), (THREAD_prependrl, Counter 0, ''prependrl''),
    (THREAD_prependrl_miss, Counter 0, ''prependrl_miss''), (THREAD_delete, Counter 0, ''delete''), (THREAD_delete_hit, Counter 0, ''delete_hit''),
    (THREAD_delete_miss, Counter 0, ''delete_miss''), (THREAD_incr, Counter 0, ''incr''), (THREAD_incr_miss, Counter 0, ''incr_miss''),
    (THREAD_incr_success, Counter 0, ''incr_success''), (THREAD_decr, Counter 0, ''decr''), (THREAD_decr_miss, Counter 0, ''decr_miss''),
    (THREAD_decr_success, Counter 0, ''decr_success''), (THREAD_cas, Counter 0, ''cas''), (THREAD_cas_miss, Counter 0, ''cas_miss''),
    (THREAD_cas_badval, Counter 0, ''cas_badval''), (THREAD_get, Counter 0, ''get''), (THREAD_get_key, Counter 0, ''get_key''),
    (THREAD_get_key_miss, Counter 0, ''get_key_miss''), (THREAD_gets, Counter 0, ''gets''), (THREAD_gets_key, Counter 0, ''gets_key''),
    (THREAD_gets_key_miss, Counter 0, ''gets_key_miss''), (THREAD_cmd_total, Counter 0, ''cmd_total''), (THREAD_cmd_error, Counter 0, ''cmd_error''),
    (THREAD_server_error, Counter 0, ''server_error''), (THREAD_klog_logged, Counter 0, ''klog_logged''),
    (THREAD_klog_discarded, Counter 0, ''klog_discarded''), (THREAD_klog_skipped, Counter 0, ''klog_skipped''),
    (THREAD_hotkey_sampled, Counter 0, ''hotkey_sampled''), (THREAD_hotkey_qps, Counter 0, ''hotkey_qps''),
    (THREAD_hotkey_bw, Counter 0, ''hotkey_bw''), (THREAD_accept_eagain, Counter 0, ''accept_eagain''),
    (THREAD_accept_eintr, Counter 0, ''accept_eintr''), (THREAD_accept_emfile, Counter 0, ''accept_emfile''),
    (THREAD_accept_error, Counter 0, ''accept_error''), (THREAD_read_eagain, Counter 0, ''read_eagain''),
    (THREAD_read_error, Counter 0, ''read_error''), (THREAD_write_eagain, Counter 0, ''write_eagain''),
    (THREAD_write_error, Counter 0, ''write_error''), (THREAD_mem_conn_curr, Gauge 0 0, ''mem_conn_curr''),
    (THREAD_mem_rbuf_curr, Gauge 0 0, ''mem_rbuf_curr''), (THREAD_mem_wbuf_curr, Gauge 0 0, ''mem_wbuf_curr''),
    (THREAD_mem_ilist_curr, Gauge 0 0, ''mem_ilist_curr''), (THREAD_mem_slist_curr, Gauge 0 0, ''mem_slist_curr''),
    (THREAD_mem_iov_curr, Gauge 0 0, ''mem_iov_curr''), (THREAD_mem_msg_curr, Gauge 0 0, ''mem_msg_curr''),
    (THREAD_mem_cache_curr, Gauge 0 0, ''mem_cache_curr'')]"

definition STATS_SLAB_METRICS :: "(smetric \<times> stats_metric \<times> bytes) list" where
  "STATS_SLAB_METRICS =
   [(data_curr, Gauge 0 0, ''data_curr''), (data_value_curr, Gauge 0 0, ''data_value_curr''), (item_curr, Gauge 0 0, ''item_curr''),
    (item_acquire, Counter 0, ''item_acquire''), (item_remove, Counter 0, ''item_remove''), (item_link, Counter 0, ''item_link''),
    (item_unlink, Counter 0, ''item_unlink''), (item_expire, Counter 0, ''item_expire''), (item_evict, Counter 0, ''item_evict''),
    (item_free, Gauge 0 0, ''item_free''), (slab_req, Counter 0, ''slab_req''), (slab_error, Counter 0, ''slab_error''),
    (slab_alloc, Counter 0, ''slab_alloc''), (slab_curr, Gauge 0 0, ''slab_curr''), (slab_evict, Counter 0, ''slab_evict''),
    (set_success, Counter 0, ''set_success''), (add_success, Counter 0, ''add_success''), (replace_success, Counter 0, ''replace_success''),
    (append_hit, Counter 0, ''append_hit''), (append_success, Counter 0, ''append_success''), (prepend_hit, Counter 0, ''prepend_hit''),
    (prepend_success, Counter 0, ''prepend_success''), (appendrl_hit, Counter 0, ''appendrl_hit''),
    (appendrl_success, Counter 0, ''appendrl_success''), (prependrl_hit, Counter 0, ''prependrl_hit''),
    (prependrl_success, Counter 0, ''prependrl_success''), (cas_success, Counter 0, ''cas_success''), (get_key_hit, Counter 0, ''get_key_hit''),
    (gets_key_hit, Counter 0, ''gets_key_hit'')]"

definition stats_tmetrics :: thread_metrics where
  "stats_tmetrics m = fst (the (map_of STATS_THREAD_METRICS m))"

definition stats_smetrics :: "smetric \<Rightarrow> stats_metric" where
  "stats_smetrics m = fst (the (map_of STATS_SLAB_METRICS m))"

section \<open>The aggregator\<close>

record stats_slab_const =
  sk_chunk_size :: nat
  sk_items_perslab :: nat

text \<open>\<open>ag_tmax\<close> is the table \<^verbatim>\<open>stats_tmax\<close> of the largest values seen.\<close>

record aggregator =
  ag_ts :: "int \<times> int"
  ag_thread :: thread_metrics
  ag_slabs :: slab_metrics
  ag_const :: "nat \<Rightarrow> stats_slab_const"
  ag_tmax :: thread_metrics

definition stats_slab_getstatic :: "cache \<Rightarrow> (nat \<Rightarrow> stats_slab_const) \<Rightarrow> (nat \<Rightarrow> stats_slab_const)" where
  "stats_slab_getstatic s stats =
     (\<lambda>i. if SLABCLASS_MIN_ID \<le> i \<and> i \<le> slabclass_max_id s
          then \<lparr>sk_chunk_size = sc_size (slabclasses s i), sk_items_perslab = nitem (slabclasses s i)\<rparr> else stats i)"

text \<open>The metrics of a new thread, and the aggregator after \<^verbatim>\<open>stats_init\<close> (its metrics were set up by \<^verbatim>\<open>thread_setup_aggregator\<close>).\<close>

definition stats_thread_init :: thread_metrics where
  "stats_thread_init = stats_tmetrics"

definition stats_slabs_init :: slab_metrics where
  "stats_slabs_init = (\<lambda>i. stats_smetrics)"

definition stats_init :: "cache \<Rightarrow> aggregator" where
  "stats_init s = \<lparr>ag_ts = (0, 0), ag_thread = stats_thread_init, ag_slabs = stats_slabs_init,
     ag_const = stats_slab_getstatic s (\<lambda>_. \<lparr>sk_chunk_size = 0, sk_items_perslab = 0\<rparr>), ag_tmax = (\<lambda>m. Maximum 0)\<rparr>"

text \<open>The metrics of one thread are added.\<close>

definition aggr_thread :: "thread_metrics \<times> slab_metrics \<Rightarrow> aggregator \<Rightarrow> aggregator" where
  "aggr_thread w ag =
     ag\<lparr>ag_thread := (\<lambda>j. stats_metric_update (ag_thread ag j) (fst w j)),
        ag_slabs := (\<lambda>cid. if SLABCLASS_MIN_ID \<le> cid \<and> cid \<le> SLABCLASS_MAX_ID
                           then (\<lambda>j. stats_metric_update (ag_slabs ag cid j) (snd w cid j)) else ag_slabs ag cid)\<rparr>"

text \<open>The summary over the classes, in class 0. The loop ends before the last class.\<close>

definition aggr_classes :: "aggregator \<Rightarrow> aggregator" where
  "aggr_classes ag =
     ag\<lparr>ag_slabs := (ag_slabs ag)(0 := (\<lambda>j. fold (\<lambda>cid m. stats_metric_update m (ag_slabs ag cid j))
                                          [SLABCLASS_MIN_ID..<SLABCLASS_MAX_ID] (ag_slabs ag 0 j)))\<rparr>"

definition stats_aggregate :: "int \<times> int \<Rightarrow> (thread_metrics \<times> slab_metrics) list \<Rightarrow> aggregator \<Rightarrow> aggregator" where
  "stats_aggregate ts workers ag =
     (let ag = ag\<lparr>ag_ts := ts, ag_thread := stats_tmetrics,
                  ag_slabs := (\<lambda>cid. if cid \<le> SLABCLASS_MAX_ID then stats_smetrics else ag_slabs ag cid)\<rparr>;
          ag = aggr_classes (fold aggr_thread workers ag)
      in ag\<lparr>ag_tmax := (\<lambda>j. stats_metric_update (ag_tmax ag j) (ag_thread ag j))\<rparr>)"

section \<open>Aggregated values are sums\<close>

text \<open>The number a metric stands for.\<close>

fun metric_net :: "stats_metric \<Rightarrow> int" where
  "metric_net (Counter c) = c"
| "metric_net (Gauge t b) = t - b"
| "metric_net (Maximum x) = x"

text \<open>A metric of the kind of its template, without negative cells.\<close>

fun same_kind :: "stats_metric \<Rightarrow> stats_metric \<Rightarrow> bool" where
  "same_kind (Counter _) (Counter _) = True"
| "same_kind (Gauge _ _) (Gauge _ _) = True"
| "same_kind (Maximum _) (Maximum _) = True"
| "same_kind _ _ = False"

definition metric_like :: "stats_metric \<Rightarrow> stats_metric \<Rightarrow> bool" where
  "metric_like m0 m \<longleftrightarrow> same_kind m0 m \<and> metric_wf m"

definition worker_metrics_ok :: "thread_metrics \<times> slab_metrics \<Rightarrow> bool" where
  "worker_metrics_ok w \<longleftrightarrow> (\<forall>j. metric_like (stats_tmetrics j) (fst w j)) \<and> (\<forall>cid j. metric_like (stats_smetrics j) (snd w cid j))"

lemma template_cases:
  "stats_tmetrics j \<in> {Counter 0, Gauge 0 0}" "stats_smetrics k \<in> {Counter 0, Gauge 0 0}"
proof -
  have "map fst STATS_THREAD_METRICS =
     [THREAD_conn_disabled, THREAD_conn_total, THREAD_conn_struct, THREAD_conn_yield, THREAD_conn_curr, THREAD_data_read, THREAD_data_written, 
      THREAD_add, THREAD_add_exist, THREAD_set, THREAD_replace, THREAD_replace_miss, THREAD_append, THREAD_append_miss, THREAD_prepend, 
      THREAD_prepend_miss, THREAD_appendrl, THREAD_appendrl_miss, THREAD_prependrl, THREAD_prependrl_miss, THREAD_delete, THREAD_delete_hit, 
      THREAD_delete_miss, THREAD_incr, THREAD_incr_miss, THREAD_incr_success, THREAD_decr, THREAD_decr_miss, THREAD_decr_success, THREAD_cas, 
      THREAD_cas_miss, THREAD_cas_badval, THREAD_get, THREAD_get_key, THREAD_get_key_miss, THREAD_gets, THREAD_gets_key, THREAD_gets_key_miss, 
      THREAD_cmd_total, THREAD_cmd_error, THREAD_server_error, THREAD_klog_logged, THREAD_klog_discarded, THREAD_klog_skipped, 
      THREAD_hotkey_sampled, THREAD_hotkey_qps, THREAD_hotkey_bw, THREAD_accept_eagain, THREAD_accept_eintr, THREAD_accept_emfile, 
      THREAD_accept_error, THREAD_read_eagain, THREAD_read_error, THREAD_write_eagain, THREAD_write_error, THREAD_mem_conn_curr, 
      THREAD_mem_rbuf_curr, THREAD_mem_wbuf_curr, THREAD_mem_ilist_curr, THREAD_mem_slist_curr, THREAD_mem_iov_curr, THREAD_mem_msg_curr, 
      THREAD_mem_cache_curr]"
    by (simp add: STATS_THREAD_METRICS_def)
  then have "j \<in> set (map fst STATS_THREAD_METRICS)" by (cases j; simp only: list.set insert_iff simp_thms)
  then obtain v where v: "map_of STATS_THREAD_METRICS j = Some v" using map_of_eq_None_iff [of STATS_THREAD_METRICS j] by force
  have "\<forall>e \<in> set STATS_THREAD_METRICS. fst (snd e) \<in> {Counter 0, Gauge 0 0}" by (simp add: STATS_THREAD_METRICS_def)
  then show "stats_tmetrics j \<in> {Counter 0, Gauge 0 0}" using map_of_SomeD [OF v] by (auto simp: stats_tmetrics_def v)
  have "map fst STATS_SLAB_METRICS =
     [data_curr, data_value_curr, item_curr, item_acquire, item_remove, item_link, item_unlink, item_expire, item_evict, item_free, slab_req, 
      slab_error, slab_alloc, slab_curr, slab_evict, set_success, add_success, replace_success, append_hit, append_success, prepend_hit, 
      prepend_success, appendrl_hit, appendrl_success, prependrl_hit, prependrl_success, cas_success, get_key_hit, gets_key_hit]"
    by (simp add: STATS_SLAB_METRICS_def)
  then have "k \<in> set (map fst STATS_SLAB_METRICS)" by (cases k; simp only: list.set insert_iff simp_thms)
  then obtain v where v: "map_of STATS_SLAB_METRICS k = Some v" using map_of_eq_None_iff [of STATS_SLAB_METRICS k] by force
  have "\<forall>e \<in> set STATS_SLAB_METRICS. fst (snd e) \<in> {Counter 0, Gauge 0 0}" by (simp add: STATS_SLAB_METRICS_def)
  then show "stats_smetrics k \<in> {Counter 0, Gauge 0 0}" using map_of_SomeD [OF v] by (auto simp: stats_smetrics_def v)
qed

lemma metric_like_template:
  assumes "m \<in> {Counter 0, Gauge 0 0}"
  shows "metric_like m m" and "metric_net m = 0"
  using assms by (auto simp: metric_like_def)

lemma update_like:
  assumes "m0 \<in> {Counter 0, Gauge 0 0}" and "metric_like m0 a" and "metric_like m0 b"
  shows "metric_like m0 (stats_metric_update a b)" and "metric_net (stats_metric_update a b) = metric_net a + metric_net b"
proof -
  consider c1 c2 where "a = Counter c1" "b = Counter c2" | t1 b1 t2 b2 where "a = Gauge t1 b1" "b = Gauge t2 b2"
    using assms by (cases a; cases b) (auto simp: metric_like_def)
  then have "metric_like m0 (stats_metric_update a b) \<and> metric_net (stats_metric_update a b) = metric_net a + metric_net b"
    using assms by cases (auto simp: metric_like_def Let_def)
  then show "metric_like m0 (stats_metric_update a b)" "metric_net (stats_metric_update a b) = metric_net a + metric_net b" by blast+
qed

lemma update_max:
  assumes "m0 \<in> {Counter 0, Gauge 0 0}" and "metric_like m0 b"
  shows "stats_metric_update (Maximum x) b = Maximum (max x (metric_net b))"
  using assms by (cases b) (auto simp: metric_like_def Let_def max_def)

lemma fold_update:
  assumes "m0 \<in> {Counter 0, Gauge 0 0}" and "metric_like m0 a" and "\<forall>x \<in> set xs. metric_like m0 (f x)"
  shows "metric_like m0 (fold (\<lambda>x m. stats_metric_update m (f x)) xs a)
    \<and> metric_net (fold (\<lambda>x m. stats_metric_update m (f x)) xs a) = metric_net a + (\<Sum>x\<leftarrow>xs. metric_net (f x))"
  using assms(2,3)
proof (induction xs arbitrary: a)
  case (Cons x xs)
  then show ?case using update_like [OF assms(1) Cons.prems(1), of "f x"] by simp
qed simp

lemma fold_aggr_thread:
  "ag_thread (fold aggr_thread ws ag) = (\<lambda>j. fold (\<lambda>w m. stats_metric_update m (fst w j)) ws (ag_thread ag j))"
  "ag_slabs (fold aggr_thread ws ag) = (\<lambda>cid. if SLABCLASS_MIN_ID \<le> cid \<and> cid \<le> SLABCLASS_MAX_ID
     then (\<lambda>j. fold (\<lambda>w m. stats_metric_update m (snd w cid j)) ws (ag_slabs ag cid j)) else ag_slabs ag cid)"
  "ag_tmax (fold aggr_thread ws ag) = ag_tmax ag"
  by (induction ws arbitrary: ag) (auto simp: aggr_thread_def fun_eq_iff)

text \<open>
  After an aggregation every value is the sum of the values of the threads, the summary of the slab metrics is the sum over all classes but the
  last, and the maxima follow.
\<close>

lemma aggregate_sums_spec:
  assumes "\<forall>w \<in> set ws. worker_metrics_ok w" and ag': "ag' = stats_aggregate ts ws ag"
  shows "metric_net (ag_thread ag' j) = (\<Sum>w\<leftarrow>ws. metric_net (fst w j))"
    and "SLABCLASS_MIN_ID \<le> cid \<Longrightarrow> cid \<le> SLABCLASS_MAX_ID \<Longrightarrow> metric_net (ag_slabs ag' cid k) = (\<Sum>w\<leftarrow>ws. metric_net (snd w cid k))"
    and "metric_net (ag_slabs ag' 0 k) = (\<Sum>cid\<leftarrow>[SLABCLASS_MIN_ID..<SLABCLASS_MAX_ID]. \<Sum>w\<leftarrow>ws. metric_net (snd w cid k))"
    and "ag_tmax ag j = Maximum x \<Longrightarrow> ag_tmax ag' j = Maximum (max x (\<Sum>w\<leftarrow>ws. metric_net (fst w j)))"
proof -
  let ?t = "\<lambda>j. fold (\<lambda>w m. stats_metric_update m (fst w j)) ws (stats_tmetrics j)"
  let ?s = "\<lambda>cid j. fold (\<lambda>w m. stats_metric_update m (snd w cid j)) ws (stats_smetrics j)"
  have T: "metric_like (stats_tmetrics j) (?t j) \<and> metric_net (?t j) = (\<Sum>w\<leftarrow>ws. metric_net (fst w j))" for j
    using fold_update [OF template_cases(1) metric_like_template(1) [OF template_cases(1)], where xs = ws and f = "\<lambda>w. fst w j"]
      metric_like_template(2) [OF template_cases(1)] assms(1) by (simp add: worker_metrics_ok_def)
  have S: "metric_like (stats_smetrics j) (?s cid j) \<and> metric_net (?s cid j) = (\<Sum>w\<leftarrow>ws. metric_net (snd w cid j))" for cid j
    using fold_update [OF template_cases(2) metric_like_template(1) [OF template_cases(2)], where xs = ws and f = "\<lambda>w. snd w cid j"]
      metric_like_template(2) [OF template_cases(2)] assms(1) by (simp add: worker_metrics_ok_def)
  have thr: "ag_thread ag' = ?t" and mx: "ag_tmax ag' = (\<lambda>j. stats_metric_update (ag_tmax ag j) (?t j))"
    by (simp_all add: ag' stats_aggregate_def aggr_classes_def fold_aggr_thread Let_def)
  have cls: "ag_slabs ag' cid = ?s cid" if "SLABCLASS_MIN_ID \<le> cid" "cid \<le> SLABCLASS_MAX_ID" for cid
    using that by (simp add: ag' stats_aggregate_def aggr_classes_def fold_aggr_thread Let_def SLABCLASS_MIN_ID_def)
  have zero: "ag_slabs ag' 0 k = fold (\<lambda>cid m. stats_metric_update m (?s cid k)) [SLABCLASS_MIN_ID..<SLABCLASS_MAX_ID] (stats_smetrics k)"
  proof -
    define ag1 where "ag1 = fold aggr_thread ws (ag\<lparr>ag_ts := ts, ag_thread := stats_tmetrics,
      ag_slabs := (\<lambda>cid. if cid \<le> SLABCLASS_MAX_ID then stats_smetrics else ag_slabs ag cid)\<rparr>)"
    have s1: "ag_slabs ag1 cid k = (if cid = 0 then stats_smetrics k else ?s cid k)" if "cid \<le> SLABCLASS_MAX_ID" for cid
      using that by (simp add: ag1_def fold_aggr_thread SLABCLASS_MIN_ID_def)
    have "ag_slabs ag' 0 k = fold (\<lambda>cid m. stats_metric_update m (ag_slabs ag1 cid k)) [SLABCLASS_MIN_ID..<SLABCLASS_MAX_ID] (ag_slabs ag1 0 k)"
      by (simp add: ag' stats_aggregate_def Let_def aggr_classes_def flip: ag1_def)
    also have "\<dots> = fold (\<lambda>cid m. stats_metric_update m (?s cid k)) [SLABCLASS_MIN_ID..<SLABCLASS_MAX_ID] (stats_smetrics k)"
      by (rule fold_cong) (simp_all add: s1 SLABCLASS_MIN_ID_def)
    finally show ?thesis .
  qed
  show "metric_net (ag_thread ag' j) = (\<Sum>w\<leftarrow>ws. metric_net (fst w j))" by (simp add: thr T)
  show "metric_net (ag_slabs ag' cid k) = (\<Sum>w\<leftarrow>ws. metric_net (snd w cid k))" if "SLABCLASS_MIN_ID \<le> cid" "cid \<le> SLABCLASS_MAX_ID"
    by (simp add: cls that S)
  show "metric_net (ag_slabs ag' 0 k) = (\<Sum>cid\<leftarrow>[SLABCLASS_MIN_ID..<SLABCLASS_MAX_ID]. \<Sum>w\<leftarrow>ws. metric_net (snd w cid k))"
    using fold_update [OF template_cases(2) metric_like_template(1) [OF template_cases(2)], where f = "\<lambda>cid. ?s cid k"]
      metric_like_template(2) [OF template_cases(2)] S by (simp add: zero)
  show "ag_tmax ag' j = Maximum (max x (\<Sum>w\<leftarrow>ws. metric_net (fst w j)))" if "ag_tmax ag j = Maximum x"
    using update_max [OF template_cases(1), of j "?t j"] T that by (simp add: mx)
qed

end
