(* ===== verification/McServer.thy ===== *)
theory McServer
  imports McHotkey McCache McKlog McConn McAggr
begin

text \<open>
  The state in which a worker handles a request: the cache, one connection, the pool of suffix buffers, the hotkey detector, the
  command log, the aggregated metrics and the settings; and the parts of \<^verbatim>\<open>mc_ascii.c\<close> that every handler uses: the
  responses, the reading of the arguments of a request, and the completion of a storage command.

  A division by zero, or a loop without end, in the components that report them sets the flag \<open>ub\<close> of the cache.
\<close>

section \<open>State\<close>

text \<open>The fields of \<^verbatim>\<open>struct settings\<close> that do not change at run time and are not part of the cache. An interval is in microseconds.\<close>

record 'd conf =
  st_lock_page :: bool
  st_daemonize :: bool
  st_max_corefile :: bool
  st_log_filename :: "bytes option"
  st_klog_name :: "bytes option"
  st_klog_intvl :: int
  st_num_workers :: int
  st_username :: "bytes option"
  st_reqs_per_event :: int
  st_maxconns :: int
  st_backlog :: int
  st_port :: int
  st_udpport :: int
  st_interface :: "bytes option"
  st_socketpath :: "bytes option"
  st_access :: nat
  st_factor :: 'd
  st_pid :: int

record 'd srv =
  sv_conn :: conn
  sv_cache :: cache
  sv_hot :: "'d hotkey"
  sv_pool :: object_cache
  sv_suffix :: "addr \<Rightarrow> bytes"
  sv_started :: int
  sv_usec :: u32
  sv_klog :: klog_state
  sv_kbuf :: "kbuf option"
  sv_conf :: "'d conf"
  sv_agg :: aggregator
  sv_accepting :: bool
  sv_stats_intvl :: int
  sv_verbose :: int
  sv_calls :: nat

text \<open>
  What the operating system and the C library answer: allocations (for the cache, for the connection and for the pool), the
  clock, the text of the time, the parsing, comparison and printing of doubles, the memory of the hotkey tables, the usage of resources and what an array on the
  stack holds before it is written. Answers are given by the number of the call. \<open>x_version\<close> is the version of the build.
\<close>

record rusage =
  ru_utime :: "int \<times> int"
  ru_stime :: "int \<times> int"
  ru_maxrss :: int
  ru_nvcsw :: int
  ru_nivcsw :: int

record 'd world =
  x_env :: env
  x_al :: "nat \<Rightarrow> bool"
  x_suffix :: "nat \<Rightarrow> addr"
  x_pool :: "nat \<Rightarrow> addr list option"
  x_time :: "nat \<Rightarrow> int \<times> int"
  x_timestr :: "nat \<Rightarrow> bytes option"
  x_strtod :: "bytes \<Rightarrow> 'd"
  x_fraction :: "'d \<Rightarrow> bool"
  x_mul :: "'d \<Rightarrow> u64 \<Rightarrow> u64"
  x_hkmem :: "nat \<Rightarrow> hk_mem"
  x_version :: "nat \<times> nat \<times> nat"
  x_rusage :: "nat \<Rightarrow> rusage"
  x_fmt_factor :: "'d \<Rightarrow> bytes"
  x_fmt_intvl :: "int \<Rightarrow> bytes"
  x_stack :: "nat \<Rightarrow> bytes"

definition up_conn :: "(conn \<Rightarrow> conn) \<Rightarrow> 'd srv \<Rightarrow> 'd srv" where
  "up_conn f sv = sv\<lparr>sv_conn := f (sv_conn sv)\<rparr>"

definition up_cache :: "(cache \<Rightarrow> cache) \<Rightarrow> 'd srv \<Rightarrow> 'd srv" where
  "up_cache f sv = sv\<lparr>sv_cache := f (sv_cache sv)\<rparr>"

definition on_cache :: "(cache \<Rightarrow> 'a \<times> cache) \<Rightarrow> 'd srv \<Rightarrow> 'a \<times> 'd srv" where
  "on_cache f sv = (case f (sv_cache sv) of (r, s) \<Rightarrow> (r, sv\<lparr>sv_cache := s\<rparr>))"

definition on_cm :: "(cm \<Rightarrow> 'a \<times> cm) \<Rightarrow> 'd srv \<Rightarrow> 'a \<times> 'd srv" where
  "on_cm f sv =
     (case f (sv_conn sv, tstats (sv_cache sv)) of
        (r, c, m) \<Rightarrow> (r, sv\<lparr>sv_conn := c, sv_cache := (sv_cache sv)\<lparr>tstats := m\<rparr>\<rparr>))"

abbreviation tick :: "tmetric \<Rightarrow> 'd srv \<Rightarrow> 'd srv" where
  "tick m \<equiv> up_cache (tincr m)"

abbreviation tick_slab :: "nat \<Rightarrow> smetric \<Rightarrow> 'd srv \<Rightarrow> 'd srv" where
  "tick_slab cid m \<equiv> up_cache (sincr cid m)"

definition sv_clock :: "'d srv \<Rightarrow> clock" where
  "sv_clock sv = \<lparr>process_started = sv_started sv, ck_now = now (sv_cache sv), ck_now_usec = sv_usec sv\<rparr>"

section \<open>Responses\<close>

definition CRLF :: bytes where "CRLF = [CHR 0x0D, CHR 0x0A]"

definition asc_write_string :: "bytes \<Rightarrow> 'd srv \<Rightarrow> 'd srv" where
  "asc_write_string str sv =
     (if c_noreply (sv_conn sv) then up_conn (\<lambda>c. conn_set_state CONN_NEW_CMD (c\<lparr>c_noreply := False\<rparr>)) sv
      else
        (let (str, sv) = (if length str + CRLF_LEN > c_wsize (sv_conn sv)
                          then (''SERVER_ERROR'', tick THREAD_server_error sv) else (str, sv))
         in up_conn (\<lambda>c. (conn_set_state CONN_WRITE
                (c\<lparr>c_wbuf := str @ CRLF @ drop (length str + CRLF_LEN) (c_wbuf c),
                   c_wbytes := length str + CRLF_LEN, c_wcurr := (O_wbuf, 0)\<rparr>))
                \<lparr>c_write_and_go := CONN_NEW_CMD\<rparr>) sv))"

definition asc_rsp_stored :: "'d srv \<Rightarrow> nat \<times> 'd srv" where
  "asc_rsp_stored sv = (let str = ''STORED'' in (length str, asc_write_string str sv))"

definition asc_rsp_exists :: "'d srv \<Rightarrow> nat \<times> 'd srv" where
  "asc_rsp_exists sv = (let str = ''EXISTS'' in (length str, asc_write_string str sv))"

definition asc_rsp_not_found :: "'d srv \<Rightarrow> nat \<times> 'd srv" where
  "asc_rsp_not_found sv = (let str = ''NOT_FOUND'' in (length str, asc_write_string str sv))"

definition asc_rsp_not_stored :: "'d srv \<Rightarrow> nat \<times> 'd srv" where
  "asc_rsp_not_stored sv = (let str = ''NOT_STORED'' in (length str, asc_write_string str sv))"

definition asc_rsp_deleted :: "'d srv \<Rightarrow> nat \<times> 'd srv" where
  "asc_rsp_deleted sv = (let str = ''DELETED'' in (length str, asc_write_string str sv))"

definition asc_rsp_client_error :: "'d srv \<Rightarrow> nat \<times> 'd srv" where
  "asc_rsp_client_error sv =
     (let str = ''CLIENT_ERROR'' in (length str, asc_write_string str (tick THREAD_cmd_error sv)))"

definition asc_rsp_server_error :: "'d srv \<Rightarrow> nat \<times> 'd srv" where
  "asc_rsp_server_error sv =
     (let str = ''SERVER_ERROR'' in (length str, asc_write_string str (tick THREAD_server_error sv)))"

definition asc_rsp_ok :: "'d srv \<Rightarrow> nat \<times> 'd srv" where
  "asc_rsp_ok sv = (let str = ''OK'' in (length str, asc_write_string str sv))"

text \<open>\<^verbatim>\<open>MC_VERSION_STRING\<close>.\<close>

fun version_string :: "nat \<times> nat \<times> nat \<Rightarrow> bytes" where
  "version_string (major, minor, patch) = print_dec major @ ''.'' @ print_dec minor @ ''.'' @ print_dec patch"

definition asc_rsp_version :: "'d world \<Rightarrow> 'd srv \<Rightarrow> nat \<times> 'd srv" where
  "asc_rsp_version x sv = (let str = ''VERSION '' @ version_string (x_version x) in (length str, asc_write_string str sv))"

text \<open>A 64-bit number has at most 20 digits and fits the buffer of \<^verbatim>\<open>snprintf\<close>.\<close>

definition asc_rsp_int :: "u64 \<Rightarrow> 'd srv \<Rightarrow> nat \<times> 'd srv" where
  "asc_rsp_int num sv = (let str = print_dec (unat num) in (length str, asc_write_string str sv))"

abbreviation client_error :: "'d srv \<Rightarrow> 'd srv" where
  "client_error sv \<equiv> snd (asc_rsp_client_error sv)"

abbreviation server_error :: "'d srv \<Rightarrow> 'd srv" where
  "server_error sv \<equiv> snd (asc_rsp_server_error sv)"

text \<open>\<^verbatim>\<open>klog_write\<close> for the current request.\<close>

definition klog_call :: "'d world \<Rightarrow> bytes \<Rightarrow> int \<Rightarrow> nat \<Rightarrow> 'd srv \<Rightarrow> 'd srv" where
  "klog_call x cmdkey status rsplen sv =
     (case klog_write (x_timestr x (sv_calls sv)) (c_peer (sv_conn sv)) (c_req_type (sv_conn sv)) cmdkey status (int rsplen)
             (sv_klog sv) (sv_kbuf sv, tstats (sv_cache sv)) of
        None \<Rightarrow> up_cache (\<lambda>s. s\<lparr>ub := True\<rparr>) sv
      | Some (kb, m) \<Rightarrow> up_cache (\<lambda>s. s\<lparr>tstats := m\<rparr>) (sv\<lparr>sv_kbuf := kb, sv_calls := sv_calls sv + 1\<rparr>))"

text \<open>
  A response followed by the log entry of the request, whose status is the value of the result in C. The length of the request is kept
  in 16 bits.
\<close>

definition respond :: "'d world \<Rightarrow> ('d srv \<Rightarrow> nat \<times> 'd srv) \<Rightarrow> int \<Rightarrow> 'd srv \<Rightarrow> 'd srv" where
  "respond x rsp status sv =
     (case rsp sv of
        (rsplen, sv) \<Rightarrow>
          (let req = c_req (sv_conn sv) in klog_call x (take (length req mod 2 ^ 16) req) status rsplen sv))"

section \<open>Arguments of a request\<close>

definition asc_validate_ntoken :: "token list \<Rightarrow> 'd srv \<Rightarrow> bool \<times> 'd srv" where
  "asc_validate_ntoken token sv =
     (let (tmin, tmax) = ntoken_bound (c_req_type (sv_conn sv)) (c_noreply (sv_conn sv)) in
      if length token \<ge> tmin \<and> length token \<le> tmax then (True, sv) else (False, client_error sv))"

definition asc_get_slabid :: "nat \<Rightarrow> u32 \<Rightarrow> 'd srv \<Rightarrow> nat option \<times> 'd srv" where
  "asc_get_slabid nkey vlen sv =
     (let cid = item_slabid (sv_cache sv) nkey vlen in
      if cid = SLABCLASS_INVALID_ID then (None, client_error sv) else (Some cid, sv))"

definition asc_get_key :: "token list \<Rightarrow> 'd srv \<Rightarrow> bytes option \<times> 'd srv" where
  "asc_get_key token sv =
     (if tok_len (token ! 1) > KEY_MAX_LEN then (None, client_error sv) else (Some (tok_str (token ! 1)), sv))"

text \<open>A number is parsed from the start of its token; \<open>None\<close> is followed by an error response.\<close>

definition get_arg :: "(bytes \<Rightarrow> 'a option) \<Rightarrow> nat \<Rightarrow> token list \<Rightarrow> 'd srv \<Rightarrow> 'a option \<times> 'd srv" where
  "get_arg parse k token sv =
     (case parse (the (tok_val (token ! k))) of None \<Rightarrow> (None, client_error sv) | Some v \<Rightarrow> (Some v, sv))"

definition asc_get_flags :: "token list \<Rightarrow> 'd srv \<Rightarrow> u32 option \<times> 'd srv" where
  "asc_get_flags = get_arg mc_strtoul 2"

definition asc_get_expiry :: "token list \<Rightarrow> 'd srv \<Rightarrow> int option \<times> 'd srv" where
  "asc_get_expiry = get_arg mc_strtol 3"

definition asc_get_vlen :: "token list \<Rightarrow> 'd srv \<Rightarrow> u32 option \<times> 'd srv" where
  "asc_get_vlen = get_arg mc_strtoul 4"

definition asc_get_delta :: "token list \<Rightarrow> 'd srv \<Rightarrow> u64 option \<times> 'd srv" where
  "asc_get_delta = get_arg mc_strtoull 2"

definition asc_set_noreply_maybe :: "token list \<Rightarrow> 'd srv \<Rightarrow> 'd srv" where
  "asc_set_noreply_maybe token sv = (if set_noreply_maybe token then up_conn (\<lambda>c. c\<lparr>c_noreply := True\<rparr>) sv else sv)"

section \<open>Completion of storage commands\<close>

definition asc_complete_set :: "'d world \<Rightarrow> 'd srv \<Rightarrow> 'd srv" where
  "asc_complete_set x sv =
     (let it = the (c_item (sv_conn sv));
          sv = up_cache (item_set (x_env x) it) sv;
          sv = tick_slab (it_id (items (sv_cache sv) it)) set_success sv
      in respond x asc_rsp_stored 0 sv)"

definition asc_complete_cas :: "'d world \<Rightarrow> 'd srv \<Rightarrow> 'd srv" where
  "asc_complete_cas x sv =
     (let it = the (c_item (sv_conn sv)) in
      case on_cache (item_cas (x_env x) it) sv of
        (CAS_OK, sv) \<Rightarrow> respond x asc_rsp_stored 0 (tick_slab (it_id (items (sv_cache sv) it)) cas_success sv)
      | (CAS_EXISTS, sv) \<Rightarrow> respond x asc_rsp_exists 1 (tick THREAD_cas_badval sv)
      | (CAS_NOT_FOUND, sv) \<Rightarrow> respond x asc_rsp_not_found 2 (tick THREAD_cas_miss sv))"

definition asc_complete_add :: "'d world \<Rightarrow> 'd srv \<Rightarrow> 'd srv" where
  "asc_complete_add x sv =
     (let it = the (c_item (sv_conn sv)) in
      case on_cache (item_add (x_env x) it) sv of
        (ADD_OK, sv) \<Rightarrow> respond x asc_rsp_stored 0 (tick_slab (it_id (items (sv_cache sv) it)) add_success sv)
      | (ADD_EXISTS, sv) \<Rightarrow> respond x asc_rsp_not_stored 1 (tick THREAD_add_exist sv))"

definition asc_complete_replace :: "'d world \<Rightarrow> 'd srv \<Rightarrow> 'd srv" where
  "asc_complete_replace x sv =
     (let it = the (c_item (sv_conn sv)) in
      case on_cache (item_replace (x_env x) it) sv of
        (REPLACE_OK, sv) \<Rightarrow> respond x asc_rsp_stored 0 (tick_slab (it_id (items (sv_cache sv) it)) replace_success sv)
      | (REPLACE_NOT_FOUND, sv) \<Rightarrow> respond x asc_rsp_not_stored 1 (tick THREAD_replace_miss sv))"

text \<open>The three metrics of each of the four commands.\<close>

fun annex_metrics :: "req_type \<Rightarrow> smetric \<times> smetric \<times> tmetric" where
  "annex_metrics REQ_APPEND = (append_hit, append_success, THREAD_append_miss)"
| "annex_metrics REQ_PREPEND = (prepend_hit, prepend_success, THREAD_prepend_miss)"
| "annex_metrics REQ_APPENDRL = (appendrl_hit, appendrl_success, THREAD_appendrl_miss)"
| "annex_metrics _ = (prependrl_hit, prependrl_success, THREAD_prependrl_miss)"

definition asc_complete_annex :: "'d world \<Rightarrow> 'd srv \<Rightarrow> 'd srv" where
  "asc_complete_annex x sv =
     (let it = the (c_item (sv_conn sv)); rt = c_req_type (sv_conn sv);
          rl = (rt = REQ_APPENDRL \<or> rt = REQ_PREPENDRL);
          (hit, success, miss) = annex_metrics rt
      in case on_cache (item_annex (x_env x) (rt = REQ_APPEND \<or> rt = REQ_APPENDRL) it) sv of
           ((ANNEX_OK, out), sv) \<Rightarrow>
             (let (oid, nid) = the (ao_ids out);
                  sv = tick_slab nid success (tick_slab oid hit sv)
              in if rl then respond x (asc_rsp_int (ucast (the (ao_nbyte out)))) 0 sv else respond x asc_rsp_stored 0 sv)
         | ((ANNEX_NOT_FOUND, out), sv) \<Rightarrow> respond x asc_rsp_not_stored 1 (tick miss sv)
         | ((ANNEX_OVERSIZED, out), sv) \<Rightarrow> respond x asc_rsp_client_error 2 (tick_slab (fst (the (ao_ids out))) hit sv)
         | ((ANNEX_EOM, out), sv) \<Rightarrow> respond x asc_rsp_server_error 3 sv)"

text \<open>The two bytes after the value must end the line.\<close>

definition strcrlf :: "mem \<Rightarrow> nat \<Rightarrow> bool" where
  "strcrlf m p \<longleftrightarrow> m p = CHR 0x0D \<and> m (p + 1) = CHR 0x0A"

definition asc_complete_nread :: "'d world \<Rightarrow> 'd srv \<Rightarrow> 'd srv" where
  "asc_complete_nread x sv =
     (let it = the (c_item (sv_conn sv)); s = sv_cache sv; rt = c_req_type (sv_conn sv);
          sv = (if \<not> strcrlf (it_end (items s it)) (item_data s it + unat (it_nbyte (items s it))) then client_error sv
                else if rt = REQ_SET then asc_complete_set x sv
                else if rt = REQ_CAS then asc_complete_cas x sv
                else if rt = REQ_ADD then asc_complete_add x sv
                else if rt = REQ_REPLACE then asc_complete_replace x sv
                else if rt \<in> {REQ_APPEND, REQ_PREPEND, REQ_APPENDRL, REQ_PREPENDRL} then asc_complete_annex x sv
                else sv)
      in up_conn (\<lambda>c. c\<lparr>c_item := None\<rparr>) (up_cache (item_remove_op it) sv))"

end
