(* ===== verification/McAscii.thy ===== *)
theory McAscii
  imports McServer
begin

text \<open>
  The request handlers of the ascii protocol, \<^verbatim>\<open>mc_ascii.c\<close>: lookups, storage commands up to the point where the value is
  read, counters, delete, flush and the configuration commands, the dispatch of a request line to them, and the
  extraction of a line from the read buffer.
\<close>

section \<open>Lookups\<close>

definition asc_create_suffix :: "'d world \<Rightarrow> nat \<Rightarrow> 'd srv \<Rightarrow> (rstatus \<times> addr) \<times> 'd srv" where
  "asc_create_suffix x vki sv =
     (let c = sv_conn sv; grow = (vki \<ge> c_ssize c); ok = x_al x (c_nalloc c);
          sv = (if grow then up_conn (\<lambda>c. c\<lparr>c_nalloc := c_nalloc c + 1\<rparr>) sv else sv)
      in if grow \<and> \<not> ok then ((MC_ENOMEM, 0), sv)
         else
           (let sv = (if grow
                      then up_conn (\<lambda>c. c\<lparr>c_ssize := c_ssize c * 2, c_slist := c_slist c @ replicate (c_ssize c) 0\<rparr>)
                             (up_cache (\<lambda>s. s\<lparr>tstats := incr_mem THREAD_mem_slist_curr (SZ_PTR * c_ssize c) (tstats s)\<rparr>) sv)
                      else sv)
            in case cache_alloc (x_suffix x (sv_calls sv)) (sv_pool sv) (tstats (sv_cache sv)) of
                 (suffix, pl, m) \<Rightarrow>
                   (let sv = up_cache (\<lambda>s. s\<lparr>tstats := m\<rparr>) (sv\<lparr>sv_pool := pl, sv_calls := sv_calls sv + 1\<rparr>) in
                    if suffix = 0 then ((MC_ENOMEM, 0), server_error sv)
                    else ((MC_OK, suffix), up_conn (\<lambda>c. c\<lparr>c_slist := (c_slist c)[vki := suffix]\<rparr>) sv))))"

definition asc_destroy_suffix :: "'d world \<Rightarrow> addr \<Rightarrow> 'd srv \<Rightarrow> 'd srv" where
  "asc_destroy_suffix x suffix sv =
     (case cache_free suffix (x_pool x (sv_calls sv)) (sv_pool sv) (tstats (sv_cache sv)) of
        (freed, pl, m) \<Rightarrow> up_cache (\<lambda>s. s\<lparr>tstats := m\<rparr>) (sv\<lparr>sv_pool := pl, sv_calls := sv_calls sv + 1\<rparr>))"

definition SUFFIX_MAX_LEN :: nat where "SUFFIX_MAX_LEN = 44"
definition VALUE_STR :: bytes where "VALUE_STR = ''VALUE ''"

definition suffix_text :: "bool \<Rightarrow> item \<Rightarrow> bytes" where
  "suffix_text return_cas it =
     '' '' @ print_dec (unat (it_dataflags it)) @ '' '' @ print_dec (unat (it_nbyte it))
     @ (if return_cas then '' '' @ print_dec (unat (item_get_cas it)) else [])"

text \<open>A sequence of additions to the pending data that stops at the first failure.\<close>

fun add_iovs :: "(nat \<Rightarrow> bool) \<Rightarrow> (ptr \<times> nat) list \<Rightarrow> 'd srv \<Rightarrow> rstatus \<times> 'd srv" where
  "add_iovs al [] sv = (MC_OK, sv)"
| "add_iovs al ((p, n) # ps) sv =
     (case on_cm (conn_add_iov al p n) sv of (st, sv) \<Rightarrow> if st \<noteq> MC_OK then (st, sv) else add_iovs al ps sv)"

definition asc_respond_get :: "'d world \<Rightarrow> nat \<Rightarrow> addr \<Rightarrow> bool \<Rightarrow> 'd srv \<Rightarrow> rstatus \<times> 'd srv" where
  "asc_respond_get x vki it return_cas sv =
     (let i = items (sv_cache sv) it; nbyte = unat (it_nbyte i); off = item_data (sv_cache sv) it in
      case add_iovs (x_al x) [((O_static VALUE_STR, 0), length VALUE_STR), ((O_item it, item_key_off i), it_nkey i)] sv of
        (st, sv) \<Rightarrow>
          if st \<noteq> MC_OK then (st, sv)
          else
            (case asc_create_suffix x vki sv of
               ((st, suffix), sv) \<Rightarrow>
                 if st \<noteq> MC_OK then (st, sv)
                 else
                   (let text = suffix_text return_cas i; sz = length text;
                        sv = sv\<lparr>sv_suffix := (sv_suffix sv)(suffix := take (SUFFIX_MAX_LEN - 1) text)\<rparr>
                    in case add_iovs (x_al x) [((O_suffix suffix, 0), sz), ((O_static CRLF, 0), CRLF_LEN),
                              ((O_item it, off), nbyte), ((O_static CRLF, 0), CRLF_LEN)] sv of
                         (st, sv) \<Rightarrow>
                           if st \<noteq> MC_OK then (st, asc_destroy_suffix x suffix sv)
                           else (MC_OK, klog_call x (item_key i) 0
                                   (length VALUE_STR + it_nkey i + sz + CRLF_LEN + nbyte + CRLF_LEN) sv))))"

text \<open>The list of items found is doubled when it is full.\<close>

definition grow_ilist :: "'d world \<Rightarrow> nat \<Rightarrow> 'd srv \<Rightarrow> bool \<times> 'd srv" where
  "grow_ilist x vki sv =
     (let c = sv_conn sv in
      if vki \<ge> c_isize c then
        (let ok = x_al x (c_nalloc c); sv = up_conn (\<lambda>c. c\<lparr>c_nalloc := c_nalloc c + 1\<rparr>) sv in
         if ok then
           (True, up_conn (\<lambda>c. c\<lparr>c_isize := c_isize c * 2, c_ilist := c_ilist c @ replicate (c_isize c) 0\<rparr>)
                    (up_cache (\<lambda>s. s\<lparr>tstats := incr_mem THREAD_mem_ilist_curr (SZ_PTR * c_isize c) (tstats s)\<rparr>) sv))
         else (False, sv))
      else (True, sv))"

text \<open>\<^verbatim>\<open>item_get\<close> on the state of the server.\<close>

definition srv_item_get :: "bytes \<Rightarrow> 'd srv \<Rightarrow> addr option \<times> 'd srv" where
  "srv_item_get key sv =
     (case item_get key (sv_usec sv) (sv_hot sv, sv_cache sv) of
        None \<Rightarrow> (None, up_cache (\<lambda>s. s\<lparr>ub := True\<rparr>) sv)
      | Some (r, h, s) \<Rightarrow> (r, sv\<lparr>sv_hot := h, sv_cache := s\<rparr>))"

text \<open>
  The treatment of one key: \<open>False\<close> when the inner loop is left because memory ran out. The first component counts the keys
  found.
\<close>

definition read_key :: "'d world \<Rightarrow> bool \<Rightarrow> bytes \<Rightarrow> nat \<Rightarrow> 'd srv \<Rightarrow> bool \<times> nat \<times> 'd srv" where
  "read_key x return_cas key vki sv =
     (let sv = tick (if return_cas then THREAD_gets_key else THREAD_get_key) sv in
      case srv_item_get key sv of
        (None, sv) \<Rightarrow>
          (let sv = tick (if return_cas then THREAD_gets_key_miss else THREAD_get_key_miss) sv
           in (True, vki, klog_call x key 1 0 sv))
      | (Some it, sv) \<Rightarrow>
          (let sv = tick_slab (it_id (items (sv_cache sv) it)) (if return_cas then gets_key_hit else get_key_hit) sv in
           case grow_ilist x vki sv of
             (False, sv) \<Rightarrow> (False, vki, up_cache (item_remove_op it) sv)
           | (True, sv) \<Rightarrow>
               (case asc_respond_get x vki it return_cas sv of
                  (st, sv) \<Rightarrow>
                    if st \<noteq> MC_OK then (False, vki, up_cache (item_remove_op it) (server_error sv))
                    else (True, vki + 1,
                          up_conn (\<lambda>c. c\<lparr>c_ilist := (c_ilist c)[vki := it]\<rparr>) (up_cache (item_touch it) sv)))))"

text \<open>
  The inner loop over one set of tokens. It ends with an early return on a key that is too long, or with the token at which it
  stopped.
\<close>

datatype 'd read_end = Read_return "'d srv" | Read_stop token nat "'d srv"

fun read_tokens :: "'d world \<Rightarrow> bool \<Rightarrow> token list \<Rightarrow> nat \<Rightarrow> 'd srv \<Rightarrow> 'd read_end" where
  "read_tokens x rc [] vki sv = Read_stop \<lparr>tok_val = None, tok_len = 0\<rparr> vki sv"
| "read_tokens x rc (t # ts) vki sv =
     (if tok_len t = 0 then Read_stop t vki sv
      else if tok_len t > KEY_MAX_LEN then Read_return (client_error sv)
      else
        (case read_key x rc (tok_str t) vki sv of
           (ok, vki, sv) \<Rightarrow> if ok then read_tokens x rc ts vki sv else Read_stop t vki sv))"

text \<open>
  The outer loop gets the next set of tokens until the line is finished. A key at which memory ran out is tried again, so the loop
  may not end.
\<close>

partial_function (option) read_loop :: "'d world \<Rightarrow> bool \<Rightarrow> token list \<Rightarrow> nat \<Rightarrow> 'd srv \<Rightarrow> (bool \<times> nat \<times> 'd srv) option" where
  "read_loop x rc ts vki sv =
     (case read_tokens x rc ts vki sv of
        Read_return sv \<Rightarrow> Some (True, vki, sv)
      | Read_stop t vki sv \<Rightarrow>
          (case tok_val t of
             None \<Rightarrow> Some (False, vki, sv)
           | Some line \<Rightarrow>
               (let ts = asc_tokenize line TOKEN_MAX in
                if tok_val (ts ! 0) = None then Some (False, vki, sv) else read_loop x rc ts vki sv)))"

definition END_STR :: bytes where "END_STR = ''END'' @ CRLF"

definition asc_process_read :: "'d world \<Rightarrow> token list \<Rightarrow> 'd srv \<Rightarrow> 'd srv option" where
  "asc_process_read x token sv =
     (case asc_validate_ntoken token sv of
        (False, sv) \<Rightarrow> Some sv
      | (True, sv) \<Rightarrow>
          (case read_loop x (c_req_type (sv_conn sv) = REQ_GETS) (drop 1 token) 0 sv of
             None \<Rightarrow> None
           | Some (True, vki, sv) \<Rightarrow> Some sv
           | Some (False, vki, sv) \<Rightarrow>
               (let sv = up_conn (\<lambda>c. c\<lparr>c_icurr := 0, c_ileft := vki, c_scurr := 0, c_sleft := vki\<rparr>) sv in
                case on_cm (conn_add_iov (x_al x) (O_static END_STR, 0) (length END_STR)) sv of
                  (st, sv) \<Rightarrow>
                    if st \<noteq> MC_OK then Some (server_error sv)
                    else if c_udp (sv_conn sv) then
                      (case conn_build_udp_headers (x_al x) (sv_conn sv) of
                         (st, c) \<Rightarrow>
                           (let sv = sv\<lparr>sv_conn := c\<rparr> in
                            if st \<noteq> MC_OK then Some (server_error sv)
                            else Some (up_conn (\<lambda>c. (conn_set_state CONN_MWRITE c)\<lparr>c_msg_curr := 0\<rparr>) sv)))
                    else Some (up_conn (\<lambda>c. (conn_set_state CONN_MWRITE c)\<lparr>c_msg_curr := 0\<rparr>) sv))))"

section \<open>Storage commands\<close>

text \<open>What both handlers do once the arguments are read: allocate an item and prepare to read the value into it.\<close>

definition start_nread :: "addr \<Rightarrow> 'd srv \<Rightarrow> 'd srv" where
  "start_nread it sv =
     (let s = sv_cache sv in
      up_conn (\<lambda>c. conn_set_state CONN_NREAD
        (c\<lparr>c_item := Some it, c_ritem := item_data s it, c_rlbytes := unat (it_nbyte (items s it)) + CRLF_LEN\<rparr>)) sv)"

definition swallow :: "u32 \<Rightarrow> bytes \<Rightarrow> 'd srv \<Rightarrow> 'd srv" where
  "swallow vlen key sv =
     (let sv = server_error sv;
          sv = up_conn (\<lambda>c. c\<lparr>c_write_and_go := CONN_SWALLOW, c_sbytes := unat vlen + CRLF_LEN\<rparr>) sv
      in snd (on_cache (item_delete key) sv))"

definition asc_process_update :: "'d world \<Rightarrow> token list \<Rightarrow> 'd srv \<Rightarrow> 'd srv" where
  "asc_process_update x token sv =
     (let sv = asc_set_noreply_maybe token sv in
      case asc_validate_ntoken token sv of (False, sv) \<Rightarrow> sv | (True, sv) \<Rightarrow>
     (case asc_get_key token sv of (None, sv) \<Rightarrow> sv | (Some key, sv) \<Rightarrow>
     (case asc_get_flags token sv of (None, sv) \<Rightarrow> sv | (Some flags, sv) \<Rightarrow>
     (case asc_get_expiry token sv of (None, sv) \<Rightarrow> sv | (Some exptime, sv) \<Rightarrow>
     (case asc_get_vlen token sv of (None, sv) \<Rightarrow> sv | (Some vlen, sv) \<Rightarrow>
     (case asc_get_slabid (length key) vlen sv of (None, sv) \<Rightarrow> sv | (Some cid, sv) \<Rightarrow>
       (let handle_cas = (c_req_type (sv_conn sv) = REQ_CAS) in
        case (if handle_cas then get_arg mc_strtoull 5 token sv else (Some 0, sv)) of
          (None, sv) \<Rightarrow> sv
        | (Some req_cas_id, sv) \<Rightarrow>
            (let flags = (if set_hotkey_enable (sv_hot sv) then 0 else flags) in
             case on_cache (item_alloc (x_env x) cid key flags (time_reltime exptime (sv_clock sv)) vlen) sv of
               (None, sv) \<Rightarrow> swallow vlen key sv
             | (Some it, sv) \<Rightarrow>
                 start_nread it (if handle_cas then up_cache (upd_item it (item_set_cas req_cas_id)) sv else sv)))))))))"

definition asc_process_annex :: "'d world \<Rightarrow> token list \<Rightarrow> 'd srv \<Rightarrow> 'd srv" where
  "asc_process_annex x token sv =
     (let sv = asc_set_noreply_maybe token sv in
      case asc_validate_ntoken token sv of (False, sv) \<Rightarrow> sv | (True, sv) \<Rightarrow>
     (case asc_get_key token sv of (None, sv) \<Rightarrow> sv | (Some key, sv) \<Rightarrow>
     (case asc_get_vlen token sv of (None, sv) \<Rightarrow> sv | (Some vlen, sv) \<Rightarrow>
     (case asc_get_slabid (length key) vlen sv of (None, sv) \<Rightarrow> sv | (Some cid, sv) \<Rightarrow>
       (case on_cache (item_alloc (x_env x) cid key 0 0 vlen) sv of
          (None, sv) \<Rightarrow> swallow vlen key sv
        | (Some it, sv) \<Rightarrow> start_nread it sv)))))"

section \<open>Counters and delete\<close>

definition asc_process_delta :: "'d world \<Rightarrow> token list \<Rightarrow> 'd srv \<Rightarrow> 'd srv" where
  "asc_process_delta x token sv =
     (let sv = asc_set_noreply_maybe token sv in
      case asc_validate_ntoken token sv of (False, sv) \<Rightarrow> sv | (True, sv) \<Rightarrow>
     (case asc_get_key token sv of (None, sv) \<Rightarrow> sv | (Some key, sv) \<Rightarrow>
     (case asc_get_delta token sv of (None, sv) \<Rightarrow> sv | (Some delta, sv) \<Rightarrow>
       (let incr = (c_req_type (sv_conn sv) = REQ_INCR) in
        case on_cache (item_delta (x_env x) key incr delta) sv of
          ((DELTA_OK, value), sv) \<Rightarrow>
            respond x (asc_rsp_int (the value)) 0 (tick (if incr then THREAD_incr_success else THREAD_decr_success) sv)
        | ((DELTA_NOT_FOUND, value), sv) \<Rightarrow>
            respond x asc_rsp_not_found 1 (tick (if incr then THREAD_incr_miss else THREAD_decr_miss) sv)
        | ((DELTA_NON_NUMERIC, value), sv) \<Rightarrow> respond x asc_rsp_client_error 2 sv
        | ((DELTA_EOM, value), sv) \<Rightarrow> respond x asc_rsp_server_error 3 sv))))"

text \<open>A miss is logged with the status of a hit.\<close>

definition asc_process_delete :: "'d world \<Rightarrow> token list \<Rightarrow> 'd srv \<Rightarrow> 'd srv" where
  "asc_process_delete x token sv =
     (let sv = asc_set_noreply_maybe token sv in
      case asc_validate_ntoken token sv of (False, sv) \<Rightarrow> sv | (True, sv) \<Rightarrow>
     (case asc_get_key token sv of (None, sv) \<Rightarrow> sv | (Some key, sv) \<Rightarrow>
       (case on_cache (item_delete key) sv of
          (DELETE_OK, sv) \<Rightarrow> respond x asc_rsp_deleted 0 (tick THREAD_delete_hit sv)
        | (DELETE_NOT_FOUND, sv) \<Rightarrow> respond x asc_rsp_not_found 0 (tick THREAD_delete_miss sv))))"

end
