(* ===== verification/McReport.thy ===== *)
theory McReport
  imports McAscii
begin

text \<open>
  The stats command: the text that \<^verbatim>\<open>mc_stats.c\<close> collects in a buffer of the connection, the dump of a slab class of \<^verbatim>\<open>mc_items.c\<close>, and the
  handler \<^verbatim>\<open>asc_process_stats\<close> that sends them.
\<close>

section \<open>The buffer of a connection\<close>

text \<open>The doubling of the size; \<open>available\<close> is 0 at first for a new buffer, so that its size is doubled at least once.\<close>

function grow_size :: "nat \<Rightarrow> nat \<Rightarrow> nat \<Rightarrow> nat \<Rightarrow> nat" where
  "grow_size needed offset available nsize =
     (if needed > available \<and> nsize > 0 then grow_size needed offset (2 * nsize - offset) (2 * nsize) else nsize)"
  by pat_completeness auto
termination
  by (relation "measure (\<lambda>(needed, offset, available, nsize). if needed \<le> available then 0
       else if available = nsize - offset then needed + offset - nsize else needed + offset + 2)") auto

declare grow_size.simps [simp del]

definition stats_buf_grow :: "(nat \<Rightarrow> bool) \<Rightarrow> nat \<Rightarrow> conn \<Rightarrow> bool \<times> conn" where
  "stats_buf_grow al needed c =
     (let (nsize, available, c) =
            (case c_stats_buffer c of
               None \<Rightarrow> (1024, 0, c\<lparr>c_stats_size := 0, c_stats_offset := 0\<rparr>)
             | Some b \<Rightarrow> (c_stats_size c, c_stats_size c - c_stats_offset c, c));
          nsize = grow_size needed (c_stats_offset c) available nsize
      in if nsize \<noteq> c_stats_size c then
           (let ok = al (c_nalloc c); c = c\<lparr>c_nalloc := c_nalloc c + 1\<rparr>;
                b = (case c_stats_buffer c of None \<Rightarrow> [] | Some b \<Rightarrow> b)
            in if ok then (True, c\<lparr>c_stats_buffer := Some (b @ replicate (nsize - length b) (CHR 0x00)), c_stats_size := nsize\<rparr>)
               else (False, c))
         else (True, c))"

text \<open>
  \<^verbatim>\<open>snprintf\<close> writes at most \<open>room - 1\<close> bytes of the text and the byte that ends it, and returns the length of the whole text.
\<close>

definition asc_append_stats :: "bytes \<Rightarrow> nat \<Rightarrow> bytes \<Rightarrow> nat \<Rightarrow> conn \<Rightarrow> conn" where
  "asc_append_stats key klen val vlen c =
     (let room = c_stats_size c - c_stats_offset c - 1;
          text = (if klen = 0 \<and> vlen = 0 then ''END'' @ CRLF
                  else if vlen = 0 then ''STAT '' @ key @ CRLF
                  else ''STAT '' @ key @ '' '' @ val @ CRLF);
          b = the (c_stats_buffer c);
          out = (if room = 0 then [] else take (room - 1) text @ [CHR 0x00])
      in c\<lparr>c_stats_buffer := Some (take (c_stats_offset c) b @ out @ drop (c_stats_offset c + length out) b),
           c_stats_offset := c_stats_offset c + length text\<rparr>)"

text \<open>A key is at most 16 bits long.\<close>

definition stats_append :: "(nat \<Rightarrow> bool) \<Rightarrow> bytes \<Rightarrow> nat \<Rightarrow> bytes \<Rightarrow> nat \<Rightarrow> conn \<Rightarrow> conn" where
  "stats_append al key klen val vlen c =
     (if klen = 0 \<and> vlen > 0 then c
      else (case stats_buf_grow al (vlen + klen + 10) c of
              (False, c) \<Rightarrow> c
            | (True, c) \<Rightarrow> asc_append_stats key klen val vlen c))"

abbreviation stats_end :: "(nat \<Rightarrow> bool) \<Rightarrow> conn \<Rightarrow> conn" where
  "stats_end al \<equiv> stats_append al [] 0 [] 0"

definition STATS_KEY_LEN :: nat where "STATS_KEY_LEN = 128"
definition STATS_VAL_LEN :: nat where "STATS_VAL_LEN = 128"

text \<open>\<open>val\<close> is the text of the value; one byte less than the buffer of \<^verbatim>\<open>vsnprintf\<close> is used.\<close>

definition stats_print :: "(nat \<Rightarrow> bool) \<Rightarrow> bytes \<times> bytes \<Rightarrow> conn \<Rightarrow> conn" where
  "stats_print al nv = (case nv of (name, val) \<Rightarrow> stats_append al name (length name) (take (STATS_VAL_LEN - 2) val) (length val))"

section \<open>The texts\<close>

definition stats_enabled :: "'d srv \<Rightarrow> bool" where
  "stats_enabled sv \<longleftrightarrow> \<not> sv_stats_intvl sv \<le> -1000000"

text \<open>Numbers as \<^verbatim>\<open>printf\<close> writes them: padded with zeros, in octal, or 64 bits read as a signed 32-bit number.\<close>

definition zero_pad :: "nat \<Rightarrow> bytes \<Rightarrow> bytes" where
  "zero_pad n bs = replicate (n - length bs) (CHR ''0'') @ bs"

fun print_oct :: "nat \<Rightarrow> bytes" where
  "print_oct n = (if n < 8 then [char_of (48 + n)] else print_oct (n div 8) @ [char_of (48 + n mod 8)])"

declare print_oct.simps [simp del]

definition print_d32 :: "nat \<Rightarrow> bytes" where
  "print_d32 n = print_int (sint (of_nat n :: u32))"

definition print_timeval :: "int \<times> int \<Rightarrow> bytes" where
  "print_timeval tv = print_int (fst tv) @ ''.'' @ zero_pad 6 (print_int (snd tv))"

definition print_bool :: "bool \<Rightarrow> bytes" where
  "print_bool b = (if b then ''1'' else ''0'')"

text \<open>A null pointer given to \<^verbatim>\<open>%s\<close>.\<close>

definition print_str :: "bytes option \<Rightarrow> bytes" where
  "print_str s = (case s of None \<Rightarrow> ''(null)'' | Some b \<Rightarrow> b)"

definition settings_lines :: "'d world \<Rightarrow> 'd srv \<Rightarrow> (bytes \<times> bytes) list" where
  "settings_lines x sv =
     (let g = settings (sv_cache sv); st = sv_conf sv in
      [(''prealloc'', print_bool (prealloc g)), (''lock_page'', print_bool (st_lock_page st)),
       (''accepting_conns'', print_bool (sv_accepting sv)), (''daemonize'', print_bool (st_daemonize st)),
       (''max_corefile'', print_bool (st_max_corefile st)), (''cas_enabled'', print_bool (use_cas g)),
       (''num_workers'', print_int (st_num_workers st)), (''reqs_per_event'', print_int (st_reqs_per_event st)),
       (''oldest'', print_dec (unat (oldest_live g))), (''log_filename'', print_str (st_log_filename st)),
       (''verbosity'', print_int (sv_verbose sv)), (''maxconns'', print_int (st_maxconns st)),
       (''tcpport'', print_int (st_port st)), (''udpport'', print_int (st_udpport st)),
       (''interface'', (case st_interface st of None \<Rightarrow> [] | Some s \<Rightarrow> s)),
       (''domain_socket'', (case st_socketpath st of None \<Rightarrow> ''NULL'' | Some s \<Rightarrow> s)),
       (''umask'', print_oct (st_access st)), (''tcp_backlog'', print_int (st_backlog st)),
       (''evictions'', print_int (sint (evict_opt g))), (''growth_factor'', x_fmt_factor x (st_factor st)),
       (''maxbytes'', print_dec (maxbytes g)), (''chunk_size'', print_d32 (chunk_size g)), (''slab_size'', print_d32 (slab_size_opt g)),
       (''username'', print_str (st_username st)), (''stats_agg_intvl'', x_fmt_intvl x (sv_stats_intvl sv)),
       (''hash_power'', print_d32 (hash_power_opt g)), (''klog_name'', print_str (st_klog_name st)),
       (''klog_sampling_rate'', print_int (klog_sampling_rate (sv_klog sv))), (''klog_entry'', print_d32 (klog_entry (sv_klog sv))),
       (''klog_intvl'', x_fmt_intvl x (st_klog_intvl st))])"

definition stats_settings :: "'d world \<Rightarrow> 'd srv \<Rightarrow> 'd srv" where
  "stats_settings x sv = up_conn (fold (stats_print (x_al x)) (settings_lines x sv)) sv"

text \<open>The metrics of the threads, each gauge followed by its maximum, and the summary of the slabs.\<close>

definition metric_line :: "bytes \<Rightarrow> stats_metric \<Rightarrow> bytes \<times> bytes" where
  "metric_line name m = (name, print_int (stats_metric_val m))"

definition thread_lines :: "aggregator \<Rightarrow> tmetric \<times> stats_metric \<times> bytes \<Rightarrow> (bytes \<times> bytes) list" where
  "thread_lines ag e =
     (case e of (m, _, name) \<Rightarrow>
        metric_line name (ag_thread ag m)
        # (if is_gauge (ag_thread ag m) then [metric_line (take 62 (name @ ''_max'')) (ag_tmax ag m)] else []))"

definition default_lines :: "'d world \<Rightarrow> 'd srv \<Rightarrow> (bytes \<times> bytes) list" where
  "default_lines x sv =
     (let ck = sv_clock sv; ag = sv_agg sv; u = x_rusage x (sv_calls sv); (major, minor, patch) = x_version x in
      [(''pid'', print_int (st_pid (sv_conf sv))), (''uptime'', print_dec (unat (ck_now ck))),
       (''time'', print_int (process_started ck + uint (ck_now ck))), (''aggregate_ts'', print_timeval (ag_ts ag)),
       (''version'', zero_pad 2 (print_dec major) @ zero_pad 2 (print_dec minor) @ zero_pad 2 (print_dec patch)),
       (''pointer_size'', print_dec 64),
       (''rusage_user'', print_timeval (ru_utime u)), (''rusage_system'', print_timeval (ru_stime u)),
       (''rusage_maxrss'', print_int (ru_maxrss u)), (''rusage_nvcsw'', print_int (ru_nvcsw u)), (''rusage_nivcsw'', print_int (ru_nivcsw u)),
       (''nbyte_primary'', print_dec (nbyte_primary (hashtbl (sv_cache sv)))), (''nbyte_old'', print_dec (nbyte_old (hashtbl (sv_cache sv))))]
      @ concat (map (thread_lines ag) STATS_THREAD_METRICS)
      @ map (\<lambda>(m, _, name). metric_line name (ag_slabs ag 0 m)) STATS_SLAB_METRICS)"

definition stats_default :: "'d world \<Rightarrow> 'd srv \<Rightarrow> 'd srv" where
  "stats_default x sv = up_conn (fold (stats_print (x_al x)) (default_lines x sv)) (sv\<lparr>sv_calls := sv_calls sv + 1\<rparr>)"

text \<open>The lines of a slab class.\<close>

definition slab_lines :: "aggregator \<Rightarrow> nat \<Rightarrow> (bytes \<times> bytes) list" where
  "slab_lines ag cid =
     map (\<lambda>(name, val). (print_dec cid @ '':'' @ name, val))
       ([(''chunk_size'', print_dec (sk_chunk_size (ag_const ag cid))), (''chunks_per_page'', print_dec (sk_items_perslab (ag_const ag cid)))]
        @ map (\<lambda>(m, _, name). metric_line name (ag_slabs ag cid m)) STATS_SLAB_METRICS)"

definition stats_slabs :: "'d world \<Rightarrow> 'd srv \<Rightarrow> 'd srv" where
  "stats_slabs x sv =
     (let lines = concat (map (slab_lines (sv_agg sv)) [SLABCLASS_MIN_ID..<slabclass_max_id (sv_cache sv) + 1]);
          append = (\<lambda>(key, val). stats_append (x_al x) (take (STATS_KEY_LEN - 1) key) (length key) (take (STATS_VAL_LEN - 1) val) (length val))
      in up_conn (\<lambda>c. stats_end (x_al x) (fold append lines c)) sv)"

text \<open>
  The histogram of item sizes. The key of a bucket is only formatted inside an \<^verbatim>\<open>ASSERT\<close>, which expands to nothing, so what is printed for it
  is whatever the array on the stack holds.
\<close>

definition STATS_BUCKET_SIZE :: nat where "STATS_BUCKET_SIZE = 32"

definition size_bucket :: "item \<Rightarrow> nat" where
  "size_bucket it = (item_size it - 1) div STATS_BUCKET_SIZE + 1"

definition size_histogram :: "cache \<Rightarrow> nat \<Rightarrow> nat" where
  "size_histogram s b =
     length (filter (\<lambda>p. size_bucket (items s p) = b) (concat (map (item_lruq s) [SLABCLASS_MIN_ID..<slabclass_max_id s + 1])))"

definition stats_sizes :: "'d world \<Rightarrow> 'd srv \<Rightarrow> 'd srv" where
  "stats_sizes x sv =
     (let s = sv_cache sv; num_buckets = slab_size_opt (settings s) div STATS_BUCKET_SIZE + 1;
          ok = x_al x (c_nalloc (sv_conn sv));
          lines = (if ok then map (\<lambda>b. (c_str (x_stack x (sv_calls sv)), print_dec (size_histogram s b)))
                                (filter (\<lambda>b. size_histogram s b \<noteq> 0) [0..<num_buckets]) else []);
          sv = up_conn (\<lambda>c. c\<lparr>c_nalloc := c_nalloc c + 1\<rparr>) sv;
          sv = (if lines = [] then sv else up_cache (\<lambda>s. s\<lparr>ub := True\<rparr>) sv);
          sv = up_conn (fold (stats_print (x_al x)) lines) sv
      in up_conn (stats_end (x_al x)) sv)"

section \<open>The dump of a slab class\<close>

definition ITEM_CACHEDUMP_MEMLIMIT :: nat where "ITEM_CACHEDUMP_MEMLIMIT = 2 * 1024 * 1024"

definition dump_line :: "int \<Rightarrow> item \<Rightarrow> bytes" where
  "dump_line started it =
     ''ITEM '' @ c_str (item_key it) @ '' ['' @ print_int (sint (it_nbyte it)) @ '' b; ''
       @ print_dec (unat (ucast (it_exptime it) + word_of_int started :: u64)) @ '' s]'' @ CRLF"

text \<open>\<open>shown\<close> lines with \<open>bufcurr\<close> bytes are in the buffer; the loop goes on with the items that follow. A limit of 0 is no limit.\<close>

fun dump_loop :: "int \<Rightarrow> cache \<Rightarrow> nat \<Rightarrow> nat \<Rightarrow> nat \<Rightarrow> addr list \<Rightarrow> bytes" where
  "dump_loop started s limit shown bufcurr [] = []"
| "dump_loop started s limit shown bufcurr (p # ps) =
     (if limit = 0 \<or> shown < limit then
        (let line = dump_line started (items s p) in
         if bufcurr + length line + 5 > ITEM_CACHEDUMP_MEMLIMIT then []
         else line @ dump_loop started s limit (shown + 1) (bufcurr + length line) ps)
      else [])"

definition item_cache_dump :: "bool \<Rightarrow> int \<Rightarrow> nat \<Rightarrow> nat \<Rightarrow> cache \<Rightarrow> bytes option" where
  "item_cache_dump ok started cid limit s =
     (if ok then Some (dump_loop started s limit 0 0 (item_lruq s cid) @ ''END'' @ CRLF) else None)"

section \<open>The command\<close>

text \<open>\<^verbatim>\<open>strncmp(t->val, lit, t->len) == 0\<close>, which also holds for every prefix of \<open>lit\<close>.\<close>

definition tok_is :: "token \<Rightarrow> bytes \<Rightarrow> bool" where
  "tok_is t lit \<longleftrightarrow> strncmp_eq (the (tok_val t)) lit (tok_len t)"

text \<open>A buffer of the stats commands is sent and then freed.\<close>

definition core_write_and_free :: "bytes option \<Rightarrow> nat \<Rightarrow> 'd srv \<Rightarrow> 'd srv" where
  "core_write_and_free buf bytes sv =
     (case buf of
        Some b \<Rightarrow> up_conn (\<lambda>c. (conn_set_state CONN_WRITE (c\<lparr>c_write_and_free := Some b, c_wcurr := (O_heap, 0), c_wbytes := bytes\<rparr>))
                              \<lparr>c_write_and_go := CONN_NEW_CMD\<rparr>) sv
      | None \<Rightarrow> server_error sv)"

text \<open>The end of the handler: the buffer is sent.\<close>

definition send_stats :: "'d srv \<Rightarrow> 'd srv" where
  "send_stats sv =
     (case c_stats_buffer (sv_conn sv) of
        None \<Rightarrow> server_error sv
      | Some b \<Rightarrow> up_conn (\<lambda>c. c\<lparr>c_stats_buffer := None\<rparr>) (core_write_and_free (Some b) (c_stats_offset (sv_conn sv)) sv))"

definition process_cachedump :: "'d world \<Rightarrow> token list \<Rightarrow> 'd srv \<Rightarrow> 'd srv" where
  "process_cachedump x token sv =
     (if length token < 5 then client_error sv
      else
        (case (mc_strtoul (the (tok_val (token ! 2))), mc_strtoul (the (tok_val (token ! 3)))) of
           (Some cid, Some limit) \<Rightarrow>
             if unat cid < SLABCLASS_MIN_ID \<or> unat cid > SLABCLASS_MAX_ID then client_error sv
             else
               (let buf = item_cache_dump (x_al x (c_nalloc (sv_conn sv))) (sv_started sv) (unat cid) (unat limit) (sv_cache sv);
                    sv = up_conn (\<lambda>c. c\<lparr>c_nalloc := c_nalloc c + 1\<rparr>) sv
                in core_write_and_free buf (length (the buf)) sv)
         | _ \<Rightarrow> client_error sv))"

definition asc_process_stats :: "'d world \<Rightarrow> token list \<Rightarrow> 'd srv \<Rightarrow> 'd srv" where
  "asc_process_stats x token sv =
     (if \<not> stats_enabled sv then server_error sv
      else
        (case asc_validate_ntoken token sv of
           (False, sv) \<Rightarrow> sv
         | (True, sv) \<Rightarrow>
             (let t = token ! 1 in
              if length token = 2 then send_stats (up_conn (stats_end (x_al x)) (stats_default x sv))
              else if tok_is t ''reset'' then server_error sv
              else if tok_is t ''settings'' then send_stats (up_conn (stats_end (x_al x)) (stats_settings x sv))
              else if tok_is t ''cachedump'' then process_cachedump x token sv
              else if tok_is t ''slabs'' then send_stats (stats_slabs x sv)
              else if tok_is t ''sizes'' then send_stats (stats_sizes x sv)
              else client_error sv)))"

end
