(* ===== verification/McDispatch.thy ===== *)
theory McDispatch
  imports McReport
begin

text \<open>
  The remaining handlers of \<^verbatim>\<open>mc_ascii.c\<close>: flush, verbosity and the configuration commands; the dispatch of a request to its
  handler; and the extraction of a request line from the read buffer.
\<close>

section \<open>Configuration\<close>

definition STATS_DEFAULT_INTVL :: int where "STATS_DEFAULT_INTVL = 100000"
definition KLOG_MIN_INTVL :: int where "KLOG_MIN_INTVL = 100"
definition KLOG_DEFAULT_SMP_RATE :: int where "KLOG_DEFAULT_SMP_RATE = 100"

definition stats_set_interval :: "int \<Rightarrow> 'd srv \<Rightarrow> 'd srv" where
  "stats_set_interval interval sv = sv\<lparr>sv_stats_intvl := interval\<rparr>"

definition log_level_set :: "int \<Rightarrow> 'd srv \<Rightarrow> 'd srv" where
  "log_level_set level sv = sv\<lparr>sv_verbose := max 0 (min level 11)\<rparr>"

abbreviation rsp_ok :: "'d srv \<Rightarrow> 'd srv" where
  "rsp_ok sv \<equiv> snd (asc_rsp_ok sv)"

definition asc_process_klog :: "token list \<Rightarrow> 'd srv \<Rightarrow> 'd srv" where
  "asc_process_klog token sv =
     (case asc_validate_ntoken token sv of
        (False, sv) \<Rightarrow> sv
      | (True, sv) \<Rightarrow>
          (let t = token ! 2; u = token ! 3 in
           if tok_is t ''run'' then
             (if \<not> (st_klog_name (sv_conf sv) \<noteq> None) then client_error sv
              else if tok_is u ''start'' then rsp_ok (sv\<lparr>sv_klog := (sv_klog sv)\<lparr>klog_running := True\<rparr>\<rparr>)
              else if tok_is u ''stop'' then rsp_ok (sv\<lparr>sv_klog := (sv_klog sv)\<lparr>klog_running := False\<rparr>\<rparr>)
              else client_error sv)
           else if tok_is t ''interval'' then
             (if tok_is u ''reset'' then rsp_ok (stats_set_interval STATS_DEFAULT_INTVL sv)
              else
                (case mc_strtol (the (tok_val u)) of
                   None \<Rightarrow> client_error sv
                 | Some interval \<Rightarrow>
                     if interval < KLOG_MIN_INTVL then client_error sv else rsp_ok (stats_set_interval interval sv)))
           else if tok_is t ''sampling'' then
             (if tok_is u ''reset''
              then rsp_ok (sv\<lparr>sv_klog := (sv_klog sv)\<lparr>klog_sampling_rate := KLOG_DEFAULT_SMP_RATE\<rparr>\<rparr>)
              else
                (case mc_strtol (the (tok_val u)) of
                   None \<Rightarrow> client_error sv
                 | Some sampling \<Rightarrow>
                     if sampling \<le> 0 then client_error sv
                     else rsp_ok (sv\<lparr>sv_klog := (sv_klog sv)\<lparr>klog_sampling_rate := sampling\<rparr>\<rparr>)))
           else client_error sv))"

definition asc_process_verbosity :: "token list \<Rightarrow> 'd srv \<Rightarrow> 'd srv" where
  "asc_process_verbosity token sv =
     (let sv = asc_set_noreply_maybe token sv in
      if length token \<noteq> 3 \<and> length token \<noteq> 4 then client_error sv
      else
        (case get_arg mc_strtoul 1 token sv of
           (None, sv) \<Rightarrow> sv
         | (Some level, sv) \<Rightarrow> rsp_ok (log_level_set (sint level) sv)))"

definition asc_process_aggregate :: "token list \<Rightarrow> 'd srv \<Rightarrow> 'd srv" where
  "asc_process_aggregate token sv =
     (if length token \<noteq> 4 then client_error sv
      else
        (case get_arg mc_strtol 2 token sv of
           (None, sv) \<Rightarrow> sv
         | (Some interval, sv) \<Rightarrow>
             rsp_ok (stats_set_interval
               (if interval > 0 then interval else if interval = 0 then STATS_DEFAULT_INTVL else -1000000) sv)))"

definition asc_process_evict :: "token list \<Rightarrow> 'd srv \<Rightarrow> 'd srv" where
  "asc_process_evict token sv =
     (if length token \<noteq> 4 then client_error sv
      else
        (case get_arg mc_strtol 2 token sv of
           (None, sv) \<Rightarrow> sv
         | (Some option, sv) \<Rightarrow>
             if option \<ge> 0 \<and> option < EVICT_INVALID
             then rsp_ok (up_cache (\<lambda>s. s\<lparr>settings := (settings s)\<lparr>evict_opt := word_of_int option\<rparr>\<rparr>) sv)
             else client_error sv))"

definition asc_process_maxbytes :: "token list \<Rightarrow> 'd srv \<Rightarrow> 'd srv" where
  "asc_process_maxbytes token sv =
     (if length token \<noteq> 4 then client_error sv
      else
        (case get_arg mc_strtoull 2 token sv of
           (None, sv) \<Rightarrow> sv
         | (Some option, sv) \<Rightarrow>
             if unat option < 2 ^ 64 - 1 \<and> unat option \<ge> maxbytes (settings (sv_cache sv))
             then rsp_ok (up_cache (\<lambda>s. s\<lparr>settings := (settings s)\<lparr>maxbytes := unat option\<rparr>\<rparr>) sv)
             else client_error sv))"

definition asc_process_hk_enable :: "token list \<Rightarrow> 'd srv \<Rightarrow> 'd srv" where
  "asc_process_hk_enable token sv =
     (let t = token ! 3 in
      if tok_is t ''yes'' then
        (if hotkey_realloc (sv_hot sv) then client_error sv
         else rsp_ok (sv\<lparr>sv_hot := (sv_hot sv)\<lparr>set_hotkey_enable := True\<rparr>\<rparr>))
      else if tok_is t ''no'' then rsp_ok (sv\<lparr>sv_hot := (sv_hot sv)\<lparr>set_hotkey_enable := False\<rparr>\<rparr>)
      else client_error sv)"

text \<open>The two handlers that reallocate the window; \<open>upd\<close> is the update of the detector.\<close>

definition hk_update :: "'d world \<Rightarrow> (hk_mem \<Rightarrow> u64 \<Rightarrow> 'd hotkey \<Rightarrow> (rstatus \<times> 'd hotkey) option) \<Rightarrow> token list
    \<Rightarrow> 'd srv \<Rightarrow> 'd srv" where
  "hk_update x upd token sv =
     (if set_hotkey_enable (sv_hot sv) then client_error sv
      else
        (case get_arg mc_strtoul 3 token sv of
           (None, sv) \<Rightarrow> sv
         | (Some option, sv) \<Rightarrow>
             if option > 0 then
               (case upd (x_hkmem x (sv_calls sv)) (ucast option) (sv_hot sv) of
                  None \<Rightarrow> up_cache (\<lambda>s. s\<lparr>ub := True\<rparr>) sv
                | Some (st, h) \<Rightarrow>
                    (let sv = sv\<lparr>sv_hot := h, sv_calls := sv_calls sv + 1\<rparr>
                     in if st \<noteq> MC_OK then client_error sv else rsp_ok sv))
             else client_error sv))"

definition asc_process_hk_redline :: "'d world \<Rightarrow> token list \<Rightarrow> 'd srv \<Rightarrow> 'd srv" where
  "asc_process_hk_redline x = hk_update x hotkey_update_redline"

definition asc_process_hk_sample_rate :: "'d world \<Rightarrow> token list \<Rightarrow> 'd srv \<Rightarrow> 'd srv" where
  "asc_process_hk_sample_rate x = hk_update x hotkey_update_sample_rate"

definition asc_process_hk_qps_threshold :: "'d world \<Rightarrow> token list \<Rightarrow> 'd srv \<Rightarrow> 'd srv" where
  "asc_process_hk_qps_threshold x token sv =
     (let option = x_strtod x (the (tok_val (token ! 3))) in
      if x_fraction x option
      then rsp_ok (sv\<lparr>sv_hot := hotkey_update_qps_threshold (x_mul x) option (sv_hot sv)\<rparr>)
      else client_error sv)"

definition asc_process_hk_bw_threshold :: "token list \<Rightarrow> 'd srv \<Rightarrow> 'd srv" where
  "asc_process_hk_bw_threshold token sv =
     (case get_arg mc_strtoul 3 token sv of
        (None, sv) \<Rightarrow> sv
      | (Some option, sv) \<Rightarrow> rsp_ok (sv\<lparr>sv_hot := hotkey_update_bw_threshold (ucast option) (sv_hot sv)\<rparr>))"

definition asc_process_hotkey :: "'d world \<Rightarrow> token list \<Rightarrow> 'd srv \<Rightarrow> 'd srv" where
  "asc_process_hotkey x token sv =
     (case asc_validate_ntoken token sv of
        (False, sv) \<Rightarrow> sv
      | (True, sv) \<Rightarrow>
          if length token \<noteq> 5 then client_error sv
          else
            (let t = token ! 2 in
             if tok_is t ''enable'' then asc_process_hk_enable token sv
             else if tok_is t ''redline'' then asc_process_hk_redline x token sv
             else if tok_is t ''sample_rate'' then asc_process_hk_sample_rate x token sv
             else if tok_is t ''qps_threshold'' then asc_process_hk_qps_threshold x token sv
             else if tok_is t ''bw_threshold'' then asc_process_hk_bw_threshold token sv
             else client_error sv))"

definition asc_process_config :: "'d world \<Rightarrow> token list \<Rightarrow> 'd srv \<Rightarrow> 'd srv" where
  "asc_process_config x token sv =
     (let t = token ! 1 in
      if tok_is t ''aggregate'' then asc_process_aggregate token sv
      else if tok_is t ''klog'' then asc_process_klog token sv
      else if tok_is t ''evict'' then asc_process_evict token sv
      else if tok_is t ''maxbytes'' then asc_process_maxbytes token sv
      else if tok_is t ''hotkey'' then asc_process_hotkey x token sv
      else client_error sv)"

section \<open>Flush\<close>

definition srv_time_update :: "'d world \<Rightarrow> 'd srv \<Rightarrow> 'd srv" where
  "srv_time_update x sv =
     (let (tv_sec, tv_nsec) = x_time x (sv_calls sv); ck = time_update tv_sec tv_nsec (sv_clock sv)
      in up_cache (\<lambda>s. s\<lparr>now := ck_now ck\<rparr>) (sv\<lparr>sv_usec := ck_now_usec ck, sv_calls := sv_calls sv + 1\<rparr>))"

definition flush_at :: "u32 \<Rightarrow> 'd srv \<Rightarrow> 'd srv" where
  "flush_at oldest sv =
     rsp_ok (up_cache item_flush_expired (up_cache (\<lambda>s. s\<lparr>settings := (settings s)\<lparr>oldest_live := oldest\<rparr>\<rparr>) sv))"

definition asc_process_flushall :: "'d world \<Rightarrow> token list \<Rightarrow> 'd srv \<Rightarrow> 'd srv" where
  "asc_process_flushall x token sv =
     (let sv = asc_set_noreply_maybe token (srv_time_update x sv) in
      case asc_validate_ntoken token sv of
        (False, sv) \<Rightarrow> sv
      | (True, sv) \<Rightarrow>
          if length token = fst (ntoken_bound REQ_FLUSHALL (c_noreply (sv_conn sv)))
          then flush_at (now (sv_cache sv) - 1) sv
          else
            (case get_arg mc_strtol 1 token sv of
               (None, sv) \<Rightarrow> sv
             | (Some exptime, sv) \<Rightarrow>
                 if exptime > 0 then flush_at (time_reltime exptime (sv_clock sv) - 1) sv
                 else flush_at (now (sv_cache sv) - 1) sv))"

section \<open>Dispatch\<close>

text \<open>The counter of each command that has one.\<close>

fun cmd_metric :: "req_type \<Rightarrow> tmetric option" where
  "cmd_metric REQ_GET = Some THREAD_get"
| "cmd_metric REQ_GETS = Some THREAD_gets"
| "cmd_metric REQ_SET = Some THREAD_set"
| "cmd_metric REQ_CAS = Some THREAD_cas"
| "cmd_metric REQ_ADD = Some THREAD_add"
| "cmd_metric REQ_REPLACE = Some THREAD_replace"
| "cmd_metric REQ_APPEND = Some THREAD_append"
| "cmd_metric REQ_PREPEND = Some THREAD_prepend"
| "cmd_metric REQ_APPENDRL = Some THREAD_appendrl"
| "cmd_metric REQ_PREPENDRL = Some THREAD_prependrl"
| "cmd_metric REQ_INCR = Some THREAD_incr"
| "cmd_metric REQ_DECR = Some THREAD_decr"
| "cmd_metric REQ_DELETE = Some THREAD_delete"
| "cmd_metric _ = None"

definition count_cmd :: "req_type \<Rightarrow> 'd srv \<Rightarrow> 'd srv" where
  "count_cmd rt sv = (case cmd_metric rt of None \<Rightarrow> sv | Some m \<Rightarrow> tick m (tick THREAD_cmd_total sv))"

text \<open>The choice of the handler.\<close>

definition asc_switch :: "'d world \<Rightarrow> req_type \<Rightarrow> token list \<Rightarrow> 'd srv \<Rightarrow> 'd srv option" where
  "asc_switch x rt token sv =
     (case rt of
        REQ_GET \<Rightarrow> asc_process_read x token sv
      | REQ_GETS \<Rightarrow> asc_process_read x token sv
      | REQ_SET \<Rightarrow> Some (asc_process_update x token sv)
      | REQ_CAS \<Rightarrow> Some (asc_process_update x token sv)
      | REQ_ADD \<Rightarrow> Some (asc_process_update x token sv)
      | REQ_REPLACE \<Rightarrow> Some (asc_process_update x token sv)
      | REQ_APPEND \<Rightarrow> Some (asc_process_annex x token sv)
      | REQ_PREPEND \<Rightarrow> Some (asc_process_annex x token sv)
      | REQ_APPENDRL \<Rightarrow> Some (asc_process_annex x token sv)
      | REQ_PREPENDRL \<Rightarrow> Some (asc_process_annex x token sv)
      | REQ_INCR \<Rightarrow> Some (asc_process_delta x token sv)
      | REQ_DECR \<Rightarrow> Some (asc_process_delta x token sv)
      | REQ_DELETE \<Rightarrow> Some (asc_process_delete x token sv)
      | REQ_STATS \<Rightarrow> Some (asc_process_stats x token sv)
      | REQ_FLUSHALL \<Rightarrow> Some (asc_process_flushall x token sv)
      | REQ_VERSION \<Rightarrow> Some (snd (asc_rsp_version x sv))
      | REQ_QUIT \<Rightarrow> Some (up_conn (conn_set_state CONN_CLOSE) sv)
      | REQ_VERBOSITY \<Rightarrow> Some (asc_process_verbosity token sv)
      | REQ_CONFIG \<Rightarrow> Some (asc_process_config x token sv)
      | REQ_UNKNOWN \<Rightarrow> Some (client_error sv))"

definition asc_dispatch :: "'d world \<Rightarrow> 'd srv \<Rightarrow> 'd srv option" where
  "asc_dispatch x sv =
     (let sv = up_conn (\<lambda>c. c\<lparr>c_msg_curr := 0, c_msg := [], c_iov := []\<rparr>) sv in
      case on_cm (conn_add_msghdr (x_al x)) sv of
        (st, sv) \<Rightarrow>
          if st \<noteq> MC_OK then Some (server_error sv)
          else
            (let token = asc_tokenize (c_str (c_req (sv_conn sv))) TOKEN_MAX;
                 rt = asc_parse_type token
             in asc_switch x rt token (count_cmd rt (up_conn (\<lambda>c. c\<lparr>c_req_type := rt\<rparr>) sv))))"

section \<open>Request lines\<close>

text \<open>The offset of the first occurrence of a byte.\<close>

definition memchr :: "char \<Rightarrow> bytes \<Rightarrow> nat option" where
  "memchr ch bs = (let n = length (takeWhile (\<lambda>c. c \<noteq> ch) bs) in if n < length bs then Some n else None)"

text \<open>
  A long input without an end of line must be a lookup. The scan for the first character that is not a blank has no other bound
  in the code than that character.
\<close>

definition large_get :: "bytes \<Rightarrow> bool" where
  "large_get bs \<longleftrightarrow>
     (let n = length (takeWhile (\<lambda>c. c = CHR '' '') bs); rest = drop n bs
      in n \<le> 100 \<and> (take 4 rest = ''get '' \<or> take 5 rest = ''gets ''))"

definition asc_parse :: "'d world \<Rightarrow> 'd srv \<Rightarrow> (rstatus \<times> 'd srv) option" where
  "asc_parse x sv =
     (let c = sv_conn sv in
      if c_rbytes c = 0 then Some (MC_EAGAIN, sv)
      else
        (case memchr (CHR 0x0A) (unread c) of
           None \<Rightarrow>
             if c_rbytes c > 1024 \<and> \<not> large_get (drop (c_rcurr c) (c_rbuf c))
             then Some (MC_ERROR, up_conn (conn_set_state CONN_CLOSE) sv)
             else Some (MC_EAGAIN, sv)
         | Some n \<Rightarrow>
             (let el = (if n > 1 \<and> unread c ! (n - 1) = CHR 0x0D then n - 1 else n);
                  sv = up_conn (\<lambda>c. c\<lparr>c_req := take el (unread c), c_rbuf := (c_rbuf c)[c_rcurr c + el := CHR 0x00]\<rparr>) sv
              in case asc_dispatch x sv of
                   None \<Rightarrow> None
                 | Some sv \<Rightarrow>
                     Some (MC_OK, up_conn (\<lambda>c. c\<lparr>c_rbytes := c_rbytes c - (n + 1), c_rcurr := c_rcurr c + (n + 1)\<rparr>) sv))))"

end
