(* ===== verification/McFrame.thy ===== *)
theory McFrame
  imports McDispatch
begin

text \<open>
  What the handlers of requests leave alone in a connection. A function \<open>F\<close> of the connection that does not look at the fields by which a reply is
  made is kept by every handler that only replies; if it does not look at the lists of pending data either, it is kept by lookups too.
\<close>

section \<open>The connection of a server state\<close>

named_theorems frame

abbreviation (input) fr :: "(conn \<Rightarrow> 'f) \<Rightarrow> 'd srv \<Rightarrow> 'f" where
  "fr F sv \<equiv> F (sv_conn sv)"

lemma conn_up_cache [simp]: "sv_conn (up_cache f sv) = sv_conn sv"
  by (simp add: up_cache_def)

lemma up_conn_fields [simp]: "sv_conn (up_conn f sv) = f (sv_conn sv)" "sv_cache (up_conn f sv) = sv_cache sv" "sv_suffix (up_conn f sv) = sv_suffix sv"
  by (simp_all add: up_conn_def)

lemma conn_on_cache: "on_cache f sv = (r, sv') \<Longrightarrow> sv_conn sv' = sv_conn sv"
  by (auto simp: on_cache_def split: prod.splits)

lemma conn_on_cache_snd [simp]: "sv_conn (snd (on_cache f sv)) = sv_conn sv"
  by (simp add: on_cache_def split: prod.splits)

lemma conn_klog [simp]: "sv_conn (klog_call x ck st rl sv) = sv_conn sv"
  by (simp add: klog_call_def split: option.splits prod.splits)

lemma conn_respond [simp]: "sv_conn (respond x rsp st sv) = sv_conn (snd (rsp sv))"
  by (simp add: respond_def Let_def split: prod.splits)

lemma set_state_eq: "conn_set_state st c = c\<lparr>c_state := st\<rparr>"
  by (simp add: conn_set_state_def)

section \<open>Handlers that only reply\<close>

locale reply_frame =
  fixes F :: "conn \<Rightarrow> 'f"
  assumes reply_laws [simp]:
    "\<And>f c. F (c_state_update f c) = F c" "\<And>f c. F (c_noreply_update f c) = F c" "\<And>f c. F (c_item_update f c) = F c"
    "\<And>f c. F (c_ritem_update f c) = F c" "\<And>f c. F (c_rlbytes_update f c) = F c" "\<And>f c. F (c_write_and_go_update f c) = F c"
    "\<And>f c. F (c_sbytes_update f c) = F c" "\<And>f c. F (c_wbuf_update f c) = F c" "\<And>f c. F (c_wbytes_update f c) = F c"
    "\<And>f c. F (c_wcurr_update f c) = F c"
begin

lemma frame_state [simp]: "F (conn_set_state st c) = F c"
  by (simp add: set_state_eq)

lemma frame_write [frame]: "fr F (asc_write_string str sv) = fr F sv"
  by (auto simp: asc_write_string_def Let_def split: prod.splits if_splits)

lemma frame_rsp [frame]:
  "fr F (snd (asc_rsp_stored sv)) = fr F sv" "fr F (snd (asc_rsp_exists sv)) = fr F sv" "fr F (snd (asc_rsp_not_found sv)) = fr F sv"
  "fr F (snd (asc_rsp_not_stored sv)) = fr F sv" "fr F (snd (asc_rsp_deleted sv)) = fr F sv" "fr F (client_error sv) = fr F sv"
  "fr F (server_error sv) = fr F sv" "fr F (snd (asc_rsp_ok sv)) = fr F sv" "fr F (snd (asc_rsp_version x sv)) = fr F sv"
  "fr F (snd (asc_rsp_int n sv)) = fr F sv"
  by (simp_all add: asc_rsp_stored_def asc_rsp_exists_def asc_rsp_not_found_def asc_rsp_not_stored_def asc_rsp_deleted_def
      asc_rsp_client_error_def asc_rsp_server_error_def asc_rsp_ok_def asc_rsp_version_def asc_rsp_int_def Let_def frame)

lemma frame_klog [frame]: "fr F (klog_call x ck st rl sv) = fr F sv"
  by (simp add: klog_call_def frame split: option.splits prod.splits)

lemma frame_respond [frame]: "fr F (snd (rsp sv)) = fr F sv \<Longrightarrow> fr F (respond x rsp st sv) = fr F sv"
  by (auto simp: respond_def frame Let_def split: prod.splits)

lemma frame_args [frame]:
  "fr F (snd (asc_validate_ntoken token sv)) = fr F sv" "fr F (snd (asc_get_slabid nk vl sv)) = fr F sv"
  "fr F (snd (asc_get_key token sv)) = fr F sv" "fr F (snd (get_arg parse k token sv)) = fr F sv"
  "fr F (asc_set_noreply_maybe token sv) = fr F sv"
  by (simp_all add: asc_validate_ntoken_def asc_get_slabid_def asc_get_key_def get_arg_def asc_set_noreply_maybe_def Let_def frame
      split: prod.splits option.splits)

text \<open>The same facts in the form in which a case analysis on the result of a call gives them.\<close>

lemma frame_dest:
  "asc_validate_ntoken token sv = (r, sv1) \<Longrightarrow> fr F sv1 = fr F sv" "asc_get_slabid nk vl sv = (r', sv1) \<Longrightarrow> fr F sv1 = fr F sv"
  "asc_get_key token sv = (r'', sv1) \<Longrightarrow> fr F sv1 = fr F sv" "get_arg parse k token sv = (a, sv1) \<Longrightarrow> fr F sv1 = fr F sv"
  "on_cache f sv = (b, sv1) \<Longrightarrow> fr F sv1 = fr F sv"
  by (drule arg_cong [of _ _ "\<lambda>p. fr F (snd p)"], simp add: frame)+

lemma frame_start [frame]: "fr F (start_nread it sv) = fr F sv" "fr F (swallow vlen key sv) = fr F sv"
  by (simp_all add: start_nread_def swallow_def Let_def frame)

text \<open>The two shapes of a handler: an argument or an early return, and the choice on the result of an operation on the cache.\<close>

lemma frame_bind:
  assumes "fr F (snd p) = m" and "\<And>sv'. fr F sv' = m \<Longrightarrow> fr F (n sv') = m" and "\<And>v sv'. fr F sv' = m \<Longrightarrow> fr F (k v sv') = m"
  shows "fr F (case p of (None, sv) \<Rightarrow> n sv | (Some v, sv) \<Rightarrow> k v sv) = m"
  using assms by (cases p; cases "fst p") auto

lemma frame_guard:
  assumes "fr F (snd p) = m" and "\<And>sv'. fr F sv' = m \<Longrightarrow> fr F (k sv') = m"
  shows "fr F (case p of (False, sv) \<Rightarrow> sv | (True, sv) \<Rightarrow> k sv) = m"
  using assms by (cases p; cases "fst p") auto

lemma frame_get_arg: "fr F (snd (asc_get_flags token sv)) = fr F sv" "fr F (snd (asc_get_expiry token sv)) = fr F sv"
  "fr F (snd (asc_get_vlen token sv)) = fr F sv" "fr F (snd (asc_get_delta token sv)) = fr F sv"
  by (simp_all add: asc_get_flags_def asc_get_expiry_def asc_get_vlen_def asc_get_delta_def frame)

lemma frame_process [frame]:
  "fr F (asc_process_update x token sv) = fr F sv" "fr F (asc_process_annex x token sv) = fr F sv"
  "fr F (asc_process_delta x token sv) = fr F sv" "fr F (asc_process_delete x token sv) = fr F sv"
  unfolding asc_process_update_def asc_process_annex_def asc_process_delta_def asc_process_delete_def Let_def
  by (rule frame_guard frame_bind | simp add: frame frame_get_arg | (auto simp: frame dest!: frame_dest(5)
      split: prod.split item_delta_result.split item_delete_result.split; fail))+

lemma frame_config [frame]:
  "fr F (asc_process_klog token sv) = fr F sv" "fr F (asc_process_verbosity token sv) = fr F sv"
  "fr F (asc_process_aggregate token sv) = fr F sv" "fr F (asc_process_evict token sv) = fr F sv"
  "fr F (asc_process_maxbytes token sv) = fr F sv" "fr F (asc_process_hk_enable token sv) = fr F sv"
  "fr F (hk_update x upd token sv) = fr F sv" "fr F (asc_process_hk_qps_threshold x token sv) = fr F sv"
  "fr F (asc_process_hk_bw_threshold token sv) = fr F sv"
  by (auto simp: asc_process_klog_def asc_process_verbosity_def asc_process_aggregate_def asc_process_evict_def asc_process_maxbytes_def
      asc_process_hk_enable_def hk_update_def asc_process_hk_qps_threshold_def asc_process_hk_bw_threshold_def stats_set_interval_def
      log_level_set_def Let_def frame dest!: frame_dest split: prod.splits bool.splits option.splits if_splits)

lemma frame_rest [frame]:
  "fr F (asc_process_hotkey x token sv) = fr F sv" "fr F (srv_time_update x sv) = fr F sv" "fr F (flush_at t sv) = fr F sv"
  "fr F (count_cmd rt sv) = fr F sv"
  by (auto simp: asc_process_hotkey_def asc_process_hk_redline_def asc_process_hk_sample_rate_def srv_time_update_def flush_at_def
      count_cmd_def Let_def frame dest!: frame_dest split: prod.splits bool.splits option.splits)

lemma frame_top [frame]:
  fixes sv :: "'d srv"
  shows "fr F (asc_process_config x token sv) = fr F sv" "fr F (asc_process_flushall x token sv) = fr F sv"
proof -
  show "fr F (asc_process_config x token sv) = fr F sv" by (simp add: asc_process_config_def Let_def frame)
  have "fr F (case asc_validate_ntoken token sv' of (False, sv1) \<Rightarrow> sv1 | (True, sv1) \<Rightarrow> k sv1) = fr F sv'"
    if "\<And>sv1. fr F (k sv1) = fr F sv1" for k and sv' :: "'d srv"
    by (rule frame_guard) (simp_all add: frame that)
  moreover have "fr F (case get_arg p n token sv' of (None, sv1) \<Rightarrow> sv1 | (Some v, sv1) \<Rightarrow> k v sv1) = fr F sv'"
    if "\<And>v sv1. fr F (k v sv1) = fr F sv1" for p n and k :: "int \<Rightarrow> 'd srv \<Rightarrow> 'd srv" and sv' :: "'d srv"
    by (rule frame_bind) (simp_all add: frame that)
  ultimately show "fr F (asc_process_flushall x token sv) = fr F sv" by (simp add: asc_process_flushall_def Let_def frame)
qed

lemma frame_choice:
  assumes "\<And>r sv'. sv_conn sv' = sv_conn sv \<Longrightarrow> fr F (k r sv') = fr F sv"
  shows "fr F (case on_cache f sv of (r, sv') \<Rightarrow> k r sv') = fr F sv"
proof (cases "on_cache f sv")
  case (Pair r sv')
  then show ?thesis using assms [OF conn_on_cache [OF Pair]] by simp
qed

lemma frame_completions [frame]:
  "fr F (asc_complete_set x sv) = fr F sv" "fr F (asc_complete_cas x sv) = fr F sv" "fr F (asc_complete_add x sv) = fr F sv"
  "fr F (asc_complete_replace x sv) = fr F sv"
  unfolding asc_complete_set_def asc_complete_cas_def asc_complete_add_def asc_complete_replace_def Let_def
  by (simp add: frame | (rule frame_choice, simp add: frame split: item_cas_result.split item_add_result.split item_replace_result.split))+

lemma frame_annex [frame]: "fr F (asc_complete_annex x sv) = fr F sv"
proof -
  let ?rt = "c_req_type (sv_conn sv)"
  obtain hit success miss where m: "annex_metrics ?rt = (hit, success, miss)" by (metis prod_cases3)
  obtain r out sv1 where o: "on_cache (item_annex (x_env x) (?rt = REQ_APPEND \<or> ?rt = REQ_APPENDRL) (the (c_item (sv_conn sv)))) sv = ((r, out), sv1)"
    by (metis surj_pair)
  obtain oid nid where ids: "the (ao_ids out) = (oid, nid)" by fastforce
  show ?thesis
    unfolding asc_complete_annex_def Let_def m prod.case o using conn_on_cache [OF o] by (cases r) (simp_all add: ids frame)
qed

lemma frame_complete [frame]: "fr F (asc_complete_nread x sv) = fr F sv"
  by (simp add: asc_complete_nread_def Let_def frame)

lemma frame_switch:
  assumes "rt \<notin> {REQ_GET, REQ_GETS, REQ_STATS}" and "asc_switch x rt token sv = Some sv1"
  shows "fr F sv1 = fr F sv"
  using assms by (auto simp: asc_switch_def frame split: req_type.splits)

end

text \<open>The state in which a loop over tokens ends.\<close>

fun end_state :: "'d read_end \<Rightarrow> 'd srv" where
  "end_state (Read_return sv) = sv"
| "end_state (Read_stop t v sv) = sv"

section \<open>Handlers that add to the pending data\<close>

locale request_frame = reply_frame +
  assumes request_laws [simp]:
    "\<And>f c. F (c_req_type_update f c) = F c" "\<And>f c. F (c_nalloc_update f c) = F c" "\<And>f c. F (c_ilist_update f c) = F c"
    "\<And>f c. F (c_isize_update f c) = F c" "\<And>f c. F (c_slist_update f c) = F c" "\<And>f c. F (c_ssize_update f c) = F c"
    "\<And>f c. F (c_icurr_update f c) = F c" "\<And>f c. F (c_ileft_update f c) = F c" "\<And>f c. F (c_scurr_update f c) = F c"
    "\<And>f c. F (c_sleft_update f c) = F c" "\<And>f c. F (c_iov_update f c) = F c" "\<And>f c. F (c_iov_size_update f c) = F c"
    "\<And>f c. F (c_msg_update f c) = F c" "\<And>f c. F (c_msg_size_update f c) = F c" "\<And>f c. F (c_msg_curr_update f c) = F c"
    "\<And>f c. F (c_msg_bytes_update f c) = F c" "\<And>f c. F (c_udp_hbuf_update f c) = F c" "\<And>f c. F (c_udp_hsize_update f c) = F c"
    "\<And>f c. F (c_stats_buffer_update f c) = F c" "\<And>f c. F (c_stats_size_update f c) = F c" "\<And>f c. F (c_stats_offset_update f c) = F c"
    "\<And>f c. F (c_write_and_free_update f c) = F c"
begin

lemma build_ensure: "conn_ensure_iov_space al (c, m) = (st, c', m') \<Longrightarrow> F c' = F c"
  by (auto simp: conn_ensure_iov_space_def request_laws Let_def split: if_splits)

lemma build_put [simp]: "F (iov_put p n c) = F c"
  by (simp add: iov_put_def request_laws Let_def)

lemma build_slot: "msghdr_slot al (c, m) = (st, c', m') \<Longrightarrow> F c' = F c"
  by (auto simp: msghdr_slot_def request_laws Let_def split: if_splits)

lemma build_msghdr: "conn_add_msghdr al (c, m) = (st, c', m') \<Longrightarrow> F c' = F c"
  by (auto simp: conn_add_msghdr_def dest!: build_ensure build_slot split: prod.splits if_splits)

lemma build_step: "add_iov_step al p n (c, m) = (st, lo, c', m') \<Longrightarrow> F c' = F c"
  by (auto simp: add_iov_step_def Let_def dest!: build_ensure build_msghdr split: prod.splits if_splits)

lemma build_loop: "add_iov_loop al p n cm = (st, cm') \<Longrightarrow> F (fst cm') = F (fst cm)"
proof (induction al p n cm arbitrary: st cm' rule: add_iov_loop.induct)
  case (1 al p n cm)
  obtain c m st1 lo c1 m1 where cm: "cm = (c, m)" and r: "add_iov_step al p n cm = (st1, lo, c1, m1)" by (metis surj_pair)
  have k: "F c1 = F c" by (rule build_step) (use r cm in simp)
  show ?case
  proof (cases "st1 = MC_OK \<and> 0 < lo")
    case True
    then have "add_iov_loop al (fst p, snd p + (n - lo)) lo (c1, m1) = (st, cm')"
      using "1.prems" r by (simp add: add_iov_loop.simps [of al p n])
    with "1.IH" [of st1 "(lo, c1, m1)" lo "(c1, m1)"] True r k cm show ?thesis by simp
  next
    case False
    then show ?thesis using "1.prems" r k cm by (auto simp: add_iov_loop.simps [of al p n] split: if_splits)
  qed
qed

lemma frame_on_cm:
  assumes "\<And>c m st c' m'. f (c, m) = (st, c', m') \<Longrightarrow> F c' = F c"
  shows "on_cm f sv = (st, sv1) \<Longrightarrow> fr F sv1 = fr F sv"
  using assms [of "sv_conn sv" "tstats (sv_cache sv)"] by (auto simp: on_cm_def split: prod.splits)

lemma frame_iov: "on_cm (conn_add_iov al p n) sv = (st, sv1) \<Longrightarrow> fr F sv1 = fr F sv"
  by (rule frame_on_cm) (auto simp: conn_add_iov_def dest: build_loop)

lemma frame_msghdr: "on_cm (conn_add_msghdr al) sv = (st, sv1) \<Longrightarrow> fr F sv1 = fr F sv"
  by (rule frame_on_cm) (auto dest: build_msghdr)

lemma frame_udp: "conn_build_udp_headers al (sv_conn sv) = (st, c) \<Longrightarrow> fr F (sv\<lparr>sv_conn := c\<rparr>) = fr F sv"
  by (auto simp: conn_build_udp_headers_def request_laws Let_def split: if_splits)

lemma frame_iovs: "add_iovs al ps sv = (st, sv1) \<Longrightarrow> fr F sv1 = fr F sv"
  by (induction al ps sv rule: add_iovs.induct) (auto dest!: frame_iov split: prod.splits if_splits)

lemmas frame_calls = frame_dest frame_iov frame_msghdr frame_udp frame_iovs

lemma frame_suffix [frame]:
  "asc_create_suffix x vki sv = (r, sv1) \<Longrightarrow> fr F sv1 = fr F sv" "fr F (asc_destroy_suffix x sf sv) = fr F sv"
  by (auto simp: asc_create_suffix_def asc_destroy_suffix_def Let_def frame split: prod.splits if_splits)

lemma frame_respond_get: "asc_respond_get x vki it rc sv = (st, sv1) \<Longrightarrow> fr F sv1 = fr F sv"
  by (auto simp: asc_respond_get_def Let_def frame simp del: add_iovs.simps dest!: frame_iovs frame_suffix(1)
      split: prod.splits if_splits)

lemma frame_read_key: "read_key x rc key vki sv = (ok, v, sv1) \<Longrightarrow> fr F sv1 = fr F sv"
  by (auto simp: read_key_def srv_item_get_def grow_ilist_def Let_def frame dest!: frame_respond_get
      split: prod.splits option.splits if_splits bool.splits)

lemma frame_read_tokens: "fr F (end_state (read_tokens x rc ts vki sv)) = fr F sv"
proof (induction x rc ts vki sv rule: read_tokens.induct)
  case (2 x rc t ts vki sv)
  then show ?case by (auto simp: frame dest: frame_read_key split: prod.splits)
qed simp

lemma frame_read_loop:
  fixes sv :: "'d srv"
  shows "read_loop x rc ts vki sv = Some r \<Longrightarrow> fr F (snd (snd r)) = fr F sv"
proof (rule read_loop.raw_induct [where P = "\<lambda>x rc ts vki sv r. fr F (snd (snd r)) = fr F sv" and xa = "((((x, rc), ts), vki), sv)", unfolded prod.case])
  fix f :: "'d world \<Rightarrow> bool \<Rightarrow> token list \<Rightarrow> nat \<Rightarrow> 'd srv \<Rightarrow> (bool \<times> nat \<times> 'd srv) option" and x rc ts vki r and sv :: "'d srv"
  assume IH: "\<And>x rc ts vki sv r. f x rc ts vki sv = Some r \<Longrightarrow> fr F (snd (snd r)) = fr F sv"
    and r: "(case read_tokens x rc ts vki sv of
        Read_return sv \<Rightarrow> Some (True, vki, sv)
      | Read_stop t vki sv \<Rightarrow>
          (case tok_val t of
             None \<Rightarrow> Some (False, vki, sv)
           | Some line \<Rightarrow>
               (let ts = asc_tokenize line TOKEN_MAX in
                if tok_val (ts ! 0) = None then Some (False, vki, sv) else f x rc ts vki sv))) = Some r"
  from r frame_read_tokens [of x rc ts vki sv] show "fr F (snd (snd r)) = fr F sv"
    by (auto simp: Let_def dest: IH split: read_end.splits option.splits if_splits)
qed

lemma frame_process_read: "asc_process_read x token sv = Some sv1 \<Longrightarrow> fr F sv1 = fr F sv"
  by (auto simp: asc_process_read_def Let_def frame dest!: frame_dest(1) frame_read_loop frame_iov frame_udp
      split: prod.splits bool.splits option.splits if_splits)

lemma buf_grow_frame: "F (snd (stats_buf_grow al needed c)) = F c"
  by (cases "c_stats_buffer c") (simp_all add: stats_buf_grow_def request_laws Let_def)

lemma stats_append_frame [simp]: "F (stats_append al key klen val vlen c) = F c"
proof -
  obtain ok c' where g: "stats_buf_grow al (vlen + klen + 10) c = (ok, c')" by fastforce
  then have "F c' = F c" using buf_grow_frame [of al "vlen + klen + 10" c] by simp
  then show ?thesis by (cases ok) (simp_all add: stats_append_def g asc_append_stats_def request_laws Let_def)
qed

lemma fold_frame: "(\<And>e c. F (f e c) = F c) \<Longrightarrow> F (fold f es c) = F c"
  by (induction es arbitrary: c) simp_all

lemma stats_print_frame [simp]: "F (fold (stats_print al) es c) = F c"
  by (rule fold_frame) (simp add: stats_print_def split: prod.split)

lemma frame_send [frame]: "fr F (core_write_and_free buf n sv) = fr F sv" "fr F (send_stats sv) = fr F sv" "fr F (process_cachedump x token sv) = fr F sv"
proof -
  show w: "fr F (core_write_and_free buf n sv) = fr F sv" for buf n and sv :: "'d srv"
    by (simp add: core_write_and_free_def frame request_laws split: option.split)
  show "fr F (send_stats sv) = fr F sv" "fr F (process_cachedump x token sv) = fr F sv"
    by (simp_all add: send_stats_def process_cachedump_def w frame request_laws Let_def split: option.split)
qed

lemma frame_texts [frame]:
  "fr F (stats_default x sv) = fr F sv" "fr F (stats_settings x sv) = fr F sv" "fr F (stats_slabs x sv) = fr F sv" "fr F (stats_sizes x sv) = fr F sv"
proof -
  show "fr F (stats_default x sv) = fr F sv" "fr F (stats_settings x sv) = fr F sv" by (simp_all add: stats_default_def stats_settings_def)
  show "fr F (stats_slabs x sv) = fr F sv"
    unfolding stats_slabs_def Let_def up_conn_fields stats_append_frame by (rule fold_frame) (simp split: prod.split)
  show "fr F (stats_sizes x sv) = fr F sv"
    unfolding stats_sizes_def Let_def up_conn_fields stats_append_frame stats_print_frame by (simp add: request_laws)
qed

lemma frame_process_stats [frame]: "fr F (asc_process_stats x token sv) = fr F sv"
  unfolding asc_process_stats_def by (cases "stats_enabled sv") (simp_all add: frame, rule frame_guard, simp_all add: frame Let_def)

lemma frame_dispatch: "asc_dispatch x sv = Some sv1 \<Longrightarrow> fr F sv1 = fr F sv"
  by (auto simp: asc_dispatch_def asc_switch_def Let_def frame dest!: frame_msghdr frame_process_read
      split: prod.splits if_splits req_type.splits)

end

end
