(* ===== verification/McParse.thy ===== *)
theory McParse
  imports McFrame
begin

text \<open>
  What a request does to the read buffer: no handler moves the markers of the buffer or changes its bytes, so extracting a request
  takes exactly one line from the input.
\<close>

section \<open>Handlers do not touch the read buffer\<close>

definition cmark :: "conn \<Rightarrow> bytes \<times> nat \<times> nat \<times> nat \<times> bool" where
  "cmark c = (c_rbuf c, c_rcurr c, c_rbytes c, c_rsize c, c_udp c)"

abbreviation rmark :: "'d srv \<Rightarrow> bytes \<times> nat \<times> nat \<times> nat \<times> bool" where
  "rmark \<equiv> fr cmark"

interpretation rm: request_frame cmark
  by unfold_locales (simp_all add: cmark_def)

text \<open>The lists of pending data, which a handler that only replies leaves alone.\<close>

definition omark :: "conn \<Rightarrow> _" where
  "omark c = (c_iov c, c_iov_size c, c_msg c, c_msg_size c, c_msg_curr c, c_msg_bytes c, c_udp c, c_req_type c, c_wsize c)"

interpretation om: reply_frame omark
  by unfold_locales (simp_all add: omark_def)

section \<open>One line at a time\<close>

text \<open>The request in a line: without the carriage return at its end. It is cut off in the read buffer.\<close>

definition req_text :: "bytes \<Rightarrow> bytes" where
  "req_text line = (if 1 < length line \<and> last line = CHR 0x0D then butlast line else line)"

definition cut_line :: "bytes \<Rightarrow> conn \<Rightarrow> conn" where
  "cut_line line c = c\<lparr>c_req := req_text line, c_rbuf := (c_rbuf c)[c_rcurr c + length (req_text line) := CHR 0x00]\<rparr>"

definition skip_line :: "bytes \<Rightarrow> conn \<Rightarrow> conn" where
  "skip_line line c = c\<lparr>c_rbytes := c_rbytes c - (length line + 1), c_rcurr := c_rcurr c + (length line + 1)\<rparr>"

lemma asc_parse_eq:
  assumes inp: "unread (sv_conn sv) = line @ [CHR 0x0A] @ rest" "CHR 0x0A \<notin> set line"
  shows "asc_parse x sv =
    map_option (\<lambda>sv. (MC_OK, up_conn (skip_line line) sv)) (asc_dispatch x (up_conn (cut_line line) sv))"
proof -
  let ?c = "sv_conn sv" and ?n = "length line"
  have tw: "takeWhile (\<lambda>c. c \<noteq> CHR 0x0A) (line @ CHR 0x0A # rest) = line"
    using inp(2) by (subst takeWhile_append2) auto
  have mc: "memchr (CHR 0x0A) (unread ?c) = Some ?n" using inp by (simp add: memchr_def tw)
  have len: "length (unread ?c) = ?n + 1 + length rest" using inp(1) by simp
  have nz: "c_rbytes ?c \<noteq> 0" using len by (auto simp: unread_def)
  define el where "el = (if ?n > 1 \<and> unread ?c ! (?n - 1) = CHR 0x0D then ?n - 1 else ?n)"
  have req: "take el (unread ?c) = req_text line" "el = length (req_text line)"
    using inp(1) by (cases "line = []"; auto simp: el_def req_text_def nth_append last_conv_nth butlast_conv_take)+
  have "up_conn (\<lambda>c. c\<lparr>c_req := take el (unread c), c_rbuf := (c_rbuf c)[c_rcurr c + el := CHR 0x00]\<rparr>) sv = up_conn (cut_line line) sv"
    using req by (simp add: up_conn_def cut_line_def)
  then show ?thesis
    using mc nz by (simp add: asc_parse_def Let_def el_def skip_line_def [abs_def] split: option.split)
qed

lemma unread_after_line:
  assumes "unread c = line @ [CHR 0x0A] @ rest" and "cmark c' = cmark (cut_line line c)"
  shows "unread (skip_line line c') = rest"
proof -
  have le: "length (req_text line) \<le> length line" by (simp add: req_text_def)
  have "unread (skip_line line c')
      = take (c_rbytes c - (length line + 1)) (drop (c_rcurr c + (length line + 1)) ((c_rbuf c)[c_rcurr c + length (req_text line) := CHR 0x00]))"
    using assms(2) by (simp add: unread_def skip_line_def cmark_def cut_line_def)
  also have "\<dots> = drop (length line + 1) (unread c)" using le by (simp add: unread_def drop_take add.commute)
  finally show ?thesis using assms(1) by simp
qed

lemma asc_parse_line:
  assumes inp: "unread (sv_conn sv) = line @ [CHR 0x0A] @ rest" "CHR 0x0A \<notin> set line"
    and p: "asc_parse x sv = Some (r, sv1)"
  shows "r = MC_OK \<and> unread (sv_conn sv1) = rest \<and>
    (\<exists>sv0 sv2. c_req (sv_conn sv0) = (if 1 < length line \<and> last line = CHR 0x0D then butlast line else line)
      \<and> sv_cache sv0 = sv_cache sv \<and> sv_hot sv0 = sv_hot sv \<and> asc_dispatch x sv0 = Some sv2 \<and> sv_cache sv1 = sv_cache sv2)"
proof -
  let ?sv0 = "up_conn (cut_line line) sv"
  obtain sv2 where d: "asc_dispatch x ?sv0 = Some sv2" "r = MC_OK" "sv1 = up_conn (skip_line line) sv2"
    using p asc_parse_eq [OF inp, of x] by auto
  have "rmark sv2 = rmark ?sv0" by (rule rm.frame_dispatch [OF d(1)])
  then have "unread (sv_conn sv1) = rest" using unread_after_line [OF inp(1)] by (simp add: d(3))
  moreover have "c_req (sv_conn ?sv0) = req_text line" "sv_hot ?sv0 = sv_hot sv" by (simp_all add: cut_line_def, simp add: up_conn_def)
  ultimately show ?thesis using d by (intro conjI exI [of _ ?sv0] exI [of _ sv2]) (auto simp: req_text_def)
qed

end
