(* ===== verification/McProto.thy ===== *)
theory McProto
  imports McParse McSystem
begin

text \<open>
  From a request line to the bytes of the reply and the change of the cache: the ascii protocol on top of the store. The metrics are no part
  of what a client sees, so a state of the server is looked at through \<open>score\<close>, which leaves them out together with the connection and
  the command log.
\<close>

section \<open>What responses and counters leave alone\<close>

definition core :: "cache \<Rightarrow> _" where
  "core s = (items s, slabs s, slabclasses s, slabclass_max_id s, heap s, item_lruq s, hashtbl s, cas_id s, now s, settings s,
     nmalloc s, ntable s, nrand s, ub s)"

definition score :: "'d srv \<Rightarrow> _" where
  "score sv = (core (sv_cache sv), sv_hot sv, sv_started sv, sv_usec sv, sv_klog sv)"

named_theorems score

lemma core_counters [simp]:
  "core (sincr_by cid m d s) = core s" "core (sdecr_by cid m d s) = core s" "core (tincr tm s) = core s" "core (s\<lparr>tstats := t\<rparr>) = core s"
  by (simp_all add: core_def upd_defs)

lemma core_eqD:
  assumes "core s' = core s"
  shows "cache_inv e s' = cache_inv e s" and "view s' = view s" and "lookup s' = lookup s" and "pending s' it = pending s it"
    and "room k s' = room k s" and "env_ok e s' = env_ok e s" and "items s' = items s" and "live s' = live s"
    and "item_slabid s' nk n = item_slabid s nk n" and "now s' = now s" and "settings s' = settings s" and "key_of s' = key_of s"
    and "entry_of s' = entry_of s" and "next_cas s' = next_cas s" and "item_data s' = item_data s"
proof -
  have f: "items s' = items s" "slabs s' = slabs s" "slabclasses s' = slabclasses s" "slabclass_max_id s' = slabclass_max_id s"
    "heap s' = heap s" "item_lruq s' = item_lruq s" "hashtbl s' = hashtbl s" "now s' = now s" "settings s' = settings s"
    "nmalloc s' = nmalloc s" "ub s' = ub s" "cas_id s' = cas_id s" "nrand s' = nrand s"
    using assms by (simp_all add: core_def)
  have g: "geo s' = geo s" by (simp add: geo_def f)
  show "cache_inv e s' = cache_inv e s" using inv_frame [OF f(1-11), of "{}" e] by (simp add: cache_inv_def f)
  show k: "key_of s' = key_of s" and "items s' = items s" by (intro ext) (simp_all add: key_of_def f)
  show d: "item_data s' = item_data s" by (intro ext) (simp add: item_data_def Let_def geo_live(4) [OF g] f)
  show e: "entry_of s' = entry_of s" by (intro ext) (simp add: entry_of_def item_value_def d f)
  have i: "index_find s' = index_find s" by (intro ext) (simp add: index_find_def k f)
  have de: "item_dead s' = item_dead s" by (intro ext) (simp add: item_dead_def item_stale_def f)
  show "view s' = view s" "lookup s' = lookup s" by (intro ext; simp add: view_def lookup_def i e de split: option.split)+
  show "live s' = live s" by (rule geo_live(1) [OF g])
  then show "pending s' it = pending s it" by (simp add: pending_def f)
  show "room k s' = room k s" for k by (simp add: room_def f)
  show "env_ok e s' = env_ok e s" by (simp add: env_ok_def rand_safe_def slab_get_new_fst f)
  show "item_slabid s' nk n = item_slabid s nk n" by (simp add: item_slabid_def slab_id_def geo_live(4) [OF g] f)
  show "now s' = now s" "settings s' = settings s" "next_cas s' = next_cas s" by (simp_all add: f next_cas_def)
qed

lemma score_up_conn [score]: "score (up_conn f sv) = score sv"
  by (simp add: score_def up_conn_def)

lemma score_tick [score]: "score (tick m sv) = score sv" "score (up_cache (\<lambda>s. s\<lparr>tstats := t s\<rparr>) sv) = score sv"
  "score (tick_slab cid sm sv) = score sv"
  by (simp_all add: score_def up_cache_def)

lemma score_fields [score]: "score (sv\<lparr>sv_calls := n\<rparr>) = score sv" "score (sv\<lparr>sv_kbuf := b\<rparr>) = score sv"
  by (simp_all add: score_def)

lemma score_write [score]: "score (asc_write_string str sv) = score sv"
  by (auto simp: asc_write_string_def Let_def score split: prod.splits if_splits)

lemma score_rsp [score]:
  "score (snd (asc_rsp_stored sv)) = score sv" "score (snd (asc_rsp_exists sv)) = score sv" "score (snd (asc_rsp_not_found sv)) = score sv"
  "score (snd (asc_rsp_not_stored sv)) = score sv" "score (snd (asc_rsp_deleted sv)) = score sv" "score (client_error sv) = score sv"
  "score (server_error sv) = score sv" "score (snd (asc_rsp_ok sv)) = score sv" "score (snd (asc_rsp_int n sv)) = score sv"
  by (simp_all add: asc_rsp_stored_def asc_rsp_exists_def asc_rsp_not_found_def asc_rsp_not_stored_def asc_rsp_deleted_def
      asc_rsp_client_error_def asc_rsp_server_error_def asc_rsp_ok_def asc_rsp_int_def Let_def score)

text \<open>The sampling rate of the command log, which the log divides by.\<close>

definition klog_ok :: "'d srv \<Rightarrow> bool" where
  "klog_ok sv \<longleftrightarrow> klog_sampling_rate (sv_klog sv) \<noteq> 0"

lemma score_klog_ok: "score sv' = score sv \<Longrightarrow> klog_ok sv' = klog_ok sv"
  by (simp add: score_def klog_ok_def)

lemma score_klog [score]: "klog_ok sv \<Longrightarrow> score (klog_call x ck st rl sv) = score sv"
  by (auto simp: klog_call_def klog_ok_def klog_write_def Let_def score split: option.splits prod.splits if_splits)

lemma score_respond [score]: "klog_ok sv \<Longrightarrow> score (snd (rsp sv)) = score sv \<Longrightarrow> score (respond x rsp st sv) = score sv"
  using score_klog_ok [of "snd (rsp sv)" sv] by (auto simp: respond_def Let_def score split: prod.splits)

text \<open>The settings of the command log, which only the configuration commands change.\<close>

lemma klog_frame [simp]:
  "sv_klog (up_conn f sv) = sv_klog sv" "sv_klog (up_cache g sv) = sv_klog sv" "sv_klog (klog_call x ck st rl sv) = sv_klog sv"
  "sv_klog (asc_write_string str sv) = sv_klog sv" "sv_klog (snd (on_cache f' sv)) = sv_klog sv"
  by (auto simp: up_conn_def up_cache_def klog_call_def asc_write_string_def on_cache_def Let_def split: option.splits prod.splits)

lemma klog_on_cache: "on_cache f sv = (r, sv') \<Longrightarrow> sv_klog sv' = sv_klog sv"
  by (auto simp: on_cache_def split: prod.splits)

lemma klog_rsp [simp]:
  "sv_klog (snd (asc_rsp_stored sv)) = sv_klog sv" "sv_klog (snd (asc_rsp_exists sv)) = sv_klog sv" "sv_klog (snd (asc_rsp_not_found sv)) = sv_klog sv"
  "sv_klog (snd (asc_rsp_not_stored sv)) = sv_klog sv" "sv_klog (snd (asc_rsp_deleted sv)) = sv_klog sv" "sv_klog (client_error sv) = sv_klog sv"
  "sv_klog (server_error sv) = sv_klog sv" "sv_klog (snd (asc_rsp_int n sv)) = sv_klog sv"
  by (simp_all add: asc_rsp_stored_def asc_rsp_exists_def asc_rsp_not_found_def asc_rsp_not_stored_def asc_rsp_deleted_def
      asc_rsp_client_error_def asc_rsp_server_error_def asc_rsp_int_def Let_def)

lemma klog_respond [simp]: "sv_klog (respond x rsp st sv) = sv_klog (snd (rsp sv))"
  by (simp add: respond_def Let_def split: prod.splits)

lemma klog_complete: "sv_klog (asc_complete_nread x sv) = sv_klog sv"
proof -
  have a: "sv_klog (asc_complete_annex x sv) = sv_klog sv"
  proof -
    let ?rt = "c_req_type (sv_conn sv)"
    obtain hit success miss where m: "annex_metrics ?rt = (hit, success, miss)" by (metis prod_cases3)
    obtain r out sv1 where o: "on_cache (item_annex (x_env x) (?rt = REQ_APPEND \<or> ?rt = REQ_APPENDRL) (the (c_item (sv_conn sv)))) sv = ((r, out), sv1)"
      by (metis surj_pair)
    obtain oid nid where ids: "the (ao_ids out) = (oid, nid)" by fastforce
    show ?thesis
      unfolding asc_complete_annex_def Let_def m prod.case o using klog_on_cache [OF o] by (cases r) (simp_all add: ids)
  qed
  have "sv_klog (asc_complete_set x sv) = sv_klog sv" "sv_klog (asc_complete_cas x sv) = sv_klog sv"
    "sv_klog (asc_complete_add x sv) = sv_klog sv" "sv_klog (asc_complete_replace x sv) = sv_klog sv"
    by (auto simp: asc_complete_set_def asc_complete_cas_def asc_complete_add_def asc_complete_replace_def Let_def dest: klog_on_cache
        split: prod.splits item_cas_result.splits item_add_result.splits item_replace_result.splits)
  then show ?thesis using a by (simp add: asc_complete_nread_def Let_def)
qed

section \<open>Replies\<close>

text \<open>The reply that is ready to be sent, after which the connection goes to state \<open>go\<close>; with \<^verbatim>\<open>noreply\<close> there is none and the next command is awaited.\<close>

definition reply_to :: "conn_state \<Rightarrow> bool \<Rightarrow> bytes \<Rightarrow> 'd srv \<Rightarrow> bool" where
  "reply_to go noreply str sv \<longleftrightarrow>
     (let c = sv_conn sv in
      \<not> c_noreply c \<and>
      (if noreply then c_state c = CONN_NEW_CMD
       else c_state c = CONN_WRITE \<and> c_wcurr c = (O_wbuf, 0) \<and> c_wbytes c = length str + CRLF_LEN
        \<and> take (c_wbytes c) (c_wbuf c) = str @ CRLF \<and> c_write_and_go c = go))"

definition reply_is :: "bool \<Rightarrow> bytes \<Rightarrow> 'd srv \<Rightarrow> bool" where
  "reply_is = reply_to CONN_NEW_CMD"

lemmas reply_defs = reply_is_def reply_to_def

lemma reply_to_cache [simp]: "reply_to go nr str (sv\<lparr>sv_cache := s\<rparr>) = reply_to go nr str sv"
  by (simp add: reply_to_def)

lemma CRLF_length [simp]: "length CRLF = CRLF_LEN"
  by (simp add: CRLF_def CRLF_LEN_def)

lemma set_state_other [simp]:
  "c_state (conn_set_state st c) = st" "c_rbytes (conn_set_state st c) = c_rbytes c" "c_udp (conn_set_state st c) = c_udp c"
  "c_noreply (conn_set_state st c) = c_noreply c" "c_wcurr (conn_set_state st c) = c_wcurr c" "c_wbytes (conn_set_state st c) = c_wbytes c"
  "c_wbuf (conn_set_state st c) = c_wbuf c" "c_item (conn_set_state st c) = c_item c" "c_ritem (conn_set_state st c) = c_ritem c"
  "c_rlbytes (conn_set_state st c) = c_rlbytes c" "c_req_type (conn_set_state st c) = c_req_type c" "c_wsize (conn_set_state st c) = c_wsize c"
  "c_write_and_go (conn_set_state st c) = c_write_and_go c"
  by (simp_all add: conn_set_state_def)

lemma write_reply:
  "length str + CRLF_LEN \<le> c_wsize (sv_conn sv) \<Longrightarrow> reply_is (c_noreply (sv_conn sv)) str (asc_write_string str sv)"
  by (simp add: reply_defs asc_write_string_def up_conn_def Let_def)

text \<open>The shortest buffer holds every fixed reply.\<close>

definition wbuf_ok :: "'d srv \<Rightarrow> bool" where
  "wbuf_ok sv \<longleftrightarrow> 32 \<le> c_wsize (sv_conn sv)"

lemma rsp_reply:
  fixes sv :: "'d srv"
  assumes "wbuf_ok sv" and "c_noreply (sv_conn sv) = nr"
  shows "reply_is nr ''STORED'' (snd (asc_rsp_stored sv))" "reply_is nr ''EXISTS'' (snd (asc_rsp_exists sv))"
    "reply_is nr ''NOT_FOUND'' (snd (asc_rsp_not_found sv))" "reply_is nr ''NOT_STORED'' (snd (asc_rsp_not_stored sv))"
    "reply_is nr ''DELETED'' (snd (asc_rsp_deleted sv))" "reply_is nr ''CLIENT_ERROR'' (client_error sv)"
    "reply_is nr ''SERVER_ERROR'' (server_error sv)" "reply_is nr ''OK'' (snd (asc_rsp_ok sv))"
    "reply_is nr (print_dec (unat n)) (snd (asc_rsp_int n sv))"
proof -
  have w: "length str \<le> 30 \<Longrightarrow> sv_conn sv' = sv_conn sv \<Longrightarrow> reply_is nr str (asc_write_string str sv')" for str and sv' :: "'d srv"
    using write_reply [of str sv'] assms by (simp add: wbuf_ok_def CRLF_LEN_def)
  show "reply_is nr ''STORED'' (snd (asc_rsp_stored sv))" "reply_is nr ''EXISTS'' (snd (asc_rsp_exists sv))"
    "reply_is nr ''NOT_FOUND'' (snd (asc_rsp_not_found sv))" "reply_is nr ''NOT_STORED'' (snd (asc_rsp_not_stored sv))"
    "reply_is nr ''DELETED'' (snd (asc_rsp_deleted sv))" "reply_is nr ''CLIENT_ERROR'' (client_error sv)"
    "reply_is nr ''SERVER_ERROR'' (server_error sv)" "reply_is nr ''OK'' (snd (asc_rsp_ok sv))"
    by (simp_all add: asc_rsp_stored_def asc_rsp_exists_def asc_rsp_not_found_def asc_rsp_not_stored_def asc_rsp_deleted_def
      asc_rsp_client_error_def asc_rsp_server_error_def asc_rsp_ok_def Let_def w)
  show "reply_is nr (print_dec (unat n)) (snd (asc_rsp_int n sv))"
    using length_print_u64 [of n] by (simp add: asc_rsp_int_def Let_def w)
qed

lemma respond_reply: "reply_is nr str (respond x rsp st sv) = reply_is nr str (snd (rsp sv))"
  by (simp add: reply_defs)

end
