(* ===== verification/McRequest.thy ===== *)
theory McRequest
  imports McProto
begin

text \<open>
  Requests end to end: a request line is dispatched to its handler, the handler acts on the store as the protocol says, and the reply is
  ready in the write buffer.
\<close>

section \<open>Tokens of a request line\<close>

lemma ntoken:
  assumes "line_words line = ws" and "length ws < TOKEN_MAX" and "ws \<noteq> []"
  shows "length (asc_tokenize line TOKEN_MAX) = length ws + 1"
  using assms length_asc_tokenize [of TOKEN_MAX line] by (simp add: TOKEN_MAX_def)

lemma noreply_last:
  assumes "line_words line = ws" and "length ws < TOKEN_MAX" and "ws \<noteq> []"
  shows "set_noreply_maybe (asc_tokenize line TOKEN_MAX) \<longleftrightarrow> last ws = ''noreply''"
proof -
  let ?ts = "asc_tokenize line TOKEN_MAX"
  have n: "length ?ts = length ws + 1" by (rule ntoken [OF assms])
  have "token_of (ws ! (length ws - 1)) (?ts ! (length ws - 1))" by (rule token_nth [OF assms(1,2)]) (use assms(3) in simp)
  then obtain v where "tok_val (?ts ! (length ws - 1)) = Some (last ws @ v)" "tok_len (?ts ! (length ws - 1)) = length (last ws)"
    using assms(3) by (auto simp: token_of_def last_conv_nth)
  then show ?thesis using n str_cmp_prefix [of "''noreply''" "last ws" v] assms(3) by (auto simp: set_noreply_maybe_def Let_def Suc_le_eq)
qed

text \<open>A request of one set of tokens, with an optional \<^verbatim>\<open>noreply\<close> at its end.\<close>

definition request :: "bytes list \<Rightarrow> bool \<Rightarrow> bytes \<Rightarrow> bool" where
  "request ws nr line \<longleftrightarrow> line_words line = ws @ (if nr then [''noreply''] else []) \<and> length ws + 1 < TOKEN_MAX \<and> ws \<noteq> []
     \<and> (\<not> nr \<longrightarrow> last ws \<noteq> ''noreply'')"

lemma request_tokens:
  assumes "request ws nr line"
  shows "length (asc_tokenize line TOKEN_MAX) = length ws + (if nr then 2 else 1)"
    and "set_noreply_maybe (asc_tokenize line TOKEN_MAX) = nr"
    and "k < length ws \<Longrightarrow> token_of (ws ! k) (asc_tokenize line TOKEN_MAX ! k)"
proof -
  have ws: "line_words line = ws @ (if nr then [''noreply''] else [])" "ws \<noteq> []" "length ws + 1 < TOKEN_MAX" "\<not> nr \<longrightarrow> last ws \<noteq> ''noreply''"
    using assms by (auto simp: request_def)
  show "length (asc_tokenize line TOKEN_MAX) = length ws + (if nr then 2 else 1)" using ntoken [OF ws(1)] ws by simp
  show "set_noreply_maybe (asc_tokenize line TOKEN_MAX) = nr" using noreply_last [OF ws(1)] ws by auto
  show "k < length ws \<Longrightarrow> token_of (ws ! k) (asc_tokenize line TOKEN_MAX ! k)"
    using token_nth [OF ws(1), of TOKEN_MAX k] ws by (simp add: nth_append)
qed

text \<open>The connection of a request whose arguments are read.\<close>

definition asked :: "req_type \<Rightarrow> bool \<Rightarrow> 'd srv \<Rightarrow> bool" where
  "asked rt nr sv \<longleftrightarrow> c_req_type (sv_conn sv) = rt \<and> c_noreply (sv_conn sv) = nr \<and> wbuf_ok sv"

lemma request_args:
  assumes "request ws nr line" and "asked rt False sv"
  shows "asked rt nr (asc_set_noreply_maybe (asc_tokenize line TOKEN_MAX) sv)"
    and "score (asc_set_noreply_maybe (asc_tokenize line TOKEN_MAX) sv) = score sv"
  using assms request_tokens(2) [OF assms(1)] by (auto simp: asc_set_noreply_maybe_def asked_def up_conn_def score_def wbuf_ok_def)

lemma request_valid:
  assumes "request ws nr line" and "asked rt nr sv" and "fst (ntoken_bound rt nr) \<le> length ws + (if nr then 2 else 1)"
    and "length ws + (if nr then 2 else 1) \<le> snd (ntoken_bound rt nr)"
  shows "asc_validate_ntoken (asc_tokenize line TOKEN_MAX) sv = (True, sv)"
  using assms request_tokens(1) [OF assms(1)] by (cases "ntoken_bound rt nr") (simp add: asc_validate_ntoken_def asked_def)

lemma request_key:
  assumes "request ws nr line" and "1 < length ws" and "length (ws ! 1) \<le> KEY_MAX_LEN"
  shows "asc_get_key (asc_tokenize line TOKEN_MAX) sv = (Some (ws ! 1), sv)"
  using token_of_str [OF request_tokens(3) [OF assms(1,2)]] assms(3) by (simp add: asc_get_key_def)

section \<open>Numbers in a request\<close>

lemma scan_print_dec:
  assumes "v = [] \<or> hd v = CHR '' ''"
  shows "scan_number (print_dec n @ v) = Some (Scan False (print_dec n) v)"
proof -
  obtain d ds where p: "print_dec n = d # ds" using print_dec_not_Nil [of n] by (cases "print_dec n") auto
  have dig: "\<forall>c \<in> set (print_dec n). isdigit c" by (rule print_dec_digits)
  have d: "isdigit d" "d \<noteq> CHR ''-''" "d \<noteq> CHR ''+''" using dig p by (auto simp: isdigit_def)
  have nv: "v = [] \<or> \<not> isdigit (hd v)" using assms by (auto simp: isdigit_def)
  have tw: "takeWhile isdigit (print_dec n @ v) = print_dec n" "dropWhile isdigit (print_dec n @ v) = v"
    using dig nv by (cases v; simp)+
  show ?thesis using tw d isdigit_not_isspace [OF d(1)] by (simp add: scan_number_def p Let_def)
qed

lemma end_ok_print: "v = [] \<or> hd v = CHR '' '' \<Longrightarrow> end_ok (print_dec n @ v) v"
  using print_dec_not_Nil [of n, symmetric] by (cases v) (auto simp: end_ok_def isspace_def)

lemma strtoull_print:
  assumes "n < 2 ^ 63" and "v = [] \<or> hd v = CHR '' ''"
  shows "mc_strtoull (print_dec n @ v) = Some (of_nat n)"
    and "mc_strtoul (print_dec n @ v) = Some (of_nat n)"
proof -
  have c: "c_strtoull (print_dec n @ v) = (of_nat n, v, False)"
    using scan_print_dec [OF assms(2), of n] assms(1) by (simp add: c_strtoull_def dec_val_print_dec UINT64_MAX_def)
  have "sint (of_nat n :: u64) = int n" using assms(1) by (simp add: sint_uint signed_take_bit_int_eq_self_iff unsigned_of_nat take_bit_nat_eq_self)
  moreover have "ucast (of_nat n :: u64) = (of_nat n :: u32)" by transfer (simp add: take_bit_take_bit)
  ultimately show "mc_strtoull (print_dec n @ v) = Some (of_nat n)" "mc_strtoul (print_dec n @ v) = Some (of_nat n)"
    using c end_ok_print [OF assms(2), of n] by (simp_all add: mc_strtoull_def mc_strtoul_def)
qed

lemma strtol_print:
  assumes "n < 2 ^ 31" and "v = [] \<or> hd v = CHR '' ''"
  shows "mc_strtol (print_dec n @ v) = Some (int n)"
proof -
  have c: "c_strtoll (print_dec n @ v) = (int n, v, False)"
    using scan_print_dec [OF assms(2), of n] assms(1) by (simp add: c_strtoll_def dec_val_print_dec)
  have "sint (word_of_int (int n) :: u32) = int n"
    using assms(1) by (simp add: sint_uint signed_take_bit_int_eq_self_iff unsigned_of_nat take_bit_nat_eq_self)
  then show ?thesis using c end_ok_print [OF assms(2), of n] by (simp add: mc_strtol_def)
qed

lemma request_number:
  assumes "request ws nr line" and "k < length ws" and "ws ! k = print_dec n"
  shows "n < 2 ^ 63 \<Longrightarrow> get_arg mc_strtoull k (asc_tokenize line TOKEN_MAX) sv = (Some (of_nat n), sv)"
    and "n < 2 ^ 63 \<Longrightarrow> get_arg mc_strtoul k (asc_tokenize line TOKEN_MAX) sv = (Some (of_nat n), sv)"
    and "n < 2 ^ 31 \<Longrightarrow> get_arg mc_strtol k (asc_tokenize line TOKEN_MAX) sv = (Some (int n), sv)"
proof -
  obtain v where "tok_val (asc_tokenize line TOKEN_MAX ! k) = Some (print_dec n @ v)" "v = [] \<or> hd v = CHR '' ''"
    using request_tokens(3) [OF assms(1,2)] assms(3) by (auto simp: token_of_def)
  then show "n < 2 ^ 63 \<Longrightarrow> get_arg mc_strtoull k (asc_tokenize line TOKEN_MAX) sv = (Some (of_nat n), sv)"
    "n < 2 ^ 63 \<Longrightarrow> get_arg mc_strtoul k (asc_tokenize line TOKEN_MAX) sv = (Some (of_nat n), sv)"
    "n < 2 ^ 31 \<Longrightarrow> get_arg mc_strtol k (asc_tokenize line TOKEN_MAX) sv = (Some (int n), sv)"
    by (simp_all add: get_arg_def strtoull_print strtol_print)
qed

section \<open>Dispatch\<close>

lemma asked_count: "asked rt nr (count_cmd t sv) = asked rt nr sv" "score (count_cmd t sv) = score sv"
  by (simp_all add: count_cmd_def asked_def wbuf_ok_def score split: option.split)

definition ready :: "'d srv \<Rightarrow> bool" where
  "ready sv \<longleftrightarrow> wbuf_ok sv \<and> \<not> c_noreply (sv_conn sv) \<and> 0 < c_msg_size (sv_conn sv) \<and> 0 < c_iov_size (sv_conn sv)"

text \<open>The lists of pending data of a stream before anything is added to them.\<close>

definition fresh_msgs :: "conn \<Rightarrow> bool" where
  "fresh_msgs c \<longleftrightarrow> c_iov c = [] \<and> c_msg c = [\<lparr>msg_iov = 0, msg_iovlen = 0\<rparr>] \<and> c_msg_curr c = 0 \<and> c_msg_bytes c = 0
     \<and> 0 < c_iov_size c \<and> 0 < c_msg_size c \<and> \<not> c_udp c"

lemma fresh_omark: "omark c' = omark c \<Longrightarrow> fresh_msgs c' = fresh_msgs c"
  by (simp add: omark_def fresh_msgs_def)

lemma first_msghdr:
  assumes "ready sv"
  shows "\<exists>sv1. on_cm (conn_add_msghdr al) (up_conn (\<lambda>c. c\<lparr>c_msg_curr := 0, c_msg := [], c_iov := []\<rparr>) sv) = (MC_OK, sv1)
    \<and> score sv1 = score sv \<and> c_req (sv_conn sv1) = c_req (sv_conn sv) \<and> c_noreply (sv_conn sv1) = False \<and> wbuf_ok sv1
    \<and> (\<not> c_udp (sv_conn sv) \<longrightarrow> fresh_msgs (sv_conn sv1))"
proof -
  let ?c = "(sv_conn sv)\<lparr>c_msg_curr := 0, c_iov := [], c_msg := [\<lparr>msg_iov = 0, msg_iovlen = 0\<rparr>], c_msg_bytes := 0\<rparr>"
  let ?c1 = "if c_udp (sv_conn sv) then iov_put (O_null, 0) UDP_HEADER_SIZE ?c else ?c"
  have "on_cm (conn_add_msghdr al) (up_conn (\<lambda>c. c\<lparr>c_msg_curr := 0, c_msg := [], c_iov := []\<rparr>) sv) = (MC_OK, sv\<lparr>sv_conn := ?c1\<rparr>)"
    using assms by (simp add: on_cm_def up_conn_def conn_add_msghdr_def msghdr_slot_def conn_ensure_iov_space_def ready_def Let_def)
  then show ?thesis using assms by (simp add: score_def ready_def wbuf_ok_def iov_put_def Let_def fresh_msgs_def)
qed

lemma dispatch_request:
  assumes r: "ready sv" and l: "c_req (sv_conn sv) = line" "CHR 0x00 \<notin> set line" "line_words line = u # ws" "ws \<noteq> [] \<or> length u \<noteq> 3"
  shows "\<exists>sv1. asc_dispatch x sv = asc_switch x (command_type u) (asc_tokenize line TOKEN_MAX) sv1
    \<and> score sv1 = score sv \<and> asked (command_type u) False sv1 \<and> c_req (sv_conn sv1) = line
    \<and> (\<not> c_udp (sv_conn sv) \<longrightarrow> fresh_msgs (sv_conn sv1))"
proof -
  obtain sv0 where s0: "on_cm (conn_add_msghdr (x_al x)) (up_conn (\<lambda>c. c\<lparr>c_msg_curr := 0, c_msg := [], c_iov := []\<rparr>) sv) = (MC_OK, sv0)"
      "score sv0 = score sv" "c_req (sv_conn sv0) = line" "c_noreply (sv_conn sv0) = False" "wbuf_ok sv0"
      "\<not> c_udp (sv_conn sv) \<longrightarrow> fresh_msgs (sv_conn sv0)"
    using first_msghdr [OF r] l(1) by auto
  have "c_str line = line" using l(2) by (simp add: c_str_def takeWhile_eq_all_conv) auto
  then have eq: "asc_dispatch x sv = asc_switch x (command_type u) (asc_tokenize line TOKEN_MAX)
      (count_cmd (command_type u) (up_conn (\<lambda>c. c\<lparr>c_req_type := command_type u\<rparr>) sv0))"
    using s0 asc_parse_type_words [OF l(3) _ l(4), of TOKEN_MAX] by (simp add: asc_dispatch_def Let_def TOKEN_MAX_def)
  have c: "sv_conn (count_cmd (command_type u) (up_conn (\<lambda>c. c\<lparr>c_req_type := command_type u\<rparr>) sv0)) = (sv_conn sv0)\<lparr>c_req_type := command_type u\<rparr>"
    by (simp add: count_cmd_def split: option.split)
  then show ?thesis
    using s0 by (intro exI [of _ "count_cmd (command_type u) (up_conn (\<lambda>c. c\<lparr>c_req_type := command_type u\<rparr>) sv0)"])
      (simp add: eq asked_count score c, simp add: asked_def up_conn_def wbuf_ok_def fresh_msgs_def)
qed

text \<open>A handler that only replies leaves the lists as they were.\<close>

lemma dispatch_fresh:
  assumes r: "ready sv" "\<not> c_udp (sv_conn sv)" and l: "c_req (sv_conn sv) = line" "CHR 0x00 \<notin> set line" "line_words line = u # ws"
      "ws \<noteq> [] \<or> length u \<noteq> 3"
    and u: "command_type u \<notin> {REQ_GET, REQ_GETS, REQ_STATS}" and d: "asc_dispatch x sv = Some sv'"
  shows "fresh_msgs (sv_conn sv')" and "c_req_type (sv_conn sv') = command_type u" and "c_wsize (sv_conn sv') \<ge> 32"
proof -
  obtain sv1 where 1: "asc_switch x (command_type u) (asc_tokenize line TOKEN_MAX) sv1 = Some sv'"
      "asked (command_type u) False sv1" "fresh_msgs (sv_conn sv1)"
    using dispatch_request [OF r(1) l, of x] d r(2) by auto
  have o: "omark (sv_conn sv') = omark (sv_conn sv1)" by (rule om.frame_switch [OF u 1(1)])
  show "fresh_msgs (sv_conn sv')" using fresh_omark [OF o] 1(3) by simp
  show "c_req_type (sv_conn sv') = command_type u" "c_wsize (sv_conn sv') \<ge> 32" using o 1(2) by (simp_all add: omark_def asked_def wbuf_ok_def)
qed

section \<open>Delete\<close>

lemma process_delete:
  assumes inv: "cache_inv e (sv_cache sv)" "room 1 (sv_cache sv)" and k: "klog_ok sv" and a: "asked REQ_DELETE False sv"
    and q: "request [u, key] nr line" and len: "length key \<le> KEY_MAX_LEN"
    and sv': "sv' = asc_process_delete x (asc_tokenize line TOKEN_MAX) sv"
  shows "cache_inv e (sv_cache sv') \<and> view (sv_cache sv') = (view (sv_cache sv))(key := None)
    \<and> reply_is nr (if lookup (sv_cache sv) key = None then ''NOT_FOUND'' else ''DELETED'') sv' \<and> sv_klog sv' = sv_klog sv"
proof -
  define sv1 where "sv1 = asc_set_noreply_maybe (asc_tokenize line TOKEN_MAX) sv"
  have A: "asked REQ_DELETE nr sv1" and S: "score sv1 = score sv" using request_args [OF q a] by (simp_all add: sv1_def)
  obtain r s2 where d: "item_delete key (sv_cache sv1) = (r, s2)" by fastforce
  have c1: "core (sv_cache sv1) = core (sv_cache sv)" using S by (simp add: score_def)
  note E = core_eqD [OF c1]
  have D: "cache_inv e s2 \<and> view s2 = (view (sv_cache sv))(key := None) \<and> (r = DELETE_OK \<longleftrightarrow> lookup (sv_cache sv) key \<noteq> None)"
    using item_delete_spec [of e "sv_cache sv1" key] inv E d by simp
  let ?sv2 = "sv1\<lparr>sv_cache := s2\<rparr>"
  have k2: "klog_ok ?sv2" using k S by (simp add: klog_ok_def score_def)
  have A2: "asked REQ_DELETE nr ?sv2" using A by (simp add: asked_def wbuf_ok_def)
  have "asc_validate_ntoken (asc_tokenize line TOKEN_MAX) sv1 = (True, sv1)" by (rule request_valid [OF q A]) simp_all
  then have eq: "sv' = (case r of DELETE_OK \<Rightarrow> respond x asc_rsp_deleted 0 (tick THREAD_delete_hit ?sv2)
      | DELETE_NOT_FOUND \<Rightarrow> respond x asc_rsp_not_found 0 (tick THREAD_delete_miss ?sv2))"
    using request_key [OF q, of sv1] len d
    by (simp add: sv' asc_process_delete_def sv1_def [symmetric] on_cache_def split: item_delete_result.split)
  have w: "wbuf_ok (tick m ?sv2)" "c_noreply (sv_conn (tick m ?sv2)) = nr" "klog_ok (tick m ?sv2)" for m
    using A2 k2 by (simp_all add: asked_def wbuf_ok_def klog_ok_def up_cache_def)
  have "score sv' = score ?sv2" using w by (simp add: eq score split: item_delete_result.split)
  then have "core (sv_cache sv') = core s2" by (simp add: score_def)
  moreover have "reply_is nr (if lookup (sv_cache sv) key = None then ''NOT_FOUND'' else ''DELETED'') sv'"
    using D rsp_reply(3,5) [OF w(1,2)] by (cases r) (auto simp: eq respond_reply)
  moreover have "sv_klog sv' = sv_klog sv" using S by (simp add: eq score_def split: item_delete_result.split)
  ultimately show ?thesis using D core_eqD(1) [of "sv_cache sv'" s2 e] core_eqD(2) [of "sv_cache sv'" s2] by simp
qed

section \<open>Incr and decr\<close>

lemma delta_entry_core:
  assumes "core s1 = core s"
  shows "delta_entry s1 = delta_entry s"
proof (intro ext)
  fix k v en
  note E = core_eqD [OF assms]
  have "hashtbl s1 = hashtbl s" using assms by (simp add: core_def)
  then have "key_ralign s1 k = key_ralign s k" by (simp add: key_ralign_def index_find_def E(7,12) split: option.split)
  then show "delta_entry s1 k v en = delta_entry s k v en" by (simp add: delta_entry_def E(14))
qed

lemma process_delta:
  assumes inv: "cache_inv (x_env x) (sv_cache sv)" "room 2 (sv_cache sv)" "env_ok (x_env x) (sv_cache sv)"
      "\<And>n. n \<le> 20 \<Longrightarrow> item_slabid (sv_cache sv) (length key) (of_nat n) \<noteq> SLABCLASS_INVALID_ID"
    and k: "klog_ok sv" and a: "asked rt False sv" and rt: "rt = (if incr then REQ_INCR else REQ_DECR)"
    and q: "request [u, key, print_dec d] nr line" and len: "length key \<le> KEY_MAX_LEN" and d: "d < 2 ^ 63"
    and sv': "sv' = asc_process_delta x (asc_tokenize line TOKEN_MAX) sv"
  shows "cache_inv (x_env x) (sv_cache sv') \<and>
    (case lookup (sv_cache sv) key of
       None \<Rightarrow> reply_is nr ''NOT_FOUND'' sv' \<and> view (sv_cache sv') = (view (sv_cache sv))(key := None)
     | Some en \<Rightarrow>
         (case mc_strtoull_len (en_value en) of
            None \<Rightarrow> reply_is nr ''CLIENT_ERROR'' sv' \<and> view (sv_cache sv') = view (sv_cache sv)
          | Some v \<Rightarrow>
              (let w = delta_value incr (of_nat d) v in
               reply_is nr ''SERVER_ERROR'' sv' \<and> view (sv_cache sv') \<subseteq>\<^sub>m view (sv_cache sv)
                  \<and> view (sv_cache sv') key = view (sv_cache sv) key
               \<or> reply_is nr (print_dec (unat w)) sv' \<and> view (sv_cache sv') key = Some (delta_entry (sv_cache sv) key w en)
                  \<and> (\<forall>k. k \<noteq> key \<longrightarrow> view (sv_cache sv') k = None \<or> view (sv_cache sv') k = view (sv_cache sv) k))))"
proof -
  let ?ts = "asc_tokenize line TOKEN_MAX" and ?s = "sv_cache sv"
  define sv1 where "sv1 = asc_set_noreply_maybe ?ts sv"
  have A: "asked rt nr sv1" and S: "score sv1 = score sv" using request_args [OF q a] by (simp_all add: sv1_def)
  obtain r out s2 where dl: "item_delta (x_env x) key incr (of_nat d) (sv_cache sv1) = ((r, out), s2)" by (metis surj_pair)
  have c1: "core (sv_cache sv1) = core ?s" using S by (simp add: score_def)
  note E = core_eqD [OF c1]
  have de: "delta_entry (sv_cache sv1) = delta_entry ?s" by (rule delta_entry_core [OF c1])
  have D: "cache_inv (x_env x) s2 \<and>
    (case lookup ?s key of
       None \<Rightarrow> r = DELTA_NOT_FOUND \<and> view s2 = (view ?s)(key := None)
     | Some en \<Rightarrow>
         (case mc_strtoull_len (en_value en) of
            None \<Rightarrow> r = DELTA_NON_NUMERIC \<and> view s2 = view ?s
          | Some v \<Rightarrow> out = Some (delta_value incr (of_nat d) v) \<and>
              (r = DELTA_EOM \<and> view s2 \<subseteq>\<^sub>m view ?s \<and> view s2 key = view ?s key
               \<or> r = DELTA_OK \<and> view s2 key = Some (delta_entry ?s key (delta_value incr (of_nat d) v) en)
                  \<and> (\<forall>k. k \<noteq> key \<longrightarrow> view s2 k = None \<or> view s2 k = view ?s k))))"
    using item_delta_spec [of "x_env x" "sv_cache sv1" key incr "of_nat d"] inv unfolding E de dl by simp
  let ?sv2 = "sv1\<lparr>sv_cache := s2\<rparr>"
  have w: "wbuf_ok (tick m ?sv2)" "c_noreply (sv_conn (tick m ?sv2)) = nr" "klog_ok (tick m ?sv2)"
    "wbuf_ok ?sv2" "c_noreply (sv_conn ?sv2) = nr" "klog_ok ?sv2" for m
    using A k S by (simp_all add: asked_def wbuf_ok_def klog_ok_def up_cache_def score_def)
  have i: "(c_req_type (sv_conn sv1) = REQ_INCR) = incr" using A rt by (simp add: asked_def)
  have "asc_validate_ntoken ?ts sv1 = (True, sv1)" by (rule request_valid [OF q A]) (use rt in simp_all)
  then have eq: "sv' = (case r of
        DELTA_OK \<Rightarrow> respond x (asc_rsp_int (the out)) 0 (tick (if incr then THREAD_incr_success else THREAD_decr_success) ?sv2)
      | DELTA_NOT_FOUND \<Rightarrow> respond x asc_rsp_not_found 1 (tick (if incr then THREAD_incr_miss else THREAD_decr_miss) ?sv2)
      | DELTA_NON_NUMERIC \<Rightarrow> respond x asc_rsp_client_error 2 ?sv2
      | DELTA_EOM \<Rightarrow> respond x asc_rsp_server_error 3 ?sv2)"
    using request_key [OF q, of sv1] request_number(1) [OF q, of 2 d sv1] len d dl
    by (simp add: sv' asc_process_delta_def sv1_def [symmetric] asc_get_delta_def i on_cache_def Let_def split: item_delta_result.split)
  have "score sv' = score ?sv2" using w by (simp add: eq score split: item_delta_result.split)
  then have C: "core (sv_cache sv') = core s2" by (simp add: score_def)
  have R: "r = DELTA_OK \<Longrightarrow> reply_is nr (print_dec (unat (the out))) sv'" "r = DELTA_NOT_FOUND \<Longrightarrow> reply_is nr ''NOT_FOUND'' sv'"
    "r = DELTA_NON_NUMERIC \<Longrightarrow> reply_is nr ''CLIENT_ERROR'' sv'" "r = DELTA_EOM \<Longrightarrow> reply_is nr ''SERVER_ERROR'' sv'"
    using rsp_reply(3,9) [OF w(1,2)] rsp_reply(6,7) [OF w(4,5)] by (simp_all add: eq respond_reply)
  show ?thesis using D R core_eqD(1,2) [OF C] by (auto simp: Let_def split: option.splits)
qed

end
