(* ===== verification/McUpdate.thy ===== *)
theory McUpdate
  imports McRequest
begin

text \<open>
  The storage commands: a request line allocates an item and the connection waits for the value; once the value and the end of its line
  are in the item, the command is carried out, the reply is made and the reference of the connection is given back.
\<close>

section \<open>The reference to the item of a request\<close>

definition held :: "cache \<Rightarrow> addr \<Rightarrow> bool" where
  "held s it \<longleftrightarrow> it \<in> live s \<and> it_refcount (items s it) \<noteq> 0"

lemma held_release:
  assumes "cache_inv e s" and "held s it" and "s' = item_remove_op it s"
  shows "cache_inv e s'" and "view s' = view s"
proof -
  have i: "cache_inv_L {} e s" "set (slab_table (heap s)) = active s" using assms(1) by (auto simp: cache_inv_iff)
  have h: "it \<in> live s" "it_refcount (items s it) \<noteq> 0" using assms(2) by (auto simp: held_def)
  note R = item_remove_view [OF i(1) h(1) _ h(2) assms(3)]
  show "cache_inv e s'" "view s' = view s" using R(1,6,8) i(2) by (simp_all add: cache_inv_iff)
qed

lemma held_after_get:
  assumes inv: "cache_inv e s" "room 1 s" and p: "pending s it" and g: "item_get_op (key_of s it) s = (r, s1)"
  shows "r = None \<Longrightarrow> held s1 it" and "r = None \<Longrightarrow> held (item_link_op e it s1) it"
    and "r = Some oit \<Longrightarrow> held (item_remove_op oit s1) it"
    and "r = Some oit \<Longrightarrow> held (item_remove_op oit (item_relink e oit it s1)) it"
proof -
  note K = key_of_pending_get [OF inv p g]
  show n: "held s1 it" if r: "r = None" using item_get_None(10) [OF inv(1) g [unfolded r] p] by (simp add: held_def pending_def)
  show "held (item_link_op e it s1) it" if r: "r = None"
  proof -
    note N = item_get_None [OF inv(1) g [unfolded r]]
    have i1: "cache_inv_L {} e s1" using N(1) by (simp add: cache_inv_iff)
    have p1: "it \<in> live s1" "it \<notin> {}" "\<not> item_is_linked (items s1 it)" "it_refcount (items s1 it) \<noteq> 0"
      using N(10) [OF p] by (auto simp: pending_def)
    note L = item_link_view [OF i1 p1 _ refl]
    have f: "index_find s1 (key_of s1 it) = None" using N(4) K(1) by simp
    have g2: "geo (item_link_op e it s1) = geo s1" using L(2) [OF f] by (simp add: only_it_def)
    show ?thesis using L(6) [OF f] p1 by (simp add: held_def geo_live [OF g2])
  qed
  assume r: "r = Some oit"
  note S = item_get_Some [OF inv g [unfolded r]]
  have p1: "pending s1 it" "it \<noteq> oit" using S(12) [OF p] by auto
  have i1: "cache_inv_L {} e s1" using S(1) by (simp add: cache_inv_iff)
  have lv: "oit \<in> live s1" using S(4) by (simp add: linked_items_def)
  note R = item_remove_view [OF i1 lv _ S(7) refl]
  have g3: "geo (item_remove_op oit s1) = geo s1" using R(2) by (simp add: only_it_def)
  show "held (item_remove_op oit s1) it" using R(2) p1 by (simp add: held_def geo_live [OF g3] pending_def) (simp add: only_it_def)
  have k: "key_of s1 oit = key_of s1 it" using S(5,6) K(1) by simp
  show "held (item_remove_op oit (item_relink e oit it s1)) it"
    using item_relink_store(3,4) [OF S(1) p1(1) S(4,7) k] p1(1) by (simp add: held_def pending_def)
qed

lemma store_held:
  assumes "cache_inv e s" "room 1 s" "pending s it"
  shows "held (item_set e it s) it" and "held (snd (item_cas e it s)) it" and "held (snd (item_add e it s)) it"
    and "held (snd (item_replace e it s)) it"
proof -
  obtain r s1 where g: "item_get_op (key_of s it) s = (r, s1)" by fastforce
  note H = held_after_get [OF assms g]
  show "held (item_set e it s) it" "held (snd (item_cas e it s)) it" "held (snd (item_add e it s)) it" "held (snd (item_replace e it s)) it"
    using H g by (cases r; simp add: item_set_def item_cas_def item_add_def item_replace_def)+
qed

section \<open>Receiving the value\<close>

text \<open>The state in which a connection waits for the value of its item.\<close>

definition awaiting :: "env \<Rightarrow> bytes \<Rightarrow> u32 \<Rightarrow> u32 \<Rightarrow> nat \<Rightarrow> addr \<Rightarrow> 'd srv \<Rightarrow> bool" where
  "awaiting e key fl ex n it sv \<longleftrightarrow>
     (let s = sv_cache sv; c = sv_conn sv; i = items s it in
      cache_inv e s \<and> room 1 s \<and> pending s it \<and> \<not> item_is_raligned i \<and> key_of s it = key \<and> unat (it_nbyte i) = n
      \<and> it_dataflags i = fl \<and> it_exptime i = ex \<and> c_item c = Some it)"

lemma rd_wr_take: "n \<le> length bs \<Longrightarrow> rd_bytes (wr_bytes m d bs) d n = take n bs"
  by (simp add: rd_bytes_def wr_bytes_def list_eq_iff_nth_eq)

lemma strcrlf_written:
  "length bs = n + CRLF_LEN \<Longrightarrow> strcrlf (wr_bytes m d bs) (d + n) \<longleftrightarrow> drop n bs = CRLF"
  by (auto simp: strcrlf_def wr_bytes_def CRLF_def CRLF_LEN_def list_eq_iff_nth_eq less_Suc_eq nth_Cons' numeral_2_eq_2)

lemma received:
  assumes a: "awaiting e key fl ex n it sv" and bs: "length bs = n + CRLF_LEN"
    and s': "s' = item_write it (item_data (sv_cache sv) it) bs (sv_cache sv)"
  shows "cache_inv e s'" and "room 1 s'" and "pending s' it" and "view s' = view (sv_cache sv)" and "lookup s' = lookup (sv_cache sv)"
    and "key_of s' it = key" and "stored s' it = \<lparr>en_value = take n bs, en_dataflags = fl, en_exptime = ex, en_cas = next_cas (sv_cache sv)\<rparr>"
    and "strcrlf (it_end (items s' it)) (item_data s' it + unat (it_nbyte (items s' it))) \<longleftrightarrow> drop n bs = CRLF"
    and "en_cas (entry_of s' it) = item_get_cas (items (sv_cache sv) it)" and "held s' it"
proof -
  let ?s = "sv_cache sv" and ?i = "items (sv_cache sv) it"
  let ?m = "wr_bytes (it_end ?i) (item_data ?s it) bs"
  have A: "cache_inv e ?s" "room 1 ?s" "pending ?s it" "\<not> item_is_raligned ?i" "key_of ?s it = key" "unat (it_nbyte ?i) = n"
    "it_dataflags ?i = fl" "it_exptime ?i = ex"
    using a by (simp_all add: awaiting_def Let_def)
  have eq: "s' = ?s\<lparr>items := (items ?s)(it := ?i\<lparr>it_end := ?m\<rparr>)\<rparr>" by (simp add: s' item_write_eq)
  have m: "rd_bytes ?m (item_data ?s it) n = take n bs" using rd_wr_take bs by simp
  have idle: "?s\<lparr>items := (items ?s)(it := ?i)\<rparr> = ?s" by simp
  have F: "cache_inv e s'" "pending s' it" "item_value s' it = take n bs" "key_of s' = key_of ?s" "linked_items s' = linked_items ?s"
    "view s' = view ?s" "entry_of s' it = (entry_of ?s it)\<lparr>en_value := take n bs\<rparr>" "next_cas s' = next_cas ?s"
    using fill_new_item [OF A(1,3) _ _ A(4), of "take n bs" ?i False "item_data ?s it" s' ?m] bs m A(6) eq idle
    by (simp_all add: wr_bytes_def)
  show "cache_inv e s'" "pending s' it" "view s' = view ?s" "key_of s' it = key" using F A(5) by simp_all
  show "held s' it" using F(2) by (simp add: held_def pending_def)
  show "room 1 s'" using A(2) by (simp add: room_def eq)
  show "stored s' it = \<lparr>en_value = take n bs, en_dataflags = fl, en_exptime = ex, en_cas = next_cas ?s\<rparr>"
    using F(7,8) A(7,8) by (simp add: stored_def entry_of_def)
  show "en_cas (entry_of s' it) = item_get_cas ?i" using F(7) by (simp add: entry_of_def)
  have d: "item_data s' it = item_data ?s it" by (simp add: eq item_data_def Let_def slab_item_size_def)
  show "strcrlf (it_end (items s' it)) (item_data s' it + unat (it_nbyte (items s' it))) \<longleftrightarrow> drop n bs = CRLF"
    using strcrlf_written [OF bs, of "it_end ?i" "item_data ?s it"] d A(6) by (simp add: eq)
  have i: "cache_inv_L {} e s'" "cache_inv_L {} e ?s" using F(1) A(1) by (auto simp: cache_inv_iff)
  show "lookup s' = lookup ?s"
  proof
    fix k
    have same: "index_find s' k = index_find ?s k"
      using index_find_iff [OF i(1)] index_find_iff [OF i(2)] F(4,5) by (metis not_None_eq)
    show "lookup s' k = lookup ?s k"
    proof (cases "index_find ?s k")
      case (Some a)
      then have "a \<noteq> it" using index_find_iff [OF i(2)] A(3) by (auto simp: pending_def linked_items_def)
      moreover have "entry_of s' a = entry_of ?s a" using \<open>a \<noteq> it\<close> by (intro entry_cong) (simp_all add: eq slab_item_size_def fun_eq_iff)
      ultimately show ?thesis using Some same by (simp add: lookup_def item_dead_def item_stale_def eq)
    qed (use same in \<open>simp add: lookup_def\<close>)
  qed
qed

section \<open>Carrying out the command\<close>

text \<open>What the commands do to the store, and what they answer.\<close>

definition store_outcome :: "req_type \<Rightarrow> entry option \<Rightarrow> u64 \<Rightarrow> bytes \<times> bool" where
  "store_outcome rt old cas =
     (if rt = REQ_SET then (''STORED'', True)
      else if rt = REQ_ADD then (if old = None then (''STORED'', True) else (''NOT_STORED'', False))
      else if rt = REQ_REPLACE then (if old = None then (''NOT_STORED'', False) else (''STORED'', True))
      else (case old of
              None \<Rightarrow> (''NOT_FOUND'', False)
            | Some en \<Rightarrow> if en_cas en = cas then (''STORED'', True) else (''EXISTS'', False)))"

text \<open>A missing key of a command that needs one is dropped if an expired entry was in its place.\<close>

definition store_view :: "bool \<Rightarrow> bytes \<Rightarrow> entry \<Rightarrow> entry option \<Rightarrow> (bytes \<rightharpoonup> entry) \<Rightarrow> bytes \<rightharpoonup> entry" where
  "store_view ok key en old v = (if ok then v(key \<mapsto> en) else if old = None then v(key := None) else v)"

definition complete_store :: "'d world \<Rightarrow> req_type \<Rightarrow> 'd srv \<Rightarrow> 'd srv" where
  "complete_store x rt sv =
     (if rt = REQ_SET then asc_complete_set x sv
      else if rt = REQ_CAS then asc_complete_cas x sv
      else if rt = REQ_ADD then asc_complete_add x sv
      else asc_complete_replace x sv)"

text \<open>The reply \<open>str\<close> is ready and the cache is \<open>s\<close>, up to metrics.\<close>

definition answered :: "bool \<Rightarrow> bytes \<Rightarrow> cache \<Rightarrow> 'd srv \<Rightarrow> bool" where
  "answered nr str s sv \<longleftrightarrow> core (sv_cache sv) = core s \<and> reply_is nr str sv"

lemma answered_respond:
  fixes sv :: "'d srv"
  assumes "klog_ok sv" and "asked rt nr sv" and f: "\<And>s. core (f s) = core s"
  shows "answered nr ''STORED'' s2 (respond x asc_rsp_stored st (up_cache f (sv\<lparr>sv_cache := s2\<rparr>)))"
    and "answered nr ''EXISTS'' s2 (respond x asc_rsp_exists st (up_cache f (sv\<lparr>sv_cache := s2\<rparr>)))"
    and "answered nr ''NOT_FOUND'' s2 (respond x asc_rsp_not_found st (up_cache f (sv\<lparr>sv_cache := s2\<rparr>)))"
    and "answered nr ''NOT_STORED'' s2 (respond x asc_rsp_not_stored st (up_cache f (sv\<lparr>sv_cache := s2\<rparr>)))"
proof -
  let ?sv1 = "up_cache f (sv\<lparr>sv_cache := s2\<rparr>)"
  have w: "wbuf_ok ?sv1" "c_noreply (sv_conn ?sv1) = nr" "klog_ok ?sv1"
    using assms by (simp_all add: asked_def wbuf_ok_def klog_ok_def up_cache_def)
  have "answered nr str s2 (respond x rsp st ?sv1)" if "reply_is nr str (snd (rsp ?sv1))" "score (snd (rsp ?sv1)) = score ?sv1" for rsp str
    using that score_respond [OF w(3), of rsp x st] f by (simp add: answered_def respond_reply score_def up_cache_def)
  then show "answered nr ''STORED'' s2 (respond x asc_rsp_stored st ?sv1)" "answered nr ''EXISTS'' s2 (respond x asc_rsp_exists st ?sv1)"
    "answered nr ''NOT_FOUND'' s2 (respond x asc_rsp_not_found st ?sv1)" "answered nr ''NOT_STORED'' s2 (respond x asc_rsp_not_stored st ?sv1)"
    using rsp_reply(1-4) [OF w(1,2)] by (simp_all add: score)
qed

lemma answered_store:
  assumes "answered nr str s2 sv" and "cache_inv e s2" and "held s2 it"
  shows "cache_inv e (sv_cache sv) \<and> held (sv_cache sv) it \<and> reply_is nr str sv \<and> view (sv_cache sv) = view s2"
proof -
  have c: "core (sv_cache sv) = core s2" using assms(1) by (simp add: answered_def)
  show ?thesis using assms core_eqD(1) [OF c, of e] core_eqD(2,7,8) [OF c] by (simp add: answered_def held_def)
qed

lemma complete_store_spec:
  fixes sv :: "'d srv"
  assumes rt: "rt \<in> {REQ_SET, REQ_CAS, REQ_ADD, REQ_REPLACE}" and it: "c_item (sv_conn sv) = Some it"
    and inv: "cache_inv (x_env x) (sv_cache sv)" "room 1 (sv_cache sv)" "pending (sv_cache sv) it"
    and k: "klog_ok sv" and a: "asked rt nr sv" and sv': "sv' = complete_store x rt sv"
  shows "cache_inv (x_env x) (sv_cache sv') \<and> held (sv_cache sv') it \<and>
    (case store_outcome rt (lookup (sv_cache sv) (key_of (sv_cache sv) it)) (en_cas (entry_of (sv_cache sv) it)) of
      (str, ok) \<Rightarrow> reply_is nr str sv' \<and> view (sv_cache sv') =
        store_view ok (key_of (sv_cache sv) it) (stored (sv_cache sv) it) (lookup (sv_cache sv) (key_of (sv_cache sv) it)) (view (sv_cache sv)))"
proof -
  let ?s = "sv_cache sv" and ?e = "x_env x"
  note R = answered_respond [OF k a, where x = x] and ok = answered_store [where sv = sv' and e = ?e and it = it and nr = nr]
  consider (set) "rt = REQ_SET" | (cas) "rt = REQ_CAS" | (add) "rt = REQ_ADD" | (rep) "rt = REQ_REPLACE" using rt by auto
  then show ?thesis
  proof cases
    case set
    let ?s2 = "item_set ?e it ?s"
    have "answered nr ''STORED'' ?s2 sv'"
      using R(1) [of "sincr (it_id (items ?s2 it)) set_success" ?s2 0] set it
      by (simp add: sv' complete_store_def asc_complete_set_def Let_def up_cache_def)
    then show ?thesis using ok [of _ ?s2] item_set_spec [OF inv] store_held(1) [OF inv] set
      by (auto simp: store_outcome_def store_view_def)
  next
    case cas
    obtain r s2 where o: "item_cas ?e it ?s = (r, s2)" by fastforce
    have "answered nr (case r of CAS_OK \<Rightarrow> ''STORED'' | CAS_EXISTS \<Rightarrow> ''EXISTS'' | CAS_NOT_FOUND \<Rightarrow> ''NOT_FOUND'') s2 sv'"
      using R(1) [of "sincr (it_id (items s2 it)) cas_success" s2 0] R(2) [of "tincr THREAD_cas_badval" s2 1]
        R(3) [of "tincr THREAD_cas_miss" s2 2] cas it o
      by (cases r) (simp_all add: sv' complete_store_def asc_complete_cas_def Let_def on_cache_def)
    then show ?thesis using ok [of _ s2] item_cas_spec [OF inv] store_held(2) [OF inv] cas o
      by (auto simp: store_outcome_def store_view_def split: option.splits if_splits)
  next
    case add
    obtain r s2 where o: "item_add ?e it ?s = (r, s2)" by fastforce
    have "answered nr (case r of ADD_OK \<Rightarrow> ''STORED'' | ADD_EXISTS \<Rightarrow> ''NOT_STORED'') s2 sv'"
      using R(1) [of "sincr (it_id (items s2 it)) add_success" s2 0] R(4) [of "tincr THREAD_add_exist" s2 1] add it o
      by (cases r) (simp_all add: sv' complete_store_def asc_complete_add_def Let_def on_cache_def)
    then show ?thesis using ok [of _ s2] item_add_spec [OF inv] store_held(3) [OF inv] add o
      by (auto simp: store_outcome_def store_view_def split: if_splits)
  next
    case rep
    obtain r s2 where o: "item_replace ?e it ?s = (r, s2)" by fastforce
    have "answered nr (case r of REPLACE_OK \<Rightarrow> ''STORED'' | REPLACE_NOT_FOUND \<Rightarrow> ''NOT_STORED'') s2 sv'"
      using R(1) [of "sincr (it_id (items s2 it)) replace_success" s2 0] R(4) [of "tincr THREAD_replace_miss" s2 1] rep it o
      by (cases r) (simp_all add: sv' complete_store_def asc_complete_replace_def Let_def on_cache_def)
    then show ?thesis using ok [of _ s2] item_replace_spec [OF inv] store_held(4) [OF inv] rep o
      by (auto simp: store_outcome_def store_view_def split: if_splits)
  qed
qed

text \<open>
  The bytes received are the value and the end of its line; with a wrong end of line the command is not carried out.
\<close>

lemma complete_nread_spec:
  fixes sv :: "'d srv"
  assumes rt: "rt \<in> {REQ_SET, REQ_CAS, REQ_ADD, REQ_REPLACE}" and w: "awaiting (x_env x) key fl ex n it sv"
    and k: "klog_ok sv" and a: "asked rt nr sv" and bs: "length bs = n + CRLF_LEN"
    and sv': "sv' = asc_complete_nread x (up_cache (item_write it (item_data (sv_cache sv) it) bs) sv)"
  shows "cache_inv (x_env x) (sv_cache sv') \<and> c_item (sv_conn sv') = None \<and>
    (if drop n bs = CRLF then
       (case store_outcome rt (lookup (sv_cache sv) key) (item_get_cas (items (sv_cache sv) it)) of
          (str, ok) \<Rightarrow> reply_is nr str sv' \<and> view (sv_cache sv') = store_view ok key
             \<lparr>en_value = take n bs, en_dataflags = fl, en_exptime = ex, en_cas = next_cas (sv_cache sv)\<rparr> (lookup (sv_cache sv) key) (view (sv_cache sv)))
     else reply_is nr ''CLIENT_ERROR'' sv' \<and> view (sv_cache sv') = view (sv_cache sv))"
proof -
  let ?e = "x_env x"
  define s1 where "s1 = item_write it (item_data (sv_cache sv) it) bs (sv_cache sv)"
  define sv1 where "sv1 = sv\<lparr>sv_cache := s1\<rparr>"
  note R = received [OF w bs s1_def]
  have it: "c_item (sv_conn sv) = Some it" using w by (simp add: awaiting_def Let_def)
  have a1: "asked rt nr sv1" "klog_ok sv1" using a k by (simp_all add: sv1_def asked_def wbuf_ok_def klog_ok_def)
  define sv2 where "sv2 = (if drop n bs = CRLF then complete_store x rt sv1 else client_error sv1)"
  have eq: "sv' = up_conn (\<lambda>c. c\<lparr>c_item := None\<rparr>) (up_cache (item_remove_op it) sv2)"
  proof -
    have "up_cache (item_write it (item_data (sv_cache sv) it) bs) sv = sv1" by (simp add: up_cache_def sv1_def s1_def)
    moreover have "c_item (sv_conn sv1) = Some it" "c_req_type (sv_conn sv1) = rt" "sv_cache sv1 = s1"
      using it a by (simp_all add: sv1_def asked_def)
    ultimately show ?thesis using rt unfolding sv' asc_complete_nread_def Let_def by (auto simp: R(8) sv2_def complete_store_def)
  qed
  have fin: "cache_inv ?e (sv_cache sv') \<and> c_item (sv_conn sv') = None \<and> view (sv_cache sv') = view (sv_cache sv2)
      \<and> reply_is nr str sv' = reply_is nr str sv2" if "cache_inv ?e (sv_cache sv2)" "held (sv_cache sv2) it" for str
    using held_release [OF that refl] by (simp add: eq up_conn_def up_cache_def reply_defs Let_def)
  show ?thesis
  proof (cases "drop n bs = CRLF")
    case True
    have "cache_inv ?e (sv_cache sv2) \<and> held (sv_cache sv2) it \<and>
        (case store_outcome rt (lookup s1 (key_of s1 it)) (en_cas (entry_of s1 it)) of
      (str, ok) \<Rightarrow> reply_is nr str sv2 \<and> view (sv_cache sv2) = store_view ok (key_of s1 it) (stored s1 it) (lookup s1 (key_of s1 it)) (view s1))"
      using complete_store_spec [OF rt _ _ _ _ a1(2,1), of it x sv2] R(1-3) it True by (simp add: sv1_def sv2_def)
    then show ?thesis using fin True R by (auto split: prod.splits)
  next
    case False
    have "score sv2 = score sv1" using False by (simp add: sv2_def score)
    then have c: "core (sv_cache sv2) = core s1" by (simp add: score_def sv1_def)
    have "reply_is nr ''CLIENT_ERROR'' sv2" using rsp_reply(6) [of sv1 nr] a1 False by (simp add: sv2_def asked_def)
    then show ?thesis using fin R(1,4,10) core_eqD(1) [OF c, of ?e] core_eqD(2,7,8) [OF c] False by (simp add: held_def)
  qed
qed

section \<open>Starting the command\<close>

lemma process_update_start:
  fixes sv :: "'d srv"
  assumes rt: "rt \<in> {REQ_SET, REQ_ADD, REQ_REPLACE}" and a: "asked rt False sv"
    and inv: "cache_inv (x_env x) (sv_cache sv)" "room 2 (sv_cache sv)" "env_ok (x_env x) (sv_cache sv)"
    and q: "request [u, key, print_dec f, print_dec t, print_dec n] nr line" and len: "length key \<le> KEY_MAX_LEN"
    and num: "f < 2 ^ 32" "t < 2 ^ 31" "n < 2 ^ 32"
    and cid: "item_slabid (sv_cache sv) (length key) (of_nat n) \<noteq> SLABCLASS_INVALID_ID"
    and sv': "sv' = asc_process_update x (asc_tokenize line TOKEN_MAX) sv"
  shows "(\<exists>it. awaiting (x_env x) key (if set_hotkey_enable (sv_hot sv) then 0 else of_nat f) (time_reltime (int t) (sv_clock sv)) n it sv'
        \<and> c_state (sv_conn sv') = CONN_NREAD \<and> c_rlbytes (sv_conn sv') = n + CRLF_LEN \<and> c_ritem (sv_conn sv') = item_data (sv_cache sv') it
        \<and> asked rt nr sv' \<and> sv_klog sv' = sv_klog sv
        \<and> view (sv_cache sv') \<subseteq>\<^sub>m view (sv_cache sv))
    \<or> (cache_inv (x_env x) (sv_cache sv') \<and> view (sv_cache sv') \<subseteq>\<^sub>m view (sv_cache sv) \<and> view (sv_cache sv') key = None
        \<and> reply_to CONN_SWALLOW nr ''SERVER_ERROR'' sv' \<and> c_sbytes (sv_conn sv') = n + CRLF_LEN \<and> sv_klog sv' = sv_klog sv)"
proof -
  let ?ts = "asc_tokenize line TOKEN_MAX" and ?e = "x_env x"
  let ?fl = "if set_hotkey_enable (sv_hot sv) then 0 else of_nat f" and ?ex = "time_reltime (int t) (sv_clock sv)"
  define sv1 where "sv1 = asc_set_noreply_maybe ?ts sv"
  define s1 where "s1 = sv_cache sv1"
  have A: "asked rt nr sv1" and S: "score sv1 = score sv" using request_args [OF q a] by (simp_all add: sv1_def)
  have c1: "core s1 = core (sv_cache sv)" using S by (simp add: score_def s1_def)
  note E = core_eqD [OF c1]
  have h1: "sv_hot sv1 = sv_hot sv" "sv_clock sv1 = sv_clock sv" "sv_klog sv1 = sv_klog sv"
    using S E(10) by (simp_all add: score_def sv_clock_def s1_def)
  have un: "unat (of_nat n :: u32) = n" using num(3) by (simp add: unsigned_of_nat take_bit_nat_eq_self)
  define c where "c = item_slabid s1 (length key) (of_nat n)"
  obtain res s2 where al: "item_alloc ?e c key ?fl ?ex (of_nat n) s1 = (res, s2)" by fastforce
  have cid': "c \<noteq> SLABCLASS_INVALID_ID" using cid E(9) by (simp add: c_def)
  have i1: "cache_inv ?e s1" "room 2 s1" "env_ok ?e s1" using inv E by simp_all
  then have r1: "room 1 s1" "room (Suc 1) s1" by (auto simp: room_def numeral_2_eq_2)
  note V = inv_slabid_valid [OF i1(1) cid' [unfolded c_def], folded c_def]
  note I = item_alloc_inv [OF i1(1,3) V(1) r1(1) V(2) al]
  have r2: "room 1 s2" by (rule item_alloc_room [OF i1(1,3) V(1) r1(2) _ al]) simp
  have "asc_validate_ntoken ?ts sv1 = (True, sv1)" by (rule request_valid [OF q A]) (use rt in auto)
  moreover have "c_req_type (sv_conn sv1) \<noteq> REQ_CAS" using A rt by (auto simp: asked_def)
  ultimately have eq: "sv' = (case res of None \<Rightarrow> swallow (of_nat n) key (sv1\<lparr>sv_cache := s2\<rparr>) | Some it \<Rightarrow> start_nread it (sv1\<lparr>sv_cache := s2\<rparr>))"
    using request_key [OF q, of sv1] request_number(2) [OF q, of 2 f sv1] request_number(3) [OF q, of 3 t sv1]
      request_number(2) [OF q, of 4 n sv1] len num al cid' h1
    by (simp add: sv' asc_process_update_def sv1_def [symmetric] asc_get_flags_def asc_get_expiry_def asc_get_vlen_def asc_get_slabid_def
        on_cache_def Let_def s1_def [symmetric] c_def [symmetric] split: option.split)
  show ?thesis
  proof (cases res)
    case (Some it)
    note N = I(4) [OF Some]
    have "pending s2 it" using N by (simp add: pending_def)
    then have "awaiting ?e key ?fl ?ex n it sv'"
      using I(1) r2 N un Some by (simp add: eq start_nread_def awaiting_def Let_def up_conn_def)
    then show ?thesis using I(3) E(2) Some A un N h1(3)
      by (intro disjI1 exI [of _ it]) (simp add: eq start_nread_def Let_def up_conn_def asked_def wbuf_ok_def)
  next
    case None
    define sv3 where "sv3 = up_conn (\<lambda>c. c\<lparr>c_write_and_go := CONN_SWALLOW, c_sbytes := n + CRLF_LEN\<rparr>) (server_error (sv1\<lparr>sv_cache := s2\<rparr>))"
    obtain r s3 where d: "item_delete key (sv_cache sv3) = (r, s3)" by fastforce
    have "score sv3 = score (sv1\<lparr>sv_cache := s2\<rparr>)" by (simp add: sv3_def score)
    then have c3: "core (sv_cache sv3) = core s2" by (simp add: score_def)
    have D: "cache_inv ?e s3" "view s3 = (view s2)(key := None)"
      using item_delete_spec [of ?e "sv_cache sv3" key] I(1) r2 d core_eqD(1) [OF c3, of ?e] core_eqD(2) [OF c3] core_eqD(5) [OF c3, of 1] by simp_all
    have eq': "sv' = sv3\<lparr>sv_cache := s3\<rparr>"
      using None d un by (simp add: eq swallow_def Let_def sv3_def on_cache_def)
    have "reply_to CONN_SWALLOW nr ''SERVER_ERROR'' sv3" "c_sbytes (sv_conn sv3) = n + CRLF_LEN" "sv_klog sv3 = sv_klog sv"
      using rsp_reply(7) [of "sv1\<lparr>sv_cache := s2\<rparr>" nr] A h1(3) by (auto simp: sv3_def reply_defs up_conn_def Let_def asked_def wbuf_ok_def)
    then show ?thesis using D I(3) E(2) by (intro disjI2) (auto simp: eq' map_le_def)
  qed
qed

section \<open>Request lines\<close>

text \<open>The three lemmas above from the request line on.\<close>

lemma request_dispatch:
  assumes "ready sv" and "c_req (sv_conn sv) = line" and "CHR 0x00 \<notin> set line" and "request (u # ws) nr line" and "ws \<noteq> []"
  shows "\<exists>sv1. asc_dispatch x sv = asc_switch x (command_type u) (asc_tokenize line TOKEN_MAX) sv1
    \<and> score sv1 = score sv \<and> asked (command_type u) False sv1"
  using dispatch_request [OF assms(1-3), of u "ws @ (if nr then [''noreply''] else [])" x] assms(4,5)
  by (auto simp: request_def)

lemma score_cache: "score sv1 = score sv \<Longrightarrow> core (sv_cache sv1) = core (sv_cache sv)"
  by (simp add: score_def)

lemma score_clock: "score sv1 = score sv \<Longrightarrow> sv_clock sv1 = sv_clock sv \<and> sv_hot sv1 = sv_hot sv \<and> sv_klog sv1 = sv_klog sv"
  by (simp add: score_def sv_clock_def core_def)

lemma delete_request_spec:
  assumes inv: "cache_inv e (sv_cache sv)" "room 1 (sv_cache sv)" and k: "klog_ok sv" and r: "ready sv"
    and l: "c_req (sv_conn sv) = line" "CHR 0x00 \<notin> set line" and q: "request [''delete'', key] nr line" and len: "length key \<le> KEY_MAX_LEN"
  shows "\<exists>sv'. asc_dispatch x sv = Some sv' \<and> cache_inv e (sv_cache sv')
    \<and> view (sv_cache sv') = (view (sv_cache sv))(key := None)
    \<and> reply_is nr (if lookup (sv_cache sv) key = None then ''NOT_FOUND'' else ''DELETED'') sv' \<and> sv_klog sv' = sv_klog sv"
proof -
  have u: "command_type ''delete'' = REQ_DELETE" by (simp add: command_type_def commands_def)
  obtain sv1 where 1: "asc_dispatch x sv = asc_switch x REQ_DELETE (asc_tokenize line TOKEN_MAX) sv1"
      "score sv1 = score sv" "asked REQ_DELETE False sv1"
    using request_dispatch [OF r l q, of x] u by auto
  note E = core_eqD [OF score_cache [OF 1(2)]]
  have "klog_ok sv1" using k score_klog_ok [OF 1(2)] by simp
  from process_delete [OF _ _ this 1(3) q len refl, of e x] show ?thesis
    using inv 1(1) score_clock [OF 1(2)] unfolding E by (simp add: asc_switch_def)
qed

lemma delta_request_spec:
  assumes inv: "cache_inv (x_env x) (sv_cache sv)" "room 2 (sv_cache sv)" "env_ok (x_env x) (sv_cache sv)"
      "\<And>n. n \<le> 20 \<Longrightarrow> item_slabid (sv_cache sv) (length key) (of_nat n) \<noteq> SLABCLASS_INVALID_ID"
    and k: "klog_ok sv" and r: "ready sv" and l: "c_req (sv_conn sv) = line" "CHR 0x00 \<notin> set line"
    and q: "request [if incr then ''incr'' else ''decr'', key, print_dec d] nr line" and len: "length key \<le> KEY_MAX_LEN" and d: "d < 2 ^ 63"
  shows "\<exists>sv'. asc_dispatch x sv = Some sv' \<and> cache_inv (x_env x) (sv_cache sv') \<and>
    (case lookup (sv_cache sv) key of
       None \<Rightarrow> reply_is nr ''NOT_FOUND'' sv' \<and> view (sv_cache sv') = (view (sv_cache sv))(key := None)
     | Some en \<Rightarrow>
         (case mc_strtoull_len (en_value en) of
            None \<Rightarrow> reply_is nr ''CLIENT_ERROR'' sv' \<and> view (sv_cache sv') = view (sv_cache sv)
          | Some v \<Rightarrow>
              (let w = delta_value incr (of_nat d) v in
               reply_is nr ''SERVER_ERROR'' sv' \<and> view (sv_cache sv') \<subseteq>\<^sub>m view (sv_cache sv)
                  \<and> view (sv_cache sv') key = view (sv_cache sv) key
               \<or> reply_is nr (print_dec (unat w)) sv' \<and> view (sv_cache sv') key = Some (delta_entry (sv_cache sv) key w en)
                  \<and> (\<forall>k. k \<noteq> key \<longrightarrow> view (sv_cache sv') k = None \<or> view (sv_cache sv') k = view (sv_cache sv) k))))"
proof -
  let ?rt = "if incr then REQ_INCR else REQ_DECR"
  have u: "command_type (if incr then ''incr'' else ''decr'') = ?rt" by (simp add: command_type_def commands_def)
  obtain sv1 where 1: "asc_dispatch x sv = asc_switch x ?rt (asc_tokenize line TOKEN_MAX) sv1"
      "score sv1 = score sv" "asked ?rt False sv1"
    using request_dispatch [OF r l q, of x] u by auto
  note c = score_cache [OF 1(2)]
  have de: "delta_entry (sv_cache sv1) = delta_entry (sv_cache sv)" by (rule delta_entry_core [OF c])
  have "asc_dispatch x sv = Some (asc_process_delta x (asc_tokenize line TOKEN_MAX) sv1)"
    using 1(1) by (simp add: asc_switch_def split: if_splits)
  moreover have "klog_ok sv1" using k score_klog_ok [OF 1(2)] by simp
  ultimately show ?thesis using process_delta [OF _ _ _ _ \<open>klog_ok sv1\<close> 1(3) refl q len d refl, of x] inv
    unfolding core_eqD [OF c] de by simp
qed

lemma update_request_spec:
  fixes sv :: "'d srv"
  assumes inv: "cache_inv (x_env x) (sv_cache sv)" "room 2 (sv_cache sv)" "env_ok (x_env x) (sv_cache sv)"
    and r: "ready sv" and l: "c_req (sv_conn sv) = line" "CHR 0x00 \<notin> set line" and u: "u \<in> {''set'', ''add'', ''replace''}"
    and q: "request [u, key, print_dec f, print_dec t, print_dec n] nr line" and len: "length key \<le> KEY_MAX_LEN"
    and num: "f < 2 ^ 32" "t < 2 ^ 31" "n < 2 ^ 32"
    and cid: "item_slabid (sv_cache sv) (length key) (of_nat n) \<noteq> SLABCLASS_INVALID_ID"
  shows "\<exists>sv'. asc_dispatch x sv = Some sv' \<and>
    ((\<exists>it. awaiting (x_env x) key (if set_hotkey_enable (sv_hot sv) then 0 else of_nat f) (time_reltime (int t) (sv_clock sv)) n it sv'
        \<and> c_state (sv_conn sv') = CONN_NREAD \<and> c_rlbytes (sv_conn sv') = n + CRLF_LEN \<and> c_ritem (sv_conn sv') = item_data (sv_cache sv') it
        \<and> asked (command_type u) nr sv'
        \<and> sv_klog sv' = sv_klog sv \<and> view (sv_cache sv') \<subseteq>\<^sub>m view (sv_cache sv))
    \<or> (cache_inv (x_env x) (sv_cache sv') \<and> view (sv_cache sv') \<subseteq>\<^sub>m view (sv_cache sv) \<and> view (sv_cache sv') key = None
        \<and> reply_to CONN_SWALLOW nr ''SERVER_ERROR'' sv' \<and> c_sbytes (sv_conn sv') = n + CRLF_LEN \<and> sv_klog sv' = sv_klog sv))"
proof -
  have c: "command_type u \<in> {REQ_SET, REQ_ADD, REQ_REPLACE}" using u
    by (elim insertE emptyE; hypsubst) (simp_all add: command_type_def commands_def)
  obtain sv1 where 1: "asc_dispatch x sv = asc_switch x (command_type u) (asc_tokenize line TOKEN_MAX) sv1"
      "score sv1 = score sv" "asked (command_type u) False sv1"
    using request_dispatch [OF r l q, of x] by auto
  have d: "asc_dispatch x sv = Some (asc_process_update x (asc_tokenize line TOKEN_MAX) sv1)"
    using 1(1) c by (auto simp: asc_switch_def)
  have H: "sv_clock sv1 = sv_clock sv" "sv_hot sv1 = sv_hot sv" "sv_klog sv1 = sv_klog sv" using score_clock [OF 1(2)] by simp_all
  note E = core_eqD [OF score_cache [OF 1(2)]]
  note P = process_update_start [OF c 1(3) _ _ _ q len num _ refl, of x, unfolded E H, OF inv cid]
  show ?thesis by (rule exI, rule conjI [OF d P])
qed

end
