(* ===== verification/McStatsOk.thy ===== *)
theory McStatsOk
  imports McParse "HOL-Library.Sublist"
begin

text \<open>
  The text of the stats command: the buffer that collects it is never overrun, and what is sent is the list of the lines, of which only those are
  missing for which there was no memory.
\<close>

section \<open>The buffer\<close>

definition stats_inv :: "conn \<Rightarrow> bool" where
  "stats_inv c \<longleftrightarrow> (case c_stats_buffer c of None \<Rightarrow> True | Some b \<Rightarrow> length b = c_stats_size c \<and> c_stats_offset c < c_stats_size c)"

definition stats_text :: "conn \<Rightarrow> bytes" where
  "stats_text c = (case c_stats_buffer c of None \<Rightarrow> [] | Some b \<Rightarrow> take (c_stats_offset c) b)"

lemma grow_size_enough:
  assumes "0 < nsize" and "needed \<le> available \<Longrightarrow> available \<le> nsize - offset"
  shows "needed \<le> grow_size needed offset available nsize - offset \<and> nsize \<le> grow_size needed offset available nsize"
  using assms
proof (induction needed offset available nsize rule: grow_size.induct)
  case (1 needed offset available nsize)
  show ?case
  proof (cases "needed > available")
    case True
    then have "grow_size needed offset available nsize = grow_size needed offset (2 * nsize - offset) (2 * nsize)"
      using "1.prems"(1) by (simp add: grow_size.simps [of needed offset available])
    then show ?thesis using "1.IH" True "1.prems"(1) by simp
  next
    case False
    then show ?thesis using "1.prems" by (simp add: grow_size.simps [of needed offset available])
  qed
qed

lemma stats_buf_grow_ok:
  assumes inv: "stats_inv c" and n: "0 < needed" and g: "stats_buf_grow al needed c = (ok, c')"
  shows "stats_inv c' \<and> stats_text c' = stats_text c"
    and "ok \<Longrightarrow> c_stats_buffer c' \<noteq> None \<and> needed \<le> c_stats_size c' - c_stats_offset c'" and "\<not> ok \<Longrightarrow> \<exists>k. \<not> al k"
proof -
  have "stats_inv c' \<and> stats_text c' = stats_text c
    \<and> (if ok then c_stats_buffer c' \<noteq> None \<and> needed \<le> c_stats_size c' - c_stats_offset c' else \<exists>k. \<not> al k)"
  proof (cases "c_stats_buffer c")
    case None
    let ?n = "grow_size needed 0 0 1024"
    have "needed \<le> ?n" "1024 \<le> ?n" using grow_size_enough [of 1024 needed 0 0] n by simp_all
    then show ?thesis using g None
      by (auto simp: stats_buf_grow_def stats_inv_def stats_text_def Let_def split: if_splits)
  next
    case (Some b)
    let ?n = "grow_size needed (c_stats_offset c) (c_stats_size c - c_stats_offset c) (c_stats_size c)"
    have b: "length b = c_stats_size c" "c_stats_offset c < c_stats_size c" using inv Some by (simp_all add: stats_inv_def)
    then have "needed \<le> ?n - c_stats_offset c" "c_stats_size c \<le> ?n"
      using grow_size_enough [of "c_stats_size c" needed "c_stats_size c - c_stats_offset c" "c_stats_offset c"] by simp_all
    then show ?thesis using g Some b
      by (auto simp: stats_buf_grow_def stats_inv_def stats_text_def Let_def split: if_splits)
  qed
  then show "stats_inv c' \<and> stats_text c' = stats_text c" "ok \<Longrightarrow> c_stats_buffer c' \<noteq> None \<and> needed \<le> c_stats_size c' - c_stats_offset c'"
    "\<not> ok \<Longrightarrow> \<exists>k. \<not> al k" by simp_all
qed

definition stats_line :: "bytes \<Rightarrow> nat \<Rightarrow> bytes \<Rightarrow> nat \<Rightarrow> bytes" where
  "stats_line key klen val vlen =
     (if klen = 0 \<and> vlen = 0 then ''END'' @ CRLF else if vlen = 0 then ''STAT '' @ key @ CRLF else ''STAT '' @ key @ '' '' @ val @ CRLF)"

lemma append_stats_fits:
  assumes inv: "stats_inv c" and b: "c_stats_buffer c = Some b" and room: "vlen + klen + 10 \<le> c_stats_size c - c_stats_offset c"
    and len: "length key \<le> klen" "length val \<le> vlen"
  shows "stats_inv (asc_append_stats key klen val vlen c)"
    and "stats_text (asc_append_stats key klen val vlen c) = stats_text c @ stats_line key klen val vlen"
proof -
  let ?t = "stats_line key klen val vlen" and ?o = "c_stats_offset c"
  let ?room = "c_stats_size c - ?o - 1"
  have t: "length ?t \<le> klen + vlen + 8" using len by (auto simp: stats_line_def CRLF_def)
  then have "take (?room - 1) ?t = ?t" "?room \<noteq> 0" using room by simp_all
  then have e: "asc_append_stats key klen val vlen c =
      c\<lparr>c_stats_buffer := Some (take ?o b @ (?t @ [CHR 0x00]) @ drop (?o + length (?t @ [CHR 0x00])) b), c_stats_offset := ?o + length ?t\<rparr>"
    by (simp add: asc_append_stats_def b stats_line_def Let_def)
  have l: "length b = c_stats_size c" "?o < c_stats_size c" using inv b by (simp_all add: stats_inv_def)
  show "stats_inv (asc_append_stats key klen val vlen c)" using e l t room by (simp add: stats_inv_def)
  show "stats_text (asc_append_stats key klen val vlen c) = stats_text c @ ?t" using e l by (simp add: stats_text_def b)
qed

lemma stats_append_line:
  assumes inv: "stats_inv c" and len: "length key \<le> klen" "length val \<le> vlen" and k: "klen = 0 \<Longrightarrow> vlen = 0"
    and c': "c' = stats_append al key klen val vlen c"
  shows "stats_inv c'" and "stats_text c' = stats_text c @ stats_line key klen val vlen \<and> c_stats_buffer c' \<noteq> None \<or> stats_text c' = stats_text c \<and> (\<exists>k. \<not> al k)"
proof -
  obtain ok c1 where g: "stats_buf_grow al (vlen + klen + 10) c = (ok, c1)" by fastforce
  note G = stats_buf_grow_ok [OF inv _ g]
  have "stats_inv c' \<and> (stats_text c' = stats_text c @ stats_line key klen val vlen \<and> c_stats_buffer c' \<noteq> None \<or> stats_text c' = stats_text c \<and> (\<exists>k. \<not> al k))"
  proof (cases ok)
    case True
    then obtain b where b: "c_stats_buffer c1 = Some b" "vlen + klen + 10 \<le> c_stats_size c1 - c_stats_offset c1" using G(2) by auto
    have "c' = asc_append_stats key klen val vlen c1" using g True k by (auto simp: c' stats_append_def)
    moreover have "c_stats_buffer (asc_append_stats key klen val vlen c1) \<noteq> None" by (simp add: asc_append_stats_def Let_def)
    ultimately show ?thesis using append_stats_fits [OF _ b len] G(1) by simp
  next
    case False
    then show ?thesis using g G k by (auto simp: c' stats_append_def)
  qed
  then show "stats_inv c'" "stats_text c' = stats_text c @ stats_line key klen val vlen \<and> c_stats_buffer c' \<noteq> None \<or> stats_text c' = stats_text c \<and> (\<exists>k. \<not> al k)"
    by blast+
qed

section \<open>The reply\<close>

definition stat_line :: "bytes \<times> bytes \<Rightarrow> bytes" where
  "stat_line nv = (case nv of (name, val) \<Rightarrow> stats_line name (length name) (take (STATS_VAL_LEN - 2) val) (length val))"

lemma stats_print_lines:
  assumes "stats_inv c" and "\<forall>(name, val) \<in> set lines. name \<noteq> []"
  shows "stats_inv (fold (stats_print al) lines c)
    \<and> (\<exists>ls. subseq ls (map stat_line lines) \<and> stats_text (fold (stats_print al) lines c) = stats_text c @ concat ls
         \<and> ((\<forall>k. al k) \<longrightarrow> ls = map stat_line lines))"
  using assms
proof (induction lines arbitrary: c)
  case (Cons nv lines)
  obtain name val where nv: "nv = (name, val)" "name \<noteq> []" using Cons.prems(2) by (cases nv) auto
  define c1 where "c1 = stats_print al nv c"
  have c1: "c1 = stats_append al name (length name) (take (STATS_VAL_LEN - 2) val) (length val) c" by (simp add: c1_def stats_print_def nv)
  note A = stats_append_line [OF Cons.prems(1) _ _ _ c1, unfolded nv]
  have i: "stats_inv c1" using A(1) nv by simp
  have t: "stats_text c1 = stats_text c @ stat_line nv \<or> stats_text c1 = stats_text c \<and> (\<exists>k. \<not> al k)"
    using A(2) nv by (auto simp: stat_line_def)
  obtain ls where ls: "stats_inv (fold (stats_print al) lines c1)" "subseq ls (map stat_line lines)"
      "stats_text (fold (stats_print al) lines c1) = stats_text c1 @ concat ls" "(\<forall>k. al k) \<longrightarrow> ls = map stat_line lines"
    using Cons.IH [OF i] Cons.prems(2) by auto
  from t show ?case
  proof
    assume "stats_text c1 = stats_text c @ stat_line nv"
    then show ?thesis using ls by (auto simp flip: c1_def intro!: exI [of _ "stat_line nv # ls"])
  next
    assume "stats_text c1 = stats_text c \<and> (\<exists>k. \<not> al k)"
    then show ?thesis using ls by (auto simp flip: c1_def intro!: exI [of _ ls])
  qed
qed auto

text \<open>What is sent for a list of lines: \<open>ls\<close> are the lines for which there was memory, with the end mark.\<close>

definition sends_text :: "bytes list \<Rightarrow> (nat \<Rightarrow> bool) \<Rightarrow> conn \<Rightarrow> bool" where
  "sends_text lines al c \<longleftrightarrow> c_state c = CONN_WRITE \<and> c_write_and_go c = CONN_NEW_CMD \<and> c_wcurr c = (O_heap, 0) \<and> c_stats_buffer c = None
     \<and> (\<exists>b ls. c_write_and_free c = Some b \<and> c_wbytes c \<le> length b \<and> take (c_wbytes c) b = concat ls \<and> subseq ls lines \<and> ((\<forall>k. al k) \<longrightarrow> ls = lines))"

lemma send_lines:
  assumes inv: "c_stats_buffer (sv_conn sv) = None" and ne: "\<forall>(name, val) \<in> set lines. name \<noteq> []"
    and sv': "sv' = send_stats (up_conn (\<lambda>c. stats_end al (fold (stats_print al) lines c)) sv)"
  shows "sends_text (map stat_line lines @ [''END'' @ CRLF]) al (sv_conn sv') \<or> (\<exists>sv1. sv' = server_error sv1) \<and> (\<exists>k. \<not> al k)"
proof -
  define c1 where "c1 = fold (stats_print al) lines (sv_conn sv)"
  define c2 where "c2 = stats_end al c1"
  have i0: "stats_inv (sv_conn sv)" "stats_text (sv_conn sv) = []" using inv by (simp_all add: stats_inv_def stats_text_def)
  obtain ls where ls: "stats_inv c1" "subseq ls (map stat_line lines)" "stats_text c1 = concat ls" "(\<forall>k. al k) \<longrightarrow> ls = map stat_line lines"
    using stats_print_lines [OF i0(1) ne, of al] i0(2) by (auto simp flip: c1_def)
  have c2: "stats_inv c2" "stats_text c2 = stats_text c1 @ ''END'' @ CRLF \<and> c_stats_buffer c2 \<noteq> None \<or> stats_text c2 = stats_text c1 \<and> (\<exists>k. \<not> al k)"
    using stats_append_line [OF ls(1) _ _ _ c2_def] by (simp_all add: stats_line_def)
  obtain ls' where ls': "subseq ls' (map stat_line lines @ [''END'' @ CRLF])" "stats_text c2 = concat ls'"
      "(\<forall>k. al k) \<longrightarrow> ls' = map stat_line lines @ [''END'' @ CRLF]" "c_stats_buffer c2 = None \<longrightarrow> (\<exists>k. \<not> al k)"
  proof (cases "stats_text c2 = stats_text c1 @ ''END'' @ CRLF \<and> c_stats_buffer c2 \<noteq> None")
    case True
    then show ?thesis using ls that [of "ls @ [''END'' @ CRLF]"] by (auto simp: list_emb_append_mono)
  next
    case False
    have "subseq ls (map stat_line lines @ [''END'' @ CRLF])" using list_emb_append_mono [OF ls(2), of "[]"] by simp
    then show ?thesis using False ls c2(2) that [of ls] by auto
  qed
  show ?thesis
  proof (cases "c_stats_buffer c2")
    case None
    then have "sv' = server_error (up_conn (\<lambda>_. c2) sv)" by (simp add: sv' send_stats_def c2_def c1_def up_conn_def)
    then show ?thesis using None ls'(4) by blast
  next
    case (Some b)
    then have "sv_conn sv' = (conn_set_state CONN_WRITE (c2\<lparr>c_write_and_free := Some b, c_wcurr := (O_heap, 0), c_wbytes := c_stats_offset c2\<rparr>))
        \<lparr>c_write_and_go := CONN_NEW_CMD, c_stats_buffer := None\<rparr>"
      by (simp add: sv' send_stats_def core_write_and_free_def c2_def c1_def)
    then show ?thesis using ls' Some c2(1) by (auto simp: sends_text_def conn_set_state_def stats_inv_def stats_text_def)
  qed
qed

lemma table_names:
  "\<forall>(m, t, name) \<in> set STATS_THREAD_METRICS. name \<noteq> []" "\<forall>(m, t, name) \<in> set STATS_SLAB_METRICS. name \<noteq> []"
  by (simp_all add: STATS_THREAD_METRICS_def STATS_SLAB_METRICS_def)

lemma default_lines_names: "\<forall>(name, val) \<in> set (default_lines x sv). name \<noteq> []"
  using table_names by (fastforce simp: default_lines_def Let_def thread_lines_def metric_line_def split: prod.splits if_splits)

lemma settings_lines_names: "\<forall>(name, val) \<in> set (settings_lines x sv). name \<noteq> []"
  by (simp add: settings_lines_def Let_def)

lemma stats_reply_spec:
  assumes en: "stats_enabled sv" and b: "c_stats_buffer (sv_conn sv) = None" and rt: "c_req_type (sv_conn sv) = REQ_STATS" "\<not> c_noreply (sv_conn sv)"
    and t: "length token = 2 \<and> lines = default_lines x sv
      \<or> length token = 3 \<and> tok_is (token ! 1) ''settings'' \<and> \<not> tok_is (token ! 1) ''reset'' \<and> lines = settings_lines x sv"
    and sv': "sv' = asc_process_stats x token sv"
  shows "sends_text (map stat_line lines @ [''END'' @ CRLF]) (x_al x) (sv_conn sv') \<or> (\<exists>sv1. sv' = server_error sv1) \<and> (\<exists>k. \<not> x_al x k)"
proof -
  let ?al = "x_al x"
  let ?go = "\<lambda>sv1. send_stats (up_conn (\<lambda>c. stats_end ?al (fold (stats_print ?al) lines c)) sv1)"
  have v: "asc_validate_ntoken token sv = (True, sv)" using rt t by (auto simp: asc_validate_ntoken_def)
  have "sv' = ?go (sv\<lparr>sv_calls := sv_calls sv + 1\<rparr>) \<or> sv' = ?go sv"
    using t en v by (auto simp: sv' asc_process_stats_def stats_default_def stats_settings_def up_conn_def)
  moreover have "\<forall>(name, val) \<in> set lines. name \<noteq> []" using t default_lines_names settings_lines_names by blast
  ultimately show ?thesis using send_lines [of "sv\<lparr>sv_calls := sv_calls sv + 1\<rparr>" lines sv' ?al] send_lines [OF b, of lines sv' ?al] b by simp blast
qed

end
