(* ===== verification/McDemoSrv.thy ===== *)
theory McDemoSrv
  imports McDemoHot McUpdate McStatsOk
begin

text \<open>
  A server with one key in its cache and a connection that has received a request, on which the properties of the protocol layer are
  applied.
\<close>

definition demo_world :: "unit world" where
  "demo_world = \<lparr>x_env = demo_env, x_al = (\<lambda>_. True), x_suffix = (\<lambda>n. n + 1), x_pool = (\<lambda>_. None), x_time = (\<lambda>_. (1010, 0)),
     x_timestr = (\<lambda>_. Some ''t''), x_strtod = (\<lambda>_. ()), x_fraction = (\<lambda>_. False), x_mul = (\<lambda>_ w. w),
     x_hkmem = (\<lambda>_. \<lparr>hm_queue = None, hm_table = None\<rparr>), x_version = (2, 6, 3),
     x_rusage = (\<lambda>_. \<lparr>ru_utime = (0, 0), ru_stime = (0, 0), ru_maxrss = 0, ru_nvcsw = 0, ru_nivcsw = 0\<rparr>),
     x_fmt_factor = (\<lambda>_. ''1.25''), x_fmt_intvl = (\<lambda>_. ''  0.100000''), x_stack = (\<lambda>_. [])\<rparr>"

definition demo_conf :: "unit conf" where
  "demo_conf = \<lparr>st_lock_page = False, st_daemonize = False, st_max_corefile = False, st_log_filename = None, st_klog_name = None, st_klog_intvl = 1000,
     st_num_workers = 4, st_username = None, st_reqs_per_event = 20, st_maxconns = 1024, st_backlog = 1024, st_port = 11211, st_udpport = 0,
     st_interface = None, st_socketpath = None, st_access = 448, st_factor = (), st_pid = 1\<rparr>"

definition demo_conn :: "bytes \<Rightarrow> conn" where
  "demo_conn req = (new_conn CONN_PARSE TCP_BUFFER_SIZE False req [])\<lparr>c_rbytes := length req, c_req := req\<rparr>"

definition demo_srv :: "bytes \<Rightarrow> unit srv" where
  "demo_srv req = \<lparr>sv_conn = demo_conn req, sv_cache = demo_set, sv_hot = demo_hotkey\<lparr>set_hotkey_enable := False\<rparr>, sv_pool = demo_pool,
     sv_suffix = (\<lambda>_. []), sv_started = 1000, sv_usec = 0, sv_klog = demo_klog, sv_kbuf = None, sv_conf = demo_conf,
     sv_agg = stats_init demo_set, sv_accepting = True, sv_stats_intvl = 100000, sv_verbose = 5, sv_calls = 0\<rparr>"

lemma demo_srv_fields [simp]:
  "sv_cache (demo_srv req) = demo_set" "x_env demo_world = demo_env" "unread (sv_conn (demo_srv req)) = req" "c_req (sv_conn (demo_srv req)) = req"
  "klog_ok (demo_srv req)" "ready (demo_srv req)" "set_hotkey_enable (sv_hot (demo_srv req)) = False"
  by (simp_all add: demo_srv_def demo_world_def demo_conn_def new_conn_def unread_def klog_ok_def demo_klog_def ready_def wbuf_ok_def
      TCP_BUFFER_SIZE_def MSG_SIZE_def IOV_SIZE_def)

lemma demo_digits: "print_dec 0 = ''0''" "print_dec 1 = ''1''" "print_dec 3 = ''3''"
  by code_simp+

lemma demo_request:
  "request [''delete'', ''k''] False ''delete k''" "request [''incr'', ''k'', print_dec 3] False ''incr k 3''"
  "request [''set'', ''k'', print_dec 0, print_dec 0, print_dec 1] True ''set k 0 0 1 noreply''"
  by (simp_all add: request_def TOKEN_MAX_def demo_digits [simplified])

text \<open>A connection that waits for the value of the item \<open>demo_it\<close>.\<close>

definition demo_wait :: "unit srv" where
  "demo_wait = (demo_srv [])\<lparr>sv_cache := demo_full,
     sv_conn := (demo_conn [])\<lparr>c_item := Some demo_it, c_ritem := item_data demo_full demo_it, c_req_type := REQ_SET\<rparr>\<rparr>"

lemma demo_wait_state:
  "awaiting demo_env ''k'' 0 0 1 demo_it demo_wait" "klog_ok demo_wait" "asked REQ_SET False demo_wait" "view (sv_cache demo_wait) = Map.empty"
  "lookup (sv_cache demo_wait) = Map.empty"
proof -
  show "awaiting demo_env ''k'' 0 0 1 demo_it demo_wait" "view (sv_cache demo_wait) = Map.empty" "lookup (sv_cache demo_wait) = Map.empty"
    using demo_full_state demo_full_room(1) demo_new_state(5,7-9)
    by (simp_all add: awaiting_def demo_wait_def Let_def demo_full_def item_write_eq)
  show "klog_ok demo_wait" "asked REQ_SET False demo_wait"
    by (simp_all add: demo_wait_def demo_srv_def klog_ok_def demo_klog_def asked_def wbuf_ok_def demo_conn_def new_conn_def TCP_BUFFER_SIZE_def)
qed

lemma demo_parse_quit:
  "\<exists>r sv1. asc_parse demo_world (demo_srv (''quit'' @ CRLF @ ''get k'' @ CRLF)) = Some (r, sv1)"
proof -
  let ?in = "''quit'' @ CRLF @ ''get k'' @ CRLF"
  let ?sv = "up_conn (\<lambda>c. c\<lparr>c_req := take 4 (unread c), c_rbuf := (c_rbuf c)[c_rcurr c + 4 := CHR 0x00]\<rparr>) (demo_srv ?in)"
  have r: "ready ?sv" "c_req (sv_conn ?sv) = ''quit''"
    using demo_srv_fields(3,6) [of ?in] by (simp_all add: ready_def wbuf_ok_def up_conn_def)
  have "\<exists>sv2. asc_dispatch demo_world ?sv = Some sv2"
    using dispatch_request [OF r, of "''quit''" "[]" demo_world]
    by (auto simp: command_type_def commands_def asc_switch_def)
  moreover have "memchr (CHR 0x0A) ?in = Some 5" by (simp add: memchr_def CRLF_def)
  moreover have "c_rbytes (sv_conn (demo_srv ?in)) = 13" by (simp add: demo_srv_def demo_conn_def CRLF_LEN_def)
  ultimately show ?thesis by (auto simp: asc_parse_def Let_def CRLF_def split: option.split)
qed

text \<open>A worker that has handled three lookups.\<close>

definition demo_worker :: "thread_metrics \<times> slab_metrics" where
  "demo_worker = (stats_thread_incr_by THREAD_get 3 stats_thread_init, stats_slabs_init)"

lemma demo_worker_ok: "worker_metrics_ok demo_worker" "metric_net (fst demo_worker THREAD_get) = 3"
proof -
  have t: "metric_like (stats_tmetrics j) (stats_tmetrics j)" "metric_like (stats_smetrics k) (stats_smetrics k)" for j k
    by (rule metric_like_template(1) [OF template_cases(1)], rule metric_like_template(1) [OF template_cases(2)])
  have "stats_tmetrics THREAD_get = Counter 0" by (simp add: stats_tmetrics_def STATS_THREAD_METRICS_def)
  then show "worker_metrics_ok demo_worker" "metric_net (fst demo_worker THREAD_get) = 3"
    using t by (simp_all add: demo_worker_def worker_metrics_ok_def stats_thread_incr_by_def stats_thread_init_def stats_slabs_init_def metric_like_def)
qed

text \<open>The request for all metrics.\<close>

definition demo_stats :: "unit srv" where
  "demo_stats = up_conn (\<lambda>c. c\<lparr>c_req_type := REQ_STATS\<rparr>) (demo_srv ''stats'')"

lemma demo_stats_state:
  "stats_enabled demo_stats" "c_stats_buffer (sv_conn demo_stats) = None" "c_req_type (sv_conn demo_stats) = REQ_STATS" "\<not> c_noreply (sv_conn demo_stats)"
  "x_al demo_world n"
  by (simp_all add: demo_stats_def demo_srv_def demo_conn_def new_conn_def stats_enabled_def up_conn_def demo_world_def)

text \<open>A connection with one part to send.\<close>

definition demo_sending :: conn where
  "demo_sending = (new_conn CONN_PARSE TCP_BUFFER_SIZE True [] [])\<lparr>c_iov := [\<lparr>iov_base = (O_null, 0), iov_len = 8\<rparr>],
     c_msg := [\<lparr>msg_iov = 0, msg_iovlen = 1\<rparr>], c_msg_bytes := 8\<rparr>"

lemma demo_sending_rel: "msgs_rel [[\<lparr>iov_base = (O_null, 0), iov_len = 8\<rparr>]] demo_sending"
  by (simp add: msgs_rel_def demo_sending_def new_conn_def segs_ok_def seg_bytes_def IOV_MAX_def UDP_MAX_PAYLOAD_SIZE_def IOV_SIZE_def MSG_SIZE_def)

lemma demo_sending_udp: "\<exists>c'. conn_build_udp_headers (\<lambda>_. True) demo_sending = (MC_OK, c')"
  by (simp add: conn_build_udp_headers_def Let_def)

end
