(* ===== verification/McThread.thy ===== *)
theory McThread
  imports McConn
begin

text \<open>
  The hand-over of connections from the dispatcher to the workers, \<^verbatim>\<open>mc_thread.c\<close> and the queues of
  \<^verbatim>\<open>mc_connection.c\<close>: a new connection is put on the queue of the next worker in turn and a byte is written to the
  worker's pipe; for every byte the worker takes one connection from its queue and registers it with its event loop.

  What the system calls and the allocator answer are arguments. The creation of threads, keys and pipes is in \<open>McSpawn\<close>.
\<close>

section \<open>Queues of connections\<close>

text \<open>The event flags the code uses: none, \<^verbatim>\<open>EV_READ | EV_PERSIST\<close> and \<^verbatim>\<open>EV_WRITE | EV_PERSIST\<close>.\<close>

datatype ev_flags = EV_none | EV_read | EV_write

record pend_conn =
  pc_sd :: int
  pc_flags :: ev_flags
  pc_conn :: conn

type_synonym conn_q = "pend_conn list"

definition conn_cq_init :: conn_q where
  "conn_cq_init = []"

definition conn_cq_push :: "pend_conn \<Rightarrow> conn_q \<Rightarrow> conn_q" where
  "conn_cq_push c cq = cq @ [c]"

fun conn_cq_pop :: "conn_q \<Rightarrow> pend_conn option \<times> conn_q" where
  "conn_cq_pop [] = (None, [])"
| "conn_cq_pop (c # cq) = (Some c, cq)"

section \<open>Workers\<close>

text \<open>
  \<open>w_pipe\<close> is the number of bytes in the notification pipe and \<open>w_conns\<close> the connections registered with the event loop of the
  worker, the oldest first.
\<close>

record worker =
  w_new_cq :: conn_q
  w_pipe :: nat
  w_conns :: "pend_conn list"

record threads =
  th_workers :: "worker list"
  th_last :: int

text \<open>The memory that \<^verbatim>\<open>conn_get\<close> obtains, with the content the new buffers happen to have.\<close>

record conn_mem =
  cm_ok :: bool
  cm_bufs :: conn_bufs
  cm_rbuf :: bytes
  cm_wbuf :: bytes

definition UDP_BUFFER_SIZE :: nat where "UDP_BUFFER_SIZE = 65536"

text \<open>
  \<open>peer\<close> is the address text of \<^verbatim>\<open>mc_resolve_peer\<close>, and \<open>wr\<close> tells whether the byte could be written to the pipe. When it could not, the
  connection stays on the queue.
\<close>

definition thread_dispatch :: "nat \<Rightarrow> conn_mem \<Rightarrow> bytes \<Rightarrow> bool \<Rightarrow> int \<Rightarrow> conn_state \<Rightarrow> ev_flags \<Rightarrow> bool
    \<Rightarrow> threads \<times> thread_metrics \<Rightarrow> rstatus \<times> threads \<times> thread_metrics" where
  "thread_dispatch csize cm peer wr sd state ev_flags udp tm =
     (let (th, m) = tm;
          rsize = (if udp then UDP_BUFFER_SIZE else TCP_BUFFER_SIZE)
      in case conn_get csize (cm_ok cm) (cm_bufs cm) state rsize udp (cm_rbuf cm) (cm_wbuf cm) m of
           (None, m) \<Rightarrow> (MC_ENOMEM, th, m)
         | (Some c, m) \<Rightarrow>
             (let c = c\<lparr>c_peer := peer\<rparr>;
                  tid = nat ((th_last th + 1) mod int (length (th_workers th)));
                  t = th_workers th ! tid;
                  t = t\<lparr>w_new_cq := conn_cq_push \<lparr>pc_sd = sd, pc_flags = ev_flags, pc_conn = c\<rparr> (w_new_cq t)\<rparr>;
                  t = (if wr then t\<lparr>w_pipe := w_pipe t + 1\<rparr> else t)
              in (if wr then MC_OK else MC_ERROR, th\<lparr>th_workers := (th_workers th)[tid := t], th_last := int tid\<rparr>, m)))"

text \<open>
  The handler of the pipe. \<open>rd\<close> tells whether the byte was read and \<open>ev\<close> whether the connection could be registered. The
  second result is the descriptor that is closed, if any.
\<close>

definition thread_libevent_process :: "nat \<Rightarrow> bool \<Rightarrow> bool \<Rightarrow> worker \<times> thread_metrics \<Rightarrow> (worker \<times> thread_metrics) \<times> int option" where
  "thread_libevent_process csize rd ev tm =
     (let (t, m) = tm;
          t = (if rd then t\<lparr>w_pipe := w_pipe t - 1\<rparr> else t)
      in case conn_cq_pop (w_new_cq t) of
           (None, cq) \<Rightarrow> ((t, m), None)
         | (Some c, cq) \<Rightarrow>
             (let t = t\<lparr>w_new_cq := cq\<rparr> in
              if ev then ((t\<lparr>w_conns := w_conns t @ [c]\<rparr>, m), None)
              else ((t, conn_put csize (pc_conn c, m)), Some (pc_sd c))))"

text \<open>The state of the workers after start-up.\<close>

definition thread_start :: "nat \<Rightarrow> threads" where
  "thread_start n = \<lparr>th_workers = replicate n \<lparr>w_new_cq = conn_cq_init, w_pipe = 0, w_conns = []\<rparr>, th_last = -1\<rparr>"

section \<open>Runs\<close>

text \<open>
  The dispatcher and the workers, each of which handles a notification when its pipe is not empty, in any order. \<open>ds\<close> is the list of the
  descriptors that were dispatched. Memory, pipes and registration are assumed to work.
\<close>

inductive dispatch_run :: "nat \<Rightarrow> int list \<Rightarrow> threads \<Rightarrow> bool" for n where
  run_start: "dispatch_run n [] (thread_start n)"
| run_dispatch: "dispatch_run n ds th \<Longrightarrow> thread_dispatch csize cm peer True sd st fl udp (th, m) = (MC_OK, th', m')
     \<Longrightarrow> dispatch_run n (ds @ [sd]) th'"
| run_process: "dispatch_run n ds th \<Longrightarrow> i < length (th_workers th) \<Longrightarrow> w_pipe (th_workers th ! i) > 0 \<Longrightarrow>
     thread_libevent_process csize True True (th_workers th ! i, m) = ((t, m'), r)
     \<Longrightarrow> dispatch_run n ds (th\<lparr>th_workers := (th_workers th)[i := t]\<rparr>)"

text \<open>The share of worker \<open>i\<close>: every \<open>n\<close>-th element of a list, from the \<open>i\<close>-th on.\<close>

fun share :: "nat \<Rightarrow> nat \<Rightarrow> 'a list \<Rightarrow> 'a list" where
  "share n i [] = []"
| "share n 0 (x # xs) = x # share n (n - 1) xs"
| "share n (Suc i) (x # xs) = share n i xs"

lemma share_snoc:
  assumes "i < n"
  shows "share n i (xs @ [x]) = (if length xs mod n = i then share n i xs @ [x] else share n i xs)"
  using assms
proof (induction xs arbitrary: i)
  case Nil
  then show ?case by (cases i) simp_all
next
  case (Cons y ys)
  have "Suc (length ys) mod n = 0 \<longleftrightarrow> length ys mod n = n - 1" using Cons.prems by (auto simp: mod_Suc)
  moreover have "Suc (length ys) mod n = Suc j \<longleftrightarrow> length ys mod n = j" if "Suc j < n" for j
    using that Cons.prems by (auto simp: mod_Suc)
  ultimately show ?case using Cons.IH [of "n - 1"] Cons.IH [of "i - 1"] Cons.prems by (cases i) simp_all
qed

definition worker_sds :: "worker \<Rightarrow> int list" where
  "worker_sds t = map pc_sd (w_conns t @ w_new_cq t)"

definition dispatch_inv :: "nat \<Rightarrow> int list \<Rightarrow> threads \<Rightarrow> bool" where
  "dispatch_inv n ds th \<longleftrightarrow> length (th_workers th) = n
     \<and> (th_last th + 1) mod int n = int (length ds mod n)
     \<and> (\<forall>i < n. worker_sds (th_workers th ! i) = share n i ds \<and> w_pipe (th_workers th ! i) = length (w_new_cq (th_workers th ! i)))"

lemma dispatch_run_inv:
  assumes "0 < n" and "dispatch_run n ds th"
  shows "dispatch_inv n ds th"
  using assms(2)
proof (induction rule: dispatch_run.induct)
  case run_start
  then show ?case by (simp add: dispatch_inv_def thread_start_def worker_sds_def conn_cq_init_def)
next
  case (run_dispatch ds th csize cm peer sd st fl udp m th' m')
  let ?tid = "nat ((th_last th + 1) mod int n)" and ?ws = "th_workers th"
  have I: "length ?ws = n" "?tid = length ds mod n" using run_dispatch.IH assms(1) by (auto simp: dispatch_inv_def)
  obtain c where th': "th' = th\<lparr>th_workers := ?ws[?tid := (?ws ! ?tid)\<lparr>w_new_cq := w_new_cq (?ws ! ?tid) @
        [\<lparr>pc_sd = sd, pc_flags = fl, pc_conn = c\<rparr>], w_pipe := w_pipe (?ws ! ?tid) + 1\<rparr>], th_last := int ?tid\<rparr>"
    using run_dispatch.hyps I(1) by (auto simp: thread_dispatch_def Let_def conn_cq_push_def split: option.splits prod.splits)
  have last: "(int ?tid + 1) mod int n = int (length (ds @ [sd]) mod n)"
    using I(2) by (simp add: zmod_int mod_simps add.commute)
  have t: "?tid < n" using I(2) assms(1) by simp
  show ?case
    unfolding dispatch_inv_def th'
    using run_dispatch.IH I last t share_snoc [of _ n ds sd]
    by (auto simp: dispatch_inv_def nth_list_update worker_sds_def)
next
  case (run_process ds th i csize m t m' r)
  let ?w = "th_workers th ! i"
  have i: "length (th_workers th) = n" "w_pipe ?w = length (w_new_cq ?w)" "worker_sds ?w = share n i ds"
    using run_process by (auto simp: dispatch_inv_def)
  obtain c cq where cq: "w_new_cq ?w = c # cq" using run_process.hyps(3) i(2) by (cases "w_new_cq ?w") auto
  have t: "t = ?w\<lparr>w_pipe := w_pipe ?w - 1, w_new_cq := cq, w_conns := w_conns ?w @ [c]\<rparr>"
    using run_process.hyps(4) cq by (simp add: thread_libevent_process_def Let_def)
  show ?case using run_process.IH run_process.hyps(2) i cq by (auto simp: dispatch_inv_def nth_list_update t worker_sds_def)
qed

lemma length_share: "i < n \<Longrightarrow> length (share n i xs) = (length xs + n - 1 - i) div n"
proof (induction n i xs rule: share.induct)
  case (2 n x xs)
  have "length (share n 0 (x # xs)) = Suc ((length xs + n - 1 - (n - 1)) div n)" using 2 by simp
  also have "\<dots> = (length (x # xs) + n - 1 - 0) div n" using "2.prems" div_add_self2 [of n "length xs"] by simp
  finally show ?case .
qed auto

end
