(* ===== verification/McCore.thy ===== *)
theory McCore
  imports McDispatch McThread
begin

text \<open>
  The state machine that drives a connection, \<^verbatim>\<open>mc_core.c\<close>, with the closing of a connection of \<^verbatim>\<open>mc_connection.c\<close>:
  reading from the socket, the parsing of requests, the reception and the discarding of values, the sending of replies, and
  the accepting of new connections.

  The answers of the system calls are functions of the number of the call, kept in \<open>dv_sys\<close>. The fields
  \<open>dv_in\<close> and \<open>dv_out\<close> record the bytes that were read from the socket and written to it.
\<close>

section \<open>State\<close>

datatype read_ans = Got bytes | Read_again | Read_failed
datatype send_ans = Sent nat | Send_again | Send_failed
datatype accept_ans = Acc_sd int | Acc_eintr | Acc_eagain | Acc_emfile | Acc_error

text \<open>
  \<open>Got []\<close> is the end of the stream. \<open>n_event\<close> are the results of \<^verbatim>\<open>event_del\<close> and \<^verbatim>\<open>event_add\<close>; \<open>n_conn\<close> the memory
  and the peer address for an accepted connection, and whether its worker could be notified.
\<close>

record net =
  n_read :: "nat \<Rightarrow> nat \<Rightarrow> read_ans"
  n_recvfrom :: "nat \<Rightarrow> nat \<Rightarrow> read_ans"
  n_sendmsg :: "nat \<Rightarrow> bytes \<Rightarrow> send_ans"
  n_event :: "nat \<Rightarrow> bool \<times> bool"
  n_listen :: "nat \<Rightarrow> bool"
  n_accept :: "nat \<Rightarrow> accept_ans"
  n_nonblock :: "nat \<Rightarrow> bool"
  n_conn :: "nat \<Rightarrow> conn_mem \<times> bytes \<times> bool"

text \<open>The parts of the process that do not change: the system, and the size of a \<^verbatim>\<open>struct conn\<close>.\<close>

record 'd host =
  h_world :: "'d world"
  h_net :: net
  h_csize :: nat

text \<open>A listening socket: its events and the length of its queue of connections.\<close>

record listener =
  l_flags :: ev_flags
  l_backlog :: int

record 'd drv =
  dv_srv :: "'d srv"
  dv_sd :: int
  dv_flags :: ev_flags
  dv_sys :: nat
  dv_in :: bytes
  dv_out :: bytes
  dv_freed :: bool
  dv_closed :: "int list"
  dv_listen :: "listener list"
  dv_threads :: threads

abbreviation dv_conn :: "'d drv \<Rightarrow> conn" where
  "dv_conn d \<equiv> sv_conn (dv_srv d)"

definition up_srv :: "('d srv \<Rightarrow> 'd srv) \<Rightarrow> 'd drv \<Rightarrow> 'd drv" where
  "up_srv f d = d\<lparr>dv_srv := f (dv_srv d)\<rparr>"

definition syscall :: "'d drv \<Rightarrow> 'd drv" where
  "syscall d = d\<lparr>dv_sys := dv_sys d + 1\<rparr>"

abbreviation up_dconn :: "(conn \<Rightarrow> conn) \<Rightarrow> 'd drv \<Rightarrow> 'd drv" where
  "up_dconn f \<equiv> up_srv (up_conn f)"

abbreviation goto :: "conn_state \<Rightarrow> 'd drv \<Rightarrow> 'd drv" where
  "goto st \<equiv> up_dconn (conn_set_state st)"

definition tadd :: "tmetric \<Rightarrow> nat \<Rightarrow> 'd drv \<Rightarrow> 'd drv" where
  "tadd m n = up_srv (up_cache (\<lambda>s. s\<lparr>tstats := stats_thread_incr_by m (int n) (tstats s)\<rparr>))"

section \<open>Events\<close>

text \<open>\<^verbatim>\<open>core_update\<close> on the flags of an event.\<close>

definition core_update_ev :: "(nat \<Rightarrow> bool \<times> bool) \<Rightarrow> ev_flags \<Rightarrow> nat \<Rightarrow> ev_flags \<Rightarrow> rstatus \<times> ev_flags \<times> nat" where
  "core_update_ev ev new_flags k flags =
     (if flags = new_flags then (MC_OK, flags, k)
      else
        (let (del, add) = ev k in
         if \<not> del then (MC_ERROR, flags, k + 1)
         else if \<not> add then (MC_ERROR, new_flags, k + 1)
         else (MC_OK, new_flags, k + 1)))"

definition core_update :: "'d host \<Rightarrow> ev_flags \<Rightarrow> 'd drv \<Rightarrow> rstatus \<times> 'd drv" where
  "core_update h new_flags d =
     (case core_update_ev (n_event (h_net h)) new_flags (dv_sys d) (dv_flags d) of
        (st, flags, k) \<Rightarrow> (st, d\<lparr>dv_flags := flags, dv_sys := k\<rparr>))"

text \<open>The loop over the listening sockets; failures are ignored.\<close>

fun accept_loop :: "'d host \<Rightarrow> int \<Rightarrow> bool \<Rightarrow> listener list \<Rightarrow> nat \<Rightarrow> listener list \<times> nat" where
  "accept_loop h backlog do_accept [] k = ([], k)"
| "accept_loop h backlog do_accept (l # ls) k =
     (let (st, flags, k) = core_update_ev (n_event (h_net h)) (if do_accept then EV_read else EV_none) k (l_flags l);
          l = l\<lparr>l_flags := flags, l_backlog := (if n_listen (h_net h) k then if do_accept then backlog else 0 else l_backlog l)\<rparr>;
          (ls, k) = accept_loop h backlog do_accept ls (k + 1)
      in (l # ls, k))"

definition core_accept_conns :: "'d host \<Rightarrow> bool \<Rightarrow> 'd drv \<Rightarrow> 'd drv" where
  "core_accept_conns h do_accept d =
     (let (ls, k) = accept_loop h (st_backlog (sv_conf (dv_srv d))) do_accept (dv_listen d) (dv_sys d);
          d = up_srv (\<lambda>sv. sv\<lparr>sv_accepting := do_accept\<rparr>) (d\<lparr>dv_listen := ls, dv_sys := k\<rparr>)
      in if do_accept then d else up_srv (tick THREAD_conn_disabled) d)"

section \<open>Accepting\<close>

text \<open>
  \<^verbatim>\<open>accept\<close> is repeated while it is interrupted by signals. The result is its answer and the number of the next call.
\<close>

partial_function (option) accept_retry :: "'d host \<Rightarrow> 'd drv \<Rightarrow> (accept_ans \<times> 'd drv) option" where
  "accept_retry h d =
     (let a = n_accept (h_net h) (dv_sys d); d = syscall d in
      if a = Acc_eintr then accept_retry h (up_srv (tick THREAD_accept_eintr) d) else Some (a, d))"

text \<open>Keepalive and nodelay are only logged when they fail.\<close>

definition core_accept :: "'d host \<Rightarrow> 'd drv \<Rightarrow> 'd drv option" where
  "core_accept h d =
     (case accept_retry h d of
        None \<Rightarrow> None
      | Some (Acc_eintr, d) \<Rightarrow> Some d
      | Some (Acc_eagain, d) \<Rightarrow> Some (up_srv (tick THREAD_accept_eagain) d)
      | Some (Acc_emfile, d) \<Rightarrow> Some (core_accept_conns h False (up_srv (tick THREAD_accept_emfile) d))
      | Some (Acc_error, d) \<Rightarrow> Some (up_srv (tick THREAD_accept_error) d)
      | Some (Acc_sd sd, d) \<Rightarrow>
          (let ok = n_nonblock (h_net h) (dv_sys d); d = syscall d in
           if \<not> ok then Some (d\<lparr>dv_closed := dv_closed d @ [sd]\<rparr>)
           else
             (let (cm, peer, wr) = n_conn (h_net h) (dv_sys d); d = syscall d in
              case thread_dispatch (h_csize h) cm peer wr sd CONN_NEW_CMD EV_read False (dv_threads d, tstats (sv_cache (dv_srv d))) of
                (st, th, m) \<Rightarrow>
                  (let d = up_srv (up_cache (\<lambda>s. s\<lparr>tstats := m\<rparr>)) (d\<lparr>dv_threads := th\<rparr>) in
                   if st \<noteq> MC_OK then Some (d\<lparr>dv_closed := dv_closed d @ [sd]\<rparr>) else Some d))))"

section \<open>Closing\<close>

text \<open>The two loops that give back what a reply held: one reference per item, and the suffix buffers.\<close>

fun release_items :: "nat \<Rightarrow> 'd srv \<Rightarrow> 'd srv" where
  "release_items 0 sv = sv"
| "release_items (Suc n) sv =
     release_items n (up_conn (\<lambda>c. c\<lparr>c_icurr := c_icurr c + 1, c_ileft := c_ileft c - 1\<rparr>)
       (up_cache (item_remove_op (c_ilist (sv_conn sv) ! c_icurr (sv_conn sv))) sv))"

fun release_suffixes :: "'d world \<Rightarrow> nat \<Rightarrow> 'd srv \<Rightarrow> 'd srv" where
  "release_suffixes x 0 sv = sv"
| "release_suffixes x (Suc n) sv =
     release_suffixes x n (up_conn (\<lambda>c. c\<lparr>c_scurr := c_scurr c + 1, c_sleft := c_sleft c - 1\<rparr>)
       (asc_destroy_suffix x (c_slist (sv_conn sv) ! c_scurr (sv_conn sv)) sv))"

definition release_reply :: "'d world \<Rightarrow> 'd srv \<Rightarrow> 'd srv" where
  "release_reply x sv = (let sv = release_items (c_ileft (sv_conn sv)) sv in release_suffixes x (c_sleft (sv_conn sv)) sv)"

definition release_item :: "'d srv \<Rightarrow> 'd srv" where
  "release_item sv =
     (case c_item (sv_conn sv) of None \<Rightarrow> sv | Some it \<Rightarrow> up_conn (\<lambda>c. c\<lparr>c_item := None\<rparr>) (up_cache (item_remove_op it) sv))"

text \<open>The buffer \<^verbatim>\<open>write_and_free\<close> is freed here, but the pointer to it stays.\<close>

definition conn_cleanup :: "'d world \<Rightarrow> 'd srv \<Rightarrow> 'd srv" where
  "conn_cleanup x sv =
     (let sv = release_reply x (release_item sv)
      in if c_udp (sv_conn sv) then up_conn (conn_set_state CONN_READ) sv else sv)"

definition conn_close :: "'d host \<Rightarrow> 'd drv \<Rightarrow> 'd drv" where
  "conn_close h d =
     (let d = syscall d;
          d = d\<lparr>dv_closed := dv_closed d @ [dv_sd d]\<rparr>;
          d = core_accept_conns h True d;
          d = up_srv (conn_cleanup (h_world h)) d;
          m = stats_thread_decr_by THREAD_conn_curr 1 (conn_put (h_csize h) (dv_conn d, tstats (sv_cache (dv_srv d))))
      in (up_srv (up_cache (\<lambda>s. s\<lparr>tstats := m\<rparr>)) d)\<lparr>dv_freed := True\<rparr>)"

definition core_close :: "'d host \<Rightarrow> 'd drv \<Rightarrow> 'd drv" where
  "core_close h d = (if c_udp (dv_conn d) then up_srv (conn_cleanup (h_world h)) d else conn_close h d)"

section \<open>Requests\<close>

definition core_reset_cmd_handler :: "'d world \<Rightarrow> 'd srv \<Rightarrow> 'd srv" where
  "core_reset_cmd_handler x sv =
     (let sv = up_conn (\<lambda>c. c\<lparr>c_req_type := REQ_UNKNOWN, c_req := []\<rparr>) sv;
          sv = release_item sv;
          sv = snd (on_cm (\<lambda>cm. ((), conn_shrink (x_al x) cm)) sv)
      in up_conn (conn_set_state (if c_rbytes (sv_conn sv) > 0 then CONN_PARSE else CONN_WAIT)) sv)"

definition core_parse :: "'d host \<Rightarrow> 'd drv \<Rightarrow> 'd drv option" where
  "core_parse h d =
     (case asc_parse (h_world h) (dv_srv d) of
        None \<Rightarrow> None
      | Some (st, sv) \<Rightarrow> (let d = d\<lparr>dv_srv := sv\<rparr> in Some (if st = MC_EAGAIN then goto CONN_WAIT d else d)))"

section \<open>Reading\<close>

datatype read_result = READ_DATA_RECEIVED | READ_NO_DATA_RECEIVED | READ_ERROR | READ_MEMORY_ERROR

text \<open>Bytes stored into a buffer from an offset on.\<close>

definition overwrite :: "nat \<Rightarrow> bytes \<Rightarrow> bytes \<Rightarrow> bytes" where
  "overwrite p bs buf = take p buf @ bs @ drop (p + length bs) buf"

definition core_read_udp :: "'d host \<Rightarrow> 'd drv \<Rightarrow> read_result \<times> 'd drv" where
  "core_read_udp h d =
     (let a = n_recvfrom (h_net h) (dv_sys d) (c_rsize (dv_conn d)); d = syscall d in
      case a of
        Got bs \<Rightarrow>
          (let d = up_dconn (\<lambda>c. c\<lparr>c_rbuf := overwrite 0 bs (c_rbuf c)\<rparr>) (d\<lparr>dv_in := dv_in d @ bs\<rparr>) in
           if length bs > 8 then
             (let d = tadd THREAD_data_read (length bs) d;
                  d = up_dconn (\<lambda>c. c\<lparr>c_udp_rid := of_char (bs ! 0) * 256 + of_char (bs ! 1)\<rparr>) d
              in if bs ! 4 \<noteq> CHR 0x00 \<or> bs ! 5 \<noteq> CHR 0x01 then (READ_NO_DATA_RECEIVED, up_srv server_error d)
                 else (READ_DATA_RECEIVED,
                       up_dconn (\<lambda>c. c\<lparr>c_rbuf := overwrite 0 (drop 8 bs) (c_rbuf c), c_rbytes := length bs - 8, c_rcurr := 0\<rparr>) d))
           else (READ_NO_DATA_RECEIVED, d))
      | _ \<Rightarrow> (READ_NO_DATA_RECEIVED, d))"

text \<open>
  One round of the loop: \<open>left\<close> reallocations are still allowed. The buffer is doubled when it is full; the new half reads as
  zero until it is written. \<open>Inl\<close> leaves the loop, \<open>Inr\<close> goes on with it.
\<close>

definition grow_rbuf :: "'d host \<Rightarrow> 'd drv \<Rightarrow> bool \<times> 'd drv" where
  "grow_rbuf h d =
     (let c = dv_conn d; ok = x_al (h_world h) (c_nalloc c);
          d = up_dconn (\<lambda>c. c\<lparr>c_nalloc := c_nalloc c + 1\<rparr>) d
      in if ok then
           (True, up_dconn (\<lambda>c. c\<lparr>c_rcurr := 0, c_rbuf := c_rbuf c @ replicate (c_rsize c) (CHR 0x00), c_rsize := c_rsize c * 2\<rparr>)
                    (up_srv (up_cache (\<lambda>s. s\<lparr>tstats := incr_mem THREAD_mem_rbuf_curr (c_rsize c) (tstats s)\<rparr>)) d))
         else
           (False, up_dconn (\<lambda>c. c\<lparr>c_write_and_go := CONN_CLOSE\<rparr>) (up_srv server_error (up_dconn (\<lambda>c. c\<lparr>c_rbytes := 0\<rparr>) d))))"

definition read_more :: "'d host \<Rightarrow> read_result \<Rightarrow> 'd drv \<Rightarrow> (read_result \<times> 'd drv) + 'd drv" where
  "read_more h gotdata d =
     (let c = dv_conn d; size = c_rsize c - c_rbytes c;
          a = n_read (h_net h) (dv_sys d) size; d = syscall d
      in case a of
           Got bs \<Rightarrow>
             if bs = [] then Inl (READ_ERROR, d)
             else
               (let d = up_dconn (\<lambda>c. c\<lparr>c_rbuf := overwrite (c_rbytes c) bs (c_rbuf c), c_rbytes := c_rbytes c + length bs\<rparr>)
                          (tadd THREAD_data_read (length bs) (d\<lparr>dv_in := dv_in d @ bs\<rparr>))
                in if length bs = size then Inr d else Inl (READ_DATA_RECEIVED, d))
         | Read_again \<Rightarrow> Inl (gotdata, up_srv (tick THREAD_read_eagain) d)
         | Read_failed \<Rightarrow> Inl (READ_ERROR, d))"

lemma read_more_full: "read_more h g d = Inr d' \<Longrightarrow> c_rsize (dv_conn d') \<le> c_rbytes (dv_conn d')"
  by (auto simp: read_more_def Let_def up_srv_def up_conn_def up_cache_def tadd_def syscall_def split: read_ans.splits if_splits)

function read_tcp_loop :: "'d host \<Rightarrow> nat \<Rightarrow> read_result \<Rightarrow> 'd drv \<Rightarrow> read_result \<times> 'd drv" where
  "read_tcp_loop h left gotdata d =
     (if c_rbytes (dv_conn d) \<ge> c_rsize (dv_conn d) then
        (if left = 0 then (gotdata, d)
         else
           (case grow_rbuf h d of
              (False, d) \<Rightarrow> (READ_MEMORY_ERROR, d)
            | (True, d) \<Rightarrow> (case read_more h gotdata d of Inl r \<Rightarrow> r | Inr d \<Rightarrow> read_tcp_loop h (left - 1) READ_DATA_RECEIVED d)))
      else (case read_more h gotdata d of Inl r \<Rightarrow> r | Inr d \<Rightarrow> read_tcp_loop h left READ_DATA_RECEIVED d))"
  by pat_completeness auto
termination
  by (relation "measure (\<lambda>(h, left, g, d). 2 * left + (if c_rbytes (dv_conn d) \<ge> c_rsize (dv_conn d) then 0 else 1))")
    (auto dest!: read_more_full)

declare read_tcp_loop.simps [simp del]

definition core_read_tcp :: "'d host \<Rightarrow> 'd drv \<Rightarrow> read_result \<times> 'd drv" where
  "core_read_tcp h d =
     (let c = dv_conn d;
          d = (if c_rcurr c \<noteq> 0
               then up_dconn (\<lambda>c. c\<lparr>c_rbuf := (if c_rbytes c \<noteq> 0 then overwrite 0 (unread c) (c_rbuf c) else c_rbuf c), c_rcurr := 0\<rparr>) d
               else d)
      in read_tcp_loop h 4 READ_NO_DATA_RECEIVED d)"

definition core_read :: "'d host \<Rightarrow> 'd drv \<Rightarrow> 'd drv" where
  "core_read h d =
     (case (if c_udp (dv_conn d) then core_read_udp h d else core_read_tcp h d) of
        (READ_NO_DATA_RECEIVED, d) \<Rightarrow> goto CONN_WAIT d
      | (READ_DATA_RECEIVED, d) \<Rightarrow> goto CONN_PARSE d
      | (READ_ERROR, d) \<Rightarrow> goto CONN_CLOSE d
      | (READ_MEMORY_ERROR, d) \<Rightarrow> d)"

section \<open>Sending\<close>

datatype transmit_result = TRANSMIT_COMPLETE | TRANSMIT_INCOMPLETE | TRANSMIT_SOFT_ERROR | TRANSMIT_HARD_ERROR

text \<open>The memory behind a pointer of a scatter/gather list.\<close>

definition mem_of :: "bytes \<Rightarrow> mem" where
  "mem_of bs = (\<lambda>n. if n < length bs then bs ! n else CHR 0x00)"

fun srv_mem :: "'d srv \<Rightarrow> obj \<Rightarrow> mem" where
  "srv_mem sv O_null = mem_of []"
| "srv_mem sv (O_static bs) = mem_of bs"
| "srv_mem sv O_wbuf = mem_of (c_wbuf (sv_conn sv))"
| "srv_mem sv O_heap = mem_of (the (c_write_and_free (sv_conn sv)))"
| "srv_mem sv (O_item it) = it_end (items (sv_cache sv) it)"
| "srv_mem sv (O_suffix p) = mem_of (sv_suffix sv p)"
| "srv_mem sv O_udp = mem_of (c_udp_hbuf (sv_conn sv))"

definition iov_bytes :: "'d srv \<Rightarrow> iovec \<Rightarrow> bytes" where
  "iov_bytes sv v = rd_bytes (srv_mem sv (fst (iov_base v))) (snd (iov_base v)) (iov_len v)"

definition msg_iovs :: "conn \<Rightarrow> msghdr \<Rightarrow> iovec list" where
  "msg_iovs c m = take (msg_iovlen m) (drop (msg_iov m) (c_iov c))"

text \<open>What \<^verbatim>\<open>sendmsg\<close> is given: the bytes of a message.\<close>

definition msg_data :: "'d srv \<Rightarrow> msghdr \<Rightarrow> bytes" where
  "msg_data sv m = concat (map (iov_bytes sv) (msg_iovs (sv_conn sv) m))"

text \<open>The entries that were sent completely are removed; the result is what was sent of the next one.\<close>

function consume_iovs :: "iovec list \<Rightarrow> nat \<Rightarrow> msghdr \<Rightarrow> nat \<times> msghdr" where
  "consume_iovs iov res m =
     (if msg_iovlen m > 0 \<and> res \<ge> iov_len (iov ! msg_iov m)
      then consume_iovs iov (res - iov_len (iov ! msg_iov m)) (m\<lparr>msg_iovlen := msg_iovlen m - 1, msg_iov := msg_iov m + 1\<rparr>)
      else (res, m))"
  by pat_completeness auto
termination by (relation "measure (\<lambda>(iov, res, m). msg_iovlen m)") simp_all

declare consume_iovs.simps [simp del]

definition advance_msg :: "nat \<Rightarrow> conn \<Rightarrow> conn" where
  "advance_msg res c =
     (let (res, m) = consume_iovs (c_iov c) res (c_msg c ! c_msg_curr c); k = msg_iov m; v = c_iov c ! k
      in c\<lparr>c_msg := (c_msg c)[c_msg_curr c := m],
           c_iov := (if res > 0 then (c_iov c)[k := v\<lparr>iov_base := (fst (iov_base v), snd (iov_base v) + res), iov_len := iov_len v - res\<rparr>]
                     else c_iov c)\<rparr>)"

definition transmit_failed :: "'d drv \<Rightarrow> 'd drv" where
  "transmit_failed d = goto (if c_udp (dv_conn d) then CONN_READ else CONN_CLOSE) d"

definition core_transmit :: "'d host \<Rightarrow> 'd drv \<Rightarrow> transmit_result \<times> 'd drv" where
  "core_transmit h d =
     (let d = up_dconn (\<lambda>c. if c_msg_curr c < length (c_msg c) \<and> msg_iovlen (c_msg c ! c_msg_curr c) = 0
                            then c\<lparr>c_msg_curr := c_msg_curr c + 1\<rparr> else c) d;
          c = dv_conn d
      in if c_msg_curr c < length (c_msg c) then
           (let data = msg_data (dv_srv d) (c_msg c ! c_msg_curr c);
                a = n_sendmsg (h_net h) (dv_sys d) data; d = syscall d
            in case a of
                 Sent res \<Rightarrow>
                   if res > 0 then
                     (TRANSMIT_INCOMPLETE, up_dconn (advance_msg res) (tadd THREAD_data_written res (d\<lparr>dv_out := dv_out d @ take res data\<rparr>)))
                   else (TRANSMIT_HARD_ERROR, transmit_failed d)
               | Send_again \<Rightarrow>
                   (case core_update h EV_write (up_srv (tick THREAD_write_eagain) d) of
                      (st, d) \<Rightarrow>
                        if st \<noteq> MC_OK then (TRANSMIT_HARD_ERROR, goto CONN_CLOSE (up_srv (tick THREAD_write_error) d))
                        else (TRANSMIT_SOFT_ERROR, d))
               | Send_failed \<Rightarrow> (TRANSMIT_HARD_ERROR, transmit_failed d))
         else (TRANSMIT_COMPLETE, d))"

end
