(* ===== verification/McDrive.thy ===== *)
theory McDrive
  imports McCore
begin

text \<open>
  The loop of \<^verbatim>\<open>core_drive_machine\<close>, one definition for each group of cases of its switch.
\<close>

section \<open>Receiving and discarding values\<close>

text \<open>
  The value is copied into the item from \<^verbatim>\<open>ritem\<close> on, which is an offset into the item here. The item is never in the read
  buffer, so the comparisons of \<^verbatim>\<open>ritem\<close> with \<^verbatim>\<open>rcurr\<close> in the code always find them different.
\<close>

definition store_read :: "bytes \<Rightarrow> 'd drv \<Rightarrow> 'd drv" where
  "store_read bs d =
     (let c = dv_conn d in
      up_dconn (\<lambda>c. c\<lparr>c_ritem := c_ritem c + length bs, c_rlbytes := c_rlbytes c - length bs\<rparr>)
        (up_srv (up_cache (item_write (the (c_item c)) (c_ritem c) bs)) d))"

text \<open>What both states do when the socket has no bytes: wait for more, or close. \<open>m\<close> is the metric of a failed wait.\<close>

definition await_read :: "'d host \<Rightarrow> tmetric option \<Rightarrow> 'd drv \<Rightarrow> bool \<times> 'd drv" where
  "await_read h m d =
     (case core_update h EV_read (up_srv (tick THREAD_read_eagain) d) of
        (st, d) \<Rightarrow>
          if st \<noteq> MC_OK then (False, goto CONN_CLOSE (case m of None \<Rightarrow> d | Some m \<Rightarrow> up_srv (tick m) d))
          else (True, d))"

definition nread_step :: "'d host \<Rightarrow> 'd drv \<Rightarrow> bool \<times> 'd drv" where
  "nread_step h d =
     (if c_rlbytes (dv_conn d) = 0 then (False, up_srv (asc_complete_nread (h_world h)) d)
      else
        (let c = dv_conn d; tocopy = min (c_rbytes c) (c_rlbytes c);
             d = (if c_rbytes c > 0
                  then up_dconn (\<lambda>c. c\<lparr>c_rcurr := c_rcurr c + tocopy, c_rbytes := c_rbytes c - tocopy\<rparr>) (store_read (take tocopy (unread c)) d)
                  else d)
         in if c_rbytes c > 0 \<and> c_rlbytes (dv_conn d) = 0 then (False, d)
            else
              (let a = n_read (h_net h) (dv_sys d) (c_rlbytes (dv_conn d)); d = syscall d in
               case a of
                 Got bs \<Rightarrow>
                   if bs = [] then (False, goto CONN_CLOSE d)
                   else (False, store_read bs (tadd THREAD_data_read (length bs) (d\<lparr>dv_in := dv_in d @ bs\<rparr>)))
               | Read_again \<Rightarrow> await_read h (Some THREAD_read_error) d
               | Read_failed \<Rightarrow> (False, goto CONN_CLOSE d))))"

text \<open>Discarded bytes are read over the start of the read buffer, which holds no unread bytes then.\<close>

definition swallow_step :: "'d host \<Rightarrow> 'd drv \<Rightarrow> bool \<times> 'd drv" where
  "swallow_step h d =
     (let c = dv_conn d in
      if c_sbytes c = 0 then (False, goto CONN_NEW_CMD d)
      else if c_rbytes c > 0 then
        (let tocopy = min (c_rbytes c) (c_sbytes c) in
         (False, up_dconn (\<lambda>c. c\<lparr>c_sbytes := c_sbytes c - tocopy, c_rcurr := c_rcurr c + tocopy, c_rbytes := c_rbytes c - tocopy\<rparr>) d))
      else
        (let a = n_read (h_net h) (dv_sys d) (min (c_rsize c) (c_sbytes c)); d = syscall d in
         case a of
           Got bs \<Rightarrow>
             if bs = [] then (False, goto CONN_CLOSE d)
             else (False, up_dconn (\<lambda>c. c\<lparr>c_rbuf := overwrite 0 bs (c_rbuf c), c_sbytes := c_sbytes c - length bs\<rparr>)
                            (tadd THREAD_data_read (length bs) (d\<lparr>dv_in := dv_in d @ bs\<rparr>)))
         | Read_again \<Rightarrow> await_read h None d
         | Read_failed \<Rightarrow> (False, goto CONN_CLOSE d)))"

section \<open>Sending replies\<close>

text \<open>What follows when everything was sent.\<close>

definition sent_all :: "'d host \<Rightarrow> 'd drv \<Rightarrow> 'd drv" where
  "sent_all h d =
     (if c_state (dv_conn d) = CONN_MWRITE then goto CONN_NEW_CMD (up_srv (release_reply (h_world h)) d)
      else if c_state (dv_conn d) = CONN_WRITE
      then goto (c_write_and_go (dv_conn d)) (up_dconn (\<lambda>c. c\<lparr>c_write_and_free := None\<rparr>) d)
      else goto CONN_CLOSE d)"

definition mwrite_step :: "'d host \<Rightarrow> 'd drv \<Rightarrow> bool \<times> 'd drv" where
  "mwrite_step h d =
     (let (st, c) = (if c_udp (dv_conn d) \<and> c_msg_curr (dv_conn d) = 0
                     then conn_build_udp_headers (x_al (h_world h)) (dv_conn d) else (MC_OK, dv_conn d));
          d = up_dconn (\<lambda>_. c) d
      in if st \<noteq> MC_OK then (False, goto CONN_CLOSE d)
         else
           (case core_transmit h d of
              (TRANSMIT_COMPLETE, d) \<Rightarrow> (False, sent_all h d)
            | (TRANSMIT_INCOMPLETE, d) \<Rightarrow> (False, d)
            | (TRANSMIT_HARD_ERROR, d) \<Rightarrow> (False, d)
            | (TRANSMIT_SOFT_ERROR, d) \<Rightarrow> (True, d)))"

definition write_step :: "'d host \<Rightarrow> 'd drv \<Rightarrow> bool \<times> 'd drv" where
  "write_step h d =
     (let c = dv_conn d;
          (st, sv) = (if length (c_iov c) = 0 \<or> c_udp c \<and> length (c_iov c) = 1
                      then on_cm (conn_add_iov (x_al (h_world h)) (c_wcurr c) (c_wbytes c)) (dv_srv d) else (MC_OK, dv_srv d));
          d = d\<lparr>dv_srv := sv\<rparr>
      in if st \<noteq> MC_OK then (False, goto CONN_CLOSE d) else mwrite_step h d)"

section \<open>The machine\<close>

definition wait_step :: "'d host \<Rightarrow> 'd drv \<Rightarrow> bool \<times> 'd drv" where
  "wait_step h d =
     (case core_update h EV_read d of
        (st, d) \<Rightarrow> if st \<noteq> MC_OK then (False, goto CONN_CLOSE d) else (True, goto CONN_READ d))"

definition yield_step :: "'d host \<Rightarrow> 'd drv \<Rightarrow> 'd drv" where
  "yield_step h d =
     (let d = up_srv (tick THREAD_conn_yield) d in
      if c_rbytes (dv_conn d) > 0
      then (case core_update h EV_write d of (st, d) \<Rightarrow> if st \<noteq> MC_OK then goto CONN_CLOSE d else d)
      else d)"

text \<open>
  One round of the loop with \<open>nreqs\<close> requests left: whether to stop, the new count and the new state. \<open>None\<close> stands for a call that does
  not return.
\<close>

definition core_step :: "'d host \<Rightarrow> int \<Rightarrow> 'd drv \<Rightarrow> (bool \<times> int \<times> 'd drv) option" where
  "core_step h nreqs d =
     (let go = (\<lambda>(stop, d). Some (stop, nreqs, d)) in
      case c_state (dv_conn d) of
        CONN_LISTEN \<Rightarrow> (case core_accept h d of None \<Rightarrow> None | Some d \<Rightarrow> go (True, d))
      | CONN_WAIT \<Rightarrow> go (wait_step h d)
      | CONN_READ \<Rightarrow> go (False, core_read h d)
      | CONN_PARSE \<Rightarrow> (case core_parse h d of None \<Rightarrow> None | Some d \<Rightarrow> go (False, d))
      | CONN_NEW_CMD \<Rightarrow>
          if nreqs - 1 \<ge> 0 then Some (False, nreqs - 1, up_srv (core_reset_cmd_handler (h_world h)) d)
          else Some (True, nreqs - 1, yield_step h d)
      | CONN_NREAD \<Rightarrow> go (nread_step h d)
      | CONN_SWALLOW \<Rightarrow> go (swallow_step h d)
      | CONN_WRITE \<Rightarrow> go (write_step h d)
      | CONN_MWRITE \<Rightarrow> go (mwrite_step h d)
      | CONN_CLOSE \<Rightarrow> go (True, core_close h d))"

partial_function (option) drive_loop :: "'d host \<Rightarrow> int \<Rightarrow> 'd drv \<Rightarrow> 'd drv option" where
  "drive_loop h nreqs d =
     (case core_step h nreqs d of
        None \<Rightarrow> None
      | Some (stop, nreqs, d) \<Rightarrow> if stop then Some d else drive_loop h nreqs d)"

definition core_drive_machine :: "'d host \<Rightarrow> 'd drv \<Rightarrow> 'd drv option" where
  "core_drive_machine h d = map_option (up_srv (srv_time_update (h_world h))) (drive_loop h (st_reqs_per_event (sv_conf (dv_srv d))) d)"

definition core_event_handler :: "'d host \<Rightarrow> int \<Rightarrow> 'd drv \<Rightarrow> 'd drv option" where
  "core_event_handler h sd d = (if dv_sd d \<noteq> sd then Some (conn_close h d) else core_drive_machine h d)"

end
