(* ===== verification/McTransmit.thy ===== *)
theory McTransmit
  imports McDrive McProto
begin

text \<open>
  What a connection has still to send, and what the calls of \<^verbatim>\<open>sendmsg\<close> do to it: however the kernel cuts the messages, the bytes
  sent followed by the bytes pending stay the same.
\<close>

section \<open>Pending bytes\<close>

definition iovs_data :: "'d srv \<Rightarrow> iovec list \<Rightarrow> msghdr \<Rightarrow> bytes" where
  "iovs_data sv iov m = concat (map (iov_bytes sv) (take (msg_iovlen m) (drop (msg_iov m) iov)))"

definition pending_out :: "'d srv \<Rightarrow> bytes" where
  "pending_out sv = concat (map (msg_data sv) (drop (c_msg_curr (sv_conn sv)) (c_msg (sv_conn sv))))"

text \<open>The messages follow each other in the list.\<close>

definition msgs_chained :: "conn \<Rightarrow> bool" where
  "msgs_chained c \<longleftrightarrow> sorted_wrt (\<lambda>m m'. msg_iov m + msg_iovlen m \<le> msg_iov m') (c_msg c)
     \<and> (\<forall>m \<in> set (c_msg c). msg_iov m + msg_iovlen m \<le> length (c_iov c))"

text \<open>Every message that was not begun has bytes to send, and so has the current one unless it is finished.\<close>

definition unsent :: "conn \<Rightarrow> msghdr list" where
  "unsent c = drop (c_msg_curr c) (c_msg c)"

definition msgs_full :: "'d srv \<Rightarrow> bool" where
  "msgs_full sv \<longleftrightarrow> (case unsent (sv_conn sv) of [] \<Rightarrow> True
     | m # ms \<Rightarrow> (msg_iovlen m = 0 \<or> msg_data sv m \<noteq> []) \<and> (\<forall>m' \<in> set ms. msg_data sv m' \<noteq> []))"

text \<open>\<^verbatim>\<open>sendmsg\<close> sends at most what it is given.\<close>

definition send_ok :: "net \<Rightarrow> bool" where
  "send_ok nt \<longleftrightarrow> (\<forall>k data n. n_sendmsg nt k data = Sent n \<longrightarrow> n \<le> length data)"

lemma msg_data_iovs: "msg_data sv m = iovs_data sv (c_iov (sv_conn sv)) m"
  by (simp add: msg_data_def msg_iovs_def iovs_data_def)

lemma length_iov_bytes [simp]: "length (iov_bytes sv v) = iov_len v"
  by (simp add: iov_bytes_def)

lemma drop_rd_bytes: "drop k (rd_bytes m p n) = rd_bytes m (p + k) (n - k)"
  by (cases "k \<le> n") (simp_all add: rd_bytes_def drop_map)

lemma iov_bytes_advance:
  "iov_bytes sv (v\<lparr>iov_base := (fst (iov_base v), snd (iov_base v) + r), iov_len := iov_len v - r\<rparr>) = drop r (iov_bytes sv v)"
  by (simp add: iov_bytes_def drop_rd_bytes)

lemma iovs_data_step:
  assumes "msg_iovlen m > 0" and "msg_iov m < length iov"
  shows "iovs_data sv iov m = iov_bytes sv (iov ! msg_iov m) @ iovs_data sv iov (m\<lparr>msg_iovlen := msg_iovlen m - 1, msg_iov := msg_iov m + 1\<rparr>)"
proof -
  obtain n where n: "msg_iovlen m = Suc n" using assms(1) by (cases "msg_iovlen m") auto
  have "drop (msg_iov m) iov = iov ! msg_iov m # drop (Suc (msg_iov m)) iov" using Cons_nth_drop_Suc [OF assms(2)] by simp
  then show ?thesis by (simp add: iovs_data_def n)
qed

lemma consume_iovs_data:
  assumes "consume_iovs iov res m = (r, m')" and "res \<le> length (iovs_data sv iov m)"
  shows "iovs_data sv iov m' = drop (res - r) (iovs_data sv iov m) \<and> r \<le> res \<and> msg_iov m \<le> msg_iov m'
    \<and> msg_iov m' + msg_iovlen m' = msg_iov m + msg_iovlen m
    \<and> (r > 0 \<longrightarrow> msg_iovlen m' > 0 \<and> msg_iov m' < length iov) \<and> (msg_iovlen m' > 0 \<longrightarrow> r < iov_len (iov ! msg_iov m'))"
  using assms
proof (induction iov res m arbitrary: r m' rule: consume_iovs.induct)
  case (1 iov res m)
  let ?v = "iov ! msg_iov m" and ?m = "m\<lparr>msg_iovlen := msg_iovlen m - 1, msg_iov := msg_iov m + 1\<rparr>"
  have out: "msg_iov m < length iov" if "res > 0" using "1.prems"(2) that by (cases "msg_iov m < length iov") (auto simp: iovs_data_def)
  show ?case
  proof (cases "msg_iovlen m > 0 \<and> iov_len ?v \<le> res")
    case True
    then have c: "consume_iovs iov (res - iov_len ?v) ?m = (r, m')" using "1.prems"(1) by (simp add: consume_iovs.simps [of iov res m])
    show ?thesis
    proof (cases "msg_iov m < length iov")
      case in_range: True
      have D: "iovs_data sv iov m = iov_bytes sv ?v @ iovs_data sv iov ?m" by (rule iovs_data_step) (use True in_range in auto)
      then have "res - iov_len ?v \<le> length (iovs_data sv iov ?m)" using "1.prems"(2) by simp
      note IH = "1.IH" [OF True c this]
      then have "res - r = iov_len ?v + (res - iov_len ?v - r)" using True by auto
      then show ?thesis using IH D True by auto
    next
      case False
      then have "res = 0" using out by blast
      moreover from this have "iov_len ?v = 0" using True by simp
      moreover have "iovs_data sv iov m = []" "iovs_data sv iov ?m = []" using False by (simp_all add: iovs_data_def)
      ultimately show ?thesis using "1.IH" [OF True c] True by auto
    qed
  next
    case False
    then have "r = res" "m' = m" using "1.prems"(1) by (auto simp: consume_iovs.simps [of iov res m] split: if_splits)
    moreover have "res > 0 \<longrightarrow> msg_iovlen m > 0" using "1.prems"(2) by (cases "msg_iovlen m") (auto simp: iovs_data_def)
    ultimately show ?thesis using False out by auto
  qed
qed

lemma iovs_data_cong:
  assumes "\<And>i. msg_iov m \<le> i \<Longrightarrow> i < length iov \<Longrightarrow> iov' ! i = iov ! i" and "length iov' = length iov"
  shows "iovs_data sv iov' m = iovs_data sv iov m"
proof -
  have "drop (msg_iov m) iov' = drop (msg_iov m) iov" using assms by (intro nth_equalityI) simp_all
  then show ?thesis by (simp add: iovs_data_def)
qed

lemma iovs_data_mem:
  "srv_mem sv' = srv_mem sv \<Longrightarrow> iovs_data sv' = iovs_data sv"
  by (intro ext) (simp add: iovs_data_def iov_bytes_def [abs_def])

section \<open>One call of sendmsg\<close>

lemma srv_mem_cong:
  assumes "c_wbuf (sv_conn sv') = c_wbuf (sv_conn sv)" "c_write_and_free (sv_conn sv') = c_write_and_free (sv_conn sv)"
    "items (sv_cache sv') = items (sv_cache sv)" "sv_suffix sv' = sv_suffix sv" "c_udp_hbuf (sv_conn sv') = c_udp_hbuf (sv_conn sv)"
  shows "srv_mem sv' = srv_mem sv"
proof
  fix ob show "srv_mem sv' ob = srv_mem sv ob" using assms by (cases ob) simp_all
qed

lemma advance_msg_pending:
  assumes ch: "msgs_chained (sv_conn sv)" and k: "c_msg_curr (sv_conn sv) < length (c_msg (sv_conn sv))"
    and n: "res \<le> length (msg_data sv (c_msg (sv_conn sv) ! c_msg_curr (sv_conn sv)))" and sv': "sv' = up_conn (advance_msg res) sv"
  shows "pending_out sv' = drop res (pending_out sv)" and "msgs_chained (sv_conn sv')" and "msgs_full sv \<Longrightarrow> msgs_full sv'"
proof -
  let ?c = "sv_conn sv" and ?k = "c_msg_curr (sv_conn sv)"
  let ?m = "c_msg ?c ! ?k"
  obtain r m' where c: "consume_iovs (c_iov ?c) res ?m = (r, m')" by fastforce
  note C = consume_iovs_data [OF c n [unfolded msg_data_iovs]]
  let ?v = "c_iov ?c ! msg_iov m'"
  let ?iov = "if r > 0 then (c_iov ?c)[msg_iov m' := ?v\<lparr>iov_base := (fst (iov_base ?v), snd (iov_base ?v) + r), iov_len := iov_len ?v - r\<rparr>]
    else c_iov ?c"
  have c': "sv_conn sv' = ?c\<lparr>c_msg := (c_msg ?c)[?k := m'], c_iov := ?iov\<rparr>" by (simp add: sv' up_conn_def advance_msg_def c Let_def)
  have mm: "srv_mem sv' = srv_mem sv" by (rule srv_mem_cong) (simp_all add: c', simp_all add: sv' up_conn_def)
  have len: "length ?iov = length (c_iov ?c)" by simp
  have here: "iovs_data sv ?iov m' = drop res (iovs_data sv (c_iov ?c) ?m)"
  proof (cases "r > 0")
    case True
    then have m': "msg_iovlen m' > 0" "msg_iov m' < length (c_iov ?c)" "r < iov_len ?v" using C by auto
    let ?next = "m'\<lparr>msg_iovlen := msg_iovlen m' - 1, msg_iov := msg_iov m' + 1\<rparr>"
    have "iovs_data sv ?iov ?next = iovs_data sv (c_iov ?c) ?next" by (rule iovs_data_cong) (simp_all add: nth_list_update)
    then have "iovs_data sv ?iov m' = drop r (iov_bytes sv ?v) @ iovs_data sv (c_iov ?c) ?next"
      using iovs_data_step [of m' ?iov sv] m' True by (simp add: iov_bytes_advance)
    also have "\<dots> = drop r (iovs_data sv (c_iov ?c) m')" using iovs_data_step [OF m'(1,2), of sv] m'(3) by simp
    also have "\<dots> = drop res (iovs_data sv (c_iov ?c) ?m)" using C by simp
    finally show ?thesis .
  next
    case False
    then show ?thesis using C by simp
  qed
  let ?later = "drop (Suc ?k) (c_msg ?c)"
  have split: "drop ?k (c_msg ?c) = ?m # ?later" using Cons_nth_drop_Suc [OF k] by simp
  have ord: "msg_iov ?m + msg_iovlen ?m \<le> msg_iov m2" if "m2 \<in> set ?later" for m2
    using ch that sorted_wrt_drop [of "\<lambda>m m'. msg_iov m + msg_iovlen m \<le> msg_iov m'" "c_msg ?c" ?k] by (auto simp: msgs_chained_def split)
  have there: "iovs_data sv ?iov m2 = iovs_data sv (c_iov ?c) m2" if "m2 \<in> set ?later" for m2
    using ord [OF that] C by (intro iovs_data_cong) (auto simp: nth_list_update)
  have new: "unsent (sv_conn sv') = m' # ?later" "msg_data sv' = iovs_data sv ?iov"
    using k by (simp_all add: unsent_def msg_data_iovs [abs_def] c' iovs_data_mem [OF mm] drop_update_swap del: if_split flip: Cons_nth_drop_Suc)
  then have "pending_out sv' = iovs_data sv ?iov m' @ concat (map (iovs_data sv ?iov) ?later)" by (simp add: pending_out_def unsent_def)
  also have "\<dots> = drop res (iovs_data sv (c_iov ?c) ?m) @ concat (map (iovs_data sv (c_iov ?c)) ?later)"
    using there by (simp add: here cong: map_cong)
  also have "\<dots> = drop res (pending_out sv)" using n by (simp add: pending_out_def split msg_data_iovs [abs_def])
  finally show "pending_out sv' = drop res (pending_out sv)" .
  have e: "msg_iov m' + msg_iovlen m' = msg_iov ?m + msg_iovlen ?m" "msg_iov ?m \<le> msg_iov m'" using C by auto
  have rng: "\<forall>m \<in> set (c_msg ?c). msg_iov m + msg_iovlen m \<le> length (c_iov ?c)" using ch by (simp add: msgs_chained_def)
  then have m_in: "msg_iov m' + msg_iovlen m' \<le> length (c_iov ?c)" using e(1) nth_mem [OF k] by simp
  have "sorted_wrt (\<lambda>m m'. msg_iov m + msg_iovlen m \<le> msg_iov m') ((c_msg ?c)[?k := m'])"
    using ch k e unfolding msgs_chained_def sorted_wrt_iff_nth_less
    by (auto simp: nth_list_update) (metis order_trans)
  moreover have "\<forall>m \<in> set ((c_msg ?c)[?k := m']). msg_iov m + msg_iovlen m \<le> length ?iov"
    using set_update_subset_insert [of "c_msg ?c" ?k m'] rng m_in len by auto
  ultimately show "msgs_chained (sv_conn sv')" by (simp add: msgs_chained_def c')
  have "iovs_data sv ?iov m' \<noteq> []" if "msg_iovlen m' > 0"
  proof -
    have "iov_len (?iov ! msg_iov m') > 0" "msg_iov m' < length ?iov" using C that m_in by auto
    then show ?thesis using iovs_data_step [of m' ?iov sv] that by (auto simp flip: length_greater_0_conv simp del: length_greater_0_conv)
  qed
  moreover have "msgs_full sv \<longleftrightarrow> (msg_iovlen ?m = 0 \<or> msg_data sv ?m \<noteq> []) \<and> (\<forall>m2 \<in> set ?later. msg_data sv m2 \<noteq> [])"
    by (simp add: msgs_full_def unsent_def split)
  ultimately show "msgs_full sv \<Longrightarrow> msgs_full sv'" using there unfolding msgs_full_def [of sv'] new by (auto simp: msg_data_iovs split del: if_split)
qed

lemma msg_data_cong:
  assumes "srv_mem sv' = srv_mem sv" and "c_iov (sv_conn sv') = c_iov (sv_conn sv)"
  shows "msg_data sv' = msg_data sv"
  by (intro ext) (simp add: msg_data_iovs iovs_data_mem [OF assms(1)] assms(2))

lemma pending_out_cong:
  assumes "srv_mem sv' = srv_mem sv" "c_msg (sv_conn sv') = c_msg (sv_conn sv)" "c_msg_curr (sv_conn sv') = c_msg_curr (sv_conn sv)"
    "c_iov (sv_conn sv') = c_iov (sv_conn sv)"
  shows "pending_out sv' = pending_out sv"
  using assms by (simp add: pending_out_def msg_data_iovs [abs_def] iovs_data_mem [OF assms(1)])

text \<open>What sending leaves alone: everything but the metrics, the lists and the trace.\<close>

definition out_conn :: "conn \<Rightarrow> conn" where
  "out_conn c = c\<lparr>c_msg := [], c_iov := [], c_msg_curr := 0, c_state := CONN_LISTEN\<rparr>"

definition out_ctx :: "'d drv \<Rightarrow> 'd srv \<times> bytes" where
  "out_ctx d = ((dv_srv d)\<lparr>sv_conn := out_conn (dv_conn d), sv_cache := (sv_cache (dv_srv d))\<lparr>tstats := (\<lambda>_. Counter 0)\<rparr>\<rparr>, dv_in d)"

lemma out_conn_set_state [simp]: "out_conn (conn_set_state st c) = out_conn c"
  by (simp add: out_conn_def conn_set_state_def)

lemma out_ctx_conn: "out_conn (f (dv_conn d)) = out_conn (dv_conn d) \<Longrightarrow> out_ctx (up_dconn f d) = out_ctx d"
  by (simp add: out_ctx_def up_srv_def up_conn_def)

lemma out_ctx_tick [simp]: "out_ctx (up_srv (up_cache (\<lambda>s. s\<lparr>tstats := f s\<rparr>)) d) = out_ctx d" "out_ctx (up_srv (tick m) d) = out_ctx d"
  by (simp_all add: out_ctx_def up_srv_def up_cache_def tincr_def)

lemma out_ctx_other [simp]: "out_ctx (syscall d) = out_ctx d" "out_ctx (d\<lparr>dv_out := os\<rparr>) = out_ctx d" "out_ctx (goto st d) = out_ctx d"
  "out_ctx (tadd m n d) = out_ctx d"
  by (simp_all add: out_ctx_def syscall_def up_srv_def up_conn_def tadd_def up_cache_def)

lemma out_ctxD:
  assumes "out_ctx d' = out_ctx d"
  shows "score (dv_srv d') = score (dv_srv d)" and "dv_in d' = dv_in d" and "out_conn (dv_conn d') = out_conn (dv_conn d)"
    and "sv_pool (dv_srv d') = sv_pool (dv_srv d)" and "sv_suffix (dv_srv d') = sv_suffix (dv_srv d)" and "sv_calls (dv_srv d') = sv_calls (dv_srv d)"
proof -
  let ?e = "\<lambda>d. (dv_srv d)\<lparr>sv_conn := out_conn (dv_conn d), sv_cache := (sv_cache (dv_srv d))\<lparr>tstats := (\<lambda>_. Counter 0)\<rparr>\<rparr>"
  have e: "?e d' = ?e d" and "dv_in d' = dv_in d" using assms by (simp_all add: out_ctx_def)
  then show "dv_in d' = dv_in d" by simp
  show "out_conn (dv_conn d') = out_conn (dv_conn d)" using arg_cong [OF e, of sv_conn] by simp
  show "sv_pool (dv_srv d') = sv_pool (dv_srv d)" "sv_suffix (dv_srv d') = sv_suffix (dv_srv d)" "sv_calls (dv_srv d') = sv_calls (dv_srv d)"
    using arg_cong [OF e, of sv_pool] arg_cong [OF e, of sv_suffix] arg_cong [OF e, of sv_calls] by simp_all
  have "score (?e d) = score (dv_srv d)" for d :: "'d drv" by (simp add: score_def)
  then show "score (dv_srv d') = score (dv_srv d)" using e by metis
qed

lemma out_connD:
  assumes "out_conn c' = out_conn c"
  shows "cmark c' = cmark c" "c_write_and_go c' = c_write_and_go c" "c_ileft c' = c_ileft c" "c_sleft c' = c_sleft c" "c_sbytes c' = c_sbytes c"
    "c_ilist c' = c_ilist c" "c_icurr c' = c_icurr c" "c_slist c' = c_slist c" "c_scurr c' = c_scurr c" "c_item c' = c_item c"
    "c_noreply c' = c_noreply c" "c_wsize c' = c_wsize c" "c_iov_size c' = c_iov_size c" "c_msg_size c' = c_msg_size c" "c_udp c' = c_udp c"
  using arg_cong [OF assms, of cmark] arg_cong [OF assms, of c_write_and_go] arg_cong [OF assms, of c_ileft] arg_cong [OF assms, of c_sleft] arg_cong [OF assms, of c_sbytes]
    arg_cong [OF assms, of c_ilist] arg_cong [OF assms, of c_icurr] arg_cong [OF assms, of c_slist] arg_cong [OF assms, of c_scurr] arg_cong [OF assms, of c_item]
    arg_cong [OF assms, of c_noreply] arg_cong [OF assms, of c_wsize] arg_cong [OF assms, of c_iov_size] arg_cong [OF assms, of c_msg_size] arg_cong [OF assms, of c_udp]
  by (simp_all add: out_conn_def cmark_def)

lemma up_srv_fields [simp]:
  "dv_srv (up_srv f d) = f (dv_srv d)" "dv_out (up_srv f d) = dv_out d" "dv_in (up_srv f d) = dv_in d" "dv_sys (up_srv f d) = dv_sys d"
  by (simp_all add: up_srv_def)

lemma syscall_fields [simp]: "dv_srv (syscall d) = dv_srv d" "dv_out (syscall d) = dv_out d" "dv_in (syscall d) = dv_in d"
  by (simp_all add: syscall_def)

lemma core_update_fields:
  "core_update h fl d = (st, d') \<Longrightarrow> dv_srv d' = dv_srv d \<and> dv_out d' = dv_out d \<and> dv_in d' = dv_in d"
  by (auto simp: core_update_def split: prod.splits)

text \<open>A message without entries is skipped.\<close>

definition skip_msg :: "conn \<Rightarrow> conn" where
  "skip_msg c = (if c_msg_curr c < length (c_msg c) \<and> msg_iovlen (c_msg c ! c_msg_curr c) = 0 then c\<lparr>c_msg_curr := c_msg_curr c + 1\<rparr> else c)"

lemma skip_msg_pending:
  "pending_out (up_conn skip_msg sv) = pending_out sv" "msgs_chained (skip_msg c) = msgs_chained c"
  "cmark (skip_msg c) = cmark c" "c_state (skip_msg c) = c_state c" "c_write_and_go (skip_msg c) = c_write_and_go c"
  "c_ileft (skip_msg c) = c_ileft c" "c_sleft (skip_msg c) = c_sleft c" "c_sbytes (skip_msg c) = c_sbytes c" "c_udp (skip_msg c) = c_udp c"
proof -
  let ?c = "sv_conn sv" and ?sv = "up_conn skip_msg sv"
  have m: "srv_mem ?sv = srv_mem sv" by (rule srv_mem_cong) (simp_all add: skip_msg_def)
  have d: "msg_data ?sv = msg_data sv" by (intro ext) (simp add: msg_data_iovs iovs_data_mem [OF m], simp add: skip_msg_def)
  show "pending_out ?sv = pending_out sv"
  proof (cases "c_msg_curr ?c < length (c_msg ?c) \<and> msg_iovlen (c_msg ?c ! c_msg_curr ?c) = 0")
    case True
    then have "msg_data sv (c_msg ?c ! c_msg_curr ?c) = []" by (simp add: msg_data_def msg_iovs_def)
    moreover have "drop (c_msg_curr ?c) (c_msg ?c) = c_msg ?c ! c_msg_curr ?c # drop (Suc (c_msg_curr ?c)) (c_msg ?c)"
      using Cons_nth_drop_Suc [of "c_msg_curr ?c" "c_msg ?c"] True by simp
    ultimately show ?thesis using True by (simp add: pending_out_def d, simp add: skip_msg_def)
  qed (auto simp: pending_out_def d skip_msg_def)
qed (simp_all add: skip_msg_def msgs_chained_def cmark_def)

lemma skip_msg_full:
  assumes "msgs_full sv" and "sv' = up_conn skip_msg sv"
  shows "msgs_full sv'" and "unsent (sv_conn sv') = m # ms \<Longrightarrow> msg_data sv' m \<noteq> []"
proof -
  let ?c = "sv_conn sv"
  have m: "srv_mem sv' = srv_mem sv" by (rule srv_mem_cong) (simp_all add: assms(2) skip_msg_def)
  have d: "msg_data sv' = msg_data sv" by (rule msg_data_cong [OF m]) (simp add: assms(2) skip_msg_def)
  have u: "unsent (sv_conn sv') = (case unsent ?c of [] \<Rightarrow> [] | m # ms \<Rightarrow> if msg_iovlen m = 0 then ms else m # ms)"
  proof (cases "c_msg_curr ?c < length (c_msg ?c)")
    case True
    then show ?thesis using Cons_nth_drop_Suc [OF True, symmetric] by (simp add: assms(2) skip_msg_def unsent_def)
  qed (simp add: assms(2) skip_msg_def unsent_def)
  show "msgs_full sv'" "unsent (sv_conn sv') = m # ms \<Longrightarrow> msg_data sv' m \<noteq> []"
    using assms(1) by (auto simp: msgs_full_def d u split: list.splits if_splits)
qed

lemma out_conn_frame [simp]: "out_conn (skip_msg c) = out_conn c" "out_conn (advance_msg n c) = out_conn c"
  by (simp_all add: out_conn_def skip_msg_def advance_msg_def Let_def split: prod.splits)

lemma advance_msg_frame [simp]:
  "cmark (advance_msg n c) = cmark c" "c_state (advance_msg n c) = c_state c" "c_write_and_go (advance_msg n c) = c_write_and_go c"
  "c_ileft (advance_msg n c) = c_ileft c" "c_sleft (advance_msg n c) = c_sleft c" "c_sbytes (advance_msg n c) = c_sbytes c"
  by (simp_all add: advance_msg_def cmark_def Let_def split: prod.splits)

lemma tick_frame [simp]:
  "pending_out (up_cache (\<lambda>s. s\<lparr>tstats := f s\<rparr>) sv) = pending_out sv" "pending_out (tick m sv) = pending_out sv"
  "pending_out (up_conn (conn_set_state st) sv) = pending_out sv"
  by (rule pending_out_cong; (rule srv_mem_cong)?; simp add: up_cache_def tincr_def conn_set_state_def)+

lemma set_state_out [simp]: "msgs_chained (conn_set_state st c) = msgs_chained c" "cmark (conn_set_state st c) = cmark c"
  "c_ileft (conn_set_state st c) = c_ileft c" "c_sleft (conn_set_state st c) = c_sleft c" "c_sbytes (conn_set_state st c) = c_sbytes c"
  by (simp_all add: conn_set_state_def msgs_chained_def cmark_def)

lemma core_transmit_skip:
  assumes "d1 = up_dconn skip_msg d"
  shows "core_transmit h d = (if c_msg_curr (dv_conn d1) < length (c_msg (dv_conn d1)) then
           (let data = msg_data (dv_srv d1) (c_msg (dv_conn d1) ! c_msg_curr (dv_conn d1));
                a = n_sendmsg (h_net h) (dv_sys d1) data; d = syscall d1
            in case a of
                 Sent res \<Rightarrow>
                   if res > 0 then
                     (TRANSMIT_INCOMPLETE, up_dconn (advance_msg res) (tadd THREAD_data_written res (d\<lparr>dv_out := dv_out d @ take res data\<rparr>)))
                   else (TRANSMIT_HARD_ERROR, transmit_failed d)
               | Send_again \<Rightarrow>
                   (case core_update h EV_write (up_srv (tick THREAD_write_eagain) d) of
                      (st, d) \<Rightarrow>
                        if st \<noteq> MC_OK then (TRANSMIT_HARD_ERROR, goto CONN_CLOSE (up_srv (tick THREAD_write_error) d))
                        else (TRANSMIT_SOFT_ERROR, d))
               | Send_failed \<Rightarrow> (TRANSMIT_HARD_ERROR, transmit_failed d))
         else (TRANSMIT_COMPLETE, d1))"
  by (simp add: core_transmit_def assms skip_msg_def [abs_def] Let_def)

lemma tadd_frame:
  "dv_conn (tadd m n d) = dv_conn d" "msg_data (dv_srv (tadd m n d)) = msg_data (dv_srv d)" "msgs_full (dv_srv (tadd m n d)) = msgs_full (dv_srv d)"
proof -
  have mm: "srv_mem (dv_srv (tadd m n d)) = srv_mem (dv_srv d)" by (rule srv_mem_cong) (simp_all add: tadd_def up_cache_def)
  show c: "dv_conn (tadd m n d) = dv_conn d" by (simp add: tadd_def)
  show "msg_data (dv_srv (tadd m n d)) = msg_data (dv_srv d)" by (rule msg_data_cong [OF mm]) (simp add: c)
  then show "msgs_full (dv_srv (tadd m n d)) = msgs_full (dv_srv d)" by (simp only: msgs_full_def c)
qed

text \<open>A call moves bytes from the front of what is pending to the output and loses none.\<close>

lemma core_transmit_sends:
  assumes so: "send_ok (h_net h)" and ch: "msgs_chained (dv_conn d)" and t: "core_transmit h d = (r, d')"
  shows "dv_out d' @ pending_out (dv_srv d') = dv_out d @ pending_out (dv_srv d)" and "msgs_chained (dv_conn d')"
    and "r = TRANSMIT_COMPLETE \<Longrightarrow> pending_out (dv_srv d') = []"
    and "r = TRANSMIT_INCOMPLETE \<Longrightarrow> length (pending_out (dv_srv d')) < length (pending_out (dv_srv d))"
    and "r \<noteq> TRANSMIT_HARD_ERROR \<Longrightarrow> c_state (dv_conn d') = c_state (dv_conn d)"
    and "r = TRANSMIT_HARD_ERROR \<Longrightarrow> \<not> c_udp (dv_conn d) \<Longrightarrow> c_state (dv_conn d') = CONN_CLOSE"
    and "out_ctx d' = out_ctx d"
proof -
  define d1 where "d1 = up_dconn skip_msg d"
  let ?c = "dv_conn d1"
  let ?m = "c_msg ?c ! c_msg_curr ?c"
  have 1: "pending_out (dv_srv d1) = pending_out (dv_srv d)" "msgs_chained ?c" "out_ctx d1 = out_ctx d" "dv_out d1 = dv_out d"
    "c_state ?c = c_state (dv_conn d)" "c_udp ?c = c_udp (dv_conn d)"
    using ch by (simp_all add: d1_def skip_msg_pending out_ctx_conn)
  let ?G = "(dv_out d' @ pending_out (dv_srv d') = dv_out d @ pending_out (dv_srv d)) \<and> msgs_chained (dv_conn d')
    \<and> (r = TRANSMIT_COMPLETE \<longrightarrow> pending_out (dv_srv d') = [])
    \<and> (r = TRANSMIT_INCOMPLETE \<longrightarrow> length (pending_out (dv_srv d')) < length (pending_out (dv_srv d)))
    \<and> (r \<noteq> TRANSMIT_HARD_ERROR \<longrightarrow> c_state (dv_conn d') = c_state (dv_conn d))
    \<and> (r = TRANSMIT_HARD_ERROR \<longrightarrow> \<not> c_udp (dv_conn d) \<longrightarrow> c_state (dv_conn d') = CONN_CLOSE)
    \<and> out_ctx d' = out_ctx d"
  note t1 = core_transmit_skip [OF d1_def]
  have "?G"
  proof (cases "c_msg_curr ?c < length (c_msg ?c)")
    case False
    then have "r = TRANSMIT_COMPLETE" "d' = d1" "pending_out (dv_srv d1) = []" using t t1 by (auto simp: pending_out_def)
    then show ?thesis using 1 by simp
  next
    case True
    let ?data = "msg_data (dv_srv d1) ?m"
    have failed: ?G if "r = TRANSMIT_HARD_ERROR" "d' = transmit_failed (syscall d1)"
      using that 1 by (simp add: transmit_failed_def)
    show ?thesis
    proof (cases "n_sendmsg (h_net h) (dv_sys d1) ?data")
      case (Sent res)
      show ?thesis
      proof (cases "res > 0")
        case pos: True
        have le: "res \<le> length ?data" using so Sent by (auto simp: send_ok_def)
        let ?d2 = "tadd THREAD_data_written res ((syscall d1)\<lparr>dv_out := dv_out d1 @ take res ?data\<rparr>)"
        have d': "d' = up_dconn (advance_msg res) ?d2" "r = TRANSMIT_INCOMPLETE" using t t1 True Sent pos by (auto simp: Let_def)
        have s2: "dv_conn ?d2 = ?c" "pending_out (dv_srv ?d2) = pending_out (dv_srv d1)" by (simp_all add: tadd_def)
        have m2: "msg_data (dv_srv ?d2) ?m = ?data" by (simp add: tadd_frame(2))
        note A = advance_msg_pending [where sv = "dv_srv ?d2" and res = res, unfolded s2(1), OF 1(2) True, unfolded m2, OF le refl]
        have pre: "take res (pending_out (dv_srv d1)) = take res ?data" "res \<le> length (pending_out (dv_srv d1))"
          using le True by (simp_all add: pending_out_def flip: Cons_nth_drop_Suc)
        have p: "pending_out (dv_srv d') = drop res (pending_out (dv_srv d1))" using A(1) s2(2) by (simp add: d'(1))
        have o: "dv_out d' = dv_out d @ take res (pending_out (dv_srv d1))" using 1(4) pre(1) by (simp add: d'(1) tadd_def)
        have x: "out_ctx d' = out_ctx d1" by (simp add: d'(1) out_ctx_conn)
        show ?thesis using A(2) p o x pre(2) 1 pos d' s2 by (simp add: tadd_def)
      qed (use failed t t1 True Sent in \<open>auto simp: Let_def\<close>)
    next
      case Send_again
      obtain st d2 where u: "core_update h EV_write (up_srv (tick THREAD_write_eagain) (syscall d1)) = (st, d2)" by fastforce
      have f: "dv_srv d2 = tick THREAD_write_eagain (dv_srv d1)" "dv_out d2 = dv_out d1" "dv_in d2 = dv_in d1"
        using core_update_fields [OF u] by simp_all
      have x: "out_ctx d2 = out_ctx d" using core_update_fields [OF u] out_ctx_tick(2) [of THREAD_write_eagain d1] 1(3) by (simp add: out_ctx_def)
      show ?thesis using t t1 True Send_again u 1 f x by (auto simp: Let_def split: if_splits)
    qed (use failed t t1 True in \<open>auto simp: Let_def\<close>)
  qed
  then show "dv_out d' @ pending_out (dv_srv d') = dv_out d @ pending_out (dv_srv d)" "msgs_chained (dv_conn d')"
    "r = TRANSMIT_COMPLETE \<Longrightarrow> pending_out (dv_srv d') = []"
    "r = TRANSMIT_INCOMPLETE \<Longrightarrow> length (pending_out (dv_srv d')) < length (pending_out (dv_srv d))"
    "r \<noteq> TRANSMIT_HARD_ERROR \<Longrightarrow> c_state (dv_conn d') = c_state (dv_conn d)"
    "r = TRANSMIT_HARD_ERROR \<Longrightarrow> \<not> c_udp (dv_conn d) \<Longrightarrow> c_state (dv_conn d') = CONN_CLOSE" "out_ctx d' = out_ctx d"
    by blast+
qed

section \<open>A reply is sent\<close>

text \<open>A peer that takes at least one byte whenever there is one.\<close>

definition peer_takes :: "net \<Rightarrow> bool" where
  "peer_takes nt \<longleftrightarrow> (\<forall>k data. data \<noteq> [] \<longrightarrow> (\<exists>n > 0. n_sendmsg nt k data = Sent n))"

lemma core_transmit_progress:
  assumes so: "send_ok (h_net h)" "peer_takes (h_net h)" and ch: "msgs_chained (dv_conn d)" and fl: "msgs_full (dv_srv d)"
    and t: "core_transmit h d = (r, d')"
  shows "(r = TRANSMIT_COMPLETE \<or> r = TRANSMIT_INCOMPLETE) \<and> msgs_full (dv_srv d')"
proof -
  define d1 where "d1 = up_dconn skip_msg d"
  let ?c = "dv_conn d1"
  let ?m = "c_msg ?c ! c_msg_curr ?c"
  have f1: "msgs_full (dv_srv d1)" "unsent ?c = m # ms \<Longrightarrow> msg_data (dv_srv d1) m \<noteq> []" for m ms
    using skip_msg_full [OF fl, of "dv_srv d1"] by (simp_all add: d1_def)
  have ch1: "msgs_chained ?c" using ch by (simp add: d1_def skip_msg_pending)
  note t1 = core_transmit_skip [OF d1_def]
  show ?thesis
  proof (cases "c_msg_curr ?c < length (c_msg ?c)")
    case False
    then show ?thesis using t t1 f1(1) by auto
  next
    case True
    let ?data = "msg_data (dv_srv d1) ?m"
    have "?data \<noteq> []" using f1(2) [of ?m] Cons_nth_drop_Suc [OF True, symmetric] by (simp add: unsent_def)
    then obtain res where res: "res > 0" "n_sendmsg (h_net h) (dv_sys d1) ?data = Sent res" using so(2) by (auto simp: peer_takes_def)
    then have le: "res \<le> length ?data" using so(1) by (auto simp: send_ok_def)
    let ?d2 = "tadd THREAD_data_written res ((syscall d1)\<lparr>dv_out := dv_out d1 @ take res ?data\<rparr>)"
    have d': "d' = up_dconn (advance_msg res) ?d2" "r = TRANSMIT_INCOMPLETE" using t t1 True res by (auto simp: Let_def)
    note S = tadd_frame [of THREAD_data_written res "(syscall d1)\<lparr>dv_out := dv_out d1 @ take res ?data\<rparr>"]
    note A = advance_msg_pending(3) [where sv = "dv_srv ?d2" and res = res, unfolded S(1), simplified, OF ch1 True, unfolded S(2), simplified, OF le refl]
    show ?thesis using A f1(1) S(3) d' by simp
  qed
qed

section \<open>Runs of the machine\<close>

inductive core_run :: "'d host \<Rightarrow> int \<Rightarrow> 'd drv \<Rightarrow> int \<Rightarrow> 'd drv \<Rightarrow> bool" for h where
  run_refl: "core_run h n d n d"
| run_step: "core_step h n d = Some (False, n1, d1) \<Longrightarrow> core_run h n1 d1 n2 d2 \<Longrightarrow> core_run h n d n2 d2"

lemma core_run_trans: "core_run h n d n1 d1 \<Longrightarrow> core_run h n1 d1 n2 d2 \<Longrightarrow> core_run h n d n2 d2"
  by (induction rule: core_run.induct) (auto intro: run_step)

lemma core_run_one: "core_step h n d = Some (False, n1, d1) \<Longrightarrow> core_run h n d n1 d1"
  by (rule run_step [OF _ run_refl])

text \<open>The machine goes through the states of a run.\<close>

lemma drive_loop_run: "core_run h n d n' d' \<Longrightarrow> drive_loop h n d = drive_loop h n' d'"
  by (induction rule: core_run.induct) (auto simp: drive_loop.simps)

definition sending :: "'d drv \<Rightarrow> bool" where
  "sending d \<longleftrightarrow> \<not> c_udp (dv_conn d) \<and> msgs_chained (dv_conn d) \<and> msgs_full (dv_srv d)
     \<and> (c_state (dv_conn d) = CONN_MWRITE \<or> c_state (dv_conn d) = CONN_WRITE \<and> c_iov (dv_conn d) \<noteq> [])"

lemma up_dconn_id [simp]: "up_dconn (\<lambda>_. dv_conn d) d = d"
  by (simp add: up_srv_def up_conn_def)

lemma sending_step:
  assumes "sending d" and "core_transmit h d = (r, d')"
  shows "core_step h n d = Some (case r of TRANSMIT_COMPLETE \<Rightarrow> (False, n, sent_all h d') | TRANSMIT_SOFT_ERROR \<Rightarrow> (True, n, d')
    | _ \<Rightarrow> (False, n, d'))"
proof -
  have m: "mwrite_step h d = (case r of TRANSMIT_COMPLETE \<Rightarrow> (False, sent_all h d') | TRANSMIT_SOFT_ERROR \<Rightarrow> (True, d') | _ \<Rightarrow> (False, d'))"
    using assms by (simp add: mwrite_step_def Let_def sending_def split: transmit_result.split)
  have "write_step h d = mwrite_step h d" if "c_state (dv_conn d) = CONN_WRITE"
    using assms that by (auto simp: write_step_def sending_def Let_def)
  then show ?thesis using assms m by (auto simp: core_step_def sending_def split: transmit_result.split)
qed

lemma transmit_iov_length: "core_transmit h d = (r, d') \<Longrightarrow> length (c_iov (dv_conn d')) = length (c_iov (dv_conn d))"
  by (auto simp: core_transmit_def Let_def tadd_frame advance_msg_def transmit_failed_def conn_set_state_def dest!: core_update_fields
      split: send_ans.splits if_splits prod.splits)

text \<open>With a peer that takes bytes, however few at a time, the whole reply is sent, in order, and nothing else.\<close>

lemma reply_sent:
  assumes "send_ok (h_net h)" "peer_takes (h_net h)" and "sending d"
  shows "\<exists>d1. core_run h n d n (sent_all h d1) \<and> dv_out d1 = dv_out d @ pending_out (dv_srv d) \<and> out_ctx d1 = out_ctx d
    \<and> c_state (dv_conn d1) = c_state (dv_conn d)"
  using assms(3)
proof (induction "length (pending_out (dv_srv d))" arbitrary: d rule: less_induct)
  case less
  obtain r d' where t: "core_transmit h d = (r, d')" by fastforce
  have s: "msgs_chained (dv_conn d)" "msgs_full (dv_srv d)" using less.prems by (simp_all add: sending_def)
  note T = core_transmit_sends [OF assms(1) s(1) t] and P = core_transmit_progress [OF assms(1,2) s t]
  note S = sending_step [OF less.prems t, of n]
  show ?case
  proof (cases "r = TRANSMIT_COMPLETE")
    case True
    then have "core_run h n d n (sent_all h d')" using S by (intro core_run_one) simp
    then show ?thesis using T True by fastforce
  next
    case False
    then have r: "r = TRANSMIT_INCOMPLETE" using P by blast
    have "core_run h n d n d'" using S r by (intro core_run_one) simp
    moreover have sn: "sending d'"
      using less.prems T P r transmit_iov_length [OF t] out_connD(15) [OF out_ctxD(3) [OF T(7)]]
      by (auto simp: sending_def)
    moreover obtain d1 where "core_run h n d' n (sent_all h d1)" "dv_out d1 = dv_out d' @ pending_out (dv_srv d')" "out_ctx d1 = out_ctx d'"
      "c_state (dv_conn d1) = c_state (dv_conn d')"
      using less.hyps [OF T(4) [OF r] sn] by blast
    ultimately show ?thesis using T(1,5,7) r core_run_trans by (metis transmit_result.distinct(9) transmit_result.simps(12))
  qed
qed

end
