(* ===== verification/McServe.thy ===== *)
theory McServe
  imports McTransmit McUpdate
begin

text \<open>
  Requests over a stream: a request is taken from the bytes that were received, carried out, and its reply is sent to the peer, whatever
  pieces the kernel delivers and accepts.
\<close>

section \<open>Simple replies\<close>

lemma add_iov_fresh:
  assumes "fresh_msgs c" and "len \<le> UDP_MAX_PAYLOAD_SIZE"
  shows "conn_add_iov al p len (c, m) =
    (MC_OK, c\<lparr>c_iov := [\<lparr>iov_base = p, iov_len = len\<rparr>], c_msg_bytes := len, c_msg := [\<lparr>msg_iov = 0, msg_iovlen = 1\<rparr>]\<rparr>, m)"
  using assms
  by (simp add: conn_add_iov_def add_iov_loop.simps add_iov_step_def fresh_msgs_def Let_def conn_ensure_iov_space_def IOV_MAX_def
      UDP_MAX_PAYLOAD_SIZE_def iov_put_def)

lemma rd_mem_of: "n \<le> length bs \<Longrightarrow> rd_bytes (mem_of bs) 0 n = take n bs"
  by (rule nth_equalityI) (simp_all add: mem_of_def)

text \<open>What stays as it is while a simple reply is sent: everything but the lists, the state and the metrics.\<close>

definition served :: "'d drv \<Rightarrow> 'd drv \<Rightarrow> bool" where
  "served d d' \<longleftrightarrow> c_sbytes (dv_conn d') = c_sbytes (dv_conn d) \<and> score (dv_srv d') = score (dv_srv d) \<and> cmark (dv_conn d') = cmark (dv_conn d) \<and> dv_in d' = dv_in d
     \<and> c_noreply (dv_conn d') = c_noreply (dv_conn d) \<and> c_wsize (dv_conn d') = c_wsize (dv_conn d) \<and> c_item (dv_conn d') = c_item (dv_conn d)
     \<and> c_iov_size (dv_conn d') = c_iov_size (dv_conn d) \<and> c_msg_size (dv_conn d') = c_msg_size (dv_conn d)"

lemma simple_reply:
  assumes net: "send_ok (h_net h)" "peer_takes (h_net h)" and f: "fresh_msgs (dv_conn d)" and r: "reply_to go nr str (dv_srv d)"
    and len: "length str + CRLF_LEN \<le> UDP_MAX_PAYLOAD_SIZE" and go: "go \<noteq> CONN_WRITE"
  shows "\<exists>d'. core_run h n d n d' \<and> c_state (dv_conn d') = (if nr then CONN_NEW_CMD else go) \<and> served d d' \<and> dv_out d' = dv_out d @ (if nr then [] else str @ CRLF)"
proof (cases nr)
  case True
  then show ?thesis using r by (intro exI [of _ d]) (auto simp: reply_defs Let_def served_def intro: run_refl)
next
  case False
  let ?c = "dv_conn d"
  let ?c2 = "?c\<lparr>c_iov := [\<lparr>iov_base = c_wcurr ?c, iov_len = c_wbytes ?c\<rparr>], c_msg_bytes := c_wbytes ?c, c_msg := [\<lparr>msg_iov = 0, msg_iovlen = 1\<rparr>]\<rparr>"
  define d2 where "d2 = up_dconn (\<lambda>_. ?c2) d"
  have R: "c_state ?c = CONN_WRITE" "c_wcurr ?c = (O_wbuf, 0)" "c_wbytes ?c = length str + CRLF_LEN" "take (c_wbytes ?c) (c_wbuf ?c) = str @ CRLF"
    "c_write_and_go ?c = go" using r False by (auto simp: reply_defs Let_def)
  have F: "c_iov ?c = []" "c_msg_curr ?c = 0" "\<not> c_udp ?c" using f by (simp_all add: fresh_msgs_def)
  have a: "on_cm (conn_add_iov (x_al (h_world h)) (c_wcurr ?c) (c_wbytes ?c)) (dv_srv d) = (MC_OK, dv_srv d2)"
    using add_iov_fresh [OF f, of "c_wbytes ?c" "x_al (h_world h)" "c_wcurr ?c"] len R(3) by (simp add: on_cm_def d2_def up_conn_def)
  have i2: "d\<lparr>dv_srv := dv_srv d2\<rparr> = d2" "c_iov (dv_conn d2) \<noteq> []" "\<not> c_udp (dv_conn d2)" using F by (simp_all add: d2_def up_srv_def)
  then have w: "write_step h d = mwrite_step h d2" "write_step h d2 = mwrite_step h d2" using a F by (simp_all add: write_step_def Let_def)
  have step: "core_step h n d = core_step h n d2" using w R(1) by (simp add: core_step_def d2_def)
  have wl: "c_wbytes ?c \<le> length (c_wbuf ?c)"
    using arg_cong [OF R(4), of length] R(3) by (simp add: CRLF_def CRLF_LEN_def)
  have p: "pending_out (dv_srv d2) = str @ CRLF"
    using F R wl rd_mem_of [OF wl] by (simp add: pending_out_def d2_def msg_data_def msg_iovs_def iov_bytes_def)
  have s: "sending d2"
    using F R p by (auto simp: sending_def d2_def msgs_chained_def msgs_full_def unsent_def pending_out_def CRLF_def)
  obtain d1 where d1: "core_run h n d2 n (sent_all h d1)" "dv_out d1 = dv_out d2 @ str @ CRLF" "out_ctx d1 = out_ctx d2"
      "c_state (dv_conn d1) = CONN_WRITE"
    using reply_sent [OF net s, of n] p R(1) by (auto simp: d2_def)
  let ?d' = "sent_all h d1"
  note O = out_ctxD [OF d1(3)] and OC = out_connD [OF out_ctxD(3) [OF d1(3)]]
  have st: "c_state (dv_conn ?d') = go" using d1(4) OC(2) R(5) by (simp add: sent_all_def d2_def)
  have "core_run h n d n ?d'"
    using d1(1)
  proof cases
    case run_refl
    then show ?thesis using st R(1) go by (simp add: d2_def)
  next
    case (run_step n1 d3)
    then show ?thesis using step core_run.run_step [of h n d] by simp
  qed
  moreover have "served d ?d'"
    using O OC d1(4) by (simp add: served_def sent_all_def d2_def score, simp add: conn_set_state_def cmark_def)
  moreover have "dv_out ?d' = dv_out d @ str @ CRLF" using d1(2,4) by (simp add: sent_all_def d2_def)
  ultimately show ?thesis using st False by auto
qed

section \<open>A request of one line\<close>

definition rbuf_ok :: "conn \<Rightarrow> bool" where
  "rbuf_ok c \<longleftrightarrow> c_rcurr c + c_rbytes c \<le> length (c_rbuf c) \<and> 0 < c_rsize c"

lemma rbuf_ok_cmark: "cmark c' = cmark c \<Longrightarrow> rbuf_ok c' = rbuf_ok c"
  by (simp add: rbuf_ok_def cmark_def)

text \<open>A stream connection whose next request is \<open>line\<close>, followed by \<open>rest\<close>.\<close>

definition next_line :: "bytes \<Rightarrow> bytes \<Rightarrow> 'd drv \<Rightarrow> bool" where
  "next_line line rest d \<longleftrightarrow> c_state (dv_conn d) = CONN_PARSE \<and> \<not> c_udp (dv_conn d) \<and> ready (dv_srv d) \<and> klog_ok (dv_srv d)
     \<and> unread (dv_conn d) = line @ CRLF @ rest \<and> set line \<inter> {CHR 0x00, CHR 0x0A} = {} \<and> line \<noteq> [] \<and> rbuf_ok (dv_conn d)"

text \<open>After the request: the connection waits for the next one.\<close>

definition line_done :: "bytes \<Rightarrow> 'd drv \<Rightarrow> bool" where
  "line_done rest d \<longleftrightarrow> c_state (dv_conn d) = CONN_NEW_CMD \<and> \<not> c_udp (dv_conn d) \<and> ready (dv_srv d) \<and> klog_ok (dv_srv d)
     \<and> unread (dv_conn d) = rest \<and> rbuf_ok (dv_conn d)"

lemma parse_step:
  fixes d :: "'d drv"
  assumes l: "next_line line rest d"
    and sv0: "sv0 = up_conn (cut_line (line @ [CHR 0x0D])) (dv_srv d)"
    and dis: "asc_dispatch (h_world h) sv0 = Some sv2"
  shows "\<exists>d1. core_step h n d = Some (False, n, d1) \<and> dv_srv d1 = up_conn (skip_line (line @ [CHR 0x0D])) sv2 \<and> dv_out d1 = dv_out d
      \<and> dv_in d1 = dv_in d \<and> unread (dv_conn d1) = rest \<and> rbuf_ok (dv_conn d1)"
    and "c_req (sv_conn sv0) = line" and "ready sv0" and "sv_cache sv0 = sv_cache (dv_srv d)" and "score sv0 = score (dv_srv d)"
    and "\<not> c_udp (sv_conn sv0)"
proof -
  let ?l = "line @ [CHR 0x0D]"
  have u: "unread (dv_conn d) = ?l @ [CHR 0x0A] @ rest" "CHR 0x0A \<notin> set ?l" using l by (auto simp: next_line_def CRLF_def)
  have p: "asc_parse (h_world h) (dv_srv d) = Some (MC_OK, up_conn (skip_line ?l) sv2)"
    using asc_parse_eq [OF u] dis by (simp add: sv0)
  have fr: "rmark sv2 = rmark sv0" by (rule rm.frame_dispatch [OF dis])
  have "length ?l + 1 \<le> c_rbytes (dv_conn d)" using arg_cong [OF u(1), of length] by (simp add: unread_def)
  then have b: "rbuf_ok (skip_line ?l (sv_conn sv2))"
    using fr l by (auto simp: rbuf_ok_def next_line_def skip_line_def cmark_def sv0 cut_line_def)
  from fr have r: "unread (skip_line ?l (sv_conn sv2)) = rest" using unread_after_line [OF u(1)] by (simp add: sv0)
  show "\<exists>d1. core_step h n d = Some (False, n, d1) \<and> dv_srv d1 = up_conn (skip_line ?l) sv2 \<and> dv_out d1 = dv_out d \<and> dv_in d1 = dv_in d
      \<and> unread (dv_conn d1) = rest \<and> rbuf_ok (dv_conn d1)"
    using l p r b by (simp add: core_step_def next_line_def core_parse_def Let_def)
  have "req_text ?l = line" using l by (simp add: req_text_def next_line_def)
  then show "c_req (sv_conn sv0) = line" by (simp add: sv0 cut_line_def)
  show "ready sv0" "\<not> c_udp (sv_conn sv0)" using l by (simp_all add: sv0 next_line_def ready_def wbuf_ok_def cut_line_def)
  show "sv_cache sv0 = sv_cache (dv_srv d)" "score sv0 = score (dv_srv d)" by (simp_all add: sv0 score)
qed

lemma skip_line_fields [simp]:
  "c_state (skip_line l c) = c_state c" "omark (skip_line l c) = omark c" "c_noreply (skip_line l c) = c_noreply c" "c_item (skip_line l c) = c_item c"
  by (simp_all add: skip_line_def omark_def)

lemma skip_line_reply [simp]: "reply_to go nr str (up_conn (skip_line l) sv) = reply_to go nr str sv"
  "reply_is nr str (up_conn (skip_line l) sv) = reply_is nr str sv"
  by (simp_all add: reply_defs Let_def skip_line_def)

text \<open>A request that is answered at once.\<close>

lemma serve_line:
  fixes d :: "'d drv"
  assumes net: "send_ok (h_net h)" "peer_takes (h_net h)" 
    and l: "next_line line rest d" and w: "line_words line = u # ws" "ws \<noteq> [] \<or> length u \<noteq> 3" "command_type u \<notin> {REQ_GET, REQ_GETS, REQ_STATS}"
    and sv0: "sv0 = up_conn (cut_line (line @ [CHR 0x0D])) (dv_srv d)"
    and dis: "asc_dispatch (h_world h) sv0 = Some sv2" and rp: "reply_is nr str sv2" "length str \<le> 30"
    and k: "klog_ok sv2"
  shows "\<exists>d'. core_run h n d n d' \<and> line_done rest d' \<and> core (sv_cache (dv_srv d')) = core (sv_cache sv2)
    \<and> dv_out d' = dv_out d @ (if nr then [] else str @ CRLF) \<and> dv_in d' = dv_in d"
proof -
  let ?l = "line @ [CHR 0x0D]"
  note P = parse_step [OF l sv0 dis]
  obtain d1 where d1: "core_step h n d = Some (False, n, d1)" "dv_srv d1 = up_conn (skip_line ?l) sv2" "dv_out d1 = dv_out d" "dv_in d1 = dv_in d"
      "unread (dv_conn d1) = rest" "rbuf_ok (dv_conn d1)" using P(1) [of n] by blast
  have nz: "CHR 0x00 \<notin> set line" using l by (auto simp: next_line_def)
  note F = dispatch_fresh [OF P(3,6,2) nz w dis]
  have f1: "fresh_msgs (dv_conn d1)" using F(1) fresh_omark [of "dv_conn d1" "sv_conn sv2"] by (simp add: d1(2))
  have r1: "reply_is nr str (dv_srv d1)" using rp(1) by (simp add: d1(2))
  have len: "length str + CRLF_LEN \<le> UDP_MAX_PAYLOAD_SIZE" using rp(2) by (simp add: UDP_MAX_PAYLOAD_SIZE_def CRLF_LEN_def)
  obtain d' where d': "core_run h n d1 n d'" "c_state (dv_conn d') = CONN_NEW_CMD" "served d1 d'" "dv_out d' = dv_out d1 @ (if nr then [] else str @ CRLF)"
    using simple_reply [OF net f1 r1 [unfolded reply_is_def] len, of n] by auto
  have s: "score (dv_srv d') = score sv2" using d'(3) by (simp add: served_def d1(2) score)
  have "unread (dv_conn d') = rest" "rbuf_ok (dv_conn d')" using d'(3) d1(5,6) by (simp_all add: served_def unread_def cmark_def rbuf_ok_def)
  moreover have "ready (dv_srv d')" "\<not> c_udp (dv_conn d')"
    using d'(3) f1 r1 F(3) by (auto simp: served_def ready_def wbuf_ok_def fresh_msgs_def reply_defs Let_def cmark_def d1(2) skip_line_def)
  moreover have "klog_ok (dv_srv d')" using k score_klog_ok [OF s] by simp
  ultimately show ?thesis using d' d1(1,3,4) s run_step [OF d1(1) d'(1)]
    by (intro exI [of _ d']) (simp add: line_done_def score_def served_def)
qed

section \<open>Delete\<close>

lemma delete_served_spec:
  fixes d :: "'d drv"
  assumes net: "send_ok (h_net h)" "peer_takes (h_net h)" 
    and inv: "cache_inv e (sv_cache (dv_srv d))" "room 1 (sv_cache (dv_srv d))"
    and l: "next_line line rest d" and q: "request [''delete'', key] nr line" and len: "length key \<le> KEY_MAX_LEN"
  shows "\<exists>d'. core_run h n d n d' \<and> line_done rest d' \<and> cache_inv e (sv_cache (dv_srv d'))
    \<and> view (sv_cache (dv_srv d')) = (view (sv_cache (dv_srv d)))(key := None) \<and> dv_in d' = dv_in d
    \<and> dv_out d' = dv_out d @ (if nr then [] else (if lookup (sv_cache (dv_srv d)) key = None then ''NOT_FOUND'' else ''DELETED'') @ CRLF)"
proof -
  define sv0 where "sv0 = up_conn (cut_line (line @ [CHR 0x0D])) (dv_srv d)"
  have w: "line_words line = ''delete'' # (key # (if nr then [''noreply''] else []))" using q by (auto simp: request_def)
  have nz: "CHR 0x00 \<notin> set line" using l by (auto simp: next_line_def)
  have c: "command_type ''delete'' \<notin> {REQ_GET, REQ_GETS, REQ_STATS}" by (simp add: command_type_def commands_def)
  have k: "klog_ok sv0" using l by (simp add: sv0_def next_line_def klog_ok_def)
  have 0: "c_req (sv_conn sv0) = line" "ready sv0" "sv_cache sv0 = sv_cache (dv_srv d)"
    using l by (simp_all add: sv0_def cut_line_def req_text_def next_line_def ready_def wbuf_ok_def)
  obtain sv2 where 2: "asc_dispatch (h_world h) sv0 = Some sv2" "cache_inv e (sv_cache sv2)"
      "view (sv_cache sv2) = (view (sv_cache sv0))(key := None)"
      "reply_is nr (if lookup (sv_cache sv0) key = None then ''NOT_FOUND'' else ''DELETED'') sv2" "sv_klog sv2 = sv_klog sv0"
    using delete_request_spec [OF _ _ k 0(2,1) nz q len, of e "h_world h"] inv 0(3) by auto
  have r30: "length (if lookup (sv_cache sv0) key = None then ''NOT_FOUND'' else ''DELETED'') \<le> 30" by simp
  have k2: "klog_ok sv2" using k 2(5) by (simp add: klog_ok_def)
  obtain d' where "core_run h n d n d'" "line_done rest d'" "core (sv_cache (dv_srv d')) = core (sv_cache sv2)" "dv_in d' = dv_in d"
      "dv_out d' = dv_out d @ (if nr then [] else (if lookup (sv_cache sv0) key = None then ''NOT_FOUND'' else ''DELETED'') @ CRLF)"
    using serve_line [OF net l w _ c sv0_def 2(1,4) r30 k2, of n] by auto
  then show ?thesis using 2(2,3) 0(3) core_eqD(1,2) [of "sv_cache (dv_srv d')" "sv_cache sv2"] by (intro exI [of _ d']) simp
qed

section \<open>Receiving a value\<close>

text \<open>A peer that always has more bytes, in pieces of any size.\<close>

definition peer_gives :: "net \<Rightarrow> bool" where
  "peer_gives nt \<longleftrightarrow> (\<forall>k size. size > 0 \<longrightarrow> (\<exists>bs. n_read nt k size = Got bs \<and> bs \<noteq> [] \<and> length bs \<le> size))"

text \<open>
  The fields of a connection that receiving does not touch, and the state in which \<open>w\<close> was received since \<open>d0\<close>: it is in the item, and together with the bytes
  still unread it is what was unread at first followed by what was read since.
\<close>

definition nmark :: "conn \<Rightarrow> _" where
  "nmark c = (omark c, c_noreply c, c_item c, c_state c)"

definition received_so_far :: "'d drv \<Rightarrow> bytes \<Rightarrow> 'd drv \<Rightarrow> bool" where
  "received_so_far d0 w d \<longleftrightarrow>
     (let c0 = dv_conn d0; c = dv_conn d in
      (\<exists>m. sv_cache (dv_srv d) = (item_write (the (c_item c0)) (c_ritem c0) w (sv_cache (dv_srv d0)))\<lparr>tstats := m\<rparr>)
      \<and> (dv_srv d)\<lparr>sv_conn := c0, sv_cache := sv_cache (dv_srv d0)\<rparr> = dv_srv d0 \<and> nmark c = nmark c0
      \<and> c_ritem c = c_ritem c0 + length w \<and> length w + c_rlbytes c = c_rlbytes c0 \<and> dv_out d = dv_out d0
      \<and> c_rcurr c + c_rbytes c \<le> length (c_rbuf c) \<and> c_rsize c = c_rsize c0
      \<and> (\<exists>new. dv_in d = dv_in d0 @ new \<and> w @ unread c = unread c0 @ new))"

lemma item_write_append:
  "item_write it (off + length a) b (item_write it off a s) = item_write it off (a @ b) s"
proof -
  have "wr_bytes (wr_bytes m off a) (off + length a) b = wr_bytes m off (a @ b)" for m
    by (intro ext) (auto simp: wr_bytes_def nth_append)
  then show ?thesis by (simp add: item_write_def upd_item_def)
qed

lemma store_read_fields:
  "sv_cache (dv_srv (store_read bs d)) = item_write (the (c_item (dv_conn d))) (c_ritem (dv_conn d)) bs (sv_cache (dv_srv d))"
  "dv_conn (store_read bs d) = (dv_conn d)\<lparr>c_ritem := c_ritem (dv_conn d) + length bs, c_rlbytes := c_rlbytes (dv_conn d) - length bs\<rparr>"
  "(dv_srv (store_read bs d))\<lparr>sv_conn := c, sv_cache := s\<rparr> = (dv_srv d)\<lparr>sv_conn := c, sv_cache := s\<rparr>"
  "dv_out (store_read bs d) = dv_out d" "dv_in (store_read bs d) = dv_in d"
  by (simp_all add: store_read_def Let_def up_cache_def up_conn_def)

lemma nmark_fields [simp]: "nmark (c\<lparr>c_ritem := p, c_rlbytes := q\<rparr>) = nmark c" "nmark (c\<lparr>c_rcurr := p', c_rbytes := q'\<rparr>) = nmark c"
  by (simp_all add: nmark_def omark_def)

lemma receive_more:
  assumes r: "received_so_far d0 w d" and le: "length bs \<le> c_rlbytes (dv_conn d)" and c': "c' = dv_conn d \<or> c' = (dv_conn d)\<lparr>c_rcurr := p, c_rbytes := q\<rparr>"
    and b: "c_rcurr c' + c_rbytes c' \<le> length (c_rbuf c')"
    and n: "\<exists>new. dv_in d1 = dv_in d0 @ new \<and> (w @ bs) @ unread c' = unread (dv_conn d0) @ new"
    and d1: "dv_srv d1 = up_conn (\<lambda>c. c'\<lparr>c_ritem := c_ritem (dv_conn d) + length bs, c_rlbytes := c_rlbytes (dv_conn d) - length bs\<rparr>)
        (up_cache (\<lambda>s. (item_write (the (c_item (dv_conn d))) (c_ritem (dv_conn d)) bs s)\<lparr>tstats := f s\<rparr>) (dv_srv d))" "dv_out d1 = dv_out d"
  shows "received_so_far d0 (w @ bs) d1"
proof -
  let ?b = "dv_conn d0" and ?c = "dv_conn d" and ?it = "the (c_item (dv_conn d0))"
  obtain m where R: "sv_cache (dv_srv d) = (item_write ?it (c_ritem ?b) w (sv_cache (dv_srv d0)))\<lparr>tstats := m\<rparr>"
      "(dv_srv d)\<lparr>sv_conn := ?b, sv_cache := sv_cache (dv_srv d0)\<rparr> = dv_srv d0" "nmark ?c = nmark ?b" "c_ritem ?c = c_ritem ?b + length w"
      "length w + c_rlbytes ?c = c_rlbytes ?b" "dv_out d = dv_out d0" "c_rsize ?c = c_rsize ?b"
    using r unfolding received_so_far_def Let_def by blast
  have it: "the (c_item ?c) = ?it" using R(3) by (simp add: nmark_def)
  have "item_write ?it (c_ritem ?b + length w) bs (sv_cache (dv_srv d)) = (item_write ?it (c_ritem ?b) (w @ bs) (sv_cache (dv_srv d0)))\<lparr>tstats := m\<rparr>"
    unfolding R(1) item_write_append [symmetric] by (simp add: item_write_def upd_item_def)
  then have "\<exists>m. sv_cache (dv_srv d1) = (item_write ?it (c_ritem ?b) (w @ bs) (sv_cache (dv_srv d0)))\<lparr>tstats := m\<rparr>"
    by (intro exI [of _ "f (sv_cache (dv_srv d))"]) (simp add: d1(1) up_cache_def it R(4))
  moreover have "(dv_srv d1)\<lparr>sv_conn := ?b, sv_cache := sv_cache (dv_srv d0)\<rparr> = dv_srv d0" using R(2) by (simp add: d1(1) up_conn_def up_cache_def)
  moreover have "nmark (dv_conn d1) = nmark ?b" "c_rsize (dv_conn d1) = c_rsize ?b" using R(3,7) c' by (auto simp: d1(1))
  moreover have "unread (dv_conn d1) = unread c'" "c_rcurr (dv_conn d1) + c_rbytes (dv_conn d1) \<le> length (c_rbuf (dv_conn d1))"
    using b by (simp_all add: d1(1) unread_def)
  ultimately show ?thesis using R n le d1(2) by (simp add: received_so_far_def Let_def) (simp add: d1(1))
qed

lemma received_copy:
  assumes r: "received_so_far d0 w d" and k: "k \<le> c_rbytes (dv_conn d)" "k \<le> c_rlbytes (dv_conn d)"
  shows "received_so_far d0 (w @ take k (unread (dv_conn d)))
    (up_dconn (\<lambda>c. c\<lparr>c_rcurr := c_rcurr c + k, c_rbytes := c_rbytes c - k\<rparr>) (store_read (take k (unread (dv_conn d))) d))"
proof -
  let ?c = "dv_conn d"
  let ?c' = "?c\<lparr>c_rcurr := c_rcurr ?c + k, c_rbytes := c_rbytes ?c - k\<rparr>"
  have b: "c_rcurr ?c + c_rbytes ?c \<le> length (c_rbuf ?c)" using r by (simp add: received_so_far_def Let_def)
  have u: "unread ?c' = drop k (unread ?c)" "length (unread ?c) = c_rbytes ?c" using b by (simp_all add: unread_def drop_take add.commute)
  obtain new where "dv_in d = dv_in d0 @ new" "w @ unread ?c = unread (dv_conn d0) @ new" using r by (auto simp: received_so_far_def Let_def)
  then have n: "\<exists>new. dv_in d = dv_in d0 @ new \<and> (w @ take k (unread ?c)) @ unread ?c' = unread (dv_conn d0) @ new" by (simp add: u)
  show ?thesis
    by (rule receive_more [OF r, where c' = ?c' and f = tstats and p = "c_rcurr ?c + k" and q = "c_rbytes ?c - k"])
      (use k b n u in \<open>simp_all add: store_read_def Let_def up_cache_def up_conn_def item_write_def upd_item_def\<close>)
qed

lemma received_read:
  assumes r: "received_so_far d0 w d" and e: "unread (dv_conn d) = []" and le: "length bs \<le> c_rlbytes (dv_conn d)"
  shows "received_so_far d0 (w @ bs) (store_read bs (tadd m k ((syscall d)\<lparr>dv_in := dv_in d @ bs\<rparr>)))"
proof -
  obtain new where "dv_in d = dv_in d0 @ new" "w @ unread (dv_conn d) = unread (dv_conn d0) @ new" using r by (auto simp: received_so_far_def Let_def)
  then have n: "\<exists>new. dv_in d @ bs = dv_in d0 @ new \<and> (w @ bs) @ unread (dv_conn d) = unread (dv_conn d0) @ new" by (simp add: e)
  show ?thesis
    by (rule receive_more [OF r, where c' = "dv_conn d" and f = "\<lambda>s. stats_thread_incr_by m (int k) (tstats s)"])
      (use r n le in \<open>simp_all add: store_read_def tadd_def Let_def up_cache_def up_conn_def item_write_def upd_item_def received_so_far_def\<close>)
qed

lemma nread_step_received:
  assumes g: "peer_gives (h_net h)" and r: "received_so_far d0 w d" and s: "c_state (dv_conn d) = CONN_NREAD" and nz: "c_rlbytes (dv_conn d) > 0"
  shows "\<exists>w' d'. core_step h n d = Some (False, n, d') \<and> received_so_far d0 w' d' \<and> length w < length w'"
proof -
  let ?c = "dv_conn d"
  define k where "k = min (c_rbytes ?c) (c_rlbytes ?c)"
  define d1 where "d1 = (if c_rbytes ?c > 0 then up_dconn (\<lambda>c. c\<lparr>c_rcurr := c_rcurr c + k, c_rbytes := c_rbytes c - k\<rparr>) (store_read (take k (unread ?c)) d) else d)"
  define w1 where "w1 = w @ take k (unread ?c)"
  have b: "c_rcurr ?c + c_rbytes ?c \<le> length (c_rbuf ?c)" using r by (simp add: received_so_far_def Let_def)
  have r1: "received_so_far d0 w1 d1"
    using received_copy [OF r, of k] r by (auto simp: d1_def w1_def k_def)
  have l1: "length w1 = length w + k" "c_rlbytes (dv_conn d1) = c_rlbytes ?c - k" "c_rbytes (dv_conn d1) = c_rbytes ?c - k"
    using b by (simp_all add: w1_def k_def unread_def d1_def store_read_fields(2))
  have st: "core_step h n d = Some (case nread_step h d of (stop, d') \<Rightarrow> (stop, n, d'))" using s by (simp add: core_step_def split: prod.split)
  have step: "nread_step h d = (if c_rbytes ?c > 0 \<and> c_rlbytes (dv_conn d1) = 0 then (False, d1)
            else
              (let a = n_read (h_net h) (dv_sys d1) (c_rlbytes (dv_conn d1)); d = syscall d1 in
               case a of
                 Got bs \<Rightarrow>
                   if bs = [] then (False, goto CONN_CLOSE d)
                   else (False, store_read bs (tadd THREAD_data_read (length bs) (d\<lparr>dv_in := dv_in d @ bs\<rparr>)))
               | Read_again \<Rightarrow> await_read h (Some THREAD_read_error) d
               | Read_failed \<Rightarrow> (False, goto CONN_CLOSE d)))"
    using nz unfolding nread_step_def Let_def d1_def k_def by (simp only: less_numeral_extra if_False neq0_conv [symmetric] simp_thms)
  show ?thesis
  proof (cases "c_rbytes ?c > 0 \<and> c_rlbytes (dv_conn d1) = 0")
    case True
    then show ?thesis using st step r1 l1 nz by (intro exI [of _ w1] exI [of _ d1]) auto
  next
    case False
    then have pos: "c_rlbytes (dv_conn d1) > 0" "c_rbytes (dv_conn d1) = 0" using l1 nz by (auto simp: k_def)
    then obtain bs where bs: "n_read (h_net h) (dv_sys d1) (c_rlbytes (dv_conn d1)) = Got bs" "bs \<noteq> []" "length bs \<le> c_rlbytes (dv_conn d1)"
      using g by (auto simp: peer_gives_def)
    have "unread (dv_conn d1) = []" using pos(2) by (simp add: unread_def)
    note R = received_read [OF r1 this bs(3), of THREAD_data_read "length bs"]
    show ?thesis using st step False bs R l1(1)
      by (intro exI [of _ "w1 @ bs"] exI [of _ "store_read bs (tadd THREAD_data_read (length bs) ((syscall d1)\<lparr>dv_in := dv_in d1 @ bs\<rparr>))"])
        (simp add: Let_def)
  qed
qed

lemma nread_run:
  assumes g: "peer_gives (h_net h)" and r: "received_so_far d0 w d" and s: "c_state (dv_conn d0) = CONN_NREAD"
  shows "\<exists>w' d'. core_run h n d n d' \<and> received_so_far d0 w' d' \<and> length w' = c_rlbytes (dv_conn d0)"
  using r
proof (induction "c_rlbytes (dv_conn d)" arbitrary: w d rule: less_induct)
  case less
  have L: "length w + c_rlbytes (dv_conn d) = c_rlbytes (dv_conn d0)" "c_state (dv_conn d) = CONN_NREAD"
    using less.prems s by (auto simp: received_so_far_def Let_def nmark_def)
  show ?case
  proof (cases "c_rlbytes (dv_conn d) = 0")
    case True
    then show ?thesis using less.prems L run_refl [of h n d] by auto
  next
    case False
    then obtain w1 d1 where 1: "core_step h n d = Some (False, n, d1)" "received_so_far d0 w1 d1" "length w < length w1"
      using nread_step_received [OF g less.prems L(2), of n] by auto
    have "c_rlbytes (dv_conn d1) < c_rlbytes (dv_conn d)" using 1(2,3) L by (simp add: received_so_far_def Let_def)
    from less.hyps [OF this 1(2)] show ?thesis using run_step [OF 1(1)] by blast
  qed
qed

section \<open>Discarding a value\<close>

definition swallowed_so_far :: "'d drv \<Rightarrow> bytes \<Rightarrow> 'd drv \<Rightarrow> bool" where
  "swallowed_so_far d0 w d \<longleftrightarrow>
     (let c0 = dv_conn d0; c = dv_conn d in
      score (dv_srv d) = score (dv_srv d0) \<and> nmark c = nmark c0 \<and> length w + c_sbytes c = c_sbytes c0 \<and> dv_out d = dv_out d0
      \<and> 0 < c_rsize c \<and> c_rcurr c + c_rbytes c \<le> length (c_rbuf c)
      \<and> (\<exists>new. dv_in d = dv_in d0 @ new \<and> w @ unread c = unread c0 @ new))"

lemma score_tadd [score]: "score (dv_srv (tadd m n d)) = score (dv_srv d)"
  by (simp add: tadd_def score)

lemma swallow_step_swallowed:
  assumes g: "peer_gives (h_net h)" and r: "swallowed_so_far d0 w d" and s: "c_state (dv_conn d) = CONN_SWALLOW" and nz: "c_sbytes (dv_conn d) > 0"
  shows "\<exists>w' d'. core_step h n d = Some (False, n, d') \<and> swallowed_so_far d0 w' d' \<and> length w < length w'"
proof -
  let ?c = "dv_conn d"
  have R: "score (dv_srv d) = score (dv_srv d0)" "nmark ?c = nmark (dv_conn d0)" "length w + c_sbytes ?c = c_sbytes (dv_conn d0)" "dv_out d = dv_out d0"
    "0 < c_rsize ?c" "c_rcurr ?c + c_rbytes ?c \<le> length (c_rbuf ?c)" using r by (auto simp: swallowed_so_far_def Let_def)
  obtain new where N: "dv_in d = dv_in d0 @ new" "w @ unread ?c = unread (dv_conn d0) @ new" using r by (auto simp: swallowed_so_far_def Let_def)
  have st: "core_step h n d = Some (case swallow_step h d of (stop, d') \<Rightarrow> (stop, n, d'))" using s by (simp add: core_step_def split: prod.split)
  show ?thesis
  proof (cases "c_rbytes ?c > 0")
    case True
    let ?k = "min (c_rbytes ?c) (c_sbytes ?c)"
    let ?d' = "up_dconn (\<lambda>c. c\<lparr>c_sbytes := c_sbytes c - ?k, c_rcurr := c_rcurr c + ?k, c_rbytes := c_rbytes c - ?k\<rparr>) d"
    have u: "unread (dv_conn ?d') = drop ?k (unread ?c)" "length (unread ?c) = c_rbytes ?c"
      using R(6) by (simp_all add: unread_def drop_take add.commute)
    have "(w @ take ?k (unread ?c)) @ unread (dv_conn ?d') = unread (dv_conn d0) @ new" using N(2) u(1) by simp
    then have "swallowed_so_far d0 (w @ take ?k (unread ?c)) ?d'"
      using R N(1) u(2) by (simp add: swallowed_so_far_def Let_def score) (simp add: nmark_def omark_def)
    moreover have "length w < length (w @ take ?k (unread ?c))" using True nz u(2) by simp
    moreover have "swallow_step h d = (False, ?d')" using True nz by (simp add: swallow_step_def Let_def)
    ultimately show ?thesis using st by fastforce
  next
    case False
    then have e: "unread ?c = []" by (simp add: unread_def)
    obtain bs where bs: "n_read (h_net h) (dv_sys d) (min (c_rsize ?c) (c_sbytes ?c)) = Got bs" "bs \<noteq> []" "length bs \<le> min (c_rsize ?c) (c_sbytes ?c)"
      using g R(5) nz unfolding peer_gives_def by (metis min_less_iff_conj)
    let ?d' = "up_dconn (\<lambda>c. c\<lparr>c_rbuf := overwrite 0 bs (c_rbuf c), c_sbytes := c_sbytes c - length bs\<rparr>)
      (tadd THREAD_data_read (length bs) ((syscall d)\<lparr>dv_in := dv_in d @ bs\<rparr>))"
    have c': "dv_conn ?d' = ?c\<lparr>c_rbuf := overwrite 0 bs (c_rbuf ?c), c_sbytes := c_sbytes ?c - length bs\<rparr>" by (simp add: tadd_frame)
    have "unread (dv_conn ?d') = []" using False unfolding c' by (simp add: unread_def)
    then have "(w @ bs) @ unread (dv_conn ?d') = unread (dv_conn d0) @ new @ bs" using N(2) e by simp
    moreover have "score (dv_srv ?d') = score (dv_srv d0)" using R(1) by (simp add: score)
    moreover have "dv_in ?d' = dv_in d0 @ new @ bs" "dv_out ?d' = dv_out d0" using N(1) R(4) by (simp_all add: tadd_def)
    ultimately have "swallowed_so_far d0 (w @ bs) ?d'"
      using R False bs(3) unfolding swallowed_so_far_def Let_def c' by (simp add: overwrite_def) (simp add: nmark_def omark_def)
    moreover have "swallow_step h d = (False, ?d')" using False nz bs by (simp add: swallow_step_def Let_def)
    ultimately show ?thesis using st bs(2) by fastforce
  qed
qed

lemma swallow_run:
  assumes g: "peer_gives (h_net h)" and r: "swallowed_so_far d0 w d" and s: "c_state (dv_conn d0) = CONN_SWALLOW"
  shows "\<exists>w' d'. core_run h n d n d' \<and> swallowed_so_far d0 w' d' \<and> length w' = c_sbytes (dv_conn d0)"
  using r
proof (induction "c_sbytes (dv_conn d)" arbitrary: w d rule: less_induct)
  case less
  have L: "length w + c_sbytes (dv_conn d) = c_sbytes (dv_conn d0)" "c_state (dv_conn d) = CONN_SWALLOW"
    using less.prems s by (auto simp: swallowed_so_far_def Let_def nmark_def)
  show ?case
  proof (cases "c_sbytes (dv_conn d) = 0")
    case True
    then show ?thesis using less.prems L run_refl [of h n d] by auto
  next
    case False
    then obtain w1 d1 where 1: "core_step h n d = Some (False, n, d1)" "swallowed_so_far d0 w1 d1" "length w < length w1"
      using swallow_step_swallowed [OF g less.prems L(2), of n] by auto
    have "c_sbytes (dv_conn d1) < c_sbytes (dv_conn d)" using 1(2,3) L by (simp add: swallowed_so_far_def Let_def)
    from less.hyps [OF this 1(2)] show ?thesis using run_step [OF 1(1)] by blast
  qed
qed

section \<open>Storage commands\<close>

text \<open>What a client sees of a storage command whose value line was \<open>bs\<close>: the bytes sent and the change of the store.\<close>

definition store_done :: "req_type \<Rightarrow> bool \<Rightarrow> bytes \<Rightarrow> u32 \<Rightarrow> u32 \<Rightarrow> nat \<Rightarrow> bytes \<Rightarrow> u64 \<Rightarrow> cache \<Rightarrow> cache \<Rightarrow> bytes \<Rightarrow> bool" where
  "store_done rt nr key fl ex n bs cas s s' sent \<longleftrightarrow>
     (case (if drop n bs = CRLF then store_outcome rt (lookup s key) cas else (''CLIENT_ERROR'', False)) of
        (str, ok) \<Rightarrow> sent = (if nr then [] else str @ CRLF)
          \<and> view s' = (if drop n bs = CRLF
              then store_view ok key \<lparr>en_value = take n bs, en_dataflags = fl, en_exptime = ex, en_cas = next_cas s\<rparr> (lookup s key) (view s)
              else view s))"

lemma store_outcome_short: "store_outcome rt old cas = (str, ok) \<Longrightarrow> length str \<le> 30"
  by (auto simp: store_outcome_def split: if_splits option.splits)

lemma complete_run:
  fixes d0 d :: "'d drv"
  assumes net: "send_ok (h_net h)" "peer_takes (h_net h)" and rt: "rt \<in> {REQ_SET, REQ_CAS, REQ_ADD, REQ_REPLACE}"
    and w: "awaiting (x_env (h_world h)) key fl ex n it (dv_srv d0)" and k: "klog_ok (dv_srv d0)" and a: "asked rt nr (dv_srv d0)"
    and f: "fresh_msgs (dv_conn d0)" and c: "c_ritem (dv_conn d0) = item_data (sv_cache (dv_srv d0)) it" "c_rlbytes (dv_conn d0) = n + CRLF_LEN"
    and r: "received_so_far d0 bs d" "length bs = n + CRLF_LEN" and s: "c_state (dv_conn d0) = CONN_NREAD" and rs: "rbuf_ok (dv_conn d0)"
  shows "\<exists>d'. core_run h m d m d' \<and> line_done (unread (dv_conn d)) d' \<and> dv_in d' = dv_in d \<and> cache_inv (x_env (h_world h)) (sv_cache (dv_srv d'))
    \<and> (\<exists>sent. dv_out d' = dv_out d @ sent \<and> store_done rt nr key fl ex n bs (item_get_cas (items (sv_cache (dv_srv d0)) it))
         (sv_cache (dv_srv d0)) (sv_cache (dv_srv d')) sent)"
proof -
  let ?s = "sv_cache (dv_srv d0)" and ?e = "x_env (h_world h)" and ?b = "dv_conn d0"
  obtain t where R: "sv_cache (dv_srv d) = (item_write (the (c_item ?b)) (c_ritem ?b) bs ?s)\<lparr>tstats := t\<rparr>"
      "(dv_srv d)\<lparr>sv_conn := ?b, sv_cache := ?s\<rparr> = dv_srv d0" "nmark (dv_conn d) = nmark ?b"
      "length bs + c_rlbytes (dv_conn d) = c_rlbytes ?b" "dv_out d = dv_out d0"
    using r(1) unfolding received_so_far_def Let_def by blast
  have rb: "rbuf_ok (dv_conn d)" using r(1) rs by (simp add: received_so_far_def Let_def rbuf_ok_def)
  define sv where "sv = (dv_srv d)\<lparr>sv_cache := ?s\<lparr>tstats := t\<rparr>\<rparr>"
  have it: "c_item ?b = Some it" using w by (simp add: awaiting_def Let_def)
  have co: "core (sv_cache sv) = core ?s" by (simp add: sv_def)
  note E = core_eqD [OF co]
  have nm: "c_item (dv_conn d) = Some it" "c_req_type (dv_conn d) = rt" "c_noreply (dv_conn d) = nr" "c_wsize (dv_conn d) \<ge> 32" "c_state (dv_conn d) = CONN_NREAD"
    "omark (dv_conn d) = omark ?b"
    using R(3) it a s by (auto simp: nmark_def omark_def asked_def wbuf_ok_def)
  have w1: "awaiting ?e key fl ex n it sv" using w nm(1) E by (simp add: awaiting_def Let_def) (simp add: sv_def)
  have kl: "sv_klog (dv_srv d) = sv_klog (dv_srv d0)" using arg_cong [OF R(2), of sv_klog] by simp
  have a1: "klog_ok sv" "asked rt nr sv" using k kl nm by (simp_all add: sv_def klog_ok_def asked_def wbuf_ok_def)
  have wr: "up_cache (item_write it (item_data (sv_cache sv) it) bs) sv = dv_srv d"
    unfolding E(15) using R(1) it c(1) by (simp add: up_cache_def sv_def item_write_def upd_item_def)
  define sv' where "sv' = asc_complete_nread (h_world h) (dv_srv d)"
  note C = complete_nread_spec [OF rt w1 a1 r(2), unfolded wr, OF sv'_def, unfolded E]
  define d1 where "d1 = up_srv (asc_complete_nread (h_world h)) d"
  have d1: "dv_srv d1 = sv'" "dv_out d1 = dv_out d" "dv_in d1 = dv_in d" by (simp_all add: d1_def sv'_def)
  have step: "core_step h m d = Some (False, m, d1)"
    using nm(5) R(4) c(2) r(2) by (simp add: core_step_def nread_step_def d1_def)
  have f1: "fresh_msgs (sv_conn sv')" "cmark (sv_conn sv') = cmark (dv_conn d)" "c_wsize (sv_conn sv') \<ge> 32" "sv_klog sv' = sv_klog sv"
  proof -
    have o: "omark (sv_conn sv') = omark (dv_conn d)" using om.frame_complete by (simp add: sv'_def)
    show "fresh_msgs (sv_conn sv')" using fresh_omark [OF trans [OF o nm(6)]] f by simp
    show "c_wsize (sv_conn sv') \<ge> 32" using o nm(4) by (simp add: omark_def)
    show "cmark (sv_conn sv') = cmark (dv_conn d)" using rm.frame_complete by (simp add: sv'_def)
    show "sv_klog sv' = sv_klog sv" by (simp add: sv'_def sv_def klog_complete)
  qed
  obtain str ok where o: "(if drop n bs = CRLF then store_outcome rt (lookup ?s key) (item_get_cas (items ?s it)) else (''CLIENT_ERROR'', False)) = (str, ok)"
    by fastforce
  then have rep: "reply_is nr str (dv_srv d1)" "length str \<le> 30" and inv: "cache_inv ?e (sv_cache sv')"
    and v: "view (sv_cache sv') = (if drop n bs = CRLF
        then store_view ok key \<lparr>en_value = take n bs, en_dataflags = fl, en_exptime = ex, en_cas = next_cas ?s\<rparr> (lookup ?s key) (view ?s) else view ?s)"
    using C by (auto simp: d1(1) split: if_splits dest: store_outcome_short)
  have len: "length str + CRLF_LEN \<le> UDP_MAX_PAYLOAD_SIZE" using rep(2) by (simp add: UDP_MAX_PAYLOAD_SIZE_def CRLF_LEN_def)
  obtain d' where d': "core_run h m d1 m d'" "c_state (dv_conn d') = CONN_NEW_CMD" "served d1 d'" "dv_out d' = dv_out d1 @ (if nr then [] else str @ CRLF)"
    using simple_reply [OF net f1(1) [folded d1(1)] rep(1) [unfolded reply_is_def] len, of m] by auto
  have sc: "core (sv_cache (dv_srv d')) = core (sv_cache sv')" "klog_ok (dv_srv d') = klog_ok sv'"
    using d'(3) score_klog_ok [of "dv_srv d'" sv'] by (simp_all add: served_def d1(1) score_def)
  have rb': "rbuf_ok (dv_conn d')" using d'(3) f1(2) rb rbuf_ok_cmark [of "dv_conn d'" "dv_conn d"] by (simp add: served_def d1(1))
  have "line_done (unread (dv_conn d)) d'"
    using d'(2,3) f1 rep(1) a1(1) sc(2) rb'
    by (auto simp: line_done_def served_def d1(1) ready_def wbuf_ok_def fresh_msgs_def reply_defs Let_def cmark_def unread_def klog_ok_def)
  moreover have "store_done rt nr key fl ex n bs (item_get_cas (items ?s it)) ?s (sv_cache (dv_srv d')) (if nr then [] else str @ CRLF)"
    unfolding store_done_def o prod.case core_eqD(2) [OF sc(1)] v by simp
  moreover have "dv_in d' = dv_in d" using d'(3) d1(3) by (simp add: served_def)
  ultimately show ?thesis using inv core_eqD(1) [OF sc(1), of ?e] run_step [OF step d'(1)] d'(4) d1(2) by auto
qed

lemma item_write_nil [simp]: "item_write it off [] s = s"
proof -
  have "wr_bytes m off [] = m" for m by (intro ext) (auto simp: wr_bytes_def)
  then show ?thesis by (simp add: item_write_def upd_item_def)
qed

lemma received_start: "rbuf_ok (dv_conn d) \<Longrightarrow> received_so_far d [] d"
  unfolding received_so_far_def Let_def
  by (intro conjI exI [of _ "tstats (sv_cache (dv_srv d))"] exI [of _ "[]"]) (simp_all add: rbuf_ok_def)

text \<open>The value line is collected, in whatever pieces it arrives, and the command carried out.\<close>

lemma value_run:
  fixes d :: "'d drv"
  assumes net: "send_ok (h_net h)" "peer_takes (h_net h)" "peer_gives (h_net h)" and rt: "rt \<in> {REQ_SET, REQ_CAS, REQ_ADD, REQ_REPLACE}"
    and w: "awaiting (x_env (h_world h)) key fl ex n it (dv_srv d)" and k: "klog_ok (dv_srv d)" and a: "asked rt nr (dv_srv d)"
    and f: "fresh_msgs (dv_conn d)" and c: "c_ritem (dv_conn d) = item_data (sv_cache (dv_srv d)) it" "c_rlbytes (dv_conn d) = n + CRLF_LEN"
    and s: "c_state (dv_conn d) = CONN_NREAD" and b: "rbuf_ok (dv_conn d)"
  shows "\<exists>d' new sent. core_run h m d m d' \<and> dv_in d' = dv_in d @ new \<and> n + CRLF_LEN \<le> length (unread (dv_conn d) @ new)
    \<and> line_done (drop (n + CRLF_LEN) (unread (dv_conn d) @ new)) d' \<and> cache_inv (x_env (h_world h)) (sv_cache (dv_srv d'))
    \<and> dv_out d' = dv_out d @ sent \<and> store_done rt nr key fl ex n (take (n + CRLF_LEN) (unread (dv_conn d) @ new))
         (item_get_cas (items (sv_cache (dv_srv d)) it)) (sv_cache (dv_srv d)) (sv_cache (dv_srv d')) sent"
proof -
  obtain bs d1 where 1: "core_run h m d m d1" "received_so_far d bs d1" "length bs = n + CRLF_LEN"
    using nread_run [OF net(3) received_start [OF b] s, of m] c(2) by auto
  obtain new where N: "dv_in d1 = dv_in d @ new" "bs @ unread (dv_conn d1) = unread (dv_conn d) @ new" "dv_out d1 = dv_out d"
    using 1(2) by (auto simp: received_so_far_def Let_def)
  have T: "take (n + CRLF_LEN) (unread (dv_conn d) @ new) = bs" "drop (n + CRLF_LEN) (unread (dv_conn d) @ new) = unread (dv_conn d1)"
    "n + CRLF_LEN \<le> length (unread (dv_conn d) @ new)"
    unfolding N(2) [symmetric] 1(3) [symmetric] by simp_all
  obtain d' sent where "core_run h m d1 m d'" "line_done (unread (dv_conn d1)) d'" "dv_in d' = dv_in d1"
      "cache_inv (x_env (h_world h)) (sv_cache (dv_srv d'))" "dv_out d' = dv_out d1 @ sent"
      "store_done rt nr key fl ex n bs (item_get_cas (items (sv_cache (dv_srv d)) it)) (sv_cache (dv_srv d)) (sv_cache (dv_srv d')) sent"
    using complete_run [OF net(1,2) rt w k a f c 1(2,3) s b, of m] by blast
  then show ?thesis using core_run_trans [OF 1(1)] N T by (intro exI [of _ d'] exI [of _ new] exI [of _ sent]) simp
qed

text \<open>A value for which there was no memory is discarded after the error was sent.\<close>

lemma swallow_reply_run:
  fixes d :: "'d drv"
  assumes net: "send_ok (h_net h)" "peer_takes (h_net h)" "peer_gives (h_net h)" and f: "fresh_msgs (dv_conn d)"
    and r: "reply_to CONN_SWALLOW False ''SERVER_ERROR'' (dv_srv d)" and k: "klog_ok (dv_srv d)" and b: "rbuf_ok (dv_conn d)"
    and ws: "c_wsize (dv_conn d) \<ge> 32"
  shows "\<exists>d' new. core_run h m d m d' \<and> dv_in d' = dv_in d @ new \<and> c_sbytes (dv_conn d) \<le> length (unread (dv_conn d) @ new)
    \<and> line_done (drop (c_sbytes (dv_conn d)) (unread (dv_conn d) @ new)) d' \<and> core (sv_cache (dv_srv d')) = core (sv_cache (dv_srv d))
    \<and> dv_out d' = dv_out d @ ''SERVER_ERROR'' @ CRLF"
proof -
  have len: "length ''SERVER_ERROR'' + CRLF_LEN \<le> UDP_MAX_PAYLOAD_SIZE" by (simp add: UDP_MAX_PAYLOAD_SIZE_def CRLF_LEN_def)
  obtain d1 where 1: "core_run h m d m d1" "c_state (dv_conn d1) = CONN_SWALLOW" "served d d1" "dv_out d1 = dv_out d @ ''SERVER_ERROR'' @ CRLF"
    using simple_reply [OF net(1,2) f r len, of m] by auto
  have u1: "unread (dv_conn d1) = unread (dv_conn d)" "rbuf_ok (dv_conn d1)" "c_sbytes (dv_conn d1) = c_sbytes (dv_conn d)"
    using 1(3) b by (simp_all add: served_def unread_def cmark_def rbuf_ok_def)
  have "swallowed_so_far d1 [] d1" using u1(2) by (simp add: swallowed_so_far_def Let_def rbuf_ok_def)
  then obtain w d2 where 2: "core_run h m d1 m d2" "swallowed_so_far d1 w d2" "length w = c_sbytes (dv_conn d1)"
    using swallow_run [OF net(3) _ 1(2), of _ d1 m] by blast
  have S: "score (dv_srv d2) = score (dv_srv d1)" "nmark (dv_conn d2) = nmark (dv_conn d1)" "c_sbytes (dv_conn d2) = 0" "dv_out d2 = dv_out d1"
    "rbuf_ok (dv_conn d2)" using 2(2,3) by (auto simp: swallowed_so_far_def Let_def rbuf_ok_def)
  obtain new where N: "dv_in d2 = dv_in d1 @ new" "w @ unread (dv_conn d2) = unread (dv_conn d1) @ new"
    using 2(2) by (auto simp: swallowed_so_far_def Let_def)
  define d' where "d' = goto CONN_NEW_CMD d2"
  have "core_step h m d2 = Some (False, m, d')"
    using S(2,3) 1(2) by (simp add: core_step_def nmark_def swallow_step_def d'_def)
  then have run: "core_run h m d m d'" using core_run_trans [OF 1(1) core_run_trans [OF 2(1) core_run_one]] by blast
  have T: "drop (c_sbytes (dv_conn d)) (unread (dv_conn d) @ new) = unread (dv_conn d2)" "c_sbytes (dv_conn d) \<le> length (unread (dv_conn d) @ new)"
    unfolding u1(1,3) [symmetric] N(2) [symmetric] 2(3) [symmetric] by simp_all
  have f2: "ready (dv_srv d2)" "\<not> c_udp (dv_conn d2)"
    using S(2) 1(3) f r ws
    by (auto simp: nmark_def omark_def served_def ready_def wbuf_ok_def fresh_msgs_def reply_to_def Let_def cmark_def)
  have "score (dv_srv d') = score (dv_srv d)" using S(1) 1(3) by (simp add: d'_def score served_def)
  then have "core (sv_cache (dv_srv d')) = core (sv_cache (dv_srv d))" "klog_ok (dv_srv d')" using k score_klog_ok by (auto simp: score_def)
  moreover have "ready (dv_srv d')" "\<not> c_udp (dv_conn d')" "rbuf_ok (dv_conn d')" "unread (dv_conn d') = unread (dv_conn d2)" "c_state (dv_conn d') = CONN_NEW_CMD"
    using f2 S(5) by (simp_all add: d'_def ready_def wbuf_ok_def rbuf_ok_def unread_def set_state_eq)
  ultimately show ?thesis using run T N(1) S(4) 1(3,4) by (intro exI [of _ d'] exI [of _ new]) (simp add: line_done_def d'_def served_def)
qed

text \<open>
  The outcome of a storage command of which \<open>inp\<close> are the bytes after its line: it is carried out on the value line, or there was no memory. In
  the second case the key is gone; the value is discarded, unless no reply was asked for.
\<close>

definition update_done :: "env \<Rightarrow> req_type \<Rightarrow> bool \<Rightarrow> bytes \<Rightarrow> u32 \<Rightarrow> u32 \<Rightarrow> nat \<Rightarrow> cache \<Rightarrow> bytes \<Rightarrow> bytes \<Rightarrow> 'd drv \<Rightarrow> bool" where
  "update_done e rt nr key fl ex n s inp sent d \<longleftrightarrow> cache_inv e (sv_cache (dv_srv d)) \<and>
     ((\<exists>s1 cas. view s1 \<subseteq>\<^sub>m view s \<and> n + CRLF_LEN \<le> length inp \<and> line_done (drop (n + CRLF_LEN) inp) d
         \<and> store_done rt nr key fl ex n (take (n + CRLF_LEN) inp) cas s1 (sv_cache (dv_srv d)) sent)
      \<or> view (sv_cache (dv_srv d)) \<subseteq>\<^sub>m view s \<and> view (sv_cache (dv_srv d)) key = None
         \<and> (if nr then line_done inp d \<and> sent = []
            else n + CRLF_LEN \<le> length inp \<and> line_done (drop (n + CRLF_LEN) inp) d \<and> sent = ''SERVER_ERROR'' @ CRLF))"

lemma awaiting_conn: "c_item (f (sv_conn sv)) = c_item (sv_conn sv) \<Longrightarrow> awaiting e key fl ex n it (up_conn f sv) = awaiting e key fl ex n it sv"
  by (simp add: awaiting_def Let_def)

text \<open>The state after the line of a storage command: the connection waits for the value, or there was no memory.\<close>

definition update_begun :: "env \<Rightarrow> req_type \<Rightarrow> bool \<Rightarrow> bytes \<Rightarrow> u32 \<Rightarrow> u32 \<Rightarrow> nat \<Rightarrow> cache \<Rightarrow> 'd srv \<Rightarrow> bool" where
  "update_begun e rt nr key fl ex n s sv \<longleftrightarrow>
     (\<exists>it. awaiting e key fl ex n it sv \<and> c_state (sv_conn sv) = CONN_NREAD \<and> c_rlbytes (sv_conn sv) = n + CRLF_LEN
        \<and> c_ritem (sv_conn sv) = item_data (sv_cache sv) it \<and> asked rt nr sv \<and> view (sv_cache sv) \<subseteq>\<^sub>m view s)
     \<or> cache_inv e (sv_cache sv) \<and> view (sv_cache sv) \<subseteq>\<^sub>m view s \<and> view (sv_cache sv) key = None
        \<and> reply_to CONN_SWALLOW nr ''SERVER_ERROR'' sv \<and> c_sbytes (sv_conn sv) = n + CRLF_LEN"

lemma update_begun_skip [simp]: "update_begun e rt nr key fl ex n s (up_conn (skip_line l) sv) = update_begun e rt nr key fl ex n s sv"
  by (simp add: update_begun_def awaiting_conn asked_def wbuf_ok_def) (simp add: skip_line_def)

lemma update_after_line:
  fixes d :: "'d drv"
  assumes net: "send_ok (h_net h)" "peer_takes (h_net h)" "peer_gives (h_net h)" and f: "fresh_msgs (dv_conn d)" "c_wsize (dv_conn d) \<ge> 32"
    and k: "klog_ok (dv_srv d)" and b: "rbuf_ok (dv_conn d)" "unread (dv_conn d) = rest"
    and rt: "rt \<in> {REQ_SET, REQ_CAS, REQ_ADD, REQ_REPLACE}" and e: "e = x_env (h_world h)" and U: "update_begun e rt nr key fl ex n s (dv_srv d)"
  shows "\<exists>d' new sent. core_run h m d m d' \<and> dv_in d' = dv_in d @ new \<and> dv_out d' = dv_out d @ sent
    \<and> update_done e rt nr key fl ex n s (rest @ new) sent d'"
proof -
  consider (await) it where "awaiting e key fl ex n it (dv_srv d)" "c_state (dv_conn d) = CONN_NREAD" "c_rlbytes (dv_conn d) = n + CRLF_LEN"
      "c_ritem (dv_conn d) = item_data (sv_cache (dv_srv d)) it" "asked rt nr (dv_srv d)" "view (sv_cache (dv_srv d)) \<subseteq>\<^sub>m view s"
  | (nomem) "cache_inv e (sv_cache (dv_srv d))" "view (sv_cache (dv_srv d)) \<subseteq>\<^sub>m view s" "view (sv_cache (dv_srv d)) key = None"
      "reply_to CONN_SWALLOW nr ''SERVER_ERROR'' (dv_srv d)" "c_sbytes (dv_conn d) = n + CRLF_LEN"
    using U unfolding update_begun_def Let_def by (elim disjE exE conjE) (erule that; assumption)+
  then show ?thesis
  proof cases
    case (await it)
    obtain d' new sent where "core_run h m d m d'" "dv_in d' = dv_in d @ new" "n + CRLF_LEN \<le> length (rest @ new)"
        "line_done (drop (n + CRLF_LEN) (rest @ new)) d'" "cache_inv e (sv_cache (dv_srv d'))" "dv_out d' = dv_out d @ sent"
        "store_done rt nr key fl ex n (take (n + CRLF_LEN) (rest @ new)) (item_get_cas (items (sv_cache (dv_srv d)) it)) (sv_cache (dv_srv d))
           (sv_cache (dv_srv d')) sent"
      using value_run [OF net rt await(1) [unfolded e] k await(5) f(1) await(4,3,2) b(1), of m] unfolding b(2) e by blast
    then show ?thesis using await(6) unfolding update_done_def by metis
  next
    case nomem
    show ?thesis
    proof (cases nr)
      case True
      have "line_done rest d"
        using nomem(4) True k b f by (auto simp: line_done_def reply_to_def Let_def fresh_msgs_def ready_def wbuf_ok_def)
      then show ?thesis using nomem True run_refl [of h m d] by (intro exI [of _ d] exI [of _ "[]"]) (simp add: update_done_def)
    next
      case False
      then have r: "reply_to CONN_SWALLOW False ''SERVER_ERROR'' (dv_srv d)" using nomem(4) by simp
      obtain d' new where D: "core_run h m d m d'" "dv_in d' = dv_in d @ new" "n + CRLF_LEN \<le> length (rest @ new)"
          "line_done (drop (n + CRLF_LEN) (rest @ new)) d'" "core (sv_cache (dv_srv d')) = core (sv_cache (dv_srv d))"
          "dv_out d' = dv_out d @ ''SERVER_ERROR'' @ CRLF"
        using swallow_reply_run [OF net f(1) r k b(1) f(2), of m] unfolding b(2) nomem(5) by blast
      then show ?thesis using nomem False core_eqD(1) [OF D(5), of e] core_eqD(2) [OF D(5)]
        by (intro exI [of _ d'] exI [of _ new] exI [of _ "''SERVER_ERROR'' @ CRLF"]) (simp add: update_done_def)
    qed
  qed
qed

lemma update_served_spec:
  fixes d :: "'d drv"
  assumes net: "send_ok (h_net h)" "peer_takes (h_net h)" "peer_gives (h_net h)" 
    and e: "e = x_env (h_world h)" and s: "s = sv_cache (dv_srv d)"
    and inv: "cache_inv e s" "room 2 s" "env_ok e s" and l: "next_line line rest d" and u: "u \<in> {''set'', ''add'', ''replace''}"
    and q: "request [u, key, print_dec f, print_dec t, print_dec n] nr line" and len: "length key \<le> KEY_MAX_LEN"
    and num: "f < 2 ^ 32" "t < 2 ^ 31" "n < 2 ^ 32" and cid: "item_slabid s (length key) (of_nat n) \<noteq> SLABCLASS_INVALID_ID"
  shows "\<exists>d' new sent. core_run h m d m d' \<and> dv_in d' = dv_in d @ new \<and> dv_out d' = dv_out d @ sent
    \<and> update_done e (command_type u) nr key (if set_hotkey_enable (sv_hot (dv_srv d)) then 0 else of_nat f)
         (time_reltime (int t) (sv_clock (dv_srv d))) n s (rest @ new) sent d'"
proof -
  let ?l = "line @ [CHR 0x0D]" and ?rt = "command_type u"
  let ?fl = "if set_hotkey_enable (sv_hot (dv_srv d)) then 0 else of_nat f" and ?ex = "time_reltime (int t) (sv_clock (dv_srv d))"
  define sv0 where "sv0 = up_conn (cut_line ?l) (dv_srv d)"
  have w: "line_words line = u # ([key, print_dec f, print_dec t, print_dec n] @ (if nr then [''noreply''] else []))" using q by (auto simp: request_def)
  have nz: "CHR 0x00 \<notin> set line" using l by (auto simp: next_line_def)
  have c: "?rt \<in> {REQ_SET, REQ_ADD, REQ_REPLACE}" using u by (elim insertE emptyE; hypsubst) (simp_all add: command_type_def commands_def)
  then have cu: "?rt \<notin> {REQ_GET, REQ_GETS, REQ_STATS}" and rt: "?rt \<in> {REQ_SET, REQ_CAS, REQ_ADD, REQ_REPLACE}" by auto
  have 0: "c_req (sv_conn sv0) = line" "ready sv0" "sv_cache sv0 = s" "sv_hot sv0 = sv_hot (dv_srv d)" "sv_clock sv0 = sv_clock (dv_srv d)"
      "klog_ok sv0" "\<not> c_udp (sv_conn sv0)"
    using l s by (simp_all add: sv0_def cut_line_def req_text_def next_line_def ready_def wbuf_ok_def up_conn_def sv_clock_def klog_ok_def)
  obtain sv2 where 2: "asc_dispatch (h_world h) sv0 = Some sv2"
      "update_begun e ?rt nr key ?fl ?ex n s sv2" "sv_klog sv2 = sv_klog sv0"
    using update_request_spec [of "h_world h" sv0 line u key f t n nr, unfolded 0(3-5), OF inv [unfolded e] 0(2,1) nz u q len num cid]
    unfolding update_begun_def e by blast
  obtain d1 where d1: "core_step h m d = Some (False, m, d1)" "dv_srv d1 = up_conn (skip_line ?l) sv2" "dv_out d1 = dv_out d" "dv_in d1 = dv_in d"
      "unread (dv_conn d1) = rest" "rbuf_ok (dv_conn d1)" using parse_step(1) [OF l sv0_def 2(1), of m] by blast
  note F = dispatch_fresh [OF 0(2,7,1) nz w _ cu 2(1), simplified]
  have f1: "fresh_msgs (dv_conn d1)" "c_wsize (dv_conn d1) \<ge> 32" "klog_ok (dv_srv d1)"
    using F(1,3) fresh_omark [of "dv_conn d1" "sv_conn sv2"] 2(3) 0(6) by (simp_all add: d1(2) klog_ok_def) (simp add: skip_line_def)
  have "update_begun e ?rt nr key ?fl ?ex n s (dv_srv d1)" using 2(2) by (simp add: d1(2))
  from update_after_line [OF net f1 d1(6,5) rt e this, of m] show ?thesis using run_step [OF d1(1)] unfolding d1(3,4) by blast
qed

end
