(* ===== verification/McQueue.thy ===== *)
theory McQueue
  imports McPrelude
begin

text \<open>
  The queue macros of \<^verbatim>\<open>mc_queue.h\<close> on the links themselves: singly linked lists (\<^verbatim>\<open>SLIST\<close>), singly linked tail queues
  (\<^verbatim>\<open>STAILQ\<close>), doubly linked lists (\<^verbatim>\<open>LIST\<close>) and tail queues (\<^verbatim>\<open>TAILQ\<close>). The other theories treat a queue as the list of the elements it links;
  here it is shown that the macros implement the operations on that list, also when many queues of one kind exist side by side.

  The tracing and checking variants of the macros are not compiled.
\<close>

section \<open>Links\<close>

text \<open>
  A link is the field that points to an element: the first field of a head or the next field of an element. \<open>hd_last\<close> is \<^verbatim>\<open>stqh_last\<close> or \<^verbatim>\<open>tqh_last\<close> and
  \<open>el_prev\<close> is \<^verbatim>\<open>le_prev\<close> or \<^verbatim>\<open>tqe_prev\<close>, the address of a link; a kind of queue without these fields does not use them. A null pointer is
  \<open>None\<close>.
\<close>

datatype link = Head nat | Next addr

record links =
  hd_first :: "nat \<Rightarrow> addr option"
  hd_last :: "nat \<Rightarrow> link"
  el_next :: "addr \<Rightarrow> addr option"
  el_prev :: "addr \<Rightarrow> link"

fun get_link :: "links \<Rightarrow> link \<Rightarrow> addr option" where
  "get_link s (Head h) = hd_first s h"
| "get_link s (Next e) = el_next s e"

fun set_link :: "link \<Rightarrow> addr option \<Rightarrow> links \<Rightarrow> links" where
  "set_link (Head h) p s = s\<lparr>hd_first := (hd_first s)(h := p)\<rparr>"
| "set_link (Next e) p s = s\<lparr>el_next := (el_next s)(e := p)\<rparr>"

definition set_last :: "nat \<Rightarrow> link \<Rightarrow> links \<Rightarrow> links" where
  "set_last h l s = s\<lparr>hd_last := (hd_last s)(h := l)\<rparr>"

definition set_prev :: "addr \<Rightarrow> link \<Rightarrow> links \<Rightarrow> links" where
  "set_prev e l s = s\<lparr>el_prev := (el_prev s)(e := l)\<rparr>"

text \<open>A head and an entry of a tail queue both hold a link followed by the address of a link. This is the second field behind a link.\<close>

fun back_of :: "links \<Rightarrow> link \<Rightarrow> link" where
  "back_of s (Head h) = hd_last s h"
| "back_of s (Next e) = el_prev s e"

section \<open>The macros\<close>

subsection \<open>Singly linked lists\<close>

definition SLIST_INIT :: "nat \<Rightarrow> links \<Rightarrow> links" where
  "SLIST_INIT h = set_link (Head h) None"

definition SLIST_INSERT_AFTER :: "addr \<Rightarrow> addr \<Rightarrow> links \<Rightarrow> links" where
  "SLIST_INSERT_AFTER slistelm elm s = set_link (Next slistelm) (Some elm) (set_link (Next elm) (el_next s slistelm) s)"

definition SLIST_INSERT_HEAD :: "nat \<Rightarrow> addr \<Rightarrow> links \<Rightarrow> links" where
  "SLIST_INSERT_HEAD h elm s = set_link (Head h) (Some elm) (set_link (Next elm) (hd_first s h) s)"

definition SLIST_REMOVE_AFTER :: "addr \<Rightarrow> links \<Rightarrow> links" where
  "SLIST_REMOVE_AFTER elm s = set_link (Next elm) (el_next s (the (el_next s elm))) s"

definition SLIST_REMOVE_HEAD :: "nat \<Rightarrow> links \<Rightarrow> links" where
  "SLIST_REMOVE_HEAD h s = set_link (Head h) (el_next s (the (hd_first s h))) s"

text \<open>The search for the element before \<open>elm\<close>, which does not end when there is none.\<close>

partial_function (option) before :: "links \<Rightarrow> addr \<Rightarrow> addr \<Rightarrow> addr option" where
  "before s elm curelm = (if el_next s curelm \<noteq> Some elm then before s elm (the (el_next s curelm)) else Some curelm)"

definition SLIST_REMOVE :: "nat \<Rightarrow> addr \<Rightarrow> links \<Rightarrow> links option" where
  "SLIST_REMOVE h elm s =
     (if hd_first s h = Some elm then Some (SLIST_REMOVE_HEAD h s)
      else map_option (\<lambda>curelm. SLIST_REMOVE_AFTER curelm s) (before s elm (the (hd_first s h))))"

text \<open>The elements that the loops of \<^verbatim>\<open>SLIST_FOREACH\<close> and its kin visit from \<open>p\<close> on, at most \<open>n\<close>.\<close>

fun foreach :: "nat \<Rightarrow> links \<Rightarrow> addr option \<Rightarrow> addr list" where
  "foreach 0 s p = []"
| "foreach (Suc n) s p = (case p of None \<Rightarrow> [] | Some e \<Rightarrow> e # foreach n s (el_next s e))"

subsection \<open>Singly linked tail queues\<close>

definition STAILQ_INIT :: "nat \<Rightarrow> links \<Rightarrow> links" where
  "STAILQ_INIT h s = set_last h (Head h) (set_link (Head h) None s)"

definition STAILQ_CONCAT :: "nat \<Rightarrow> nat \<Rightarrow> links \<Rightarrow> links" where
  "STAILQ_CONCAT h1 h2 s =
     (if hd_first s h2 \<noteq> None
      then STAILQ_INIT h2 (set_last h1 (hd_last s h2) (set_link (hd_last s h1) (hd_first s h2) s)) else s)"

definition STAILQ_INSERT_AFTER :: "nat \<Rightarrow> addr \<Rightarrow> addr \<Rightarrow> links \<Rightarrow> links" where
  "STAILQ_INSERT_AFTER h tqelm elm s =
     (let p = el_next s tqelm; s = set_link (Next elm) p s; s = (if p = None then set_last h (Next elm) s else s)
      in set_link (Next tqelm) (Some elm) s)"

definition STAILQ_INSERT_HEAD :: "nat \<Rightarrow> addr \<Rightarrow> links \<Rightarrow> links" where
  "STAILQ_INSERT_HEAD h elm s =
     (let p = hd_first s h; s = set_link (Next elm) p s; s = (if p = None then set_last h (Next elm) s else s)
      in set_link (Head h) (Some elm) s)"

definition STAILQ_INSERT_TAIL :: "nat \<Rightarrow> addr \<Rightarrow> links \<Rightarrow> links" where
  "STAILQ_INSERT_TAIL h elm s = set_last h (Next elm) (set_link (hd_last s h) (Some elm) (set_link (Next elm) None s))"

definition STAILQ_REMOVE_HEAD :: "nat \<Rightarrow> links \<Rightarrow> links" where
  "STAILQ_REMOVE_HEAD h s =
     (let p = el_next s (the (hd_first s h)); s = set_link (Head h) p s in if p = None then set_last h (Head h) s else s)"

definition STAILQ_REMOVE_AFTER :: "nat \<Rightarrow> addr \<Rightarrow> links \<Rightarrow> links" where
  "STAILQ_REMOVE_AFTER h elm s =
     (let p = el_next s (the (el_next s elm)); s = set_link (Next elm) p s in if p = None then set_last h (Next elm) s else s)"

definition STAILQ_REMOVE :: "nat \<Rightarrow> addr \<Rightarrow> links \<Rightarrow> links option" where
  "STAILQ_REMOVE h elm s =
     (if hd_first s h = Some elm then Some (STAILQ_REMOVE_HEAD h s)
      else map_option (\<lambda>curelm. STAILQ_REMOVE_AFTER h curelm s) (before s elm (the (hd_first s h))))"

subsection \<open>Doubly linked lists\<close>

definition LIST_INIT :: "nat \<Rightarrow> links \<Rightarrow> links" where
  "LIST_INIT h = set_link (Head h) None"

definition LIST_INSERT_AFTER :: "addr \<Rightarrow> addr \<Rightarrow> links \<Rightarrow> links" where
  "LIST_INSERT_AFTER listelm elm s =
     (let p = el_next s listelm; s = set_link (Next elm) p s; s = (case p of None \<Rightarrow> s | Some e \<Rightarrow> set_prev e (Next elm) s)
      in set_prev elm (Next listelm) (set_link (Next listelm) (Some elm) s))"

definition LIST_INSERT_BEFORE :: "addr \<Rightarrow> addr \<Rightarrow> links \<Rightarrow> links" where
  "LIST_INSERT_BEFORE listelm elm s =
     (let l = el_prev s listelm; s = set_link (Next elm) (Some listelm) (set_prev elm l s)
      in set_prev listelm (Next elm) (set_link l (Some elm) s))"

definition LIST_INSERT_HEAD :: "nat \<Rightarrow> addr \<Rightarrow> links \<Rightarrow> links" where
  "LIST_INSERT_HEAD h elm s =
     (let p = hd_first s h; s = set_link (Next elm) p s; s = (case p of None \<Rightarrow> s | Some e \<Rightarrow> set_prev e (Next elm) s)
      in set_prev elm (Head h) (set_link (Head h) (Some elm) s))"

definition LIST_REMOVE :: "addr \<Rightarrow> links \<Rightarrow> links" where
  "LIST_REMOVE elm s =
     (let p = el_next s elm; l = el_prev s elm; s = (case p of None \<Rightarrow> s | Some e \<Rightarrow> set_prev e l s) in set_link l p s)"

subsection \<open>Tail queues\<close>

definition TAILQ_INIT :: "nat \<Rightarrow> links \<Rightarrow> links" where
  "TAILQ_INIT h s = set_last h (Head h) (set_link (Head h) None s)"

definition TAILQ_CONCAT :: "nat \<Rightarrow> nat \<Rightarrow> links \<Rightarrow> links" where
  "TAILQ_CONCAT h1 h2 s =
     (if hd_first s h2 \<noteq> None
      then TAILQ_INIT h2 (set_last h1 (hd_last s h2) (set_prev (the (hd_first s h2)) (hd_last s h1)
             (set_link (hd_last s h1) (hd_first s h2) s))) else s)"

definition TAILQ_INSERT_AFTER :: "nat \<Rightarrow> addr \<Rightarrow> addr \<Rightarrow> links \<Rightarrow> links" where
  "TAILQ_INSERT_AFTER h listelm elm s =
     (let p = el_next s listelm; s = set_link (Next elm) p s;
          s = (case p of None \<Rightarrow> set_last h (Next elm) s | Some e \<Rightarrow> set_prev e (Next elm) s)
      in set_prev elm (Next listelm) (set_link (Next listelm) (Some elm) s))"

definition TAILQ_INSERT_BEFORE :: "addr \<Rightarrow> addr \<Rightarrow> links \<Rightarrow> links" where
  "TAILQ_INSERT_BEFORE = LIST_INSERT_BEFORE"

definition TAILQ_INSERT_HEAD :: "nat \<Rightarrow> addr \<Rightarrow> links \<Rightarrow> links" where
  "TAILQ_INSERT_HEAD h elm s =
     (let p = hd_first s h; s = set_link (Next elm) p s;
          s = (case p of None \<Rightarrow> set_last h (Next elm) s | Some e \<Rightarrow> set_prev e (Next elm) s)
      in set_prev elm (Head h) (set_link (Head h) (Some elm) s))"

definition TAILQ_INSERT_TAIL :: "nat \<Rightarrow> addr \<Rightarrow> links \<Rightarrow> links" where
  "TAILQ_INSERT_TAIL h elm s =
     (let s = set_prev elm (hd_last s h) (set_link (Next elm) None s)
      in set_last h (Next elm) (set_link (hd_last s h) (Some elm) s))"

definition TAILQ_LAST :: "nat \<Rightarrow> links \<Rightarrow> addr option" where
  "TAILQ_LAST h s = get_link s (back_of s (hd_last s h))"

definition TAILQ_PREV :: "addr \<Rightarrow> links \<Rightarrow> addr option" where
  "TAILQ_PREV elm s = get_link s (back_of s (el_prev s elm))"

definition TAILQ_REMOVE :: "nat \<Rightarrow> addr \<Rightarrow> links \<Rightarrow> links" where
  "TAILQ_REMOVE h elm s =
     (let p = el_next s elm; l = el_prev s elm;
          s = (case p of None \<Rightarrow> set_last h l s | Some e \<Rightarrow> set_prev e l s)
      in set_link l p s)"

text \<open>The elements that the loop of \<^verbatim>\<open>TAILQ_FOREACH_REVERSE\<close> visits from \<open>p\<close> on, at most \<open>n\<close>.\<close>

fun foreach_reverse :: "nat \<Rightarrow> links \<Rightarrow> addr option \<Rightarrow> addr list" where
  "foreach_reverse 0 s p = []"
| "foreach_reverse (Suc n) s p = (case p of None \<Rightarrow> [] | Some e \<Rightarrow> e # foreach_reverse n s (TAILQ_PREV e s))"

section \<open>Queues as lists\<close>

text \<open>
  \<open>seg b s l xs\<close>: the link \<open>l\<close> leads to the elements \<open>xs\<close>, one after the other, and if \<open>b\<close> each of them points back to the link that leads to it. The last link of the
  chain is \<open>tail_link l xs\<close>.
\<close>

fun seg :: "bool \<Rightarrow> links \<Rightarrow> link \<Rightarrow> addr list \<Rightarrow> bool" where
  "seg b s l [] = True"
| "seg b s l (x # xs) = (get_link s l = Some x \<and> (b \<longrightarrow> el_prev s x = l) \<and> seg b s (Next x) xs)"

fun tail_link :: "link \<Rightarrow> addr list \<Rightarrow> link" where
  "tail_link l [] = l"
| "tail_link l (x # xs) = tail_link (Next x) xs"

text \<open>The queue of a head, with back pointers if \<open>b\<close> and with a pointer to its last link if \<open>t\<close>.\<close>

definition qrel :: "bool \<Rightarrow> bool \<Rightarrow> nat \<Rightarrow> addr list \<Rightarrow> links \<Rightarrow> bool" where
  "qrel b t h xs s \<longleftrightarrow> distinct xs \<and> seg b s (Head h) xs \<and> get_link s (tail_link (Head h) xs) = None
     \<and> (t \<longrightarrow> hd_last s h = tail_link (Head h) xs)"

lemma tail_link_append [simp]: "tail_link l (xs @ ys) = tail_link (tail_link l xs) ys"
  by (induction xs arbitrary: l) simp_all

lemma seg_append [simp]: "seg b s l (xs @ ys) \<longleftrightarrow> seg b s l xs \<and> seg b s (tail_link l xs) ys"
  by (induction xs arbitrary: l) auto

lemma tail_link_cases: "tail_link l xs = l \<and> xs = [] \<or> (\<exists>x ys. xs = ys @ [x] \<and> tail_link l xs = Next x)"
  by (cases xs rule: rev_cases) auto

lemma tail_link_in: "tail_link (Head h) xs = Next x \<Longrightarrow> x \<in> set xs"
  using tail_link_cases [of "Head h" xs] by auto

text \<open>A chain only looks at its own links.\<close>

lemma seg_cong:
  assumes "seg b s l xs" and "xs \<noteq> [] \<Longrightarrow> get_link s' l = get_link s l" and "\<forall>x \<in> set (butlast xs). el_next s' x = el_next s x"
    and "b \<Longrightarrow> \<forall>x \<in> set xs. el_prev s' x = el_prev s x"
  shows "seg b s' l xs"
  using assms
proof (induction xs arbitrary: l)
  case (Cons x xs)
  have "seg b s' (Next x) xs" by (rule Cons.IH) (use Cons.prems in \<open>auto split: if_splits\<close>)
  then show ?case using Cons.prems by auto
qed simp

lemma qrel_cong:
  assumes "qrel b t g ys s" and "get_link s' (Head g) = get_link s (Head g)" and "\<forall>y \<in> set ys. el_next s' y = el_next s y"
    and "b \<Longrightarrow> \<forall>y \<in> set ys. el_prev s' y = el_prev s y" and "t \<Longrightarrow> hd_last s' g = hd_last s g"
  shows "qrel b t g ys s'"
proof -
  have "seg b s' (Head g) ys" using assms seg_cong [of b s "Head g" ys s'] by (auto simp: qrel_def dest: in_set_butlastD)
  moreover have "get_link s' (tail_link (Head g) ys) = get_link s (tail_link (Head g) ys)"
    using assms(2,3) tail_link_cases [of "Head g" ys] by auto
  ultimately show ?thesis using assms by (simp add: qrel_def)
qed

section \<open>Insertion and removal at a link\<close>

text \<open>
  What an insertion of \<open>x\<close> at the link \<open>l\<close> of the queue of \<open>h\<close> does to the links, and what the removal of the element \<open>x\<close> behind \<open>l\<close> does.
\<close>

definition inserted :: "bool \<Rightarrow> bool \<Rightarrow> nat \<Rightarrow> link \<Rightarrow> addr \<Rightarrow> links \<Rightarrow> links \<Rightarrow> bool" where
  "inserted b t h l x s s' \<longleftrightarrow>
     (\<forall>k. get_link s' k = (if k = l then Some x else if k = Next x then get_link s l else get_link s k))
     \<and> (b \<longrightarrow> (\<forall>e. el_prev s' e = (if e = x then l else if get_link s l = Some e then Next x else el_prev s e)))
     \<and> (t \<longrightarrow> (\<forall>g. hd_last s' g = (if g = h \<and> get_link s l = None then Next x else hd_last s g)))"

definition removed :: "bool \<Rightarrow> bool \<Rightarrow> nat \<Rightarrow> link \<Rightarrow> addr \<Rightarrow> links \<Rightarrow> links \<Rightarrow> bool" where
  "removed b t h l x s s' \<longleftrightarrow>
     (\<forall>k. get_link s' k = (if k = l then el_next s x else get_link s k))
     \<and> (b \<longrightarrow> (\<forall>e. el_prev s' e = (if el_next s x = Some e then l else el_prev s e)))
     \<and> (t \<longrightarrow> (\<forall>g. hd_last s' g = (if g = h \<and> el_next s x = None then l else hd_last s g)))"

lemma inserted_at:
  assumes q: "qrel b t h (xs @ ys) s" and l: "l = tail_link (Head h) xs" and x: "x \<notin> set (xs @ ys)" and i: "inserted b t h l x s s'"
  shows "qrel b t h (xs @ x # ys) s'"
proof -
  have d: "distinct (xs @ ys)" and sg: "seg b s (Head h) xs" "seg b s l ys" and e: "get_link s (tail_link l ys) = None"
    using q by (auto simp: qrel_def l)
  have G: "get_link s' k = (if k = l then Some x else if k = Next x then get_link s l else get_link s k)" for k
    using i by (simp add: inserted_def)
  have P: "el_prev s' e = (if e = x then l else if get_link s l = Some e then Next x else el_prev s e)" if b for e
    using i that by (simp add: inserted_def)
  have lin: "l \<noteq> Next x" "l = Next y \<Longrightarrow> y \<in> set xs" "l = Head h \<Longrightarrow> xs = []" for y
    using tail_link_cases [of "Head h" xs] x by (auto simp: l)
  have first: "y = hd ys \<and> ys \<noteq> []" if "get_link s l = Some y" for y using sg(2) e that by (cases ys) auto
  have "seg b s' (Head h) xs"
  proof (rule seg_cong [OF sg(1)])
    show "get_link s' (Head h) = get_link s (Head h)" if "xs \<noteq> []" using that lin(3) G [of "Head h"] by auto
    have "Next y \<noteq> l" if "y \<in> set (butlast xs)" for y
      using that d tail_link_cases [of "Head h" xs] by (auto simp: l)
    then show "\<forall>y \<in> set (butlast xs). el_next s' y = el_next s y" using G [of "Next y" for y] x by (auto dest: in_set_butlastD)
    show "\<forall>y \<in> set xs. el_prev s' y = el_prev s y" if b using P that first d x by (auto simp: hd_in_set)
  qed
  moreover have "seg b s' (Next x) ys"
  proof (cases ys)
    case (Cons y zs)
    have gy: "get_link s l = Some y" "el_prev s y = l \<or> \<not> b" "seg b s (Next y) zs" using sg(2) Cons by auto
    have "seg b s' (Next y) zs"
    proof (rule seg_cong [OF gy(3)])
      show "get_link s' (Next y) = get_link s (Next y)" using lin(2) [of y] d x Cons G [of "Next y"] by auto
      show "\<forall>z \<in> set (butlast zs). el_next s' z = el_next s z" using G [of "Next z" for z] lin(2) d x Cons by (auto dest: in_set_butlastD)
      show "\<forall>z \<in> set zs. el_prev s' z = el_prev s z" if b using P that gy(1) d x Cons by auto
    qed
    then show ?thesis using G [of "Next x"] P [of y] gy(1) lin(1) x Cons by auto
  qed simp
  moreover have "get_link s' (tail_link (Next x) ys) = None"
  proof (cases ys rule: rev_cases)
    case Nil
    then show ?thesis using G [of "Next x"] lin(1) e by simp
  next
    case (snoc zs z)
    then show ?thesis using G [of "Next z"] lin(2) [of z] e d x by auto
  qed
  moreover have "hd_last s' h = tail_link (Next x) ys" if t
  proof -
    have "get_link s l = None \<longleftrightarrow> ys = []" using sg(2) e by (cases ys) auto
    then have "hd_last s' h = (if ys = [] then Next x else hd_last s h)" using i that by (simp add: inserted_def)
    then show ?thesis using q that by (cases ys) (simp_all add: qrel_def)
  qed
  ultimately show ?thesis using G [of l] P [of x] d x l by (auto simp: qrel_def)
qed

lemma removed_at:
  assumes q: "qrel b t h (xs @ x # ys) s" and l: "l = tail_link (Head h) xs" and i: "removed b t h l x s s'"
  shows "qrel b t h (xs @ ys) s'"
proof -
  have d: "distinct (xs @ x # ys)" and sg: "seg b s (Head h) xs" "seg b s (Next x) ys" and e: "get_link s (tail_link (Next x) ys) = None"
    using q by (auto simp: qrel_def l)
  have G: "get_link s' k = (if k = l then el_next s x else get_link s k)" for k using i by (simp add: removed_def)
  have P: "el_prev s' e = (if el_next s x = Some e then l else el_prev s e)" if b for e using i that by (simp add: removed_def)
  have lin: "l = Next y \<Longrightarrow> y \<in> set xs" "l = Head h \<Longrightarrow> xs = []" for y
    using tail_link_cases [of "Head h" xs] by (auto simp: l)
  have first: "y = hd ys \<and> ys \<noteq> []" if "el_next s x = Some y" for y using sg(2) e that by (cases ys) auto
  have "seg b s' (Head h) xs"
  proof (rule seg_cong [OF sg(1)])
    show "get_link s' (Head h) = get_link s (Head h)" if "xs \<noteq> []" using that lin(2) G [of "Head h"] by auto
    have "Next y \<noteq> l" if "y \<in> set (butlast xs)" for y
      using that d tail_link_cases [of "Head h" xs] by (auto simp: l)
    then show "\<forall>y \<in> set (butlast xs). el_next s' y = el_next s y" using G [of "Next y" for y] by auto
    show "\<forall>y \<in> set xs. el_prev s' y = el_prev s y" if b using P that first d by (auto simp: hd_in_set)
  qed
  moreover have "seg b s' l ys"
  proof (cases ys)
    case (Cons y zs)
    have gy: "el_next s x = Some y" "seg b s (Next y) zs" using sg(2) Cons by auto
    have "seg b s' (Next y) zs"
    proof (rule seg_cong [OF gy(2)])
      show "get_link s' (Next y) = get_link s (Next y)" using lin(1) [of y] d Cons G [of "Next y"] by auto
      show "\<forall>z \<in> set (butlast zs). el_next s' z = el_next s z" using G [of "Next z" for z] lin(1) d Cons by (auto dest: in_set_butlastD)
      show "\<forall>z \<in> set zs. el_prev s' z = el_prev s z" if b using P that gy(1) d Cons by auto
    qed
    then show ?thesis using G [of l] P [of y] gy(1) Cons by auto
  qed simp
  moreover have "get_link s' (tail_link l ys) = None"
  proof (cases ys rule: rev_cases)
    case Nil
    then show ?thesis using G [of l] e by simp
  next
    case (snoc zs z)
    then show ?thesis using G [of "Next z"] lin(1) [of z] e d by auto
  qed
  moreover have "hd_last s' h = tail_link l ys" if t
  proof -
    have "el_next s x = None \<longleftrightarrow> ys = []" using sg(2) e by (cases ys) auto
    then have "hd_last s' h = (if ys = [] then l else hd_last s h)" using i that by (simp add: removed_def)
    then show ?thesis using q that by (cases ys) (simp_all add: qrel_def)
  qed
  ultimately show ?thesis using d l by (auto simp: qrel_def)
qed

text \<open>Other queues of the same kind are not touched.\<close>

lemma inserted_other:
  assumes q: "qrel b t h (xs @ ys) s" and l: "l = tail_link (Head h) xs" and i: "inserted b t h l x s s'"
    and o: "qrel b t g zs s" "g \<noteq> h" "set zs \<inter> insert x (set (xs @ ys)) = {}"
  shows "qrel b t g zs s'"
proof (rule qrel_cong [OF o(1)])
  have lin: "l \<noteq> Head g" "l = Next y \<Longrightarrow> y \<in> set xs" for y using tail_link_cases [of "Head h" xs] o(2) by (auto simp: l)
  have first: "y \<in> set ys" if "get_link s l = Some y" for y using q that by (cases ys) (auto simp: qrel_def l)
  have G: "get_link s' k = (if k = l then Some x else if k = Next x then get_link s l else get_link s k)" for k
    using i by (simp add: inserted_def)
  show "get_link s' (Head g) = get_link s (Head g)" using G [of "Head g"] lin(1) by auto
  show "\<forall>y \<in> set zs. el_next s' y = el_next s y" using G [of "Next y" for y] lin(2) o(3) by auto
  show "\<forall>y \<in> set zs. el_prev s' y = el_prev s y" if b using i that first o(3) by (auto simp: inserted_def)
  show "hd_last s' g = hd_last s g" if t using i that o(2) by (auto simp: inserted_def)
qed

lemma removed_other:
  assumes q: "qrel b t h (xs @ x # ys) s" and l: "l = tail_link (Head h) xs" and i: "removed b t h l x s s'"
    and o: "qrel b t g zs s" "g \<noteq> h" "set zs \<inter> set (xs @ x # ys) = {}"
  shows "qrel b t g zs s'"
proof (rule qrel_cong [OF o(1)])
  have lin: "l \<noteq> Head g" "l = Next y \<Longrightarrow> y \<in> set xs" for y using tail_link_cases [of "Head h" xs] o(2) by (auto simp: l)
  have first: "y \<in> set ys" if "el_next s x = Some y" for y using q that by (cases ys) (auto simp: qrel_def l)
  have G: "get_link s' k = (if k = l then el_next s x else get_link s k)" for k using i by (simp add: removed_def)
  show "get_link s' (Head g) = get_link s (Head g)" using G [of "Head g"] lin(1) by auto
  show "\<forall>y \<in> set zs. el_next s' y = el_next s y" using G [of "Next y" for y] lin(2) o(3) by auto
  show "\<forall>y \<in> set zs. el_prev s' y = el_prev s y" if b using i that first o(3) by (auto simp: removed_def)
  show "hd_last s' g = hd_last s g" if t using i that o(2) by (auto simp: removed_def)
qed

section \<open>What the macros do\<close>

lemma get_set_link [simp]: "get_link (set_link l p s) k = (if k = l then p else get_link s k)"
  by (cases l; cases k) auto

lemma link_fields [simp]:
  "get_link (set_last h l s) k = get_link s k" "get_link (set_prev e l s) k = get_link s k"
  "el_prev (set_link k p s) = el_prev s" "hd_last (set_link k p s) = hd_last s"
  "el_prev (set_last h l s) = el_prev s" "hd_last (set_last h l s) = (hd_last s)(h := l)"
  "el_prev (set_prev e l s) = (el_prev s)(e := l)" "hd_last (set_prev e l s) = hd_last s"
  by (cases k; simp add: set_last_def set_prev_def)+

lemma insert_head_macros:
  "inserted False False h (Head h) x s (SLIST_INSERT_HEAD h x s)" "inserted False True h (Head h) x s (STAILQ_INSERT_HEAD h x s)"
  "inserted True False h (Head h) x s (LIST_INSERT_HEAD h x s)" "inserted True True h (Head h) x s (TAILQ_INSERT_HEAD h x s)"
  by (auto simp: inserted_def SLIST_INSERT_HEAD_def STAILQ_INSERT_HEAD_def LIST_INSERT_HEAD_def TAILQ_INSERT_HEAD_def Let_def
      simp del: get_link.simps set_link.simps simp flip: get_link.simps split: option.split)

lemma insert_tail_macros:
  assumes "qrel b True h xs s" and "x \<notin> set xs"
  shows "\<not> b \<Longrightarrow> inserted b True h (tail_link (Head h) xs) x s (STAILQ_INSERT_TAIL h x s)"
    and "inserted b True h (tail_link (Head h) xs) x s (TAILQ_INSERT_TAIL h x s)"
proof -
  have l: "hd_last s h = tail_link (Head h) xs" "get_link s (tail_link (Head h) xs) = None" "tail_link (Head h) xs \<noteq> Next x"
    using assms tail_link_in [of h xs x] by (auto simp: qrel_def)
  show "inserted b True h (tail_link (Head h) xs) x s (STAILQ_INSERT_TAIL h x s)" if "\<not> b"
    using l that by (auto simp: inserted_def STAILQ_INSERT_TAIL_def simp del: get_link.simps set_link.simps)
  show "inserted b True h (tail_link (Head h) xs) x s (TAILQ_INSERT_TAIL h x s)"
    using l by (auto simp: inserted_def TAILQ_INSERT_TAIL_def Let_def simp del: get_link.simps set_link.simps)
qed

lemma insert_after_macros:
  assumes "x \<noteq> y"
  shows "inserted False False h (Next y) x s (SLIST_INSERT_AFTER y x s)" "inserted False True h (Next y) x s (STAILQ_INSERT_AFTER h y x s)"
    "inserted True False h (Next y) x s (LIST_INSERT_AFTER y x s)" "inserted True True h (Next y) x s (TAILQ_INSERT_AFTER h y x s)"
  using assms
  by (auto simp: inserted_def SLIST_INSERT_AFTER_def STAILQ_INSERT_AFTER_def LIST_INSERT_AFTER_def TAILQ_INSERT_AFTER_def Let_def
      simp del: get_link.simps set_link.simps simp flip: get_link.simps split: option.split)

lemma insert_before_macro:
  assumes "qrel True t h (xs @ y # ys) s" and "x \<notin> set (xs @ y # ys)"
  shows "inserted True t h (tail_link (Head h) xs) x s (LIST_INSERT_BEFORE y x s)"
proof -
  have "el_prev s y = tail_link (Head h) xs" "get_link s (tail_link (Head h) xs) = Some y" "tail_link (Head h) xs \<noteq> Next x"
    using assms tail_link_in [of h xs x] by (auto simp: qrel_def)
  then show ?thesis using assms(2) by (auto simp: inserted_def LIST_INSERT_BEFORE_def Let_def simp del: get_link.simps set_link.simps)
qed

text \<open>The search finds the element before the one to remove.\<close>

lemma before_found:
  assumes "seg b s l (ys @ [y, x])" and "x \<notin> set (ys @ [y])" and "ys @ [y] = z # zs"
  shows "before s x z = Some y"
  using assms
proof (induction ys arbitrary: l z zs)
  case Nil
  then show ?case by (simp add: before.simps [of s x z])
next
  case (Cons v ys)
  then obtain w ws where w: "ys @ [y] = w # ws" by (cases ys) auto
  have v: "z = v" "el_next s v = Some w" using Cons.prems w by (cases ys; auto)+
  have "x \<noteq> w" using Cons.prems(2) w by (cases ys) auto
  moreover have "before s x w = Some y" using Cons.IH [OF _ _ w, of "Next v"] Cons.prems(1,2) by auto
  ultimately show ?case using v by (simp add: before.simps [of s x v])
qed

lemma remove_macros:
  assumes "qrel b t h (xs @ x # ys) s"
  shows "\<not> b \<and> \<not> t \<Longrightarrow> \<exists>s'. SLIST_REMOVE h x s = Some s' \<and> removed b t h (tail_link (Head h) xs) x s s'"
    and "\<not> b \<and> t \<Longrightarrow> \<exists>s'. STAILQ_REMOVE h x s = Some s' \<and> removed b t h (tail_link (Head h) xs) x s s'"
    and "b \<and> \<not> t \<Longrightarrow> removed b t h (tail_link (Head h) xs) x s (LIST_REMOVE x s)"
    and "b \<and> t \<Longrightarrow> removed b t h (tail_link (Head h) xs) x s (TAILQ_REMOVE h x s)"
proof -
  let ?l = "tail_link (Head h) xs"
  have q: "get_link s ?l = Some x" "b \<longrightarrow> el_prev s x = ?l" "distinct (xs @ x # ys)" "seg b s (Head h) (xs @ [x])" "?l \<noteq> Next x"
    using assms tail_link_in [of h xs x] by (auto simp: qrel_def)
  show "removed b t h ?l x s (LIST_REMOVE x s)" if "b \<and> \<not> t"
    using q that by (auto simp: removed_def LIST_REMOVE_def Let_def simp del: get_link.simps set_link.simps split: option.split)
  show "removed b t h ?l x s (TAILQ_REMOVE h x s)" if "b \<and> t"
    using q that by (auto simp: removed_def TAILQ_REMOVE_def Let_def simp del: get_link.simps set_link.simps split: option.split)
  have S: "hd_first s h = Some x \<and> ?l = Head h \<or> (\<exists>y. hd_first s h \<noteq> Some x \<and> ?l = Next y \<and> el_next s y = Some x \<and> before s x (the (hd_first s h)) = Some y)"
  proof (cases xs rule: rev_cases)
    case Nil
    then show ?thesis using q(1) by simp
  next
    case (snoc zs y)
    obtain z ws where z: "zs @ [y] = z # ws" by (cases zs) auto
    have f: "hd_first s h = Some z" using q(4) snoc z by (cases zs) auto
    have "before s x z = Some y" by (rule before_found [of b s "Head h" zs, OF _ _ z]) (use q snoc in auto)
    moreover have "z \<noteq> x" using q(3) snoc z by (cases zs) auto
    ultimately show ?thesis using f q(1) snoc by simp
  qed
  show "\<exists>s'. SLIST_REMOVE h x s = Some s' \<and> removed b t h ?l x s s'" if "\<not> b \<and> \<not> t"
    using S that by (auto simp: SLIST_REMOVE_def SLIST_REMOVE_HEAD_def SLIST_REMOVE_AFTER_def removed_def
        simp del: get_link.simps set_link.simps simp flip: get_link.simps)
  show "\<exists>s'. STAILQ_REMOVE h x s = Some s' \<and> removed b t h ?l x s s'" if "\<not> b \<and> t"
    using S
  proof
    assume "hd_first s h = Some x \<and> ?l = Head h"
    then show ?thesis using that
      by (auto simp: STAILQ_REMOVE_def STAILQ_REMOVE_HEAD_def removed_def Let_def simp del: get_link.simps set_link.simps simp flip: get_link.simps)
  next
    assume "\<exists>y. hd_first s h \<noteq> Some x \<and> ?l = Next y \<and> el_next s y = Some x \<and> before s x (the (hd_first s h)) = Some y"
    then obtain y where y: "hd_first s h \<noteq> Some x" "?l = Next y" "el_next s y = Some x" "before s x (the (hd_first s h)) = Some y" by blast
    then have "STAILQ_REMOVE h x s = Some (STAILQ_REMOVE_AFTER h y s)" by (simp add: STAILQ_REMOVE_def)
    moreover have "removed b t h ?l x s (STAILQ_REMOVE_AFTER h y s)"
      using y that by (auto simp: STAILQ_REMOVE_AFTER_def removed_def Let_def simp del: get_link.simps set_link.simps simp flip: get_link.simps)
    ultimately show ?thesis by blast
  qed
qed

section \<open>Visiting\<close>

lemma foreach_seg:
  assumes "seg b s l xs" and "get_link s (tail_link l xs) = None" and "length xs < n"
  shows "foreach n s (get_link s l) = xs"
  using assms
proof (induction xs arbitrary: n l)
  case Nil
  then show ?case by (cases n) auto
next
  case (Cons x xs)
  then obtain m where "n = Suc m" by (cases n) auto
  then show ?case using Cons.IH [of "Next x" m] Cons.prems by simp
qed

lemma foreach_queue: "qrel b t h xs s \<Longrightarrow> length xs < n \<Longrightarrow> foreach n s (hd_first s h) = xs"
  using foreach_seg [of b s "Head h" xs n] by (simp add: qrel_def)

lemma tailq_last:
  assumes "qrel True True h xs s"
  shows "TAILQ_LAST h s = (if xs = [] then None else Some (last xs))"
proof (cases xs rule: rev_cases)
  case Nil
  then show ?thesis using assms by (simp add: TAILQ_LAST_def qrel_def)
next
  case (snoc ys y)
  then show ?thesis using assms by (simp add: TAILQ_LAST_def qrel_def)
qed

lemma tailq_prev:
  assumes "qrel True True h (xs @ y # ys) s"
  shows "TAILQ_PREV y s = (if xs = [] then None else Some (last xs))"
proof (cases xs rule: rev_cases)
  case Nil
  then show ?thesis using assms by (simp add: TAILQ_PREV_def qrel_def)
next
  case (snoc zs z)
  then show ?thesis using assms by (simp add: TAILQ_PREV_def qrel_def)
qed

lemma foreach_reverse_queue:
  assumes "qrel True True h (xs @ ys) s" and "length xs < n"
  shows "foreach_reverse n s (if xs = [] then None else Some (last xs)) = rev xs"
  using assms
proof (induction xs arbitrary: n ys rule: rev_induct)
  case Nil
  then show ?case by (cases n) auto
next
  case (snoc x xs)
  then obtain m where n: "n = Suc m" by (cases n) auto
  have q: "qrel True True h (xs @ x # ys) s" using snoc.prems by simp
  then show ?case using snoc.IH [of "x # ys" m] tailq_prev [OF q] snoc.prems(2) n by simp
qed

section \<open>Concatenation\<close>

lemma concat_queue:
  assumes q: "qrel b True h1 xs s" "qrel b True h2 ys s" and d: "h1 \<noteq> h2" "set xs \<inter> set ys = {}"
    and s': "s' = (if b then TAILQ_CONCAT h1 h2 s else STAILQ_CONCAT h1 h2 s)"
  shows "qrel b True h1 (xs @ ys) s'" and "qrel b True h2 [] s'"
proof -
  let ?l = "tail_link (Head h1) xs"
  have l: "hd_last s h1 = ?l" "hd_last s h2 = tail_link (Head h2) ys" and lne: "?l \<noteq> Head h2" using q d tail_link_cases [of "Head h1" xs] by (auto simp: qrel_def)
  have "qrel b True h1 (xs @ ys) s' \<and> qrel b True h2 [] s'"
  proof (cases ys)
    case Nil
    then have "s' = s" using q by (simp add: s' TAILQ_CONCAT_def STAILQ_CONCAT_def qrel_def)
    then show ?thesis using q Nil by simp
  next
    case (Cons y zs)
    have f: "hd_first s h2 = Some y" using q(2) Cons by (simp add: qrel_def)
    have G: "get_link s' k = (if k = Head h2 then None else if k = ?l then Some y else get_link s k)" for k
      using f l lne by (simp add: s' TAILQ_CONCAT_def STAILQ_CONCAT_def TAILQ_INIT_def STAILQ_INIT_def del: get_link.simps set_link.simps)
    have P: "el_prev s' e = (if e = y then ?l else el_prev s e)" if b for e
      using f l that by (simp add: s' TAILQ_CONCAT_def TAILQ_INIT_def)
    have L: "hd_last s' h1 = tail_link (Head h2) ys" "hd_last s' h2 = Head h2"
      using f l d(1) by (simp_all add: s' TAILQ_CONCAT_def STAILQ_CONCAT_def TAILQ_INIT_def STAILQ_INIT_def)
    have lin: "?l = Next v \<Longrightarrow> v \<in> set xs" "?l = Head h1 \<Longrightarrow> xs = []" for v using tail_link_cases [of "Head h1" xs] by auto
    have nl: "Next v \<noteq> ?l" if "v \<in> set ys" for v using lin(1) [of v] d(2) that by (metis disjoint_iff)
    have "seg b s' (Head h1) xs"
    proof (rule seg_cong [of b s])
      show "seg b s (Head h1) xs" using q(1) by (simp add: qrel_def)
      show "get_link s' (Head h1) = get_link s (Head h1)" if "xs \<noteq> []" using G [of "Head h1"] lin(2) that d(1) by auto
      have "Next v \<noteq> ?l" if "v \<in> set (butlast xs)" for v
        using that q(1) tail_link_cases [of "Head h1" xs] by (auto simp: qrel_def)
      then show "\<forall>v \<in> set (butlast xs). el_next s' v = el_next s v" using G [of "Next v" for v] by auto
      show "\<forall>v \<in> set xs. el_prev s' v = el_prev s v" if b using P that d(2) Cons by auto
    qed
    moreover have "seg b s' (Next y) zs"
    proof (rule seg_cong [of b s])
      show "seg b s (Next y) zs" using q(2) Cons by (simp add: qrel_def)
      show "get_link s' (Next y) = get_link s (Next y)" using G [of "Next y"] lin(1) [of y] d(2) Cons by auto
      show "\<forall>v \<in> set (butlast zs). el_next s' v = el_next s v" using G [of "Next v" for v] nl Cons by (auto dest: in_set_butlastD)
      show "\<forall>v \<in> set zs. el_prev s' v = el_prev s v" if b using P that q(2) Cons by (auto simp: qrel_def)
    qed
    moreover have "get_link s' (tail_link (Next y) zs) = None"
    proof -
      obtain v where v: "tail_link (Next y) zs = Next v" "v \<in> set ys" using tail_link_cases [of "Next y" zs] Cons by auto
      then show ?thesis using G [of "Next v"] lin(1) [of v] d(2) q(2) Cons by (auto simp: qrel_def)
    qed
    ultimately show ?thesis using G [of ?l] P [of y] L q d(2) lne Cons G [of "Head h2"] by (auto simp: qrel_def)
  qed
  then show "qrel b True h1 (xs @ ys) s'" "qrel b True h2 [] s'" by blast+
qed

section \<open>Families of queues\<close>

text \<open>All queues of one kind, and the contract under which the cache may take them for lists.\<close>

definition queues :: "(nat \<Rightarrow> addr list \<Rightarrow> links \<Rightarrow> bool) \<Rightarrow> (nat \<Rightarrow> addr list) \<Rightarrow> links \<Rightarrow> bool" where
  "queues rel Q s \<longleftrightarrow> (\<forall>h. rel h (Q h) s) \<and> (\<forall>g h. g \<noteq> h \<longrightarrow> set (Q g) \<inter> set (Q h) = {})"

locale queue_family =
  fixes rel :: "nat \<Rightarrow> addr list \<Rightarrow> links \<Rightarrow> bool"
    and insert_head :: "nat \<Rightarrow> addr \<Rightarrow> links \<Rightarrow> links" and remove :: "nat \<Rightarrow> addr \<Rightarrow> links \<Rightarrow> links option"
  assumes rel_distinct: "rel h xs s \<Longrightarrow> distinct xs"
    and insert_head: "rel h xs s \<Longrightarrow> x \<notin> set xs \<Longrightarrow> rel h (x # xs) (insert_head h x s)"
    and insert_head_other: "rel h xs s \<Longrightarrow> rel g ys s \<Longrightarrow> g \<noteq> h \<Longrightarrow> set ys \<inter> insert x (set xs) = {} \<Longrightarrow> rel g ys (insert_head h x s)"
    and remove: "rel h xs s \<Longrightarrow> x \<in> set xs \<Longrightarrow> \<exists>s'. remove h x s = Some s' \<and> rel h (remove1 x xs) s'"
    and remove_other: "rel h xs s \<Longrightarrow> x \<in> set xs \<Longrightarrow> remove h x s = Some s' \<Longrightarrow> rel g ys s \<Longrightarrow> g \<noteq> h \<Longrightarrow> set ys \<inter> set xs = {} \<Longrightarrow> rel g ys s'"
begin

lemma queues_insert_head:
  assumes "queues rel Q s" and "\<forall>g. x \<notin> set (Q g)"
  shows "queues rel (Q(h := x # Q h)) (insert_head h x s)"
proof -
  have "rel g (Q g) (insert_head h x s)" if "g \<noteq> h" for g
    using assms that insert_head_other [of h "Q h" s g "Q g" x] by (auto simp: queues_def)
  then show ?thesis using assms insert_head [of h "Q h" s x] by (auto simp: queues_def)
qed

lemma queues_remove:
  assumes "queues rel Q s" and "x \<in> set (Q h)"
  shows "\<exists>s'. remove h x s = Some s' \<and> queues rel (Q(h := remove1 x (Q h))) s'"
proof -
  obtain s' where s': "remove h x s = Some s'" "rel h (remove1 x (Q h)) s'" using remove [of h "Q h" s x] assms by (auto simp: queues_def)
  have "rel g (Q g) s'" if "g \<noteq> h" for g
    using assms that remove_other [OF _ assms(2) s'(1), of g "Q g"] by (auto simp: queues_def)
  moreover have "set (remove1 x (Q h)) \<subseteq> set (Q h)" by (rule set_remove1_subset)
  ultimately show ?thesis using s' assms(1) by (auto simp: queues_def) blast+
qed

end

locale tail_family = queue_family +
  fixes insert_tail :: "nat \<Rightarrow> addr \<Rightarrow> links \<Rightarrow> links"
  assumes insert_tail: "rel h xs s \<Longrightarrow> x \<notin> set xs \<Longrightarrow> rel h (xs @ [x]) (insert_tail h x s)"
    and insert_tail_other: "rel h xs s \<Longrightarrow> rel g ys s \<Longrightarrow> g \<noteq> h \<Longrightarrow> set ys \<inter> insert x (set xs) = {} \<Longrightarrow> x \<notin> set xs \<Longrightarrow> rel g ys (insert_tail h x s)"
begin

lemma queues_insert_tail:
  assumes "queues rel Q s" and "\<forall>g. x \<notin> set (Q g)"
  shows "queues rel (Q(h := Q h @ [x])) (insert_tail h x s)"
proof -
  have "rel g (Q g) (insert_tail h x s)" if "g \<noteq> h" for g
    using assms that insert_tail_other [of h "Q h" s g "Q g" x] by (auto simp: queues_def)
  then show ?thesis using assms insert_tail [of h "Q h" s x] by (auto simp: queues_def)
qed

end

text \<open>The laws hold for every macro that is an insertion or removal at a link.\<close>

lemma insert_head_law:
  assumes "\<And>h x s. inserted b t h (Head h) x s (ins h x s)"
  shows "qrel b t h xs s \<Longrightarrow> x \<notin> set xs \<Longrightarrow> qrel b t h (x # xs) (ins h x s)"
    and "qrel b t h xs s \<Longrightarrow> qrel b t g ys s \<Longrightarrow> g \<noteq> h \<Longrightarrow> set ys \<inter> insert x (set xs) = {} \<Longrightarrow> qrel b t g ys (ins h x s)"
  using inserted_at [of b t h "[]" xs s "Head h" x, OF _ _ _ assms] inserted_other [of b t h "[]" xs s "Head h" x, OF _ _ assms] by simp_all

lemma remove_law:
  assumes "\<And>h xs x ys s. qrel b t h (xs @ x # ys) s \<Longrightarrow> \<exists>s'. rem h x s = Some s' \<and> removed b t h (tail_link (Head h) xs) x s s'"
  shows "qrel b t h xs s \<Longrightarrow> x \<in> set xs \<Longrightarrow> \<exists>s'. rem h x s = Some s' \<and> qrel b t h (remove1 x xs) s'"
    and "qrel b t h xs s \<Longrightarrow> x \<in> set xs \<Longrightarrow> rem h x s = Some s' \<Longrightarrow> qrel b t g ys s \<Longrightarrow> g \<noteq> h \<Longrightarrow> set ys \<inter> set xs = {} \<Longrightarrow> qrel b t g ys s'"
proof -
  show "\<exists>s'. rem h x s = Some s' \<and> qrel b t h (remove1 x xs) s'" if q: "qrel b t h xs s" "x \<in> set xs"
  proof -
    obtain us vs where xs: "xs = us @ x # vs" "x \<notin> set us" using split_list_first [OF q(2)] by blast
    obtain s' where "rem h x s = Some s'" "removed b t h (tail_link (Head h) us) x s s'" using assms q(1) xs by blast
    then show ?thesis using removed_at [of b t h us x vs s _ s', OF _ refl] q(1) xs by (auto simp: remove1_append)
  qed
  show "qrel b t g ys s'" if q: "qrel b t h xs s" "x \<in> set xs" "rem h x s = Some s'" "qrel b t g ys s" "g \<noteq> h" "set ys \<inter> set xs = {}"
  proof -
    obtain us vs where xs: "xs = us @ x # vs" using split_list [OF q(2)] by blast
    then have "removed b t h (tail_link (Head h) us) x s s'" using assms [of h us x vs s] q(1,3) by auto
    then show ?thesis using removed_other [of b t h us x vs s _ s', OF _ refl] q xs by blast
  qed
qed

lemma insert_tail_law:
  assumes "\<And>h xs x s. qrel b True h xs s \<Longrightarrow> x \<notin> set xs \<Longrightarrow> inserted b True h (tail_link (Head h) xs) x s (ins h x s)"
  shows "qrel b True h xs s \<Longrightarrow> x \<notin> set xs \<Longrightarrow> qrel b True h (xs @ [x]) (ins h x s)"
    and "qrel b True h xs s \<Longrightarrow> qrel b True g ys s \<Longrightarrow> g \<noteq> h \<Longrightarrow> set ys \<inter> insert x (set xs) = {} \<Longrightarrow> x \<notin> set xs \<Longrightarrow> qrel b True g ys (ins h x s)"
  using inserted_at [of b True h xs "[]" s _ x, OF _ refl _ assms] inserted_other [of b True h xs "[]" s _ x _ g ys, OF _ refl assms] by simp_all

lemma qrel_family:
  assumes "\<And>h x s. inserted b t h (Head h) x s (ins h x s)"
    and "\<And>h xs x ys s. qrel b t h (xs @ x # ys) s \<Longrightarrow> \<exists>s'. rem h x s = Some s' \<and> removed b t h (tail_link (Head h) xs) x s s'"
  shows "queue_family (qrel b t) ins rem"
proof
  show "distinct xs" if "qrel b t h xs s" for h xs s using that by (simp add: qrel_def)
  show "qrel b t h (x # xs) (ins h x s)" if "qrel b t h xs s" "x \<notin> set xs" for h xs s x using insert_head_law(1) [OF assms(1) that] .
  show "qrel b t g ys (ins h x s)" if "qrel b t h xs s" "qrel b t g ys s" "g \<noteq> h" "set ys \<inter> insert x (set xs) = {}" for h xs s g ys x
    using insert_head_law(2) [OF assms(1) that] .
  show "\<exists>s'. rem h x s = Some s' \<and> qrel b t h (remove1 x xs) s'" if "qrel b t h xs s" "x \<in> set xs" for h xs s x
    by (rule remove_law(1) [OF assms(2) that])
  show "qrel b t g ys s'" if "qrel b t h xs s" "x \<in> set xs" "rem h x s = Some s'" "qrel b t g ys s" "g \<noteq> h" "set ys \<inter> set xs = {}" for h xs s x s' g ys
    by (rule remove_law(2) [OF assms(2) that])
qed

interpretation slist: queue_family "qrel False False" SLIST_INSERT_HEAD SLIST_REMOVE
  by (rule qrel_family [OF insert_head_macros(1) remove_macros(1)]) simp_all

interpretation list: queue_family "qrel True False" LIST_INSERT_HEAD "\<lambda>h x s. Some (LIST_REMOVE x s)"
  by (rule qrel_family [OF insert_head_macros(3)]) (simp add: remove_macros(3))

interpretation stailq: tail_family "qrel False True" STAILQ_INSERT_HEAD STAILQ_REMOVE STAILQ_INSERT_TAIL
proof (intro tail_family.intro tail_family_axioms.intro)
  show "queue_family (qrel False True) STAILQ_INSERT_HEAD STAILQ_REMOVE"
    by (rule qrel_family [OF insert_head_macros(2) remove_macros(2)]) simp_all
qed (use insert_tail_law [of False STAILQ_INSERT_TAIL] insert_tail_macros(1) in blast)+

interpretation tailq: tail_family "qrel True True" TAILQ_INSERT_HEAD "\<lambda>h x s. Some (TAILQ_REMOVE h x s)" TAILQ_INSERT_TAIL
proof (intro tail_family.intro tail_family_axioms.intro)
  show "queue_family (qrel True True) TAILQ_INSERT_HEAD (\<lambda>h x s. Some (TAILQ_REMOVE h x s))"
    by (rule qrel_family [OF insert_head_macros(4)]) (simp add: remove_macros(4))
qed (use insert_tail_law [of True TAILQ_INSERT_TAIL] insert_tail_macros(2) in blast)+

end
