(* ===== verification/McDemoDrv.thy ===== *)
theory McDemoDrv
  imports McDemoSrv McServe McQueue
begin

text \<open>
  A connection with its socket, on which the properties of the state machine are applied. The peer takes one byte at a time and
  goes on sending zeros.
\<close>

definition demo_net :: net where
  "demo_net = \<lparr>n_read = (\<lambda>_ size. Got (replicate (min 1 size) (CHR ''0''))), n_recvfrom = (\<lambda>_ _. Read_again),
     n_sendmsg = (\<lambda>_ data. Sent (min 1 (length data))), n_event = (\<lambda>_. (True, True)), n_listen = (\<lambda>_. True), n_accept = (\<lambda>_. Acc_eagain),
     n_nonblock = (\<lambda>_. True), n_conn = (\<lambda>_. (\<lparr>cm_ok = True, cm_bufs = all_bufs, cm_rbuf = [], cm_wbuf = []\<rparr>, [], True))\<rparr>"

definition demo_host :: "unit host" where
  "demo_host = \<lparr>h_world = demo_world, h_net = demo_net, h_csize = 4096\<rparr>"

definition demo_drv :: "bytes \<Rightarrow> unit drv" where
  "demo_drv req = \<lparr>dv_srv = demo_srv req, dv_sd = 3, dv_flags = EV_read, dv_sys = 0, dv_in = req, dv_out = [], dv_freed = False, dv_closed = [],
     dv_listen = [], dv_threads = thread_start 2\<rparr>"

lemma demo_host_fields [simp]:
  "h_world demo_host = demo_world" "h_net demo_host = demo_net"
  "send_ok demo_net" "peer_takes demo_net" "peer_gives demo_net"
  by (simp_all add: demo_host_def demo_net_def send_ok_def peer_takes_def peer_gives_def)

lemma demo_drv_fields [simp]: "dv_srv (demo_drv req) = demo_srv req" "dv_out (demo_drv req) = []" "dv_in (demo_drv req) = req"
  by (simp_all add: demo_drv_def)

lemma demo_next_line:
  assumes "set line \<inter> {CHR 0x00, CHR 0x0A} = {}" and "line \<noteq> []" and "req = line @ CRLF @ rest"
  shows "next_line line rest (demo_drv req)"
  using assms by (simp add: next_line_def rbuf_ok_def) (simp add: demo_srv_def demo_conn_def new_conn_def TCP_BUFFER_SIZE_def)

text \<open>A connection in the middle of sending.\<close>

definition demo_out :: "unit drv" where
  "demo_out = up_dconn (\<lambda>c. c\<lparr>c_wbuf := ''STORED'' @ CRLF, c_iov := [\<lparr>iov_base = (O_wbuf, 0), iov_len = 8\<rparr>],
     c_msg := [\<lparr>msg_iov = 0, msg_iovlen = 1\<rparr>], c_msg_bytes := 8, c_state := CONN_MWRITE\<rparr>) (demo_drv [])"

lemma demo_out_state: "msgs_chained (dv_conn demo_out)" "dv_out demo_out = []" "pending_out (dv_srv demo_out) = ''STORED'' @ CRLF"
proof -
  have c: "c_msg_curr (sv_conn (demo_srv [])) = 0" by (simp add: demo_srv_def demo_conn_def new_conn_def)
  show "msgs_chained (dv_conn demo_out)" "dv_out demo_out = []"
    by (simp_all add: demo_out_def msgs_chained_def up_srv_def up_conn_def)
  show "pending_out (dv_srv demo_out) = ''STORED'' @ CRLF"
    by (simp add: demo_out_def pending_out_def msg_data_def msg_iovs_def iov_bytes_def up_srv_def up_conn_def c)
      (simp add: rd_bytes_def mem_of_def CRLF_def upt_rec numeral_eq_Suc)
qed

text \<open>Two connections that were handed to two workers.\<close>

definition demo_dispatch :: "int \<Rightarrow> threads \<times> thread_metrics \<Rightarrow> rstatus \<times> threads \<times> thread_metrics" where
  "demo_dispatch sd = thread_dispatch 4096 \<lparr>cm_ok = True, cm_bufs = all_bufs, cm_rbuf = [], cm_wbuf = []\<rparr> [] True sd CONN_NEW_CMD EV_read False"

lemma demo_dispatch_ok: "\<exists>th' m'. demo_dispatch sd (th, m) = (MC_OK, th', m')"
  by (simp add: demo_dispatch_def thread_dispatch_def conn_get_def Let_def)

lemma demo_dispatched: "\<exists>th. dispatch_run 2 [5, 6, 7] th"
proof -
  obtain th1 m1 where 1: "demo_dispatch 5 (thread_start 2, demo_metrics) = (MC_OK, th1, m1)" using demo_dispatch_ok by blast
  obtain th2 m2 where 2: "demo_dispatch 6 (th1, m1) = (MC_OK, th2, m2)" using demo_dispatch_ok by blast
  obtain th3 m3 where 3: "demo_dispatch 7 (th2, m2) = (MC_OK, th3, m3)" using demo_dispatch_ok by blast
  have "dispatch_run 2 ([] @ [5]) th1" using run_dispatch [OF run_start 1 [unfolded demo_dispatch_def]] .
  from run_dispatch [OF this 2 [unfolded demo_dispatch_def]] have "dispatch_run 2 (([] @ [5]) @ [6]) th2" .
  from run_dispatch [OF this 3 [unfolded demo_dispatch_def]] show ?thesis by auto
qed

text \<open>Queues after their initialization.\<close>

definition demo_links :: links where
  "demo_links = \<lparr>hd_first = (\<lambda>_. None), hd_last = Head, el_next = (\<lambda>_. None), el_prev = Next\<rparr>"

lemma demo_links_state: "queues (qrel True True) (\<lambda>_. []) demo_links"
  by (simp add: queues_def qrel_def demo_links_def)

end
