(* ===== verification/McOptions.thy ===== *)
theory McOptions
  imports McBoot McServer
begin

text \<open>
  The command line of the server (\<^verbatim>\<open>mc.c\<close>): the option tables, the default settings and the switch of
  \<^verbatim>\<open>mc_get_options\<close>, one group of its cases per definition, and the parsers of option values \<^verbatim>\<open>_mc_atoi\<close> and
  \<^verbatim>\<open>mc_str2oct\<close> (\<^verbatim>\<open>mc_util.c\<close>). What \<^verbatim>\<open>getopt_long\<close> returns is the list of its results, each an option
  with its argument or the character \<^verbatim>\<open>?\<close> with the offending option. A refused option is the value \<open>Inl\<close>, which names
  the reason that is logged. Whatever options are accepted, the settings are well-formed (\<open>opts_ok\<close>), which is what the start of the
  cache and of the hotkey window rely on.
\<close>

section \<open>Option values\<close>

text \<open>
  The digits of \<^verbatim>\<open>_mc_atoi\<close> are added up in an \<^verbatim>\<open>int\<close> without a test for overflow, modelled as the wrap-around of
  the two's complement arithmetic; for values that fit there is none.
\<close>

fun atoi_loop :: "u32 \<Rightarrow> bytes \<Rightarrow> u32 option" where
  "atoi_loop v [] = Some v"
| "atoi_loop v (c # cs) = (if isdigit c then atoi_loop (v * 10 + of_nat (digit_val c)) cs else None)"

definition mc_atoi :: "bytes \<Rightarrow> int" where
  "mc_atoi line =
     (if line = [] then - 1
      else
        (case atoi_loop 0 line of
           None \<Rightarrow> - 1
         | Some v \<Rightarrow> if sint v < 0 then - 1 else sint v))"

text \<open>\<^verbatim>\<open>strtol\<close> in base 8, with its end pointer and the flag for ERANGE, and the wrapper that stores the result in an \<^verbatim>\<open>int32_t\<close>.\<close>

definition isoct :: "char \<Rightarrow> bool" where
  "isoct c = (48 \<le> (of_char c :: nat) \<and> (of_char c :: nat) \<le> 55)"

definition oct_val :: "bytes \<Rightarrow> nat" where
  "oct_val ds = foldl (\<lambda>v c. v * 8 + digit_val c) 0 ds"

definition c_strtol8 :: "bytes \<Rightarrow> int \<times> bytes \<times> bool" where
  "c_strtol8 str =
     (let s = mc_skip_space str;
          (neg, t) = (case s of
             c # cs \<Rightarrow> if c = CHR ''-'' then (True, cs) else if c = CHR ''+'' then (False, cs) else (False, s)
           | [] \<Rightarrow> (False, []));
          ds = takeWhile isoct t;
          v = (if neg then - int (oct_val ds) else int (oct_val ds))
      in if ds = [] then (0, str, False)
         else if v > 2 ^ 63 - 1 then (2 ^ 63 - 1, dropWhile isoct t, True)
         else if v < - (2 ^ 63) then (- (2 ^ 63), dropWhile isoct t, True)
         else (v, dropWhile isoct t, False))"

definition mc_str2oct :: "bytes \<Rightarrow> u32 option" where
  "mc_str2oct str =
     (case c_strtol8 str of (l, endptr, erange) \<Rightarrow>
        if erange then None else if end_ok str endptr then Some (word_of_int l) else None)"

section \<open>The option tables\<close>

text \<open>An entry of \<^verbatim>\<open>long_options\<close> is a name, whether it requires an argument, and the option it stands for.\<close>

definition long_options :: "(bytes \<times> bool \<times> char) list" where
  "long_options =
     [(''help'', False, CHR ''h''), (''version'', False, CHR ''V''), (''prealloc'', False, CHR ''E''),
      (''use-large-pages'', False, CHR ''L''), (''lock-pages'', False, CHR ''k''), (''daemonize'', False, CHR ''d''),
      (''maximize-core-limit'', False, CHR ''r''), (''disable-cas'', False, CHR ''C''), (''describe-stats'', False, CHR ''D''),
      (''show-sizes'', False, CHR ''S''), (''enable-hotkey'', False, CHR ''H''), (''output'', True, CHR ''o''),
      (''verbosity'', True, CHR ''v''), (''stats-aggr-interval'', True, CHR ''A''), (''klog-entry'', True, CHR ''x''),
      (''klog-file'', True, CHR ''X''), (''klog-sample-rate'', True, CHR ''y''), (''hotkey-redline-qps'', True, CHR ''q''),
      (''hotkey-sample-rate'', True, CHR ''Y''), (''hotkey-qps-threshold'', True, CHR ''T''), (''hotkey-bw-threshold'', True, CHR ''j''),
      (''hash-power'', True, CHR ''e''), (''threads'', True, CHR ''t''), (''pidfile'', True, CHR ''P''), (''user'', True, CHR ''u''),
      (''max-requests'', True, CHR ''R''), (''max-conns'', True, CHR ''c''), (''backlog'', True, CHR ''b''), (''port'', True, CHR ''p''),
      (''udp-port'', True, CHR ''U''), (''interface'', True, CHR ''l''), (''unix-path'', True, CHR ''s''), (''access-mask'', True, CHR ''a''),
      (''eviction-strategy'', True, CHR ''M''), (''factor'', True, CHR ''f''), (''max-memory'', True, CHR ''m''),
      (''min-item-chunk-size'', True, CHR ''n''), (''slab-size'', True, CHR ''I''), (''slab-profile'', True, CHR ''z'')]"

definition short_options :: bytes where
  "short_options = ''hVELkdrCDSHo:v:A:e:t:P:u:x:X:y:q:Y:T:j:B:R:c:b:p:U:l:s:a:M:f:m:n:I:z:''"

text \<open>How \<^verbatim>\<open>getopt\<close> reads the string: an option letter, followed by a colon if it requires an argument.\<close>

fun short_table :: "bytes \<Rightarrow> (char \<times> bool) list" where
  "short_table [] = []"
| "short_table [c] = [(c, False)]"
| "short_table (c # d # cs) = (if d = CHR '':'' then (c, True) # short_table cs else (c, False) # short_table (d # cs))"

section \<open>Settings\<close>

text \<open>
  The settings and the static variables the options set. \<open>op_tcp\<close> and \<open>op_udp\<close> are the local flags for a port that was
  given, \<open>op_profile\<close> is \<^verbatim>\<open>profile_optarg\<close> when \<^verbatim>\<open>parse_profile\<close> is set; intervals are in microseconds.
\<close>

record 'd opts =
  op_set :: settings
  op_conf :: "'d conf"
  op_verbose :: int
  op_stats_intvl :: int
  op_klog_backup :: "bytes option"
  op_klog_sampling :: int
  op_klog_entry :: int
  op_klog_running :: bool
  op_pid_filename :: "bytes option"
  op_hotkey_enable :: bool
  op_hotkey_redline :: u64
  op_hotkey_sample :: u64
  op_hotkey_qps :: 'd
  op_hotkey_bw :: u64
  op_accepting :: bool
  op_show_help :: bool
  op_show_version :: bool
  op_show_stats :: bool
  op_show_sizes :: bool
  op_profile :: "bytes option"
  op_tcp :: bool
  op_udp :: bool

text \<open>
  What the doubles of the command line need: their conversion from text, the two range tests, the two constants, and the truncated product with
  a size.
\<close>

record 'd dbl =
  d_strtod :: "bytes \<Rightarrow> 'd"
  d_fraction :: "'d \<Rightarrow> bool"
  d_above_one :: "'d \<Rightarrow> bool"
  d_MC_FACTOR :: 'd
  d_HOTKEY_QPS_THRESHOLD :: 'd
  d_mul :: "'d \<Rightarrow> nat \<Rightarrow> nat"

definition MB :: nat where "MB = 1048576"
definition SLAB_MIN_SIZE :: nat where "SLAB_MIN_SIZE = 512"
definition SLAB_MAX_SIZE :: nat where "SLAB_MAX_SIZE = 128 * MB"
definition ITEM_CHUNK_SIZE :: nat where "ITEM_CHUNK_SIZE = MC_ALIGN (ITEM_HDR_SIZE + 32) MC_ALIGNMENT"
definition MC_HASH_MAX_POWER :: int where "MC_HASH_MAX_POWER = 32"
definition MC_STATS_MIN_INTVL :: int where "MC_STATS_MIN_INTVL = 10000"
definition MC_STATS_MAX_INTVL :: int where "MC_STATS_MAX_INTVL = 60000000"
definition EVICT_NONE :: int where "EVICT_NONE = 0"
definition MC_KLOG_BACKUP_SUF :: bytes where "MC_KLOG_BACKUP_SUF = ''.old''"

definition mc_set_default_options :: "'d dbl \<Rightarrow> 'd opts" where
  "mc_set_default_options d =
     \<lparr>op_set = \<lparr>prealloc = False, use_cas = True, evict_opt = EVICT_RS, use_freeq = True, use_lruq = True, maxbytes = 64 * MB,
        slab_size_opt = MB, hash_power_opt = 0, oldest_live = 0, chunk_size = ITEM_CHUNK_SIZE, max_chunk_size = 0,
        profile = (\<lambda>_. 0), profile_last_id = SLABCLASS_MAX_ID\<rparr>,
      op_conf = \<lparr>st_lock_page = False, st_daemonize = False, st_max_corefile = False, st_log_filename = None, st_klog_name = None,
        st_klog_intvl = 1000, st_num_workers = 2, st_username = None, st_reqs_per_event = 20, st_maxconns = 1024, st_backlog = 1024,
        st_port = 11211, st_udpport = 11211, st_interface = None, st_socketpath = None, st_access = 448, st_factor = d_MC_FACTOR d, st_pid = 0\<rparr>,
      op_verbose = 5, op_stats_intvl = 100000, op_klog_backup = None, op_klog_sampling = 100, op_klog_entry = 512, op_klog_running = False,
      op_pid_filename = None, op_hotkey_enable = False, op_hotkey_redline = 80000, op_hotkey_sample = 100,
      op_hotkey_qps = d_HOTKEY_QPS_THRESHOLD d, op_hotkey_bw = 200000, op_accepting = True, op_show_help = False, op_show_version = False,
      op_show_stats = False, op_show_sizes = False, op_profile = None, op_tcp = False, op_udp = False\<rparr>"

section \<open>The switch over the options\<close>

text \<open>
  Why an option is refused: a bad argument, a missing one (which \<^verbatim>\<open>getopt_long\<close> reports as \<^verbatim>\<open>?\<close> with the option in
  \<^verbatim>\<open>optopt\<close>), or an option that is not known.
\<close>

datatype opt_error = Not_a_number char | Out_of_range char | Not_aligned char | No_memory char
  | Missing_file char | Missing_path char | Missing_number char | Missing_string char | Bad_option char

datatype getopt_result = Opt char bytes | Question char

definition opt_question :: "char \<Rightarrow> opt_error" where
  "opt_question optopt =
     (if optopt \<in> set ''oP'' then Missing_file optopt
      else if optopt \<in> set ''s'' then Missing_path optopt
      else if optopt \<in> set ''vAetRcbpUaMfmn'' then Missing_number optopt
      else if optopt \<in> set ''ulIz'' then Missing_string optopt
      else Bad_option optopt)"

definition upd_set :: "(settings \<Rightarrow> settings) \<Rightarrow> 'd opts \<Rightarrow> 'd opts" where
  "upd_set f o1 = o1\<lparr>op_set := f (op_set o1)\<rparr>"

definition upd_conf :: "('d conf \<Rightarrow> 'd conf) \<Rightarrow> 'd opts \<Rightarrow> 'd opts" where
  "upd_conf f o1 = o1\<lparr>op_conf := f (op_conf o1)\<rparr>"

text \<open>The cases on memory, from the eviction strategy on, and the default case. An empty argument of \<^verbatim>\<open>-I\<close> is refused as no number, whatever the byte before it is.\<close>

definition slab_size_value :: "bytes \<Rightarrow> int \<times> nat" where
  "slab_size_value optarg =
     (if optarg \<noteq> [] \<and> last optarg = CHR ''k'' then (mc_atoi (butlast optarg), 1024)
      else if optarg \<noteq> [] \<and> (last optarg = CHR ''m'' \<or> last optarg = CHR ''M'') then (mc_atoi (butlast optarg), MB)
      else (mc_atoi optarg, 1))"

definition opt_memory :: "'d dbl \<Rightarrow> char \<Rightarrow> bytes \<Rightarrow> 'd opts \<Rightarrow> opt_error + 'd opts" where
  "opt_memory d c optarg o1 =
     (let v = mc_atoi optarg in
      if c = CHR ''M'' then
        (if v < 0 then Inl (Not_a_number c)
         else if v \<ge> EVICT_INVALID \<or> v < EVICT_NONE then Inl (Out_of_range c)
         else
           (let o1 = upd_set (\<lambda>st. st\<lparr>evict_opt := word_of_int v\<rparr>) o1 in
            if v = sint EVICT_CS then Inr (upd_set (\<lambda>st. st\<lparr>use_freeq := False, use_lruq := False\<rparr>) o1) else Inr o1))
      else if c = CHR ''f'' then
        (let f = d_strtod d optarg in
         if \<not> d_above_one d f then Inl (Out_of_range c) else Inr (upd_conf (\<lambda>st. st\<lparr>st_factor := f\<rparr>) o1))
      else if c = CHR ''m'' then
        (if v \<le> 0 then Inl (Not_a_number c) else Inr (upd_set (\<lambda>st. st\<lparr>maxbytes := nat v * 1024 * 1024\<rparr>) o1))
      else if c = CHR ''n'' then
        (if v \<le> 0 then Inl (Not_a_number c)
         else if nat v < ITEM_MIN_CHUNK_SIZE then Inl (Out_of_range c)
         else if nat v mod MC_ALIGNMENT \<noteq> 0 then Inl (Not_aligned c)
         else Inr (upd_set (\<lambda>st. st\<lparr>chunk_size := nat v\<rparr>) o1))
      else if c = CHR ''I'' then
        (let (v, factor) = slab_size_value optarg; sz = nat v * factor in
         if v \<le> 0 then Inl (Not_a_number c)
         else if nat v mod MC_ALIGNMENT \<noteq> 0 then Inl (Not_aligned c)
         else if sz < SLAB_MIN_SIZE then Inl (Out_of_range c)
         else if sz > SLAB_MAX_SIZE then Inl (Out_of_range c)
         else Inr (upd_set (\<lambda>st. st\<lparr>slab_size_opt := sz\<rparr>) o1))
      else if c = CHR ''z'' then Inr (o1\<lparr>op_profile := Some optarg\<rparr>)
      else Inl (Bad_option c))"

text \<open>The cases on the process and the network.\<close>

definition opt_network :: "'d dbl \<Rightarrow> char \<Rightarrow> bytes \<Rightarrow> 'd opts \<Rightarrow> opt_error + 'd opts" where
  "opt_network d c optarg o1 =
     (let v = mc_atoi optarg in
      if c = CHR ''t'' then
        (if v \<le> 0 then Inl (Not_a_number c) else Inr (upd_conf (\<lambda>st. st\<lparr>st_num_workers := v\<rparr>) o1))
      else if c = CHR ''P'' then Inr (o1\<lparr>op_pid_filename := Some optarg\<rparr>)
      else if c = CHR ''u'' then Inr (upd_conf (\<lambda>st. st\<lparr>st_username := Some optarg\<rparr>) o1)
      else if c = CHR ''R'' then
        (if v \<le> 0 then Inl (Not_a_number c) else Inr (upd_conf (\<lambda>st. st\<lparr>st_reqs_per_event := v\<rparr>) o1))
      else if c = CHR ''c'' then
        (if v \<le> 0 then Inl (Not_a_number c) else Inr (upd_conf (\<lambda>st. st\<lparr>st_maxconns := v\<rparr>) o1))
      else if c = CHR ''b'' then
        (if v \<le> 0 then Inl (Not_a_number c) else Inr (upd_conf (\<lambda>st. st\<lparr>st_backlog := v\<rparr>) o1))
      else if c = CHR ''p'' then
        (if v \<le> 0 then Inl (Not_a_number c) else Inr ((upd_conf (\<lambda>st. st\<lparr>st_port := v\<rparr>) o1)\<lparr>op_tcp := True\<rparr>))
      else if c = CHR ''U'' then
        (if v \<le> 0 then Inl (Not_a_number c) else Inr ((upd_conf (\<lambda>st. st\<lparr>st_udpport := v\<rparr>) o1)\<lparr>op_udp := True\<rparr>))
      else if c = CHR ''l'' then Inr (upd_conf (\<lambda>st. st\<lparr>st_interface := Some optarg\<rparr>) o1)
      else if c = CHR ''s'' then Inr (upd_conf (\<lambda>st. st\<lparr>st_socketpath := Some optarg\<rparr>) o1)
      else if c = CHR ''a'' then
        (case mc_str2oct optarg of
           None \<Rightarrow> Inl (Not_a_number c)
         | Some w \<Rightarrow> Inr (upd_conf (\<lambda>st. st\<lparr>st_access := unat w\<rparr>) o1))
      else opt_memory d c optarg o1)"

text \<open>The cases on logging and on hotkey detection; \<open>al\<close> tells whether an allocation of a number of bytes succeeds.\<close>

definition opt_logging :: "(nat \<Rightarrow> bool) \<Rightarrow> 'd dbl \<Rightarrow> char \<Rightarrow> bytes \<Rightarrow> 'd opts \<Rightarrow> opt_error + 'd opts" where
  "opt_logging al d c optarg o1 =
     (let v = mc_atoi optarg in
      if c = CHR ''o'' then Inr (upd_conf (\<lambda>st. st\<lparr>st_log_filename := Some optarg\<rparr>) o1)
      else if c = CHR ''v'' then (if v < 0 then Inl (Not_a_number c) else Inr (o1\<lparr>op_verbose := v\<rparr>))
      else if c = CHR ''A'' then
        (if v \<le> 0 then Inl (Not_a_number c)
         else if v < MC_STATS_MIN_INTVL then Inl (Out_of_range c)
         else if v > MC_STATS_MAX_INTVL then Inl (Out_of_range c)
         else Inr (o1\<lparr>op_stats_intvl := v\<rparr>))
      else if c = CHR ''e'' then
        (if v \<le> 0 then Inl (Not_a_number c)
         else if v > MC_HASH_MAX_POWER then Inl (Out_of_range c)
         else Inr (upd_set (\<lambda>st. st\<lparr>hash_power_opt := nat v\<rparr>) o1))
      else if c = CHR ''x'' then (if v \<le> 0 then Inl (Not_a_number c) else Inr (o1\<lparr>op_klog_entry := v\<rparr>))
      else if c = CHR ''X'' then
        (let o1 = upd_conf (\<lambda>st. st\<lparr>st_klog_name := Some optarg\<rparr>) o1 in
         if \<not> al (length optarg + length MC_KLOG_BACKUP_SUF + 1) then Inl (No_memory c)
         else Inr (o1\<lparr>op_klog_backup := Some (optarg @ MC_KLOG_BACKUP_SUF), op_klog_running := True\<rparr>))
      else if c = CHR ''y'' then (if v \<le> 0 then Inl (Not_a_number c) else Inr (o1\<lparr>op_klog_sampling := v\<rparr>))
      else if c = CHR ''q'' then (if v < 0 then Inl (Not_a_number c) else Inr (o1\<lparr>op_hotkey_redline := word_of_int v\<rparr>))
      else if c = CHR ''Y'' then (if v \<le> 0 then Inl (Not_a_number c) else Inr (o1\<lparr>op_hotkey_sample := word_of_int v\<rparr>))
      else if c = CHR ''T'' then
        (let f = d_strtod d optarg in
         if \<not> d_fraction d f then Inl (Out_of_range c) else Inr (o1\<lparr>op_hotkey_qps := f\<rparr>))
      else if c = CHR ''j'' then (if v \<le> 0 then Inl (Not_a_number c) else Inr (o1\<lparr>op_hotkey_bw := word_of_int v\<rparr>))
      else opt_network d c optarg o1)"

text \<open>
  The cases without an argument. \<^verbatim>\<open>mc_enable_large_pages\<close> returns 0 in a build without \<^verbatim>\<open>MC_LARGE_PAGES\<close>, the only one
  there is outside Solaris.
\<close>

definition mc_enable_large_pages :: int where "mc_enable_large_pages = 0"

definition mc_option :: "(nat \<Rightarrow> bool) \<Rightarrow> 'd dbl \<Rightarrow> char \<Rightarrow> bytes \<Rightarrow> 'd opts \<Rightarrow> opt_error + 'd opts" where
  "mc_option al d c optarg o1 =
     (if c = CHR ''h'' then Inr (o1\<lparr>op_show_version := True, op_show_help := True\<rparr>)
      else if c = CHR ''V'' then Inr (o1\<lparr>op_show_version := True\<rparr>)
      else if c = CHR ''E'' then Inr (upd_set (\<lambda>st. st\<lparr>prealloc := True\<rparr>) o1)
      else if c = CHR ''L'' then
        Inr (if mc_enable_large_pages = 0 then upd_set (\<lambda>st. st\<lparr>prealloc := True\<rparr>) o1 else o1)
      else if c = CHR ''k'' then
        Inr (upd_set (\<lambda>st. st\<lparr>prealloc := True\<rparr>) (upd_conf (\<lambda>st. st\<lparr>st_lock_page := True\<rparr>) o1))
      else if c = CHR ''d'' then Inr (upd_conf (\<lambda>st. st\<lparr>st_daemonize := True\<rparr>) o1)
      else if c = CHR ''r'' then Inr (upd_conf (\<lambda>st. st\<lparr>st_max_corefile := True\<rparr>) o1)
      else if c = CHR ''C'' then Inr (upd_set (\<lambda>st. st\<lparr>use_cas := False\<rparr>) o1)
      else if c = CHR ''D'' then Inr (o1\<lparr>op_show_stats := True, op_show_version := True\<rparr>)
      else if c = CHR ''S'' then Inr (o1\<lparr>op_show_sizes := True, op_show_version := True\<rparr>)
      else if c = CHR ''H'' then Inr (o1\<lparr>op_hotkey_enable := True\<rparr>)
      else opt_logging al d c optarg o1)"

text \<open>The loop over the options, and the port that was not given takes the value of the one that was.\<close>

fun options_loop :: "(nat \<Rightarrow> bool) \<Rightarrow> 'd dbl \<Rightarrow> getopt_result list \<Rightarrow> 'd opts \<Rightarrow> opt_error + 'd opts" where
  "options_loop al d [] o1 = Inr o1"
| "options_loop al d (Question optopt # rs) o1 = Inl (opt_question optopt)"
| "options_loop al d (Opt c optarg # rs) o1 =
     (case mc_option al d c optarg o1 of
        Inl err \<Rightarrow> Inl err
      | Inr o1 \<Rightarrow> options_loop al d rs o1)"

definition settle_ports :: "'d opts \<Rightarrow> 'd opts" where
  "settle_ports o1 =
     (if op_tcp o1 \<and> \<not> op_udp o1 then upd_conf (\<lambda>st. st\<lparr>st_udpport := st_port st\<rparr>) o1
      else if op_udp o1 \<and> \<not> op_tcp o1 then upd_conf (\<lambda>st. st\<lparr>st_port := st_udpport st\<rparr>) o1
      else o1)"

definition mc_get_options :: "(nat \<Rightarrow> bool) \<Rightarrow> 'd dbl \<Rightarrow> getopt_result list \<Rightarrow> 'd opts \<Rightarrow> opt_error + 'd opts" where
  "mc_get_options al d rs o1 =
     (case options_loop al d rs (o1\<lparr>op_tcp := False, op_udp := False\<rparr>) of
        Inl err \<Rightarrow> Inl err
      | Inr o1 \<Rightarrow> Inr (settle_ports o1))"

section \<open>What the value parsers accept\<close>

lemma atoi_loop_digits:
  "atoi_loop (of_nat n) cs
     = (if list_all isdigit cs then Some (of_nat (foldl (\<lambda>v c. v * 10 + digit_val c) n cs)) else None)"
proof (induction cs arbitrary: n)
  case (Cons c cs)
  have "of_nat n * 10 + of_nat (digit_val c) = (of_nat (n * 10 + digit_val c) :: u32)" by simp
  then show ?case using Cons.IH [of "n * 10 + digit_val c"] by (simp del: of_nat_add of_nat_mult)
qed simp

text \<open>A value is the number its digits denote, as long as it fits 31 bits; what is not a string of digits is never a value.\<close>

lemma mc_atoi_exact:
  assumes "ds \<noteq> []" and "list_all isdigit ds" and "dec_val ds < 2 ^ 31"
  shows "mc_atoi ds = int (dec_val ds)"
proof -
  have "atoi_loop 0 ds = Some (of_nat (dec_val ds))" using assms(2) atoi_loop_digits [of 0 ds] by (simp add: dec_val_def)
  moreover have "sint (of_nat (dec_val ds) :: u32) = int (dec_val ds)"
    using assms(3) by (simp add: signed_of_nat signed_take_bit_int_eq_self)
  ultimately show ?thesis using assms(1) by (simp add: mc_atoi_def)
qed

lemma mc_atoi_refuses: "ds = [] \<or> \<not> list_all isdigit ds \<Longrightarrow> mc_atoi ds = - 1"
  using atoi_loop_digits [of 0 ds] by (auto simp: mc_atoi_def)

lemma mc_atoi_range: "- 1 \<le> mc_atoi ds" "mc_atoi ds < 2 ^ 31"
  using sint_lt [where ?'a = 32] by (auto simp: mc_atoi_def split: option.splits)

lemma mc_atoi_print: "n < 2 ^ 31 \<Longrightarrow> mc_atoi (print_dec n) = int n"
  using mc_atoi_exact [of "print_dec n"] print_dec_digits [of n] by (simp add: dec_val_print_dec list_all_iff)

section \<open>The tables and the switch agree\<close>

definition handled :: "char \<Rightarrow> bool" where
  "handled c \<longleftrightarrow> c \<in> fst ` set (short_table short_options) \<and> c \<noteq> CHR ''B''"

lemma long_in_short: "list_all (\<lambda>(name, arg, c). (c, arg) \<in> set (short_table short_options) \<and> handled c) long_options"
  unfolding handled_def by code_simp

lemma handled_iff:
  "handled c \<longleftrightarrow> c \<in> set ''hVELkdrCDSHovAexXyqYTjtPuRcbpUlsaMfmnIz''"
proof -
  have "set (filter (\<lambda>c. c \<noteq> CHR ''B'') (map fst (short_table short_options))) = set ''hVELkdrCDSHovAexXyqYTjtPuRcbpUlsaMfmnIz''"
    by code_simp
  from this [symmetric] show ?thesis by (auto simp only: handled_def set_filter set_map)
qed

lemma if_False: "(if P then False else Q) = (\<not> P \<and> Q)"
  by simp

lemma if_Bad: "((if P then x else y) = Inl (Bad_option e)) = (if P then x = Inl (Bad_option e) else y = Inl (Bad_option e))"
  by simp

lemmas switch_simps = Let_def if_Bad if_False conj_assoc

lemma opt_memory_Bad:
  "opt_memory d c a o1 = Inl (Bad_option e) \<longleftrightarrow> c \<notin> set ''MfmnIz'' \<and> c = e"
  by (cases "slab_size_value a") (simp add: opt_memory_def switch_simps split del: if_split cong del: if_weak_cong)

lemma opt_network_Bad:
  "opt_network d c a o1 = Inl (Bad_option e) \<longleftrightarrow> c \<notin> set ''tPuRcbpUlsaMfmnIz'' \<and> c = e"
  by (cases "mc_str2oct a")
    (simp_all add: opt_network_def switch_simps opt_memory_Bad split del: if_split cong del: if_weak_cong)

lemma opt_logging_Bad:
  "opt_logging al d c a o1 = Inl (Bad_option e) \<longleftrightarrow> c \<notin> set ''ovAexXyqYTjtPuRcbpUlsaMfmnIz'' \<and> c = e"
  by (simp add: opt_logging_def switch_simps opt_network_Bad split del: if_split cong del: if_weak_cong)

lemma mc_option_Bad:
  "mc_option al d c a o1 = Inl (Bad_option e) \<longleftrightarrow> \<not> handled c \<and> c = e"
  by (simp add: mc_option_def switch_simps opt_logging_Bad handled_iff split del: if_split cong del: if_weak_cong)

section \<open>Accepted options are well-formed\<close>

definition opts_ok :: "'d dbl \<Rightarrow> 'd opts \<Rightarrow> bool" where
  "opts_ok d o1 \<longleftrightarrow>
     (let g = op_set o1; st = op_conf o1 in
      ITEM_MIN_CHUNK_SIZE \<le> chunk_size g \<and> chunk_size g mod MC_ALIGNMENT = 0
      \<and> SLAB_MIN_SIZE \<le> slab_size_opt g \<and> slab_size_opt g \<le> SLAB_MAX_SIZE
      \<and> MB \<le> maxbytes g \<and> maxbytes g < 2 ^ 51 \<and> hash_power_opt g \<le> 32 \<and> evict_opt g < 16
      \<and> 0 < st_num_workers st \<and> 0 < st_reqs_per_event st \<and> 0 < st_maxconns st \<and> 0 < st_backlog st
      \<and> 0 < st_port st \<and> 0 < st_udpport st
      \<and> 10000 \<le> op_stats_intvl o1 \<and> op_stats_intvl o1 \<le> 60000000
      \<and> 0 \<le> op_verbose o1 \<and> 0 < op_klog_entry o1 \<and> 0 < op_klog_sampling o1
      \<and> op_hotkey_sample o1 \<noteq> 0 \<and> op_hotkey_bw o1 \<noteq> 0
      \<and> op_klog_running o1 = (st_klog_name st \<noteq> None)
      \<and> op_klog_backup o1 = map_option (\<lambda>n. n @ ''.old'') (st_klog_name st)
      \<and> d_above_one d (st_factor st) \<and> d_fraction d (op_hotkey_qps o1))"

lemmas opts_defs = opts_ok_def upd_set_def upd_conf_def Let_def

lemma word_value_not_0:
  assumes "0 < mc_atoi ds" shows "(word_of_int (mc_atoi ds) :: u64) \<noteq> 0"
proof
  assume "(word_of_int (mc_atoi ds) :: u64) = 0"
  then have "uint (word_of_int (mc_atoi ds) :: u64) = 0" by simp
  then show False using assms mc_atoi_range(2) [of ds] by (simp add: uint_word_of_int)
qed

lemma nat_value: "\<not> v \<le> 0 \<Longrightarrow> Suc 0 \<le> nat v" "v < 2147483648 \<Longrightarrow> nat v < 2147483648"
  by auto

lemma evict_value: "0 \<le> v \<Longrightarrow> v < 16 \<Longrightarrow> (word_of_int v :: u32) < 16"
  by (simp add: word_less_def uint_word_of_int)

lemma default_options_ok:
  assumes "d_above_one d (d_MC_FACTOR d)" and "d_fraction d (d_HOTKEY_QPS_THRESHOLD d)"
  shows "opts_ok d (mc_set_default_options d)"
  using assms
  by (simp add: opts_defs mc_set_default_options_def ITEM_CHUNK_SIZE_def ITEM_MIN_CHUNK_SIZE_def MC_ALIGN_def MC_ALIGNMENT_def
      ITEM_HDR_SIZE_def SLAB_MIN_SIZE_def SLAB_MAX_SIZE_def MB_def EVICT_RS_def)

text \<open>What the result of a case keeps; which case of the switch it is does not matter for that.\<close>

definition result_ok :: "('d opts \<Rightarrow> bool) \<Rightarrow> opt_error + 'd opts \<Rightarrow> bool" where
  "result_ok Q r \<longleftrightarrow> (case r of Inl _ \<Rightarrow> True | Inr o2 \<Rightarrow> Q o2)"

lemma result_Inl: "result_ok Q (Inl err)"
  and result_Inr: "Q o2 \<Longrightarrow> result_ok Q (Inr o2)"
  and result_switch: "result_ok Q x \<Longrightarrow> result_ok Q y \<Longrightarrow> result_ok Q (if c = (k :: char) then x else y)"
  and result_if: "(P \<Longrightarrow> result_ok Q x) \<Longrightarrow> (\<not> P \<Longrightarrow> result_ok Q y) \<Longrightarrow> result_ok Q (if P then x else y)"
  and result_option: "result_ok Q x \<Longrightarrow> (\<And>w. result_ok Q (f w)) \<Longrightarrow> result_ok Q (case r of None \<Rightarrow> x | Some w \<Rightarrow> f w)"
  by (simp_all add: result_ok_def split: option.split)

lemma opt_memory_result: "opts_ok d o1 \<Longrightarrow> result_ok (opts_ok d) (opt_memory d c a o1)"
  using mc_atoi_range(2) [of a] unfolding opt_memory_def Let_def
  by (cases "slab_size_value a", simp only: prod.case)
    ((rule result_switch | rule result_if | rule result_Inl
      | (rule result_Inr, simp add: opts_defs evict_value EVICT_INVALID_def MB_def EVICT_CS_def nat_value))+)

lemma opt_network_result: "opts_ok d o1 \<Longrightarrow> result_ok (opts_ok d) (opt_network d c a o1)"
  unfolding opt_network_def Let_def
  by (rule result_switch | rule result_if | rule result_option | rule result_Inl | (rule result_Inr, simp add: opts_defs)
      | (rule opt_memory_result, assumption))+

lemma opt_logging_result: "opts_ok d o1 \<Longrightarrow> result_ok (opts_ok d) (opt_logging al d c a o1)"
  unfolding opt_logging_def Let_def
  by (rule result_switch | rule result_if | rule result_Inl | (rule opt_network_result, assumption)
      | (rule result_Inr, simp add: opts_defs word_value_not_0 MC_STATS_MIN_INTVL_def MC_STATS_MAX_INTVL_def MC_HASH_MAX_POWER_def
          MC_KLOG_BACKUP_SUF_def))+

lemma mc_option_result: "opts_ok d o1 \<Longrightarrow> result_ok (opts_ok d) (mc_option al d c a o1)"
  unfolding mc_option_def
  by (rule result_switch | (rule result_Inr, simp add: opts_defs) | (rule opt_logging_result, assumption))+

lemma mc_option_ok: "opts_ok d o1 \<Longrightarrow> mc_option al d c a o1 = Inr o2 \<Longrightarrow> opts_ok d o2"
  using mc_option_result [of d o1 al c a] by (simp add: result_ok_def)

text \<open>A port that was not given still has its default.\<close>

definition ports_default :: "'d opts \<Rightarrow> bool" where
  "ports_default o1 \<longleftrightarrow> (op_tcp o1 \<or> st_port (op_conf o1) = 11211) \<and> (op_udp o1 \<or> st_udpport (op_conf o1) = 11211)"

lemma mc_option_ports: "ports_default o1 \<Longrightarrow> mc_option al d c a o1 = Inr o2 \<Longrightarrow> ports_default o2"
proof -
  assume "ports_default o1"
  then have "result_ok ports_default (mc_option al d c a o1)"
    unfolding mc_option_def opt_logging_def opt_network_def opt_memory_def Let_def
    by (cases "slab_size_value a", simp only: prod.case)
      ((rule result_switch | rule result_if | rule result_option | rule result_Inl
        | (rule result_Inr, simp add: ports_default_def upd_set_def upd_conf_def))+)
  then show "mc_option al d c a o1 = Inr o2 \<Longrightarrow> ports_default o2" by (simp add: result_ok_def)
qed

lemma options_loop_ports: "options_loop al d rs o1 = Inr o2 \<Longrightarrow> ports_default o1 \<Longrightarrow> ports_default o2"
proof (induction al d rs o1 rule: options_loop.induct)
  case (3 al d c a rs o1)
  then show ?case by (auto split: sum.splits dest: mc_option_ports)
qed auto

lemma options_loop_handled:
  "options_loop al d rs o1 = Inr o2 \<Longrightarrow> r \<in> set rs \<Longrightarrow> \<exists>c a. r = Opt c a \<and> handled c"
proof (induction al d rs o1 rule: options_loop.induct)
  case (3 al d c a rs o1)
  then obtain o3 where o3: "mc_option al d c a o1 = Inr o3" "options_loop al d rs o3 = Inr o2" by (auto split: sum.splits)
  have "handled c" using mc_option_Bad [of al d c a o1 c] o3(1) by auto
  then show ?case using "3.IH" [OF o3] "3.prems"(2) by auto
qed auto

lemma options_loop_ok: "options_loop al d rs o1 = Inr o2 \<Longrightarrow> opts_ok d o1 \<Longrightarrow> opts_ok d o2"
proof (induction al d rs o1 rule: options_loop.induct)
  case (3 al d c a rs o1)
  then show ?case by (auto split: sum.splits dest: mc_option_ok)
qed auto

lemma mc_get_options_ok:
  assumes "mc_get_options al d rs o1 = Inr o2" and "opts_ok d o1"
  shows "opts_ok d o2"
proof -
  obtain o3 where l: "options_loop al d rs (o1\<lparr>op_tcp := False, op_udp := False\<rparr>) = Inr o3" and e: "o2 = settle_ports o3"
    using assms(1) by (auto simp: mc_get_options_def split: sum.splits)
  have "opts_ok d (o1\<lparr>op_tcp := False, op_udp := False\<rparr>)" using assms(2) by (simp add: opts_ok_def)
  from options_loop_ok [OF l this] show ?thesis by (auto simp: e settle_ports_def opts_defs)
qed

lemma mc_get_options_ports:
  assumes "mc_get_options al d rs (mc_set_default_options d) = Inr o1"
  shows "op_tcp o1 \<and> op_udp o1 \<or> st_udpport (op_conf o1) = st_port (op_conf o1)"
proof -
  let ?o = "mc_set_default_options d\<lparr>op_tcp := False, op_udp := False\<rparr>"
  obtain o3 where l: "options_loop al d rs ?o = Inr o3" and e: "o1 = settle_ports o3"
    using assms by (auto simp: mc_get_options_def split: sum.splits)
  have "ports_default ?o" by (simp add: ports_default_def mc_set_default_options_def)
  from options_loop_ports [OF l this] show ?thesis by (auto simp: e settle_ports_def ports_default_def upd_conf_def)
qed

lemma mc_get_options_handled:
  "mc_get_options al d rs o1 = Inr o2 \<Longrightarrow> r \<in> set rs \<Longrightarrow> \<exists>c a. r = Opt c a \<and> handled c"
  by (auto simp: mc_get_options_def split: sum.splits dest: options_loop_handled)

text \<open>The profile of accepted options is good even when the smallest chunk asked for is larger than a slab.\<close>

lemma opts_profile_ok:
  assumes "opts_ok d o1" and "mc_set_profile (op_profile o1) (d_mul d (st_factor (op_conf o1))) (op_set o1) = Some st"
    and "\<And>x. x < SLAB_MAX_SIZE \<Longrightarrow> x \<le> d_mul d (st_factor (op_conf o1)) x"
  shows "profile_ok st \<and> slab_size_opt st \<le> 2 ^ 27"
proof
  have o: "ITEM_MIN_CHUNK_SIZE \<le> chunk_size (op_set o1)" "SLAB_MIN_SIZE \<le> slab_size_opt (op_set o1)"
    "slab_size_opt (op_set o1) \<le> SLAB_MAX_SIZE"
    using assms(1) by (simp_all add: opts_ok_def Let_def)
  then show "slab_size_opt st \<le> 2 ^ 27"
    using mc_set_profile_slab_size [OF assms(2)] by (simp add: SLAB_MAX_SIZE_def MB_def)
  show "profile_ok st"
    by (rule mc_set_profile_ok [OF assms(2)])
      (use o assms(3) in \<open>auto simp: slab_size_def SLAB_HDR_SIZE_def SLAB_MIN_SIZE_def ITEM_MIN_CHUNK_SIZE_def MC_ALIGN_def
        MC_ALIGNMENT_def ITEM_HDR_SIZE_def\<close>)
qed

end
