(* ===== verification/McPrint.thy ===== *)
theory McPrint
  imports McKlog
begin

text \<open>
  Printing into bounded buffers (\<^verbatim>\<open>mc_util.c\<close>): the formatter \<^verbatim>\<open>_safe_vsnprintf\<close>, which signal handlers use and which does all its
  work itself, and \<^verbatim>\<open>_vscnprintf\<close> over the one of the C library. The destination is a list of bytes that a write changes at one index;
  \<open>None\<close> stands for what C leaves undefined: a write outside the buffer, a read behind the end of the format or outside the table of digits, and an
  argument that is missing or of another type. The main result is that the formatter never writes outside its buffer and stores the text the
  format denotes, cut to the room there is.
\<close>

section \<open>Digits\<close>

definition HEX :: bytes where "HEX = ''0123456789abcdef''"

text \<open>The digit loop writes backwards; \<open>acc\<close> is what it has written so far, up to the terminating NUL.\<close>

function utoa_loop :: "nat \<Rightarrow> nat \<Rightarrow> bytes \<Rightarrow> bytes" where
  "utoa_loop base val acc =
     (let acc = (HEX ! (val mod base)) # acc in
      if base < 2 \<or> val div base = 0 then acc else utoa_loop base (val div base) acc)"
  by pat_completeness auto
termination
  by (relation "measure (\<lambda>(base, val, acc). val)") (auto simp: div_greater_zero_iff)

declare utoa_loop.simps [simp del]

definition safe_utoa :: "nat \<Rightarrow> u64 \<Rightarrow> bytes" where
  "safe_utoa base val = utoa_loop base (unat val) []"

text \<open>The switch that complements the digits of a negative number in base 16.\<close>

definition hex_complement :: "char \<Rightarrow> char" where
  "hex_complement c =
     (case map_of (zip HEX (rev HEX)) c of
        None \<Rightarrow> c
      | Some d \<Rightarrow> d)"

text \<open>
  A negative value is negated, which leaves the least one as it is; its remainder is then negative and no index of the digits, but in
  base 16 one is subtracted first.
\<close>

definition safe_itoa :: "nat \<Rightarrow> u64 \<Rightarrow> bytes option" where
  "safe_itoa base val =
     (let is_neg = sint val < 0;
          v = (if is_neg then - val else val);
          v = (if is_neg \<and> base = 16 then v - 1 else v)
      in if sint v < 0 then None
         else
           (let ds = utoa_loop base (unat v) [] in
            Some (if is_neg \<and> base = 10 then CHR ''-'' # ds
                  else if is_neg \<and> base = 16 then map hex_complement (replicate (16 - length ds) CHR ''0'' @ ds)
                  else ds)))"

section \<open>The formatter\<close>

datatype va = Int_arg u32 | Long_arg u64 | Str_arg "bytes option"

fun safe_check_longlong :: "bytes \<Rightarrow> bytes \<times> bool" where
  "safe_check_longlong [] = ([], False)"
| "safe_check_longlong (c # fmt) =
     (if c = CHR ''l'' then
        (case fmt of
           [] \<Rightarrow> ([], True)
         | d # fmt' \<Rightarrow> if d \<noteq> CHR ''l'' then (fmt, True) else (fmt', True))
      else (c # fmt, False))"

text \<open>The conversion of a number: \<open>c\<close> is the conversion character, of \<^verbatim>\<open>d i u x p\<close>.\<close>

definition convert :: "char \<Rightarrow> bool \<Rightarrow> va \<Rightarrow> bytes option" where
  "convert c have_longlong a =
     (let have_longlong = (c = CHR ''p'' \<or> have_longlong);
          base = (if c = CHR ''x'' \<or> c = CHR ''p'' then 16 else 10)
      in case a of
           Str_arg s \<Rightarrow> None
         | Int_arg w \<Rightarrow>
             if have_longlong then None
             else if c = CHR ''u'' then Some (safe_utoa base (ucast w))
             else
               (case safe_itoa base (scast w) of
                  None \<Rightarrow> None
                | Some val_as_str \<Rightarrow>
                    Some (if c = CHR ''x'' \<and> sint w < 0 then drop 8 val_as_str else val_as_str))
         | Long_arg w \<Rightarrow>
             if \<not> have_longlong then None
             else if c = CHR ''u'' then Some (safe_utoa base w)
             else safe_itoa base w)"

definition put :: "bytes \<Rightarrow> nat \<Rightarrow> char \<Rightarrow> bytes option" where
  "put b i c = (if i < length b then Some (b[i := c]) else None)"

text \<open>The loops \<^verbatim>\<open>while (*val && to < end) *to++ = *val++\<close>.\<close>

fun put_while :: "int \<Rightarrow> bytes \<Rightarrow> nat \<Rightarrow> bytes \<Rightarrow> (bytes \<times> nat) option" where
  "put_while e b i [] = Some (b, i)"
| "put_while e b i (c # cs) =
     (if int i < e then
        (case put b i c of
           None \<Rightarrow> None
         | Some b \<Rightarrow> put_while e b (i + 1) cs)
      else Some (b, i))"

definition is_number :: "char \<Rightarrow> bool" where
  "is_number c \<longleftrightarrow> c \<in> set ''diuxp''"

text \<open>What a conversion prints, and the arguments it leaves.\<close>

definition conversion :: "char \<Rightarrow> bool \<Rightarrow> va list \<Rightarrow> (bytes \<times> va list) option" where
  "conversion c ll ap =
     (if is_number c then
        (case ap of
           [] \<Rightarrow> None
         | a # ap \<Rightarrow> (case convert c ll a of None \<Rightarrow> None | Some t \<Rightarrow> Some (t, ap)))
      else if c = CHR ''s'' then
        (case ap of
           Str_arg v # ap \<Rightarrow> Some (case v of None \<Rightarrow> ''(null)'' | Some s \<Rightarrow> s, ap)
         | _ \<Rightarrow> None)
      else Some ([], ap))"

lemma safe_check_longlong_length: "length (fst (safe_check_longlong fmt)) \<le> length fmt"
  by (induction fmt rule: safe_check_longlong.induct) (auto split: list.splits)

text \<open>
  The loop over the format, at index \<open>i\<close> of the destination \<open>b\<close>; \<open>e\<close> is \<^verbatim>\<open>end\<close>. A conversion character that is not known
  prints nothing and takes no argument.
\<close>

function safe_loop :: "int \<Rightarrow> bytes \<Rightarrow> nat \<Rightarrow> bytes \<Rightarrow> va list \<Rightarrow> (bytes \<times> nat) option" where
  "safe_loop e b i [] ap = Some (b, i)"
| "safe_loop e b i (c # fmt) ap =
     (if c \<noteq> CHR ''%'' then
        (if int i = e then Some (b, i)
         else
           (case put b i c of
              None \<Rightarrow> None
            | Some b \<Rightarrow> safe_loop e b (i + 1) fmt ap))
      else
        (case safe_check_longlong fmt of
           ([], _) \<Rightarrow> None
         | (d # fmt', ll) \<Rightarrow>
             (case conversion d ll ap of
                None \<Rightarrow> None
              | Some (t, ap) \<Rightarrow>
                  (case put_while e b i t of
                     None \<Rightarrow> None
                   | Some (b, i) \<Rightarrow> safe_loop e b i fmt' ap))))"
  by pat_completeness auto
termination
proof (relation "measure (\<lambda>(e, b, i, fmt, ap). length fmt)", goal_cases)
  case (3 e b i c fmt ap x y d fmt' ll)
  then have "safe_check_longlong fmt = (d # fmt', y)" by simp
  then show ?case using safe_check_longlong_length [of fmt] by simp
qed auto

definition safe_vsnprintf :: "bytes \<Rightarrow> nat \<Rightarrow> bytes \<Rightarrow> va list \<Rightarrow> (bytes \<times> nat) option" where
  "safe_vsnprintf b sz fmt ap =
     (case safe_loop (int sz - 1) b 0 fmt ap of
        None \<Rightarrow> None
      | Some (b, i) \<Rightarrow> (case put b i (CHR 0x00) of None \<Rightarrow> None | Some b \<Rightarrow> Some (b, i)))"

section \<open>What the digits mean\<close>

text \<open>Reference definitions: the digits of a number in a base, and its last \<open>k\<close> digits in base 16.\<close>

fun print_base :: "nat \<Rightarrow> nat \<Rightarrow> bytes" where
  "print_base base n = (if base < 2 \<or> n < base then [HEX ! (n mod base)] else print_base base (n div base) @ [HEX ! (n mod base)])"

declare print_base.simps [simp del]

primrec hexpad :: "nat \<Rightarrow> nat \<Rightarrow> bytes" where
  "hexpad 0 n = []"
| "hexpad (Suc k) n = hexpad k (n div 16) @ [HEX ! (n mod 16)]"

lemma utoa_loop_eq: "utoa_loop base n acc = print_base base n @ acc"
proof (induction base n acc rule: utoa_loop.induct)
  case (1 base n acc)
  show ?case
  proof (cases "base < 2 \<or> n div base = 0")
    case True
    then have "base < 2 \<or> n < base" by (auto simp: div_eq_0_iff)
    then show ?thesis using True by (simp add: utoa_loop.simps [of base n] print_base.simps [of base n] Let_def)
  next
    case False
    then have "\<not> (base < 2 \<or> n < base)" by (auto simp: div_eq_0_iff)
    then show ?thesis
      using False "1.IH" [OF refl False] by (simp add: utoa_loop.simps [of base n] print_base.simps [of base n] Let_def)
  qed
qed

lemma HEX_digit: "d < 10 \<Longrightarrow> HEX ! d = char_of (48 + d)"
proof -
  have "\<forall>d \<in> {..<10}. HEX ! d = char_of (48 + d)" by code_simp
  then show "d < 10 \<Longrightarrow> HEX ! d = char_of (48 + d)" by simp
qed

lemma print_base_10: "print_base 10 n = print_dec n"
proof (induction n rule: print_dec.induct)
  case (1 n)
  then show ?case by (simp add: print_base.simps [of 10 n] print_dec.simps [of n] HEX_digit)
qed

lemma length_print_base: "n < 16 ^ k \<Longrightarrow> 0 < k \<Longrightarrow> length (print_base 16 n) \<le> k"
proof (induction k arbitrary: n)
  case (Suc k)
  show ?case
  proof (cases "n < 16")
    case False
    then have "0 < k" using Suc.prems(1) by (cases k) auto
    moreover have "n div 16 < 16 ^ k" using Suc.prems(1) by (simp add: less_mult_imp_div_less)
    ultimately have "length (print_base 16 (n div 16)) \<le> k" by (intro Suc.IH)
    then show ?thesis using False by (simp add: print_base.simps [of 16 n])
  qed (simp add: print_base.simps [of 16 n])
qed simp

lemma hexpad_0: "hexpad k 0 = replicate k CHR ''0''"
  by (induction k) (simp_all add: HEX_def replicate_append_same)

text \<open>Padding the digits with zeros gives the last digits.\<close>

lemma hexpad_print_base:
  "n < 16 ^ k \<Longrightarrow> 0 < k \<Longrightarrow> replicate (k - length (print_base 16 n)) CHR ''0'' @ print_base 16 n = hexpad k n"
proof (induction k arbitrary: n)
  case (Suc k)
  show ?case
  proof (cases "n < 16")
    case True
    then show ?thesis by (simp add: print_base.simps [of 16 n] hexpad_0)
  next
    case False
    then have k: "0 < k" using Suc.prems(1) by (cases k) auto
    have "n div 16 < 16 ^ k" using Suc.prems(1) by (simp add: less_mult_imp_div_less)
    from Suc.IH [OF this k] show ?thesis using False by (simp add: print_base.simps [of 16 n])
  qed
qed simp

lemma hexpad_exact: "16 ^ k \<le> n \<Longrightarrow> n < 16 ^ Suc k \<Longrightarrow> hexpad (Suc k) n = print_base 16 n"
proof (induction k arbitrary: n)
  case (Suc k)
  have "16 ^ k \<le> n div 16" "n div 16 < 16 ^ Suc k"
    using Suc.prems by (simp_all add: less_mult_imp_div_less less_eq_div_iff_mult_less_eq mult.commute)
  moreover have "\<not> n < 16"
  proof -
    have "(1 :: nat) \<le> 16 ^ k" by simp
    then show ?thesis using Suc.prems(1) unfolding power_Suc by linarith
  qed
  ultimately show ?case using Suc.IH [of "n div 16"]
    by (subst hexpad.simps(2)) (simp add: print_base.simps [of 16 n] del: hexpad.simps)
qed (simp add: print_base.simps)

lemma length_hexpad: "length (hexpad k n) = k"
  by (induction k arbitrary: n) auto

lemma drop_hexpad: "drop j (hexpad (j + k) n) = hexpad k n"
  by (induction k arbitrary: n) (simp_all add: length_hexpad)

lemma hexpad_mod: "hexpad k (n mod 16 ^ k) = hexpad k n"
proof (induction k arbitrary: n)
  case (Suc k)
  have "n mod 16 ^ Suc k = 16 * (n div 16 mod 16 ^ k) + n mod 16" by (simp add: mod_mult2_eq)
  then show ?case using Suc.IH [of "n div 16"] by simp
qed simp

lemma hex_complement_digit: "d < 16 \<Longrightarrow> hex_complement (HEX ! d) = HEX ! (15 - d)"
proof -
  have "\<forall>d \<in> {..<16}. hex_complement (HEX ! d) = HEX ! (15 - d)" by code_simp
  then show "d < 16 \<Longrightarrow> hex_complement (HEX ! d) = HEX ! (15 - d)" by simp
qed

lemma complement_div_mod:
  fixes n m :: nat
  assumes "n < 16 * m"
  shows "(16 * m - 1 - n) div 16 = m - 1 - n div 16" "(16 * m - 1 - n) mod 16 = 15 - n mod 16"
proof -
  define q r where qr: "q = n div 16" "r = n mod 16"
  have n: "n = 16 * q + r" "r < 16" "q < m" using assms by (simp_all add: qr less_mult_imp_div_less)
  define s where "s = 15 - r"
  have "16 * m - 1 - n = 16 * (m - 1 - q) + s" "s < 16" using n by (simp_all add: s_def)
  then show "(16 * m - 1 - n) div 16 = m - 1 - n div 16" "(16 * m - 1 - n) mod 16 = 15 - n mod 16"
    by (simp_all add: qr [symmetric] s_def [symmetric])
qed

lemma hexpad_complement: "n < 16 ^ k \<Longrightarrow> map hex_complement (hexpad k n) = hexpad k (16 ^ k - 1 - n)"
proof (induction k arbitrary: n)
  case (Suc k)
  have "n div 16 < 16 ^ k" using Suc.prems by (simp add: less_mult_imp_div_less)
  moreover have "(16 ^ Suc k - 1 - n) div 16 = 16 ^ k - 1 - n div 16" "(16 ^ Suc k - 1 - n) mod 16 = 15 - n mod 16"
    using complement_div_mod [of n "16 ^ k"] Suc.prems by simp_all
  ultimately show ?case using Suc.IH [of "n div 16"] by (simp add: hex_complement_digit)
qed simp

section \<open>What a conversion prints\<close>

lemma safe_utoa_eq: "safe_utoa base w = print_base base (unat w)"
  by (simp add: safe_utoa_def utoa_loop_eq)

lemma wrap_value: "0 \<le> u \<Longrightarrow> u < 2 * m \<Longrightarrow> (u + m) mod (2 * m) - m = (if u < m then u else u - 2 * (m :: int))"
  using mod_pos_pos_trivial [of "u - m" "2 * m"] mod_add_self2 [of "u - m" "2 * m"] by (auto simp: algebra_simps)

lemma sint_cases:
  obtains "unat (w :: u64) < 2 ^ 63" "sint w = int (unat w)" | "2 ^ 63 \<le> unat w" "int (unat w) = sint w + 2 ^ 64"
proof -
  have u: "int (unat w) < 2 ^ 64" using unsigned_less [of w, where 'a = int] by simp
  have "sint w = (int (unat w) + 2 ^ 63) mod 2 ^ 64 - 2 ^ 63"
    by (simp add: sint_uint signed_take_bit_eq_take_bit_shift take_bit_eq_mod)
  also have "\<dots> = (if int (unat w) < 2 ^ 63 then int (unat w) else int (unat w) - 2 ^ 64)"
    using wrap_value [of "int (unat w)" "2 ^ 63"] u by simp
  finally show ?thesis using that by (cases "unat w < 2 ^ 63") (simp_all del: of_nat_unat)
qed

lemma sint_cases_32:
  obtains "unat (w :: u32) < 2 ^ 31" "sint w = int (unat w)" | "2 ^ 31 \<le> unat w" "int (unat w) = sint w + 2 ^ 32"
proof -
  have u: "int (unat w) < 2 ^ 32" using unsigned_less [of w, where 'a = int] by simp
  have "sint w = (int (unat w) + 2 ^ 31) mod 2 ^ 32 - 2 ^ 31"
    by (simp add: sint_uint signed_take_bit_eq_take_bit_shift take_bit_eq_mod)
  also have "\<dots> = (if int (unat w) < 2 ^ 31 then int (unat w) else int (unat w) - 2 ^ 32)"
    using wrap_value [of "int (unat w)" "2 ^ 31"] u by simp
  finally show ?thesis using that by (cases "unat w < 2 ^ 31") (simp_all del: of_nat_unat)
qed

lemma unat_minus_64: "w \<noteq> 0 \<Longrightarrow> unat (- w :: u64) = 2 ^ 64 - unat w"
  using unat_sub_if' [of 0 w] unat_eq_zero [of w] by simp

lemma unat_lt_64: "unat (w :: u64) < 2 ^ 64"
  using unsigned_less [of w, where 'a = nat] by simp

lemma safe_itoa_10:
  assumes "sint w \<noteq> - (2 ^ 63)" shows "safe_itoa 10 w = Some (print_int (sint w))"
proof (rule sint_cases [of w])
  assume u: "2 ^ 63 \<le> unat w" "int (unat w) = sint w + 2 ^ 64"
  have "w \<noteq> 0" using u(1) by auto
  then have m: "unat (- w) = 2 ^ 64 - unat w" by (rule unat_minus_64)
  have n: "sint w < 0" "nat (- sint w) = unat (- w)" "unat (- w) < 2 ^ 63"
    using assms u unat_lt_64 [of w] unfolding m by (simp_all del: of_nat_unat)
  from n(3) have "\<not> sint (- w) < 0" by (rule_tac sint_cases [of "- w"]) auto
  then show ?thesis using n by (simp add: safe_itoa_def Let_def utoa_loop_eq print_base_10 print_int_def)
next
  assume "unat w < 2 ^ 63" "sint w = int (unat w)"
  then show ?thesis by (simp add: safe_itoa_def utoa_loop_eq print_base_10 print_int_def)
qed

lemma safe_itoa_16: "safe_itoa 16 w = Some (print_base 16 (unat w))"
proof (rule sint_cases [of w])
  assume u: "2 ^ 63 \<le> unat w" "int (unat w) = sint w + 2 ^ 64"
  have n: "sint w < 0" using u(2) unat_lt_64 [of w] by (simp del: of_nat_unat)
  have "w \<noteq> 0" using u(1) by auto
  then have e: "unat (- w) = 2 ^ 64 - unat w" by (rule unat_minus_64)
  define k where "k = 16 ^ 16 - 1 - unat w"
  have "- w \<noteq> 0" using \<open>w \<noteq> 0\<close> by simp
  then have m: "unat (- w - 1) = k" using e by (simp add: unat_minus_one k_def)
  have k: "k < 2 ^ 63" "k < 16 ^ 16" "16 ^ 16 - 1 - k = unat w" using u(1) unat_lt_64 [of w] by (simp_all add: k_def)
  have "\<not> sint (- w - 1) < 0" using k(1) m by (rule_tac sint_cases [of "- w - 1"]) auto
  moreover have "map hex_complement (hexpad 16 k) = print_base 16 (unat w)"
    using u(1) unat_lt_64 [of w] hexpad_complement [OF k(2)] hexpad_exact [of 15 "unat w"] unfolding k(3) by simp
  moreover have "replicate (16 - length (print_base 16 k)) CHR ''0'' @ print_base 16 k = hexpad 16 k"
    by (rule hexpad_print_base) (use k(2) in simp_all)
  ultimately show ?thesis using n by (simp add: safe_itoa_def Let_def utoa_loop_eq m del: map_append)
next
  assume "unat w < 2 ^ 63" "sint w = int (unat w)"
  then show ?thesis by (simp add: safe_itoa_def utoa_loop_eq)
qed

text \<open>A negative number of 32 bits in base 16: the sign extension is stripped off again.\<close>

lemma sint_scast_64: "sint (scast (w :: u32) :: u64) = sint w"
  using sint_range_size [of w]
  by (simp add: signed_scast_eq signed_take_bit_int_eq_self size_word_def)

lemma unat_scast_64:
  "unat (scast (w :: u32) :: u64) = (if sint w < 0 then 16 ^ 16 - 16 ^ 8 + unat w else unat w)"
  using sint_scast_64 [of w] unat_lt_64 [of "scast w"] unsigned_less [of w, where 'a = nat]
  by (rule_tac sint_cases_32 [of w]; rule_tac sint_cases [of "scast w :: u64"]) (simp_all del: of_nat_unat)

lemma convert_x: "convert CHR ''x'' False (Int_arg w) = Some (print_base 16 (unat w))"
proof (cases "sint w < 0")
  case True
  then have u: "2 ^ 31 \<le> unat w" by (rule_tac sint_cases_32 [of w]) simp_all
  have l: "unat w < 2 ^ 32" using unsigned_less [of w, where 'a = nat] by simp
  let ?v = "scast w :: u64"
  have v: "unat ?v = 16 ^ 16 - 16 ^ 8 + unat w" using True by (simp add: unat_scast_64)
  have "unat ?v = unat w + 16 ^ 8 * (16 ^ 8 - 1)" by (simp add: v)
  then have m: "unat ?v mod 16 ^ 8 = unat w mod 16 ^ 8" by (simp only: mod_mult_self2)
  have "print_base 16 (unat ?v) = hexpad 16 (unat ?v)" using hexpad_exact [of 15 "unat ?v"] v l by simp
  also have "drop 8 \<dots> = hexpad 8 (unat ?v)" using drop_hexpad [of 8 8 "unat ?v"] by simp
  also have "\<dots> = hexpad 8 (unat w)" using hexpad_mod [of 8 "unat ?v"] l by (simp only: m) simp
  also have "\<dots> = print_base 16 (unat w)" using hexpad_exact [of 7 "unat w"] u l by simp
  finally show ?thesis using True by (simp add: convert_def safe_itoa_16)
next
  case False
  then show ?thesis by (simp add: convert_def safe_itoa_16 unat_scast_64)
qed

lemma convert_d:
  assumes "c = CHR ''d'' \<or> c = CHR ''i''"
  shows "convert c False (Int_arg w) = Some (print_int (sint w))"
    "sint v \<noteq> - (2 ^ 63) \<Longrightarrow> convert c True (Long_arg v) = Some (print_int (sint v))"
proof -
  have "sint (scast w :: u64) \<noteq> - (2 ^ 63)" using sint_range_size [of w] unfolding sint_scast_64 by (simp add: size_word_def)
  then show "convert c False (Int_arg w) = Some (print_int (sint w))"
    using assms by (auto simp: convert_def safe_itoa_10 sint_scast_64)
  show "sint v \<noteq> - (2 ^ 63) \<Longrightarrow> convert c True (Long_arg v) = Some (print_int (sint v))"
    using assms by (auto simp: convert_def safe_itoa_10)
qed

lemma unat_ucast_64: "unat (ucast (w :: u32) :: u64) = unat w"
  using unsigned_less [of w, where 'a = nat] by (simp add: unsigned_ucast_eq take_bit_nat_eq_self)

lemma convert_u:
  "convert CHR ''u'' False (Int_arg w) = Some (print_dec (unat w))" "convert CHR ''u'' True (Long_arg v) = Some (print_dec (unat v))"
  by (simp_all add: convert_def safe_utoa_eq print_base_10 unat_ucast_64)

lemma convert_p: "c = CHR ''x'' \<or> c = CHR ''p'' \<Longrightarrow> convert c True (Long_arg v) = Some (print_base 16 (unat v))"
  by (auto simp: convert_def safe_itoa_16)

text \<open>
  The reference: what a conversion is to print. The least number of 64 bits cannot be printed in decimal: its negation overflows and
  the remainder is no index of the digits.
\<close>

definition shown_number :: "char \<Rightarrow> bool \<Rightarrow> va \<Rightarrow> bytes option" where
  "shown_number c ll a =
     (case a of
        Str_arg s \<Rightarrow> None
      | Int_arg w \<Rightarrow>
          if ll \<or> c = CHR ''p'' then None
          else Some (if c = CHR ''u'' then print_dec (unat w) else if c = CHR ''x'' then print_base 16 (unat w) else print_int (sint w))
      | Long_arg w \<Rightarrow>
          if \<not> (ll \<or> c = CHR ''p'') then None
          else if c = CHR ''u'' then Some (print_dec (unat w))
          else if c = CHR ''x'' \<or> c = CHR ''p'' then Some (print_base 16 (unat w))
          else if sint w = - (2 ^ 63) then None
          else Some (print_int (sint w)))"

definition shown :: "char \<Rightarrow> bool \<Rightarrow> va list \<Rightarrow> (bytes \<times> va list) option" where
  "shown c ll ap =
     (if is_number c then (case ap of [] \<Rightarrow> None | a # ap \<Rightarrow> map_option (\<lambda>t. (t, ap)) (shown_number c ll a))
      else if c = CHR ''s'' then
        (case ap of
           [] \<Rightarrow> None
         | a # ap \<Rightarrow> (case a of Str_arg (Some s) \<Rightarrow> Some (s, ap) | Str_arg None \<Rightarrow> Some (''(null)'', ap) | _ \<Rightarrow> None))
      else Some ([], ap))"

lemma safe_itoa_10_least: "sint w = - (2 ^ 63) \<Longrightarrow> safe_itoa 10 w = None"
proof -
  assume m: "sint w = - (2 ^ 63)"
  then have u: "unat w = 2 ^ 63" by (rule_tac sint_cases [of w]) (simp_all del: of_nat_unat)
  then have "w \<noteq> 0" by auto
  then have "unat (- w) = unat w" using unat_minus_64 [of w] u by simp
  then have "- w = w" by (rule unsigned_word_eqI)
  then have "sint (- w) < 0" using m by (simp only:) simp
  then show ?thesis using m by (simp add: safe_itoa_def Let_def)
qed

lemma convert_shown: "is_number c \<Longrightarrow> convert c ll a = shown_number c ll a"
proof (cases a)
  case (Int_arg w)
  assume c: "is_number c"
  show ?thesis
  proof (cases "ll \<or> c = CHR ''p''")
    case True
    then show ?thesis by (auto simp: Int_arg convert_def shown_number_def)
  next
    case False
    then show ?thesis
      using c convert_x [of w] convert_u(1) [of w] convert_d(1) [of c w] by (auto simp: Int_arg shown_number_def is_number_def)
  qed
next
  case (Long_arg w)
  assume c: "is_number c"
  show ?thesis
  proof (cases "ll \<or> c = CHR ''p''")
    case True
    then have e: "convert c ll a = convert c True a" by (auto simp: convert_def Long_arg)
    show ?thesis
      unfolding e using True c convert_p [of c w] convert_u(2) [of w] convert_d(2) [of c w] safe_itoa_10_least [of w]
      by (auto simp: Long_arg shown_number_def is_number_def convert_def)
  next
    case False
    then show ?thesis by (auto simp: Long_arg convert_def shown_number_def)
  qed
qed (simp add: convert_def shown_number_def)

lemma conversion_shown: "conversion c ll ap = shown c ll ap"
proof -
  have "convert c ll a = shown_number c ll a" if "is_number c" for a using convert_shown [OF that] .
  then show ?thesis by (auto simp: conversion_def shown_def split: list.splits va.splits option.splits)
qed

section \<open>The loops of the formatter\<close>

lemma put_at_put_at: "i \<le> length b \<Longrightarrow> put_at (put_at b i u) (i + length u) v = put_at b i (u @ v)"
  by (simp add: put_at_def ac_simps)

lemma put_at_Nil [simp]: "put_at b i [] = b"
  by (simp add: put_at_def)

lemma put_eq: "i < length b \<Longrightarrow> put b i c = Some (put_at b i [c])"
  by (simp add: put_def put_at_def upd_conv_take_nth_drop)

lemma put_while_eq:
  "i \<le> m \<Longrightarrow> m < length b \<Longrightarrow>
     put_while (int m) b i t = Some (put_at b i (take (m - i) t), i + length (take (m - i) t))"
proof (induction t arbitrary: b i)
  case (Cons c t)
  show ?case
  proof (cases "i < m")
    case True
    have "put_while (int m) (put_at b i [c]) (i + 1) t
        = Some (put_at (put_at b i [c]) (i + 1) (take (m - (i + 1)) t), i + 1 + length (take (m - (i + 1)) t))"
      using True Cons.prems by (intro Cons.IH) (simp_all add: length_put_at)
    moreover have "take (m - i) (c # t) = c # take (m - (i + 1)) t" using True by (simp add: take_Cons')
    ultimately show ?thesis
      using True Cons.prems put_at_put_at [of i b "[c]"] by (simp add: put_eq)
  qed (use Cons.prems in simp)
qed simp

text \<open>What a format denotes, without a bound.\<close>

function render :: "bytes \<Rightarrow> va list \<Rightarrow> bytes option" where
  "render [] ap = Some []"
| "render (c # fmt) ap =
     (if c \<noteq> CHR ''%'' then map_option (\<lambda>t. c # t) (render fmt ap)
      else
        (case safe_check_longlong fmt of
           ([], _) \<Rightarrow> None
         | (d # fmt', ll) \<Rightarrow>
             (case shown d ll ap of
                None \<Rightarrow> None
              | Some (t, ap) \<Rightarrow> map_option (\<lambda>u. t @ u) (render fmt' ap))))"
  by pat_completeness auto
termination
proof (relation "measure (\<lambda>(fmt, ap). length fmt)", goal_cases)
  case (3 c fmt ap x y d fmt' ll)
  then have "safe_check_longlong fmt = (d # fmt', y)" by simp
  then show ?case using safe_check_longlong_length [of fmt] by simp
qed auto

lemma safe_loop_eq:
  assumes "render fmt ap = Some t" and "i \<le> m" and "m < length b"
  shows "safe_loop (int m) b i fmt ap = Some (put_at b i (take (m - i) t), i + length (take (m - i) t))"
  using assms
proof (induction fmt ap arbitrary: t b i rule: render.induct)
  case (2 c fmt ap)
  show ?case
  proof (cases "c = CHR ''%''")
    case False
    then obtain u where u: "render fmt ap = Some u" "t = c # u" using "2.prems"(1) by auto
    show ?thesis
    proof (cases "i = m")
      case True
      then show ?thesis using False "2.prems" by simp
    next
      case i: False
      have l: "i + 1 \<le> m" "m < length (put_at b i [c])" using i "2.prems" by (simp_all add: length_put_at)
      have "take (m - i) t = c # take (m - (i + 1)) u" using l u(2) by (simp add: take_Cons')
      then show ?thesis
        using False i "2.prems" u "2.IH"(1) [OF False u(1) l] put_at_put_at [of i b "[c]"] by (simp add: put_eq)
    qed
  next
    case True
    then obtain d fmt' ll w ap' u where c: "safe_check_longlong fmt = (d # fmt', ll)" "shown d ll ap = Some (w, ap')"
      "render fmt' ap' = Some u" "t = w @ u"
      using "2.prems"(1) by (auto split: prod.splits list.splits option.splits)
    let ?v = "take (m - i) w" and ?b = "put_at b i (take (m - i) w)" and ?i = "i + length (take (m - i) w)"
    have l: "?i \<le> m" "m < length ?b" using "2.prems" by (simp_all add: length_put_at)
    have "take (m - i) t = ?v @ take (m - ?i) u" using c(4) by (cases "length w \<le> m - i") auto
    moreover have "safe_loop (int m) ?b ?i fmt' ap' = Some (put_at ?b ?i (take (m - ?i) u), ?i + length (take (m - ?i) u))"
      using True c l by (intro "2.IH"(2) [OF _ _ _ c(2)]) auto
    ultimately show ?thesis
      using True c "2.prems" put_while_eq [of i m b w] put_at_put_at [of i b ?v] by (simp add: conversion_shown)
  qed
qed simp

theorem safe_vsnprintf_spec:
  assumes "render fmt ap = Some t" and "0 < sz" and "sz \<le> length b"
  shows "safe_vsnprintf b sz fmt ap = Some (put_at b 0 (take (sz - 1) t @ [CHR 0x00]), min (sz - 1) (length t))"
proof -
  let ?m = "sz - 1" and ?v = "take (sz - 1) t"
  have l: "?m < length b" "int sz - 1 = int ?m" using assms(2,3) by simp_all
  have "safe_loop (int ?m) b 0 fmt ap = Some (put_at b 0 ?v, length ?v)" using safe_loop_eq [OF assms(1) _ l(1), of 0] by simp
  moreover have "put (put_at b 0 ?v) (length ?v) (CHR 0x00) = Some (put_at b 0 (?v @ [CHR 0x00]))"
    using l(1) put_at_put_at [of 0 b ?v "[CHR 0x00]"] by (subst put_eq) (auto simp: length_put_at min_def)
  ultimately show ?thesis by (simp add: safe_vsnprintf_def l(2) min.commute)
qed

text \<open>The text of a number fits the local array of 22 bytes it is composed in, with its NUL.\<close>

lemma length_convert:
  assumes "convert c ll a = Some t"
  shows "length t + 1 \<le> 22"
proof -
  have d: "length (print_base 10 (unat w)) \<le> 20" for w :: u64
    using unat_lt_64 [of w] by (simp add: print_base_10) (rule length_print_dec [of _ 19, simplified], simp)
  have h: "length (print_base 16 (unat w)) \<le> 16" for w :: u64
    using length_print_base [of "unat w" 16] unat_lt_64 [of w] by simp
  have i: "length t \<le> 21" if "safe_itoa b w = Some t" "b = 10 \<or> b = 16" for b w t
  proof (cases "b = 16")
    case True
    then show ?thesis using that h [of w] by (auto simp: safe_itoa_16)
  next
    case False
    then have "length t \<le> Suc (length (print_base 10 (unat (if sint w < 0 then - w else w))))"
      using that by (auto simp: safe_itoa_def Let_def utoa_loop_eq split: if_splits)
    then show ?thesis using d [of "if sint w < 0 then - w else w"] by simp
  qed
  define base :: nat where "base = (if c = CHR ''x'' \<or> c = CHR ''p'' then 16 else 10)"
  have b: "base = 10 \<or> base = 16" by (simp add: base_def)
  have u: "length (print_base base (unat w)) \<le> 21" for w :: u64
    using b d [of w] h [of w] by auto
  show ?thesis
  proof (cases a)
    case (Int_arg w)
    from u [of "ucast w"] have "length (safe_utoa base (ucast w)) \<le> 21" by (simp add: safe_utoa_eq)
    moreover have "length v \<le> 21" if "safe_itoa base (scast w) = Some v" for v by (rule i [OF that b])
    ultimately show ?thesis
      using assms Int_arg unfolding convert_def base_def [symmetric] Let_def
      by (cases "safe_itoa base (scast w)") (auto split: if_splits simp: le_diff_conv intro: le_trans [OF diff_le_self])
  next
    case (Long_arg w)
    from u [of w] have "length (safe_utoa base w) \<le> 21" by (simp add: safe_utoa_eq)
    then show ?thesis
      using assms Long_arg i [OF _ b, of w] unfolding convert_def base_def [symmetric] Let_def by (auto split: if_splits)
  qed (use assms in \<open>simp add: convert_def\<close>)
qed

section \<open>The formatter of the C library\<close>

text \<open>
  \<^verbatim>\<open>vsnprintf\<close> stores as much of the text as fits before a NUL and returns the length of the whole text, or a negative number on an error;
  \<open>i\<close> is what it returned. The difference \<^verbatim>\<open>size - 1\<close> of \<^verbatim>\<open>size_t\<close> values, returned as an \<^verbatim>\<open>int\<close>, is -1 for the size 0.
\<close>

definition vscnprintf :: "nat \<Rightarrow> int \<Rightarrow> int" where
  "vscnprintf sz i = (if i \<le> 0 then 0 else if nat i < sz then i else int sz - 1)"

text \<open>The idiom \<^verbatim>\<open>len += mc_scnprintf(buf + len, size - len, ...)\<close>: \<open>out\<close> is what the buffer holds so far, \<open>t\<close> the text printed.\<close>

definition scn_append :: "nat \<Rightarrow> bytes \<Rightarrow> bytes \<Rightarrow> bytes" where
  "scn_append sz out t = out @ take (nat (vscnprintf (sz - length out) (int (length t)))) t"

lemma vscnprintf_min: "0 < sz \<Longrightarrow> vscnprintf sz (int n) = int (min (sz - 1) n)"
  by (auto simp: vscnprintf_def)

lemma scn_append_take: "0 < sz \<Longrightarrow> scn_append sz (take (sz - 1) x) t = take (sz - 1) (x @ t)"
proof -
  assume "0 < sz"
  then have p: "0 < sz - length (take (sz - 1) x)" by simp
  then have "scn_append sz (take (sz - 1) x) t = take (sz - 1) x @ take (sz - length (take (sz - 1) x) - 1) t"
    unfolding scn_append_def vscnprintf_min [OF p] nat_int by (simp only: take_take [symmetric] take_all order_refl)
  also have "sz - length (take (sz - 1) x) - 1 = sz - 1 - length x" by simp
  finally show ?thesis by simp
qed

lemma scn_append_foldl:
  "0 < sz \<Longrightarrow> foldl (\<lambda>out i. scn_append sz out (f i)) (take (sz - 1) x) is = take (sz - 1) (x @ concat (map f is))"
proof (induction "is" arbitrary: x)
  case (Cons i "is")
  from Cons.IH [OF Cons.prems, of "x @ f i"] show ?case
    unfolding foldl_Cons scn_append_take [OF Cons.prems] by simp
qed simp

end
