(* ===== verification/McLog.thy ===== *)
theory McLog
  imports McPrint
begin

text \<open>
  The debug log (\<^verbatim>\<open>mc_log.c\<close>) and the signals (\<^verbatim>\<open>mc_signal.c\<close>): opening, reopening and closing the log, its level, the composition of a
  line in a buffer of fixed size, the hexadecimal dump, the variants that a signal handler may call, and the handler. \<open>lg_file\<close> and \<open>lg_stderr\<close>
  are the bytes written to the log file and to the standard error. What the system answers is the record \<open>log_os\<close>; a partial \<^verbatim>\<open>write\<close> is
  not continued by the code.
\<close>

section \<open>State\<close>

definition LOG_EMERG :: int where "LOG_EMERG = 0"
definition LOG_ALERT :: int where "LOG_ALERT = 1"
definition LOG_NOTICE :: int where "LOG_NOTICE = 5"
definition LOG_PVERB :: int where "LOG_PVERB = 11"
definition LOG_MAX_LEN :: nat where "LOG_MAX_LEN = 256"
definition STDERR_FILENO :: int where "STDERR_FILENO = 2"

record logger =
  lg_name :: "bytes option"
  lg_level :: int
  lg_fd :: int
  lg_nerror :: nat
  lg_verbose :: int
  lg_file :: bytes
  lg_stderr :: bytes

text \<open>
  The result of \<^verbatim>\<open>open\<close> and \<^verbatim>\<open>write\<close>, the text of the time and of the last error, the frames of the stack, and whether the build has
  \<^verbatim>\<open>MC_DEBUG_LOG\<close>.
\<close>

record log_os =
  lo_open :: "bytes \<Rightarrow> int"
  lo_write :: "bytes \<Rightarrow> int"
  lo_time :: bytes
  lo_strerror :: bytes
  lo_frames :: "bytes list"
  lo_debug :: bool

definition log_write :: "log_os \<Rightarrow> int \<Rightarrow> bytes \<Rightarrow> logger \<Rightarrow> logger" where
  "log_write w fd t l =
     (let n = lo_write w t in
      if n < 0 then l\<lparr>lg_nerror := lg_nerror l + 1\<rparr>
      else if fd = STDERR_FILENO then l\<lparr>lg_stderr := lg_stderr l @ take (nat n) t\<rparr>
      else l\<lparr>lg_file := lg_file l @ take (nat n) t\<rparr>)"

section \<open>Lines\<close>

text \<open>The line of \<^verbatim>\<open>_log\<close>: the time without its newline, the place in the source and the message, cut to the buffer, and a newline.\<close>

definition log_prefix :: "bytes \<Rightarrow> bytes \<Rightarrow> int \<Rightarrow> bytes" where
  "log_prefix timestr file line = ''['' @ take (length timestr - 1) timestr @ ''] '' @ file @ '':'' @ print_int line @ '' ''"

definition log_line :: "bytes \<Rightarrow> bytes \<Rightarrow> int \<Rightarrow> bytes \<Rightarrow> bytes" where
  "log_line timestr file line msg =
     (let buf = scn_append LOG_MAX_LEN [] (log_prefix timestr file line);
          buf = scn_append LOG_MAX_LEN buf msg
      in buf @ [CHR 0x0A])"

text \<open>\<^verbatim>\<open>_log\<close>; the result tells whether the process goes on, which it does not after a panic.\<close>

definition log_put :: "log_os \<Rightarrow> bytes \<Rightarrow> int \<Rightarrow> bool \<Rightarrow> bytes \<Rightarrow> logger \<Rightarrow> bool \<times> logger" where
  "log_put w file line panic msg l =
     (if lg_fd l < 0 then (True, l)
      else (\<not> panic, log_write w (lg_fd l) (log_line (lo_time w) file line msg) l))"

definition log_stderr :: "log_os \<Rightarrow> bytes \<Rightarrow> logger \<Rightarrow> logger" where
  "log_stderr w msg l = log_write w STDERR_FILENO (scn_append (4 * LOG_MAX_LEN) [] msg @ [CHR 0x0A]) l"

text \<open>The lines of the handlers, composed by the formatter that calls nothing else; \<open>buf\<close> is what the array on the stack holds before.\<close>

definition safe_prefix :: bytes where "safe_prefix = ''[........................] ''"

definition safe_line :: "bytes \<Rightarrow> bytes \<Rightarrow> va list \<Rightarrow> bytes option" where
  "safe_line buf fmt ap =
     (case safe_vsnprintf buf LOG_MAX_LEN safe_prefix [] of
        None \<Rightarrow> None
      | Some (buf, len) \<Rightarrow>
          (case safe_vsnprintf (drop len buf) (LOG_MAX_LEN - len) fmt ap of
             None \<Rightarrow> None
           | Some (rest, n) \<Rightarrow>
               (case put (take len buf @ rest) (len + n) (CHR 0x0A) of
                  None \<Rightarrow> None
                | Some buf \<Rightarrow> Some (take (len + n + 1) buf))))"

definition log_safe :: "log_os \<Rightarrow> bytes \<Rightarrow> bytes \<Rightarrow> va list \<Rightarrow> logger \<Rightarrow> logger option" where
  "log_safe w buf fmt ap l =
     (if lg_fd l < 0 then Some l
      else map_option (\<lambda>t. log_write w (lg_fd l) t l) (safe_line buf fmt ap))"

definition log_stderr_safe :: "log_os \<Rightarrow> bytes \<Rightarrow> bytes \<Rightarrow> va list \<Rightarrow> logger \<Rightarrow> logger option" where
  "log_stderr_safe w buf fmt ap l = map_option (\<lambda>t. log_write w STDERR_FILENO t l) (safe_line buf fmt ap)"

section \<open>The log and its level\<close>

definition quoted :: "bytes \<Rightarrow> bytes" where
  "quoted t = CHR 0x27 # t @ [CHR 0x27]"

definition log_init :: "log_os \<Rightarrow> int \<Rightarrow> bytes option \<Rightarrow> logger \<Rightarrow> bool \<times> logger" where
  "log_init w level name l =
     (let l = l\<lparr>lg_level := max LOG_EMERG (min level LOG_PVERB), lg_name := name\<rparr> in
      case name of
        None \<Rightarrow> (True, l\<lparr>lg_fd := STDERR_FILENO\<rparr>)
      | Some n \<Rightarrow>
          if n = [] then (True, l\<lparr>lg_fd := STDERR_FILENO\<rparr>)
          else
            (let l = l\<lparr>lg_fd := lo_open w n\<rparr> in
             if lg_fd l < 0 then (False, log_stderr w (''opening log file '' @ quoted n @ '' failed: '' @ lo_strerror w) l)
             else (True, l)))"

text \<open>Reopening needs the name, which the log has unless it goes to the standard error; what was written to the old file stays there.\<close>

definition log_reopen :: "log_os \<Rightarrow> bytes \<Rightarrow> logger \<Rightarrow> logger option" where
  "log_reopen w buf l =
     (if lg_fd l \<noteq> STDERR_FILENO then
        (case lg_name l of
           None \<Rightarrow> None
         | Some n \<Rightarrow>
             (let l = l\<lparr>lg_fd := lo_open w n\<rparr> in
              if lg_fd l < 0
              then log_stderr_safe w buf (''reopening log file '' @ quoted ''%s'' @ '' failed, ignored: %s'')
                     [Str_arg (Some n), Str_arg (Some (lo_strerror w))] l
              else Some l))
      else Some l)"

definition log_level_up :: "log_os \<Rightarrow> bytes \<Rightarrow> logger \<Rightarrow> logger option" where
  "log_level_up w buf l =
     (if lg_level l < LOG_PVERB then
        (let l = l\<lparr>lg_level := lg_level l + 1\<rparr>; l = l\<lparr>lg_verbose := lg_level l\<rparr> in
         log_safe w buf ''up log level to %d'' [Int_arg (word_of_int (lg_level l))] l)
      else Some l)"

definition log_level_down :: "log_os \<Rightarrow> bytes \<Rightarrow> logger \<Rightarrow> logger option" where
  "log_level_down w buf l =
     (if lg_level l > LOG_EMERG then
        (let l = l\<lparr>lg_level := lg_level l - 1\<rparr>; l = l\<lparr>lg_verbose := lg_level l\<rparr> in
         log_safe w buf ''down log level to %d'' [Int_arg (word_of_int (lg_level l))] l)
      else Some l)"

definition log_loggable :: "int \<Rightarrow> logger \<Rightarrow> bool" where
  "log_loggable level l = (\<not> level > lg_level l)"

text \<open>The macro \<^verbatim>\<open>log_debug\<close>.\<close>

definition log_debug :: "log_os \<Rightarrow> int \<Rightarrow> bytes \<Rightarrow> int \<Rightarrow> bytes \<Rightarrow> logger \<Rightarrow> logger" where
  "log_debug w level file line msg l =
     (if lo_debug w \<and> log_loggable level l then snd (log_put w file line False msg l) else l)"

section \<open>The hexadecimal dump\<close>

definition isprint :: "char \<Rightarrow> bool" where
  "isprint c = (32 \<le> (of_char c :: nat) \<and> (of_char c :: nat) \<le> 126)"

definition hex_gap :: "nat \<Rightarrow> bytes" where
  "hex_gap i = (if i = 7 then ''  '' else '' '')"

definition hex_byte :: "bytes \<Rightarrow> nat \<Rightarrow> bytes" where
  "hex_byte data i = hexpad 2 (of_char (data ! i)) @ hex_gap i"

definition hex_char :: "bytes \<Rightarrow> nat \<Rightarrow> bytes" where
  "hex_char data i = [if isprint (data ! i) then data ! i else CHR ''.'']"

text \<open>One round per line of 16 bytes; \<open>data\<close> is what is still to be dumped.\<close>

function hexdump_loop :: "nat \<Rightarrow> bytes \<Rightarrow> nat \<Rightarrow> bytes \<Rightarrow> bytes" where
  "hexdump_loop sz data off buf =
     (if data \<noteq> [] \<and> length buf < sz - 1 then
        (let n = min 16 (length data);
             buf = scn_append sz buf (hexpad 8 off @ ''  '');
             buf = foldl (\<lambda>buf i. scn_append sz buf (hex_byte data i)) buf [0..<n];
             buf = foldl (\<lambda>buf i. scn_append sz buf (''  '' @ hex_gap i)) buf [n..<16];
             buf = scn_append sz buf ''  |'';
             buf = foldl (\<lambda>buf i. scn_append sz buf (hex_char data i)) buf [0..<n];
             buf = scn_append sz buf (''|'' @ [CHR 0x0A])
         in hexdump_loop sz (drop 16 data) (off + 16) buf)
      else buf)"
  by pat_completeness auto
termination
  by (relation "measure (\<lambda>(sz, data, off, buf). length data)") auto

declare hexdump_loop.simps [simp del]

definition log_hexdump :: "log_os \<Rightarrow> bytes \<Rightarrow> logger \<Rightarrow> logger" where
  "log_hexdump w data l =
     (if lg_fd l < 0 then l
      else log_write w (lg_fd l) (hexdump_loop (8 * LOG_MAX_LEN) data 0 []) l)"

section \<open>Signals\<close>

datatype signo = SIGUSR1 | SIGUSR2 | SIGTTIN | SIGTTOU | SIGHUP | SIGINT | SIGTERM | SIGSEGV | SIGPIPE

datatype disposition = SIG_DFL | SIG_IGN | Handler bool

text \<open>The table: signal, its number on Linux and name, and what it is to do; the flag of \<open>Handler\<close> is \<^verbatim>\<open>SA_RESETHAND\<close>.\<close>

definition signals :: "(signo \<times> int \<times> bytes \<times> disposition) list" where
  "signals =
     [(SIGUSR1, 10, ''SIGUSR1'', Handler False), (SIGUSR2, 12, ''SIGUSR2'', Handler False), (SIGTTIN, 21, ''SIGTTIN'', Handler False),
      (SIGTTOU, 22, ''SIGTTOU'', Handler False), (SIGHUP, 1, ''SIGHUP'', Handler False), (SIGINT, 2, ''SIGINT'', Handler False),
      (SIGTERM, 15, ''SIGTERM'', Handler False), (SIGSEGV, 11, ''SIGSEGV'', Handler True), (SIGPIPE, 13, ''SIGPIPE'', SIG_IGN)]"

fun install :: "(signo \<Rightarrow> bool) \<Rightarrow> (signo \<times> int \<times> bytes \<times> disposition) list \<Rightarrow> (signo \<Rightarrow> disposition) \<Rightarrow> rstatus \<times> (signo \<Rightarrow> disposition)" where
  "install sigaction [] disp = (MC_OK, disp)"
| "install sigaction ((sig, n, name, h) # rest) disp =
     (if \<not> sigaction sig then (MC_ERROR, disp) else install sigaction rest (disp(sig := h)))"

definition signal_init :: "(signo \<Rightarrow> bool) \<Rightarrow> (signo \<Rightarrow> disposition) \<Rightarrow> rstatus \<times> (signo \<Rightarrow> disposition)" where
  "signal_init sigaction disp = install sigaction signals disp"

text \<open>How the handler ends: it returns, exits, or has raised the signal again, which kills the process on its return.\<close>

datatype after_signal = Returned logger | Exited int logger | Raised logger

definition mc_stacktrace :: "log_os \<Rightarrow> nat \<Rightarrow> logger \<Rightarrow> logger" where
  "mc_stacktrace w skip_count l =
     fold (\<lambda>(j, sym) l. snd (log_put w ''mc_util.c'' 579 False (''['' @ print_int (int j) @ ''] '' @ sym) l))
       (List.enumerate 0 (drop (skip_count + 1) (lo_frames w))) l"

definition signal_text :: "signo \<Rightarrow> bytes \<Rightarrow> bytes" where
  "signal_text sig actionstr =
     (case map_of signals sig of
        None \<Rightarrow> []
      | Some (n, name, h) \<Rightarrow> ''signal '' @ print_int n @ '' ('' @ name @ '') received'' @ actionstr)"

definition signal_handler :: "log_os \<Rightarrow> bytes \<Rightarrow> signo \<Rightarrow> logger \<Rightarrow> after_signal option" where
  "signal_handler w buf sig l =
     (let note = (\<lambda>actionstr l. log_debug w LOG_NOTICE ''mc_signal.c'' 142 (signal_text sig actionstr) l) in
      case sig of
        SIGUSR1 \<Rightarrow> Some (Returned (note [] l))
      | SIGUSR2 \<Rightarrow> Some (Returned (note [] l))
      | SIGTTIN \<Rightarrow> map_option Returned (log_level_up w buf (note '', up logging level'' l))
      | SIGTTOU \<Rightarrow> map_option Returned (log_level_down w buf (note '', down logging level'' l))
      | SIGHUP \<Rightarrow> map_option Returned (log_reopen w buf (note '', reopening log file'' l))
      | SIGINT \<Rightarrow> Some (Exited 1 (note '', exiting'' l))
      | SIGTERM \<Rightarrow> Some (Exited 1 (note '', exiting'' l))
      | SIGSEGV \<Rightarrow> Some (Raised (note '', core dumping'' (mc_stacktrace w 1 l)))
      | SIGPIPE \<Rightarrow> None)"

section \<open>The lines fit their buffers\<close>

lemma scn_append_Nil: "0 < sz \<Longrightarrow> scn_append sz [] t = take (sz - 1) t"
  using scn_append_take [of sz "[]" t] by simp

lemma log_line_eq: "log_line timestr file line msg = take (LOG_MAX_LEN - 1) (log_prefix timestr file line @ msg) @ [CHR 0x0A]"
proof -
  have p: "0 < LOG_MAX_LEN" by (simp add: LOG_MAX_LEN_def)
  show ?thesis unfolding log_line_def Let_def scn_append_Nil [OF p] scn_append_take [OF p] ..
qed

lemma length_log_line: "length (log_line timestr file line msg) \<le> LOG_MAX_LEN"
  by (simp add: log_line_eq LOG_MAX_LEN_def del: take_append)

lemma render_plain: "CHR ''%'' \<notin> set fmt \<Longrightarrow> render fmt ap = Some fmt"
  by (induction fmt) auto

lemma take_put_last: "b = ys @ x # r \<Longrightarrow> n = length ys \<Longrightarrow> take (n + 1) (b[n := c]) = ys @ [c]"
  by simp

text \<open>Whatever the array held before, a line is the text of its format, cut to the buffer, and a newline.\<close>

lemma safe_line_eq:
  assumes "length buf = LOG_MAX_LEN" and "render fmt ap = Some t"
  shows "safe_line buf fmt ap = Some (take (LOG_MAX_LEN - 1) (safe_prefix @ t) @ [CHR 0x0A])"
proof -
  let ?n = "length safe_prefix"
  have n: "?n = 27" "LOG_MAX_LEN = 256" by (simp_all add: safe_prefix_def LOG_MAX_LEN_def)
  have r: "render safe_prefix [] = Some safe_prefix" by (rule render_plain) (simp add: safe_prefix_def)
  define b1 where "b1 = put_at buf 0 (safe_prefix @ [CHR 0x00])"
  have 1: "safe_vsnprintf buf LOG_MAX_LEN safe_prefix [] = Some (b1, ?n)"
    using safe_vsnprintf_spec [OF r, of LOG_MAX_LEN buf] assms(1) by (simp add: n b1_def)
  have l1: "length b1 = 256" "take ?n b1 = safe_prefix" using assms(1) by (simp_all add: b1_def put_at_def n)
  let ?m = "256 - ?n" and ?v = "take (256 - length safe_prefix - 1) t"
  define b2 where "b2 = put_at (drop ?n b1) 0 (?v @ [CHR 0x00])"
  have 2: "safe_vsnprintf (drop ?n b1) ?m fmt ap = Some (b2, length ?v)"
    using safe_vsnprintf_spec [OF assms(2), of ?m "drop ?n b1"] l1(1) by (simp add: n b2_def min.commute)
  have l2: "length b2 = ?m" "take (length ?v) b2 = ?v" using l1(1) by (auto simp: b2_def put_at_def n min_def)
  have i: "?n + length ?v < length (safe_prefix @ b2)" using l2(1) by (simp add: n)
  obtain x r where "drop (length ?v) b2 = x # r" using i by (cases "drop (length ?v) b2") auto
  then have "safe_prefix @ b2 = (safe_prefix @ ?v) @ x # r" using l2(2) append_take_drop_id [of "length ?v" b2] by simp
  from take_put_last [OF this, of "?n + length ?v" "CHR 0x0A"]
  have "take (?n + length ?v + 1) ((safe_prefix @ b2)[?n + length ?v := CHR 0x0A]) = safe_prefix @ ?v @ [CHR 0x0A]" by simp
  then show ?thesis using 1 2 i l1(2) by (simp add: safe_line_def put_def n)
qed

text \<open>The text of a dump, line by line.\<close>

function hex_text :: "nat \<Rightarrow> bytes \<Rightarrow> bytes" where
  "hex_text off data =
     (if data = [] then []
      else
        (let n = min 16 (length data) in
         hexpad 8 off @ ''  '' @ concat (map (hex_byte data) [0..<n]) @ concat (map (\<lambda>i. ''  '' @ hex_gap i) [n..<16]) @ ''  |''
         @ concat (map (hex_char data) [0..<n]) @ ''|'' @ [CHR 0x0A] @ hex_text (off + 16) (drop 16 data)))"
  by pat_completeness auto
termination
  by (relation "measure (\<lambda>(off, data). length data)") auto

declare hex_text.simps [simp del]

lemma hexdump_loop_eq:
  "0 < sz \<Longrightarrow> hexdump_loop sz data off (take (sz - 1) x) = take (sz - 1) (x @ hex_text off data)"
proof (induction data arbitrary: off x rule: length_induct)
  case (1 data)
  show ?case
  proof (cases "data \<noteq> [] \<and> length (take (sz - 1) x) < sz - 1")
    case True
    then have "length (drop 16 data) < length data" by simp
    with "1.IH" "1.prems" have ih: "hexdump_loop sz (drop 16 data) o' (take (sz - 1) y) = take (sz - 1) (y @ hex_text o' (drop 16 data))" for o' y
      by blast
    show ?thesis
      using True
      by (subst hexdump_loop.simps, subst hex_text.simps)
        (simp only: Let_def scn_append_take [OF "1.prems"] scn_append_foldl [OF "1.prems"] ih if_True if_False append_assoc simp_thms)
  next
    case False
    then consider "data = []" | "sz - 1 \<le> length x" by fastforce
    then show ?thesis
    proof cases
      case 1
      then show ?thesis by (subst hexdump_loop.simps, subst hex_text.simps) simp
    next
      case 2
      then show ?thesis using False by (subst hexdump_loop.simps) auto
    qed
  qed
qed

lemma log_hexdump_text: "hexdump_loop (8 * LOG_MAX_LEN) data 0 [] = take (8 * LOG_MAX_LEN - 1) (hex_text 0 data)"
  using hexdump_loop_eq [of "8 * LOG_MAX_LEN" data 0 "[]"] by (simp add: LOG_MAX_LEN_def)

section \<open>The level, and what a signal does\<close>

text \<open>The level stays between the two extremes and the setting follows it.\<close>

definition log_ok :: "logger \<Rightarrow> bool" where
  "log_ok l \<longleftrightarrow> LOG_EMERG \<le> lg_level l \<and> lg_level l \<le> LOG_PVERB \<and> (lg_fd l = STDERR_FILENO \<or> lg_name l \<noteq> None)"

lemma log_write_fields [simp]:
  "lg_level (log_write w fd t l) = lg_level l" "lg_verbose (log_write w fd t l) = lg_verbose l"
  "lg_fd (log_write w fd t l) = lg_fd l" "lg_name (log_write w fd t l) = lg_name l"
  by (simp_all add: log_write_def Let_def)

lemma log_debug_fields [simp]:
  "lg_level (log_debug w lv f n t l) = lg_level l" "lg_verbose (log_debug w lv f n t l) = lg_verbose l"
  "lg_fd (log_debug w lv f n t l) = lg_fd l" "lg_name (log_debug w lv f n t l) = lg_name l"
  by (simp_all add: log_debug_def log_put_def)

lemma log_init_ok: "log_init w level name l = (True, l') \<Longrightarrow> log_ok l'"
  by (auto simp: log_init_def log_ok_def Let_def LOG_EMERG_def LOG_PVERB_def split: option.splits if_splits)

lemma render_level:
  "render ''up log level to %d'' [Int_arg w] = Some (''up log level to '' @ print_int (sint w))"
  "render ''down log level to %d'' [Int_arg w] = Some (''down log level to '' @ print_int (sint w))"
  by (simp_all add: shown_def is_number_def shown_number_def)

lemma render_reopen:
  "render (''reopening log file '' @ quoted ''%s'' @ '' failed, ignored: %s'') [Str_arg (Some n), Str_arg (Some e)]
     = Some (''reopening log file '' @ quoted n @ '' failed, ignored: '' @ e)"
  by (simp add: shown_def is_number_def quoted_def)

lemma log_safe_fields:
  assumes "render fmt ap = Some t" and "length buf = LOG_MAX_LEN"
  shows "\<exists>l'. log_safe w buf fmt ap l = Some l' \<and> lg_level l' = lg_level l \<and> lg_verbose l' = lg_verbose l \<and> lg_fd l' = lg_fd l
    \<and> lg_name l' = lg_name l"
  using safe_line_eq [OF assms(2,1)] by (simp add: log_safe_def)

lemma log_stderr_safe_fields:
  assumes "render fmt ap = Some t" and "length buf = LOG_MAX_LEN"
  shows "\<exists>l'. log_stderr_safe w buf fmt ap l = Some l' \<and> lg_level l' = lg_level l \<and> lg_verbose l' = lg_verbose l \<and> lg_fd l' = lg_fd l
    \<and> lg_name l' = lg_name l"
  using safe_line_eq [OF assms(2,1)] by (simp add: log_stderr_safe_def)

lemma log_level_up_spec:
  assumes "log_ok l" and "length buf = LOG_MAX_LEN"
  shows "\<exists>l'. log_level_up w buf l = Some l' \<and> log_ok l' \<and> lg_level l' = min LOG_PVERB (lg_level l + 1)
    \<and> (lg_level l < LOG_PVERB \<longrightarrow> lg_verbose l' = lg_level l')"
proof (cases "lg_level l < LOG_PVERB")
  case True
  let ?l = "l\<lparr>lg_level := lg_level l + 1, lg_verbose := lg_level l + 1\<rparr>"
  have "log_level_up w buf l = log_safe w buf ''up log level to %d'' [Int_arg (word_of_int (lg_level l + 1))] ?l"
    using True by (simp add: log_level_up_def)
  then show ?thesis using True assms(1) log_safe_fields [OF render_level(1) assms(2), of w _ ?l] by (fastforce simp: log_ok_def)
qed (use assms in \<open>auto simp: log_level_up_def log_ok_def\<close>)

lemma log_level_down_spec:
  assumes "log_ok l" and "length buf = LOG_MAX_LEN"
  shows "\<exists>l'. log_level_down w buf l = Some l' \<and> log_ok l' \<and> lg_level l' = max LOG_EMERG (lg_level l - 1)
    \<and> (LOG_EMERG < lg_level l \<longrightarrow> lg_verbose l' = lg_level l')"
proof (cases "LOG_EMERG < lg_level l")
  case True
  let ?l = "l\<lparr>lg_level := lg_level l - 1, lg_verbose := lg_level l - 1\<rparr>"
  have "log_level_down w buf l = log_safe w buf ''down log level to %d'' [Int_arg (word_of_int (lg_level l - 1))] ?l"
    using True by (simp add: log_level_down_def)
  then show ?thesis using True assms(1) log_safe_fields [OF render_level(2) assms(2), of w _ ?l] by (fastforce simp: log_ok_def)
qed (use assms in \<open>auto simp: log_level_down_def log_ok_def\<close>)

lemma log_reopen_spec:
  assumes "log_ok l" and "length buf = LOG_MAX_LEN"
  shows "\<exists>l'. log_reopen w buf l = Some l' \<and> log_ok l' \<and> lg_level l' = lg_level l
    \<and> lg_fd l' = (if lg_fd l = STDERR_FILENO then STDERR_FILENO else lo_open w (the (lg_name l)))"
proof (cases "lg_fd l = STDERR_FILENO")
  case False
  then obtain n where n: "lg_name l = Some n" using assms(1) by (auto simp: log_ok_def)
  let ?l = "l\<lparr>lg_fd := lo_open w n\<rparr>"
  show ?thesis
    using False n assms(1) log_stderr_safe_fields [OF render_reopen assms(2), of w n "lo_strerror w" ?l]
    unfolding log_reopen_def by (cases "lo_open w n < 0") (fastforce simp: log_ok_def Let_def)+
qed (use assms in \<open>simp add: log_reopen_def\<close>)

text \<open>
  The handler does nothing undefined for the signals it is installed for; only an interrupt and a termination end the process with status 1, and only
  the two signals for it change the level.
\<close>

lemma signal_handler_spec:
  assumes "log_ok l" and "length buf = LOG_MAX_LEN" and "sig \<noteq> SIGPIPE"
  shows "\<exists>a. signal_handler w buf sig l = Some a \<and>
    (case a of
       Returned l' \<Rightarrow> log_ok l' \<and> sig \<notin> {SIGINT, SIGTERM, SIGSEGV}
         \<and> lg_level l' = (if sig = SIGTTIN then min LOG_PVERB (lg_level l + 1)
                          else if sig = SIGTTOU then max LOG_EMERG (lg_level l - 1) else lg_level l)
     | Exited n l' \<Rightarrow> n = 1 \<and> sig \<in> {SIGINT, SIGTERM}
     | Raised l' \<Rightarrow> sig = SIGSEGV)"
proof -
  have d: "log_ok (log_debug w lv f n t l)" for lv f n t using assms(1) by (simp add: log_ok_def)
  show ?thesis
    using assms(3) d log_level_up_spec [OF d assms(2)] log_level_down_spec [OF d assms(2)] log_reopen_spec [OF d assms(2)]
    by (cases sig) (fastforce simp: signal_handler_def Let_def)+
qed

lemma install_status: "fst (install sigaction t disp) = MC_OK \<longleftrightarrow> (\<forall>(sig, r) \<in> set t. sigaction sig)"
  by (induction sigaction t disp rule: install.induct) (auto simp del: fun_upd_apply)

lemma signal_init_spec:
  assumes "signal_init sigaction disp = (MC_OK, disp')"
  shows "disp' sig = (if sig = SIGPIPE then SIG_IGN else Handler (sig = SIGSEGV))"
  using assms by (cases sig) (auto simp: signal_init_def signals_def split: if_splits)

end
