(* ===== verification/McStart.thy ===== *)
theory McStart
  imports McOptions McLog
begin

text \<open>
  The start of the process (\<^verbatim>\<open>mc.c\<close>): resource limits, the user it runs as, the daemon, the pid file, and \<^verbatim>\<open>main\<close> up to the cache
  that serves. What the process is for the system is the record \<open>proc\<close>; what a system call answers is the record \<open>os\<close>. A call that succeeds changes
  \<open>proc\<close> as POSIX says. \<open>main\<close> is followed to the point where \<^verbatim>\<open>core_init\<close> has set up the log, the signals, the cache, the command log and the hotkey
  window; threads and sockets come after it.
\<close>

section \<open>State\<close>

text \<open>\<open>p_fds\<close> is the file behind a descriptor, \<open>p_files\<close> the content of the files the process created, \<open>p_leader\<close> whether it leads its session.\<close>

record proc =
  p_uid :: nat
  p_euid :: nat
  p_gid :: nat
  p_nofile :: "nat \<times> nat"
  p_core :: "nat \<times> nat"
  p_fds :: "nat \<Rightarrow> bytes option"
  p_cwd :: bytes
  p_umask :: nat
  p_leader :: bool
  p_hup_ignored :: bool
  p_locked :: bool
  p_files :: "bytes \<Rightarrow> bytes option"
  p_pid_file :: bool

record os =
  os_getrlimit :: bool
  os_setrlimit :: "nat \<times> nat \<Rightarrow> bool"
  os_getpwnam :: "bytes \<Rightarrow> (nat \<times> nat) option"
  os_setgid :: bool
  os_setuid :: bool
  os_fork :: "nat \<Rightarrow> int"
  os_setsid :: bool
  os_signal :: bool
  os_chdir :: bool
  os_open :: "bytes \<Rightarrow> int"
  os_dup2 :: "nat \<Rightarrow> bool"
  os_close :: bool
  os_write :: "bytes \<Rightarrow> int"
  os_unlink :: bool
  os_mlockall :: bool
  os_getpid :: int

definition RLIM_INFINITY :: nat where "RLIM_INFINITY = 18446744073709551615"

section \<open>Limits and user\<close>

definition mc_maximize_core :: "os \<Rightarrow> proc \<Rightarrow> rstatus \<times> proc" where
  "mc_maximize_core os p =
     (if \<not> os_getrlimit os then (MC_ERROR, p)
      else
        (let new_rlim = (RLIM_INFINITY, RLIM_INFINITY) in
         if \<not> os_setrlimit os new_rlim then
           (let new_rlim = (snd (p_core p), snd (p_core p)) in
            if os_setrlimit os new_rlim then (MC_OK, p\<lparr>p_core := new_rlim\<rparr>) else (MC_ERROR, p))
         else (MC_OK, p\<lparr>p_core := new_rlim\<rparr>)))"

definition mc_set_maxconns :: "os \<Rightarrow> 'd conf \<Rightarrow> proc \<Rightarrow> rstatus \<times> proc" where
  "mc_set_maxconns os st p =
     (if \<not> os_getrlimit os then (MC_ERROR, p)
      else
        (let maxfiles = nat (st_maxconns st);
             rlim_cur = max (fst (p_nofile p)) maxfiles;
             rlim_max = max (snd (p_nofile p)) rlim_cur
         in if \<not> os_setrlimit os (rlim_cur, rlim_max) then (MC_ERROR, p)
            else (MC_OK, p\<lparr>p_nofile := (rlim_cur, rlim_max)\<rparr>)))"

text \<open>
  \<^verbatim>\<open>setuid\<close> of a process with effective user 0 sets both user ids, otherwise only the effective one. A failing \<^verbatim>\<open>setgid\<close> is logged and the
  function goes on.
\<close>

definition mc_set_user :: "os \<Rightarrow> 'd conf \<Rightarrow> proc \<Rightarrow> rstatus \<times> proc" where
  "mc_set_user os st p =
     (if p_uid p \<noteq> 0 \<and> p_euid p \<noteq> 0 then
        (if st_username st \<noteq> None then (MC_ERROR, p) else (MC_OK, p))
      else
        (case st_username st of
           None \<Rightarrow> (MC_ERROR, p)
         | Some uname \<Rightarrow>
             (case os_getpwnam os uname of
                None \<Rightarrow> (MC_ERROR, p)
              | Some (pw_uid, pw_gid) \<Rightarrow>
                  (let p = (if os_setgid os then p\<lparr>p_gid := pw_gid\<rparr> else p) in
                   if \<not> os_setuid os then (MC_ERROR, p)
                   else (MC_OK, if p_euid p = 0 then p\<lparr>p_uid := pw_uid, p_euid := pw_uid\<rparr> else p\<lparr>p_euid := pw_uid\<rparr>)))))"

section \<open>Daemon and pid file\<close>

text \<open>A step of the start either gives a status or ends the process, as the parents in \<^verbatim>\<open>mc_daemonize\<close> do.\<close>

datatype step = Status rstatus | Gone int

text \<open>\<open>dup_loop\<close> is the sequence of calls of \<^verbatim>\<open>dup2\<close>, which closes the descriptor when one of them fails.\<close>

fun dup_loop :: "os \<Rightarrow> nat list \<Rightarrow> proc \<Rightarrow> rstatus \<times> proc" where
  "dup_loop os [] p = (MC_OK, p)"
| "dup_loop os (d # ds) p =
     (if \<not> os_dup2 os d then (MC_ERROR, p)
      else dup_loop os ds (p\<lparr>p_fds := (p_fds p)(d \<mapsto> ''/dev/null'')\<rparr>))"

definition mc_daemonize :: "os \<Rightarrow> bool \<Rightarrow> proc \<Rightarrow> step \<times> proc" where
  "mc_daemonize os dump_core p =
     (if os_fork os 1 = - 1 then (Status MC_ERROR, p)
      else if os_fork os 1 \<noteq> 0 then (Gone 0, p)
      else if \<not> os_setsid os then (Status MC_ERROR, p)
      else
        (let p = p\<lparr>p_leader := True\<rparr> in
         if \<not> os_signal os then (Status MC_ERROR, p)
         else
           (let p = p\<lparr>p_hup_ignored := True\<rparr> in
            if os_fork os 2 = - 1 then (Status MC_ERROR, p)
            else if os_fork os 2 \<noteq> 0 then (Gone 0, p)
            else
              (let p = p\<lparr>p_leader := False\<rparr> in
               if \<not> dump_core \<and> \<not> os_chdir os then (Status MC_ERROR, p)
               else
                 (let p = (if dump_core then p else p\<lparr>p_cwd := ''/''\<rparr>);
                      p = p\<lparr>p_umask := 0\<rparr>;
                      fd = os_open os ''/dev/null''
                  in if fd < 0 then (Status MC_ERROR, p)
                     else
                       (case dup_loop os [0, 1, 2] p of
                          (MC_OK, p) \<Rightarrow>
                            (if fd > 2 then (Status (if os_close os then MC_OK else MC_ERROR), p) else (Status MC_OK, p))
                        | (err, p) \<Rightarrow> (Status err, p)))))))"

definition mc_create_pidfile :: "os \<Rightarrow> bytes \<Rightarrow> int \<Rightarrow> proc \<Rightarrow> rstatus \<times> proc" where
  "mc_create_pidfile os pid_filename pid p =
     (if os_open os pid_filename < 0 then (MC_ERROR, p)
      else
        (let p = p\<lparr>p_files := (p_files p)(pid_filename \<mapsto> []), p_pid_file := True\<rparr>;
             txt = print_int pid;
             n = os_write os txt
         in if n < 0 then (MC_ERROR, p)
            else
              (let p = p\<lparr>p_files := (p_files p)(pid_filename \<mapsto> take (nat n) txt)\<rparr> in
               (if os_close os then MC_OK else MC_ERROR, p))))"

definition mc_remove_pidfile :: "os \<Rightarrow> bytes \<Rightarrow> proc \<Rightarrow> proc" where
  "mc_remove_pidfile os pid_filename p =
     (if \<not> p_pid_file p then p
      else if os_unlink os then p\<lparr>p_files := (p_files p)(pid_filename := None)\<rparr> else p)"

text \<open>The build with \<^verbatim>\<open>MC_MLOCKALL\<close>.\<close>

definition mc_lock_page :: "os \<Rightarrow> proc \<Rightarrow> rstatus \<times> proc" where
  "mc_lock_page os p = (if \<not> os_mlockall os then (MC_ERROR, p) else (MC_OK, p\<lparr>p_locked := True\<rparr>))"

section \<open>The modules\<close>

text \<open>What the modules keep once they are set up.\<close>

record 'd node =
  nd_log :: logger
  nd_disp :: "signo \<Rightarrow> disposition"
  nd_cache :: cache
  nd_klog :: klog_state
  nd_hot :: "'d hotkey"

text \<open>
  The answers to the calls of \<^verbatim>\<open>core_init\<close>: of the log, of \<^verbatim>\<open>sigaction\<close>, whether there is an event base, the allocations of the hash
  table and of \<^verbatim>\<open>slab_init\<close>, the opening of the command log, and the memory of the hotkey window with the product of a double and a size.
\<close>

record 'd boot_os =
  su_log :: log_os
  su_sigaction :: "signo \<Rightarrow> bool"
  su_base :: bool
  su_talloc :: bool
  su_heap :: addr
  su_table :: bool
  su_klog :: bool
  su_hot :: hk_mem
  su_mul :: "'d \<Rightarrow> u64 \<Rightarrow> u64"

text \<open>The settings are one global; here every module holds its part.\<close>

definition apply_opts :: "'d opts \<Rightarrow> settings \<Rightarrow> 'd node \<Rightarrow> 'd node" where
  "apply_opts o1 st nd =
     nd\<lparr>nd_cache := (nd_cache nd)\<lparr>settings := st\<rparr>,
        nd_log := (nd_log nd)\<lparr>lg_verbose := op_verbose o1\<rparr>,
        nd_klog := (nd_klog nd)\<lparr>klog_running := op_klog_running o1, klog_sampling_rate := op_klog_sampling o1, klog_entry := nat (op_klog_entry o1)\<rparr>,
        nd_hot := (nd_hot nd)\<lparr>set_hotkey_enable := op_hotkey_enable o1, set_hotkey_redline_qps := op_hotkey_redline o1,
          set_hotkey_sample_rate := op_hotkey_sample o1, set_hotkey_qps_threshold := op_hotkey_qps o1,
          set_hotkey_bw_threshold := op_hotkey_bw o1\<rparr>\<rparr>"

text \<open>\<^verbatim>\<open>core_init\<close> up to the hotkey window; \<open>None\<close> stands for a division by zero there.\<close>

definition core_setup :: "'d boot_os \<Rightarrow> 'd opts \<Rightarrow> 'd node \<Rightarrow> (rstatus \<times> 'd node) option" where
  "core_setup su o1 nd =
     (case log_init (su_log su) (op_verbose o1) (st_log_filename (op_conf o1)) (nd_log nd) of
        (False, l) \<Rightarrow> Some (MC_ERROR, nd\<lparr>nd_log := l\<rparr>)
      | (True, l) \<Rightarrow>
          (let nd = nd\<lparr>nd_log := l\<rparr> in
           case signal_init (su_sigaction su) (nd_disp nd) of
             (sst, disp) \<Rightarrow>
               (let nd = nd\<lparr>nd_disp := disp\<rparr> in
                if sst \<noteq> MC_OK then Some (sst, nd)
                else if \<not> su_base su then Some (MC_ERROR, nd)
                else
                  (case core_cache_init (su_talloc su) (su_heap su) (su_table su) (nd_cache nd) of
                     (cst, s) \<Rightarrow>
                       (let nd = nd\<lparr>nd_cache := s\<rparr> in
                        if cst \<noteq> MC_OK then Some (cst, nd)
                        else
                          (case klog_init (st_klog_name (op_conf o1) \<noteq> None) (su_klog su) (nd_klog nd) of
                             (kst, k) \<Rightarrow>
                               (let nd = nd\<lparr>nd_klog := k\<rparr> in
                                if kst \<noteq> MC_OK then Some (kst, nd)
                                else
                                  map_option (\<lambda>(hst, h). (hst, nd\<lparr>nd_hot := h\<rparr>))
                                    (hotkey_init (su_mul su) (su_hot su) (nd_hot nd)))))))))"

section \<open>main\<close>

datatype 'd outcome = Exits int proc | Undefined | Serves "'d opts" "'d node" proc

text \<open>A step of \<^verbatim>\<open>main\<close> that fails exits with status 1.\<close>

definition and_then :: "rstatus \<times> proc \<Rightarrow> (proc \<Rightarrow> 'd outcome) \<Rightarrow> 'd outcome" where
  "and_then r k = (case r of (status, p) \<Rightarrow> if status \<noteq> MC_OK then Exits 1 p else k p)"

definition finish_main :: "'d dbl \<Rightarrow> 'd boot_os \<Rightarrow> 'd opts \<Rightarrow> 'd node \<Rightarrow> proc \<Rightarrow> 'd outcome" where
  "finish_main d su o1 nd p =
     (case mc_set_profile (op_profile o1) (d_mul d (st_factor (op_conf o1))) (op_set o1) of
        None \<Rightarrow> Exits 1 p
      | Some st \<Rightarrow>
          (case core_setup su o1 (apply_opts o1 st nd) of
             None \<Rightarrow> Undefined
           | Some (status, nd) \<Rightarrow> if status \<noteq> MC_OK then Exits 1 p else Serves o1 nd p))"

definition main_detached :: "'d dbl \<Rightarrow> os \<Rightarrow> 'd boot_os \<Rightarrow> 'd opts \<Rightarrow> 'd node \<Rightarrow> proc \<Rightarrow> 'd outcome" where
  "main_detached d os su o1 nd p =
     (let o1 = upd_conf (\<lambda>st. st\<lparr>st_pid := os_getpid os\<rparr>) o1 in
      and_then (case op_pid_filename o1 of None \<Rightarrow> (MC_OK, p) | Some f \<Rightarrow> mc_create_pidfile os f (st_pid (op_conf o1)) p)
        (\<lambda>p. and_then (if st_lock_page (op_conf o1) then mc_lock_page os p else (MC_OK, p))
           (\<lambda>p. finish_main d su o1 nd p)))"

definition mc_main :: "(nat \<Rightarrow> bool) \<Rightarrow> 'd dbl \<Rightarrow> os \<Rightarrow> 'd boot_os \<Rightarrow> getopt_result list \<Rightarrow> 'd node \<Rightarrow> proc \<Rightarrow> 'd outcome" where
  "mc_main al d os su rs nd p =
     (case mc_get_options al d rs (mc_set_default_options d) of
        Inl err \<Rightarrow> Exits 1 p
      | Inr o1 \<Rightarrow>
          if op_show_version o1 then Exits 0 p
          else
            and_then (if st_max_corefile (op_conf o1) then mc_maximize_core os p else (MC_OK, p))
              (\<lambda>p. and_then (mc_set_maxconns os (op_conf o1) p)
                 (\<lambda>p. and_then (mc_set_user os (op_conf o1) p)
                    (\<lambda>p. if st_daemonize (op_conf o1) then
                             (case mc_daemonize os (st_max_corefile (op_conf o1)) p of
                                (Gone n, p) \<Rightarrow> Exits n p
                              | (Status status, p) \<Rightarrow> and_then (status, p) (main_detached d os su o1 nd))
                           else main_detached d os su o1 nd p))))"

section \<open>What every step leaves alone\<close>

lemma mc_maximize_core_frame:
  "mc_maximize_core os p = (st, p') \<Longrightarrow> p_uid p' = p_uid p \<and> p_euid p' = p_euid p \<and> p_nofile p' = p_nofile p"
  by (auto simp: mc_maximize_core_def Let_def split: if_splits)

lemma mc_set_maxconns_ok:
  assumes "mc_set_maxconns os st p = (MC_OK, p')"
  shows "st_maxconns st \<le> int (fst (p_nofile p')) \<and> fst (p_nofile p') \<le> snd (p_nofile p') \<and> p_uid p' = p_uid p \<and> p_euid p' = p_euid p"
  using assms by (auto simp: mc_set_maxconns_def Let_def split: if_splits)

text \<open>A server never goes on as root, unless the user that was asked for is root.\<close>

definition user_ok :: "os \<Rightarrow> bytes option \<Rightarrow> proc \<Rightarrow> proc \<Rightarrow> bool" where
  "user_ok os name p p' \<longleftrightarrow>
     (if p_uid p \<noteq> 0 \<and> p_euid p \<noteq> 0 then name = None \<and> p_uid p' = p_uid p \<and> p_euid p' = p_euid p
      else \<exists>n u g. name = Some n \<and> os_getpwnam os n = Some (u, g) \<and> p_euid p' = u \<and> (p_euid p = 0 \<longrightarrow> p_uid p' = u))"

lemma mc_set_user_ok:
  assumes "mc_set_user os st p = (MC_OK, p')"
  shows "user_ok os (st_username st) p p' \<and> p_nofile p' = p_nofile p"
  using assms by (auto simp: mc_set_user_def user_ok_def Let_def split: if_splits option.splits)

lemma dup_loop_frame:
  "dup_loop os ds p = (st, p') \<Longrightarrow> p_leader p' = p_leader p \<and> p_hup_ignored p' = p_hup_ignored p \<and> p_uid p' = p_uid p
     \<and> p_euid p' = p_euid p \<and> p_nofile p' = p_nofile p"
  by (induction ds arbitrary: p) (fastforce split: if_splits)+

lemma dup_loop_null:
  "dup_loop os ds p = (MC_OK, p') \<Longrightarrow> p_fds p' i = (if i \<in> set ds then Some ''/dev/null'' else p_fds p i)"
  by (induction ds arbitrary: p) (auto split: if_splits)

definition detached :: "proc \<Rightarrow> bool" where
  "detached p \<longleftrightarrow> \<not> p_leader p \<and> p_hup_ignored p \<and> (\<forall>i < 3. p_fds p i = Some ''/dev/null'')"

lemma mc_daemonize_ok:
  assumes "mc_daemonize os dump p = (Status MC_OK, p')"
  shows "detached p' \<and> p_uid p' = p_uid p \<and> p_euid p' = p_euid p \<and> p_nofile p' = p_nofile p"
proof -
  define q where "q = (if dump then p\<lparr>p_leader := False, p_hup_ignored := True, p_umask := 0\<rparr>
    else p\<lparr>p_leader := False, p_hup_ignored := True, p_umask := 0, p_cwd := ''/''\<rparr>)"
  obtain st r where d: "dup_loop os [0, 1, 2] q = (st, r)" by fastforce
  have "st = MC_OK \<and> p' = r"
    using assms d unfolding mc_daemonize_def q_def
    by (auto simp: Let_def split: if_splits rstatus.splits prod.splits)
  then have "p_fds p' i = Some ''/dev/null''" if "i < 3" for i
    using dup_loop_null [of os "[0, 1, 2]" q p' i] d that by (auto simp: numeral_3_eq_3 less_Suc_eq)
  moreover note dup_loop_frame [OF d]
  moreover note \<open>st = MC_OK \<and> p' = r\<close>
  ultimately show ?thesis by (simp add: detached_def q_def)
qed

lemma mc_create_pidfile_ok:
  assumes "mc_create_pidfile os f pid p = (MC_OK, p')"
  shows "\<exists>n. p_files p' f = Some (take n (print_int pid)) \<and> int n = os_write os (print_int pid)
    \<and> p' = p\<lparr>p_files := p_files p', p_pid_file := True\<rparr>"
  using assms by (auto simp: mc_create_pidfile_def Let_def split: if_splits intro!: exI [of _ "nat (os_write os (print_int pid))"])

section \<open>What main guarantees\<close>

lemma and_then_Serves: "and_then r k = Serves o1 nd p' \<Longrightarrow> \<exists>p. r = (MC_OK, p) \<and> k p = Serves o1 nd p'"
  by (auto simp: and_then_def split: prod.splits if_splits)

lemma hotkey_init_defined: "set_hotkey_sample_rate h \<noteq> 0 \<Longrightarrow> hotkey_init mul mem h \<noteq> None"
  by (simp add: hotkey_init_def window_sizes_def Let_def split: prod.splits)

text \<open>With accepted options no step of the set-up is undefined.\<close>

lemma core_setup_defined:
  assumes "op_hotkey_sample o1 \<noteq> 0" shows "core_setup su o1 (apply_opts o1 st nd) \<noteq> None"
  using hotkey_init_defined [of "nd_hot (apply_opts o1 st nd)"] assms
  by (auto simp: core_setup_def apply_opts_def Let_def split: prod.splits bool.splits)

lemma core_setup_ok:
  assumes "core_setup su o1 nd = Some (MC_OK, nd')"
  shows "log_ok (nd_log nd') \<and> lg_level (nd_log nd') = max LOG_EMERG (min (op_verbose o1) LOG_PVERB)
    \<and> signal_init (su_sigaction su) (nd_disp nd) = (MC_OK, nd_disp nd')
    \<and> core_cache_init (su_talloc su) (su_heap su) (su_table su) (nd_cache nd) = (MC_OK, nd_cache nd')"
  using assms
  by (auto simp: core_setup_def Let_def log_init_def log_ok_def LOG_EMERG_def LOG_PVERB_def split: prod.splits bool.splits if_splits option.splits)

definition serving :: "'d dbl \<Rightarrow> os \<Rightarrow> env \<Rightarrow> proc \<Rightarrow> 'd opts \<Rightarrow> 'd node \<Rightarrow> proc \<Rightarrow> bool" where
  "serving d os e p o1 nd p' \<longleftrightarrow>
     opts_ok d o1 \<and> \<not> op_show_version o1 \<and> cache_inv e (nd_cache nd) \<and> view (nd_cache nd) = Map.empty \<and> log_ok (nd_log nd)
     \<and> (\<forall>sig. nd_disp nd sig = (if sig = SIGPIPE then SIG_IGN else Handler (sig = SIGSEGV)))
     \<and> st_maxconns (op_conf o1) \<le> int (fst (p_nofile p')) \<and> user_ok os (st_username (op_conf o1)) p p'
     \<and> (st_daemonize (op_conf o1) \<longrightarrow> detached p')
     \<and> (\<forall>f. op_pid_filename o1 = Some f \<longrightarrow> p_pid_file p' \<and> (\<exists>n. p_files p' f = Some (take n (print_int (os_getpid os)))))"

lemma finish_main_ok:
  assumes "finish_main d su o1 nd p = Serves o2 nd' p'" and "opts_ok d o1" and "\<not> ub (nd_cache nd)"
    and "\<And>x. x < SLAB_MAX_SIZE \<Longrightarrow> x \<le> d_mul d (st_factor (op_conf o1)) x"
  shows "o2 = o1 \<and> p' = p \<and> cache_inv e (nd_cache nd') \<and> view (nd_cache nd') = Map.empty \<and> log_ok (nd_log nd')
    \<and> (\<forall>sig. nd_disp nd' sig = (if sig = SIGPIPE then SIG_IGN else Handler (sig = SIGSEGV)))"
proof -
  obtain st where st: "mc_set_profile (op_profile o1) (d_mul d (st_factor (op_conf o1))) (op_set o1) = Some st"
    using assms(1) by (auto simp: finish_main_def split: option.splits)
  have r: "core_setup su o1 (apply_opts o1 st nd) = Some (MC_OK, nd')" "o2 = o1" "p' = p"
    using assms(1) st by (auto simp: finish_main_def split: option.splits if_splits prod.splits)
  note c = core_setup_ok [OF r(1)]
  have "profile_ok st \<and> slab_size_opt st \<le> 2 ^ 27" by (rule opts_profile_ok [OF assms(2) st assms(4)])
  moreover have "settings (nd_cache (apply_opts o1 st nd)) = st" "\<not> ub (nd_cache (apply_opts o1 st nd))"
    using assms(3) by (simp_all add: apply_opts_def)
  moreover have "nd_disp nd' sig = (if sig = SIGPIPE then SIG_IGN else Handler (sig = SIGSEGV))" for sig
    using c by (blast intro: signal_init_spec)
  ultimately show ?thesis
    using c r(2,3) core_cache_init_inv [of "su_talloc su" "su_heap su" "su_table su" "nd_cache (apply_opts o1 st nd)"]
    by simp
qed

lemma main_detached_conf:
  "main_detached d os su o1 nd p = Serves o2 nd' p' \<Longrightarrow> o2 = upd_conf (\<lambda>st. st\<lparr>st_pid := os_getpid os\<rparr>) o1"
  by (auto simp: main_detached_def Let_def finish_main_def split: option.splits prod.splits if_splits dest!: and_then_Serves)

lemma main_detached_ok:
  assumes "main_detached d os su o1 nd p = Serves o2 nd' p'" and "opts_ok d o1" and "\<not> ub (nd_cache nd)"
    and "\<And>x. x < SLAB_MAX_SIZE \<Longrightarrow> x \<le> d_mul d (st_factor (op_conf o1)) x"
  shows "o2 = upd_conf (\<lambda>st. st\<lparr>st_pid := os_getpid os\<rparr>) o1
    \<and> cache_inv e (nd_cache nd') \<and> view (nd_cache nd') = Map.empty \<and> log_ok (nd_log nd')
    \<and> (\<forall>sig. nd_disp nd' sig = (if sig = SIGPIPE then SIG_IGN else Handler (sig = SIGSEGV)))
    \<and> p_uid p' = p_uid p \<and> p_euid p' = p_euid p \<and> p_nofile p' = p_nofile p \<and> (detached p \<longrightarrow> detached p')
    \<and> (\<forall>f. op_pid_filename o1 = Some f \<longrightarrow> p_pid_file p' \<and> (\<exists>n. p_files p' f = Some (take n (print_int (os_getpid os)))))"
proof -
  let ?o = "upd_conf (\<lambda>st. st\<lparr>st_pid := os_getpid os\<rparr>) o1"
  let ?f = "case op_pid_filename ?o of None \<Rightarrow> (MC_OK, p) | Some f \<Rightarrow> mc_create_pidfile os f (st_pid (op_conf ?o)) p"
  obtain p1 where p1: "?f = (MC_OK, p1)"
    and 1: "and_then (if st_lock_page (op_conf ?o) then mc_lock_page os p1 else (MC_OK, p1)) (finish_main d su ?o nd) = Serves o2 nd' p'"
    using and_then_Serves [OF assms(1) [unfolded main_detached_def Let_def]] by blast
  obtain p2 where p2: "(if st_lock_page (op_conf ?o) then mc_lock_page os p1 else (MC_OK, p1)) = (MC_OK, p2)"
    and 2: "finish_main d su ?o nd p2 = Serves o2 nd' p'"
    using and_then_Serves [OF 1] by blast
  have o: "opts_ok d ?o" "st_factor (op_conf ?o) = st_factor (op_conf o1)" using assms(2) by (simp_all add: opts_defs)
  have f: "o2 = ?o \<and> p' = p2 \<and> cache_inv e (nd_cache nd') \<and> view (nd_cache nd') = Map.empty \<and> log_ok (nd_log nd')
    \<and> (\<forall>sig. nd_disp nd' sig = (if sig = SIGPIPE then SIG_IGN else Handler (sig = SIGSEGV)))"
    by (rule finish_main_ok [OF 2 o(1) assms(3)]) (use assms(4) o(2) in simp)
  have q: "p2 = p1 \<or> p2 = p1\<lparr>p_locked := True\<rparr>" using p2 by (auto simp: mc_lock_page_def split: if_splits)
  have w: "p_uid p1 = p_uid p \<and> p_euid p1 = p_euid p \<and> p_nofile p1 = p_nofile p \<and> (detached p \<longrightarrow> detached p1)
    \<and> (\<forall>f. op_pid_filename o1 = Some f \<longrightarrow> p_pid_file p1 \<and> (\<exists>n. p_files p1 f = Some (take n (print_int (os_getpid os)))))"
    using p1
    by (auto simp: upd_conf_def mc_create_pidfile_def detached_def Let_def split: option.splits if_splits)
  show ?thesis using f q w by (auto simp: detached_def)
qed

lemma mc_main_serving:
  assumes "mc_main al d os su rs nd p = Serves o1 nd' p'" and "\<not> ub (nd_cache nd)"
    and "d_above_one d (d_MC_FACTOR d)" and "d_fraction d (d_HOTKEY_QPS_THRESHOLD d)"
    and "\<And>f x. d_above_one d f \<Longrightarrow> \<not> huge f \<Longrightarrow> x < SLAB_MAX_SIZE \<Longrightarrow> x \<le> d_mul d f x" and "\<not> huge (st_factor (op_conf o1))"
  shows "serving d os e p o1 nd' p'"
proof -
  obtain o2 where o2: "mc_get_options al d rs (mc_set_default_options d) = Inr o2" "\<not> op_show_version o2"
    using assms(1) by (auto simp: mc_main_def split: sum.splits if_splits)
  have ok: "opts_ok d o2" by (rule mc_get_options_ok [OF o2(1) default_options_ok [OF assms(3,4)]])
  let ?st = "op_conf o2"
  let ?k3 = "\<lambda>p. if st_daemonize ?st then
      (case mc_daemonize os (st_max_corefile ?st) p of
         (Gone n, p) \<Rightarrow> Exits n p | (Status status, p) \<Rightarrow> and_then (status, p) (main_detached d os su o2 nd))
    else main_detached d os su o2 nd p"
  have "and_then (if st_max_corefile ?st then mc_maximize_core os p else (MC_OK, p))
      (\<lambda>p. and_then (mc_set_maxconns os ?st p) (\<lambda>p. and_then (mc_set_user os ?st p) ?k3)) = Serves o1 nd' p'"
    using assms(1) o2 unfolding mc_main_def by simp
  then obtain p1 p2 p3 where p1: "(if st_max_corefile ?st then mc_maximize_core os p else (MC_OK, p)) = (MC_OK, p1)"
    and p2: "mc_set_maxconns os ?st p1 = (MC_OK, p2)" and p3: "mc_set_user os ?st p2 = (MC_OK, p3)" and k: "?k3 p3 = Serves o1 nd' p'"
    by (blast dest: and_then_Serves)
  obtain p4 where p4: "main_detached d os su o2 nd p4 = Serves o1 nd' p'"
    and e4: "if st_daemonize ?st then mc_daemonize os (st_max_corefile ?st) p3 = (Status MC_OK, p4) else p4 = p3"
    using k by (cases "st_daemonize ?st") (auto split: prod.splits step.splits dest: and_then_Serves)
  have o1: "o1 = upd_conf (\<lambda>st. st\<lparr>st_pid := os_getpid os\<rparr>) o2" by (rule main_detached_conf [OF p4])
  have conf: "opts_ok d o1" "\<not> op_show_version o1" "st_maxconns (op_conf o1) = st_maxconns ?st" "st_username (op_conf o1) = st_username ?st"
    "st_daemonize (op_conf o1) = st_daemonize ?st" "op_pid_filename o1 = op_pid_filename o2" "st_factor (op_conf o1) = st_factor ?st"
    using ok o2(2) by (simp_all add: o1 opts_defs)
  have "x \<le> d_mul d (st_factor ?st) x" if "x < SLAB_MAX_SIZE" for x
    by (rule assms(5)) (use conf(1,7) assms(6) that in \<open>simp_all add: opts_ok_def Let_def\<close>)
  note m = main_detached_ok [OF p4 ok assms(2) this]
  have u: "p_uid p1 = p_uid p \<and> p_euid p1 = p_euid p"
    using p1 mc_maximize_core_frame by (cases "st_max_corefile ?st") auto
  have "p_uid p4 = p_uid p3 \<and> p_euid p4 = p_euid p3 \<and> p_nofile p4 = p_nofile p3 \<and> (st_daemonize ?st \<longrightarrow> detached p4)"
    using e4 mc_daemonize_ok by (cases "st_daemonize ?st") auto
  then show ?thesis
    using conf m u mc_set_maxconns_ok [OF p2] mc_set_user_ok [OF p3] by (auto simp: serving_def user_ok_def)
qed

lemma and_then_Undefined: "and_then r k = Undefined \<Longrightarrow> \<exists>p. r = (MC_OK, p) \<and> k p = Undefined"
  by (auto simp: and_then_def split: prod.splits if_splits)

lemma main_detached_defined:
  assumes "opts_ok d o1" shows "main_detached d os su o1 nd p \<noteq> Undefined"
proof
  assume "main_detached d os su o1 nd p = Undefined"
  then obtain st where "core_setup su (upd_conf (\<lambda>st. st\<lparr>st_pid := os_getpid os\<rparr>) o1)
      (apply_opts (upd_conf (\<lambda>st. st\<lparr>st_pid := os_getpid os\<rparr>) o1) st nd) = None"
    by (auto simp: main_detached_def Let_def finish_main_def split: option.splits prod.splits if_splits dest!: and_then_Undefined)
  moreover have "op_hotkey_sample (upd_conf (\<lambda>st. st\<lparr>st_pid := os_getpid os\<rparr>) o1) \<noteq> 0" using assms by (simp add: opts_defs)
  ultimately show False using core_setup_defined by blast
qed

lemma mc_main_defined:
  assumes "d_above_one d (d_MC_FACTOR d)" and "d_fraction d (d_HOTKEY_QPS_THRESHOLD d)"
  shows "mc_main al d os su rs nd p \<noteq> Undefined"
proof
  assume u: "mc_main al d os su rs nd p = Undefined"
  then obtain o1 where o1: "mc_get_options al d rs (mc_set_default_options d) = Inr o1" by (auto simp: mc_main_def split: sum.splits)
  have "opts_ok d o1" by (rule mc_get_options_ok [OF o1 default_options_ok [OF assms]])
  then have "main_detached d os su o1 nd p1 \<noteq> Undefined" for p1 by (rule main_detached_defined)
  then show False using u o1 by (auto simp: mc_main_def split: if_splits step.splits prod.splits dest!: and_then_Undefined)
qed

end
