(* ===== verification/McDemoStart.thy ===== *)
theory McDemoStart
  imports McDemoDrv McStart
begin

text \<open>
  Concrete inputs for the properties of the start-up: doubles as numbers of hundredths, and a command line.
\<close>

definition demo_dbl :: "nat dbl" where
  "demo_dbl = \<lparr>d_strtod = dec_val, d_fraction = (\<lambda>f. 0 < f \<and> f \<le> 100), d_above_one = (\<lambda>f. 100 < f), d_MC_FACTOR = 125,
     d_HOTKEY_QPS_THRESHOLD = 1, d_mul = (\<lambda>f x. x * f div 100)\<rparr>"

definition demo_options :: "getopt_result list" where
  "demo_options = [Opt CHR ''t'' ''4'', Opt CHR ''p'' ''22122'', Opt CHR ''I'' ''512k'', Opt CHR ''M'' ''4'']"

definition demo_opts :: "nat opts" where
  "demo_opts = (upd_conf (\<lambda>st. st\<lparr>st_num_workers := 4, st_port := 22122, st_udpport := 22122\<rparr>)
     (upd_set (\<lambda>st. st\<lparr>slab_size_opt := 524288, evict_opt := EVICT_AS\<rparr>) (mc_set_default_options demo_dbl)))\<lparr>op_tcp := True\<rparr>"

lemma demo_numbers: "mc_atoi ''4'' = 4" "mc_atoi ''22122'' = 22122" "mc_atoi ''512'' = 512"
  by code_simp+

lemma demo_opts_fields:
  "op_profile demo_opts = None" "prealloc (op_set demo_opts) = False" "st_username (op_conf demo_opts) = None"
  "slab_size_opt (op_set demo_opts) = 524288" "st_factor (op_conf demo_opts) = 125" "st_log_filename (op_conf demo_opts) = None"
  "st_klog_name (op_conf demo_opts) = None" "op_show_version demo_opts = False" "st_max_corefile (op_conf demo_opts) = False"
  "st_daemonize (op_conf demo_opts) = False" "op_pid_filename demo_opts = None" "st_lock_page (op_conf demo_opts) = False"
  "op_hotkey_sample demo_opts = 100"
  by (simp_all add: demo_opts_def upd_conf_def upd_set_def mc_set_default_options_def demo_dbl_def)

lemma demo_mul: "100 < f \<Longrightarrow> x \<le> x * f div (100 :: nat)"
  using div_le_mono [of "x * 100" "x * f" 100] by simp

lemma demo_opts_run: "mc_get_options (\<lambda>_. True) demo_dbl demo_options (mc_set_default_options demo_dbl) = Inr demo_opts"
  by (simp add: mc_get_options_def demo_options_def demo_opts_def mc_option_def opt_logging_def opt_network_def opt_memory_def
      slab_size_value_def demo_numbers Let_def settle_ports_def upd_conf_def upd_set_def mc_set_default_options_def
      EVICT_INVALID_def EVICT_NONE_def EVICT_CS_def EVICT_AS_def MC_ALIGNMENT_def SLAB_MIN_SIZE_def SLAB_MAX_SIZE_def MB_def)

text \<open>A system in which every call succeeds, and a process of an ordinary user.\<close>

definition demo_os :: os where
  "demo_os = \<lparr>os_getrlimit = True, os_setrlimit = (\<lambda>_. True), os_getpwnam = (\<lambda>_. None), os_setgid = True, os_setuid = True, os_fork = (\<lambda>_. 0),
     os_setsid = True, os_signal = True, os_chdir = True, os_open = (\<lambda>_. 3), os_dup2 = (\<lambda>_. True), os_close = True,
     os_write = (\<lambda>t. int (length t)), os_unlink = True, os_mlockall = True, os_getpid = 42\<rparr>"

definition demo_proc :: proc where
  "demo_proc = \<lparr>p_uid = 1000, p_euid = 1000, p_gid = 1000, p_nofile = (256, 4096), p_core = (0, 0), p_fds = Map.empty, p_cwd = ''/home'',
     p_umask = 18, p_leader = False, p_hup_ignored = False, p_locked = False, p_files = Map.empty, p_pid_file = False\<rparr>"

definition demo_log_os :: log_os where
  "demo_log_os = \<lparr>lo_open = (\<lambda>_. 3), lo_write = (\<lambda>t. int (length t)), lo_time = ''now'', lo_strerror = [], lo_frames = [], lo_debug = False\<rparr>"

definition demo_logger :: logger where
  "demo_logger = \<lparr>lg_name = None, lg_level = 5, lg_fd = 2, lg_nerror = 0, lg_verbose = 5, lg_file = [], lg_stderr = []\<rparr>"

definition demo_boot_os :: "nat boot_os" where
  "demo_boot_os = \<lparr>su_log = demo_log_os, su_sigaction = (\<lambda>_. True), su_base = True, su_talloc = True, su_heap = 0, su_table = True, su_klog = True,
     su_hot = \<lparr>hm_queue = Some (replicate 801 \<lparr>kw_kcme = 0, kw_timestamp_us = 0\<rparr>),
       hm_table = Some (replicate 1600 \<lparr>kc_key = [], kc_klen = 0, kc_count = 0\<rparr>)\<rparr>, su_mul = (\<lambda>f x. x)\<rparr>"

definition demo_node :: "nat node" where
  "demo_node = \<lparr>nd_log = demo_logger, nd_disp = (\<lambda>_. SIG_DFL), nd_cache = demo_cache, nd_klog = demo_klog,
     nd_hot = \<lparr>hotkey_realloc = False, hotkey_counter = 0, hotkey_redline_qps = 0, hotkey_sample_rate = 0, hotkey_timeframe = 1000,
       hotkey_window_size = 0, hotkey_threshold = 0, hotkey_bw_threshold = 0, hotkey_qps_numerator = 0, hk_window = demo_window,
       set_hotkey_enable = False, set_hotkey_redline_qps = 0, set_hotkey_sample_rate = 0, set_hotkey_qps_threshold = 0,
       set_hotkey_bw_threshold = 0\<rparr>\<rparr>"

definition demo_running :: "nat opts" where
  "demo_running = upd_conf (\<lambda>st. st\<lparr>st_pid := 42\<rparr>) demo_opts"

lemma demo_setup_ok:
  assumes "prealloc st = False"
  shows "\<exists>nd'. core_setup demo_boot_os demo_running (apply_opts demo_running st demo_node) = Some (MC_OK, nd')"
proof -
  let ?c = "demo_cache\<lparr>settings := st\<rparr>"
  obtain s' where s': "core_cache_init True 0 True ?c = (MC_OK, s')"
    using core_cache_init_status [of True 0 True ?c] assms by (cases "core_cache_init True 0 True ?c") auto
  show ?thesis
    by (simp add: core_setup_def Let_def log_init_def demo_opts_fields demo_running_def upd_conf_def signal_init_def signals_def s' klog_init_def
        hotkey_init_def window_sizes_def key_window_init_def ring_array_create_def kc_map_init_def demo_boot_os_def demo_node_def apply_opts_def)
qed

lemma demo_main:
  "\<exists>nd' p'. mc_main (\<lambda>_. True) demo_dbl demo_os demo_boot_os demo_options demo_node demo_proc = Serves demo_running nd' p'"
proof -
  define st where "st = mc_generate_profile (d_mul demo_dbl 125) (op_set demo_opts)"
  have "prealloc st = False" by (simp add: st_def mc_generate_profile_def Let_def demo_opts_fields split: prod.splits)
  from demo_setup_ok [OF this] obtain nd' where nd': "core_setup demo_boot_os demo_running (apply_opts demo_running st demo_node) = Some (MC_OK, nd')" ..
  have p: "mc_set_profile None (d_mul demo_dbl 125) (op_set demo_opts) = Some st" by (simp add: mc_set_profile_def st_def)
  have "finish_main demo_dbl demo_boot_os demo_running demo_node p = Serves demo_running nd' p" for p
    using p nd' unfolding finish_main_def by (simp add: demo_running_def upd_conf_def demo_opts_fields)
  then have "main_detached demo_dbl demo_os demo_boot_os demo_opts demo_node p = Serves demo_running nd' p" for p
    by (simp add: main_detached_def Let_def demo_running_def [symmetric] demo_os_def and_then_def)
      (simp add: demo_running_def upd_conf_def demo_opts_fields)
  then show ?thesis
    by (simp add: mc_main_def demo_opts_run demo_opts_fields and_then_def mc_set_maxconns_def mc_set_user_def demo_os_def demo_proc_def Let_def)
qed

end
