(* ===== verification/McListen.thy ===== *)
theory McListen
  imports McCore
begin

text \<open>
  The listening sockets: \<^verbatim>\<open>core_create_socket\<close> and what it calls in \<^verbatim>\<open>mc_core.c\<close>, the search for the largest
  send buffer (\<^verbatim>\<open>mc_maximize_sndbuf\<close> of \<^verbatim>\<open>mc_util.c\<close>).
  What the system answers is a record per address. A server that is told to listen does so on at least one address, every socket it only_adds
  is ready, and a datagram socket is handed to every worker exactly once.
\<close>

section \<open>The size of the send buffer\<close>

text \<open>\<open>set\<close> tells whether the kernel accepts a size; \<open>sz\<close> is the size the socket has.\<close>

function maximize_loop :: "(int \<Rightarrow> bool) \<Rightarrow> int \<Rightarrow> int \<Rightarrow> int \<Rightarrow> int" where
  "maximize_loop setbuf mn mx sz =
     (if mn \<le> mx then
        (let avg = (mn + mx) div 2 in
         if \<not> setbuf avg then maximize_loop setbuf mn (avg - 1) sz else maximize_loop setbuf (avg + 1) mx avg)
      else sz)"
  by pat_completeness auto
termination
  by (relation "measure (\<lambda>(setbuf, mn, mx, sz). nat (mx - mn + 1))") auto

declare maximize_loop.simps [simp del]

definition mc_maximize_sndbuf :: "int option \<Rightarrow> (int \<Rightarrow> bool) \<Rightarrow> int \<Rightarrow> int" where
  "mc_maximize_sndbuf getbuf setbuf sz =
     (case getbuf of
        None \<Rightarrow> sz
      | Some mn \<Rightarrow> maximize_loop setbuf mn (256 * 1048576) sz)"

text \<open>When the kernel accepts exactly the sizes up to a limit, the buffer ends up with the largest of them in the range searched.\<close>

lemma maximize_loop_max:
  assumes "\<And>x. setbuf x \<longleftrightarrow> x \<le> lim" and "0 \<le> mn"
  shows "maximize_loop setbuf mn mx sz = (if mn \<le> mx \<and> mn \<le> lim then min lim mx else sz)"
  using assms
proof (induction setbuf mn mx sz rule: maximize_loop.induct)
  case (1 setbuf mn mx sz)
  show ?case
  proof (cases "mn \<le> mx")
    case True
    let ?avg = "(mn + mx) div 2"
    have a: "mn \<le> ?avg" "?avg \<le> mx" using True by auto
    show ?thesis
    proof (cases "setbuf ?avg")
      case s: True
      then have l: "?avg \<le> lim" using "1.prems"(1) by blast
      have "maximize_loop setbuf (?avg + 1) mx ?avg = (if ?avg + 1 \<le> mx \<and> ?avg + 1 \<le> lim then min lim mx else ?avg)"
        using "1.IH"(2) [OF True refl _ "1.prems"(1)] s "1.prems"(2) a by simp
      moreover have "maximize_loop setbuf mn mx sz = maximize_loop setbuf (?avg + 1) mx ?avg"
        using True s by (subst maximize_loop.simps) (simp add: Let_def)
      ultimately show ?thesis using True l a by auto
    next
      case s: False
      then have l: "lim < ?avg" using "1.prems"(1) [of ?avg] by simp
      have "maximize_loop setbuf mn (?avg - 1) sz = (if mn \<le> ?avg - 1 \<and> mn \<le> lim then min lim (?avg - 1) else sz)"
        using "1.IH"(1) [OF True refl s "1.prems"] .
      moreover have "maximize_loop setbuf mn mx sz = maximize_loop setbuf mn (?avg - 1) sz"
        using True s by (subst maximize_loop.simps) (simp add: Let_def)
      ultimately show ?thesis using True l a by auto
    qed
  qed (simp add: maximize_loop.simps)
qed

section \<open>Listening sockets\<close>

text \<open>
  A socket, and the state the creation of sockets changes: the open ones, the queue of listening connections with the newest first, the workers, and the mask
  of the process with the mode bits of the path that was bound last.
\<close>

record sock =
  so_dgram :: bool
  so_nonblock :: bool
  so_v6only :: bool
  so_reuse :: bool
  so_sndbuf :: int
  so_bound :: bool
  so_listen :: "int option"

record lstate =
  ls_socks :: "int \<Rightarrow> sock option"
  ls_queue :: "(int \<times> listener) list"
  ls_threads :: threads
  ls_metrics :: thread_metrics
  ls_umask :: nat
  ls_path :: "(bytes \<times> nat) option"

datatype bind_ans = Bind_ok | Addr_in_use | Bind_error

text \<open>The answers for one address; \<open>aa_disp\<close> is for the dispatch to the n-th worker.\<close>

record addr_ans =
  aa_inet6 :: bool
  aa_socket :: int
  aa_nonblock :: bool
  aa_v6only :: bool
  aa_reuse :: bool
  aa_sndbuf :: int
  aa_getbuf :: "int option"
  aa_setbuf :: "int \<Rightarrow> bool"
  aa_bind :: bind_ans
  aa_listen :: bool
  aa_conn :: conn_mem
  aa_event :: bool
  aa_disp :: "nat \<Rightarrow> conn_mem \<times> bytes \<times> bool"

definition close_sd :: "int \<Rightarrow> lstate \<Rightarrow> lstate" where
  "close_sd sd l = l\<lparr>ls_socks := (ls_socks l)(sd := None)\<rparr>"

text \<open>The loop that hands a datagram socket to as many workers as there are, \<open>c\<close> of them done.\<close>

fun dispatch_loop :: "nat \<Rightarrow> addr_ans \<Rightarrow> nat \<Rightarrow> nat \<Rightarrow> threads \<times> thread_metrics \<Rightarrow> rstatus \<times> threads \<times> thread_metrics" where
  "dispatch_loop csize a c 0 tm = (MC_OK, tm)"
| "dispatch_loop csize a c (Suc n) tm =
     (let (cm, peer, wr) = aa_disp a c in
      case thread_dispatch csize cm peer wr (aa_socket a) CONN_READ EV_read True tm of
        (MC_OK, tm) \<Rightarrow> dispatch_loop csize a (c + 1) n tm
      | (err, tm) \<Rightarrow> (err, tm))"

text \<open>The socket an address gets before it is bound.\<close>

definition fresh_sock :: "addr_ans \<Rightarrow> bool \<Rightarrow> sock" where
  "fresh_sock a udp =
     \<lparr>so_dgram = udp, so_nonblock = True, so_v6only = aa_inet6 a, so_reuse = aa_reuse a,
      so_sndbuf = (if udp then mc_maximize_sndbuf (aa_getbuf a) (aa_setbuf a) (aa_sndbuf a) else aa_sndbuf a),
      so_bound = True, so_listen = None\<rparr>"

text \<open>
  One round of the loop over the addresses: \<open>Inl\<close> is an early return with its status, \<open>Inr\<close> tells whether the address was bound.
\<close>

definition inet_round :: "nat \<Rightarrow> 'd conf \<Rightarrow> bool \<Rightarrow> addr_ans \<Rightarrow> lstate \<Rightarrow> (rstatus + bool) \<times> lstate" where
  "inet_round csize st udp a l =
     (let sd = aa_socket a in
      if sd < 0 then (Inr False, l)
      else if \<not> aa_nonblock a then (Inr False, close_sd sd l)
      else if aa_inet6 a \<and> \<not> aa_v6only a then (Inr False, close_sd sd l)
      else
        (case aa_bind a of
           Bind_error \<Rightarrow> (Inl MC_ERROR, close_sd sd l)
         | Addr_in_use \<Rightarrow> (Inr False, close_sd sd l)
         | Bind_ok \<Rightarrow>
             (let so = fresh_sock a udp; l = l\<lparr>ls_socks := (ls_socks l)(sd \<mapsto> so)\<rparr> in
              if udp then
                (case dispatch_loop csize a 0 (nat (st_num_workers st)) (ls_threads l, ls_metrics l) of
                   (status, th, m) \<Rightarrow>
                     (let l = l\<lparr>ls_threads := th, ls_metrics := m\<rparr> in
                      if status \<noteq> MC_OK then (Inl status, l) else (Inr True, l)))
              else if \<not> aa_listen a then (Inl MC_ERROR, close_sd sd l)
              else
                (let l = l\<lparr>ls_socks := (ls_socks l)(sd \<mapsto> so\<lparr>so_listen := Some (st_backlog st)\<rparr>)\<rparr>;
                     cm = aa_conn a
                 in case conn_get csize (cm_ok cm) (cm_bufs cm) CONN_LISTEN 1 False (cm_rbuf cm) (cm_wbuf cm) (ls_metrics l) of
                      (None, m) \<Rightarrow> (Inl MC_ERROR, l\<lparr>ls_metrics := m\<rparr>)
                    | (Some c, m) \<Rightarrow>
                        (let l = l\<lparr>ls_metrics := m,
                               ls_queue := (sd, \<lparr>l_flags = EV_read, l_backlog = st_backlog st\<rparr>) # ls_queue l\<rparr>
                         in if \<not> aa_event a then (Inl MC_ERROR, l) else (Inr True, l))))))"

fun inet_loop :: "nat \<Rightarrow> 'd conf \<Rightarrow> bool \<Rightarrow> addr_ans list \<Rightarrow> nat \<Rightarrow> lstate \<Rightarrow> rstatus \<times> lstate" where
  "inet_loop csize st udp [] success l = (if success \<noteq> 0 then MC_OK else MC_ERROR, l)"
| "inet_loop csize st udp (a # as) success l =
     (case inet_round csize st udp a l of
        (Inl status, l) \<Rightarrow> (status, l)
      | (Inr b, l) \<Rightarrow> inet_loop csize st udp as (if b then success + 1 else success) l)"

text \<open>\<open>ai\<close> are the addresses \<^verbatim>\<open>getaddrinfo\<close> returned for the interface and the port.\<close>

definition core_create_inet_socket :: "nat \<Rightarrow> 'd conf \<Rightarrow> addr_ans list option \<Rightarrow> bool \<Rightarrow> lstate \<Rightarrow> rstatus \<times> lstate" where
  "core_create_inet_socket csize st ai udp l =
     (case ai of
        None \<Rightarrow> (MC_ERROR, l)
      | Some as \<Rightarrow> inet_loop csize st udp as 0 l)"

text \<open>
  A unix socket is created with the mask that leaves the access bits asked for, and its path is cut to the size of the address; the results of the
  calls that set options are ignored.
\<close>

definition SUN_PATH_LEN :: nat where "SUN_PATH_LEN = 108"

definition core_create_unix_socket :: "nat \<Rightarrow> 'd conf \<Rightarrow> addr_ans \<Rightarrow> bytes \<Rightarrow> nat \<Rightarrow> lstate \<Rightarrow> rstatus \<times> lstate" where
  "core_create_unix_socket csize st a path acc l =
     (let sd = aa_socket a in
      if sd < 0 then (MC_ERROR, l)
      else if \<not> aa_nonblock a then (MC_ERROR, close_sd sd l)
      else
        (let sun_path = take (SUN_PATH_LEN - 1) path;
             old_mask = ls_umask l;
             l = l\<lparr>ls_umask := 511 - acc mod 512\<rparr>
         in if aa_bind a \<noteq> Bind_ok then (MC_ERROR, (close_sd sd l)\<lparr>ls_umask := old_mask\<rparr>)
            else
              (let l = l\<lparr>ls_path := Some (sun_path, 511 - ls_umask l)\<rparr>;
                   l = l\<lparr>ls_umask := old_mask\<rparr>
               in if \<not> aa_listen a then (MC_ERROR, close_sd sd l)
                  else
                    (let so = \<lparr>so_dgram = False, so_nonblock = True, so_v6only = False, so_reuse = aa_reuse a, so_sndbuf = aa_sndbuf a,
                           so_bound = True, so_listen = Some (st_backlog st)\<rparr>;
                         l = l\<lparr>ls_socks := (ls_socks l)(sd \<mapsto> so)\<rparr>;
                         cm = aa_conn a
                     in case conn_get csize (cm_ok cm) (cm_bufs cm) CONN_LISTEN 1 False (cm_rbuf cm) (cm_wbuf cm) (ls_metrics l) of
                          (None, m) \<Rightarrow> (MC_ERROR, l\<lparr>ls_metrics := m\<rparr>)
                        | (Some c, m) \<Rightarrow>
                            if \<not> aa_event a then (MC_ERROR, l\<lparr>ls_metrics := conn_put csize (c, m)\<rparr>)
                            else (MC_OK, l\<lparr>ls_metrics := m,
                              ls_queue := (sd, \<lparr>l_flags = EV_read, l_backlog = st_backlog st\<rparr>) # ls_queue l\<rparr>)))))"

text \<open>\<open>ai\<close> are the addresses for the stream port and for the datagram port, \<open>a\<close> the answers for a unix socket.\<close>

definition core_create_socket :: "nat \<Rightarrow> 'd conf \<Rightarrow> addr_ans \<Rightarrow> (bool \<Rightarrow> addr_ans list option) \<Rightarrow> lstate \<Rightarrow> rstatus \<times> lstate" where
  "core_create_socket csize st a ai l =
     (case st_socketpath st of
        Some path \<Rightarrow> core_create_unix_socket csize st a path (st_access st) l
      | None \<Rightarrow>
          (case (if st_port st \<noteq> 0 then core_create_inet_socket csize st (ai False) False l else (MC_OK, l)) of
             (status, l) \<Rightarrow>
               if status \<noteq> MC_OK then (status, l)
               else if st_udpport st \<noteq> 0 then core_create_inet_socket csize st (ai True) True l
               else (MC_OK, l)))"

section \<open>What a server listens on\<close>

text \<open>A socket that is kept is bound and does not block; a stream socket listens and is on the queue.\<close>

definition sock_ready :: "int \<Rightarrow> lstate \<Rightarrow> int \<Rightarrow> bool" where
  "sock_ready backlog l sd \<longleftrightarrow>
     (\<exists>so. ls_socks l sd = Some so \<and> so_bound so \<and> so_nonblock so
        \<and> (\<not> so_dgram so \<longrightarrow> so_listen so = Some backlog \<and> sd \<in> fst ` set (ls_queue l)))"

definition all_ready :: "int \<Rightarrow> lstate \<Rightarrow> bool" where
  "all_ready backlog l \<longleftrightarrow> (\<forall>sd \<in> dom (ls_socks l). sock_ready backlog l sd)"

text \<open>Handing a socket out as often as there are workers gives it to each of them once, wherever the turn starts.\<close>

lemma dispatch_loop_run:
  assumes "dispatch_run n ds th" and "dispatch_loop csize a c k (th, m) = (MC_OK, th', m')"
  shows "dispatch_run n (ds @ replicate k (aa_socket a)) th'"
  using assms
proof (induction k arbitrary: c ds th m)
  case (Suc k)
  obtain cm peer wr where a: "aa_disp a c = (cm, peer, wr)" by (cases "aa_disp a c")
  obtain st th1 m1 where d: "thread_dispatch csize cm peer wr (aa_socket a) CONN_READ EV_read True (th, m) = (st, th1, m1)"
    by (rule prod_cases3)
  have st: "st = MC_OK" "dispatch_loop csize a (c + 1) k (th1, m1) = (MC_OK, th', m')"
    using Suc.prems(2) a d by (auto split: rstatus.splits)
  moreover have wr: "wr" using d st(1) by (auto simp: thread_dispatch_def Let_def split: option.splits prod.splits if_splits)
  ultimately have "dispatch_run n (ds @ [aa_socket a]) th1" using run_dispatch [OF Suc.prems(1)] d by metis
  from Suc.IH [OF this st(2)] show ?case by simp
qed simp

lemma share_replicate:
  assumes "i < n" shows "\<exists>k. share n i (xs @ replicate m x) = share n i xs @ replicate k x"
proof (induction m)
  case 0
  show ?case by (rule exI [of _ 0]) simp
next
  case (Suc m)
  then obtain k where k: "share n i (xs @ replicate m x) = share n i xs @ replicate k x" ..
  have "xs @ replicate (Suc m) x = (xs @ replicate m x) @ [x]" by (simp add: replicate_append_same)
  then have "share n i (xs @ replicate (Suc m) x) = share n i xs @ replicate (if length (xs @ replicate m x) mod n = i then Suc k else k) x"
    using share_snoc [OF assms, of "xs @ replicate m x" x] k by (simp add: replicate_append_same)
  then show ?case ..
qed

lemma share_round:
  assumes "i < n" shows "share n i (xs @ replicate n x) = share n i xs @ [x]"
proof -
  obtain k where k: "share n i (xs @ replicate n x) = share n i xs @ replicate k x" using share_replicate [OF assms, of xs n x] ..
  have "(length xs + n + n - Suc i) div n = Suc ((length xs + n - Suc i) div n)"
  proof -
    have eq: "length xs + n + n - Suc i = (length xs + n - Suc i) + n" and n0: "n \<noteq> 0" using assms by linarith+
    show ?thesis unfolding eq using div_add_self2 [OF n0] by simp
  qed
  then have "length (share n i (xs @ replicate n x)) = Suc (length (share n i xs))"
    using length_share [OF assms, of "xs @ replicate n x"] length_share [OF assms, of xs] by simp
  then have "k = 1" using arg_cong [OF k, of length] by simp
  then show ?thesis using k by simp
qed

lemma share_rounds: "i < n \<Longrightarrow> share n i (xs @ concat (map (replicate n) sds)) = share n i xs @ sds"
proof (induction sds arbitrary: xs)
  case (Cons x sds)
  then show ?case using Cons.IH [of "xs @ replicate n x"] share_round [of i n xs x] by simp
qed simp

lemma all_readyI: "(\<And>sd so. ls_socks l sd = Some so \<Longrightarrow> sock_ready b l sd) \<Longrightarrow> all_ready b l"
  by (auto simp: all_ready_def)

text \<open>What is ready stays ready when other sockets are opened and the queue grows.\<close>

lemma sock_ready_grow:
  assumes "sock_ready b l sd" and "ls_socks l' sd = ls_socks l sd" and "set (ls_queue l) \<subseteq> set (ls_queue l')"
  shows "sock_ready b l' sd"
proof -
  obtain so where so: "ls_socks l sd = Some so" "so_bound so" "so_nonblock so"
    "\<not> so_dgram so \<Longrightarrow> so_listen so = Some b \<and> sd \<in> fst ` set (ls_queue l)"
    using assms(1) by (auto simp: sock_ready_def)
  moreover have "fst ` set (ls_queue l) \<subseteq> fst ` set (ls_queue l')" by (rule image_mono [OF assms(3)])
  ultimately show ?thesis using assms(2) by (auto simp: sock_ready_def)
qed

text \<open>The rounds, as the ways they can change the state: a round that does not end in an error adds a ready socket or none.\<close>

definition round_ok :: "'d conf \<Rightarrow> bool \<Rightarrow> addr_ans \<Rightarrow> bool \<Rightarrow> lstate \<Rightarrow> lstate \<Rightarrow> bool" where
  "round_ok st udp a b l l' \<longleftrightarrow>
     (if b then \<exists>so. ls_socks l' = (ls_socks l)(aa_socket a \<mapsto> so) \<and> so_bound so \<and> so_nonblock so \<and> so_dgram so = udp
            \<and> (\<not> udp \<longrightarrow> so_listen so = Some (st_backlog st) \<and> aa_socket a \<in> fst ` set (ls_queue l'))
      else ls_socks l' = ls_socks l \<or> ls_socks l' = (ls_socks l)(aa_socket a := None))
     \<and> set (ls_queue l) \<subseteq> set (ls_queue l') \<and> (\<not> udp \<or> \<not> b \<longrightarrow> ls_threads l' = ls_threads l)
     \<and> (udp \<and> b \<longrightarrow> (\<forall>n ds. dispatch_run n ds (ls_threads l)
          \<longrightarrow> dispatch_run n (ds @ replicate (nat (st_num_workers st)) (aa_socket a)) (ls_threads l')))"

lemma inet_round_ok:
  assumes "inet_round csize st udp a l = (Inr b, l')"
  shows "round_ok st udp a b l l'"
proof -
  have "dispatch_run n (ds @ replicate (nat (st_num_workers st)) (aa_socket a)) (ls_threads l')"
    if "udp" "b" "dispatch_run n ds (ls_threads l)" for n ds
    using assms dispatch_loop_run [OF that(3)] that(1,2)
    by (cases "aa_bind a") (auto simp: inet_round_def Let_def split: if_splits prod.splits)
  then show ?thesis
    using assms
    by (cases "aa_bind a")
      (auto simp: inet_round_def Let_def close_sd_def fresh_sock_def round_ok_def split: if_splits option.splits prod.splits)
qed

lemma inet_round_error: "inet_round csize st udp a l = (Inl r, l') \<Longrightarrow> r \<noteq> MC_OK"
  by (cases "aa_bind a") (auto simp: inet_round_def Let_def split: if_splits option.splits prod.splits)

lemma inet_round_umask: "inet_round csize st udp a l = (r, l') \<Longrightarrow> ls_umask l' = ls_umask l \<and> ls_path l' = ls_path l"
  by (cases "aa_bind a") (auto simp: inet_round_def Let_def close_sd_def split: if_splits option.splits prod.splits)

lemma round_ok_ready:
  assumes "round_ok st udp a b l l'" and "all_ready (st_backlog st) l"
  shows "all_ready (st_backlog st) l'"
proof (rule all_readyI)
  fix sd so
  assume s: "ls_socks l' sd = Some so"
  have q: "set (ls_queue l) \<subseteq> set (ls_queue l')" using assms(1) by (simp add: round_ok_def)
  show "sock_ready (st_backlog st) l' sd"
  proof (cases "b \<and> sd = aa_socket a")
    case True
    then show ?thesis using assms(1) by (auto simp: round_ok_def sock_ready_def)
  next
    case False
    then have same: "ls_socks l' sd = ls_socks l sd" using assms(1) s by (auto simp: round_ok_def split: if_splits)
    then have "sock_ready (st_backlog st) l sd" using s assms(2) by (metis all_ready_def domI)
    then show ?thesis by (rule sock_ready_grow [OF _ same q])
  qed
qed

text \<open>The kernel gives a new socket a descriptor that is not open.\<close>

fun sds_fresh :: "nat \<Rightarrow> 'd conf \<Rightarrow> bool \<Rightarrow> addr_ans list \<Rightarrow> lstate \<Rightarrow> bool" where
  "sds_fresh csize st udp [] l = True"
| "sds_fresh csize st udp (a # as) l =
     (ls_socks l (aa_socket a) = None \<and> sds_fresh csize st udp as (snd (inet_round csize st udp a l)))"

definition only_adds :: "lstate \<Rightarrow> lstate \<Rightarrow> bool" where
  "only_adds l l' \<longleftrightarrow> ls_socks l \<subseteq>\<^sub>m ls_socks l' \<and> set (ls_queue l) \<subseteq> set (ls_queue l')"

lemma only_adds_refl [simp]: "only_adds l l"
  by (simp add: only_adds_def)

lemma only_adds_trans: "only_adds l l' \<Longrightarrow> only_adds l' l'' \<Longrightarrow> only_adds l l''"
  by (auto simp: only_adds_def intro: map_le_trans)

lemma round_ok_only_adds: "round_ok st udp a b l l' \<Longrightarrow> ls_socks l (aa_socket a) = None \<Longrightarrow> only_adds l l'"
  by (auto simp: round_ok_def only_adds_def map_le_def split: if_splits)

lemma only_adds_ready: "only_adds l l' \<Longrightarrow> sock_ready b l sd \<Longrightarrow> sock_ready b l' sd"
  by (rule sock_ready_grow [of b l]) (auto simp: only_adds_def map_le_def sock_ready_def dom_def subset_iff)

text \<open>A socket of the kind that was asked for is ready.\<close>

definition listens :: "int \<Rightarrow> bool \<Rightarrow> lstate \<Rightarrow> int \<Rightarrow> bool" where
  "listens backlog udp l sd \<longleftrightarrow> sock_ready backlog l sd \<and> (\<exists>so. ls_socks l sd = Some so \<and> so_dgram so = udp)"

lemma only_adds_listens: "only_adds l l' \<Longrightarrow> listens b udp l sd \<Longrightarrow> listens b udp l' sd"
  using only_adds_ready by (fastforce simp: listens_def only_adds_def map_le_def dom_def)

text \<open>What the creation of the sockets of one kind achieves: \<open>sds\<close> are new sockets.\<close>

definition opened :: "'d conf \<Rightarrow> bool \<Rightarrow> int list \<Rightarrow> lstate \<Rightarrow> lstate \<Rightarrow> bool" where
  "opened st udp sds l l' \<longleftrightarrow> only_adds l l' \<and> (\<forall>sd \<in> set sds. listens (st_backlog st) udp l' sd)
     \<and> (\<not> udp \<longrightarrow> ls_threads l' = ls_threads l)
     \<and> (udp \<longrightarrow> (\<forall>n ds. dispatch_run n ds (ls_threads l)
          \<longrightarrow> dispatch_run n (ds @ concat (map (replicate (nat (st_num_workers st))) sds)) (ls_threads l')))"

lemma opened_round:
  assumes "round_ok st udp a b l l1" and "ls_socks l (aa_socket a) = None" and "opened st udp sds l1 l'"
  shows "opened st udp (if b then aa_socket a # sds else sds) l l'"
proof -
  have 1: "only_adds l l1" by (rule round_ok_only_adds [OF assms(1,2)])
  have 2: "listens (st_backlog st) udp l' (aa_socket a)" if b
    by (rule only_adds_listens [of l1]) (use assms(1,3) that in \<open>auto simp: round_ok_def opened_def listens_def sock_ready_def\<close>)
  show ?thesis
    using assms(1,3) 2 only_adds_trans [OF 1]
    by (cases b; cases udp) (simp_all add: opened_def round_ok_def append_assoc [symmetric] del: append_assoc)
qed

lemma inet_loop_ok:
  assumes "inet_loop csize st udp as n l = (MC_OK, l')" and "all_ready (st_backlog st) l" and "sds_fresh csize st udp as l"
  shows "all_ready (st_backlog st) l' \<and> (\<exists>sds. opened st udp sds l l' \<and> (n = 0 \<longrightarrow> sds \<noteq> []))"
  using assms
proof (induction as arbitrary: n l)
  case Nil
  then show ?case by (auto simp: opened_def split: if_splits intro: exI [of _ "[]"])
next
  case (Cons a as)
  obtain q l1 where ql: "inet_round csize st udp a l = (q, l1)" by (cases "inet_round csize st udp a l")
  obtain b where b: "q = Inr b"
  proof (cases q)
    case (Inl r)
    then have "r = MC_OK" using Cons.prems(1) ql by simp
    then show ?thesis using inet_round_error ql Inl by blast
  qed
  have r: "inet_round csize st udp a l = (Inr b, l1)" using ql b by simp
  have k: "inet_loop csize st udp as (if b then n + 1 else n) l1 = (MC_OK, l')" using Cons.prems(1) r by simp
  note ok = inet_round_ok [OF r]
  have f: "sds_fresh csize st udp as l1" "ls_socks l (aa_socket a) = None" using Cons.prems(3) r by simp_all
  from Cons.IH [OF k round_ok_ready [OF ok Cons.prems(2)] f(1)]
  obtain sds where s: "all_ready (st_backlog st) l'" "opened st udp sds l1 l'" "(if b then n + 1 else n) = 0 \<longrightarrow> sds \<noteq> []"
    by (elim conjE exE)
  have "opened st udp (if b then aa_socket a # sds else sds) l l'"
    by (rule opened_round [OF ok f(2) s(2)])
  moreover have "n = 0 \<longrightarrow> (if b then aa_socket a # sds else sds) \<noteq> []" using s(3) by (cases b) simp_all
  ultimately show ?case using s(1) by (intro conjI exI)
qed

lemma inet_loop_umask: "inet_loop csize st udp as n l = (r, l') \<Longrightarrow> ls_umask l' = ls_umask l \<and> ls_path l' = ls_path l"
proof (induction as arbitrary: n l)
  case (Cons a as)
  obtain q l1 where r: "inet_round csize st udp a l = (q, l1)" by (cases "inet_round csize st udp a l")
  show ?case using Cons inet_round_umask [OF r] r by (cases q) auto
qed simp

section \<open>The sockets of the server\<close>

text \<open>
  The system gives fresh descriptors to the sockets of both ports.
\<close>

definition ai_fresh :: "nat \<Rightarrow> 'd conf \<Rightarrow> bool \<Rightarrow> addr_ans list option \<Rightarrow> lstate \<Rightarrow> bool" where
  "ai_fresh csize st udp ai l = (case ai of None \<Rightarrow> True | Some as \<Rightarrow> sds_fresh csize st udp as l)"

definition create_fresh :: "nat \<Rightarrow> 'd conf \<Rightarrow> (bool \<Rightarrow> addr_ans list option) \<Rightarrow> lstate \<Rightarrow> bool" where
  "create_fresh csize st ai l \<longleftrightarrow>
     (if st_port st \<noteq> 0
      then ai_fresh csize st False (ai False) l \<and> ai_fresh csize st True (ai True) (snd (core_create_inet_socket csize st (ai False) False l))
      else ai_fresh csize st True (ai True) l)"

lemma create_inet_ok:
  assumes "core_create_inet_socket csize st ai udp l = (MC_OK, l')" and "all_ready (st_backlog st) l" and "ai_fresh csize st udp ai l"
  shows "all_ready (st_backlog st) l' \<and> (\<exists>sds. opened st udp sds l l' \<and> sds \<noteq> [])"
  using assms inet_loop_ok [of csize st udp _ 0 l l'] by (auto simp: core_create_inet_socket_def ai_fresh_def split: option.splits)

lemma create_inet_umask:
  "core_create_inet_socket csize st ai udp l = (r, l') \<Longrightarrow> ls_umask l' = ls_umask l \<and> ls_path l' = ls_path l"
  by (auto simp: core_create_inet_socket_def dest: inet_loop_umask split: option.splits)

text \<open>The mask of the process is what it was, whatever fails.\<close>

lemma create_socket_umask:
  assumes "core_create_socket csize st a ai l = (r, l')" shows "ls_umask l' = ls_umask l"
  using assms
  by (auto simp: core_create_socket_def core_create_unix_socket_def Let_def close_sd_def
      dest!: create_inet_umask split: option.splits if_splits prod.splits)

lemma create_unix_ok:
  assumes "core_create_unix_socket csize st a path acc l = (MC_OK, l')" and "all_ready (st_backlog st) l"
  shows "all_ready (st_backlog st) l' \<and> listens (st_backlog st) False l' (aa_socket a)
    \<and> ls_path l' = Some (take (SUN_PATH_LEN - 1) path, acc mod 512)"
proof -
  obtain so where l': "ls_socks l' = (ls_socks l)(aa_socket a \<mapsto> so)" "so_bound so" "so_nonblock so" "so_listen so = Some (st_backlog st)" "\<not> so_dgram so"
      "fst ` set (ls_queue l') = insert (aa_socket a) (fst ` set (ls_queue l))" "ls_path l' = Some (take (SUN_PATH_LEN - 1) path, acc mod 512)"
    using assms(1) by (auto simp: core_create_unix_socket_def Let_def split: if_splits option.splits prod.splits)
  have "listens (st_backlog st) False l' (aa_socket a)" using l' by (simp add: listens_def sock_ready_def)
  moreover have "sock_ready (st_backlog st) l' sd" if "ls_socks l sd \<noteq> None" "sd \<noteq> aa_socket a" for sd
  proof -
    have "sock_ready (st_backlog st) l sd" using assms(2) that(1) unfolding all_ready_def by blast
    then show ?thesis using that(2) l'(1,6) by (simp add: sock_ready_def)
  qed
  ultimately show ?thesis using l'(1,7) by (auto simp: all_ready_def listens_def)
qed

text \<open>
  What a server that has its sockets listens on: on its path with the access bits asked for, or on at least one address of each port that is not 0;
  a datagram socket has been handed to every worker, once.
\<close>

definition listening :: "'d conf \<Rightarrow> lstate \<Rightarrow> bool" where
  "listening st l \<longleftrightarrow> all_ready (st_backlog st) l
     \<and> (case st_socketpath st of
          Some path \<Rightarrow> (\<exists>sd. listens (st_backlog st) False l sd) \<and> ls_path l = Some (take (SUN_PATH_LEN - 1) path, st_access st mod 512)
        | None \<Rightarrow>
            (st_port st \<noteq> 0 \<longrightarrow> (\<exists>sd. listens (st_backlog st) False l sd))
            \<and> (st_udpport st \<noteq> 0 \<longrightarrow> (\<exists>sds. sds \<noteq> [] \<and> (\<forall>sd \<in> set sds. listens (st_backlog st) True l sd)
                 \<and> (\<forall>i < nat (st_num_workers st). worker_sds (th_workers (ls_threads l) ! i) = sds))))"

lemma opened_udp:
  assumes "opened st True sds l l'" and "ls_threads l = thread_start n" and "n = nat (st_num_workers st)" and "i < n"
  shows "worker_sds (th_workers (ls_threads l') ! i) = sds"
proof -
  have "dispatch_run n ([] @ concat (map (replicate n) sds)) (ls_threads l')"
    using assms(1-3) run_start [of n] unfolding opened_def by metis
  then have "dispatch_inv n (concat (map (replicate n) sds)) (ls_threads l')" using dispatch_run_inv assms(4) by fastforce
  then show ?thesis using assms(4) share_rounds [OF assms(4), of "[]" sds] by (simp add: dispatch_inv_def)
qed

lemma create_socket_listening:
  assumes "core_create_socket csize st a ai l = (MC_OK, l')" and "all_ready (st_backlog st) l"
    and "create_fresh csize st ai l" and "ls_threads l = thread_start (nat (st_num_workers st))"
  shows "listening st l'"
proof (cases "st_socketpath st")
  case (Some path)
  then show ?thesis
    using create_unix_ok [OF _ assms(2), of csize a path "st_access st" l'] assms(1)
    by (auto simp: core_create_socket_def listening_def)
next
  case None
  let ?b = "st_backlog st"
  obtain l1 where l1: "(if st_port st \<noteq> 0 then core_create_inet_socket csize st (ai False) False l else (MC_OK, l)) = (MC_OK, l1)"
    and l2: "if st_udpport st \<noteq> 0 then core_create_inet_socket csize st (ai True) True l1 = (MC_OK, l') else l' = l1"
    using assms(1) None by (auto simp: core_create_socket_def split: prod.splits if_splits)
  have 1: "all_ready ?b l1 \<and> ls_threads l1 = ls_threads l \<and> (st_port st \<noteq> 0 \<longrightarrow> (\<exists>sd. listens ?b False l1 sd))"
  proof (cases "st_port st = 0")
    case False
    then show ?thesis
      using create_inet_ok [of csize st "ai False" False l l1] assms(2,3) l1
      by (auto simp: create_fresh_def opened_def neq_Nil_conv)
  qed (use l1 assms(2) in simp)
  show ?thesis
  proof (cases "st_udpport st = 0")
    case True
    then show ?thesis using None 1 l2 by (simp add: listening_def)
  next
    case False
    then obtain sds where s: "all_ready ?b l'" "opened st True sds l1 l'" "sds \<noteq> []"
      using create_inet_ok [of csize st "ai True" True l1 l'] assms(3) l1 l2 1
      by (auto simp: create_fresh_def split: if_splits)
    have "worker_sds (th_workers (ls_threads l') ! i) = sds" if "i < nat (st_num_workers st)" for i
      by (rule opened_udp [OF s(2)]) (use 1 assms(4) that in simp_all)
    moreover have "\<exists>sd. listens ?b False l' sd" if "st_port st \<noteq> 0"
      using 1 that s(2) only_adds_listens by (fastforce simp: opened_def)
    ultimately show ?thesis using s None by (auto simp: listening_def opened_def intro!: exI [of _ sds])
  qed
qed

end
