(* ===== verification/McSpawn.thy ===== *)
theory McSpawn
  imports McListen McAggr
begin

text \<open>
  The start of the threads, \<^verbatim>\<open>thread_init\<close> of \<^verbatim>\<open>mc_thread.c\<close> with the functions that set a thread up, and the timers of the aggregator and of the
  command logger. What the system answers is an argument. The threads that are started report to the main thread through a counter, a mutex and a condition
  variable; this protocol is a transition system in which the main thread and all others are interleaved, and it is shown that the main
  thread goes on exactly when every thread is set up and that no wake-up is lost. When a step fails the process ends, so what is freed on the way
  is not tracked.
\<close>

section \<open>Setting a thread up\<close>

datatype thread_key = KEY_stats_mutex | KEY_stats_thread | KEY_stats_slabs | KEY_kbuf

text \<open>\<open>tw_mutex\<close> is the pointer to the mutex and whether it is initialised.\<close>

record thread_worker =
  tw_base :: bool
  tw_event :: bool
  tw_notify_receive_fd :: int
  tw_notify_send_fd :: int
  tw_new_cq :: conn_q
  tw_suffix_cache :: "object_cache option"
  tw_mutex :: "bool option"
  tw_stats_thread :: "thread_metrics option"
  tw_stats_slabs :: "slab_metrics option"
  tw_kbuf :: "kbuf option"

definition zero_worker :: thread_worker where
  "zero_worker = \<lparr>tw_base = False, tw_event = False, tw_notify_receive_fd = 0, tw_notify_send_fd = 0, tw_new_cq = [], tw_suffix_cache = None,
     tw_mutex = None, tw_stats_thread = None, tw_stats_slabs = None, tw_kbuf = None\<rparr>"

record thread_ans =
  ta_pipe :: "(int \<times> int) option"
  ta_base :: bool
  ta_event :: bool
  ta_mutex :: bool
  ta_mutex_init :: bool
  ta_thread :: bool
  ta_slabs :: bool
  ta_kbuf :: "bytes option"
  ta_suffix :: bool
  ta_setspecific :: "thread_key \<Rightarrow> bool"
  ta_create :: bool

definition thread_setup_stats :: "thread_ans \<Rightarrow> thread_worker \<Rightarrow> rstatus \<times> thread_worker" where
  "thread_setup_stats a t =
     (if \<not> ta_mutex a then (MC_ENOMEM, t\<lparr>tw_mutex := None\<rparr>)
      else if \<not> ta_mutex_init a then (MC_ERROR, t\<lparr>tw_mutex := Some False\<rparr>)
      else if \<not> ta_thread a then (MC_ERROR, t\<lparr>tw_mutex := Some False, tw_stats_thread := None\<rparr>)
      else if \<not> ta_slabs a then (MC_ERROR, t\<lparr>tw_mutex := Some False, tw_stats_thread := Some stats_thread_init, tw_stats_slabs := None\<rparr>)
      else (MC_OK, t\<lparr>tw_mutex := Some True, tw_stats_thread := Some stats_thread_init, tw_stats_slabs := Some stats_slabs_init\<rparr>))"

text \<open>The pointers a thread finds under its keys: whether there is something at the other end.\<close>

type_synonym thread_local = "thread_key \<Rightarrow> bool"

fun member_ptr :: "thread_worker \<Rightarrow> thread_key \<Rightarrow> bool" where
  "member_ptr t KEY_stats_mutex = (tw_mutex t \<noteq> None)"
| "member_ptr t KEY_stats_thread = (tw_stats_thread t \<noteq> None)"
| "member_ptr t KEY_stats_slabs = (tw_stats_slabs t \<noteq> None)"
| "member_ptr t KEY_kbuf = (tw_kbuf t \<noteq> None)"

fun set_keys :: "(thread_key \<Rightarrow> bool) \<Rightarrow> thread_worker \<Rightarrow> thread_key list \<Rightarrow> thread_local \<Rightarrow> rstatus \<times> thread_local" where
  "set_keys ok t [] tls = (MC_OK, tls)"
| "set_keys ok t (k # ks) tls = (if \<not> ok k then (MC_ERROR, tls) else set_keys ok t ks (tls(k := member_ptr t k)))"

definition thread_setkeys :: "(thread_key \<Rightarrow> bool) \<Rightarrow> thread_worker \<Rightarrow> thread_local \<Rightarrow> rstatus \<times> thread_local" where
  "thread_setkeys ok t tls = set_keys ok t [KEY_stats_mutex, KEY_stats_thread, KEY_stats_slabs, KEY_kbuf] tls"

definition CAS_SUFFIX_SIZE :: nat where "CAS_SUFFIX_SIZE = 21"

definition SUFFIX_SIZE :: nat where "SUFFIX_SIZE = 22"

definition suffix_size :: "bool \<Rightarrow> nat" where
  "suffix_size cas = (if cas then CAS_SUFFIX_SIZE + SUFFIX_SIZE + 1 else SUFFIX_SIZE + 1)"

text \<open>The pool of suffixes is counted in the metrics \<open>m\<close> of the thread that runs the set-up, the dispatcher.\<close>

definition thread_setup :: "thread_ans \<Rightarrow> bool \<Rightarrow> klog_state \<Rightarrow> thread_worker \<times> thread_metrics \<Rightarrow> rstatus \<times> thread_worker \<times> thread_metrics" where
  "thread_setup a cas k tm =
     (let (t, m) = tm in
      if \<not> ta_base a then (MC_ERROR, t\<lparr>tw_base := False\<rparr>, m)
      else
        (let t = t\<lparr>tw_base := True\<rparr> in
         if \<not> ta_event a then (MC_ERROR, t, m)
         else
           (case thread_setup_stats a (t\<lparr>tw_event := True\<rparr>) of
              (status, t) \<Rightarrow>
                if status \<noteq> MC_OK then (status, t, m)
                else
                  (case klog_buf_create (ta_kbuf a) k of
                     None \<Rightarrow> (MC_ENOMEM, t\<lparr>tw_kbuf := None\<rparr>, m)
                   | Some kbuf \<Rightarrow>
                       (let t = t\<lparr>tw_kbuf := Some kbuf, tw_new_cq := conn_cq_init\<rparr> in
                        case cache_create ''suffix'' (suffix_size cas) (ta_suffix a) m of
                          (None, m) \<Rightarrow> (MC_ENOMEM, t\<lparr>tw_suffix_cache := None\<rparr>, m)
                        | (Some oc, m) \<Rightarrow> (MC_OK, t\<lparr>tw_suffix_cache := Some oc\<rparr>, m))))))"

fun setup_workers :: "bool \<Rightarrow> klog_state \<Rightarrow> thread_ans list \<Rightarrow> thread_metrics \<Rightarrow> rstatus \<times> thread_worker list \<times> thread_metrics" where
  "setup_workers cas k [] m = (MC_OK, [], m)"
| "setup_workers cas k (a # as) m =
     (case ta_pipe a of
        None \<Rightarrow> (MC_ERROR, [], m)
      | Some (rfd, sfd) \<Rightarrow>
          (case thread_setup a cas k (zero_worker\<lparr>tw_notify_receive_fd := rfd, tw_notify_send_fd := sfd\<rparr>, m) of
             (status, t, m) \<Rightarrow>
               if status \<noteq> MC_OK then (status, [t], m)
               else (case setup_workers cas k as m of (status, ts, m) \<Rightarrow> (status, t # ts, m))))"

text \<open>
  \<^verbatim>\<open>thread_init\<close> up to the point where the threads are created. \<open>keyc\<close> is whether a key could be created, \<open>da\<close> are the answers for the dispatcher,
  which runs in the main thread and takes the last descriptor, and \<open>as\<close> those for the workers.
\<close>

definition thread_prepare :: "bool \<Rightarrow> (thread_key \<Rightarrow> bool) \<Rightarrow> thread_ans \<Rightarrow> thread_ans list \<Rightarrow> bool \<Rightarrow> klog_state
    \<Rightarrow> rstatus \<times> thread_worker list \<times> thread_local" where
  "thread_prepare zalloc keyc da as cas k =
     (let none = (\<lambda>_. False) in
      if \<not> zalloc then (MC_ENOMEM, [], none)
      else if \<not> keyc KEY_stats_mutex then (MC_ERROR, [], none)
      else if \<not> keyc KEY_stats_thread then (MC_ERROR, [], none)
      else if \<not> keyc KEY_stats_slabs then (MC_ERROR, [], none)
      else if \<not> keyc KEY_kbuf then (MC_ERROR, [], none)
      else
        (case thread_setup_stats da (zero_worker\<lparr>tw_base := True\<rparr>) of
           (status, dispatcher) \<Rightarrow>
             if status \<noteq> MC_OK then (status, [dispatcher], none)
             else
               (case thread_setkeys (ta_setspecific da) dispatcher none of
                  (status, tls) \<Rightarrow>
                    if status \<noteq> MC_OK then (status, [dispatcher], tls)
                    else
                      (case setup_workers cas k as (the (tw_stats_thread dispatcher)) of
                         (status, ts, m) \<Rightarrow> (status, ts @ [dispatcher\<lparr>tw_stats_thread := Some m\<rparr>], tls)))))"

text \<open>
  The buffers of the pool hold the text that a retrieval puts between the key and the value, with its NUL. With the cas field switched off
  a \<^verbatim>\<open>gets\<close> request still prints a cas id, which is 0, and the buffer has no room for it when flags and length have 10 and 9 digits.
\<close>

lemma suffix_fits:
  assumes "return_cas \<Longrightarrow> cas" shows "length (suffix_text return_cas it) + 1 \<le> suffix_size cas"
proof -
  have u32: "length (print_dec (unat w)) \<le> 10" for w :: u32
    using length_print_dec [of "unat w" 9] unsigned_less [of w, where 'a = nat] by simp
  have "length (print_dec (unat (item_get_cas it))) \<le> 20"
    using length_print_dec [of "unat (item_get_cas it)" 19] unsigned_less [of "item_get_cas it", where 'a = nat] by simp
  then show ?thesis
    using assms u32 [of "it_dataflags it"] u32 [of "it_nbyte it"]
    by (auto simp: suffix_text_def suffix_size_def SUFFIX_SIZE_def CAS_SUFFIX_SIZE_def)
qed

lemma suffix_overflows:
  assumes "\<not> item_has_cas it" and "unat (it_dataflags it) = 4294967295" and "unat (it_nbyte it) = 134000000"
  shows "suffix_size False < length (suffix_text True it) + 1"
proof -
  have "length (print_dec 4294967295) = 10" "length (print_dec 134000000) = 9" "length (print_dec 0) = 1" by (simp_all add: print_dec.simps)
  then show ?thesis using assms by (simp add: suffix_text_def suffix_size_def SUFFIX_SIZE_def item_get_cas_def)
qed

section \<open>The aggregator and the command logger\<close>

record timer_ans =
  ma_base :: bool
  ma_thread :: bool
  ma_slabs :: bool
  ma_add :: bool
  ma_create :: bool

text \<open>An interval is a number of microseconds; \<open>ax_sem\<close> is the value of the semaphore that \<^verbatim>\<open>stats\<close> requests and the aggregation take.\<close>

record aux_thread =
  ax_base :: bool
  ax_sem :: "int option"
  ax_thread :: "thread_metrics option"
  ax_slabs :: "slab_metrics option"
  ax_timer :: "int option"

definition thread_setup_aggregator :: "timer_ans \<Rightarrow> int \<Rightarrow> int \<Rightarrow> aux_thread \<Rightarrow> rstatus \<times> aux_thread" where
  "thread_setup_aggregator a num_workers intvl g =
     (if \<not> ma_base a then (MC_ERROR, g\<lparr>ax_base := False\<rparr>)
      else
        (let g = g\<lparr>ax_base := True, ax_sem := Some (num_workers + 1)\<rparr> in
         if \<not> ma_thread a then (MC_ERROR, g\<lparr>ax_thread := None, ax_sem := None\<rparr>)
         else
           (let g = g\<lparr>ax_thread := Some stats_thread_init\<rparr> in
            if \<not> ma_slabs a then (MC_ERROR, g\<lparr>ax_slabs := None, ax_sem := None\<rparr>)
            else
              (let g = g\<lparr>ax_slabs := Some stats_slabs_init\<rparr> in
               if \<not> ma_add a then (MC_ERROR, g) else (MC_OK, g\<lparr>ax_timer := Some intvl\<rparr>)))))"

definition thread_setup_klogger :: "timer_ans \<Rightarrow> int \<Rightarrow> aux_thread \<Rightarrow> rstatus \<times> aux_thread" where
  "thread_setup_klogger a intvl g =
     (if \<not> ma_base a then (MC_ERROR, g\<lparr>ax_base := False\<rparr>)
      else
        (let g = g\<lparr>ax_base := True\<rparr> in
         if \<not> ma_add a then (MC_ERROR, g) else (MC_OK, g\<lparr>ax_timer := Some intvl\<rparr>)))"

text \<open>
  The handlers of the two timers: the interval after which the timer fires again, and what was done. The seconds of a negative interval are
  rounded towards 0.
\<close>

definition thread_aggregate_stats :: "int \<Rightarrow> int \<times> int \<Rightarrow> (thread_metrics \<times> slab_metrics) list \<Rightarrow> aggregator \<Rightarrow> int \<times> aggregator" where
  "thread_aggregate_stats intvl ts workers ag =
     (if -1000000 < intvl then (intvl, stats_aggregate ts workers ag) else (5000000, ag))"

definition thread_klogger_collect :: "int \<Rightarrow> (int \<times> int \<times> bool) list \<Rightarrow> kbuf list \<Rightarrow> klog_state \<Rightarrow> int \<times> kbuf list \<times> klog_state" where
  "thread_klogger_collect intvl ws bs k = (if klog_enabled k then (intvl, klog_collect ws bs k) else (10000, bs, k))"

section \<open>What the set-up leaves behind\<close>

text \<open>The members of a worker that its requests use.\<close>

definition worker_ready :: "bool \<Rightarrow> thread_worker \<Rightarrow> bool" where
  "worker_ready cas t \<longleftrightarrow> tw_base t \<and> tw_event t \<and> tw_new_cq t = [] \<and> tw_mutex t = Some True
     \<and> tw_stats_thread t = Some stats_thread_init \<and> tw_stats_slabs t = Some stats_slabs_init
     \<and> (\<exists>kb. tw_kbuf t = Some kb \<and> kb_r_idx kb = 0 \<and> kb_w_idx kb = 0)
     \<and> (\<exists>oc. tw_suffix_cache t = Some oc \<and> oc_bufsize oc = suffix_size cas \<and> oc_freecurr oc = 0)"

lemma thread_setup_stats_ok:
  "thread_setup_stats a t = (MC_OK, t') \<Longrightarrow>
     t' = t\<lparr>tw_mutex := Some True, tw_stats_thread := Some stats_thread_init, tw_stats_slabs := Some stats_slabs_init\<rparr>"
  by (auto simp: thread_setup_stats_def split: if_splits)

lemma thread_setup_ok:
  assumes "thread_setup a cas k (t, m) = (MC_OK, t', m')"
  shows "worker_ready cas t' \<and> tw_notify_receive_fd t' = tw_notify_receive_fd t \<and> tw_notify_send_fd t' = tw_notify_send_fd t"
  using assms
  by (auto simp: thread_setup_def Let_def worker_ready_def klog_buf_create_def conn_cq_init_def cache_create_def
      split: if_splits option.splits prod.splits dest!: thread_setup_stats_ok)

lemma setup_workers_ok:
  "setup_workers cas k as m = (MC_OK, ts, m') \<Longrightarrow> length ts = length as \<and> (\<forall>t \<in> set ts. worker_ready cas t)
     \<and> map (\<lambda>t. Some (tw_notify_receive_fd t, tw_notify_send_fd t)) ts = map ta_pipe as"
proof (induction as arbitrary: m ts)
  case (Cons a as)
  obtain rfd sfd where p: "ta_pipe a = Some (rfd, sfd)" using Cons.prems by (cases "ta_pipe a") auto
  obtain st t m1 where t: "thread_setup a cas k (zero_worker\<lparr>tw_notify_receive_fd := rfd, tw_notify_send_fd := sfd\<rparr>, m) = (st, t, m1)"
    by (rule prod_cases3)
  obtain st2 ts2 m2 where r: "setup_workers cas k as m1 = (st2, ts2, m2)" by (rule prod_cases3)
  have e: "st = MC_OK" "st2 = MC_OK" "ts = t # ts2" "m2 = m'" using Cons.prems p t r by (auto split: if_splits)
  then show ?case
    using thread_setup_ok [of a cas k "zero_worker\<lparr>tw_notify_receive_fd := rfd, tw_notify_send_fd := sfd\<rparr>" m t m1] Cons.IH [of m1 ts2] t r p
    by simp
qed simp

lemma thread_setkeys_ok:
  "thread_setkeys ok t tls = (MC_OK, tls') \<Longrightarrow> tls' = member_ptr t"
proof -
  assume "thread_setkeys ok t tls = (MC_OK, tls')"
  then have "tls' = tls(KEY_stats_mutex := member_ptr t KEY_stats_mutex, KEY_stats_thread := member_ptr t KEY_stats_thread,
      KEY_stats_slabs := member_ptr t KEY_stats_slabs, KEY_kbuf := member_ptr t KEY_kbuf)"
    by (simp add: thread_setkeys_def split: if_splits)
  then show ?thesis
    by (intro ext, case_tac x) simp_all
qed

text \<open>A worker finds all its members under its keys.\<close>

lemma worker_keys: "worker_ready cas t \<Longrightarrow> member_ptr t key"
  by (cases key) (auto simp: worker_ready_def)

text \<open>The main thread finds its metrics, but no buffer for the command log.\<close>

lemma thread_prepare_ok:
  assumes "thread_prepare zalloc keyc da as cas k = (MC_OK, ts, tls)"
  shows "length ts = length as + 1 \<and> (\<forall>i < length as. worker_ready cas (ts ! i))
    \<and> map (\<lambda>t. Some (tw_notify_receive_fd t, tw_notify_send_fd t)) (take (length as) ts) = map ta_pipe as
    \<and> (\<forall>key. tls key = (key \<noteq> KEY_kbuf))"
proof -
  obtain st d where d: "thread_setup_stats da (zero_worker\<lparr>tw_base := True\<rparr>) = (st, d)" by fastforce
  have 1: "st = MC_OK" using assms d by (auto simp: thread_prepare_def Let_def split: if_splits)
  obtain st2 tls2 where k: "thread_setkeys (ta_setspecific da) d (\<lambda>_. False) = (st2, tls2)" by fastforce
  have 2: "st2 = MC_OK" using assms d 1 k by (auto simp: thread_prepare_def Let_def split: if_splits)
  obtain st3 ws m where w: "setup_workers cas k as (the (tw_stats_thread d)) = (st3, ws, m)" by (rule prod_cases3)
  have 3: "st3 = MC_OK \<and> ts = ws @ [d\<lparr>tw_stats_thread := Some m\<rparr>] \<and> tls = tls2"
    using assms d 1 k 2 w by (auto simp: thread_prepare_def Let_def split: if_splits)
  have dd: "d = zero_worker\<lparr>tw_base := True, tw_mutex := Some True, tw_stats_thread := Some stats_thread_init, tw_stats_slabs := Some stats_slabs_init\<rparr>"
    using thread_setup_stats_ok d 1 by blast
  have "tls2 = member_ptr d" using thread_setkeys_ok k 2 by blast
  then have "tls key = (key \<noteq> KEY_kbuf)" for key using 3 dd by (cases key) (simp_all add: zero_worker_def)
  moreover have "length ws = length as \<and> (\<forall>t \<in> set ws. worker_ready cas t)
      \<and> map (\<lambda>t. Some (tw_notify_receive_fd t, tw_notify_send_fd t)) ws = map ta_pipe as"
    by (rule setup_workers_ok) (use w 3 in simp)
  ultimately show ?thesis using 3 by (simp add: nth_append)
qed

section \<open>Starting the threads\<close>

text \<open>
  The points of a thread that is started: it sets its keys (a worker only), takes the lock, counts itself, signals, gives the lock back and enters its event
  loop. Those of the main thread: it creates thread \<open>k\<close>, waits until \<open>t\<close> threads have counted themselves, and is done. Threads \<open>0\<close> to \<open>n - 1\<close> are
  the workers, \<open>n\<close> is the aggregator and \<open>n + 1\<close> the command logger.
\<close>

datatype tpoint = T_none | T_setkeys | T_lock | T_count | T_signal | T_unlock | T_loop | T_exit

datatype mpoint = M_create nat | M_lock nat | M_test nat | M_wait nat | M_unlock nat | M_done | M_fail nat

datatype owner = Main | Thread nat

record init =
  init_count :: nat
  init_lock :: "owner option"
  init_thread :: "nat \<Rightarrow> tpoint"
  init_main :: mpoint
  init_exit :: bool

definition to_point :: "nat \<Rightarrow> tpoint \<Rightarrow> init \<Rightarrow> init" where
  "to_point i p s = s\<lparr>init_thread := (init_thread s)(i := p)\<rparr>"

text \<open>\<^verbatim>\<open>pthread_cond_signal\<close> makes a thread that waits try to take the lock again; without one it has no effect.\<close>

fun cond_signal :: "mpoint \<Rightarrow> mpoint" where
  "cond_signal (M_wait t) = M_lock t"
| "cond_signal p = p"

text \<open>The part that all threads share, one step of thread \<open>i\<close>.\<close>

definition count_in :: "nat \<Rightarrow> init \<Rightarrow> init option" where
  "count_in i s =
     (case init_thread s i of
        T_lock \<Rightarrow> if init_lock s = None then Some (to_point i T_count (s\<lparr>init_lock := Some (Thread i)\<rparr>)) else None
      | T_count \<Rightarrow> Some (to_point i T_signal (s\<lparr>init_count := init_count s + 1\<rparr>))
      | T_signal \<Rightarrow> Some (to_point i T_unlock (s\<lparr>init_main := cond_signal (init_main s)\<rparr>))
      | T_unlock \<Rightarrow> Some (to_point i T_loop (s\<lparr>init_lock := None\<rparr>))
      | _ \<Rightarrow> None)"

definition thread_worker_main :: "bool \<Rightarrow> nat \<Rightarrow> init \<Rightarrow> init option" where
  "thread_worker_main keys_ok i s =
     (if init_thread s i = T_setkeys
      then Some (if keys_ok then to_point i T_lock s else to_point i T_exit (s\<lparr>init_exit := True\<rparr>))
      else count_in i s)"

definition thread_aggregator_main :: "nat \<Rightarrow> init \<Rightarrow> init option" where
  "thread_aggregator_main n s = count_in n s"

definition thread_klogger_main :: "nat \<Rightarrow> init \<Rightarrow> init option" where
  "thread_klogger_main n s = count_in (n + 1) s"

text \<open>
  What the steps depend on: the number of workers, whether a worker sets its keys, whether the aggregator and the logger can be set up, and whether
  a thread can be created.
\<close>

record init_ans =
  ia_n :: nat
  ia_keys :: "nat \<Rightarrow> bool"
  ia_aggr :: bool
  ia_klog :: bool
  ia_create :: "nat \<Rightarrow> bool"

definition thread_create :: "init_ans \<Rightarrow> nat \<Rightarrow> init \<Rightarrow> rstatus \<times> init" where
  "thread_create a k s =
     (if \<not> ia_create a k then (MC_ERROR, s) else (MC_OK, to_point k (if k < ia_n a then T_setkeys else T_lock) s))"

definition thread_init_step :: "init_ans \<Rightarrow> init \<Rightarrow> init option" where
  "thread_init_step a s =
     (let n = ia_n a in
      case init_main s of
        M_create k \<Rightarrow>
          if k = n \<and> \<not> ia_aggr a \<or> k = n + 1 \<and> \<not> ia_klog a then Some (s\<lparr>init_main := M_fail k\<rparr>)
          else
            (case thread_create a k s of
               (MC_OK, s) \<Rightarrow> Some (s\<lparr>init_main := (if k + 1 = n \<or> k + 1 = n + 2 then M_lock (k + 1) else M_create (k + 1))\<rparr>)
             | (_, s) \<Rightarrow> Some (s\<lparr>init_main := M_fail k\<rparr>))
      | M_lock t \<Rightarrow> if init_lock s = None then Some (s\<lparr>init_lock := Some Main, init_main := M_test t\<rparr>) else None
      | M_test t \<Rightarrow>
          if init_count s < t then Some (s\<lparr>init_lock := None, init_main := M_wait t\<rparr>) else Some (s\<lparr>init_main := M_unlock t\<rparr>)
      | M_unlock t \<Rightarrow> Some (s\<lparr>init_lock := None, init_main := (if t = n then M_create n else M_done)\<rparr>)
      | _ \<Rightarrow> None)"

definition init_start :: "nat \<Rightarrow> init" where
  "init_start n = \<lparr>init_count = 0, init_lock = None, init_thread = (\<lambda>_. T_none), init_main = (if n = 0 then M_lock 0 else M_create 0), init_exit = False\<rparr>"

text \<open>One step of one of the threads, as long as the process has not ended.\<close>

inductive init_step :: "init_ans \<Rightarrow> init \<Rightarrow> init \<Rightarrow> bool" for a where
  step_main: "\<not> init_exit s \<Longrightarrow> thread_init_step a s = Some s' \<Longrightarrow> init_step a s s'"
| step_worker: "\<not> init_exit s \<Longrightarrow> (\<forall>k. init_main s \<noteq> M_fail k) \<Longrightarrow> i < ia_n a \<Longrightarrow> thread_worker_main (ia_keys a i) i s = Some s' \<Longrightarrow> init_step a s s'"
| step_aggr: "\<not> init_exit s \<Longrightarrow> (\<forall>k. init_main s \<noteq> M_fail k) \<Longrightarrow> thread_aggregator_main (ia_n a) s = Some s' \<Longrightarrow> init_step a s s'"
| step_klog: "\<not> init_exit s \<Longrightarrow> (\<forall>k. init_main s \<noteq> M_fail k) \<Longrightarrow> thread_klogger_main (ia_n a) s = Some s' \<Longrightarrow> init_step a s s'"

text \<open>The states that can be reached; a wait may also end without a signal.\<close>

inductive init_reach :: "init_ans \<Rightarrow> init \<Rightarrow> bool" for a where
  reach_start: "init_reach a (init_start (ia_n a))"
| reach_step: "init_reach a s \<Longrightarrow> init_step a s s' \<Longrightarrow> init_reach a s'"
| reach_spurious: "init_reach a s \<Longrightarrow> init_main s = M_wait t \<Longrightarrow> init_reach a (s\<lparr>init_main := M_lock t\<rparr>)"

section \<open>The main thread waits for all\<close>

definition counted :: "tpoint \<Rightarrow> bool" where
  "counted p \<longleftrightarrow> p = T_signal \<or> p = T_unlock \<or> p = T_loop"

definition holding :: "tpoint \<Rightarrow> bool" where
  "holding p \<longleftrightarrow> p = T_count \<or> p = T_signal \<or> p = T_unlock"

fun created :: "nat \<Rightarrow> mpoint \<Rightarrow> nat" where
  "created n (M_create k) = k"
| "created n (M_lock t) = t"
| "created n (M_test t) = t"
| "created n (M_wait t) = t"
| "created n (M_unlock t) = t"
| "created n M_done = n + 2"
| "created n (M_fail k) = k"

definition locks_ok :: "init \<Rightarrow> bool" where
  "locks_ok s \<longleftrightarrow> (\<forall>i. init_lock s = Some (Thread i) \<longleftrightarrow> holding (init_thread s i))
     \<and> (init_lock s = Some Main \<longleftrightarrow> (\<exists>t. init_main s = M_test t \<or> init_main s = M_unlock t))"

definition counts_ok :: "nat \<Rightarrow> init \<Rightarrow> bool" where
  "counts_ok n s \<longleftrightarrow> init_count s = card {i. i < n + 2 \<and> counted (init_thread s i)}
     \<and> (\<forall>i. init_thread s i \<noteq> T_none \<longleftrightarrow> i < created n (init_main s))"

fun main_ok :: "nat \<Rightarrow> nat \<Rightarrow> mpoint \<Rightarrow> bool" where
  "main_ok n c (M_create k) = (k < n + 2 \<and> (n \<le> k \<longrightarrow> n \<le> c))"
| "main_ok n c (M_unlock t) = ((t = n \<or> t = n + 2) \<and> t \<le> c)"
| "main_ok n c M_done = (n + 2 \<le> c)"
| "main_ok n c (M_fail k) = True"
| "main_ok n c p = (created n p = n \<or> created n p = n + 2)"

definition wake_ok :: "init \<Rightarrow> bool" where
  "wake_ok s \<longleftrightarrow> (\<forall>t. init_main s = M_wait t \<longrightarrow> init_count s < t \<or> (\<exists>i. init_thread s i = T_signal))"

definition init_inv :: "nat \<Rightarrow> init \<Rightarrow> bool" where
  "init_inv n s \<longleftrightarrow> locks_ok s \<and> counts_ok n s \<and> main_ok n (init_count s) (init_main s) \<and> wake_ok s"

lemmas init_inv_defs = init_inv_def locks_ok_def counts_ok_def wake_ok_def

lemma init_inv_start: "init_inv n (init_start n)"
  by (auto simp: init_inv_defs init_start_def counted_def holding_def)

lemma created_le: "main_ok n c p \<Longrightarrow> (\<forall>k. p \<noteq> M_fail k) \<Longrightarrow> created n p \<le> n + 2"
  by (cases p) auto

lemma card_counted:
  fixes n :: nat
  assumes "i < n"
  shows "card {j. j < n \<and> counted ((f(i := p)) j)} =
    (if counted p \<and> \<not> counted (f i) then card {j. j < n \<and> counted (f j)} + 1
     else if \<not> counted p \<and> counted (f i) then card {j. j < n \<and> counted (f j)} - 1 else card {j. j < n \<and> counted (f j)})"
proof -
  let ?A = "{j. j < n \<and> counted (f j)}"
  have "{j. j < n \<and> counted ((f(i := p)) j)} = (if counted p then insert i ?A else ?A - {i})" using assms by auto
  moreover have "finite ?A" by (rule finite_subset [of _ "{..<n}"]) auto
  ultimately show ?thesis using assms by (auto simp: insert_absorb card_Diff_singleton)
qed

text \<open>A thread that was created moves to another point and counts itself on the way, or not.\<close>

lemma counts_ok_move:
  assumes "counts_ok n s" and "i < n + 2" and "init_thread s i \<noteq> T_none" and "p \<noteq> T_none"
    and "init_thread s' = (init_thread s)(i := p)" and "created n (init_main s') = created n (init_main s)"
    and "counted (init_thread s i) \<Longrightarrow> counted p"
    and "init_count s' = init_count s + (if counted p \<and> \<not> counted (init_thread s i) then 1 else 0)"
  shows "counts_ok n s'"
proof -
  have "init_count s' = card {j. j < n + 2 \<and> counted (init_thread s' j)}"
  proof -
    have "init_count s = card {j. j < n + 2 \<and> counted (init_thread s j)}" using assms(1) unfolding counts_ok_def by (rule conjunct1)
    then show ?thesis
      using assms(7) unfolding assms(5,8) card_counted [OF assms(2)] by (cases "counted p"; cases "counted (init_thread s i)") simp_all
  qed
  moreover have "init_thread s' j \<noteq> T_none \<longleftrightarrow> j < created n (init_main s')" for j
    using assms(1,3,4) unfolding assms(5,6) counts_ok_def by (cases "j = i") simp_all
  ultimately show ?thesis unfolding counts_ok_def by blast
qed

lemma wake_ok_move:
  assumes "wake_ok s" and "init_thread s i \<noteq> T_signal" and "init_thread s' = (init_thread s)(i := p)" and "init_main s' = init_main s"
    and "init_count s' = init_count s"
  shows "wake_ok s'"
  using assms unfolding wake_ok_def by (metis fun_upd_other)

lemma cond_signal_simps [simp]:
  "created n (cond_signal p) = created n p" "cond_signal p \<noteq> M_wait t" "cond_signal p = M_test u \<longleftrightarrow> p = M_test u"
  "cond_signal p = M_unlock u \<longleftrightarrow> p = M_unlock u" "main_ok n c p \<Longrightarrow> main_ok n c (cond_signal p)" "cond_signal p = M_done \<longleftrightarrow> p = M_done"
  "cond_signal p = M_fail k \<longleftrightarrow> p = M_fail k"
  by (cases p; simp)+

lemma main_ok_mono: "main_ok n c p \<Longrightarrow> c \<le> d \<Longrightarrow> main_ok n d p"
  by (cases p) auto

lemmas point_defs = counted_def holding_def to_point_def

lemma count_in_inv:
  assumes "init_inv n s" and "i < n + 2" and "count_in i s = Some s'"
  shows "init_inv n s'"
proof -
  have inv: "locks_ok s" "counts_ok n s" "main_ok n (init_count s) (init_main s)" "wake_ok s" using assms(1) by (simp_all add: init_inv_def)
  note move = counts_ok_move [OF inv(2) assms(2)]
  show ?thesis
  proof (cases "init_thread s i")
    case T_lock
    then have s': "init_lock s = None" "s' = to_point i T_count (s\<lparr>init_lock := Some (Thread i)\<rparr>)"
      using assms(3) by (auto simp: count_in_def split: if_splits)
    have "locks_ok s'" using inv(1) s' T_lock by (auto simp: locks_ok_def point_defs)
    moreover have "counts_ok n s'" by (rule move [of T_count]) (simp_all add: s' T_lock point_defs)
    moreover have "wake_ok s'" by (rule wake_ok_move [OF inv(4), of i _ T_count]) (simp_all add: s' T_lock to_point_def)
    ultimately show ?thesis using inv(3) s' by (simp add: init_inv_def to_point_def)
  next
    case T_count
    then have s': "s' = to_point i T_signal (s\<lparr>init_count := init_count s + 1\<rparr>)" using assms(3) by (simp add: count_in_def)
    have "locks_ok s'" using inv(1) s' T_count by (auto simp: locks_ok_def point_defs)
    moreover have "counts_ok n s'" by (rule move [of T_signal]) (simp_all add: s' T_count point_defs)
    moreover have "wake_ok s'" using s' by (auto simp: wake_ok_def to_point_def)
    ultimately show ?thesis using main_ok_mono [OF inv(3), of "init_count s'"] s' by (simp add: init_inv_def to_point_def)
  next
    case T_signal
    then have s': "s' = to_point i T_unlock (s\<lparr>init_main := cond_signal (init_main s)\<rparr>)" using assms(3) by (simp add: count_in_def)
    have "locks_ok s'" using inv(1) s' T_signal by (auto simp: locks_ok_def point_defs)
    moreover have "counts_ok n s'" by (rule move [of T_unlock]) (simp_all add: s' T_signal point_defs)
    ultimately show ?thesis using inv(3) s' by (simp add: init_inv_def wake_ok_def to_point_def)
  next
    case T_unlock
    then have s': "s' = to_point i T_loop (s\<lparr>init_lock := None\<rparr>)" using assms(3) by (simp add: count_in_def)
    have "init_lock s = Some (Thread i)" using inv(1) T_unlock by (simp add: locks_ok_def holding_def)
    then have "locks_ok s'" using inv(1) s' by (auto simp: locks_ok_def point_defs)
    moreover have "counts_ok n s'" by (rule move [of T_loop]) (simp_all add: s' T_unlock point_defs)
    moreover have "wake_ok s'" by (rule wake_ok_move [OF inv(4), of i _ T_loop]) (simp_all add: s' T_unlock to_point_def)
    ultimately show ?thesis using inv(3) s' by (simp add: init_inv_def to_point_def)
  qed (use assms(3) in \<open>simp_all add: count_in_def\<close>)
qed

lemma worker_main_inv:
  assumes "init_inv n s" and "i < n" and "thread_worker_main ok i s = Some s'"
  shows "init_inv n s'"
proof (cases "init_thread s i = T_setkeys")
  case True
  have inv: "locks_ok s" "counts_ok n s" "main_ok n (init_count s) (init_main s)" "wake_ok s" using assms(1) by (simp_all add: init_inv_def)
  have "init_inv n (to_point i p (s\<lparr>init_exit := b\<rparr>))" (is "init_inv n ?s") if p: "p = T_lock \<or> p = T_exit" for p b
  proof -
    have "locks_ok ?s" using inv(1) True p by (auto simp: locks_ok_def point_defs)
    moreover have "counts_ok n ?s" by (rule counts_ok_move [OF inv(2), of i p]) (use assms(2) True p in \<open>auto simp: point_defs\<close>)
    moreover have "wake_ok ?s" by (rule wake_ok_move [OF inv(4), of i _ p]) (simp_all add: True to_point_def)
    ultimately show ?thesis using inv(3) by (simp add: init_inv_def to_point_def)
  qed
  from this [of T_lock "init_exit s"] this [of T_exit True] show ?thesis
    using assms(3) True by (auto simp: thread_worker_main_def split: if_splits)
next
  case False
  then show ?thesis using count_in_inv [OF assms(1), of i s'] assms(2,3) by (simp add: thread_worker_main_def)
qed

lemma main_create_inv:
  assumes "init_inv n s" and "init_main s = M_create k" and "p = T_setkeys \<or> p = T_lock"
  shows "init_inv n ((to_point k p s)\<lparr>init_main := (if k + 1 = n \<or> k + 1 = n + 2 then M_lock (k + 1) else M_create (k + 1))\<rparr>)" (is "init_inv n ?s")
proof -
  have k: "k < n + 2" "n \<le> k \<longrightarrow> n \<le> init_count s" using assms(1,2) by (simp_all add: init_inv_def)
  have pts: "init_thread s j \<noteq> T_none \<longleftrightarrow> j < k" for j using assms(1,2) unfolding init_inv_def counts_ok_def by simp
  then have none: "init_thread s k = T_none" by blast
  have "locks_ok ?s" using assms none by (auto simp: init_inv_def locks_ok_def point_defs)
  moreover have "counts_ok n ?s"
  proof -
    have "init_count s = card {j. j < n + 2 \<and> counted (((init_thread s)(k := p)) j)}"
      using assms(1,3) none card_counted [OF k(1), of "init_thread s" p] by (auto simp: init_inv_def counts_ok_def counted_def)
    moreover have "((init_thread s)(k := p)) j \<noteq> T_none \<longleftrightarrow> j < k + 1" for j using pts [of j] assms(3) by auto
    ultimately show ?thesis by (simp add: counts_ok_def to_point_def)
  qed
  moreover have "wake_ok ?s" by (simp add: wake_ok_def to_point_def)
  moreover have "main_ok n (init_count s) (if k + 1 = n \<or> k + 1 = n + 2 then M_lock (k + 1) else M_create (k + 1))" using k by auto
  ultimately show ?thesis by (simp add: init_inv_def to_point_def)
qed

lemma main_step_inv:
  assumes "init_inv n s" and "ia_n a = n" and "thread_init_step a s = Some s'"
  shows "init_inv n s'"
proof (cases "init_main s")
  case (M_create k)
  have f: "init_inv n (s\<lparr>init_main := M_fail k\<rparr>)" using assms(1) M_create by (auto simp: init_inv_defs)
  show ?thesis
    using assms(2,3) M_create f main_create_inv [OF assms(1) M_create, of T_setkeys] main_create_inv [OF assms(1) M_create, of T_lock]
    by (auto simp: thread_init_step_def thread_create_def Let_def to_point_def split: if_splits)
qed (use assms in \<open>auto simp: thread_init_step_def init_inv_defs Let_def split: if_splits\<close>)

lemma init_step_inv:
  assumes "init_step a s s'" and "init_inv (ia_n a) s"
  shows "init_inv (ia_n a) s'"
  using assms
proof (cases rule: init_step.cases)
  case step_main
  then show ?thesis using main_step_inv assms(2) by blast
next
  case (step_worker i)
  then show ?thesis using worker_main_inv assms(2) by blast
next
  case step_aggr
  then show ?thesis using count_in_inv [OF assms(2), of "ia_n a" s'] by (simp add: thread_aggregator_main_def)
next
  case step_klog
  then show ?thesis using count_in_inv [OF assms(2), of "ia_n a + 1" s'] by (simp add: thread_klogger_main_def)
qed

lemma init_reach_inv: "init_reach a s \<Longrightarrow> init_inv (ia_n a) s"
proof (induction rule: init_reach.induct)
  case reach_start
  show ?case by (rule init_inv_start)
next
  case (reach_step s s')
  then show ?case using init_step_inv by blast
next
  case (reach_spurious s t)
  then show ?case by (auto simp: init_inv_defs)
qed

text \<open>When the count has reached the number of threads that were created, all of them have counted themselves.\<close>

lemma all_counted:
  assumes "init_inv n s" and "created n (init_main s) \<le> n + 2" and "created n (init_main s) \<le> init_count s" and "i < created n (init_main s)"
  shows "counted (init_thread s i)"
proof -
  let ?A = "{j. j < n + 2 \<and> counted (init_thread s j)}" and ?B = "{..<created n (init_main s)}"
  have "j < created n (init_main s)" if "counted (init_thread s j)" for j
    using assms(1) that unfolding init_inv_def counts_ok_def counted_def by (metis tpoint.distinct(7,9,11))
  then have "?A \<subseteq> ?B" by blast
  moreover have "card ?B \<le> card ?A" using assms(1,3) by (simp add: init_inv_def counts_ok_def)
  ultimately have "?A = ?B" by (intro card_seteq) simp_all
  then show ?thesis using assms(4) by blast
qed

section \<open>Every start comes to an end\<close>

text \<open>A number that every step makes smaller; a signal that wakes the main thread up is paid for by the thread that sent it.\<close>

fun point_rank :: "tpoint \<Rightarrow> nat" where
  "point_rank T_none = 10"
| "point_rank T_setkeys = 9"
| "point_rank T_lock = 8"
| "point_rank T_count = 7"
| "point_rank T_signal = 6"
| "point_rank T_unlock = 1"
| "point_rank T_loop = 0"
| "point_rank T_exit = 0"

fun main_rank :: "nat \<Rightarrow> mpoint \<Rightarrow> nat" where
  "main_rank n (M_create k) = (if k < n then 20 else 9)"
| "main_rank n (M_lock t) = (if t = n then 14 else 4)"
| "main_rank n (M_test t) = (if t = n then 13 else 3)"
| "main_rank n (M_unlock t) = (if t = n then 12 else 2)"
| "main_rank n (M_wait t) = (if t = n then 10 else 0)"
| "main_rank n _ = 0"

definition init_rank :: "nat \<Rightarrow> init \<Rightarrow> nat" where
  "init_rank n s = (\<Sum>i<n + 2. point_rank (init_thread s i)) + main_rank n (init_main s)"

lemma sum_point_rank:
  fixes n :: nat
  assumes "i < n"
  shows "(\<Sum>j<n. point_rank ((f(i := p)) j)) + point_rank (f i) = (\<Sum>j<n. point_rank (f j)) + point_rank p"
proof -
  have "(\<Sum>j<n. point_rank (g j)) = point_rank (g i) + (\<Sum>j\<in>{..<n} - {i}. point_rank (g j))" for g
    by (rule sum.remove) (use assms in simp_all)
  from this [of f] this [of "f(i := p)"] show ?thesis by simp
qed

lemma to_point_rank:
  assumes "i < n + 2" and "init_thread s' = (init_thread s)(i := p)"
    and "point_rank p + main_rank n (init_main s') < point_rank (init_thread s i) + main_rank n (init_main s)"
  shows "init_rank n s' < init_rank n s"
  using sum_point_rank [OF assms(1), of "init_thread s" p] assms(2,3) by (simp add: init_rank_def)

lemma main_rank_signal: "main_rank n (cond_signal p) \<le> main_rank n p + 4"
  by (cases p) simp_all

lemma count_in_rank:
  assumes "count_in i s = Some s'" and "i < n + 2" shows "init_rank n s' < init_rank n s"
proof -
  obtain p where "init_thread s' = (init_thread s)(i := p)"
    "point_rank p + main_rank n (init_main s') < point_rank (init_thread s i) + main_rank n (init_main s)"
    using assms(1) main_rank_signal [of n "init_main s"]
    by (cases "init_thread s i") (auto simp: count_in_def to_point_def split: if_splits)
  then show ?thesis using to_point_rank [OF assms(2)] by blast
qed

lemma worker_main_rank:
  assumes "thread_worker_main ok i s = Some s'" and "i < n" shows "init_rank n s' < init_rank n s"
proof (cases "init_thread s i = T_setkeys")
  case True
  then have "init_thread s' = (init_thread s)(i := if ok then T_lock else T_exit)" "init_main s' = init_main s"
    using assms(1) by (auto simp: thread_worker_main_def to_point_def)
  then show ?thesis by (intro to_point_rank [of i]) (use assms(2) True in auto)
next
  case False
  then show ?thesis using count_in_rank [of i s s' n] assms by (simp add: thread_worker_main_def)
qed

lemma main_step_rank:
  assumes "thread_init_step a s = Some s'" and "init_inv (ia_n a) s" shows "init_rank (ia_n a) s' < init_rank (ia_n a) s"
proof (cases "init_main s")
  case (M_create k)
  have k: "k < ia_n a + 2" using assms(2) M_create by (simp add: init_inv_def)
  have "init_thread s k \<noteq> T_none \<longleftrightarrow> k < created (ia_n a) (init_main s)" using assms(2) unfolding init_inv_def counts_ok_def by blast
  then have none: "init_thread s k = T_none" using M_create by simp
  show ?thesis
  proof (cases "\<exists>j. init_main s' = M_fail j")
    case True
    then have "init_thread s' = init_thread s" using assms(1) M_create
      by (auto simp: thread_init_step_def thread_create_def Let_def split: if_splits)
    then show ?thesis using True M_create by (auto simp: init_rank_def)
  next
    case False
    then have "init_thread s' = (init_thread s)(k := if k < ia_n a then T_setkeys else T_lock)"
      "init_main s' = (if k + 1 = ia_n a \<or> k + 1 = ia_n a + 2 then M_lock (k + 1) else M_create (k + 1))"
      using assms(1) M_create by (auto simp: thread_init_step_def thread_create_def to_point_def Let_def split: if_splits)
    then show ?thesis by (intro to_point_rank [OF k]) (use none M_create in auto)
  qed
qed (use assms(1) in \<open>auto simp: thread_init_step_def init_rank_def Let_def split: if_splits\<close>)

lemma init_step_rank:
  assumes "init_step a s s'" and "init_inv (ia_n a) s" shows "init_rank (ia_n a) s' < init_rank (ia_n a) s"
  using assms(1)
proof (cases rule: init_step.cases)
  case step_main
  then show ?thesis using main_step_rank assms(2) by blast
next
  case (step_worker i)
  then show ?thesis using worker_main_rank by blast
next
  case step_aggr
  then show ?thesis using count_in_rank [of "ia_n a" s s' "ia_n a"] by (simp add: thread_aggregator_main_def)
next
  case step_klog
  then show ?thesis using count_in_rank [of "ia_n a + 1" s s' "ia_n a"] by (simp add: thread_klogger_main_def)
qed

text \<open>When every call succeeds nothing ends the process, and no thread is stuck before all are done.\<close>

definition init_succeeds :: "init_ans \<Rightarrow> bool" where
  "init_succeeds a \<longleftrightarrow> (\<forall>i < ia_n a. ia_keys a i) \<and> ia_aggr a \<and> ia_klog a \<and> (\<forall>i < ia_n a + 2. ia_create a i)"

definition alive :: "nat \<Rightarrow> init \<Rightarrow> bool" where
  "alive n s \<longleftrightarrow> \<not> init_exit s \<and> (\<forall>k. init_main s \<noteq> M_fail k) \<and> (\<forall>i. init_thread s i \<noteq> T_exit)
     \<and> (\<forall>i. init_thread s i = T_setkeys \<longrightarrow> i < n)"

lemma count_in_alive: "count_in i s = Some s' \<Longrightarrow> alive n s \<Longrightarrow> alive n s'"
  by (cases "init_thread s i") (auto simp: count_in_def to_point_def alive_def split: if_splits)

lemma main_step_alive:
  assumes "thread_init_step a s = Some s'" and "alive (ia_n a) s" and "init_succeeds a" and "init_inv (ia_n a) s"
  shows "alive (ia_n a) s'"
  using assms
  by (cases "init_main s")
    (auto simp: thread_init_step_def thread_create_def to_point_def alive_def init_succeeds_def init_inv_def Let_def split: if_splits)

lemma init_reach_alive:
  assumes "init_reach a s" and "init_succeeds a" shows "alive (ia_n a) s"
  using assms(1)
proof (induction rule: init_reach.induct)
  case reach_start
  show ?case by (auto simp: alive_def init_start_def)
next
  case (reach_step s s')
  from reach_step.hyps(2) show ?case
  proof (cases rule: init_step.cases)
    case step_main
    then show ?thesis using main_step_alive reach_step.IH assms(2) init_reach_inv [OF reach_step.hyps(1)] by blast
  next
    case (step_worker i)
    show ?thesis
    proof (cases "init_thread s i = T_setkeys")
      case True
      then have "s' = to_point i T_lock s" using step_worker assms(2) by (simp add: thread_worker_main_def init_succeeds_def)
      then show ?thesis using reach_step.IH by (auto simp: alive_def to_point_def)
    next
      case False
      then show ?thesis using step_worker count_in_alive reach_step.IH by (simp add: thread_worker_main_def)
    qed
  next
    case step_aggr
    then show ?thesis using count_in_alive reach_step.IH by (simp add: thread_aggregator_main_def)
  next
    case step_klog
    then show ?thesis using count_in_alive reach_step.IH by (simp add: thread_klogger_main_def)
  qed
next
  case (reach_spurious s t)
  then show ?case by (simp add: alive_def)
qed

text \<open>A thread that was created can go on unless it waits for the lock or is in its event loop.\<close>

lemma thread_can_step:
  assumes "alive (ia_n a) s" and "i < ia_n a + 2" and "init_thread s i \<noteq> T_none" and "init_thread s i \<noteq> T_loop"
    and "init_thread s i = T_lock \<Longrightarrow> init_lock s = None"
  shows "\<exists>s'. init_step a s s'"
proof -
  have al: "\<not> init_exit s" "\<forall>k. init_main s \<noteq> M_fail k" "init_thread s i \<noteq> T_exit" "init_thread s i = T_setkeys \<Longrightarrow> i < ia_n a"
    using assms(1) by (auto simp: alive_def)
  have c: "\<exists>s'. count_in i s = Some s'" if "init_thread s i \<noteq> T_setkeys"
    using that assms(3-5) al(3) by (cases "init_thread s i") (auto simp: count_in_def)
  consider "i < ia_n a" | "i = ia_n a" | "i = ia_n a + 1" using assms(2) by linarith
  then show ?thesis
  proof cases
    case 1
    then have "\<exists>s'. thread_worker_main (ia_keys a i) i s = Some s'" using c by (auto simp: thread_worker_main_def)
    then show ?thesis using step_worker [OF al(1,2) 1] by blast
  next
    case 2
    then have "\<exists>s'. thread_aggregator_main (ia_n a) s = Some s'" using c al(4) by (auto simp: thread_aggregator_main_def)
    then show ?thesis using step_aggr [OF al(1,2)] by blast
  next
    case 3
    then have "\<exists>s'. thread_klogger_main (ia_n a) s = Some s'" using c al(4) by (auto simp: thread_klogger_main_def)
    then show ?thesis using step_klog [OF al(1,2)] by blast
  qed
qed

lemma main_can_step:
  assumes "\<not> init_exit s" and "\<forall>k. init_main s \<noteq> M_fail k" and "init_main s \<noteq> M_done" and "\<forall>t. init_main s \<noteq> M_wait t" and "init_lock s = None \<or> init_lock s = Some Main"
    and "init_inv n s"
  shows "\<exists>s'. init_step a s s'"
proof -
  have "\<exists>s'. thread_init_step a s = Some s'"
    using assms(2-6) by (cases "init_main s") (auto simp: thread_init_step_def thread_create_def Let_def init_inv_def locks_ok_def)
  then show ?thesis using step_main [OF assms(1)] by blast
qed

lemma stuck_threads:
  assumes "\<nexists>s'. init_step a s s'" and "alive (ia_n a) s" and "init_inv (ia_n a) s" and "created (ia_n a) (init_main s) \<le> ia_n a + 2"
  shows "init_lock s \<noteq> Some (Thread i)" and "init_lock s \<noteq> Some Main" and "i < created (ia_n a) (init_main s) \<Longrightarrow> init_thread s i = T_loop"
proof -
  have pts: "init_thread s j \<noteq> T_none \<longleftrightarrow> j < created (ia_n a) (init_main s)" for j
    using assms(3) unfolding init_inv_def counts_ok_def by blast
  have at: "init_thread s j = T_loop \<or> init_thread s j = T_lock \<and> init_lock s \<noteq> None" if "j < created (ia_n a) (init_main s)" for j
  proof (rule ccontr)
    assume no: "\<not> (init_thread s j = T_loop \<or> init_thread s j = T_lock \<and> init_lock s \<noteq> None)"
    have "\<exists>s'. init_step a s s'"
      by (rule thread_can_step [OF assms(2), of j]) (use that assms(4) pts [of j] no in auto)
    then show False using assms(1) by blast
  qed
  have t: "init_lock s \<noteq> Some (Thread j)" for j
  proof
    assume "init_lock s = Some (Thread j)"
    then have h: "holding (init_thread s j)" using assms(3) unfolding init_inv_def locks_ok_def by blast
    then have "j < created (ia_n a) (init_main s)" using pts [of j] by (auto simp: holding_def)
    from at [OF this] show False using h by (auto simp: holding_def)
  qed
  have m: "init_lock s \<noteq> Some Main"
  proof
    assume l: "init_lock s = Some Main"
    then have "\<exists>u. init_main s = M_test u \<or> init_main s = M_unlock u" using assms(3) unfolding init_inv_def locks_ok_def by blast
    then show False using main_can_step [of s "ia_n a" a, OF _ _ _ _ _ assms(3)] assms(1,2) l by (auto simp: alive_def)
  qed
  show "init_lock s \<noteq> Some (Thread i)" by (rule t)
  show "init_lock s \<noteq> Some Main" by (rule m)
  have "init_lock s = None" using t m by (cases "init_lock s") (metis owner.exhaust)+
  then show "init_thread s i = T_loop" if "i < created (ia_n a) (init_main s)" using at [OF that] by simp
qed

lemma stuck_done:
  assumes "init_reach a s" and "init_succeeds a" and "\<nexists>s'. init_step a s s'"
  shows "init_main s = M_done \<and> (\<forall>i < ia_n a + 2. init_thread s i = T_loop)"
proof -
  let ?n = "ia_n a"
  have inv: "init_inv ?n s" and al: "alive ?n s" using init_reach_inv init_reach_alive assms(1,2) by blast+
  have main: "main_ok ?n (init_count s) (init_main s)" "\<forall>k. init_main s \<noteq> M_fail k" "\<not> init_exit s"
    using inv al by (simp_all add: init_inv_def alive_def)
  note st = stuck_threads [OF assms(3) al inv created_le [OF main(1,2)]]
  have lock: "init_lock s = None" using st(1,2) by (cases "init_lock s") (metis owner.exhaust)+
  have "init_main s \<noteq> M_wait t" for t
  proof
    assume w: "init_main s = M_wait t"
    have "t \<le> ?n + 2" using main(1) w by auto
    then have "{..<t} \<subseteq> {i. i < ?n + 2 \<and> counted (init_thread s i)}" using st(3) w by (auto simp: counted_def)
    then have "card {..<t} \<le> init_count s"
      using inv card_mono [of "{i. i < ?n + 2 \<and> counted (init_thread s i)}" "{..<t}"] by (simp add: init_inv_def counts_ok_def)
    then obtain i where i: "init_thread s i = T_signal" using inv w by (auto simp: init_inv_def wake_ok_def)
    then have "i < t" using inv w unfolding init_inv_def counts_ok_def by (metis created.simps(4) tpoint.distinct(7))
    then show False using st(3) [of i] i w by simp
  qed
  then have "init_main s = M_done" using main_can_step [OF main(3,2) _ _ _ inv] assms(3) lock by blast
  then show ?thesis using st(3) by simp
qed

lemma done_stuck:
  assumes "init_reach a s" and "init_main s = M_done" and "\<forall>i < ia_n a + 2. init_thread s i = T_loop"
  shows "\<not> init_step a s s'"
proof
  assume "init_step a s s'"
  then show False
    by (cases rule: init_step.cases)
      (use assms(2,3) in \<open>simp_all add: thread_init_step_def thread_worker_main_def thread_aggregator_main_def thread_klogger_main_def count_in_def\<close>)
qed

text \<open>Whatever the threads do, they do it in at most as many steps as the rank says, and then the main thread has its answer.\<close>

lemma init_ends:
  assumes "init_reach a s" and "init_succeeds a"
  shows "\<exists>s'. (init_step a)\<^sup>*\<^sup>* s s' \<and> init_main s' = M_done \<and> (\<forall>i < ia_n a + 2. init_thread s' i = T_loop)"
  using assms(1)
proof (induction "init_rank (ia_n a) s" arbitrary: s rule: less_induct)
  case less
  show ?case
  proof (cases "\<exists>s'. init_step a s s'")
    case True
    then obtain s1 where s1: "init_step a s s1" ..
    note r = reach_step [OF less.prems s1]
    show ?thesis
      using less.hyps [OF init_step_rank [OF s1 init_reach_inv [OF less.prems]] r] s1 by (meson converse_rtranclp_into_rtranclp)
  next
    case False
    then show ?thesis using stuck_done [OF less.prems assms(2)] by blast
  qed
qed

lemma init_done_counted:
  assumes "init_reach a s" and "init_main s = M_done" and "i < ia_n a + 2"
  shows "counted (init_thread s i)"
  by (rule all_counted [OF init_reach_inv [OF assms(1)]]) (use init_reach_inv [OF assms(1)] assms(2,3) in \<open>simp_all add: init_inv_def\<close>)

section \<open>The start as a whole\<close>

text \<open>A worker that has counted itself has set its keys.\<close>

definition keyed :: "init_ans \<Rightarrow> init \<Rightarrow> bool" where
  "keyed a s \<longleftrightarrow> (\<forall>i < ia_n a. init_thread s i \<in> {T_none, T_setkeys, T_exit} \<or> ia_keys a i)"

lemma count_in_keyed:
  assumes "count_in i s = Some s'" and "keyed a s" shows "keyed a s'"
proof -
  have pt: "init_thread s i \<notin> {T_none, T_setkeys, T_exit}" "\<exists>p. init_thread s' = (init_thread s)(i := p)"
    using assms(1) by (cases "init_thread s i"; auto simp: count_in_def to_point_def split: if_splits)+
  show ?thesis
    unfolding keyed_def
  proof (intro allI impI)
    fix j
    assume "j < ia_n a"
    then have "init_thread s j \<in> {T_none, T_setkeys, T_exit} \<or> ia_keys a j" using assms(2) unfolding keyed_def by blast
    then show "init_thread s' j \<in> {T_none, T_setkeys, T_exit} \<or> ia_keys a j" using pt by (cases "j = i") auto
  qed
qed

lemma init_reach_keyed: "init_reach a s \<Longrightarrow> keyed a s"
proof (induction rule: init_reach.induct)
  case reach_start
  show ?case by (simp add: keyed_def init_start_def)
next
  case (reach_step s s')
  from reach_step.hyps(2) show ?case
  proof (cases rule: init_step.cases)
    case step_main
    then show ?thesis using reach_step.IH init_reach_inv [OF reach_step.hyps(1)]
      by (cases "init_main s")
        (auto simp: thread_init_step_def thread_create_def to_point_def keyed_def Let_def split: if_splits)
  next
    case (step_worker i)
    then show ?thesis using reach_step.IH count_in_keyed
      by (cases "init_thread s i = T_setkeys") (auto simp: thread_worker_main_def keyed_def to_point_def split: if_splits)
  next
    case step_aggr
    then show ?thesis using count_in_keyed reach_step.IH by (simp add: thread_aggregator_main_def)
  next
    case step_klog
    then show ?thesis using count_in_keyed reach_step.IH by (simp add: thread_klogger_main_def)
  qed
next
  case (reach_spurious s t)
  then show ?case by (simp add: keyed_def)
qed

text \<open>The answers for the threads as the start sees them: \<open>ts\<close> are the descriptors that were set up.\<close>

definition thread_answers :: "thread_ans list \<Rightarrow> thread_worker list \<Rightarrow> timer_ans \<Rightarrow> timer_ans \<Rightarrow> int \<Rightarrow> int \<Rightarrow> aux_thread \<Rightarrow> aux_thread \<Rightarrow> init_ans" where
  "thread_answers as ts ga ka intvl kintvl g h =
     \<lparr>ia_n = length as,
      ia_keys = (\<lambda>i. fst (thread_setkeys (ta_setspecific (as ! i)) (ts ! i) (\<lambda>_. False)) = MC_OK),
      ia_aggr = (fst (thread_setup_aggregator ga (int (length as)) intvl g) = MC_OK),
      ia_klog = (fst (thread_setup_klogger ka kintvl h) = MC_OK),
      ia_create = (\<lambda>i. if i < length as then ta_create (as ! i) else if i = length as then ma_create ga else ma_create ka)\<rparr>"

lemma threads_started:
  assumes "thread_prepare zalloc keyc da as cas k = (MC_OK, ts, tls)" and a: "a = thread_answers as ts ga ka intvl kintvl g h"
    and "init_reach a s" and "init_main s = M_done" and "i < length as"
  shows "counted (init_thread s i) \<and> worker_ready cas (ts ! i)
    \<and> thread_setkeys (ta_setspecific (as ! i)) (ts ! i) (\<lambda>_. False) = (MC_OK, \<lambda>_. True)"
proof -
  have n: "ia_n a = length as" by (simp add: a thread_answers_def)
  have c: "counted (init_thread s i)" by (rule init_done_counted [OF assms(3,4)]) (use n assms(5) in simp)
  have "init_thread s i \<notin> {T_none, T_setkeys, T_exit}" using c by (auto simp: counted_def)
  then have "ia_keys a i" using init_reach_keyed [OF assms(3)] assms(5) n unfolding keyed_def by metis
  then obtain tls' where k: "thread_setkeys (ta_setspecific (as ! i)) (ts ! i) (\<lambda>_. False) = (MC_OK, tls')"
    by (cases "thread_setkeys (ta_setspecific (as ! i)) (ts ! i) (\<lambda>_. False)") (simp add: a thread_answers_def)
  have w: "worker_ready cas (ts ! i)" using thread_prepare_ok [OF assms(1)] assms(5) by blast
  then have "tls' = (\<lambda>_. True)" using thread_setkeys_ok [OF k] worker_keys by blast
  then show ?thesis using c w k by simp
qed

text \<open>The workers as the dispatcher sees them.\<close>

definition dispatch_state :: "thread_worker list \<Rightarrow> threads" where
  "dispatch_state ts = \<lparr>th_workers = map (\<lambda>t. \<lparr>w_new_cq = tw_new_cq t, w_pipe = 0, w_conns = []\<rparr>) ts, th_last = -1\<rparr>"

lemma prepared_start:
  assumes "thread_prepare zalloc keyc da as cas k = (MC_OK, ts, tls)"
  shows "dispatch_state (take (length as) ts) = thread_start (length as)"
proof -
  have "map (\<lambda>t. \<lparr>w_new_cq = tw_new_cq t, w_pipe = 0, w_conns = []\<rparr>) (take (length as) ts)
      = replicate (length as) \<lparr>w_new_cq = conn_cq_init, w_pipe = 0, w_conns = []\<rparr>"
    by (rule nth_equalityI) (use thread_prepare_ok [OF assms] in \<open>auto simp: worker_ready_def conn_cq_init_def\<close>)
  then show ?thesis by (simp add: dispatch_state_def thread_start_def)
qed

end
