(* ===== verification/McDemoSpawn.thy ===== *)
theory McDemoSpawn
  imports McDemoStart McSpawn
begin

text \<open>Concrete inputs for the properties of the threads and of the sockets: two workers, every call succeeds.\<close>

definition demo_thread :: thread_ans where
  "demo_thread = \<lparr>ta_pipe = Some (7, 8), ta_base = True, ta_event = True, ta_mutex = True, ta_mutex_init = True, ta_thread = True, ta_slabs = True,
     ta_kbuf = Some [], ta_suffix = True, ta_setspecific = (\<lambda>_. True), ta_create = True\<rparr>"

definition demo_timer :: timer_ans where
  "demo_timer = \<lparr>ma_base = True, ma_thread = True, ma_slabs = True, ma_add = True, ma_create = True\<rparr>"

definition demo_aux :: aux_thread where
  "demo_aux = \<lparr>ax_base = False, ax_sem = None, ax_thread = None, ax_slabs = None, ax_timer = None\<rparr>"

definition demo_workers :: "thread_worker list" where
  "demo_workers = fst (snd (thread_prepare True (\<lambda>_. True) demo_thread [demo_thread, demo_thread] True demo_klog))"

lemma demo_prepared:
  "\<exists>tls. thread_prepare True (\<lambda>_. True) demo_thread [demo_thread, demo_thread] True demo_klog = (MC_OK, demo_workers, tls)"
  by (simp add: demo_workers_def thread_prepare_def thread_setup_stats_def thread_setkeys_def thread_setup_def klog_buf_create_def cache_create_def
      demo_thread_def Let_def)

definition demo_init :: init_ans where
  "demo_init = thread_answers [demo_thread, demo_thread] demo_workers demo_timer demo_timer 100000 1000 demo_aux demo_aux"

lemma demo_init_succeeds: "init_succeeds demo_init"
  by (auto simp: init_succeeds_def demo_init_def thread_answers_def thread_setkeys_def thread_setup_aggregator_def thread_setup_klogger_def
      demo_thread_def demo_timer_def less_Suc_eq Let_def)

lemma reach_steps: "(init_step a)\<^sup>*\<^sup>* s s' \<Longrightarrow> init_reach a s \<Longrightarrow> init_reach a s'"
  by (induction rule: rtranclp_induct) (auto intro: reach_step)

lemma demo_started: "\<exists>s. init_reach demo_init s \<and> init_main s = M_done"
  using init_ends [OF reach_start demo_init_succeeds] reach_steps reach_start by blast

text \<open>One address that is no use and two that work.\<close>

definition demo_addr :: "int \<Rightarrow> addr_ans" where
  "demo_addr sd = \<lparr>aa_inet6 = False, aa_socket = sd, aa_nonblock = True, aa_v6only = True, aa_reuse = True, aa_sndbuf = 4096, aa_getbuf = None,
     aa_setbuf = (\<lambda>_. True), aa_bind = Bind_ok, aa_listen = True, aa_conn = \<lparr>cm_ok = True, cm_bufs = all_bufs, cm_rbuf = [], cm_wbuf = []\<rparr>,
     aa_event = True, aa_disp = (\<lambda>_. (\<lparr>cm_ok = True, cm_bufs = all_bufs, cm_rbuf = [], cm_wbuf = []\<rparr>, [], True))\<rparr>"

definition demo_addrs :: "bool \<Rightarrow> addr_ans list option" where
  "demo_addrs udp = Some (if udp then [demo_addr 6] else [demo_addr (-1), demo_addr 5])"

definition demo_lconf :: "unit conf" where
  "demo_lconf = demo_conf\<lparr>st_num_workers := 2, st_udpport := 11211\<rparr>"

definition demo_lstate :: lstate where
  "demo_lstate = \<lparr>ls_socks = Map.empty, ls_queue = [], ls_threads = dispatch_state (take 2 demo_workers), ls_metrics = demo_metrics,
     ls_umask = 18, ls_path = None\<rparr>"

lemma demo_dispatch_state: "dispatch_state (take 2 demo_workers) = thread_start 2"
  using demo_prepared prepared_start [where as = "[demo_thread, demo_thread]" and ts = demo_workers] by (force simp: numeral_2_eq_2)

lemmas demo_listen_defs = core_create_inet_socket_def inet_round_def fresh_sock_def demo_addrs_def demo_addr_def demo_lconf_def demo_conf_def
  demo_lstate_def conn_get_def Let_def

lemma demo_tcp:
  "\<exists>m c. core_create_inet_socket 100 demo_lconf (demo_addrs False) False demo_lstate
     = (MC_OK, demo_lstate\<lparr>ls_metrics := m, ls_queue := [(5, \<lparr>l_flags = EV_read, l_backlog = 1024\<rparr>)], ls_socks := [5 \<mapsto> c]\<rparr>)"
  by (simp add: demo_listen_defs) blast

lemma demo_udp:
  assumes "ls_threads l = thread_start 2"
  shows "fst (core_create_inet_socket 100 demo_lconf (demo_addrs True) True l) = MC_OK"
  using assms
  by (simp add: demo_listen_defs thread_dispatch_def thread_start_def numeral_2_eq_2 mc_maximize_sndbuf_def)

lemma demo_listening:
  "\<exists>l'. core_create_socket 100 demo_lconf (demo_addr 5) demo_addrs demo_lstate = (MC_OK, l')" "create_fresh 100 demo_lconf demo_addrs demo_lstate"
  "all_ready (st_backlog demo_lconf) demo_lstate" "nat (st_num_workers demo_lconf) = length [demo_thread, demo_thread]"
proof -
  obtain m c where t: "core_create_inet_socket 100 demo_lconf (demo_addrs False) False demo_lstate
     = (MC_OK, demo_lstate\<lparr>ls_metrics := m, ls_queue := [(5, \<lparr>l_flags = EV_read, l_backlog = 1024\<rparr>)], ls_socks := [5 \<mapsto> c]\<rparr>)" (is "_ = (MC_OK, ?l)")
    using demo_tcp by blast
  have p: "st_socketpath demo_lconf = None" "st_port demo_lconf = 11211" "st_udpport demo_lconf = 11211"
    by (simp_all add: demo_lconf_def demo_conf_def)
  have "ls_threads ?l = thread_start 2" by (simp add: demo_lstate_def demo_dispatch_state)
  from demo_udp [OF this] show "\<exists>l'. core_create_socket 100 demo_lconf (demo_addr 5) demo_addrs demo_lstate = (MC_OK, l')"
    by (cases "core_create_inet_socket 100 demo_lconf (demo_addrs True) True ?l") (simp add: core_create_socket_def p t)
  show "create_fresh 100 demo_lconf demo_addrs demo_lstate"
    by (simp add: create_fresh_def p t ai_fresh_def)
      (simp add: demo_addrs_def demo_addr_def demo_lstate_def inet_round_def)
  show "all_ready (st_backlog demo_lconf) demo_lstate" by (simp add: all_ready_def demo_lstate_def)
  show "nat (st_num_workers demo_lconf) = length [demo_thread, demo_thread]" by (simp add: demo_lconf_def)
qed

end
