(* ===== verification/McHashBig.thy ===== *)
theory McHashBig
  imports McHash
begin

text \<open>
  The body of the hash function of \<^verbatim>\<open>mc_hash.c\<close> that is compiled on big-endian machines: 32-bit loads with the first byte in the most
  significant place when the key is 4-aligned, single bytes otherwise. It computes another function than the little-endian body, but also one that
  depends on nothing but the bytes of the key.
\<close>

section \<open>The two paths\<close>

definition ld32be :: "mem \<Rightarrow> nat \<Rightarrow> u32" where
  "ld32be m p = of_nat (16777216 * of_char (m p) + 65536 * of_char (m (p + 1)) + 256 * of_char (m (p + 2)) + of_char (m (p + 3)))"

fun loop32be :: "mem \<Rightarrow> nat \<Rightarrow> nat \<Rightarrow> abc \<Rightarrow> nat \<times> nat \<times> abc" where
  "loop32be m k len (a, b, c) =
     (if 12 < len
      then loop32be m (k + 12) (len - 12) (mix (a + ld32be m k, b + ld32be m (k + 4), c + ld32be m (k + 8)))
      else (k, len, (a, b, c)))"

definition tail32be :: "mem \<Rightarrow> nat \<Rightarrow> nat \<Rightarrow> abc \<Rightarrow> u32" where
  "tail32be m k len s = (case s of (a, b, c) \<Rightarrow>
     (if len = 12 then final (a + ld32be m k, b + ld32be m (k + 4), c + ld32be m (k + 8))
      else if len = 11 then final (a + ld32be m k, b + ld32be m (k + 4), c + (ld32be m (k + 8) AND 0xffffff00))
      else if len = 10 then final (a + ld32be m k, b + ld32be m (k + 4), c + (ld32be m (k + 8) AND 0xffff0000))
      else if len = 9 then final (a + ld32be m k, b + ld32be m (k + 4), c + (ld32be m (k + 8) AND 0xff000000))
      else if len = 8 then final (a + ld32be m k, b + ld32be m (k + 4), c)
      else if len = 7 then final (a + ld32be m k, b + (ld32be m (k + 4) AND 0xffffff00), c)
      else if len = 6 then final (a + ld32be m k, b + (ld32be m (k + 4) AND 0xffff0000), c)
      else if len = 5 then final (a + ld32be m k, b + (ld32be m (k + 4) AND 0xff000000), c)
      else if len = 4 then final (a + ld32be m k, b, c)
      else if len = 3 then final (a + (ld32be m k AND 0xffffff00), b, c)
      else if len = 2 then final (a + (ld32be m k AND 0xffff0000), b, c)
      else if len = 1 then final (a + (ld32be m k AND 0xff000000), b, c)
      else c))"

definition add8x4be :: "mem \<Rightarrow> nat \<Rightarrow> u32 \<Rightarrow> u32" where
  "add8x4be m p x =
     (let x = x + push_bit 24 (ld8 m p);
          x = x + push_bit 16 (ld8 m (p + 1));
          x = x + push_bit 8 (ld8 m (p + 2));
          x = x + ld8 m (p + 3)
      in x)"

fun loop8be :: "mem \<Rightarrow> nat \<Rightarrow> nat \<Rightarrow> abc \<Rightarrow> nat \<times> nat \<times> abc" where
  "loop8be m k len (a, b, c) =
     (if 12 < len
      then loop8be m (k + 12) (len - 12) (mix (add8x4be m k a, add8x4be m (k + 4) b, add8x4be m (k + 8) c))
      else (k, len, (a, b, c)))"

text \<open>One word of the last block: the bytes at \<open>p\<close> to \<open>p + 3\<close>, of which those are added whose case the switch falls through, the last first.\<close>

definition fall4 :: "mem \<Rightarrow> nat \<Rightarrow> nat \<Rightarrow> nat \<Rightarrow> u32 \<Rightarrow> u32" where
  "fall4 m p len j x =
     (let x = fall len (j + 4) x (ld8 m (p + 3));
          x = fall len (j + 3) x (push_bit 8 (ld8 m (p + 2)));
          x = fall len (j + 2) x (push_bit 16 (ld8 m (p + 1)))
      in fall len (j + 1) x (push_bit 24 (ld8 m p)))"

definition tail8be :: "mem \<Rightarrow> nat \<Rightarrow> nat \<Rightarrow> abc \<Rightarrow> u32" where
  "tail8be m k len s = (case s of (a, b, c) \<Rightarrow>
     if len = 0 then c
     else
       (let c = fall4 m (k + 8) len 8 c;
            b = fall4 m (k + 4) len 4 b;
            a = fall4 m k len 0 a
        in final (a, b, c)))"

definition hash_big :: "mem \<Rightarrow> nat \<Rightarrow> nat \<Rightarrow> u32 \<Rightarrow> u32" where
  "hash_big m key len initval =
     (if key mod 4 = 0 then
        (case loop32be m key len (hash_init len initval) of (k, n, s) \<Rightarrow> tail32be m k n s)
      else
        (case loop8be m key len (hash_init len initval) of (k, n, s) \<Rightarrow> tail8be m k n s))"

definition hash_big_bytes :: "bytes \<Rightarrow> u32 \<Rightarrow> u32" where
  "hash_big_bytes bs initval =
     (case loop8be (\<lambda>i. if i < length bs then bs ! i else CHR 0x00) 0 (length bs) (hash_init (length bs) initval)
      of (k, n, s) \<Rightarrow> tail8be (\<lambda>i. if i < length bs then bs ! i else CHR 0x00) k n s)"

declare loop32be.simps [simp del] loop8be.simps [simp del]

section \<open>The paths agree\<close>

lemma add8x4be_ld32be: "add8x4be m p x = x + ld32be m p"
  by (simp add: add8x4be_def ld32be_def ld8_def push_bit_eq_mult algebra_simps)

text \<open>Masking the low bits of a word off leaves the part above them.\<close>

lemma and_high:
  assumes "r < 2 ^ n" shows "(of_nat (2 ^ n * q + r) :: u32) AND NOT (mask n) = of_nat (2 ^ n * q)"
proof -
  let ?w = "of_nat (2 ^ n * q + r) :: u32"
  have "?w AND NOT (mask n) = push_bit n (drop_bit n ?w)" by (rule bit_eqI) (auto simp: bit_simps)
  moreover have "push_bit n (drop_bit n ?w) + take_bit n ?w = ?w" by (rule bits_ident)
  moreover have "take_bit n ?w = of_nat r"
    using assms by (simp only: take_bit_of_nat) (simp add: take_bit_eq_mod)
  ultimately show ?thesis by simp
qed

lemma high_masks: "(0xffffff00 :: u32) = NOT (mask 8)" "(0xffff0000 :: u32) = NOT (mask 16)" "(0xff000000 :: u32) = NOT (mask 24)"
  by (simp_all add: mask_eq_exp_minus_1 not_eq_complement)

lemma ld32be_masks:
  "ld32be m p AND 0xff000000 = push_bit 24 (ld8 m p)"
  "ld32be m p AND 0xffff0000 = push_bit 24 (ld8 m p) + push_bit 16 (ld8 m (p + 1))"
  "ld32be m p AND 0xffffff00 = push_bit 24 (ld8 m p) + push_bit 16 (ld8 m (p + 1)) + push_bit 8 (ld8 m (p + 2))"
proof -
  let ?x = "\<lambda>i. of_char (m (p + i)) :: nat"
  have lt: "?x i < 256" for i by (rule of_char_less_256)
  have "?x 3 < 256" "256 * ?x 2 + ?x 3 < 65536" "65536 * ?x 1 + 256 * ?x 2 + ?x 3 < 16777216"
    using lt [of 1] lt [of 2] lt [of 3] by linarith+
  then have "?x 3 < 2 ^ 8" "256 * ?x 2 + ?x 3 < 2 ^ 16" "65536 * ?x 1 + 256 * ?x 2 + ?x 3 < 2 ^ 24" by simp_all
  note h = and_high [OF this(3), of "?x 0"] and_high [OF this(2), of "256 * ?x 0 + ?x 1"] and_high [OF this(1), of "65536 * ?x 0 + 256 * ?x 1 + ?x 2"]
  show "ld32be m p AND 0xff000000 = push_bit 24 (ld8 m p)"
    using h(1) unfolding high_masks by (simp add: ld32be_def ld8_def push_bit_eq_mult algebra_simps)
  show "ld32be m p AND 0xffff0000 = push_bit 24 (ld8 m p) + push_bit 16 (ld8 m (p + 1))"
    using h(2) unfolding high_masks by (simp add: ld32be_def ld8_def push_bit_eq_mult algebra_simps)
  show "ld32be m p AND 0xffffff00 = push_bit 24 (ld8 m p) + push_bit 16 (ld8 m (p + 1)) + push_bit 8 (ld8 m (p + 2))"
    using h(3) unfolding high_masks by (simp add: ld32be_def ld8_def push_bit_eq_mult algebra_simps)
qed

lemma ld32be_ld8: "ld32be m p = push_bit 24 (ld8 m p) + push_bit 16 (ld8 m (p + 1)) + push_bit 8 (ld8 m (p + 2)) + ld8 m (p + 3)"
  by (simp add: ld32be_def ld8_def push_bit_eq_mult algebra_simps)

lemma loop32be_loop8be: "loop32be m k n s = loop8be m k n s"
proof (induction m k n s rule: loop32be.induct)
  case (1 m k n a b c)
  then show ?case by (subst loop32be.simps, subst loop8be.simps) (simp add: add8x4be_ld32be)
qed

lemma loop8be_rest: "loop8be m k n s = (k', n', s') \<Longrightarrow> n' \<le> 12"
proof (induction m k n s rule: loop8be.induct)
  case (1 m k n a b c)
  then show ?case by (cases "12 < n") (auto simp: loop8be.simps [of m k n])
qed

lemma tail32be_tail8be: "n \<le> 12 \<Longrightarrow> tail32be m k n s = tail8be m k n s"
  unfolding tail32be_def ld32be_masks
  by (drule le_12_cases, elim insertE emptyE)
    (simp_all add: ld32be_ld8 tail8be_def fall4_def fall_def algebra_simps split: prod.splits)

lemma hash_big_loop8be:
  "hash_big m key n initval = (case loop8be m key n (hash_init n initval) of (k, n', s) \<Rightarrow> tail8be m k n' s)"
  using loop8be_rest [of m key n "hash_init n initval"]
  by (auto simp: hash_big_def loop32be_loop8be tail32be_tail8be split: prod.splits)

section \<open>Only the bytes of the key matter\<close>

lemma add8x4be_eq:
  assumes "\<And>i. i < 4 \<Longrightarrow> m (k + i) = m' (k' + i)" shows "add8x4be m k x = add8x4be m' k' x"
proof -
  have e: "ld8 m (k + i) = ld8 m' (k' + i)" if "i < 4" for i using assms that by (simp add: ld8_def)
  from e [of 0] e [of 1] e [of 2] e [of 3] show ?thesis by (simp add: add8x4be_def)
qed

lemma fall4_eq:
  assumes "\<And>i. i < 4 \<Longrightarrow> j + i < n \<Longrightarrow> m (p + i) = m' (p' + i)" shows "fall4 m p n j x = fall4 m' p' n j x"
proof -
  have e: "j + Suc i \<le> n \<Longrightarrow> ld8 m (p + i) = ld8 m' (p' + i)" if "i < 4" for i using assms that by (simp add: ld8_def)
  from e [of 0] e [of 1] e [of 2] e [of 3] show ?thesis
    by (simp add: fall4_def fall_def Let_def numeral_eq_Suc)
qed

lemma tail8be_eq:
  assumes "\<And>i. i < n \<Longrightarrow> m (k + i) = m' (k' + i)" shows "tail8be m k n s = tail8be m' k' n s"
proof -
  have "fall4 m (k + j) n j x = fall4 m' (k' + j) n j x" for j x
    by (rule fall4_eq) (use assms in \<open>simp add: add.assoc\<close>)
  from this [of 0] this [of 4] this [of 8] show ?thesis by (cases s) (simp add: tail8be_def Let_def)
qed

lemma loop8be_tail8be_eq:
  assumes "\<And>i. i < n \<Longrightarrow> m (k + i) = m' (k' + i)"
  shows "(case loop8be m k n s of (k, n, s) \<Rightarrow> tail8be m k n s) = (case loop8be m' k' n s of (k, n, s) \<Rightarrow> tail8be m' k n s)"
  using assms
proof (induction n arbitrary: k k' s rule: less_induct)
  case (less n)
  obtain a b c where s: "s = (a, b, c)" by (metis prod_cases3)
  show ?case
  proof (cases "12 < n")
    case False
    then show ?thesis using tail8be_eq [of n m k m' k' s] less.prems by (simp add: s loop8be.simps)
  next
    case True
    have "add8x4be m (k + j) x = add8x4be m' (k' + j) x" if "j \<le> 8" for j x
      using less.prems that True by (intro add8x4be_eq) (simp add: add.assoc)
    from this [of 0] this [of 4] this [of 8] show ?thesis
      using less.IH [of "n - 12" "k + 12" "k' + 12"] less.prems True by (simp add: s loop8be.simps [of _ _ n] add.assoc)
  qed
qed

lemma hash_big_rd_bytes: "hash_big m key n initval = hash_big_bytes (rd_bytes m key n) initval"
  unfolding hash_big_loop8be hash_big_bytes_def length_rd_bytes by (rule loop8be_tail8be_eq) simp

end
