(* ===== verification/Spec2Isabelle.thy ===== *)
theory Spec2Isabelle
  imports McDemoSpawn McHashBig
begin

text \<open>
  A verification development for twemcache, a memcached server in C. The sources are under \<^verbatim>\<open>src/src/\<close>.

  \<^bold>\<open>The program.\<close> A worker thread reads request lines from a connection (\<^verbatim>\<open>mc_core.c\<close>, \<^verbatim>\<open>mc_connection.c\<close>), recognises and
  handles them (\<^verbatim>\<open>mc_ascii.c\<close>), and works on one cache that all workers share under a lock: items (\<^verbatim>\<open>mc_items.c\<close>) live in chunks of slabs
  (\<^verbatim>\<open>mc_slabs.c\<close>) and are found through a hash table (\<^verbatim>\<open>mc_assoc.c\<close>, \<^verbatim>\<open>mc_hash.c\<close>) that a maintenance thread grows. Around it are the
  clock (\<^verbatim>\<open>mc_time.c\<close>), metrics (\<^verbatim>\<open>mc_stats.c\<close>), the hot key detector (\<^verbatim>\<open>mc_hotkey.c\<close>, \<^verbatim>\<open>mc_key_window.c\<close>, \<^verbatim>\<open>mc_kc_map.c\<close>,
  \<^verbatim>\<open>mc_ring_array.c\<close>), a pool of buffers (\<^verbatim>\<open>mc_cache.c\<close>), the parsing and printing of numbers (\<^verbatim>\<open>mc_util.c\<close>), the command log (\<^verbatim>\<open>mc_klog.c\<close>), the
  debug log and the signals (\<^verbatim>\<open>mc_log.c\<close>, \<^verbatim>\<open>mc_signal.c\<close>) and the start-up (\<^verbatim>\<open>mc.c\<close>, \<^verbatim>\<open>mc_thread.c\<close>).

  \<^bold>\<open>Data.\<close> A struct is a \<^theory_text>\<open>record\<close> with its fields, an enum a \<^theory_text>\<open>datatype\<close>; integers whose width matters are words
  (\<^verbatim>\<open>uint32_t\<close> is \<open>u32\<close>), others are \<open>nat\<close> or \<open>int\<close>. The memory of an item is a function from offsets to bytes, addresses are numbers, a
  queue of the BSD macros (\<^verbatim>\<open>mc_queue.h\<close>) is the list of the addresses it links. The state of the cache is one record \<open>cache\<close> with the
  globals of \<^verbatim>\<open>mc_items.c\<close>, \<^verbatim>\<open>mc_slabs.c\<close> and \<^verbatim>\<open>mc_assoc.c\<close>; an operation takes and returns it. What the operating system
  answers (allocations, random numbers, the clock, results of \<^verbatim>\<open>write\<close>) is an argument: \<open>env\<close> for the cache, \<open>world\<close> for a worker, \<open>net\<close> for
  its sockets. A
  failed call is a value of \<open>rstatus\<close> or of an option; the flag \<open>ub\<close> of the cache records an operation C leaves undefined.

  \<^bold>\<open>Theories and what they show.\<close>
  \<^item> \<open>McPrelude\<close>, \<open>McUtil\<close>, \<open>McHash\<close>, \<open>McHashBig\<close>: bytes and memory; the parsing of numbers with the overflow test of the code; Jenkins' hash, whose
    paths for aligned and unaligned keys are shown equal to one function of the bytes, for each byte order (C30, C31). \<open>McQueue\<close>: the queue macros on the links themselves,
    shown to implement the lists that the other theories use; a locale states the contract and is interpreted for each kind (C32).
  \<^item> \<open>McAssoc\<close>: chains, expansion and the maintenance rounds, with a locale for the interface of a finite map that the cache relies on and its
    interpretation; lookups after insert and delete, also while the table is being moved, and termination of the maintenance (C18, C19).
  \<^item> \<open>McStats\<close>, \<open>McState\<close>: metrics, and the state.
  \<^item> \<open>McSlabClass\<close>, \<open>McSlabs\<close>, \<open>McItems\<close>: the operations of slabs and items (C16, C17). \<open>McInv\<close> defines the invariant \<open>cache_inv\<close>: slabs do not
    overlap, every chunk is linked, free, referenced or not carved yet and is so exactly once, reference counts of slabs are the sums of those of their
    items, queues and index hold exactly the linked items. \<open>McSlabInv\<close> and \<open>McItemInv\<close> show that every operation keeps it.
  \<^item> \<open>McStore\<close>, \<open>McFlush\<close>, \<open>McAnnex\<close>: the storage commands refine operations on the map \<open>view\<close> from keys to entries, of which a client
    sees the part \<open>lookup\<close> (C1 to C9).
  \<^item> \<open>McBoot\<close>, \<open>McSystem\<close>: the set-up of the cache, and the cache as a transition system of all calls under the lock; the invariant and memory
    safety hold in every reachable state (C10, C11).
  \<^item> \<open>McTime\<close>, \<open>McRing\<close>, \<open>McKeyWindow\<close>, \<open>McHotkey\<close>, \<open>McCache\<close>: clock, the lock-free queue between one producer and one consumer, the
    hot key detector and the pool of buffers (C33 to C38).
  \<^item> \<open>McReq\<close>: tokens and types of requests (C22). \<open>McConn\<close>: the scatter/gather lists of a connection (C21). \<open>McKlog\<close>: the command
    log as a queue of bytes into a file (C39).
  \<^item> \<open>McServer\<close>, \<open>McAscii\<close>, \<open>McDispatch\<close>: the state \<open>srv\<close> of a worker with one connection and the handlers of the ascii protocol. \<open>McFrame\<close>
    collects in locales the fields of a connection that a handler may change; \<open>McParse\<close> interprets them and
    shows that requests are taken one line at a time; \<open>McProto\<close>, \<open>McRequest\<close> and \<open>McUpdate\<close> follow requests from their line to the reply
    and the change of the cache (C14, C15).
  \<^item> \<open>McAggr\<close>: the tables of metrics and their aggregation over the threads (C24). \<open>McReport\<close>, \<open>McStatsOk\<close>: the texts of the stats command and the
    buffer that collects them (C23).
  \<^item> \<open>McThread\<close>: the hand-over of connections to the workers (C29). \<open>McCore\<close>, \<open>McDrive\<close>: the state \<open>drv\<close> of a connection with its socket, and the
    state machine that reads, parses, receives values, sends, accepts and closes. \<open>McTransmit\<close> shows that what is sent is what was
    to be sent, in order (C20), and \<open>McServe\<close> follows requests from the read buffer through the machine to the last byte of the reply (C12, C13).
  \<^item> \<open>McListen\<close>: the listening sockets (C28). \<open>McSpawn\<close>: the set-up of the threads, and the barrier behind which \<^verbatim>\<open>thread_init\<close> waits for them as a
    transition system with a mutex and a condition variable (C27).
  \<^item> \<open>McOptions\<close>: the options of the command line and the settings they make (C26). \<open>McPrint\<close>: the bounded printing of \<^verbatim>\<open>mc_util.c\<close>, with a reference that
    says which text a format denotes (C40). \<open>McLog\<close>: the debug log with its dumps, and the signals. \<open>McStart\<close>: limits, user, daemon, pid file and
    \<^verbatim>\<open>main\<close> up to the set-up of the modules (C25).
  \<^item> \<open>McDemo\<close>, \<open>McDemoHot\<close>, \<open>McDemoSrv\<close>, \<open>McDemoDrv\<close>, \<open>McDemoStart\<close>, \<open>McDemoSpawn\<close>: concrete runs on which the properties are applied.

  \<^bold>\<open>Loops.\<close> Loops over finite structures are structural recursion or \<^theory_text>\<open>function\<close>s with a measure; the bounded retries of the code
  (\<open>SLAB_RAND_MAX_TRIES\<close> and the like) are its own constants. The loop of \<^verbatim>\<open>asc_process_read\<close> over the keys of a request retries a key when memory runs out
  and may not end: it is a \<^theory_text>\<open>partial_function\<close> into option. The probing loop of the key count map and the maintenance of the hash
  table are shown to end. The loops of \<^verbatim>\<open>core_drive_machine\<close> and of the retries of \<^verbatim>\<open>accept\<close> depend on what the system answers and are
  \<^theory_text>\<open>partial_function\<close>s too; the runs of the machine are the inductive \<open>core_run\<close>, and C12 and C13 show that it reaches the end of a request. The start of the threads has a rank that
  every step makes smaller.

  \<^bold>\<open>Assumptions.\<close> Reference counts are 16 bits wide and are never checked by the code, so properties that take references assume that there
  is room for them (\<open>room\<close>); the allocator returns disjoint blocks (\<open>alloc_ok\<close>). Memory is sequentially consistent.

  \<^bold>\<open>Not modelled.\<close> The event loops of libevent and the timer of the clock; the texts of the usage and of the
  list of metrics; the allocation wrappers of \<^verbatim>\<open>mc_util.c\<close>, the resolution of the name of a peer and the options of sockets that the program does not set;
  the functions that only free memory at the end. They only call the system or
  print constant texts.
\<close>

section \<open>Storage commands\<close>

text \<open>
  C1: set makes the entry of its key the value, flags and expiry of the new item, with a fresh cas id,
  and changes nothing else a client can see; the cache invariant is kept.
\<close>

theorem item_set_store:
  assumes "cache_inv e s" and "room 1 s" and "pending s it"
  shows "cache_inv e (item_set e it s) \<and> view (item_set e it s) = (view s)(key_of s it \<mapsto> stored s it)"
  by (rule item_set_spec [OF assms])

theorem item_set_store_witness:
  "cache_inv demo_env (item_set demo_env demo_it demo_full)
   \<and> view (item_set demo_env demo_it demo_full)
       = [''k'' \<mapsto> \<lparr>en_value = ''7'', en_dataflags = 0, en_exptime = 0, en_cas = 1\<rparr>]"
  using item_set_store [OF demo_full_state(1) demo_full_room(1) demo_full_state(4)] demo_full_state
  by simp

text \<open>
  C2: cas replaces the entry of its key only if the key is visible and carries the cas id given
  in the request; otherwise it reports which of the two failed, and the view changes only by
  dropping an entry that had expired.
\<close>

theorem item_cas_store:
  assumes "cache_inv e s" and "room 1 s" and "pending s it"
  shows "case item_cas e it s of (r, s') \<Rightarrow> cache_inv e s' \<and>
    (case lookup s (key_of s it) of
       None \<Rightarrow> r = CAS_NOT_FOUND \<and> view s' = (view s)(key_of s it := None)
     | Some v \<Rightarrow>
         if en_cas v = en_cas (entry_of s it)
         then r = CAS_OK \<and> view s' = (view s)(key_of s it \<mapsto> stored s it)
         else r = CAS_EXISTS \<and> view s' = view s)"
  by (rule item_cas_spec [OF assms])

theorem item_cas_store_witness:
  "case item_cas demo_env demo_it demo_full of (r, s') \<Rightarrow>
     cache_inv demo_env s' \<and> r = CAS_NOT_FOUND \<and> view s' = Map.empty"
  using item_cas_store [OF demo_full_state(1) demo_full_room(1) demo_full_state(4)] demo_full_state(2,5,11)
  by (simp split: prod.splits)

text \<open>
  C3: add stores the item exactly when its key is not visible, and otherwise leaves the view as it is; replace stores it exactly when
  its key is visible, and otherwise the only change is that an expired entry of the key is dropped.
\<close>

theorem item_add_replace_store:
  assumes "cache_inv e s" and "room 1 s" and "pending s it"
  shows "(case item_add e it s of (r, s') \<Rightarrow> cache_inv e s' \<and>
      (if lookup s (key_of s it) = None
       then r = ADD_OK \<and> view s' = (view s)(key_of s it \<mapsto> stored s it)
       else r = ADD_EXISTS \<and> view s' = view s))
    \<and> (case item_replace e it s of (r, s') \<Rightarrow> cache_inv e s' \<and>
      (if lookup s (key_of s it) = None
       then r = REPLACE_NOT_FOUND \<and> view s' = (view s)(key_of s it := None)
       else r = REPLACE_OK \<and> view s' = (view s)(key_of s it \<mapsto> stored s it)))"
  by (rule conjI [OF item_add_spec [OF assms] item_replace_spec [OF assms]])

theorem item_add_replace_store_witness:
  "(case item_add demo_env demo_it demo_full of (r, s') \<Rightarrow> cache_inv demo_env s' \<and> r = ADD_OK
     \<and> view s' = [''k'' \<mapsto> \<lparr>en_value = ''7'', en_dataflags = 0, en_exptime = 0, en_cas = 1\<rparr>])
   \<and> (case item_replace demo_env demo_it demo_full of (r, s') \<Rightarrow> cache_inv demo_env s' \<and> r = REPLACE_NOT_FOUND
     \<and> view s' = Map.empty)"
  using item_add_replace_store [OF demo_full_state(1) demo_full_room(1) demo_full_state(4)] demo_full_state(2,5,6,11)
  by (simp split: prod.splits)

text \<open>
  C4: delete removes its key and no other from the view, and reports success exactly when the key
  was visible.
\<close>

theorem item_delete_store:
  assumes "cache_inv e s" and "room 1 s"
  shows "case item_delete key s of (r, s') \<Rightarrow> cache_inv e s'
    \<and> view s' = (view s)(key := None) \<and> (r = DELETE_OK \<longleftrightarrow> lookup s key \<noteq> None)"
  by (rule item_delete_spec [OF assms])

theorem item_delete_store_witness:
  "case item_delete ''k'' demo_set of (r, s') \<Rightarrow> cache_inv demo_env s' \<and> view s' ''k'' = None \<and> r = DELETE_OK"
  using item_delete_store [OF demo_set_state(1) demo_set_room(1), of "''k''"] demo_set_state(4)
  by (simp split: prod.splits)

text \<open>
  C5: a lookup returns an item exactly when its key is visible (present, not expired, not flushed);
  the item then carries the entry of the key and one more reference. When it returns nothing, an
  expired entry of the key is gone from the view and nothing else changed in it.
\<close>

theorem item_get_store:
  assumes "cache_inv e s" and "room 1 s"
  shows "case item_get_op key s of (r, s') \<Rightarrow> cache_inv e s'
    \<and> map_option (entry_of s') r = lookup s key
    \<and> view s' = (if lookup s key = None then (view s)(key := None) else view s)
    \<and> (\<forall>it. r = Some it \<longrightarrow> it_refcount (items s' it) = it_refcount (items s it) + 1 \<and> key_of s' it = key)"
  by (rule item_get_spec [OF assms])

theorem item_get_store_witness:
  "case item_get_op ''k'' demo_set of (r, s') \<Rightarrow> cache_inv demo_env s'
    \<and> map_option (entry_of s') r = Some \<lparr>en_value = ''7'', en_dataflags = 0, en_exptime = 0, en_cas = 1\<rparr>"
  using item_get_store [OF demo_set_state(1) demo_set_room(1), of "''k''"] demo_set_state(4)
  by (simp split: prod.splits)

text \<open>
  C6: an allocation hands out an unlinked item with one reference, the key, sizes, flags and expiry asked
  for, in a chunk nobody else holds; whatever it evicts, items that are referenced keep their
  content, no entry of the view changes its value, and the invariant is kept. When it fails it still
  only evicts.
\<close>

theorem item_alloc_safe:
  assumes "cache_inv e s" and "env_ok e s" and "room 1 s" and "valid_id s cid"
    and "item_ntotal (length key) n (use_cas (settings s)) \<le> slab_item_size s cid"
  shows "case item_alloc e cid key d x n s of (res, s') \<Rightarrow>
    cache_inv e s' \<and> view s' \<subseteq>\<^sub>m view s
    \<and> (\<forall>a. a \<in> live s \<and> it_refcount (items s a) \<noteq> 0 \<longrightarrow> a \<in> live s' \<and> items s' a = items s a)
    \<and> (\<forall>it. res = Some it \<longrightarrow> pending s' it \<and> it_refcount (items s' it) = 1
         \<and> (it \<notin> live s \<or> it_refcount (items s it) = 0)
         \<and> key_of s' it = key \<and> it_nbyte (items s' it) = n \<and> it_dataflags (items s' it) = d
         \<and> it_exptime (items s' it) = x \<and> it_id (items s' it) = cid)"
proof (cases "item_alloc e cid key d x n s")
  case (Pair res s')
  note A = item_alloc_inv [OF assms(1,2,4,3,5) Pair]
  from A(2) have "\<forall>a. a \<in> live s \<and> it_refcount (items s a) \<noteq> 0 \<longrightarrow> a \<in> live s' \<and> items s' a = items s a"
    by (simp add: preserves_def)
  moreover have "\<forall>it. res = Some it \<longrightarrow> pending s' it \<and> it_refcount (items s' it) = 1
         \<and> (it \<notin> live s \<or> it_refcount (items s it) = 0)
         \<and> key_of s' it = key \<and> it_nbyte (items s' it) = n \<and> it_dataflags (items s' it) = d
         \<and> it_exptime (items s' it) = x \<and> it_id (items s' it) = cid"
    using A(4,5) by (simp add: pending_def)
  ultimately show ?thesis using A(1,3) Pair by simp
qed

theorem item_alloc_safe_witness:
  "case item_alloc demo_env 1 ''key'' 5 9 12 demo_set of (res, s') \<Rightarrow>
     cache_inv demo_env s' \<and> view s' \<subseteq>\<^sub>m view demo_set"
proof -
  have "item_ntotal (length ''key'') 12 (use_cas (settings demo_set)) \<le> slab_item_size demo_set 1"
    unfolding demo_set_state(6) by (simp add: item_ntotal_def ITEM_HDR_SIZE_def CAS_SIZE_def CRLF_LEN_def)
  from item_alloc_safe [OF demo_set_state(1) demo_set_room(3,1) demo_set_valid this, of 5 9]
  show ?thesis by (simp split: prod.splits)
qed

text \<open>
  C7: append and prepend put the new bytes after or before the value of a visible key, keep its flags and
  expiry and give it a fresh cas id, whether the item is changed in place or copied into a new
  one; they report an absent key, an oversized result and an exhausted memory, and then leave the entry as
  it was. Other entries may be evicted but never change.
\<close>

theorem item_annex_store:
  assumes "cache_inv e s" and "room 2 s" and "env_ok e s" and "pending s it"
  shows "case item_annex e b it s of ((r, out), s') \<Rightarrow> cache_inv e s' \<and>
    (case lookup s (key_of s it) of
       None \<Rightarrow> r = ANNEX_NOT_FOUND \<and> view s' = (view s)(key_of s it := None)
     | Some v \<Rightarrow> r \<noteq> ANNEX_NOT_FOUND
         \<and> (r = ANNEX_OVERSIZED \<longrightarrow> view s' = view s)
         \<and> (r = ANNEX_EOM \<longrightarrow> view s' \<subseteq>\<^sub>m view s \<and> view s' (key_of s it) = view s (key_of s it))
         \<and> (r = ANNEX_OK \<longrightarrow> view s' (key_of s it) = Some (annex_entry b s it v)
              \<and> (\<forall>k. k \<noteq> key_of s it \<longrightarrow> view s' k = None \<or> view s' k = view s k)))"
  by (rule item_annex_spec [OF assms])

theorem item_annex_store_witness:
  "case item_annex demo_env True demo_it demo_full of ((r, out), s') \<Rightarrow>
     cache_inv demo_env s' \<and> r = ANNEX_NOT_FOUND \<and> view s' = Map.empty"
  using item_annex_store [OF demo_full_state(1) demo_full_room(2,3) demo_full_state(4), of True] demo_full_state(2,5,11)
  by (simp split: prod.splits)

text \<open>
  C8: incr and decr act on a visible decimal value: the value reported is the old one plus the delta
  modulo 2 to the 64, or minus the delta but not below 0, and the entry becomes \<open>delta_entry\<close>: its decimal
  digits, with flags and expiry kept and a fresh cas id, except where a right-aligned value is rewritten in
  place. A value that is no number is reported and kept.
\<close>

theorem item_delta_store:
  assumes "cache_inv e s" and "room 2 s" and "env_ok e s"
    and "\<And>n. n \<le> 20 \<Longrightarrow> item_slabid s (length key) (of_nat n) \<noteq> SLABCLASS_INVALID_ID"
  shows "case item_delta e key incr d s of ((r, out), s') \<Rightarrow> cache_inv e s' \<and>
    (case lookup s key of
       None \<Rightarrow> r = DELTA_NOT_FOUND \<and> view s' = (view s)(key := None)
     | Some en \<Rightarrow>
         (case mc_strtoull_len (en_value en) of
            None \<Rightarrow> r = DELTA_NON_NUMERIC \<and> view s' = view s
          | Some x \<Rightarrow> out = Some (delta_value incr d x) \<and>
              (r = DELTA_EOM \<and> view s' \<subseteq>\<^sub>m view s \<and> view s' key = view s key
               \<or> r = DELTA_OK \<and> view s' key = Some (delta_entry s key (delta_value incr d x) en)
                  \<and> (\<forall>k. k \<noteq> key \<longrightarrow> view s' k = None \<or> view s' k = view s k))))"
  by (rule item_delta_spec [OF assms])

theorem item_delta_store_witness:
  "case item_delta demo_env ''k'' True 5 demo_set of ((r, out), s') \<Rightarrow>
     cache_inv demo_env s' \<and> (r = DELTA_EOM \<or> r = DELTA_OK) \<and> out = Some 12"
proof -
  have "delta_value True 5 7 = 12" by (simp add: delta_value_def)
  then show ?thesis
    using demo_number item_delta_store [OF demo_set_state(1) demo_set_room(2,3), of "''k''" True 5] demo_number_fits demo_set_state(4)
    by (auto split: prod.splits)
qed

text \<open>
  C9: once \<^verbatim>\<open>oldest_live\<close> is set, the flush unlinks exactly the items touched at or after that time, the most
  recent end of each lru queue; older items stay in the table but, once the time has come, no client sees any item.
\<close>

theorem item_flush_expired_flushes:
  assumes "cache_inv e s" and "oldest_live (settings s) \<noteq> 0"
  shows "cache_inv e (item_flush_expired s)
    \<and> linked_items (item_flush_expired s) = {a \<in> linked_items s. it_atime (items s a) < oldest_live (settings s)}
    \<and> (oldest_live (settings s) \<le> now s \<longrightarrow> lookup (item_flush_expired s) = Map.empty)"
  by (rule item_flush_expired_spec [OF assms])

theorem item_flush_expired_flushes_witness:
  "cache_inv demo_env (item_flush_expired (set_oldest_live 100 demo_set))"
  using item_flush_expired_flushes [OF inv_oldest_live [OF demo_set_state(1), of 100]]
  by (simp add: set_oldest_live_def)

section \<open>Whole runs\<close>





text \<open>
  C26: the options that are accepted are all options the program knows and make well-formed settings, whatever their order and number: the
  sizes, counts and intervals are in the ranges the code relies on, the command log runs exactly if it has a name, and the two ports are the same
  unless both were given.
\<close>

theorem options_sane:
  assumes "mc_get_options al d rs (mc_set_default_options d) = Inr o1"
    and "d_above_one d (d_MC_FACTOR d)" and "d_fraction d (d_HOTKEY_QPS_THRESHOLD d)"
  shows "opts_ok d o1 \<and> (\<forall>r. r \<in> set rs \<longrightarrow> (\<exists>c a. r = Opt c a \<and> handled c))
    \<and> (op_tcp o1 \<and> op_udp o1 \<or> st_udpport (op_conf o1) = st_port (op_conf o1))"
  using mc_get_options_ok [OF assms(1) default_options_ok [OF assms(2,3)]] mc_get_options_handled [OF assms(1)]
    mc_get_options_ports [OF assms(1)] by blast

theorem options_sane_witness:
  "opts_ok demo_dbl demo_opts \<and> st_udpport (op_conf demo_opts) = 22122"
  using options_sane [OF demo_opts_run]
  by (auto simp: demo_dbl_def demo_opts_def upd_conf_def upd_set_def mc_set_default_options_def)



section \<open>Slabs\<close>

text \<open>
  C16: the binary search for the class of an item returns the smallest class whose chunks are large
  enough, and the invalid id exactly when no class is.
\<close>

theorem slab_id_smallest:
  assumes "ascending (slab_item_size s) (slabclass_max_id s)" and "slabclass_max_id s \<le> SLABCLASS_MAX_ID"
  shows "(slab_id s n \<noteq> SLABCLASS_INVALID_ID \<longrightarrow> SLABCLASS_MIN_ID \<le> slab_id s n \<and> slab_id s n \<le> slabclass_max_id s
      \<and> n \<le> slab_item_size s (slab_id s n)
      \<and> (\<forall>j. SLABCLASS_MIN_ID \<le> j \<and> j < slab_id s n \<longrightarrow> slab_item_size s j < n))
    \<and> (slab_id s n = SLABCLASS_INVALID_ID \<longrightarrow>
      (\<forall>j. SLABCLASS_MIN_ID \<le> j \<and> j \<le> slabclass_max_id s \<longrightarrow> slab_item_size s j < n))"
  using slab_id_spec [OF assms refl, of n] by blast

theorem slab_id_smallest_witness:
  "slab_id demo_boot 105 = SLABCLASS_INVALID_ID"
proof -
  have c: "ascending (slab_item_size demo_boot) (slabclass_max_id demo_boot)" "slabclass_max_id demo_boot \<le> SLABCLASS_MAX_ID"
    using demo_boot_state(1) by (auto simp: cache_inv_iff cache_inv_L_def class_ok_def)
  show ?thesis
  proof (rule ccontr)
    assume n: "slab_id demo_boot 105 \<noteq> SLABCLASS_INVALID_ID"
    then have "slab_id demo_boot 105 = 1" "105 \<le> slab_item_size demo_boot (slab_id demo_boot 105)"
      using slab_id_smallest [OF c, of 105] demo_boot_state(4) by (auto simp: SLABCLASS_MIN_ID_def)
    then show False using demo_boot_state(5) by simp
  qed
qed

text \<open>
  C17: evicting a slab nobody references unlinks exactly the items in it, keeps the content of every other
  linked item, takes the slab out of use and keeps the invariant.
\<close>

theorem slab_evict_one_exact:
  assumes "cache_inv e s" and "p \<in> active s" and "sl_refcount (slabs s p) = 0"
  shows "cache_inv_L {} e (slab_evict_one p s) \<and> active (slab_evict_one p s) = active s - {p}
    \<and> linked_items (slab_evict_one p s) = linked_items s - chunks s p
    \<and> (\<forall>a. a \<in> linked_items (slab_evict_one p s) \<longrightarrow> items (slab_evict_one p s) a = items s a)
    \<and> view (slab_evict_one p s) \<subseteq>\<^sub>m view s"
proof -
  have i: "cache_inv_L {} e s" using assms(1) by (simp add: cache_inv_iff)
  note E = slab_evict_one_inv [OF i assms(2,3) refl]
  have p: "preserves s (slab_evict_one p s)" using E(2) by (simp add: keeps_def)
  from preserves_view [OF i E(1) p] E(1,3,4) p show ?thesis by (simp add: preserves_def)
qed

theorem slab_evict_one_exact_witness:
  "linked_items (slab_evict_one demo_slab demo_free) = linked_items demo_free - chunks demo_free demo_slab"
  using slab_evict_one_exact [OF demo_free_state] by simp

section \<open>The hash table\<close>



text \<open>
  C19: the maintenance thread is invisible and finishes: each of its rounds keeps every lookup, and after as
  many rounds as there were buckets the expansion is over.
\<close>

theorem assoc_maintenance_correct:
  assumes "assoc_inv kf a" and "expanding a" and "nhash_move_size a = 1"
  shows "assoc_find kf (assoc_maintenance kf a) = assoc_find kf a
    \<and> \<not> expanding ((assoc_maintenance kf ^^ HASHSIZE (hash_power a - 1)) a)"
  using assoc_idx.lookup_upkeep [OF assms(1)] assoc_maintenance_ends [OF assms(1,2)] assms(3) by simp

theorem assoc_maintenance_correct_witness:
  "\<not> expanding ((assoc_maintenance (\<lambda>p. ''x'') ^^ HASHSIZE (hash_power (assoc_expand True demo_table) - 1)) (assoc_expand True demo_table))"
  using assoc_maintenance_correct [OF demo_table_expanding(1), of "\<lambda>p. ''x''"] demo_table_expanding(2,3) by blast

text \<open>
  C30: the hash of a key does not depend on the alignment of the key in memory: the word-wise, the
  half-word-wise and the byte-wise code compute the same function of the bytes of the key, and so do the two paths of the body
  for big-endian machines.
\<close>

theorem hash_of_bytes:
  "hash m key n initval = hash_bytes (rd_bytes m key n) initval \<and> hash_big m key n initval = hash_big_bytes (rd_bytes m key n) initval"
  by (rule conjI [OF hash_rd_bytes hash_big_rd_bytes])

section \<open>Numbers\<close>

text \<open>
  C31: the number parser of incr and decr accepts exactly decimal digits between white space (a blank string
  counts as 0) and returns their value, for values up to the largest 64-bit number less 6; larger ones are rejected. So a counter written by incr or decr is
  read back as the same number, unless it is one of the six largest: those are stored but no later incr or decr accepts them.
\<close>

theorem mc_strtoull_len_exact:
  "(mc_strtoull_len str = Some v \<longleftrightarrow>
      (\<exists>ws ds ws'. str = ws @ ds @ ws' \<and> list_all isspace ws \<and> list_all isdigit ds
         \<and> list_all isspace ws' \<and> unat v = dec_val ds \<and> dec_val ds \<le> UINT64_MAX - 6))
   \<and> mc_strtoull_len (print_dec (unat w)) = (if unat w \<le> UINT64_MAX - 6 then Some w else None)"
  using mc_strtoull_len_iff counter_reread by (simp add: list_all_iff)

section \<open>Queues\<close>

text \<open>
  C32: the tail queue macros implement lists, for any number of queues whose elements are linked by the same fields: an insertion at either end and
  a removal change the list of their queue accordingly and no other, and the loops forward and backward, whose last step goes
  through the head seen as an entry, visit the elements of the list in order.
\<close>

theorem tailq_links:
  assumes "queues (qrel True True) Q s"
  shows "((\<forall>g. x \<notin> set (Q g)) \<longrightarrow> queues (qrel True True) (Q(h := x # Q h)) (TAILQ_INSERT_HEAD h x s)
      \<and> queues (qrel True True) (Q(h := Q h @ [x])) (TAILQ_INSERT_TAIL h x s))
    \<and> (y \<in> set (Q h) \<longrightarrow> queues (qrel True True) (Q(h := remove1 y (Q h))) (TAILQ_REMOVE h y s))
    \<and> (length (Q h) < n \<longrightarrow> foreach n s (hd_first s h) = Q h \<and> foreach_reverse n s (TAILQ_LAST h s) = rev (Q h))"
proof -
  have q: "qrel True True h (Q h @ []) s" using assms by (simp add: queues_def)
  then show ?thesis
    using tailq.queues_insert_head [OF assms] tailq.queues_insert_tail [OF assms] tailq.queues_remove [OF assms] foreach_queue [of True True h "Q h" s n]
      foreach_reverse_queue [OF q] tailq_last [of h "Q h" s] by auto
qed

theorem tailq_links_witness:
  "case TAILQ_INSERT_TAIL 1 5 demo_links of s \<Rightarrow> queues (qrel True True) ((\<lambda>_. [])(1 := [5])) s \<and> queues (qrel True True) (\<lambda>_. []) demo_links"
  using tailq_links [OF demo_links_state, of 5 1] demo_links_state by simp

section \<open>Time\<close>

text \<open>
  C33: a positive expiry, relative up to 30 days and absolute above, becomes its distance from the start of the
  server; an absolute time before the start becomes 1, which has always passed, and never 0, which would mean no expiry.
\<close>

theorem time_reltime_exact:
  assumes "0 < exptime" and "expiry_abs exptime ck - process_started ck < 2 ^ 32"
  shows "uint (time_reltime exptime ck) = max 1 (expiry_abs exptime ck - process_started ck)"
  by (rule time_reltime_value [OF assms])

theorem time_reltime_exact_witness: "uint (time_reltime 60 demo_clock) = 65"
  using time_reltime_exact [of 60 demo_clock]
  by (simp add: demo_clock_def expiry_abs_def TIME_MAXDELTA_def time_now_abs_def)

section \<open>The ring array\<close>

text \<open>
  C34: the ring array is a bounded queue: a push appends to the queue or, exactly when it holds as many elements as its
  capacity, is refused; a pop takes the oldest element, or nothing exactly when the queue is empty. The 32-bit positions
  wrap around without an effect.
\<close>

theorem ring_array_refines_queue:
  assumes "ring_inv arr"
  shows "(case ring_array_push x arr of (st, arr') \<Rightarrow> ring_inv arr' \<and>
      (if length (ring_list arr) < unat (ra_cap arr) then st = MC_OK \<and> ring_list arr' = ring_list arr @ [x]
       else st = MC_ERROR \<and> arr' = arr))
    \<and> (case ring_array_pop arr of (r, arr') \<Rightarrow> ring_inv arr' \<and>
      (case ring_list arr of [] \<Rightarrow> r = None \<and> arr' = arr | y # ys \<Rightarrow> r = Some y \<and> ring_list arr' = ys))"
proof -
  obtain st a1 r a2 where "ring_array_push x arr = (st, a1)" "ring_array_pop arr = (r, a2)" by fastforce
  then show ?thesis
    using ring.inv_push [OF assms, of x] ring.inv_pop [OF assms] ring.push_eq [OF assms, of x st a1] ring.pop_eq [OF assms, of r a2]
    by (auto split: list.splits)
qed

theorem ring_array_refines_queue_witness:
  "case ring_array_push 7 demo_ring of (st, arr') \<Rightarrow> ring_inv arr' \<and> st = MC_OK \<and> ring_list arr' = [7]"
  using ring_array_refines_queue [OF demo_ring_state(1), of 7] demo_ring_state(2,3) by (simp split: prod.splits)



section \<open>Hotkey detection\<close>





text \<open>
  C37: the lookup of the protocol layer returns what the cache holds for a visible key and changes nothing a client can
  see, except that with detection on the two lowest bits of the flags the client stored are replaced by the signal.
\<close>

theorem item_get_signals:
  assumes "cache_inv e s" "room 1 s" and "hot_inv K h" "key_valid key"
  shows "\<exists>r h' s'. item_get key us (h, s) = Some (r, h', s') \<and> cache_inv e s' \<and> (\<exists>K'. hot_inv K' h') \<and>
    (case lookup s key of
       None \<Rightarrow> r = None \<and> view s' = (view s)(key := None) \<and> h' = h
     | Some v \<Rightarrow> (\<exists>it fl. r = Some it \<and> entry_of s' it = v\<lparr>en_dataflags := fl\<rparr>
         \<and> view s' = (view s)(key \<mapsto> v\<lparr>en_dataflags := fl\<rparr>)
         \<and> (if set_hotkey_enable h then fl AND NOT 3 = en_dataflags v AND NOT 3 \<and> fl AND 3 \<in> {0, ITEM_HOT_QPS, ITEM_HOT_BW}
            else fl = en_dataflags v \<and> h' = h)))"
  by (rule item_get_hot [OF assms])

theorem item_get_signals_witness:
  "\<exists>it h' s'. item_get ''k'' 0 (demo_hotkey, demo_set) = Some (Some it, h', s') \<and> cache_inv demo_env s'"
  using item_get_signals [OF demo_set_state(1) demo_set_room(1) demo_hot_inv, of "''k''" 0] demo_set_state(4)
  by (auto simp: key_valid_def)

section \<open>The object cache\<close>

text \<open>
  C38: the pool of suffix buffers loses nothing and hands nothing out twice: in every state reached by allocating and freeing,
  the objects in the pool and those in the hands of clients are distinct, and the memory metric is what the array and
  all the objects take, plus one object for each allocation that failed.
\<close>

theorem pool_conserves:
  assumes "pool base out fails c m"
  shows "oc_inv c \<and> distinct (out @ oc_stack c)
    \<and> mem_curr m = base + int (PTR_SIZE * oc_freetotal c + oc_bufsize c * (length (oc_stack c) + length out + fails))
    \<and> (out = [] \<and> fails = 0 \<longrightarrow> fst (cache_destroy c m) = oc_stack c \<and> mem_curr (snd (cache_destroy c m)) = base)"
  using pool_inv [OF assms] pool_destroy [of base c m] assms by (auto split: prod.splits)

theorem pool_conserves_witness:
  "mem_curr (snd (cache_create ''suffix'' 44 True demo_metrics)) = 512 \<and> fst (cache_destroy demo_pool (snd (cache_create ''suffix'' 44 True demo_metrics))) = []"
  using pool_conserves [OF demo_pool_run]
  by (simp add: demo_pool_def cache_create_def Let_def initial_pool_size_def PTR_SIZE_def oc_stack_def)

section \<open>The ascii protocol\<close>

text \<open>
  C22: the tokenizer cuts a line into its words: the tokens but the last are the first words of the line, and the last token has length
  0 and points to a rest of the line that holds exactly the other words, or to nothing when there are none.
\<close>

theorem tokens_are_words:
  assumes "1 < m"
  shows "map tok_str (butlast (asc_tokenize line m)) = take (m - 1) (line_words line)
    \<and> (\<forall>t \<in> set (butlast (asc_tokenize line m)). tok_val t \<noteq> None \<and> 0 < tok_len t)
    \<and> asc_tokenize line m \<noteq> [] \<and> tok_len (last (asc_tokenize line m)) = 0
    \<and> (case tok_val (last (asc_tokenize line m)) of
         None \<Rightarrow> length (line_words line) < m | Some rest \<Rightarrow> line_words rest = drop (m - 1) (line_words line))"
  using asc_tokenize_words [OF assms] by blast

theorem tokens_are_words_witness:
  "map tok_str (butlast (asc_tokenize ''get  a b'' 3)) = [''get'', ''a'']"
  using tokens_are_words [of 3 "''get  a b''"] by (simp add: numeral_eq_Suc)

text \<open>
  C24: an aggregation makes every metric of the aggregator the sum of the metrics of the threads, class by class for those of the slabs, and the maxima
  follow. The summary over the classes, which is what the stats command shows, leaves out the last class.
\<close>

theorem aggregate_sums:
  assumes "\<forall>w \<in> set ws. worker_metrics_ok w" and "ag' = stats_aggregate ts ws ag"
    and "SLABCLASS_MIN_ID \<le> cid" "cid \<le> SLABCLASS_MAX_ID" and "ag_tmax ag j = Maximum y"
  shows "metric_net (ag_thread ag' j) = (\<Sum>w\<leftarrow>ws. metric_net (fst w j))
    \<and> metric_net (ag_slabs ag' cid k) = (\<Sum>w\<leftarrow>ws. metric_net (snd w cid k))
    \<and> metric_net (ag_slabs ag' 0 k) = (\<Sum>cid\<leftarrow>[SLABCLASS_MIN_ID..<SLABCLASS_MAX_ID]. \<Sum>w\<leftarrow>ws. metric_net (snd w cid k))
    \<and> ag_tmax ag' j = Maximum (max y (\<Sum>w\<leftarrow>ws. metric_net (fst w j)))"
  using aggregate_sums_spec [OF assms(1,2)] assms(3-5) by simp

theorem aggregate_sums_witness:
  "metric_net (ag_thread (stats_aggregate (0, 0) [demo_worker, demo_worker] (stats_init demo_set)) THREAD_get) = 6"
  using aggregate_sums [of "[demo_worker, demo_worker]" _ "(0, 0)" "stats_init demo_set" 1 THREAD_get 0, OF _ refl] demo_worker_ok
  by (simp add: SLABCLASS_MIN_ID_def SLABCLASS_MAX_ID_def stats_init_def)

text \<open>
  C13: a delete request over a stream, from its line in the read buffer to the last byte of the reply: in whatever pieces the peer takes the
  reply, the machine comes back to the state in which it looks for the next request, with exactly the line taken from the input, the key and no other
  gone from the cache, and a reply that says whether it was visible, or none with \<^verbatim>\<open>noreply\<close>.
\<close>

theorem delete_served:
  fixes d :: "'d drv"
  assumes "send_ok (h_net h)" "peer_takes (h_net h)"
    and "cache_inv e (sv_cache (dv_srv d))" "room 1 (sv_cache (dv_srv d))"
    and "next_line line rest d" and "request [''delete'', key] nr line" and "length key \<le> KEY_MAX_LEN"
  shows "\<exists>d'. core_run h n d n d' \<and> line_done rest d' \<and> cache_inv e (sv_cache (dv_srv d'))
    \<and> view (sv_cache (dv_srv d')) = (view (sv_cache (dv_srv d)))(key := None) \<and> dv_in d' = dv_in d
    \<and> dv_out d' = dv_out d @ (if nr then [] else (if lookup (sv_cache (dv_srv d)) key = None then ''NOT_FOUND'' else ''DELETED'') @ CRLF)"
  by (rule delete_served_spec [OF assms])

theorem delete_served_witness:
  "\<exists>d'. core_run demo_host 20 (demo_drv (''delete k'' @ CRLF)) 20 d' \<and> line_done [] d' \<and> view (sv_cache (dv_srv d')) ''k'' = None
     \<and> dv_out d' = ''DELETED'' @ CRLF"
proof -
  have l: "next_line ''delete k'' [] (demo_drv (''delete k'' @ CRLF))" by (rule demo_next_line) simp_all
  from delete_served [of demo_host demo_env "demo_drv (''delete k'' @ CRLF)", unfolded demo_host_fields demo_drv_fields demo_srv_fields,
      OF demo_host_fields(3,4) demo_set_state(1) demo_set_room(1) l demo_request(1), of 20]
  show ?thesis using demo_set_state(4) by (simp add: KEY_MAX_LEN_def) (metis fun_upd_same)
qed





text \<open>
  C14: when the announced bytes have arrived, set, cas, add and replace are carried out exactly as the protocol says, with the reply that
  says so, unless the bytes do not end in the end of a line, which is an error that changes nothing; the reference of the connection to its item is
  given back either way.
\<close>

theorem storage_completed:
  fixes sv :: "'d srv"
  assumes "rt \<in> {REQ_SET, REQ_CAS, REQ_ADD, REQ_REPLACE}" and "awaiting (x_env x) key fl ex n it sv"
    and "klog_ok sv" and "asked rt nr sv" and "length bs = n + CRLF_LEN"
    and "sv' = asc_complete_nread x (up_cache (item_write it (item_data (sv_cache sv) it) bs) sv)"
  shows "cache_inv (x_env x) (sv_cache sv') \<and> c_item (sv_conn sv') = None \<and>
    (if drop n bs = CRLF then
       (case store_outcome rt (lookup (sv_cache sv) key) (item_get_cas (items (sv_cache sv) it)) of
          (str, ok) \<Rightarrow> reply_is nr str sv' \<and> view (sv_cache sv') = store_view ok key
             \<lparr>en_value = take n bs, en_dataflags = fl, en_exptime = ex, en_cas = next_cas (sv_cache sv)\<rparr> (lookup (sv_cache sv) key) (view (sv_cache sv)))
     else reply_is nr ''CLIENT_ERROR'' sv' \<and> view (sv_cache sv') = view (sv_cache sv))"
  by (rule complete_nread_spec [OF assms])

theorem storage_completed_witness:
  "case asc_complete_nread demo_world (up_cache (item_write demo_it (item_data (sv_cache demo_wait) demo_it) (''9'' @ CRLF)) demo_wait) of sv' \<Rightarrow>
     reply_is False ''STORED'' sv' \<and> map_option en_value (view (sv_cache sv') ''k'') = Some ''9''"
  using storage_completed [of REQ_SET demo_world "''k''" 0 0 1 demo_it demo_wait False "''9'' @ CRLF", OF _ _ _ _ _ refl] demo_wait_state
  by (simp add: store_outcome_def store_view_def CRLF_LEN_def)

text \<open>
  C12: set, add and replace over a stream, from the line in the read buffer to the last byte of the reply. In whatever pieces the value arrives
  and the reply is taken, the machine comes back to look for the next request with exactly the line and the announced bytes taken from
  the input, the value stored as the protocol says (\<open>store_done\<close>, where the map before is the old one less what was evicted to make room), and the
  reply that says so; or, when there was no memory, with the key dropped, the value skipped and an error sent. The exception
  the code makes is visible: with \<^verbatim>\<open>noreply\<close> and no memory the value is not skipped and will be read as requests.
\<close>

theorem update_served:
  fixes d :: "'d drv"
  assumes "send_ok (h_net h)" "peer_takes (h_net h)" "peer_gives (h_net h)"
    and "e = x_env (h_world h)" and "s = sv_cache (dv_srv d)"
    and "cache_inv e s" "room 2 s" "env_ok e s" and "next_line line rest d" and "u \<in> {''set'', ''add'', ''replace''}"
    and "request [u, key, print_dec f, print_dec t, print_dec n] nr line" and "length key \<le> KEY_MAX_LEN"
    and "f < 2 ^ 32" "t < 2 ^ 31" "n < 2 ^ 32" and "item_slabid s (length key) (of_nat n) \<noteq> SLABCLASS_INVALID_ID"
  shows "\<exists>d' new sent. core_run h m d m d' \<and> dv_in d' = dv_in d @ new \<and> dv_out d' = dv_out d @ sent
    \<and> update_done e (command_type u) nr key (if set_hotkey_enable (sv_hot (dv_srv d)) then 0 else of_nat f)
         (time_reltime (int t) (sv_clock (dv_srv d))) n s (rest @ new) sent d'"
  by (rule update_served_spec [OF assms])

theorem update_served_witness:
  "\<exists>d'. core_run demo_host 20 (demo_drv (''set k 0 0 1 noreply'' @ CRLF @ ''9'' @ CRLF)) 20 d' \<and> dv_out d' = []
     \<and> cache_inv demo_env (sv_cache (dv_srv d'))"
proof -
  let ?in = "''set k 0 0 1 noreply'' @ CRLF @ ''9'' @ CRLF"
  have l: "next_line ''set k 0 0 1 noreply'' (''9'' @ CRLF) (demo_drv ?in)" by (rule demo_next_line) simp_all
  have c: "item_slabid demo_set (length ''k'') (of_nat 1) \<noteq> SLABCLASS_INVALID_ID" using demo_number_fits [of 1] by simp
  from update_served [of demo_host demo_env demo_set "demo_drv ?in" "''set k 0 0 1 noreply''" "''9'' @ CRLF" "''set''" "''k''" 0 0 1 True 20,
      unfolded demo_host_fields demo_drv_fields demo_srv_fields,
      OF demo_host_fields(3,4,5) refl refl demo_set_state(1) demo_set_room(2,3) l _ demo_request(3) _ _ _ _ c]
  obtain d' new sent rt fl ex where "core_run demo_host 20 (demo_drv ?in) 20 d'" "dv_out d' = [] @ sent"
      "update_done demo_env rt True ''k'' fl ex 1 demo_set ((''9'' @ CRLF) @ new) sent d'"
    by (simp add: KEY_MAX_LEN_def) blast
  then show ?thesis by (auto simp: update_done_def store_done_def split: prod.splits)
qed

section \<open>What a connection sends\<close>

text \<open>
  C21: adding a buffer to what a connection is to send appends its bytes, all of them unless memory runs out, and the messages they are cut into
  respect the limits: at most \<open>IOV_MAX\<close> parts each, and at most \<open>UDP_MAX_PAYLOAD_SIZE\<close> bytes in a datagram and in the first message of a stream.
\<close>

theorem conn_add_iov_appends:
  assumes "msgs_rel segs c" and "conn_add_iov al buf len (c, m) = (st, c', m')" and "fst buf \<notin> {O_null, O_udp}"
  shows "frame_iov c' = frame_iov c \<and> (\<exists>segs'. msgs_rel segs' c') \<and>
    (\<exists>n \<le> len. payload mm c' = payload mm c @ rd_bytes (mm (fst buf)) (snd buf) n \<and> (st = MC_OK \<longrightarrow> n = len))"
  by (rule conn_add_iov_rel [OF assms])

theorem conn_add_iov_appends_witness:
  "\<exists>st c' m'. conn_add_iov (\<lambda>_. True) (O_wbuf, 0) 3 (demo_sending, demo_metrics) = (st, c', m') \<and> (\<exists>segs. msgs_rel segs c')"
proof -
  obtain st c' m' where "conn_add_iov (\<lambda>_. True) (O_wbuf, 0) 3 (demo_sending, demo_metrics) = (st, c', m')" by (metis surj_pair)
  then show ?thesis using conn_add_iov_appends [OF demo_sending_rel, of "\<lambda>_. True" "(O_wbuf, 0)" 3 demo_metrics st c' m'] by auto
qed

text \<open>
  C20: a call of \<^verbatim>\<open>core_transmit\<close> moves bytes from the front of what is pending to the socket and loses or repeats none, wherever the
  kernel cuts the message; it reports that it is done only when nothing is pending, and makes progress whenever it reports that there is more.
\<close>

theorem transmit_keeps_order:
  assumes "send_ok (h_net h)" and "msgs_chained (dv_conn d)" and "core_transmit h d = (r, d')"
  shows "dv_out d' @ pending_out (dv_srv d') = dv_out d @ pending_out (dv_srv d) \<and> msgs_chained (dv_conn d')
    \<and> (r = TRANSMIT_COMPLETE \<longrightarrow> pending_out (dv_srv d') = [])
    \<and> (r = TRANSMIT_INCOMPLETE \<longrightarrow> length (pending_out (dv_srv d')) < length (pending_out (dv_srv d)))
    \<and> (r = TRANSMIT_HARD_ERROR \<and> \<not> c_udp (dv_conn d) \<longrightarrow> c_state (dv_conn d') = CONN_CLOSE)"
  using core_transmit_sends [OF assms] by blast

theorem transmit_keeps_order_witness:
  "case core_transmit demo_host demo_out of (r, d') \<Rightarrow> dv_out d' @ pending_out (dv_srv d') = ''STORED'' @ CRLF"
proof -
  obtain r d' where t: "core_transmit demo_host demo_out = (r, d')" by fastforce
  show ?thesis using transmit_keeps_order [of demo_host, OF _ demo_out_state(1) t] demo_out_state(2,3) t by simp
qed

section \<open>Threads\<close>



text \<open>
  C27: the start of the threads. When the main thread goes on, every thread has counted itself, and every worker was set up and finds all
  its members under its keys, however the threads were interleaved and also when a wait ends without a signal; every step brings the start
  closer to its end; and if no call fails, no wake-up is lost: the only state in which nobody can take a step is the one in which the main thread is done
  and all others are in their event loops.
\<close>

theorem threads_start:
  assumes "thread_prepare zalloc keyc da as cas k = (MC_OK, ts, tls)" and "a = thread_answers as ts ga ka intvl kintvl g h" and "init_reach a s"
  shows "(init_main s = M_done \<longrightarrow> (\<forall>i. i < length as + 2 \<longrightarrow> counted (init_thread s i))
      \<and> (\<forall>i. i < length as \<longrightarrow> worker_ready cas (ts ! i)
           \<and> thread_setkeys (ta_setspecific (as ! i)) (ts ! i) (\<lambda>_. False) = (MC_OK, \<lambda>_. True)))
    \<and> (\<forall>s'. init_step a s s' \<longrightarrow> init_rank (length as) s' < init_rank (length as) s)
    \<and> (init_succeeds a \<longrightarrow>
        ((\<nexists>s'. init_step a s s') \<longleftrightarrow> init_main s = M_done \<and> (\<forall>i. i < length as + 2 \<longrightarrow> init_thread s i = T_loop)))"
proof -
  have n: "ia_n a = length as" by (simp add: assms(2) thread_answers_def)
  show ?thesis
    using threads_started [OF assms] init_done_counted [OF assms(3)] init_step_rank [OF _ init_reach_inv [OF assms(3)]]
      stuck_done [OF assms(3)] done_stuck [OF assms(3)] unfolding n by blast
qed

theorem threads_start_witness:
  "\<exists>s. init_reach demo_init s \<and> init_main s = M_done \<and> counted (init_thread s 3) \<and> worker_ready True (demo_workers ! 1)"
proof -
  obtain s where s: "init_reach demo_init s" "init_main s = M_done" using demo_started by blast
  obtain tls where "thread_prepare True (\<lambda>_. True) demo_thread [demo_thread, demo_thread] True demo_klog = (MC_OK, demo_workers, tls)"
    using demo_prepared by blast
  from threads_start [OF this demo_init_def s(1)] show ?thesis using s by (auto intro!: exI [of _ s])
qed



section \<open>The command log\<close>



end
